(* ===== verification/Soc_Prelude.thy ===== *)
theory Soc_Prelude
  imports Main "HOL-Library.Word"
begin

text \<open>
  Shared vocabulary of the development.

  \<^item> Python's unbounded integers are \<^typ>\<open>int\<close>; \<open>x << n\<close>, \<open>x >> n\<close>, \<open>x & y\<close>,
    \<open>x | y\<close>, \<open>~x\<close> are \<open>shl\<close>, \<open>shr\<close>, \<open>AND\<close>, \<open>OR\<close>, \<open>NOT\<close> of the library's
    bit operations on \<^typ>\<open>int\<close> (two's complement, arbitrary width, as in Python).
  \<^item> A function that can raise returns \<open>'e + 'a\<close>, with \<open>Inl\<close> the exception.
    \<open>first_error\<close> is a straight-line sequence of checks, \<open>map_r\<close> a comprehension and
    \<open>foldl_r\<close> a loop whose body can raise.
  \<^item> The collection \<open>bit_arith\<close> turns masks and shifts by constants into \<open>div\<close> and
    \<open>mod\<close>; \<open>bits_of\<close> reads an integer as the set of its one bits, which is how pin
    masks and slot bitmaps are reasoned about.
\<close>

unbundle bit_operations_syntax

named_theorems bit_arith \<open>masks and shifts by constants as div and mod\<close>
named_theorems result_simps \<open>success of checks, comprehensions and loops that can raise\<close>
named_theorems bits_simps \<open>one bits of masks\<close>

section \<open>Python shifts and masks\<close>

abbreviation shl :: "int \<Rightarrow> int \<Rightarrow> int" where
  "shl x n \<equiv> push_bit (nat n) x"

abbreviation shr :: "int \<Rightarrow> int \<Rightarrow> int" where
  "shr x n \<equiv> drop_bit (nat n) x"

lemma int_and_mask: "(x::int) AND (2 ^ n - 1) = x mod 2 ^ n"
  by (simp add: take_bit_eq_mod [symmetric] take_bit_eq_mask mask_eq_exp_minus_1)

lemma and_low_bits_upto_byte [bit_arith]:
  "(x::int) AND 1 = x mod 2" "(x::int) AND 3 = x mod 4" "(x::int) AND 7 = x mod 8"
  "(x::int) AND 15 = x mod 16" "(x::int) AND 31 = x mod 32" "(x::int) AND 63 = x mod 64"
  "(x::int) AND 127 = x mod 128" "(x::int) AND 255 = x mod 256"
  by (rule int_and_mask [of x 1, simplified] int_and_mask [of x 2, simplified]
      int_and_mask [of x 3, simplified] int_and_mask [of x 4, simplified]
      int_and_mask [of x 5, simplified] int_and_mask [of x 6, simplified]
      int_and_mask [of x 7, simplified] int_and_mask [of x 8, simplified])+

lemma and_low_bits_wide [bit_arith]:
  "(x::int) AND 2047 = x mod 2048" "(x::int) AND 4095 = x mod 4096"
  "(x::int) AND 65535 = x mod 65536" "(x::int) AND 131071 = x mod 131072"
  "(x::int) AND 16777215 = x mod 16777216" "(x::int) AND 4294967295 = x mod 4294967296"
  by (rule int_and_mask [of x 11, simplified] int_and_mask [of x 12, simplified]
      int_and_mask [of x 16, simplified] int_and_mask [of x 17, simplified]
      int_and_mask [of x 24, simplified] int_and_mask [of x 32, simplified])+

lemmas shift_arith [bit_arith] = push_bit_eq_mult drop_bit_eq_div

lemma or_shift_add:
  assumes "0 \<le> x" "x < 2 ^ n"
  shows "x OR push_bit n y = x + y * 2 ^ n" and "push_bit n y OR x = y * 2 ^ n + (x::int)"
proof -
  have "x = take_bit n x"
    using assms by (simp add: take_bit_int_eq_self)
  then have small: "k < n" if "bit x k" for k
    using that by (metis bit_take_bit_iff)
  have "x + push_bit n y = x OR push_bit n y"
    by (intro disjunctive_add) (use small in \<open>force simp: bit_push_bit_iff\<close>)
  then show "x OR push_bit n y = x + y * 2 ^ n" and "push_bit n y OR x = y * 2 ^ n + x"
    by (simp_all add: push_bit_eq_mult or.commute)
qed

lemma replace_low_bits:
  assumes "0 \<le> t" "t < 2 ^ n"
  shows "(x AND NOT (2 ^ n - 1)) OR t = x - x mod 2 ^ n + (t::int)"
proof -
  have "x AND NOT (2 ^ n - 1) = push_bit n (drop_bit n x)"
    by (intro bit_eqI)
      (auto simp: bit_and_iff bit_not_iff bit_push_bit_iff bit_drop_bit_eq bit_mask_iff
        mask_eq_exp_minus_1 [symmetric])
  then show ?thesis
    using or_shift_add(2) [OF assms, of "drop_bit n x"]
    by (simp add: drop_bit_eq_div minus_mod_eq_div_mult [symmetric])
qed

section \<open>Integers as sets of bits\<close>

definition bits_of :: "int \<Rightarrow> nat set" where
  "bits_of x = {n. bit x n}"

lemma bits_of_ops [bits_simps]:
  "bits_of (x AND y) = bits_of x \<inter> bits_of y"
  "bits_of (x OR y) = bits_of x \<union> bits_of y"
  "bits_of (NOT x) = - bits_of x"
  "bits_of 0 = {}"
  by (auto simp: bits_of_def bit_and_iff bit_or_iff bit_not_iff)

lemma bits_of_push_bit: "bits_of (push_bit k x) = (\<lambda>n. n + k) ` bits_of x"
  by (auto simp: bits_of_def bit_push_bit_iff image_iff le_iff_add add.commute)

lemma bits_of_eq_iff: "bits_of x = bits_of y \<longleftrightarrow> x = y"
  by (auto simp: bits_of_def bit_eq_iff set_eq_iff)

lemma bits_of_empty_iff [bits_simps]: "bits_of x = {} \<longleftrightarrow> x = 0"
  using bits_of_eq_iff [of x 0] by (simp add: bits_of_ops)

lemma bits_of_exp [bits_simps]: "bits_of (2 ^ k) = {k}"
  by (auto simp: bits_of_def bit_exp_iff)

lemma bits_of_mask [bits_simps]: "bits_of (2 ^ l - 1) = {..<l}"
  by (auto simp: bits_of_def mask_eq_exp_minus_1 [symmetric] bit_mask_iff)

lemma bits_of_region [bits_simps]: "bits_of (push_bit b (2 ^ l - 1)) = {b..<b + l}"
proof -
  have "(\<lambda>n. n + b) ` {..<l} = {b..<b + l}"
    by (auto simp: image_iff Bex_def) (metis add.commute le_Suc_ex nat_add_left_cancel_less)
  then show ?thesis by (simp add: bits_of_push_bit bits_of_mask)
qed

lemma and_not_zero_iff: "x AND NOT y = 0 \<longleftrightarrow> bits_of x \<subseteq> bits_of y"
proof -
  have "x AND NOT y = 0 \<longleftrightarrow> bits_of (x AND NOT y) = {}"
    by (simp only: bits_of_empty_iff)
  then show ?thesis by (auto simp: bits_of_ops)
qed

lemma and_zero_iff: "x AND y = 0 \<longleftrightarrow> bits_of x \<inter> bits_of y = {}"
  by (metis bits_of_empty_iff bits_of_ops(1))

lemma and_eq_self_iff: "x AND y = y \<longleftrightarrow> bits_of y \<subseteq> bits_of x"
  by (metis Int_absorb1 Int_lower1 bits_of_eq_iff bits_of_ops(1))

lemma and_bit_zero_iff: "x AND 2 ^ k = 0 \<longleftrightarrow> k \<notin> bits_of x"
  by (simp add: and_zero_iff bits_of_exp)

lemma bits_of_nonneg_le:
  assumes "0 \<le> x" "bits_of x \<subseteq> {..<n}"
  shows "x < 2 ^ n"
proof -
  have "take_bit n x = x"
    using assms(2) by (intro bit_eqI) (auto simp: bit_take_bit_iff bits_of_def)
  then show ?thesis by (metis take_bit_int_less_exp)
qed

lemma bits_of_lt_exp:
  assumes "0 \<le> x" "x < 2 ^ n"
  shows "bits_of x \<subseteq> {..<n}"
proof -
  have "take_bit n x = x" using assms by (simp add: take_bit_int_eq_self)
  then show ?thesis by (metis (no_types) bits_of_def bit_take_bit_iff lessThan_iff mem_Collect_eq subsetI)
qed

section \<open>Functions that can raise\<close>

definition raise_if :: "bool \<Rightarrow> 'e \<Rightarrow> 'e + unit" where
  "raise_if b e = (if b then Inl e else Inr ())"

definition bind_r :: "'e + 'a \<Rightarrow> ('a \<Rightarrow> 'e + 'b) \<Rightarrow> 'e + 'b" where
  "bind_r m f = (case m of Inl e \<Rightarrow> Inl e | Inr x \<Rightarrow> f x)"

fun first_error :: "('e + unit) list \<Rightarrow> 'e + unit" where
  "first_error [] = Inr ()"
| "first_error (c # cs) = (case c of Inl e \<Rightarrow> Inl e | Inr _ \<Rightarrow> first_error cs)"

fun map_r :: "('a \<Rightarrow> 'e + 'b) \<Rightarrow> 'a list \<Rightarrow> 'e + 'b list" where
  "map_r f [] = Inr []"
| "map_r f (x # xs) = bind_r (f x) (\<lambda>y. bind_r (map_r f xs) (\<lambda>ys. Inr (y # ys)))"

fun foldl_r :: "('s \<Rightarrow> 'a \<Rightarrow> 'e + 's) \<Rightarrow> 's \<Rightarrow> 'a list \<Rightarrow> 'e + 's" where
  "foldl_r f s [] = Inr s"
| "foldl_r f s (x # xs) = bind_r (f s x) (\<lambda>t. foldl_r f t xs)"

definition map_error :: "('e \<Rightarrow> 'f) \<Rightarrow> 'e + 'a \<Rightarrow> 'f + 'a" where
  "map_error g m = (case m of Inl e \<Rightarrow> Inl (g e) | Inr x \<Rightarrow> Inr x)"

lemma raise_if_Inr [result_simps]: "raise_if b e = Inr u \<longleftrightarrow> \<not> b"
  by (simp add: raise_if_def)

lemma raise_if_Inl [result_simps]: "raise_if b e = Inl f \<longleftrightarrow> b \<and> f = e"
  by (auto simp: raise_if_def)

lemma bind_r_Inr [result_simps]: "bind_r m f = Inr y \<longleftrightarrow> (\<exists>x. m = Inr x \<and> f x = Inr y)"
  by (cases m) (auto simp: bind_r_def)

lemma bind_r_simps [simp]: "bind_r (Inl e) f = Inl e" "bind_r (Inr x) f = f x"
  by (simp_all add: bind_r_def)

lemma bind_r_Inl: "bind_r m f = Inl e \<longleftrightarrow> m = Inl e \<or> (\<exists>x. m = Inr x \<and> f x = Inl e)"
  by (cases m) (auto simp: bind_r_def)

text \<open>Evaluation of a sequence must not look into its continuation before the first part is a
  value.\<close>

declare bind_r_def [code_unfold]

lemma map_error_Inr [result_simps]: "map_error g m = Inr x \<longleftrightarrow> m = Inr x"
  by (cases m) (auto simp: map_error_def)

lemma map_error_simps [simp]: "map_error g (Inl e) = Inl (g e)" "map_error g (Inr x) = Inr x"
  by (simp_all add: map_error_def)

lemma first_error_Inr [result_simps]: "first_error cs = Inr u \<longleftrightarrow> (\<forall>c \<in> set cs. c = Inr ())"
  by (induction cs) (auto split: sum.splits)

lemma first_error_Inl: "first_error cs = Inl e \<Longrightarrow> Inl e \<in> set cs"
  by (induction cs) (auto split: sum.splits)

declare first_error.simps(2) [simp del]

lemma first_error_Cons [simp]:
  "first_error (Inl e # cs) = Inl e" "first_error (Inr u # cs) = first_error cs"
  by (simp_all add: first_error.simps(2))

lemma first_error_append:
  "first_error (as @ bs) = bind_r (first_error as) (\<lambda>_. first_error bs)"
  by (induction as) (auto simp: first_error.simps(2) split: sum.splits)

lemma map_r_Inr [result_simps]: "map_r f xs = Inr ys \<longleftrightarrow> list_all2 (\<lambda>x y. f x = Inr y) xs ys"
  by (induction xs arbitrary: ys) (auto simp: result_simps list_all2_Cons1)

lemma map_r_ok:
  assumes "\<And>x. x \<in> set xs \<Longrightarrow> f x = Inr (g x)"
  shows "map_r f xs = Inr (map g xs)"
  using assms by (induction xs) auto

lemma foldl_r_append:
  "foldl_r f s (xs @ ys) = bind_r (foldl_r f s xs) (\<lambda>t. foldl_r f t ys)"
proof (induction xs arbitrary: s)
  case (Cons x xs)
  then show ?case by (cases "f s x") simp_all
qed simp

lemma foldl_r_Inl: "foldl_r f s xs = Inl e \<Longrightarrow> \<exists>t. \<exists>x \<in> set xs. f t x = Inl e"
  by (induction xs arbitrary: s) (auto simp: bind_r_Inl, blast)

text \<open>A loop whose body keeps an invariant keeps it.\<close>

lemma foldl_r_invariant:
  assumes "foldl_r f s xs = Inr t" "P s"
    and "\<And>s x t. x \<in> set xs \<Longrightarrow> P s \<Longrightarrow> f s x = Inr t \<Longrightarrow> P t"
  shows "P t"
  using assms
proof (induction xs arbitrary: s)
  case (Cons x xs)
  from Cons.prems(1) obtain u where "f s x = Inr u" "foldl_r f u xs = Inr t"
    by (auto simp: result_simps)
  with Cons show ?case by (metis list.set_intros)
qed simp

section \<open>Stateful functions that can raise\<close>

text \<open>A Python method that mutates its object and can raise returns the result or the exception
  and the state at that moment, so that what was changed before an exception stays changed.
  \<open>lift_s\<close> is a check that only reads, \<open>fold_s\<close> a loop over a list with an accumulator.\<close>

definition bind_s :: "('e + 'a) \<times> 's \<Rightarrow> ('a \<Rightarrow> 's \<Rightarrow> ('e + 'b) \<times> 's) \<Rightarrow> ('e + 'b) \<times> 's" where
  "bind_s p k = (case p of (r, s) \<Rightarrow> case r of Inl e \<Rightarrow> (Inl e, s) | Inr x \<Rightarrow> k x s)"

declare bind_s_def [code_unfold]

definition lift_s :: "'e + 'a \<Rightarrow> 's \<Rightarrow> ('e + 'a) \<times> 's" where
  "lift_s r s = (r, s)"

fun fold_s :: "('acc \<Rightarrow> 'i \<Rightarrow> 's \<Rightarrow> ('e + 'acc) \<times> 's) \<Rightarrow> 'acc \<Rightarrow> 'i list \<Rightarrow> 's \<Rightarrow> ('e + 'acc) \<times> 's" where
  "fold_s f a [] s = (Inr a, s)"
| "fold_s f a (i # is) s = bind_s (f a i s) (\<lambda>b t. fold_s f b is t)"

lemma bind_s_simps [simp]:
  "bind_s (Inl e, s) k = (Inl e, s)" "bind_s (Inr x, s) k = k x s"
  by (simp_all add: bind_s_def)

lemma lift_s_simps [simp]: "fst (lift_s r s) = r" "snd (lift_s r s) = s"
  by (simp_all add: lift_s_def)

lemma bind_s_Inr:
  "bind_s p k = (Inr y, u) \<longleftrightarrow> (\<exists>x t. p = (Inr x, t) \<and> k x t = (Inr y, u))"
  by (auto simp: bind_s_def split: prod.splits sum.splits)

lemma lift_s_Inr: "lift_s r s = (Inr x, t) \<longleftrightarrow> r = Inr x \<and> t = s"
  by (auto simp: lift_s_def)

text \<open>What every part of a sequence or loop keeps of the state, the whole keeps, also when it
  raises.\<close>

lemma bind_s_frame:
  assumes "transp R" "R s (snd p)" "\<And>x t. p = (Inr x, t) \<Longrightarrow> R t (snd (k x t))"
  shows "R s (snd (bind_s p k))"
proof (cases p)
  case (Pair r t)
  then show ?thesis using assms by (cases r) (auto dest: transpD)
qed

lemma fold_s_frame:
  assumes "reflp R" "transp R" "\<And>a i s. i \<in> set is \<Longrightarrow> R s (snd (f a i s))"
  shows "R s (snd (fold_s f a is s))"
  using assms(3)
proof (induction "is" arbitrary: a s)
  case Nil
  then show ?case using assms(1) by (simp add: reflpD)
next
  case (Cons i "is")
  then show ?case by (auto intro!: bind_s_frame [OF assms(2)])
qed

section \<open>Indexed lists\<close>

text \<open>Python's \<open>enumerate\<close>; \<open>xs[i]\<close> on a list with a non-negative index.\<close>

definition py_enumerate :: "'a list \<Rightarrow> (int \<times> 'a) list" where
  "py_enumerate xs = map (\<lambda>(i, x). (int i, x)) (enumerate 0 xs)"

lemma set_py_enumerate: "set (py_enumerate xs) = {(int i, xs ! i) | i. i < length xs}"
  by (force simp: py_enumerate_def set_conv_nth nth_enumerate_eq)

lemma all_py_enumerate:
  "(\<forall>p \<in> set (py_enumerate xs). P p) \<longleftrightarrow> (\<forall>i < length xs. P (int i, xs ! i))"
  by (auto simp: set_py_enumerate)

lemma length_py_enumerate [simp]: "length (py_enumerate xs) = length xs"
  by (simp add: py_enumerate_def)

lemma nth_py_enumerate [simp]: "i < length xs \<Longrightarrow> py_enumerate xs ! i = (int i, xs ! i)"
  by (simp add: py_enumerate_def nth_enumerate_eq)

definition py_range :: "int \<Rightarrow> int \<Rightarrow> int list" where
  "py_range lo hi = map (\<lambda>k. lo + int k) [0..<nat (hi - lo)]"

lemma set_py_range [simp]: "set (py_range lo hi) = {lo..<hi}"
proof -
  have "x \<in> (\<lambda>k. lo + int k) ` {0..<nat (hi - lo)}" if "lo \<le> x" "x < hi" for x
    using that by (intro image_eqI [of _ _ "nat (x - lo)"]) auto
  then show ?thesis by (auto simp: py_range_def)
qed

lemma py_range_empty: "hi \<le> lo \<Longrightarrow> py_range lo hi = []"
  by (simp add: py_range_def)

lemma py_range_snoc: "lo \<le> hi \<Longrightarrow> py_range lo (hi + 1) = py_range lo hi @ [hi]"
proof -
  assume "lo \<le> hi"
  then have "nat (hi + 1 - lo) = Suc (nat (hi - lo))" by simp
  with \<open>lo \<le> hi\<close> show ?thesis by (simp add: py_range_def)
qed

lemma distinct_py_range [simp]: "distinct (py_range lo hi)"
  by (simp add: py_range_def distinct_map inj_on_def)

text \<open>A loop over a range: what holds before the first index and is carried from each index to the
  next holds at the end.\<close>

lemma foldl_r_range_induct:
  assumes "foldl_r f s (py_range lo hi) = Inr t" "lo \<le> hi" "P lo s"
    and "\<And>k s t. lo \<le> k \<Longrightarrow> k < hi \<Longrightarrow> P k s \<Longrightarrow> f s k = Inr t \<Longrightarrow> P (k + 1) t"
  shows "P hi t"
  using assms(2,1,4)
proof (induction hi arbitrary: t rule: int_ge_induct)
  case base
  then show ?case using assms(3) by (simp add: py_range_empty)
next
  case (step hi)
  from step.hyps step.prems(1) obtain u where "foldl_r f s (py_range lo hi) = Inr u" "f u hi = Inr t"
    by (auto simp: py_range_snoc foldl_r_append result_simps)
  with step show ?case by simp
qed

lemma find_unique:
  assumes "x \<in> set xs" "P x" "\<And>y. y \<in> set xs \<Longrightarrow> P y \<Longrightarrow> y = x"
  shows "find P xs = Some x"
  using assms
proof (induction xs)
  case (Cons y ys)
  show ?case
  proof (cases "P y")
    case True
    then have "y = x" by (rule Cons.prems(3) [OF list.set_intros(1)])
    with True show ?thesis by simp
  next
    case False
    then have "x \<in> set ys" using Cons.prems(1,2) by auto
    then have "find P ys = Some x"
      using Cons.prems(2) by (rule Cons.IH) (rule Cons.prems(3) [OF list.set_intros(2)])
    with False show ?thesis by simp
  qed
qed simp

lemma find_None_eq: "find P xs = None \<longleftrightarrow> (\<forall>x \<in> set xs. \<not> P x)"
  by (auto simp: find_None_iff)

text \<open>A search over a range finds the least hit.\<close>

lemma find_upt_least:
  assumes "find P (map f [0..<n]) = Some b"
  shows "\<exists>k < n. b = f k \<and> P (f k) \<and> (\<forall>j < k. \<not> P (f j))"
proof -
  from assms obtain k where k: "k < length (map f [0..<n])" "P (map f [0..<n] ! k)"
    "b = map f [0..<n] ! k" "\<forall>j < k. \<not> P (map f [0..<n] ! j)"
    unfolding find_Some_iff by blast
  then have "\<forall>j < k. \<not> P (f j)" by simp
  with k show ?thesis by auto
qed

lemma find_py_range_least:
  assumes "find P (py_range lo hi) = Some b"
  shows "lo \<le> b" "b < hi" "P b" "\<And>c. lo \<le> c \<Longrightarrow> c < b \<Longrightarrow> \<not> P c"
proof -
  from find_upt_least [OF assms [unfolded py_range_def]] obtain k where k: "k < nat (hi - lo)"
    "b = lo + int k" "P (lo + int k)" "\<forall>j < k. \<not> P (lo + int j)" by blast
  then show "lo \<le> b" "b < hi" "P b" by auto
  show "\<not> P c" if "lo \<le> c" "c < b" for c
    using k(4) [rule_format, of "nat (c - lo)"] that k(2) by simp
qed

section \<open>Reachable states and their invariants\<close>

inductive reach :: "('s \<Rightarrow> bool) \<Rightarrow> ('s \<Rightarrow> 's \<Rightarrow> bool) \<Rightarrow> 's \<Rightarrow> bool"
  for init :: "'s \<Rightarrow> bool" and step :: "'s \<Rightarrow> 's \<Rightarrow> bool" where
  reach_init: "init s \<Longrightarrow> reach init step s"
| reach_step: "reach init step s \<Longrightarrow> step s t \<Longrightarrow> reach init step t"

text \<open>The contract of a state machine with an invariant: the client of a component sees only
  that initial states satisfy it and that steps keep it.\<close>

locale invariant_system =
  fixes init :: "'s \<Rightarrow> bool" and step :: "'s \<Rightarrow> 's \<Rightarrow> bool" and inv :: "'s \<Rightarrow> bool"
  assumes init_inv: "init s \<Longrightarrow> inv s"
    and step_inv: "inv s \<Longrightarrow> step s t \<Longrightarrow> inv t"
begin

lemma reach_inv: "reach init step s \<Longrightarrow> inv s"
  by (induction rule: reach.induct) (auto intro: init_inv step_inv)

lemma reach_steps_inv:
  assumes "reach init step s" "step\<^sup>*\<^sup>* s t"
  shows "inv t"
  using assms(2) by induction (use assms(1) in \<open>auto intro: reach_inv step_inv\<close>)

end

section \<open>Simulation of an abstract transition system\<close>

text \<open>Every concrete step keeps the invariant and is a step of the specification or leaves its state alone.\<close>

locale stuttering_simulation =
  fixes step :: "'c \<Rightarrow> 'c \<Rightarrow> bool" and spec_step :: "'a \<Rightarrow> 'a \<Rightarrow> bool"
    and abs_state :: "'c \<Rightarrow> 'a" and inv :: "'c \<Rightarrow> bool"
  assumes step_simulates: "inv s \<Longrightarrow> step s t \<Longrightarrow> abs_state t = abs_state s \<or> spec_step (abs_state s) (abs_state t)"
    and step_keeps: "inv s \<Longrightarrow> step s t \<Longrightarrow> inv t"
begin

lemma steps_simulate:
  assumes "step\<^sup>*\<^sup>* s t" "inv s"
  shows "inv t \<and> spec_step\<^sup>*\<^sup>* (abs_state s) (abs_state t)"
  using assms
proof induction
  case (step t u)
  then show ?case using step_simulates [of t u] step_keeps [of t u] by (metis rtranclp.rtrancl_into_rtrancl)
qed simp

end

section \<open>Stores divided into disjoint regions\<close>

text \<open>The contract of a slot store: the slots in use are the union of the regions of the live
  owners, the regions are pairwise disjoint and lie below the capacity.\<close>

locale region_store =
  fixes inv :: "'s \<Rightarrow> bool" and live :: "'s \<Rightarrow> 'h set" and region :: "'s \<Rightarrow> 'h \<Rightarrow> nat set"
    and used :: "'s \<Rightarrow> nat set" and capacity :: nat
  assumes finite_live: "inv s \<Longrightarrow> finite (live s)"
    and used_eq: "inv s \<Longrightarrow> used s = (\<Union>h \<in> live s. region s h)"
    and region_disjoint: "inv s \<Longrightarrow> h \<in> live s \<Longrightarrow> k \<in> live s \<Longrightarrow> h \<noteq> k
      \<Longrightarrow> region s h \<inter> region s k = {}"
    and region_below: "inv s \<Longrightarrow> h \<in> live s \<Longrightarrow> region s h \<subseteq> {..<capacity}"
begin

lemma owner_unique:
  assumes "inv s" "h \<in> live s" "k \<in> live s" "n \<in> region s h" "n \<in> region s k"
  shows "h = k"
  using assms region_disjoint by blast

lemma used_below: "inv s \<Longrightarrow> used s \<subseteq> {..<capacity}"
  using used_eq region_below by blast

lemma slots_accounted:
  assumes "inv s"
  shows "card (used s) = (\<Sum>h \<in> live s. card (region s h))"
proof -
  have "finite (region s h)" if "h \<in> live s" for h
    using region_below [OF assms that] finite_subset by blast
  then show ?thesis
    unfolding used_eq [OF assms]
    using finite_live [OF assms] region_disjoint [OF assms] by (intro card_UN_disjoint) auto
qed

lemma capacity_bound:
  assumes "inv s"
  shows "(\<Sum>h \<in> live s. card (region s h)) \<le> capacity"
  using card_mono [OF _ used_below [OF assms]] slots_accounted [OF assms] by simp

end

end
