(* ===== verification/Pio_ISA.thy ===== *)
theory Pio_ISA
  imports Soc_Prelude
begin

text \<open>
  The PIO-lite instruction set of \<^verbatim>\<open>scripts/piolite_isa.py\<close>: instruction words and
  their validation, encoding and decoding; pin windows, shift, test, packing and timing
  specifications; programs, the resources they reference, their validation and their
  relocation to a base in the 32-slot store.

  Every \<open>raise\<close> is a constructor of \<open>pio_error\<close>: \<open>ISAError\<close> and
  \<open>AllocationError\<close> carry which check failed. The source's \<open>isinstance(x, int)\<close>
  tests hold by typing.
\<close>

unbundle bit_operations_syntax

section \<open>Constants\<close>

abbreviation (input) "ISA_VERSION \<equiv> (65536 :: int)"
abbreviation (input) "INSTRUCTION_WORDS \<equiv> (32 :: int)"
abbreviation (input) "FIFO_DEPTH \<equiv> (8 :: nat)"
abbreviation (input) "BRANCH_TARGET_MASK \<equiv> (31 :: int)"

abbreviation (input) "CTRL \<equiv> (0 :: int)"
abbreviation (input) "SET_PIN \<equiv> (1 :: int)"
abbreviation (input) "SET_DIR \<equiv> (2 :: int)"
abbreviation (input) "SET_COUNT \<equiv> (3 :: int)"
abbreviation (input) "IN_OP \<equiv> (4 :: int)"
abbreviation (input) "OUT_OP \<equiv> (5 :: int)"
abbreviation (input) "MOVE_OP \<equiv> (6 :: int)"
abbreviation (input) "FIFO_OP \<equiv> (7 :: int)"
abbreviation (input) "WAIT_OP \<equiv> (8 :: int)"
abbreviation (input) "BRANCH_OP \<equiv> (9 :: int)"
abbreviation (input) "FLAG_OP \<equiv> (10 :: int)"

abbreviation (input) "CTRL_HALT \<equiv> (1 :: int)"
abbreviation (input) "CTRL_CLEAR_ISR \<equiv> (2 :: int)"
abbreviation (input) "CTRL_CLEAR_OSR \<equiv> (3 :: int)"
abbreviation (input) "IN_PINS \<equiv> (0 :: int)"
abbreviation (input) "IN_X \<equiv> (1 :: int)"
abbreviation (input) "IN_Y \<equiv> (2 :: int)"
abbreviation (input) "OUT_PINS \<equiv> (0 :: int)"
abbreviation (input) "OUT_DIRECTIONS \<equiv> (1 :: int)"
abbreviation (input) "OUT_X \<equiv> (2 :: int)"
abbreviation (input) "OUT_Y \<equiv> (3 :: int)"
abbreviation (input) "BR_ALWAYS \<equiv> (0 :: int)"
abbreviation (input) "BR_X_ZERO \<equiv> (1 :: int)"
abbreviation (input) "BR_Y_ZERO \<equiv> (2 :: int)"
abbreviation (input) "BR_DEC_X_NONZERO \<equiv> (3 :: int)"
abbreviation (input) "BR_DEC_Y_NONZERO \<equiv> (4 :: int)"
abbreviation (input) "BR_TEST_PIN_HIGH \<equiv> (5 :: int)"
abbreviation (input) "BR_FIFO_FAILED \<equiv> (6 :: int)"
abbreviation (input) "BR_TEST_FLAG_SET \<equiv> (7 :: int)"

section \<open>Errors\<close>

datatype window_name = IN_WINDOW | OUT_WINDOW | SET_WINDOW

datatype shift_name = TX_BITS | RX_BITS

datatype (plugins only: code size) isa_check =
    OpcodeRange | DelayRange | OperandRange | ReservedOpcode | CtrlReserved | HaltDelay
  | InSourceReserved | OutDestinationReserved | OutXYWidth | MoveReserved | FifoReserved
  | WaitReserved | WaitFlagIndex | FlagReserved | WordRange | EncodedCountRange
  | WindowBase window_name | WindowWidth window_name | WindowExceeds window_name
  | ShiftCount shift_name | ShiftDirection shift_name | ShiftMode shift_name
  | TestPinRange | TestFlagRange | PackingTxItems | PackingRxItems | PackingItemBits
  | ClockTicks | ClockBehavior
  | IsaVersion | ProgramName | ProgramNameStart | ProgramLength | SourceLines
  | EntryOutside | WrapBottomOutside | WrapTopOutside | WrapOrder
  | BranchOutside int | InExceedsWindow int | OutExceedsWindow int | SetNeedsWindow int
  | TestPinUnselected int | TestPinBranch | ClaimMaskMismatch | FlagMaskMismatch

datatype allocation_check =
    BaseRange | BaseOverflow | RelocatedBranch int | IndexRange | OtherBase | SlotsTaken
  | UnknownAllocation | NoRegion

datatype pio_error = ISAError isa_check | AllocationError allocation_check | KeyError

section \<open>Instructions\<close>

record instruction =
  opcode :: int
  delay :: int
  operand :: int

definition encoded_count :: "int \<Rightarrow> pio_error + int" where
  "encoded_count field_value =
     (if \<not> (0 \<le> field_value \<and> field_value \<le> 31) then Inl (ISAError EncodedCountRange)
      else Inr (if field_value = 0 then 32 else field_value))"

definition validate_operand :: "instruction \<Rightarrow> pio_error + unit" where
  "validate_operand i =
     (let oper = operand i in
      if opcode i = CTRL then
        first_error
          [raise_if (oper AND 31 \<noteq> 0 \<or> shr oper 5 > 3) (ISAError CtrlReserved),
           raise_if (shr oper 5 = CTRL_HALT \<and> delay i \<noteq> 0) (ISAError HaltDelay)]
      else if opcode i \<in> {SET_PIN, SET_DIR, SET_COUNT} then Inr ()
      else if opcode i = IN_OP then raise_if (shr oper 5 > 3) (ISAError InSourceReserved)
      else if opcode i = OUT_OP then
        (let destination = shr oper 5 in
         if destination > 4 then Inl (ISAError OutDestinationReserved)
         else if destination \<in> {2, 3} then
           bind_r (encoded_count (oper AND 31))
             (\<lambda>count. raise_if (count > 16) (ISAError OutXYWidth))
         else Inr ())
      else if opcode i = MOVE_OP then
        raise_if (oper AND 7 \<noteq> 0 \<or> shr oper 3 AND 7 > 5) (ISAError MoveReserved)
      else if opcode i = FIFO_OP then raise_if (oper AND 63 \<noteq> 0) (ISAError FifoReserved)
      else if opcode i = WAIT_OP then
        first_error
          [raise_if (oper AND 1 \<noteq> 0) (ISAError WaitReserved),
           raise_if (oper AND 128 \<noteq> 0 \<and> shr oper 1 AND 31 > 3) (ISAError WaitFlagIndex)]
      else if opcode i = BRANCH_OP then Inr ()
      else if opcode i = FLAG_OP then raise_if (oper AND 31 \<noteq> 0) (ISAError FlagReserved)
      else Inr ())"

definition instruction_validate :: "instruction \<Rightarrow> pio_error + unit" where
  "instruction_validate i =
     first_error
       [raise_if (\<not> (0 \<le> opcode i \<and> opcode i \<le> 15)) (ISAError OpcodeRange),
        raise_if (\<not> (0 \<le> delay i \<and> delay i \<le> 15)) (ISAError DelayRange),
        raise_if (\<not> (0 \<le> operand i \<and> operand i \<le> 255)) (ISAError OperandRange),
        raise_if (opcode i > FLAG_OP) (ISAError ReservedOpcode),
        validate_operand i]"

definition instruction_encode :: "instruction \<Rightarrow> pio_error + int" where
  "instruction_encode i =
     bind_r (instruction_validate i)
       (\<lambda>_. Inr ((shl (opcode i) 12 OR shl (delay i) 8) OR operand i))"

definition instruction_decode :: "int \<Rightarrow> pio_error + instruction" where
  "instruction_decode word =
     (if \<not> (0 \<le> word \<and> word \<le> 65535) then Inl (ISAError WordRange)
      else
        (let i = \<lparr>opcode = shr word 12 AND 15, delay = shr word 8 AND 15,
                   operand = word AND 255\<rparr>
         in bind_r (instruction_validate i) (\<lambda>_. Inr i)))"

section \<open>Windows and specifications\<close>

record pin_window =
  win_base :: int
  win_width :: int

definition window_validate :: "pin_window \<Rightarrow> window_name \<Rightarrow> int \<Rightarrow> pio_error + unit" where
  "window_validate w name maximum_width =
     first_error
       [raise_if (\<not> (0 \<le> win_base w \<and> win_base w \<le> 31)) (ISAError (WindowBase name)),
        raise_if (\<not> (0 \<le> win_width w \<and> win_width w \<le> maximum_width))
          (ISAError (WindowWidth name)),
        raise_if (win_base w + win_width w > 32) (ISAError (WindowExceeds name))]"

definition window_mask :: "pin_window \<Rightarrow> int" where
  "window_mask w =
     (if win_width w = 0 then 0 else shl (shl 1 (win_width w) - 1) (win_base w))"

datatype shift_direction = Left | Right | OtherDirection string

datatype shift_mode = Manual | Auto | OtherMode string

record shift_spec =
  shift_bits :: int
  shift_dir :: shift_direction
  shift_md :: shift_mode

definition shift_validate :: "shift_spec \<Rightarrow> shift_name \<Rightarrow> pio_error + unit" where
  "shift_validate s name =
     first_error
       [raise_if (\<not> (1 \<le> shift_bits s \<and> shift_bits s \<le> 32)) (ISAError (ShiftCount name)),
        raise_if (shift_dir s \<notin> {Left, Right}) (ISAError (ShiftDirection name)),
        raise_if (shift_md s \<notin> {Manual, Auto}) (ISAError (ShiftMode name))]"

record test_spec =
  test_spec_pin :: "int option"
  test_spec_flag :: int

definition test_validate :: "test_spec \<Rightarrow> pio_error + unit" where
  "test_validate t =
     first_error
       [raise_if (case test_spec_pin t of None \<Rightarrow> False | Some p \<Rightarrow> \<not> (0 \<le> p \<and> p \<le> 31))
          (ISAError TestPinRange),
        raise_if (\<not> (0 \<le> test_spec_flag t \<and> test_spec_flag t \<le> 3)) (ISAError TestFlagRange)]"

record packing_spec =
  tx_items :: int
  rx_items :: int
  item_bits :: int

definition packing_validate :: "packing_spec \<Rightarrow> pio_error + unit" where
  "packing_validate p =
     first_error
       [raise_if (\<not> (0 \<le> tx_items p \<and> tx_items p \<le> 4294967295)) (ISAError PackingTxItems),
        raise_if (\<not> (0 \<le> rx_items p \<and> rx_items p \<le> 4294967295)) (ISAError PackingRxItems),
        raise_if (\<not> (1 \<le> item_bits p \<and> item_bits p \<le> 32)) (ISAError PackingItemBits)]"

datatype timing_behavior = Fixed | Stretchable | OtherBehavior string

record timing_spec =
  clock_ticks :: int
  behavior :: timing_behavior

definition timing_validate :: "timing_spec \<Rightarrow> pio_error + unit" where
  "timing_validate t =
     first_error
       [raise_if (\<not> (1 \<le> clock_ticks t \<and> clock_ticks t \<le> 4294967295)) (ISAError ClockTicks),
        raise_if (behavior t \<notin> {Fixed, Stretchable}) (ISAError ClockBehavior)]"

section \<open>Programs\<close>

record program =
  name :: string
  instructions :: "instruction list"
  entry :: int
  wrap_bottom :: int
  wrap_top :: int
  in_window :: pin_window
  out_window :: pin_window
  set_window :: pin_window
  tx :: shift_spec
  rx :: shift_spec
  test :: test_spec
  packing :: packing_spec
  timing :: timing_spec
  claim_mask :: int
  flag_mask :: int
  isa_version :: int
  source_lines :: "int list"

text \<open>The generated dataclass equality leaves \<open>source_lines\<close> out (\<open>compare=False\<close>).\<close>

definition program_eq :: "program \<Rightarrow> program \<Rightarrow> bool" where
  "program_eq p q \<longleftrightarrow> p\<lparr>source_lines := []\<rparr> = q\<lparr>source_lines := []\<rparr>"

definition program_words :: "program \<Rightarrow> pio_error + int list" where
  "program_words p = map_r instruction_encode (instructions p)"

definition relocation_sites :: "program \<Rightarrow> int list" where
  "relocation_sites p =
     map fst (filter (\<lambda>(offset, i). opcode i = BRANCH_OP) (py_enumerate (instructions p)))"

definition test_pin_is_used :: "instruction list \<Rightarrow> bool" where
  "test_pin_is_used is \<longleftrightarrow>
     list_ex (\<lambda>i. opcode i = BRANCH_OP \<and> shr (operand i) 5 = BR_TEST_PIN_HIGH) is"

definition reference_step ::
  "test_spec \<Rightarrow> int \<times> int \<Rightarrow> instruction \<Rightarrow> pio_error + (int \<times> int)" where
  "reference_step t masks i =
     (case masks of (claim, flags) \<Rightarrow>
      let oper = operand i in
      if opcode i = WAIT_OP then
        (let index = shr oper 1 AND 31 in
         if oper AND 128 \<noteq> 0 then Inr (claim, flags OR shl 1 index)
         else Inr (claim OR shl 1 index, flags))
      else if opcode i = FLAG_OP then Inr (claim, flags OR shl 1 (shr oper 5 AND 3))
      else if opcode i = BRANCH_OP then
        (let condition = shr oper 5 in
         if condition = BR_TEST_PIN_HIGH then
           (case test_spec_pin t of
              None \<Rightarrow> Inl (ISAError TestPinBranch)
            | Some pin \<Rightarrow> Inr (claim OR shl 1 pin, flags))
         else if condition = BR_TEST_FLAG_SET then
           Inr (claim, flags OR shl 1 (test_spec_flag t))
         else Inr (claim, flags))
      else Inr (claim, flags))"

definition referenced_resources ::
  "instruction list \<Rightarrow> pin_window \<Rightarrow> pin_window \<Rightarrow> pin_window \<Rightarrow> test_spec
     \<Rightarrow> pio_error + (int \<times> int)" where
  "referenced_resources is in_w out_w set_w t =
     foldl_r (reference_step t)
       ((window_mask in_w OR window_mask out_w) OR window_mask set_w, 0) is"

definition ascii_alnum :: "char \<Rightarrow> bool" where
  "ascii_alnum c \<longleftrightarrow>
     (let n = of_char c :: nat in (48 \<le> n \<and> n \<le> 57) \<or> (65 \<le> n \<and> n \<le> 90) \<or> (97 \<le> n \<and> n \<le> 122))"

definition ascii_alpha :: "char \<Rightarrow> bool" where
  "ascii_alpha c \<longleftrightarrow>
     (let n = of_char c :: nat in (65 \<le> n \<and> n \<le> 90) \<or> (97 \<le> n \<and> n \<le> 122))"

definition name_checks :: "string \<Rightarrow> (pio_error + unit) list" where
  "name_checks nm =
     [raise_if (nm = [] \<or> \<not> list_all (\<lambda>c. (of_char c :: nat) < 128) nm
         \<or> \<not> list_all ascii_alnum (map (\<lambda>c. if c = CHR ''_'' then CHR ''a'' else c) nm))
        (ISAError ProgramName),
      raise_if (\<not> (nm \<noteq> [] \<and> (ascii_alpha (hd nm) \<or> hd nm = CHR ''_'')))
        (ISAError ProgramNameStart)]"

text \<open>The checks of one instruction against the program's windows and test pin.\<close>

definition usage_checks :: "program \<Rightarrow> int \<times> instruction \<Rightarrow> pio_error + unit" where
  "usage_checks p oi =
     (case oi of (offset, i) \<Rightarrow>
      let oper = operand i in
      first_error
        [raise_if (opcode i = BRANCH_OP \<and> oper AND 31 \<ge> int (length (instructions p)))
           (ISAError (BranchOutside offset)),
         (if opcode i = IN_OP \<and> shr oper 5 = IN_PINS then
            bind_r (encoded_count (oper AND 31)) (\<lambda>count.
              raise_if (count > win_width (in_window p)) (ISAError (InExceedsWindow offset)))
          else Inr ()),
         (if opcode i = OUT_OP \<and> shr oper 5 \<in> {OUT_PINS, OUT_DIRECTIONS} then
            bind_r (encoded_count (oper AND 31)) (\<lambda>count.
              raise_if (count > win_width (out_window p)) (ISAError (OutExceedsWindow offset)))
          else Inr ()),
         raise_if (opcode i \<in> {SET_PIN, SET_DIR} \<and> win_width (set_window p) = 0)
           (ISAError (SetNeedsWindow offset)),
         raise_if (opcode i = BRANCH_OP \<and> shr oper 5 = BR_TEST_PIN_HIGH
             \<and> test_spec_pin (test p) = None)
           (ISAError (TestPinUnselected offset))])"

definition program_validate :: "program \<Rightarrow> pio_error + unit" where
  "program_validate p =
     (let n = int (length (instructions p)) in
      first_error
        ([raise_if (isa_version p \<noteq> ISA_VERSION) (ISAError IsaVersion)]
         @ name_checks (name p)
         @ [raise_if (\<not> (1 \<le> n \<and> n \<le> INSTRUCTION_WORDS)) (ISAError ProgramLength),
            raise_if (source_lines p \<noteq> [] \<and> length (source_lines p) \<noteq> length (instructions p))
              (ISAError SourceLines)]
         @ map instruction_validate (instructions p)
         @ [raise_if (\<not> (0 \<le> entry p \<and> entry p < n)) (ISAError EntryOutside),
            raise_if (\<not> (0 \<le> wrap_bottom p \<and> wrap_bottom p < n)) (ISAError WrapBottomOutside),
            raise_if (\<not> (0 \<le> wrap_top p \<and> wrap_top p < n)) (ISAError WrapTopOutside),
            raise_if (wrap_bottom p > wrap_top p) (ISAError WrapOrder),
            window_validate (in_window p) IN_WINDOW 32,
            window_validate (out_window p) OUT_WINDOW 32,
            window_validate (set_window p) SET_WINDOW 8,
            shift_validate (tx p) TX_BITS,
            shift_validate (rx p) RX_BITS,
            test_validate (test p),
            packing_validate (packing p),
            timing_validate (timing p)]
         @ map (usage_checks p) (py_enumerate (instructions p))
         @ [bind_r (referenced_resources (instructions p) (in_window p) (out_window p)
                (set_window p) (test p))
              (\<lambda>(expected_claim_mask, expected_flag_mask).
                 first_error
                   [raise_if (claim_mask p \<noteq> expected_claim_mask) (ISAError ClaimMaskMismatch),
                    raise_if (flag_mask p \<noteq> expected_flag_mask) (ISAError FlagMaskMismatch)])]))"

section \<open>Relocation\<close>

record relocated_program =
  rel_program :: program
  rel_base :: int
  rel_words :: "int list"
  rel_entry :: int
  rel_wrap_bottom :: int
  rel_wrap_top :: int

definition relocate_word :: "int \<Rightarrow> int \<Rightarrow> int \<times> instruction \<Rightarrow> pio_error + int" where
  "relocate_word base n oi =
     (case oi of (offset, i) \<Rightarrow>
      bind_r (instruction_encode i) (\<lambda>word.
      bind_r
        (if opcode i = BRANCH_OP then
           (let local_target = operand i AND BRANCH_TARGET_MASK;
                absolute_target = base + local_target in
            if absolute_target > 31 \<or> \<not> (base \<le> absolute_target \<and> absolute_target < base + n)
            then Inl (AllocationError (RelocatedBranch offset))
            else Inr ((word AND NOT BRANCH_TARGET_MASK) OR absolute_target))
         else Inr word) (\<lambda>word'.
      bind_r (instruction_decode word') instruction_encode)))"

definition relocate_program :: "program \<Rightarrow> int \<Rightarrow> pio_error + relocated_program" where
  "relocate_program p base =
     (let n = int (length (instructions p)) in
      bind_r
        (first_error
          [program_validate p,
           raise_if (\<not> (0 \<le> base \<and> base < INSTRUCTION_WORDS)) (AllocationError BaseRange),
           raise_if (base + n > INSTRUCTION_WORDS) (AllocationError BaseOverflow)]) (\<lambda>_.
      bind_r (map_r (relocate_word base n) (py_enumerate (instructions p))) (\<lambda>relocated_words.
        Inr \<lparr>rel_program = p, rel_base = base, rel_words = relocated_words,
              rel_entry = base + entry p, rel_wrap_bottom = base + wrap_bottom p,
              rel_wrap_top = base + wrap_top p\<rparr>)))"

section \<open>Instruction words\<close>

lemma encoded_count_low [simp]:
  "encoded_count (x AND 31) = Inr (if x mod 32 = 0 then 32 else x mod 32)"
  by (auto simp: encoded_count_def bit_arith)

lemma instruction_validate_ranges:
  assumes "instruction_validate i = Inr u"
  shows "0 \<le> opcode i" "opcode i \<le> 10" "0 \<le> delay i" "delay i \<le> 15"
    "0 \<le> operand i" "operand i \<le> 255" "validate_operand i = Inr ()"
  using assms by (auto simp: instruction_validate_def result_simps)

lemma word_value:
  assumes "instruction_validate i = Inr u"
  shows "(shl (opcode i) 12 OR shl (delay i) 8) OR operand i
    = opcode i * 4096 + delay i * 256 + operand i"
proof -
  note r = instruction_validate_ranges [OF assms]
  have "shl (opcode i) 12 OR shl (delay i) 8 = opcode i * 4096 + delay i * 256"
    using r or_shift_add(2) [of "push_bit 8 (delay i)" 12 "opcode i"]
    by (simp add: push_bit_eq_mult)
  also have "\<dots> = push_bit 8 (opcode i * 16 + delay i)"
    by (simp add: push_bit_eq_mult)
  finally show ?thesis
    using r or_shift_add(2) [of "operand i" 8 "opcode i * 16 + delay i"]
    by (simp add: algebra_simps)
qed

lemma instruction_encode_value:
  "instruction_encode i = Inr w \<longleftrightarrow>
     instruction_validate i = Inr () \<and> w = opcode i * 4096 + delay i * 256 + operand i"
  unfolding instruction_encode_def bind_r_Inr using word_value by fastforce

lemma instruction_decode_value:
  "instruction_decode w = Inr i \<longleftrightarrow>
     0 \<le> w \<and> w \<le> 65535 \<and> instruction_validate i = Inr () \<and>
     i = \<lparr>opcode = w div 4096, delay = w div 256 mod 16, operand = w mod 256\<rparr>"
proof -
  have "w div 4096 mod 16 = w div 4096" if "0 \<le> w" "w \<le> 65535"
    using that by (intro mod_pos_pos_trivial) auto
  then show ?thesis
    by (auto simp: instruction_decode_def Let_def result_simps bit_arith)
qed

lemma field_split:
  fixes a b c :: int
  assumes "0 \<le> b" "b \<le> 15" "0 \<le> c" "c \<le> 255"
  shows "(a * 4096 + b * 256 + c) div 4096 = a"
    and "(a * 4096 + b * 256 + c) div 256 mod 16 = b"
    and "(a * 4096 + b * 256 + c) mod 256 = c"
proof -
  have r: "0 \<le> b * 256 + c" "b * 256 + c < 4096"
    using assms by auto
  show "(a * 4096 + b * 256 + c) div 4096 = a"
    using int_div_pos_eq [of "a * 4096 + b * 256 + c" 4096 a "b * 256 + c"] r by simp
  have "(a * 4096 + b * 256 + c) div 256 = a * 16 + b"
    using int_div_pos_eq [of "a * 4096 + b * 256 + c" 256 "a * 16 + b" c] assms by simp
  then show "(a * 4096 + b * 256 + c) div 256 mod 16 = b"
    using assms by simp
  have "a * 4096 + b * 256 + c = c + (a * 16 + b) * 256"
    by simp
  then show "(a * 4096 + b * 256 + c) mod 256 = c"
    using assms by (simp only: mod_mult_self1) simp
qed

lemma field_join: "w = w div 4096 * 4096 + w div 256 mod 16 * 256 + (w mod 256 :: int)"
proof -
  have "w div 4096 = w div 256 div 16"
    using zdiv_zmult2_eq [of 16 w 256] by simp
  then have "w div 4096 * 16 + w div 256 mod 16 = w div 256"
    by simp
  then have "(w div 4096 * 16 + w div 256 mod 16) * 256 + w mod 256 = w"
    by simp
  then show ?thesis by (simp add: algebra_simps)
qed

lemma decode_of_encode:
  assumes "instruction_encode i = Inr w"
  shows "instruction_decode w = Inr i"
proof -
  from assms have v: "instruction_validate i = Inr ()"
    and w: "w = opcode i * 4096 + delay i * 256 + operand i"
    by (simp_all add: instruction_encode_value)
  note r = instruction_validate_ranges [OF v]
  then show ?thesis
    using v w by (simp add: instruction_decode_value field_split)
qed

lemma encode_of_decode:
  assumes "instruction_decode w = Inr i"
  shows "instruction_encode i = Inr w"
proof -
  from assms have "instruction_validate i = Inr ()"
    and "i = \<lparr>opcode = w div 4096, delay = w div 256 mod 16, operand = w mod 256\<rparr>"
    by (auto simp: instruction_decode_value)
  then show ?thesis
    using field_join [of w] by (simp add: instruction_encode_value)
qed

text \<open>C1: encoding and decoding of PIO-lite instruction words are inverse to each other: a word
  is the encoding of an instruction exactly when the instruction is its decoding, so every
  valid instruction survives the round trip and no two words decode alike.\<close>

theorem pio_encode_decode_iff: "instruction_encode i = Inr w \<longleftrightarrow> instruction_decode w = Inr i"
  using decode_of_encode encode_of_decode by blast

section \<open>Relocated programs\<close>

text \<open>What relocation does to one instruction: only branch targets move, by the base.\<close>

definition shift_branch :: "int \<Rightarrow> instruction \<Rightarrow> instruction" where
  "shift_branch base i = (if opcode i = BRANCH_OP then i\<lparr>operand := operand i + base\<rparr> else i)"

lemma shift_branch_fields [simp]:
  "opcode (shift_branch base i) = opcode i" "delay (shift_branch base i) = delay i"
  "opcode i \<noteq> BRANCH_OP \<Longrightarrow> shift_branch base i = i"
  by (simp_all add: shift_branch_def)

lemma branch_operand_shift:
  fixes x base :: int
  assumes "0 \<le> x" "x \<le> 255" "0 \<le> base" "base + x mod 32 \<le> 31"
  shows "x + base \<le> 255" "(x + base) mod 32 = x mod 32 + base" "(x + base) div 32 = x div 32"
proof -
  have x: "x = x div 32 * 32 + x mod 32" by simp
  have "x div 32 \<le> 7" using assms(2) by linarith
  with x assms show "x + base \<le> 255" by linarith
  have r: "0 \<le> x mod 32 + base" "x mod 32 + base < 32"
    using assms by auto
  have e: "x + base = 32 * (x div 32) + (x mod 32 + base)"
    using x by linarith
  show "(x + base) mod 32 = x mod 32 + base"
    using int_mod_pos_eq [OF e r] .
  show "(x + base) div 32 = x div 32"
    using int_div_pos_eq [OF e r] .
qed

lemma shift_branch_valid:
  assumes "instruction_validate i = Inr u" "0 \<le> base"
    and "opcode i = BRANCH_OP \<Longrightarrow> base + operand i mod 32 \<le> 31"
  shows "instruction_validate (shift_branch base i) = Inr ()"
proof (cases "opcode i = BRANCH_OP")
  case True
  note r = instruction_validate_ranges [OF assms(1)]
  have "operand i + base \<le> 255"
    using branch_operand_shift(1) [of "operand i" base] r assms True by simp
  with True r assms(2) show ?thesis
    by (simp add: instruction_validate_def shift_branch_def result_simps validate_operand_def)
next
  case False
  with assms(1) show ?thesis by simp
qed

lemma relocate_word_ok:
  assumes v: "instruction_validate i = Inr u" and base: "0 \<le> base" "base + n \<le> 32"
    and target: "opcode i = BRANCH_OP \<Longrightarrow> operand i mod 32 < n"
  shows "\<exists>w. relocate_word base n (k, i) = Inr w \<and> instruction_decode w = Inr (shift_branch base i)"
proof -
  note r = instruction_validate_ranges [OF v]
  have v': "instruction_validate (shift_branch base i) = Inr ()"
    by (rule shift_branch_valid [OF v base(1)]) (use target base in force)
  obtain w where w: "instruction_encode i = Inr w"
    and w_eq: "w = opcode i * 4096 + delay i * 256 + operand i"
    using v by (simp add: instruction_encode_value)
  obtain w' where w': "instruction_encode (shift_branch base i) = Inr w'"
    and w'_eq: "w' = opcode i * 4096 + delay i * 256 + operand (shift_branch base i)"
    using v' by (simp add: instruction_encode_value)
  have step: "(if opcode i = BRANCH_OP then
      (let local_target = operand i AND 31; absolute_target = base + local_target in
       if absolute_target > 31 \<or> \<not> (base \<le> absolute_target \<and> absolute_target < base + n)
       then Inl (AllocationError (RelocatedBranch k))
       else Inr ((w AND NOT 31) OR absolute_target)) else Inr w) = Inr w'"
  proof (cases "opcode i = BRANCH_OP")
    case True
    let ?t = "base + operand i mod 32"
    have t: "0 \<le> ?t" "?t < 32" using target [OF True] base by auto
    have "w = operand i + (opcode i * 128 + delay i * 8) * 32" by (simp add: w_eq)
    then have "w mod 32 = operand i mod 32" by (simp only: mod_mult_self1)
    moreover have "(w AND NOT 31) OR ?t = w - w mod 32 + ?t"
      using replace_low_bits [of ?t 5 w] t by simp
    ultimately have "(w AND NOT 31) OR ?t = w'"
      using True by (simp add: w_eq w'_eq shift_branch_def)
    then show ?thesis
      using True t target [OF True] by (simp add: Let_def bit_arith)
  qed (use w_eq w'_eq in simp)
  have "relocate_word base n (k, i) = Inr w'"
    unfolding relocate_word_def prod.case w bind_r_simps step
    using decode_of_encode [OF w'] w' by simp
  with decode_of_encode [OF w'] show ?thesis by blast
qed

text \<open>What a validated program guarantees, check by check.\<close>

lemma program_validate_facts:
  assumes "program_validate p = Inr u"
  shows "1 \<le> length (instructions p)" "length (instructions p) \<le> 32"
    and "\<And>i. i \<in> set (instructions p) \<Longrightarrow> instruction_validate i = Inr ()"
    and "0 \<le> entry p" "entry p < int (length (instructions p))"
    and "0 \<le> wrap_bottom p" "wrap_bottom p \<le> wrap_top p"
    and "wrap_top p < int (length (instructions p))"
    and "window_validate (in_window p) IN_WINDOW 32 = Inr ()"
    and "window_validate (out_window p) OUT_WINDOW 32 = Inr ()"
    and "window_validate (set_window p) SET_WINDOW 8 = Inr ()"
    and "shift_validate (tx p) TX_BITS = Inr ()" "shift_validate (rx p) RX_BITS = Inr ()"
    and "test_validate (test p) = Inr ()"
    and "\<And>k. k < length (instructions p)
      \<Longrightarrow> usage_checks p (int k, instructions p ! k) = Inr ()"
    and "referenced_resources (instructions p) (in_window p) (out_window p) (set_window p) (test p)
      = Inr (claim_mask p, flag_mask p)"
  using assms
  by (auto simp: program_validate_def Let_def result_simps first_error_append ball_Un
      all_py_enumerate split: prod.splits)

lemma relocate_program_ok:
  assumes v: "program_validate p = Inr u"
    and base: "0 \<le> base" "base + int (length (instructions p)) \<le> 32"
  shows "\<exists>r. relocate_program p base = Inr r \<and> rel_program r = p \<and> rel_base r = base \<and>
    rel_entry r = base + entry p \<and> rel_wrap_bottom r = base + wrap_bottom p \<and>
    rel_wrap_top r = base + wrap_top p \<and>
    list_all2 (\<lambda>w i. instruction_decode w = Inr (shift_branch base i)) (rel_words r) (instructions p)"
proof -
  note f = program_validate_facts [OF v]
  let ?n = "int (length (instructions p))"
  have "\<exists>w. relocate_word base ?n (int k, instructions p ! k) = Inr w \<and>
      instruction_decode w = Inr (shift_branch base (instructions p ! k))"
    if k: "k < length (instructions p)" for k
  proof (rule relocate_word_ok)
    show "instruction_validate (instructions p ! k) = Inr ()"
      using f(3) k by simp
    show "operand (instructions p ! k) mod 32 < ?n" if "opcode (instructions p ! k) = BRANCH_OP"
      using f(15) [OF k] that by (auto simp: usage_checks_def Let_def result_simps bit_arith)
  qed (use base in auto)
  then obtain w where w: "\<And>k. k < length (instructions p) \<Longrightarrow>
      relocate_word base ?n (int k, instructions p ! k) = Inr (w k) \<and>
      instruction_decode (w k) = Inr (shift_branch base (instructions p ! k))"
    by metis
  define ws where "ws = map w [0..<length (instructions p)]"
  have "map_r (relocate_word base ?n) (py_enumerate (instructions p)) = Inr ws"
    using w by (auto simp: map_r_Inr ws_def list_all2_conv_all_nth)
  moreover have "list_all2 (\<lambda>w i. instruction_decode w = Inr (shift_branch base i)) ws (instructions p)"
    using w by (auto simp: ws_def list_all2_conv_all_nth)
  moreover have "base < 32" using f(1) base by linarith
  ultimately show ?thesis
    using base v by (simp add: relocate_program_def Let_def raise_if_def)
qed

text \<open>C2: a validated program can be relocated to every base at which it fits into the 32-slot
  store, and relocation only moves it: entry and wrap points move by the base, and every
  relocated word decodes to the source instruction with its branch target, if it is a branch,
  moved by the base.\<close>

theorem relocation_moves_program:
  assumes "program_validate p = Inr u" "0 \<le> base" "base + int (length (instructions p)) \<le> 32"
  shows "\<exists>r. relocate_program p base = Inr r \<and> rel_program r = p \<and> rel_base r = base \<and>
    rel_entry r = base + entry p \<and> rel_wrap_bottom r = base + wrap_bottom p \<and>
    rel_wrap_top r = base + wrap_top p \<and>
    list_all2 (\<lambda>w i. instruction_decode w = Inr (shift_branch base i)) (rel_words r) (instructions p)"
  using assms by (rule relocate_program_ok)

section \<open>A concrete program\<close>

text \<open>The infrared transmitter of \<^verbatim>\<open>app/asm/piolite/ir_tx.piolite\<close>, assembled by hand; the
  witnesses of the PIO theories run on it.\<close>

definition ir_tx :: program where
  "ir_tx =
     \<lparr>name = ''ir_tx'',
      instructions = map (\<lambda>(opc, oper). \<lparr>opcode = opc, delay = 0, operand = oper\<rparr>)
        [(7, 64), (6, 136), (7, 64), (6, 200), (1, 1), (1, 0), (9, 100), (1, 0), (9, 135), (9, 0)],
      entry = 0, wrap_bottom = 0, wrap_top = 9,
      in_window = \<lparr>win_base = 0, win_width = 0\<rparr>, out_window = \<lparr>win_base = 0, win_width = 0\<rparr>,
      set_window = \<lparr>win_base = 12, win_width = 1\<rparr>,
      tx = \<lparr>shift_bits = 16, shift_dir = Right, shift_md = Manual\<rparr>,
      rx = \<lparr>shift_bits = 32, shift_dir = Right, shift_md = Manual\<rparr>,
      test = \<lparr>test_spec_pin = None, test_spec_flag = 0\<rparr>,
      packing = \<lparr>tx_items = 2, rx_items = 0, item_bits = 16\<rparr>,
      timing = \<lparr>clock_ticks = 3, behavior = Stretchable\<rparr>,
      claim_mask = 4096, flag_mask = 0, isa_version = 65536, source_lines = []\<rparr>"

lemma ir_tx_valid: "program_validate ir_tx = Inr ()"
  by code_simp

lemma ir_tx_length [simp]: "length (instructions ir_tx) = 10"
  by (simp add: ir_tx_def)

lemma relocation_moves_program_witness:
  "\<exists>r. relocate_program ir_tx 22 = Inr r \<and> rel_entry r = 22 \<and> rel_wrap_top r = 31 \<and>
    list_all2 (\<lambda>w i. instruction_decode w = Inr (shift_branch 22 i)) (rel_words r) (instructions ir_tx)"
  using relocation_moves_program [OF ir_tx_valid, of 22] by (auto simp: ir_tx_def)

end
