(* ===== verification/Pio_Alloc.thy ===== *)
theory Pio_Alloc
  imports Pio_ISA
begin

text \<open>
  The first-fit allocator of the shared 32-slot instruction store,
  \<open>InstructionAllocator\<close> of \<^verbatim>\<open>scripts/piolite_isa.py\<close>.

  \<^item> A dictionary the code iterates over (\<open>_allocations\<close>) is an association list in
    insertion order; \<open>_references\<close> is a map.
  \<^item> \<open>unload\<close> compares objects with \<open>is\<close>. An allocation therefore carries the
    identity of its Python object, \<open>alloc_id\<close>, which \<open>load\<close> is given for the object
    it creates.
  \<^item> Every \<open>raise\<close> of \<open>load\<close> and \<open>unload\<close> comes before the first assignment, so
    a failed call is \<open>Inl\<close> and leaves the state as it was.
\<close>

unbundle bit_operations_syntax

record allocation =
  alloc_id :: nat
  handle :: int
  image :: relocated_program

definition alloc_base :: "allocation \<Rightarrow> int" where
  "alloc_base al = rel_base (image al)"

definition alloc_words :: "allocation \<Rightarrow> int list" where
  "alloc_words al = rel_words (image al)"

record allocator =
  alloc_bitmap :: int
  alloc_table :: "(int \<times> allocation) list"
  alloc_refs :: "int \<rightharpoonup> int"
  next_handle :: int

definition allocator_init :: allocator where
  "allocator_init = \<lparr>alloc_bitmap = 0, alloc_table = [], alloc_refs = Map.empty, next_handle = 1\<rparr>"

definition allocations :: "allocator \<Rightarrow> allocation list" where
  "allocations a = sort_key alloc_base (map snd (alloc_table a))"

definition read_word :: "allocator \<Rightarrow> int \<Rightarrow> pio_error + int" where
  "read_word a index =
     (if \<not> (0 \<le> index \<and> index < INSTRUCTION_WORDS) then Inl (AllocationError IndexRange)
      else
        (case find (\<lambda>al. alloc_base al \<le> index
                \<and> index < alloc_base al + int (length (alloc_words al))) (map snd (alloc_table a)) of
           Some al \<Rightarrow> Inr (alloc_words al ! nat (index - alloc_base al))
         | None \<Rightarrow> Inr 0))"

definition region_mask :: "int \<Rightarrow> int \<Rightarrow> int" where
  "region_mask len base = shl (shl 1 len - 1) base"

definition first_fit :: "allocator \<Rightarrow> int \<Rightarrow> pio_error + int" where
  "first_fit a len =
     (case find (\<lambda>base. alloc_bitmap a AND region_mask len base = 0)
         (py_range 0 (INSTRUCTION_WORDS - len + 1)) of
        Some base \<Rightarrow> Inr base
      | None \<Rightarrow> Inl (AllocationError NoRegion))"

text \<open>The second half of \<open>load\<close>: the program is not yet published.\<close>

definition load_new ::
  "allocator \<Rightarrow> program \<Rightarrow> int option \<Rightarrow> nat \<Rightarrow> pio_error + (allocation \<times> allocator)" where
  "load_new a p base ident =
     (let len = int (length (instructions p)) in
      bind_r (case base of None \<Rightarrow> first_fit a len | Some b \<Rightarrow> Inr b) (\<lambda>b.
      bind_r
        (first_error
          [raise_if (\<not> (0 \<le> b \<and> b < INSTRUCTION_WORDS)) (AllocationError BaseRange),
           raise_if (b + len > INSTRUCTION_WORDS) (AllocationError BaseOverflow),
           raise_if (alloc_bitmap a AND region_mask len b \<noteq> 0) (AllocationError SlotsTaken)])
        (\<lambda>_.
      bind_r (relocate_program p b) (\<lambda>img.
      bind_r (map_r instruction_decode (rel_words img)) (\<lambda>_.
        (let al = \<lparr>alloc_id = ident, handle = next_handle a, image = img\<rparr> in
         Inr (al, a\<lparr>alloc_table := alloc_table a @ [(handle al, al)],
                    alloc_refs := (alloc_refs a)(handle al \<mapsto> 1),
                    alloc_bitmap := alloc_bitmap a OR region_mask len b,
                    next_handle := next_handle a + 1\<rparr>)))))))"

definition load ::
  "allocator \<Rightarrow> program \<Rightarrow> int option \<Rightarrow> nat \<Rightarrow> pio_error + (allocation \<times> allocator)" where
  "load a p base ident =
     bind_r (program_validate p) (\<lambda>_.
       (case find (\<lambda>al. program_eq (rel_program (image al)) p) (map snd (alloc_table a)) of
          Some al \<Rightarrow>
            (if base \<noteq> None \<and> base \<noteq> Some (alloc_base al)
             then Inl (AllocationError OtherBase)
             else
               (case alloc_refs a (handle al) of
                  None \<Rightarrow> Inl KeyError
                | Some r \<Rightarrow> Inr (al, a\<lparr>alloc_refs := (alloc_refs a)(handle al \<mapsto> r + 1)\<rparr>)))
        | None \<Rightarrow> load_new a p base ident))"

definition unload :: "allocator \<Rightarrow> allocation \<Rightarrow> pio_error + allocator" where
  "unload a al =
     (case map_of (alloc_table a) (handle al) of
        None \<Rightarrow> Inl (AllocationError UnknownAllocation)
      | Some canonical \<Rightarrow>
          if alloc_id al \<noteq> alloc_id canonical then Inl (AllocationError UnknownAllocation)
          else
            (case alloc_refs a (handle canonical) of
               None \<Rightarrow> Inl KeyError
             | Some r \<Rightarrow>
                 if r - 1 = 0 then
                   Inr (a\<lparr>alloc_bitmap := alloc_bitmap a AND
                            NOT (region_mask (int (length (alloc_words canonical)))
                                   (alloc_base canonical)),
                          alloc_refs := (alloc_refs a)(handle canonical := None),
                          alloc_table := filter (\<lambda>e. fst e \<noteq> handle canonical) (alloc_table a)\<rparr>)
                 else Inr (a\<lparr>alloc_refs := (alloc_refs a)(handle canonical \<mapsto> r - 1)\<rparr>)))"

section \<open>The allocator invariant\<close>

definition alloc_region :: "allocation \<Rightarrow> nat set" where
  "alloc_region al = {nat (alloc_base al)..<nat (alloc_base al) + length (alloc_words al)}"

definition image_ok :: "relocated_program \<Rightarrow> bool" where
  "image_ok r \<longleftrightarrow> relocate_program (rel_program r) (rel_base r) = Inr r"

definition alloc_inv :: "allocator \<Rightarrow> bool" where
  "alloc_inv a \<longleftrightarrow>
     distinct (map fst (alloc_table a)) \<and>
     (\<forall>h al. (h, al) \<in> set (alloc_table a) \<longrightarrow>
        handle al = h \<and> h < next_handle a \<and> image_ok (image al)) \<and>
     (\<forall>h. (\<exists>al. (h, al) \<in> set (alloc_table a)) \<longleftrightarrow> (\<exists>r. alloc_refs a h = Some r)) \<and>
     (\<forall>h r. alloc_refs a h = Some r \<longrightarrow> 1 \<le> r) \<and>
     (\<forall>h al k bl. (h, al) \<in> set (alloc_table a) \<longrightarrow> (k, bl) \<in> set (alloc_table a) \<longrightarrow>
        h \<noteq> k \<longrightarrow> alloc_region al \<inter> alloc_region bl = {}) \<and>
     bits_of (alloc_bitmap a) = (\<Union>al \<in> snd ` set (alloc_table a). alloc_region al)"

lemma alloc_invD:
  assumes "alloc_inv a"
  shows "distinct (map fst (alloc_table a))"
    and "(h, al) \<in> set (alloc_table a) \<Longrightarrow> handle al = h"
    and "(h, al) \<in> set (alloc_table a) \<Longrightarrow> h < next_handle a"
    and "(h, al) \<in> set (alloc_table a) \<Longrightarrow> image_ok (image al)"
    and "(h, al) \<in> set (alloc_table a) \<Longrightarrow> \<exists>r. alloc_refs a h = Some r"
    and "alloc_refs a h = Some r \<Longrightarrow> 1 \<le> r"
    and "(h, al) \<in> set (alloc_table a) \<Longrightarrow> (k, bl) \<in> set (alloc_table a) \<Longrightarrow> h \<noteq> k
      \<Longrightarrow> alloc_region al \<inter> alloc_region bl = {}"
    and "bits_of (alloc_bitmap a) = (\<Union>al \<in> snd ` set (alloc_table a). alloc_region al)"
  using assms unfolding alloc_inv_def by auto

lemma image_ok_facts:
  assumes "image_ok r"
  shows "program_validate (rel_program r) = Inr ()" "0 \<le> rel_base r"
    and "rel_base r + int (length (instructions (rel_program r))) \<le> 32"
    and "length (rel_words r) = length (instructions (rel_program r))"
    and "rel_entry r = rel_base r + entry (rel_program r)"
    and "rel_wrap_bottom r = rel_base r + wrap_bottom (rel_program r)"
    and "rel_wrap_top r = rel_base r + wrap_top (rel_program r)"
    and "list_all2 (\<lambda>w i. instruction_decode w = Inr (shift_branch (rel_base r) i))
      (rel_words r) (instructions (rel_program r))"
proof -
  let ?p = "rel_program r" and ?b = "rel_base r"
  have rel: "relocate_program ?p ?b = Inr r"
    using assms by (simp add: image_ok_def)
  then show v: "program_validate ?p = Inr ()" and b: "0 \<le> ?b"
      "?b + int (length (instructions ?p)) \<le> 32"
    by (auto simp: relocate_program_def Let_def result_simps)
  from relocate_program_ok [OF v b] rel
  show "rel_entry r = ?b + entry ?p" "rel_wrap_bottom r = ?b + wrap_bottom ?p"
    "rel_wrap_top r = ?b + wrap_top ?p"
    and l: "list_all2 (\<lambda>w i. instruction_decode w = Inr (shift_branch ?b i)) (rel_words r)
      (instructions ?p)"
    by auto
  from l show "length (rel_words r) = length (instructions ?p)"
    by (rule list_all2_lengthD)
qed

lemma relocate_program_image_ok:
  assumes "relocate_program p b = Inr r"
  shows "image_ok r" "rel_program r = p" "rel_base r = b"
  using assms by (auto simp: image_ok_def relocate_program_def Let_def result_simps)

lemma bits_of_region_mask:
  assumes "0 \<le> l" "0 \<le> b"
  shows "bits_of (region_mask l b) = {nat b..<nat b + nat l}"
  by (simp add: region_mask_def bits_simps)

lemma alloc_region_image:
  assumes "image_ok (image al)"
  shows "bits_of (region_mask (int (length (alloc_words al))) (alloc_base al)) = alloc_region al"
    and "alloc_region al \<subseteq> {..<32}" "alloc_region al \<noteq> {}"
proof -
  note f = image_ok_facts [OF assms]
  have "1 \<le> length (instructions (rel_program (image al)))"
    using program_validate_facts(1) [OF f(1)] .
  with f show "alloc_region al \<subseteq> {..<32}" "alloc_region al \<noteq> {}"
    by (auto simp: alloc_region_def alloc_base_def alloc_words_def)
  show "bits_of (region_mask (int (length (alloc_words al))) (alloc_base al)) = alloc_region al"
    using f by (simp add: bits_of_region_mask alloc_region_def alloc_base_def)
qed

lemma alloc_inv_init: "alloc_inv allocator_init"
  by (simp add: alloc_inv_def allocator_init_def bits_simps)

lemma load_new_result:
  assumes "load_new a p base ident = Inr (al, a')"
  shows "al = \<lparr>alloc_id = ident, handle = next_handle a, image = image al\<rparr>"
    and "image_ok (image al)" "rel_program (image al) = p"
    and "alloc_region al \<inter> bits_of (alloc_bitmap a) = {}"
    and "bits_of (alloc_bitmap a') = bits_of (alloc_bitmap a) \<union> alloc_region al"
    and "alloc_table a' = alloc_table a @ [(handle al, al)]"
    and "alloc_refs a' = (alloc_refs a)(handle al \<mapsto> 1)"
    and "next_handle a' = next_handle a + 1"
proof -
  from assms obtain b img where rel: "relocate_program p b = Inr img"
    and al: "al = \<lparr>alloc_id = ident, handle = next_handle a, image = img\<rparr>"
    and free: "alloc_bitmap a AND region_mask (int (length (instructions p))) b = 0"
    and a': "a' = a\<lparr>alloc_table := alloc_table a @ [(handle al, al)],
        alloc_refs := (alloc_refs a)(handle al \<mapsto> 1),
        alloc_bitmap := alloc_bitmap a OR region_mask (int (length (instructions p))) b,
        next_handle := next_handle a + 1\<rparr>"
    by (auto simp: load_new_def Let_def result_simps)
  note img = relocate_program_image_ok [OF rel]
  show "al = \<lparr>alloc_id = ident, handle = next_handle a, image = image al\<rparr>"
    and ok: "image_ok (image al)" and "rel_program (image al) = p"
    using img al by simp_all
  have len: "int (length (instructions p)) = int (length (alloc_words al))" "alloc_base al = b"
    using image_ok_facts(4) [OF img(1)] img al by (simp_all add: alloc_words_def alloc_base_def)
  note region = alloc_region_image(1) [OF ok]
  show "alloc_region al \<inter> bits_of (alloc_bitmap a) = {}"
    using free region len by (auto simp: and_zero_iff)
  show "bits_of (alloc_bitmap a') = bits_of (alloc_bitmap a) \<union> alloc_region al"
    using a' region len by (simp add: bits_simps)
  show "alloc_table a' = alloc_table a @ [(handle al, al)]"
    and "alloc_refs a' = (alloc_refs a)(handle al \<mapsto> 1)" and "next_handle a' = next_handle a + 1"
    using a' by simp_all
qed

lemma load_new_inv:
  assumes inv: "alloc_inv a" and ld: "load_new a p base ident = Inr (al, a')"
  shows "alloc_inv a'"
proof -
  note r = load_new_result [OF ld]
  have h: "handle al = next_handle a" using r(1) by (metis allocation.select_convs(2))
  note i = alloc_invD [OF inv]
  have sep: "alloc_region bl \<inter> alloc_region al = {}" if "(k, bl) \<in> set (alloc_table a)" for k bl
    using r(4) i(8) that by force
  show ?thesis
    unfolding alloc_inv_def r(6-8)
  proof (intro conjI allI impI)
    show "distinct (map fst (alloc_table a @ [(handle al, al)]))"
      using i(1) i(3) h by fastforce
    show "bits_of (alloc_bitmap a') = (\<Union>bl \<in> snd ` set (alloc_table a @ [(handle al, al)]). alloc_region bl)"
      using i(8) r(5) by auto
    show "alloc_region bl \<inter> alloc_region cl = {}"
      if "(k, bl) \<in> set (alloc_table a @ [(handle al, al)])"
        "(m, cl) \<in> set (alloc_table a @ [(handle al, al)])" "k \<noteq> m" for k bl m cl
      using that i(7) [of k bl m cl] sep by auto
    show "(\<exists>bl. (k, bl) \<in> set (alloc_table a @ [(handle al, al)])) \<longleftrightarrow>
        (\<exists>c. ((alloc_refs a)(handle al \<mapsto> 1)) k = Some c)" for k
      using inv by (auto simp: alloc_inv_def)
  qed (use i r(2) h in \<open>fastforce split: if_splits\<close>)+
qed

lemma alloc_inv_set_count:
  assumes "alloc_inv a" "alloc_refs a h = Some c" "1 \<le> d"
  shows "alloc_inv (a\<lparr>alloc_refs := (alloc_refs a)(h \<mapsto> d)\<rparr>)"
  using assms unfolding alloc_inv_def by simp

lemma load_inv:
  assumes inv: "alloc_inv a" and ld: "load a p base ident = Inr (al, a')"
  shows "alloc_inv a'"
proof (cases "find (\<lambda>al. program_eq (rel_program (image al)) p) (map snd (alloc_table a))")
  case None
  with ld have "load_new a p base ident = Inr (al, a')"
    by (auto simp: load_def result_simps)
  then show ?thesis by (rule load_new_inv [OF inv])
next
  case (Some bl)
  with ld obtain c where "alloc_refs a (handle bl) = Some c"
    and a': "a' = a\<lparr>alloc_refs := (alloc_refs a)(handle bl \<mapsto> c + 1)\<rparr>"
    by (auto simp: load_def result_simps split: if_splits option.splits)
  moreover from this inv have "1 \<le> c" by (auto simp: alloc_inv_def)
  ultimately show ?thesis using inv by (simp add: alloc_inv_set_count)
qed

lemma unload_result:
  assumes inv: "alloc_inv a" and ul: "unload a al = Inr a'"
  obtains bl c where "(handle al, bl) \<in> set (alloc_table a)" "handle bl = handle al"
    "alloc_id bl = alloc_id al" "alloc_refs a (handle bl) = Some c"
    "c \<noteq> 1 \<Longrightarrow> a' = a\<lparr>alloc_refs := (alloc_refs a)(handle bl \<mapsto> c - 1)\<rparr>"
    "c = 1 \<Longrightarrow> alloc_table a' = filter (\<lambda>e. fst e \<noteq> handle bl) (alloc_table a)"
    "c = 1 \<Longrightarrow> alloc_refs a' = (alloc_refs a)(handle bl := None)"
    "c = 1 \<Longrightarrow> bits_of (alloc_bitmap a') = bits_of (alloc_bitmap a) - alloc_region bl"
    "next_handle a' = next_handle a"
proof -
  from ul obtain bl c where bl: "map_of (alloc_table a) (handle al) = Some bl"
    and c: "alloc_refs a (handle bl) = Some c"
    by (auto simp: unload_def split: option.splits if_splits)
  have mem: "(handle al, bl) \<in> set (alloc_table a)" using bl by (rule map_of_SomeD)
  note i = alloc_invD [OF inv]
  show thesis
    by (rule that [OF mem i(2) [OF mem] _ c])
      (use ul bl c alloc_region_image(1) [OF i(4) [OF mem]] in
        \<open>auto simp: unload_def bits_of_ops split: if_splits\<close>)
qed

lemma unload_inv:
  assumes inv: "alloc_inv a" and ul: "unload a al = Inr a'"
  shows "alloc_inv a'"
  using inv ul
proof (rule unload_result)
  fix bl c
  assume mem: "(handle al, bl) \<in> set (alloc_table a)" and hb: "handle bl = handle al"
    and c: "alloc_refs a (handle bl) = Some c" and next_eq: "next_handle a' = next_handle a"
    and many: "c \<noteq> 1 \<Longrightarrow> a' = a\<lparr>alloc_refs := (alloc_refs a)(handle bl \<mapsto> c - 1)\<rparr>"
    and table: "c = 1 \<Longrightarrow> alloc_table a' = filter (\<lambda>e. fst e \<noteq> handle bl) (alloc_table a)"
    and refs: "c = 1 \<Longrightarrow> alloc_refs a' = (alloc_refs a)(handle bl := None)"
    and bits: "c = 1 \<Longrightarrow> bits_of (alloc_bitmap a') = bits_of (alloc_bitmap a) - alloc_region bl"
  note i = alloc_invD [OF inv]
  show ?thesis
  proof (cases "c = 1")
    case False
    with many c i(6) [OF c] inv show ?thesis by (simp add: alloc_inv_set_count)
  next
    case True
    let ?t = "filter (\<lambda>e. fst e \<noteq> handle bl) (alloc_table a)"
    have own: "cl = bl" if "(handle bl, cl) \<in> set (alloc_table a)" for cl
      using mem that hb i(1) by (metis eq_key_imp_eq_value)
    have others: "alloc_region cl \<inter> alloc_region bl = {}"
      if "(k, cl) \<in> set (alloc_table a)" "k \<noteq> handle bl" for k cl
      using i(7) [OF that(1) mem] that(2) hb by simp
    have "(\<Union>cl \<in> snd ` set (alloc_table a). alloc_region cl) - alloc_region bl
        = (\<Union>cl \<in> snd ` set ?t. alloc_region cl)"
      using own others by fastforce
    then show ?thesis
      unfolding alloc_inv_def table [OF True] refs [OF True] bits [OF True] next_eq
    proof (intro conjI allI impI)
      show "alloc_region cl \<inter> alloc_region dl = {}"
        if "(k, cl) \<in> set ?t" "(m, dl) \<in> set ?t" "k \<noteq> m" for k cl m dl
        using that i(7) [of k cl m dl] by simp
      show "(\<exists>cl. (k, cl) \<in> set ?t) \<longleftrightarrow> (\<exists>d. ((alloc_refs a)(handle bl := None)) k = Some d)" for k
        using inv by (auto simp: alloc_inv_def)
    qed (use i in \<open>auto simp: distinct_map_filter split: if_splits\<close>)
  qed
qed

section \<open>Reachable allocators\<close>

inductive alloc_step :: "allocator \<Rightarrow> allocator \<Rightarrow> bool" where
  step_load: "load a p base ident = Inr (al, a') \<Longrightarrow> alloc_step a a'"
| step_unload: "unload a al = Inr a' \<Longrightarrow> alloc_step a a'"

definition owner_region :: "allocator \<Rightarrow> int \<Rightarrow> nat set" where
  "owner_region a h = (case map_of (alloc_table a) h of Some al \<Rightarrow> alloc_region al | None \<Rightarrow> {})"

interpretation alloc_sys: invariant_system "\<lambda>a. a = allocator_init" alloc_step alloc_inv
  by unfold_locales (auto simp: alloc_inv_init elim!: alloc_step.cases intro: load_inv unload_inv)

lemma owner_region_mem:
  assumes "alloc_inv a" "(h, al) \<in> set (alloc_table a)"
  shows "owner_region a h = alloc_region al"
  using assms alloc_invD(1) [OF assms(1)] by (simp add: owner_region_def)

interpretation alloc_store: region_store alloc_inv "\<lambda>a. fst ` set (alloc_table a)" owner_region
  "\<lambda>a. bits_of (alloc_bitmap a)" 32
proof unfold_locales
  fix a :: allocator and h k :: int
  assume inv: "alloc_inv a"
  note i = alloc_invD [OF inv] and o = owner_region_mem [OF inv]
  show "finite (fst ` set (alloc_table a))" by simp
  show "bits_of (alloc_bitmap a) = (\<Union>h \<in> fst ` set (alloc_table a). owner_region a h)"
    using i(8) o by force
  show "owner_region a h \<inter> owner_region a k = {}"
    if "h \<in> fst ` set (alloc_table a)" "k \<in> fst ` set (alloc_table a)" "h \<noteq> k"
    using that i(7) o by force
  show "owner_region a h \<subseteq> {..<32}" if "h \<in> fst ` set (alloc_table a)"
    using that o i(4) alloc_region_image(2) by force
qed

text \<open>C3: in every state the allocator can reach from its initial one by successful loads and
  unloads, the bitmap is exactly the union of the live allocations' slots, no slot has two
  owners, the live allocations together never exceed the 32 slots, and every live allocation
  has at least one reference.\<close>

theorem allocator_partition:
  assumes "reach (\<lambda>a. a = allocator_init) alloc_step a"
  shows "bits_of (alloc_bitmap a) = (\<Union>h \<in> fst ` set (alloc_table a). owner_region a h) \<and>
    (\<forall>h k n. h \<in> fst ` set (alloc_table a) \<and> k \<in> fst ` set (alloc_table a) \<and>
       n \<in> owner_region a h \<and> n \<in> owner_region a k \<longrightarrow> h = k) \<and>
    (\<Sum>h \<in> fst ` set (alloc_table a). card (owner_region a h)) \<le> 32 \<and>
    (\<forall>h \<in> fst ` set (alloc_table a). \<exists>r \<ge> 1. alloc_refs a h = Some r)"
proof (intro conjI allI impI ballI)
  have inv: "alloc_inv a" using assms by (rule alloc_sys.reach_inv)
  then show "bits_of (alloc_bitmap a) = (\<Union>h \<in> fst ` set (alloc_table a). owner_region a h)"
    by (rule alloc_store.used_eq)
  show "h = k" if "h \<in> fst ` set (alloc_table a) \<and> k \<in> fst ` set (alloc_table a) \<and>
    n \<in> owner_region a h \<and> n \<in> owner_region a k" for h k n
    using alloc_store.owner_unique [OF inv] that by blast
  show "(\<Sum>h \<in> fst ` set (alloc_table a). card (owner_region a h)) \<le> 32"
    using inv by (rule alloc_store.capacity_bound)
  show "\<exists>r \<ge> 1. alloc_refs a h = Some r" if "h \<in> fst ` set (alloc_table a)" for h
    using that alloc_invD(5,6) [OF inv] by fastforce
qed

section \<open>Reading back, first fit, and unloading\<close>

lemma find_region:
  assumes inv: "alloc_inv a" and mem: "(h, al) \<in> set (alloc_table a)"
    and k: "k < length (alloc_words al)"
  shows "read_word a (alloc_base al + int k) = Inr (alloc_words al ! k)"
proof -
  note i = alloc_invD [OF inv]
  let ?P = "\<lambda>bl. alloc_base bl \<le> alloc_base al + int k \<and>
    alloc_base al + int k < alloc_base bl + int (length (alloc_words bl))"
  have b: "0 \<le> alloc_base bl" if "(m, bl) \<in> set (alloc_table a)" for m bl
    using image_ok_facts(2) [OF i(4) [OF that]] by (simp add: alloc_base_def)
  have nk: "nat (alloc_base al) + k \<in> alloc_region al"
    using k by (simp add: alloc_region_def)
  have uniq: "bl = al" if "bl \<in> set (map snd (alloc_table a))" "?P bl" for bl
  proof -
    from that(1) obtain m where m: "(m, bl) \<in> set (alloc_table a)" by auto
    have "nat (alloc_base al) + k \<in> alloc_region bl"
      using that(2) b [OF m] b [OF mem] by (auto simp: alloc_region_def)
    with nk have "m = h" using i(7) [OF mem m] by blast
    with m mem i(1) show ?thesis by (metis eq_key_imp_eq_value)
  qed
  have "al \<in> set (map snd (alloc_table a))" "?P al" using mem k by force+
  then have "find ?P (map snd (alloc_table a)) = Some al"
    using uniq by (intro find_unique)
  moreover have "alloc_base al + int k < 32"
    using alloc_region_image(2) [OF i(4) [OF mem]] nk b [OF mem] by auto
  ultimately show ?thesis
    using b [OF mem] by (simp add: read_word_def)
qed

lemma read_word_free:
  assumes inv: "alloc_inv a" and "0 \<le> n" "n < 32" "nat n \<notin> bits_of (alloc_bitmap a)"
  shows "read_word a n = Inr 0"
proof -
  note i = alloc_invD [OF inv]
  have "\<not> (alloc_base bl \<le> n \<and> n < alloc_base bl + int (length (alloc_words bl)))"
    if "(m, bl) \<in> set (alloc_table a)" for m bl
  proof -
    have "nat n \<notin> alloc_region bl" using assms(4) i(8) that by force
    moreover have "0 \<le> alloc_base bl"
      using image_ok_facts(2) [OF i(4) [OF that]] by (simp add: alloc_base_def)
    ultimately show ?thesis using assms(2) by (auto simp: alloc_region_def)
  qed
  then have "find (\<lambda>al. alloc_base al \<le> n \<and> n < alloc_base al + int (length (alloc_words al)))
      (map snd (alloc_table a)) = None"
    by (auto simp: find_None_iff)
  with assms(2,3) show ?thesis by (simp add: read_word_def)
qed

text \<open>What a free slot run is, on the set of used slots.\<close>

definition run_free :: "allocator \<Rightarrow> int \<Rightarrow> int \<Rightarrow> bool" where
  "run_free a len b \<longleftrightarrow>
     0 \<le> b \<and> b + len \<le> 32 \<and> {nat b..<nat b + nat len} \<inter> bits_of (alloc_bitmap a) = {}"

lemma first_fit_cases:
  assumes "0 \<le> len"
  shows "(\<exists>b. first_fit a len = Inr b \<and> run_free a len b \<and> (\<forall>c. run_free a len c \<longrightarrow> b \<le> c)) \<or>
    (first_fit a len = Inl (AllocationError NoRegion) \<and> (\<forall>c. \<not> run_free a len c))"
proof -
  let ?P = "\<lambda>b. alloc_bitmap a AND region_mask len b = 0"
  have P: "?P b \<longleftrightarrow> run_free a len b" if "0 \<le> b" "b < 32 - len + 1" for b
    using that assms bits_of_region_mask [OF assms that(1)]
    by (auto simp: run_free_def and_zero_iff)
  show ?thesis
  proof (cases "find ?P (py_range 0 (32 - len + 1))")
    case None
    then have "\<not> run_free a len c" for c
      using P [of c] by (auto simp: find_None_eq run_free_def)
    with None show ?thesis by (simp add: first_fit_def)
  next
    case (Some b)
    note l = find_py_range_least [OF Some]
    have "b \<le> c" if "run_free a len c" for c
      using l(2) l(4) [of c] P [of c] that by (force simp: run_free_def)
    moreover have "run_free a len b" using l P by blast
    ultimately show ?thesis using Some by (simp add: first_fit_def)
  qed
qed

text \<open>C4: first fit is exact: asked for a run of slots, the allocator answers the least base
  whose whole run is free and inside the store, and it reports that no region has enough free
  slots only when there is no such base.\<close>

theorem first_fit_exact:
  assumes "0 \<le> len"
  shows "(\<forall>b. first_fit a len = Inr b \<longleftrightarrow>
        run_free a len b \<and> (\<forall>c. run_free a len c \<longrightarrow> b \<le> c)) \<and>
    (first_fit a len = Inl (AllocationError NoRegion) \<longleftrightarrow> (\<forall>c. \<not> run_free a len c))"
  using first_fit_cases [OF assms, of a] by auto (blast intro: order_antisym)

lemma load_mem:
  assumes inv: "alloc_inv a" and ld: "load a p base ident = Inr (al, a')"
  shows "(handle al, al) \<in> set (alloc_table a')" "program_eq (rel_program (image al)) p"
proof -
  have "(handle al, al) \<in> set (alloc_table a') \<and> program_eq (rel_program (image al)) p"
  proof (cases "find (\<lambda>al. program_eq (rel_program (image al)) p) (map snd (alloc_table a))")
    case None
    with ld have "load_new a p base ident = Inr (al, a')"
      by (auto simp: load_def result_simps)
    from load_new_result [OF this] show ?thesis by (simp add: program_eq_def)
  next
    case (Some bl)
    then have "bl \<in> set (map snd (alloc_table a))" "program_eq (rel_program (image bl)) p"
      by (auto simp: find_Some_iff)
    then show ?thesis
      using Some ld alloc_invD(2) [OF inv]
      by (fastforce simp: load_def result_simps split: if_splits option.splits)
  qed
  then show "(handle al, al) \<in> set (alloc_table a')" "program_eq (rel_program (image al)) p"
    by auto
qed

lemma program_eq_instructions: "program_eq p q \<Longrightarrow> instructions p = instructions q"
  unfolding program_eq_def by (metis program.select_convs(2) program.surjective program.update_convs(17))

text \<open>Loading a program, whether it creates an image or shares one already published,
  makes the store hold the program: the slot of instruction \<open>k\<close> reads back as a word that
  decodes to instruction \<open>k\<close> with its branch target moved by the base, and to nothing else.\<close>

theorem load_read_word:
  assumes "alloc_inv a" "load a p base ident = Inr (al, a')" "k < length (instructions p)"
  shows "\<exists>w. read_word a' (alloc_base al + int k) = Inr w \<and>
    instruction_decode w = Inr (shift_branch (alloc_base al) (instructions p ! k))"
proof -
  have inv': "alloc_inv a'" using assms(1,2) by (rule load_inv)
  note m = load_mem [OF assms(1,2)]
  note f = image_ok_facts [OF alloc_invD(4) [OF inv' m(1)]]
  have eq: "instructions (rel_program (image al)) = instructions p"
    using m(2) by (rule program_eq_instructions)
  have "k < length (alloc_words al)" using assms(3) f(4) eq by (simp add: alloc_words_def)
  then show ?thesis
    using find_region [OF inv' m(1)] f(8) eq
    by (auto simp: list_all2_conv_all_nth alloc_words_def alloc_base_def)
qed

text \<open>C5: unloading what was just loaded undoes the load: the bitmap, the table of images and
  the reference counts are those before, so images are shared by counting and freed only with
  their last reference. Only the handle counter has moved.\<close>

theorem load_unload_roundtrip:
  assumes inv: "alloc_inv a" and ld: "load a p base ident = Inr (al, a')"
  shows "\<exists>a''. unload a' al = Inr a'' \<and> alloc_bitmap a'' = alloc_bitmap a \<and>
    alloc_table a'' = alloc_table a \<and> alloc_refs a'' = alloc_refs a"
proof (cases "find (\<lambda>al. program_eq (rel_program (image al)) p) (map snd (alloc_table a))")
  case None
  with ld have new: "load_new a p base ident = Inr (al, a')"
    by (auto simp: load_def result_simps)
  note r = load_new_result [OF new] and i = alloc_invD [OF inv]
  have h: "handle al = next_handle a" using r(1) by (metis allocation.select_convs(2))
  have fresh: "handle al \<notin> fst ` set (alloc_table a)" using i(3) h by force
  have "(\<exists>bl. (handle al, bl) \<in> set (alloc_table a)) \<longleftrightarrow> (\<exists>c. alloc_refs a (handle al) = Some c)"
    using inv by (simp add: alloc_inv_def)
  with fresh have refs: "alloc_refs a (handle al) = None"
    by (metis fst_conv imageI not_None_eq)
  have "map_of (alloc_table a') (handle al) = Some al"
    using fresh by (simp add: r(6) map_of_append map_add_def weak_map_of_SomeI
        map_of_eq_None_iff [symmetric])
  moreover have "filter (\<lambda>e. fst e \<noteq> handle al) (alloc_table a) = alloc_table a"
    using fresh by (intro filter_True) force
  moreover have "alloc_bitmap a' AND
      NOT (region_mask (int (length (alloc_words al))) (alloc_base al)) = alloc_bitmap a"
    using r(4) r(5) alloc_region_image(1) [OF r(2)]
    by (subst bits_of_eq_iff [symmetric]) (auto simp: bits_of_ops)
  ultimately show ?thesis
    using refs by (simp add: unload_def r(6,7) fun_upd_idem)
next
  case (Some bl)
  then have "bl \<in> set (map snd (alloc_table a))" by (auto simp: find_Some_iff)
  then have mem: "(handle bl, bl) \<in> set (alloc_table a)" using alloc_invD(2) [OF inv] by force
  from Some ld obtain c where c: "alloc_refs a (handle bl) = Some c" "al = bl"
    "a' = a\<lparr>alloc_refs := (alloc_refs a)(handle bl \<mapsto> c + 1)\<rparr>"
    by (auto simp: load_def result_simps split: if_splits option.splits)
  moreover have "map_of (alloc_table a) (handle bl) = Some bl"
    using mem alloc_invD(1) [OF inv] by simp
  moreover have "c \<noteq> 0" using alloc_invD(6) [OF inv c(1)] by simp
  ultimately show ?thesis by (auto simp: unload_def fun_upd_idem)
qed

section \<open>The allocator on a concrete program\<close>

lemma ir_tx_load_ok: "case load allocator_init ir_tx None 7 of Inr _ \<Rightarrow> True | Inl _ \<Rightarrow> False"
  by code_simp

lemma ir_tx_load:
  obtains al a where "load allocator_init ir_tx None 7 = Inr (al, a)"
  using ir_tx_load_ok by (auto split: sum.splits)

lemma allocator_partition_witness:
  "\<exists>a. reach (\<lambda>a. a = allocator_init) alloc_step a \<and> fst ` set (alloc_table a) \<noteq> {} \<and>
    (\<Sum>h \<in> fst ` set (alloc_table a). card (owner_region a h)) \<le> 32"
proof -
  obtain al a where ld: "load allocator_init ir_tx None 7 = Inr (al, a)" by (rule ir_tx_load)
  have i: "reach (\<lambda>a. a = allocator_init) alloc_step allocator_init" by (rule reach_init) simp
  have r: "reach (\<lambda>a. a = allocator_init) alloc_step a" by (rule reach_step [OF i step_load [OF ld]])
  have "fst ` set (alloc_table a) \<noteq> {}" using load_mem(1) [OF alloc_inv_init ld] by auto
  then show ?thesis using r conjunct1 [OF conjunct2 [OF conjunct2 [OF allocator_partition [OF r]]]] by blast
qed

lemma first_fit_exact_witness:
  "first_fit (allocator_init\<lparr>alloc_bitmap := 7\<rparr>) 4 = Inr 3 \<and>
   run_free (allocator_init\<lparr>alloc_bitmap := 7\<rparr>) 4 3 \<and>
   \<not> run_free (allocator_init\<lparr>alloc_bitmap := 7\<rparr>) 4 2"
proof -
  have "first_fit (allocator_init\<lparr>alloc_bitmap := 7\<rparr>) 4 = Inr 3"
    by code_simp
  then show ?thesis
    using first_fit_exact [of 4 "allocator_init\<lparr>alloc_bitmap := 7\<rparr>"] by fastforce
qed

lemma load_read_word_witness:
  "case load allocator_init ir_tx None 7 of Inl _ \<Rightarrow> False
   | Inr (al, a) \<Rightarrow> \<exists>w. read_word a (alloc_base al + 6) = Inr w \<and>
       instruction_decode w = Inr (shift_branch (alloc_base al) (instructions ir_tx ! 6))"
proof -
  obtain al a where ld: "load allocator_init ir_tx None 7 = Inr (al, a)" by (rule ir_tx_load)
  show ?thesis
    unfolding ld sum.case prod.case using load_read_word [OF alloc_inv_init ld, of 6] by simp
qed

lemma load_unload_roundtrip_witness:
  "case load allocator_init ir_tx None 7 of Inl _ \<Rightarrow> False
   | Inr (al, a) \<Rightarrow> \<exists>b. unload a al = Inr b \<and> alloc_bitmap b = 0 \<and> alloc_table b = []"
proof -
  obtain al a where ld: "load allocator_init ir_tx None 7 = Inr (al, a)" by (rule ir_tx_load)
  show ?thesis
    unfolding ld sum.case prod.case
    using load_unload_roundtrip [OF alloc_inv_init ld] by (auto simp: allocator_init_def)
qed

end
