(* ===== verification/Pio_Model.thy ===== *)
theory Pio_Model
  imports Pio_Alloc
begin

text \<open>
  The cycle-stepped two-state-machine reference model of \<^verbatim>\<open>scripts/piolite_model.py\<close>.

  \<^item> \<open>sm_config\<close>, \<open>sm\<close> and \<open>machine\<close> are the classes \<open>SMConfig\<close>, \<open>SM\<close> and
    \<open>Machine\<close>, field by field; a \<open>FIFO\<close> is its list of items.
  \<^item> Inside an execution tick the code mutates a copy of the state machine and leaves by
    return, by \<open>_ExecutionFault\<close>, by \<open>_ExecutionStall\<close> or (were it possible) by a FIFO
    error. \<open>apply_instruction\<close> therefore returns the copy as it stands together with an
    exception or the pair of flag masks: the fault path evaluates \<open>_successor\<close> on that copy.
  \<^item> The public operations return \<open>Inl\<close> for an exception; \<open>NegativeShift\<close> is the
    \<open>ValueError\<close> of Python's \<open><<\<close> for a negative count. \<open>publish\<close> and \<open>unpublish\<close>
    use \<open>id(allocation)\<close> as a key, which is \<open>alloc_id\<close>.
  \<^item> The dictionaries given to \<open>step\<close> are association lists in insertion order.
\<close>

unbundle bit_operations_syntax

section \<open>State\<close>

datatype sm_state = DISABLED | RUNNING | PAUSED | HALTED | CLOSING

datatype fault_code =
    FAULT_NONE | ILLEGAL_INSTRUCTION | INVALID_FETCH | PROGRAM_BOUNDS | SHIFT_BOUNDS
  | PIN_AUTHORIZATION

datatype stall_kind = STALL_NONE | STALL_PIN | STALL_FLAG | STALL_TX | STALL_RX

fun fault_number :: "fault_code \<Rightarrow> int" where
  "fault_number FAULT_NONE = 0"
| "fault_number ILLEGAL_INSTRUCTION = 1"
| "fault_number INVALID_FETCH = 2"
| "fault_number PROGRAM_BOUNDS = 3"
| "fault_number SHIFT_BOUNDS = 4"
| "fault_number PIN_AUTHORIZATION = 5"

definition min_fault :: "fault_code \<Rightarrow> fault_code \<Rightarrow> fault_code" where
  "min_fault c d = (if fault_number d < fault_number c then d else c)"

abbreviation (input) "EVENT_HALT \<equiv> (1 :: int)"
abbreviation (input) "EVENT_FAULT \<equiv> (4 :: int)"
abbreviation (input) "EVENT_TX_STALL \<equiv> (8 :: int)"
abbreviation (input) "EVENT_RX_STALL \<equiv> (16 :: int)"
abbreviation (input) "EVENT_FIFO_FAIL \<equiv> (32 :: int)"

datatype fifo_check = FifoContents | FifoWord | FifoFull | FifoEmpty

datatype (plugins only: code size) control_check =
    ConfigRegion | ConfigRegionEnd | ConfigEntry | ConfigWrapBottom | ConfigWrapTop
  | ConfigWrapOrder | ConfigDivider | ConfigShift | ConfigClaimMask | ConfigOutputMask
  | ConfigInitialValue | ConfigInitialOe | OutputUnclaimed | WindowUnclaimed | WindowNotOutput
  | InitialNotOutput | InitialXY | TestPinInvalid | TestPinUnclaimed | TestFlagInvalid
  | ConfigCount | NotDisabled | PublishedSize | ForeignIdentity | SlotsValid
  | UnknownPublished | ImemIndex | StartNotClean | StartRxData | StartInvalidWord
  | OutputsOverlap | ResetState | SmIndex | SmMask | ConflictingCommands | FlagMaskWidth
  | FifoIndex | RxReadTwice | PauseState | ResumeState | DisableClosing

datatype model_error =
    ControlError control_check | FIFOError fifo_check | PioError pio_error | ModelKeyError
  | NegativeShift

record sm_config =
  cfg_base :: int
  cfg_length :: int
  cfg_entry :: int
  cfg_wrap_bottom :: int
  cfg_wrap_top :: int
  cfg_divider :: int
  autopull :: bool
  autopush :: bool
  tx_right :: bool
  rx_right :: bool
  tx_bits :: int
  rx_bits :: int
  cfg_in_window :: pin_window
  cfg_out_window :: pin_window
  cfg_set_window :: pin_window
  cfg_claim_mask :: int
  cfg_output_mask :: int
  initial_value :: int
  initial_oe :: int
  initial_x :: int
  initial_y :: int
  test_pin_enable :: bool
  test_pin :: "int option"
  test_flag :: int

record sm =
  config :: sm_config
  run_state :: sm_state
  pc :: int
  isr :: int
  osr :: int
  isr_count :: int
  osr_count :: int
  x_reg :: int
  y_reg :: int
  tx_fifo :: "int list"
  rx_fifo :: "int list"
  last_fifo_failed :: bool
  fault :: fault_code
  fault_pc :: int
  stall :: stall_kind
  divider_remaining :: int
  delay_remaining :: int
  tick_count :: int
  tx_stall_count :: int
  rx_stall_count :: int
  retired_count :: int
  events :: int
  output_value :: int
  output_oe :: int

record machine =
  sms :: "sm list"
  imem :: "int list"
  imem_valid :: int
  published_allocations :: "(nat \<times> allocation) list"
  published_references :: "nat \<rightharpoonup> int"
  machine_flags :: int
  pin_inputs :: int
  pclk_edges :: int

section \<open>FIFOs and helpers\<close>

definition fifo_push :: "int list \<Rightarrow> int \<Rightarrow> fifo_check + int list" where
  "fifo_push items word =
     (if \<not> (0 \<le> word \<and> word \<le> 4294967295) then Inl FifoWord
      else if length items \<ge> FIFO_DEPTH then Inl FifoFull
      else Inr (items @ [word]))"

definition fifo_pop :: "int list \<Rightarrow> fifo_check + (int \<times> int list)" where
  "fifo_pop items = (case items of [] \<Rightarrow> Inl FifoEmpty | w # ws \<Rightarrow> Inr (w, ws))"

definition low_mask :: "int \<Rightarrow> int" where
  "low_mask width = (if width = 32 then 4294967295 else shl 1 width - 1)"

definition saturating_increment :: "int \<Rightarrow> int" where
  "saturating_increment v = min 4294967295 (v + 1)"

definition validate_mask :: "int \<Rightarrow> model_error + nat list" where
  "validate_mask sel =
     (if \<not> (0 \<le> sel \<and> sel \<le> 3) then Inl (ControlError SmMask)
      else Inr (filter (\<lambda>index. sel AND push_bit index 1 \<noteq> 0) [0, 1]))"

definition new_sm :: "sm_config \<Rightarrow> int \<Rightarrow> int \<Rightarrow> sm" where
  "new_sm c pc0 div0 =
     \<lparr>config = c, run_state = DISABLED, pc = pc0, isr = 0, osr = 0, isr_count = 0, osr_count = 0,
      x_reg = 0, y_reg = 0, tx_fifo = [], rx_fifo = [], last_fifo_failed = False, fault = FAULT_NONE,
      fault_pc = 0, stall = STALL_NONE, divider_remaining = div0, delay_remaining = 0,
      tick_count = 0, tx_stall_count = 0, rx_stall_count = 0, retired_count = 0, events = 0,
      output_value = 0, output_oe = 0\<rparr>"

section \<open>Configurations\<close>

record allocation_overrides =
  ov_divider :: int
  ov_initial_value :: int
  ov_initial_oe :: int
  ov_initial_x :: int
  ov_initial_y :: int
  ov_claim_mask :: "int option"
  ov_output_mask :: "int option"
  ov_test_pin_enable :: "bool option"

definition default_overrides :: allocation_overrides where
  "default_overrides =
     \<lparr>ov_divider = 1, ov_initial_value = 0, ov_initial_oe = 0, ov_initial_x = 0,
      ov_initial_y = 0, ov_claim_mask = None, ov_output_mask = None, ov_test_pin_enable = None\<rparr>"

definition from_allocation :: "allocation \<Rightarrow> allocation_overrides \<Rightarrow> sm_config" where
  "from_allocation al ov =
     (let img = image al; p = rel_program img in
      \<lparr>cfg_base = rel_base img, cfg_length = int (length (rel_words img)),
       cfg_entry = rel_entry img, cfg_wrap_bottom = rel_wrap_bottom img,
       cfg_wrap_top = rel_wrap_top img, cfg_divider = ov_divider ov,
       autopull = (shift_md (tx p) = Auto), autopush = (shift_md (rx p) = Auto),
       tx_right = (shift_dir (tx p) = Right), rx_right = (shift_dir (rx p) = Right),
       tx_bits = shift_bits (tx p), rx_bits = shift_bits (rx p),
       cfg_in_window = in_window p, cfg_out_window = out_window p,
       cfg_set_window = set_window p,
       cfg_claim_mask = (case ov_claim_mask ov of None \<Rightarrow> claim_mask p | Some m \<Rightarrow> m),
       cfg_output_mask = (case ov_output_mask ov of
           None \<Rightarrow> window_mask (out_window p) OR window_mask (set_window p) | Some m \<Rightarrow> m),
       initial_value = ov_initial_value ov, initial_oe = ov_initial_oe ov,
       initial_x = ov_initial_x ov, initial_y = ov_initial_y ov,
       test_pin_enable = (case ov_test_pin_enable ov of
           None \<Rightarrow> test_pin_is_used (instructions p) | Some b \<Rightarrow> b),
       test_pin = test_spec_pin (test p), test_flag = test_spec_flag (test p)\<rparr>)"

definition u32_check :: "int \<Rightarrow> control_check \<Rightarrow> model_error + unit" where
  "u32_check v e = raise_if (\<not> (0 \<le> v \<and> v \<le> 4294967295)) (ControlError e)"

definition config_validate :: "sm_config \<Rightarrow> model_error + unit" where
  "config_validate c =
     (let inside = (\<lambda>v. cfg_base c \<le> v \<and> v < cfg_base c + cfg_length c);
          windows = (window_mask (cfg_in_window c) OR window_mask (cfg_out_window c))
                      OR window_mask (cfg_set_window c) in
      first_error
        [raise_if (\<not> (0 \<le> cfg_base c \<and> cfg_base c < INSTRUCTION_WORDS)
             \<or> \<not> (1 \<le> cfg_length c \<and> cfg_length c \<le> INSTRUCTION_WORDS)) (ControlError ConfigRegion),
         raise_if (cfg_base c + cfg_length c > INSTRUCTION_WORDS) (ControlError ConfigRegionEnd),
         raise_if (\<not> inside (cfg_entry c)) (ControlError ConfigEntry),
         raise_if (\<not> inside (cfg_wrap_bottom c)) (ControlError ConfigWrapBottom),
         raise_if (\<not> inside (cfg_wrap_top c)) (ControlError ConfigWrapTop),
         raise_if (cfg_wrap_bottom c > cfg_wrap_top c) (ControlError ConfigWrapOrder),
         raise_if (\<not> (1 \<le> cfg_divider c \<and> cfg_divider c \<le> 65535)) (ControlError ConfigDivider),
         raise_if (\<not> (1 \<le> tx_bits c \<and> tx_bits c \<le> 32) \<or> \<not> (1 \<le> rx_bits c \<and> rx_bits c \<le> 32))
           (ControlError ConfigShift),
         map_error PioError (window_validate (cfg_in_window c) IN_WINDOW 32),
         map_error PioError (window_validate (cfg_out_window c) OUT_WINDOW 32),
         map_error PioError (window_validate (cfg_set_window c) SET_WINDOW 8),
         u32_check (cfg_claim_mask c) ConfigClaimMask,
         u32_check (cfg_output_mask c) ConfigOutputMask,
         u32_check (initial_value c) ConfigInitialValue,
         u32_check (initial_oe c) ConfigInitialOe,
         raise_if (cfg_output_mask c AND NOT (cfg_claim_mask c) \<noteq> 0) (ControlError OutputUnclaimed),
         raise_if (windows AND NOT (cfg_claim_mask c) \<noteq> 0) (ControlError WindowUnclaimed),
         raise_if ((window_mask (cfg_out_window c) OR window_mask (cfg_set_window c))
             AND NOT (cfg_output_mask c) \<noteq> 0) (ControlError WindowNotOutput),
         raise_if (initial_value c AND NOT (cfg_output_mask c) \<noteq> 0
             \<or> initial_oe c AND NOT (cfg_output_mask c) \<noteq> 0) (ControlError InitialNotOutput),
         raise_if (\<not> (0 \<le> initial_x c \<and> initial_x c \<le> 65535)
             \<or> \<not> (0 \<le> initial_y c \<and> initial_y c \<le> 65535)) (ControlError InitialXY),
         (if test_pin_enable c then
            (case test_pin c of
               None \<Rightarrow> Inl (ControlError TestPinInvalid)
             | Some p \<Rightarrow>
                 if \<not> (0 \<le> p \<and> p \<le> 31) then Inl (ControlError TestPinInvalid)
                 else raise_if (cfg_claim_mask c AND shl 1 p = 0) (ControlError TestPinUnclaimed))
          else Inr ()),
         raise_if (\<not> (0 \<le> test_flag c \<and> test_flag c \<le> 3)) (ControlError TestFlagInvalid)])"

section \<open>Executing one instruction\<close>

datatype exec_exn = ExecFault fault_code | ExecStall stall_kind | ExecFifo fifo_check

type_synonym 'a exec = "sm \<times> (exec_exn + 'a)"

definition require_output :: "sm \<Rightarrow> pin_window \<Rightarrow> exec_exn + unit" where
  "require_output s w =
     raise_if (window_mask w AND NOT (cfg_claim_mask (config s)) \<noteq> 0
         \<or> window_mask w AND NOT (cfg_output_mask (config s)) \<noteq> 0) (ExecFault PIN_AUTHORIZATION)"

definition fifo_failed :: "sm \<Rightarrow> sm" where
  "fifo_failed s = s\<lparr>last_fifo_failed := True, events := events s OR EVENT_FIFO_FAIL\<rparr>"

definition normalized_isr :: "sm \<Rightarrow> exec_exn + int" where
  "normalized_isr s =
     (if isr_count s = 0 then Inl (ExecFault SHIFT_BOUNDS)
      else if rx_right (config s) then
        Inr (shr (isr s) (32 - isr_count s) AND low_mask (isr_count s))
      else Inr (isr s AND low_mask (isr_count s)))"

definition apply_fifo :: "sm \<Rightarrow> int \<Rightarrow> unit exec" where
  "apply_fifo s oper =
     (let blocking = (shr oper 6 AND 1 = 1) in
      if shr oper 7 AND 1 = 0 then
        (case fifo_pop (tx_fifo s) of
           Inl _ \<Rightarrow>
             if blocking then (s, Inl (ExecStall STALL_TX)) else (fifo_failed s, Inr ())
         | Inr (word, rest) \<Rightarrow>
             (s\<lparr>tx_fifo := rest, osr := word AND low_mask (tx_bits (config s)),
                osr_count := tx_bits (config s), last_fifo_failed := False\<rparr>, Inr ()))
      else
        (case normalized_isr s of
           Inl e \<Rightarrow> (s, Inl e)
         | Inr word \<Rightarrow>
             if length (rx_fifo s) \<ge> FIFO_DEPTH then
               (if blocking then (s, Inl (ExecStall STALL_RX)) else (fifo_failed s, Inr ()))
             else
               (case fifo_push (rx_fifo s) word of
                  Inl e \<Rightarrow> (s, Inl (ExecFifo e))
                | Inr items \<Rightarrow>
                    (s\<lparr>rx_fifo := items, isr := 0, isr_count := 0, last_fifo_failed := False\<rparr>,
                     Inr ()))))"

text \<open>\<open>_apply_out\<close>: the refill, the shift, and the destination, in that order.\<close>

definition out_refill :: "sm \<Rightarrow> int \<Rightarrow> unit exec" where
  "out_refill s count =
     (if osr_count s = 0 then
        (if \<not> autopull (config s) \<or> count > tx_bits (config s)
         then (s, Inl (ExecFault SHIFT_BOUNDS))
         else
           (case fifo_pop (tx_fifo s) of
              Inl _ \<Rightarrow> (s, Inl (ExecStall STALL_TX))
            | Inr (word, rest) \<Rightarrow>
                (s\<lparr>tx_fifo := rest, osr := word AND low_mask (tx_bits (config s)),
                   osr_count := tx_bits (config s), last_fifo_failed := False\<rparr>, Inr ())))
      else if osr_count s < count then (s, Inl (ExecFault SHIFT_BOUNDS))
      else (s, Inr ()))"

definition out_shift :: "sm \<Rightarrow> int \<Rightarrow> sm \<times> int" where
  "out_shift s count =
     (if tx_right (config s) then
        (s\<lparr>osr := shr (osr s) count AND low_mask (osr_count s - count),
           osr_count := osr_count s - count\<rparr>, osr s AND low_mask count)
      else
        (let sh = osr_count s - count in
         (s\<lparr>osr := osr s AND low_mask sh, osr_count := osr_count s - count\<rparr>,
          shr (osr s) sh AND low_mask count)))"

definition out_destination :: "sm \<Rightarrow> int \<Rightarrow> int \<Rightarrow> int \<Rightarrow> unit exec" where
  "out_destination s destination count chunk =
     (if destination \<in> {OUT_PINS, OUT_DIRECTIONS} then
        (let w = cfg_out_window (config s) in
         if count > win_width w then (s, Inl (ExecFault PIN_AUTHORIZATION))
         else
           (case require_output s w of
              Inl e \<Rightarrow> (s, Inl e)
            | Inr _ \<Rightarrow>
                (let aligned = shl chunk (win_base w);
                     update_mask = shl (low_mask count) (win_base w) in
                 if destination = OUT_PINS
                 then (s\<lparr>output_value := (output_value s AND NOT update_mask) OR aligned\<rparr>, Inr ())
                 else (s\<lparr>output_oe := (output_oe s AND NOT update_mask) OR aligned\<rparr>, Inr ()))))
      else if destination = OUT_X then (s\<lparr>x_reg := chunk AND 65535\<rparr>, Inr ())
      else if destination = OUT_Y then (s\<lparr>y_reg := chunk AND 65535\<rparr>, Inr ())
      else (s, Inr ()))"

definition count_of :: "int \<Rightarrow> int" where
  "count_of oper = (case encoded_count (oper AND 31) of Inr n \<Rightarrow> n | Inl _ \<Rightarrow> 0)"

definition apply_out :: "sm \<Rightarrow> int \<Rightarrow> unit exec" where
  "apply_out s oper =
     (let count = count_of oper in
      case out_refill s count of
        (s1, Inl e) \<Rightarrow> (s1, Inl e)
      | (s1, Inr _) \<Rightarrow>
          (case out_shift s1 count of
             (s2, chunk) \<Rightarrow> out_destination s2 (shr oper 5) count chunk))"

definition in_value :: "sm \<Rightarrow> int \<Rightarrow> int \<Rightarrow> int \<Rightarrow> exec_exn + int" where
  "in_value s source count pins =
     (if source = IN_PINS then
        (let w = cfg_in_window (config s) in
         if count > win_width w \<or> window_mask w AND NOT (cfg_claim_mask (config s)) \<noteq> 0
         then Inl (ExecFault PIN_AUTHORIZATION)
         else Inr (shr pins (win_base w) AND low_mask count))
      else if source = IN_X then Inr (x_reg s AND low_mask count)
      else if source = IN_Y then Inr (y_reg s AND low_mask count)
      else Inr 0)"

definition apply_in :: "sm \<Rightarrow> int \<Rightarrow> int \<Rightarrow> unit exec" where
  "apply_in s oper pins =
     (let count = count_of oper;
          resulting_count = isr_count s + count;
          limit = (if autopush (config s) then rx_bits (config s) else 32) in
      if resulting_count > limit then (s, Inl (ExecFault SHIFT_BOUNDS))
      else if autopush (config s) \<and> resulting_count = rx_bits (config s)
           \<and> length (rx_fifo s) \<ge> FIFO_DEPTH then (s, Inl (ExecStall STALL_RX))
      else
        (case in_value s (shr oper 5) count pins of
           Inl e \<Rightarrow> (s, Inl e)
         | Inr v \<Rightarrow>
             (let s1 = s\<lparr>isr := (if rx_right (config s)
                               then (shr (isr s) count OR shl v (32 - count)) AND 4294967295
                               else (shl (isr s) count OR v) AND 4294967295),
                         isr_count := resulting_count\<rparr> in
              if autopush (config s) \<and> resulting_count = rx_bits (config s) then
                (case normalized_isr s1 of
                   Inl e \<Rightarrow> (s1, Inl e)
                 | Inr word \<Rightarrow>
                     (case fifo_push (rx_fifo s1) word of
                        Inl e \<Rightarrow> (s1, Inl (ExecFifo e))
                      | Inr items \<Rightarrow>
                          (s1\<lparr>rx_fifo := items, isr := 0, isr_count := 0,
                              last_fifo_failed := False\<rparr>, Inr ())))
              else (s1, Inr ()))))"

definition no_flags :: "unit exec \<Rightarrow> (int \<times> int) exec" where
  "no_flags r = (case r of (s, Inl e) \<Rightarrow> (s, Inl e) | (s, Inr _) \<Rightarrow> (s, Inr (0, 0)))"

definition apply_set :: "sm \<Rightarrow> int \<Rightarrow> int \<Rightarrow> (int \<times> int) exec" where
  "apply_set s opc oper =
     (let w = cfg_set_window (config s) in
      if win_width w = 0 then (s, Inl (ExecFault PIN_AUTHORIZATION))
      else
        (case require_output s w of
           Inl e \<Rightarrow> (s, Inl e)
         | Inr _ \<Rightarrow>
             (let v = (oper AND 255) AND (shl 1 (win_width w) - 1);
                  aligned = shl v (win_base w) in
              if opc = SET_PIN
              then (s\<lparr>output_value := (output_value s AND NOT (window_mask w)) OR aligned\<rparr>, Inr (0, 0))
              else (s\<lparr>output_oe := (output_oe s AND NOT (window_mask w)) OR aligned\<rparr>, Inr (0, 0)))))"

definition apply_move :: "sm \<Rightarrow> int \<Rightarrow> (int \<times> int) exec" where
  "apply_move s oper =
     (let source = shr oper 3 AND 7;
          v = [isr s, osr s, x_reg s, y_reg s, 0, 4294967295] ! nat source AND 4294967295;
          destination = shr oper 6 in
      if destination = 0 then (s\<lparr>isr := v, isr_count := 32\<rparr>, Inr (0, 0))
      else if destination = 1 then (s\<lparr>osr := v, osr_count := 32\<rparr>, Inr (0, 0))
      else if destination = 2 then (s\<lparr>x_reg := v AND 65535\<rparr>, Inr (0, 0))
      else (s\<lparr>y_reg := v AND 65535\<rparr>, Inr (0, 0)))"

definition apply_wait :: "sm \<Rightarrow> int \<Rightarrow> int \<Rightarrow> int \<Rightarrow> (int \<times> int) exec" where
  "apply_wait s oper flgs pins =
     (let source = shr oper 7 AND 1;
          level = shr oper 6 AND 1;
          index = shr oper 1 AND 31 in
      if source = 0 then
        (if cfg_claim_mask (config s) AND shl 1 index = 0 then (s, Inl (ExecFault PIN_AUTHORIZATION))
         else if of_bool (pins AND shl 1 index \<noteq> 0) \<noteq> level then (s, Inl (ExecStall STALL_PIN))
         else (s, Inr (0, 0)))
      else
        (if of_bool (flgs AND shl 1 index \<noteq> 0) \<noteq> level then (s, Inl (ExecStall STALL_FLAG))
         else (s, Inr (0, 0))))"

definition apply_instruction :: "sm \<Rightarrow> instruction \<Rightarrow> int \<Rightarrow> int \<Rightarrow> (int \<times> int) exec" where
  "apply_instruction s i flgs pins =
     (let oper = operand i in
      if opcode i = CTRL then
        (if shr oper 5 = CTRL_CLEAR_ISR then (s\<lparr>isr := 0, isr_count := 0\<rparr>, Inr (0, 0))
         else if shr oper 5 = CTRL_CLEAR_OSR then (s\<lparr>osr := 0, osr_count := 0\<rparr>, Inr (0, 0))
         else (s, Inr (0, 0)))
      else if opcode i \<in> {SET_PIN, SET_DIR} then apply_set s (opcode i) oper
      else if opcode i = SET_COUNT then
        (if oper AND 128 \<noteq> 0 then (s\<lparr>y_reg := oper AND 127\<rparr>, Inr (0, 0))
         else (s\<lparr>x_reg := oper AND 127\<rparr>, Inr (0, 0)))
      else if opcode i = IN_OP then no_flags (apply_in s oper pins)
      else if opcode i = OUT_OP then no_flags (apply_out s oper)
      else if opcode i = MOVE_OP then apply_move s oper
      else if opcode i = FIFO_OP then no_flags (apply_fifo s oper)
      else if opcode i = WAIT_OP then apply_wait s oper flgs pins
      else if opcode i = BRANCH_OP then
        (if shr oper 5 = BR_DEC_X_NONZERO \<and> x_reg s \<noteq> 0
         then (s\<lparr>x_reg := x_reg s - 1\<rparr>, Inr (0, 0))
         else if shr oper 5 = BR_DEC_Y_NONZERO \<and> y_reg s \<noteq> 0
         then (s\<lparr>y_reg := y_reg s - 1\<rparr>, Inr (0, 0))
         else (s, Inr (0, 0)))
      else if opcode i = FLAG_OP then
        (let index = shr oper 5 AND 3 in
         if shr oper 7 = 1 then (s, Inr (shl 1 index, 0)) else (s, Inr (0, shl 1 index)))
      else (s, Inl (ExecFault ILLEGAL_INSTRUCTION)))"

definition in_region :: "sm_config \<Rightarrow> int \<Rightarrow> bool" where
  "in_region c n \<longleftrightarrow> cfg_base c \<le> n \<and> n < cfg_base c + cfg_length c"

definition branch_taken :: "sm \<Rightarrow> int \<Rightarrow> int \<Rightarrow> int \<Rightarrow> fault_code + bool" where
  "branch_taken s condition flgs pins =
     (if condition = BR_ALWAYS then Inr True
      else if condition = BR_X_ZERO then Inr (x_reg s = 0)
      else if condition = BR_Y_ZERO then Inr (y_reg s = 0)
      else if condition = BR_DEC_X_NONZERO then Inr (x_reg s \<noteq> 0)
      else if condition = BR_DEC_Y_NONZERO then Inr (y_reg s \<noteq> 0)
      else if condition = BR_TEST_PIN_HIGH then
        (case test_pin (config s) of
           None \<Rightarrow> Inl PIN_AUTHORIZATION
         | Some p \<Rightarrow>
             if \<not> test_pin_enable (config s) then Inl PIN_AUTHORIZATION
             else if cfg_claim_mask (config s) AND shl 1 p = 0 then Inl PIN_AUTHORIZATION
             else Inr (pins AND shl 1 p \<noteq> 0))
      else if condition = BR_FIFO_FAILED then Inr (last_fifo_failed s)
      else if condition = BR_TEST_FLAG_SET then Inr (flgs AND shl 1 (test_flag (config s)) \<noteq> 0)
      else Inl ILLEGAL_INSTRUCTION)"

text \<open>\<open>_successor\<close>: the next program counter and whether the machine halts.\<close>

definition fallthrough :: "sm \<Rightarrow> fault_code + (int \<times> bool)" where
  "fallthrough s =
     (let next_pc = (if pc s = cfg_wrap_top (config s) then cfg_wrap_bottom (config s) else pc s + 1)
      in if \<not> in_region (config s) next_pc then Inl PROGRAM_BOUNDS else Inr (next_pc, False))"

definition successor :: "sm \<Rightarrow> instruction \<Rightarrow> int \<Rightarrow> int \<Rightarrow> fault_code + (int \<times> bool)" where
  "successor s i flgs pins =
     (let oper = operand i in
      if opcode i = CTRL \<and> shr oper 5 = CTRL_HALT then Inr (pc s, True)
      else if opcode i = BRANCH_OP then
        (let target = oper AND 31 in
         if \<not> in_region (config s) target then Inl PROGRAM_BOUNDS
         else
           (case branch_taken s (shr oper 5) flgs pins of
              Inl e \<Rightarrow> Inl e
            | Inr taken \<Rightarrow> if taken then Inr (target, False) else fallthrough s))
      else fallthrough s)"

section \<open>Clock edges\<close>

definition raise_fault :: "sm \<Rightarrow> fault_code \<Rightarrow> sm" where
  "raise_fault s code =
     (let s1 = (if fault s = FAULT_NONE then s\<lparr>fault := code, fault_pc := pc s\<rparr> else s) in
      s1\<lparr>run_state := CLOSING, output_oe := 0, stall := STALL_NONE,
         events := events s OR EVENT_FAULT\<rparr>)"

definition record_stall :: "sm \<Rightarrow> stall_kind \<Rightarrow> sm" where
  "record_stall s kind =
     (let s1 = s\<lparr>stall := kind\<rparr> in
      if kind = STALL_TX then
        s1\<lparr>events := events s OR EVENT_TX_STALL,
           tx_stall_count := saturating_increment (tx_stall_count s)\<rparr>
      else if kind = STALL_RX then
        s1\<lparr>events := events s OR EVENT_RX_STALL,
           rx_stall_count := saturating_increment (rx_stall_count s)\<rparr>
      else s1)"

definition retire :: "sm \<Rightarrow> instruction \<Rightarrow> int \<Rightarrow> bool \<Rightarrow> sm" where
  "retire candidate i next_pc halted =
     (let c1 = candidate\<lparr>delay_remaining := delay i\<rparr>;
          c2 = (if halted
                then c1\<lparr>run_state := HALTED, events := events c1 OR EVENT_HALT\<rparr>
                else c1\<lparr>pc := next_pc\<rparr>) in
      c2\<lparr>stall := STALL_NONE, retired_count := saturating_increment (retired_count c2)\<rparr>)"

text \<open>The part of \<open>_execution_tick\<close> after a successful decode: the candidate commits, stalls
  or faults. A fault takes the smaller of the execution's and the successor's code.\<close>

definition execute_decoded ::
  "sm \<Rightarrow> instruction \<Rightarrow> int \<Rightarrow> int \<Rightarrow> model_error + (sm \<times> int \<times> int \<times> bool)" where
  "execute_decoded s i flgs pins =
     (case apply_instruction s i flgs pins of
        (candidate, Inl (ExecFifo e)) \<Rightarrow> Inl (FIFOError e)
      | (candidate, Inl (ExecStall kind)) \<Rightarrow> Inr (record_stall s kind, 0, 0, False)
      | (candidate, Inl (ExecFault primary)) \<Rightarrow>
          (case successor candidate i flgs pins of
             Inl second \<Rightarrow> Inr (raise_fault s (min_fault primary second), 0, 0, False)
           | Inr _ \<Rightarrow> Inr (raise_fault s primary, 0, 0, False))
      | (candidate, Inr (set_mask, clear_mask)) \<Rightarrow>
          (case successor candidate i flgs pins of
             Inl code \<Rightarrow> Inr (raise_fault s (min_fault code code), 0, 0, False)
           | Inr (next_pc, halted) \<Rightarrow>
               Inr (retire candidate i next_pc halted, set_mask, clear_mask, True)))"

definition execution_tick ::
  "int list \<Rightarrow> int \<Rightarrow> sm \<Rightarrow> int \<Rightarrow> int \<Rightarrow> model_error + (sm \<times> int \<times> int \<times> bool)" where
  "execution_tick mem valid s flags_before pins_before =
     (if delay_remaining s \<noteq> 0 then
        Inr (s\<lparr>delay_remaining := delay_remaining s - 1, stall := STALL_NONE\<rparr>, 0, 0, False)
      else if \<not> in_region (config s) (pc s) then Inr (raise_fault s PROGRAM_BOUNDS, 0, 0, False)
      else if valid AND shl 1 (pc s) = 0 then Inr (raise_fault s INVALID_FETCH, 0, 0, False)
      else
        (case instruction_decode (mem ! nat (pc s)) of
           Inl _ \<Rightarrow> Inr (raise_fault s ILLEGAL_INSTRUCTION, 0, 0, False)
         | Inr i \<Rightarrow> execute_decoded s i flags_before pins_before))"

text \<open>The divider in front of the tick, for one state machine of a clock edge.\<close>

definition edge_sm ::
  "int list \<Rightarrow> int \<Rightarrow> sm \<Rightarrow> int \<Rightarrow> int \<Rightarrow> model_error + (sm \<times> int \<times> int \<times> bool)" where
  "edge_sm mem valid s flags_before pins_before =
     (if run_state s \<noteq> RUNNING then Inr (s, 0, 0, False)
      else
        (let s1 = s\<lparr>divider_remaining := divider_remaining s - 1\<rparr> in
         if divider_remaining s1 \<noteq> 0 then Inr (s1, 0, 0, False)
         else
           execution_tick mem valid
             (s1\<lparr>divider_remaining := cfg_divider (config s1),
                 tick_count := saturating_increment (tick_count s1)\<rparr>) flags_before pins_before))"

record edge_inputs =
  pause_mask :: int
  resume_mask :: int
  disable_mask :: int
  flag_set :: int
  flag_clear :: int
  tx_writes :: "(int \<times> int) list"
  rx_reads :: "int list"

record edge_result =
  committed :: "bool list"
  tx_write_accepted :: "(int \<times> bool) list"
  rx_read_values :: "(int \<times> int option) list"

definition no_inputs :: edge_inputs where
  "no_inputs = \<lparr>pause_mask = 0, resume_mask = 0, disable_mask = 0, flag_set = 0, flag_clear = 0,
     tx_writes = [], rx_reads = []\<rparr>"

definition update_sm :: "machine \<Rightarrow> nat \<Rightarrow> (sm \<Rightarrow> sm) \<Rightarrow> machine" where
  "update_sm m index f = m\<lparr>sms := (sms m)[index := f (sms m ! index)]\<rparr>"

definition command_checks ::
  "machine \<Rightarrow> edge_inputs \<Rightarrow> nat list \<Rightarrow> nat list \<Rightarrow> nat list \<Rightarrow> model_error + unit" where
  "command_checks m e pauses resumes disables =
     first_error
       ([raise_if (set pauses \<inter> set resumes \<noteq> {} \<or> set pauses \<inter> set disables \<noteq> {}
            \<or> set resumes \<inter> set disables \<noteq> {}) (ControlError ConflictingCommands),
         raise_if (\<not> (0 \<le> flag_set e \<and> flag_set e \<le> 15) \<or> \<not> (0 \<le> flag_clear e \<and> flag_clear e \<le> 15))
           (ControlError FlagMaskWidth),
         raise_if (list_ex (\<lambda>k. k \<notin> {0, 1}) (map fst (tx_writes e) @ rx_reads e))
           (ControlError FifoIndex),
         raise_if (\<not> distinct (rx_reads e)) (ControlError RxReadTwice)]
        @ map (\<lambda>(_, word). raise_if (\<not> (0 \<le> word \<and> word \<le> 4294967295)) (FIFOError FifoWord))
            (tx_writes e)
        @ map (\<lambda>index. raise_if (run_state (sms m ! index) \<noteq> RUNNING) (ControlError PauseState)) pauses
        @ map (\<lambda>index. raise_if (run_state (sms m ! index) \<noteq> PAUSED) (ControlError ResumeState)) resumes
        @ map (\<lambda>index. raise_if (run_state (sms m ! index) = CLOSING) (ControlError DisableClosing))
            disables)"

definition apply_commands :: "machine \<Rightarrow> nat list \<Rightarrow> nat list \<Rightarrow> nat list \<Rightarrow> machine" where
  "apply_commands m pauses resumes disables =
     (let m1 = fold (\<lambda>index m. update_sm m index
                (\<lambda>s. s\<lparr>run_state := DISABLED, output_oe := 0, stall := STALL_NONE\<rparr>)) disables m;
          m2 = fold (\<lambda>index m. update_sm m index
                (\<lambda>s. s\<lparr>run_state := PAUSED, stall := STALL_NONE\<rparr>)) pauses m1
      in fold (\<lambda>index m. update_sm m index (\<lambda>s. s\<lparr>run_state := RUNNING\<rparr>)) resumes m2)"

text \<open>The loop over the state machines; both see the flags and pins before the edge.\<close>

definition edge_loop ::
  "machine \<Rightarrow> int \<Rightarrow> int \<Rightarrow> model_error + (machine \<times> int \<times> int \<times> bool list)" where
  "edge_loop m flags_before pins_before =
     foldl_r
       (\<lambda>(m, set_mask, clear_mask, done) index.
          bind_r (edge_sm (imem m) (imem_valid m) (sms m ! index) flags_before pins_before)
            (\<lambda>(s, set1, clear1, did_commit).
               Inr (m\<lparr>sms := (sms m)[index := s]\<rparr>, set_mask OR set1, clear_mask OR clear1,
                    done @ [did_commit])))
       (m, 0, 0, []) [0, 1]"

definition write_tx_edge ::
  "bool list \<Rightarrow> machine \<times> (int \<times> bool) list \<Rightarrow> int \<times> int
     \<Rightarrow> model_error + (machine \<times> (int \<times> bool) list)" where
  "write_tx_edge had_space acc write1 =
     (case acc of (m, accepted) \<Rightarrow> case write1 of (index, word) \<Rightarrow>
      if had_space ! nat index then
        (case fifo_push (tx_fifo (sms m ! nat index)) word of
           Inl e \<Rightarrow> Inl (FIFOError e)
         | Inr items \<Rightarrow>
             Inr (update_sm m (nat index) (\<lambda>s. s\<lparr>tx_fifo := items\<rparr>), accepted @ [(index, True)]))
      else Inr (m, accepted @ [(index, False)]))"

definition read_rx_edge ::
  "bool list \<Rightarrow> machine \<times> (int \<times> int option) list \<Rightarrow> int
     \<Rightarrow> model_error + (machine \<times> (int \<times> int option) list)" where
  "read_rx_edge had_data acc index =
     (case acc of (m, values) \<Rightarrow>
      if had_data ! nat index then
        (case fifo_pop (rx_fifo (sms m ! nat index)) of
           Inl e \<Rightarrow> Inl (FIFOError e)
         | Inr (word, rest) \<Rightarrow>
             Inr (update_sm m (nat index) (\<lambda>s. s\<lparr>rx_fifo := rest\<rparr>), values @ [(index, Some word)]))
      else Inr (m, values @ [(index, None)]))"

definition step :: "machine \<Rightarrow> edge_inputs \<Rightarrow> model_error + (machine \<times> edge_result)" where
  "step m e =
     bind_r (validate_mask (pause_mask e)) (\<lambda>pauses.
     bind_r (validate_mask (resume_mask e)) (\<lambda>resumes.
     bind_r (validate_mask (disable_mask e)) (\<lambda>disables.
     bind_r (command_checks m e pauses resumes disables) (\<lambda>_.
       (let flags_before = machine_flags m;
            pins_before = pin_inputs m;
            tx_had_space = map (\<lambda>s. length (tx_fifo s) < FIFO_DEPTH) (sms m);
            rx_had_data = map (\<lambda>s. rx_fifo s \<noteq> []) (sms m) in
        bind_r (edge_loop (apply_commands m pauses resumes disables) flags_before pins_before)
          (\<lambda>(m1, set_mask, clear_mask, done).
        (let m2 = m1\<lparr>machine_flags :=
               ((flags_before AND NOT (flag_clear e OR clear_mask)) OR flag_set e) OR set_mask\<rparr> in
        bind_r (foldl_r (write_tx_edge tx_had_space) (m2, []) (tx_writes e)) (\<lambda>(m3, accepted).
        bind_r (foldl_r (read_rx_edge rx_had_data) (m3, []) (rx_reads e)) (\<lambda>(m4, values).
          Inr (m4\<lparr>pclk_edges := pclk_edges m4 + 1\<rparr>,
               \<lparr>committed = done, tx_write_accepted = accepted, rx_read_values = values\<rparr>))))))))))"

section \<open>Lifecycle and instruction memory\<close>

definition default_config :: sm_config where
  "default_config =
     \<lparr>cfg_base = 0, cfg_length = 1, cfg_entry = 0, cfg_wrap_bottom = 0, cfg_wrap_top = 0,
      cfg_divider = 1, autopull = False, autopush = False, tx_right = True, rx_right = True,
      tx_bits = 32, rx_bits = 32,
      cfg_in_window = \<lparr>win_base = 0, win_width = 0\<rparr>, cfg_out_window = \<lparr>win_base = 0, win_width = 0\<rparr>,
      cfg_set_window = \<lparr>win_base = 0, win_width = 0\<rparr>, cfg_claim_mask = 0, cfg_output_mask = 0,
      initial_value = 0, initial_oe = 0, initial_x = 0, initial_y = 0,
      test_pin_enable = False, test_pin = None, test_flag = 0\<rparr>"

definition machine_init :: "sm_config list option \<Rightarrow> model_error + machine" where
  "machine_init configs =
     (let cs = (case configs of None \<Rightarrow> [default_config, default_config] | Some cs \<Rightarrow> cs) in
      if length cs \<noteq> 2 then Inl (ControlError ConfigCount)
      else
        Inr \<lparr>sms = map (\<lambda>c. new_sm c 0 1) cs, imem = replicate 32 0, imem_valid = 0,
              published_allocations = [], published_references = Map.empty,
              machine_flags = 0, pin_inputs = 0, pclk_edges = 0\<rparr>)"

definition require_disabled :: "machine \<Rightarrow> model_error + unit" where
  "require_disabled m = raise_if (list_ex (\<lambda>s. run_state s \<noteq> DISABLED) (sms m)) (ControlError NotDisabled)"

definition publish :: "machine \<Rightarrow> allocation \<Rightarrow> model_error + machine" where
  "publish m al =
     bind_r (require_disabled m) (\<lambda>_.
       (let img = image al; key = alloc_id al in
        bind_r (map_error PioError
            (map_r (\<lambda>word. bind_r (instruction_decode word) instruction_encode) (rel_words img)))
          (\<lambda>staged.
        bind_r (raise_if (rel_base img + int (length staged) > INSTRUCTION_WORDS)
            (ControlError PublishedSize)) (\<lambda>_.
        (case map_of (published_allocations m) key of
           Some canonical \<Rightarrow>
             (if alloc_id canonical \<noteq> alloc_id al then Inl (ControlError ForeignIdentity)
              else
                (case published_references m key of
                   None \<Rightarrow> Inl ModelKeyError
                 | Some r \<Rightarrow>
                     Inr (m\<lparr>published_references := (published_references m)(key \<mapsto> r + 1)\<rparr>)))
         | None \<Rightarrow>
             (let rmask = region_mask (int (length staged)) (rel_base img) in
              if rel_base img < 0 then Inl NegativeShift
              else if imem_valid m AND rmask \<noteq> 0 then Inl (ControlError SlotsValid)
              else
                Inr (m\<lparr>imem := take (nat (rel_base img)) (imem m) @ staged
                             @ drop (nat (rel_base img) + length staged) (imem m),
                       imem_valid := imem_valid m OR rmask,
                       published_allocations := published_allocations m @ [(key, al)],
                       published_references := (published_references m)(key \<mapsto> 1)\<rparr>)))))))"

definition unpublish :: "machine \<Rightarrow> allocation \<Rightarrow> model_error + machine" where
  "unpublish m al =
     bind_r (require_disabled m) (\<lambda>_.
       (let key = alloc_id al in
        (case map_of (published_allocations m) key of
           None \<Rightarrow> Inl (ControlError UnknownPublished)
         | Some canonical \<Rightarrow>
             if alloc_id canonical \<noteq> alloc_id al then Inl (ControlError UnknownPublished)
             else
               (case published_references m key of
                  None \<Rightarrow> Inl ModelKeyError
                | Some r \<Rightarrow>
                    if r > 1 then
                      Inr (m\<lparr>published_references := (published_references m)(key \<mapsto> r - 1)\<rparr>)
                    else
                      Inr (m\<lparr>published_references := (published_references m)(key := None),
                             published_allocations :=
                               filter (\<lambda>e. fst e \<noteq> key) (published_allocations m),
                             imem_valid := imem_valid m AND
                               NOT (region_mask (int (length (rel_words (image canonical))))
                                      (rel_base (image canonical)))\<rparr>)))))"

definition invalidate_imem :: "machine \<Rightarrow> model_error + machine" where
  "invalidate_imem m =
     bind_r (require_disabled m) (\<lambda>_.
       Inr (m\<lparr>imem := replicate 32 0, imem_valid := 0, published_allocations := [],
              published_references := Map.empty\<rparr>))"

definition read_imem :: "machine \<Rightarrow> int \<Rightarrow> model_error + int" where
  "read_imem m index =
     (if \<not> (0 \<le> index \<and> index < INSTRUCTION_WORDS) then Inl (ControlError ImemIndex)
      else Inr (if imem_valid m AND shl 1 index \<noteq> 0 then imem m ! nat index else 0))"

definition write_tx :: "machine \<Rightarrow> int \<Rightarrow> int \<Rightarrow> model_error + machine" where
  "write_tx m sm_index word =
     (if sm_index \<notin> {0, 1} then Inl (ControlError SmIndex)
      else
        bind_r (map_error FIFOError (fifo_push (tx_fifo (sms m ! nat sm_index)) word)) (\<lambda>items.
          Inr (update_sm m (nat sm_index) (\<lambda>s. s\<lparr>tx_fifo := items\<rparr>))))"

definition read_rx :: "machine \<Rightarrow> int \<Rightarrow> model_error + (int \<times> machine)" where
  "read_rx m sm_index =
     (if sm_index \<notin> {0, 1} then Inl (ControlError SmIndex)
      else
        bind_r (map_error FIFOError (fifo_pop (rx_fifo (sms m ! nat sm_index)))) (\<lambda>(word, rest).
          Inr (word, update_sm m (nat sm_index) (\<lambda>s. s\<lparr>rx_fifo := rest\<rparr>))))"

definition start_checks :: "machine \<Rightarrow> nat \<Rightarrow> model_error + unit" where
  "start_checks m index =
     (let s = sms m ! index;
          region = region_mask (cfg_length (config s)) (cfg_base (config s)) in
      first_error
        [raise_if (run_state s \<noteq> DISABLED \<or> fault s \<noteq> FAULT_NONE) (ControlError StartNotClean),
         config_validate (config s),
         raise_if (rx_fifo s \<noteq> []) (ControlError StartRxData),
         raise_if (imem_valid m AND region \<noteq> region) (ControlError StartInvalidWord)])"

definition start_sm :: "sm \<Rightarrow> sm" where
  "start_sm s =
     (let c = config s in
      s\<lparr>pc := cfg_entry c, isr := 0, osr := 0, isr_count := 0, osr_count := 0,
        x_reg := initial_x c, y_reg := initial_y c, last_fifo_failed := False,
        stall := STALL_NONE, divider_remaining := cfg_divider c, delay_remaining := 0,
        tick_count := 0, tx_stall_count := 0, rx_stall_count := 0, retired_count := 0,
        output_value := initial_value c, output_oe := initial_oe c, run_state := RUNNING\<rparr>)"

definition start :: "machine \<Rightarrow> int \<Rightarrow> model_error + machine" where
  "start m sel =
     bind_r (validate_mask sel) (\<lambda>selected.
       if selected = [] then Inr m
       else
         bind_r (first_error (map (start_checks m) selected)) (\<lambda>_.
           if cfg_output_mask (config (sms m ! 0)) AND cfg_output_mask (config (sms m ! 1)) \<noteq> 0
           then Inl (ControlError OutputsOverlap)
           else Inr (fold (\<lambda>index m. update_sm m index start_sm) selected m)))"

definition sm_reset :: "machine \<Rightarrow> int \<Rightarrow> model_error + machine" where
  "sm_reset m sel =
     bind_r (validate_mask sel) (\<lambda>selected.
       bind_r (first_error (map (\<lambda>index.
           raise_if (run_state (sms m ! index) \<notin> {DISABLED, CLOSING}) (ControlError ResetState)) selected))
         (\<lambda>_. Inr (fold (\<lambda>index m. update_sm m index
            (\<lambda>s. new_sm (config s) (cfg_entry (config s)) (cfg_divider (config s)))) selected m)))"

end
