(* ===== verification/Pio_Machine.thy ===== *)
theory Pio_Machine
  imports Pio_Model
begin

text \<open>
  Correctness of the cycle model of \<^theory_text>\<open>Pio_Model\<close>: the invariant of one state machine and of the
  two-machine system, kept by every public operation; what a tick may change; which faults a
  validated, loaded and published program can raise.
\<close>

unbundle bit_operations_syntax

section \<open>The registers of one state machine\<close>

definition fifo_ok :: "int list \<Rightarrow> bool" where
  "fifo_ok items \<longleftrightarrow> length items \<le> 8 \<and> (\<forall>w \<in> set items. 0 \<le> w \<and> w \<le> 4294967295)"

text \<open>Registers at their hardware widths, driven pins inside the authorised outputs.\<close>

definition sm_regs :: "sm \<Rightarrow> bool" where
  "sm_regs s \<longleftrightarrow>
     fifo_ok (tx_fifo s) \<and> fifo_ok (rx_fifo s) \<and>
     0 \<le> isr s \<and> isr s \<le> 4294967295 \<and> 0 \<le> osr s \<and> osr s \<le> 4294967295 \<and>
     0 \<le> isr_count s \<and> isr_count s \<le> 32 \<and> 0 \<le> osr_count s \<and> osr_count s \<le> 32 \<and>
     0 \<le> x_reg s \<and> x_reg s \<le> 65535 \<and> 0 \<le> y_reg s \<and> y_reg s \<le> 65535 \<and>
     bits_of (output_value s) \<subseteq> bits_of (cfg_output_mask (config s)) \<and>
     bits_of (output_oe s) \<subseteq> bits_of (cfg_output_mask (config s))"

text \<open>The fields an instruction leaves to the tick that executes it.\<close>

definition same_control :: "sm \<Rightarrow> sm \<Rightarrow> bool" where
  "same_control s s' \<longleftrightarrow>
     config s' = config s \<and> run_state s' = run_state s \<and> pc s' = pc s \<and> fault s' = fault s \<and>
     fault_pc s' = fault_pc s \<and> divider_remaining s' = divider_remaining s \<and>
     delay_remaining s' = delay_remaining s \<and> tick_count s' = tick_count s"

lemma config_validate_facts:
  assumes "config_validate c = Inr u"
  shows "0 \<le> cfg_base c" "1 \<le> cfg_length c" "cfg_base c + cfg_length c \<le> 32"
    and "in_region c (cfg_entry c)" "in_region c (cfg_wrap_bottom c)" "in_region c (cfg_wrap_top c)"
    and "1 \<le> cfg_divider c"
    and "1 \<le> tx_bits c" "tx_bits c \<le> 32" "1 \<le> rx_bits c" "rx_bits c \<le> 32"
    and "window_validate (cfg_in_window c) IN_WINDOW 32 = Inr ()"
    and "window_validate (cfg_out_window c) OUT_WINDOW 32 = Inr ()"
    and "window_validate (cfg_set_window c) SET_WINDOW 8 = Inr ()"
    and "bits_of (initial_value c) \<subseteq> bits_of (cfg_output_mask c)"
    and "bits_of (initial_oe c) \<subseteq> bits_of (cfg_output_mask c)"
    and "0 \<le> initial_x c" "initial_x c \<le> 65535" "0 \<le> initial_y c" "initial_y c \<le> 65535"
  using assms
  by (auto simp: config_validate_def Let_def result_simps in_region_def and_not_zero_iff)

lemma low_mask_bits:
  assumes "0 \<le> w" "w \<le> 32"
  shows "bits_of (low_mask w) = {..<nat w}" "0 \<le> low_mask w" "low_mask w \<le> 4294967295"
proof -
  have eq: "low_mask w = 2 ^ nat w - 1"
    by (cases "w = 32") (simp_all add: low_mask_def)
  then show "bits_of (low_mask w) = {..<nat w}" by (simp add: bits_of_mask)
  have "(2::int) ^ nat w \<le> 2 ^ 32" using assms by (intro power_increasing) auto
  then show "0 \<le> low_mask w" "low_mask w \<le> 4294967295" by (simp_all add: eq)
qed

lemma and_low_mask:
  assumes "0 \<le> w" "w \<le> 32"
  shows "0 \<le> v AND low_mask w" "v AND low_mask w \<le> 4294967295"
    and "bits_of (v AND low_mask w) \<subseteq> {..<nat w}"
  using low_mask_bits [OF assms] AND_upper2 [of "low_mask w" v]
  by (auto simp: bits_of_ops intro: order_trans)

lemma and_const_bounds:
  "0 \<le> v AND (4294967295::int)" "v AND (4294967295::int) \<le> 4294967295"
  "0 \<le> v AND (65535::int)" "v AND (65535::int) \<le> 65535"
  "0 \<le> v AND (127::int)" "v AND (127::int) \<le> 127"
  by (auto simp: bit_arith)

lemma window_mask_bits:
  assumes "window_validate w nm k = Inr u"
  shows "bits_of (window_mask w) = {nat (win_base w)..<nat (win_base w) + nat (win_width w)}"
    and "0 \<le> win_base w" "0 \<le> win_width w" "win_width w \<le> 32"
proof -
  show "bits_of (window_mask w) = {nat (win_base w)..<nat (win_base w) + nat (win_width w)}"
    by (auto simp: window_mask_def bits_simps)
  show "0 \<le> win_base w" "0 \<le> win_width w" "win_width w \<le> 32"
    using assms by (auto simp: window_validate_def result_simps)
qed

lemma bits_of_shifted:
  assumes "bits_of x \<subseteq> {..<n}"
  shows "bits_of (push_bit b x) \<subseteq> {b..<b + n}"
  using assms by (auto simp: bits_of_push_bit)

lemma count_of_bounds: "1 \<le> count_of oper" "count_of oper \<le> 32"
  by (auto simp: count_of_def)

text \<open>Replacing a run of pins inside an authorised window stays inside the authorised outputs.\<close>

lemma replace_pins:
  assumes "bits_of old \<subseteq> M" "bits_of chunk \<subseteq> {..<n}" "{b..<b + n} \<subseteq> M"
  shows "bits_of ((old AND NOT um) OR push_bit b chunk) \<subseteq> M"
  using assms(1) order_trans [OF bits_of_shifted [OF assms(2)] assms(3)] by (auto simp: bits_of_ops)

lemma require_output_ok:
  assumes "require_output s w = Inr u" "window_validate w nm k = Inr v"
  shows "{nat (win_base w)..<nat (win_base w) + nat (win_width w)}
    \<subseteq> bits_of (cfg_output_mask (config s))"
  using assms(1) window_mask_bits(1) [OF assms(2)]
  by (auto simp: require_output_def result_simps and_not_zero_iff)

lemma require_output_fault:
  "require_output s w = Inl e \<Longrightarrow> e = ExecFault PIN_AUTHORIZATION"
  by (simp add: require_output_def result_simps)

section \<open>One instruction keeps the registers in range\<close>

definition exec_ok :: "sm \<Rightarrow> 'a exec \<Rightarrow> bool" where
  "exec_ok s r \<longleftrightarrow> sm_regs (fst r) \<and> same_control s (fst r) \<and> (\<forall>e. snd r \<noteq> Inl (ExecFifo e))"

lemma exec_okI:
  "sm_regs s' \<Longrightarrow> same_control s s' \<Longrightarrow> (\<And>e. r \<noteq> Inl (ExecFifo e)) \<Longrightarrow> exec_ok s (s', r)"
  by (simp add: exec_ok_def)

lemma exec_ok_no_flags: "exec_ok s r \<Longrightarrow> exec_ok s (no_flags r)"
  by (auto simp: exec_ok_def no_flags_def split: sum.splits prod.splits)

lemma fifo_pop_ok:
  assumes "fifo_ok items" "fifo_pop items = Inr (w, rest)"
  shows "fifo_ok rest" "0 \<le> w" "w \<le> 4294967295"
  using assms by (auto simp: fifo_ok_def fifo_pop_def split: list.splits)

lemma fifo_push_ok:
  assumes "fifo_ok items" "fifo_push items w = Inr items'"
  shows "fifo_ok items'"
  using assms by (auto simp: fifo_ok_def fifo_push_def split: if_splits)

lemma fifo_push_space:
  assumes "length items < 8" "0 \<le> w" "w \<le> 4294967295"
  shows "fifo_push items w = Inr (items @ [w])"
  using assms by (simp add: fifo_push_def)

lemma normalized_isr_bounds:
  assumes "normalized_isr s = Inr w" "sm_regs s"
  shows "0 \<le> w" "w \<le> 4294967295"
  using assms and_low_mask [of "isr_count s"]
  by (auto simp: normalized_isr_def sm_regs_def split: if_splits)

lemma normalized_isr_fault:
  "normalized_isr s = Inl e \<longleftrightarrow> isr_count s = 0 \<and> e = ExecFault SHIFT_BOUNDS"
  by (auto simp: normalized_isr_def)

lemma apply_fifo_ok:
  assumes r: "sm_regs s" and c: "config_validate (config s) = Inr u"
  shows "exec_ok s (apply_fifo s oper)"
proof -
  note f = config_validate_facts [OF c]
  have pull: "sm_regs (s\<lparr>tx_fifo := rest, osr := w AND low_mask (tx_bits (config s)),
      osr_count := tx_bits (config s), last_fifo_failed := False\<rparr>)"
    if "fifo_pop (tx_fifo s) = Inr (w, rest)" for w rest
    using r f and_low_mask [of "tx_bits (config s)" w] fifo_pop_ok(1) [OF _ that]
    by (simp add: sm_regs_def)
  have push: "exec_ok s (case fifo_push (rx_fifo s) w of Inl e \<Rightarrow> (s, Inl (ExecFifo e))
      | Inr items \<Rightarrow> (s\<lparr>rx_fifo := items, isr := 0, isr_count := 0, last_fifo_failed := False\<rparr>, Inr ()))"
    if "normalized_isr s = Inr w" "\<not> length (rx_fifo s) \<ge> FIFO_DEPTH" for w
  proof -
    have "fifo_push (rx_fifo s) w = Inr (rx_fifo s @ [w])"
      using that normalized_isr_bounds [OF that(1) r] by (intro fifo_push_space) auto
    with r fifo_push_ok [OF _ this] show ?thesis
      by (simp add: exec_ok_def sm_regs_def same_control_def)
  qed
  have failed: "sm_regs (fifo_failed s)" "same_control s (fifo_failed s)" "same_control s s"
    using r by (simp_all add: fifo_failed_def sm_regs_def same_control_def)
  show ?thesis
    unfolding apply_fifo_def Let_def
    using r pull push failed
    by (auto simp: normalized_isr_fault same_control_def intro!: exec_okI split: sum.split)
qed

lemma out_refill_ok:
  assumes r: "sm_regs s" and c: "config_validate (config s) = Inr u"
  shows "exec_ok s (out_refill s count)"
    and "snd (out_refill s count) = Inr () \<Longrightarrow> count \<le> osr_count (fst (out_refill s count))"
proof -
  note f = config_validate_facts [OF c]
  have pull: "sm_regs (s\<lparr>tx_fifo := rest, osr := w AND low_mask (tx_bits (config s)),
      osr_count := tx_bits (config s), last_fifo_failed := False\<rparr>)"
    if "fifo_pop (tx_fifo s) = Inr (w, rest)" for w rest
    using r f and_low_mask [of "tx_bits (config s)" w] fifo_pop_ok(1) [OF _ that]
    by (simp add: sm_regs_def)
  then show "exec_ok s (out_refill s count)"
    unfolding out_refill_def using r
    by (auto simp: same_control_def intro!: exec_okI split: sum.split)
  show "snd (out_refill s count) = Inr () \<Longrightarrow> count \<le> osr_count (fst (out_refill s count))"
    by (auto simp: out_refill_def split: if_splits sum.splits)
qed

lemma out_shift_ok:
  assumes r: "sm_regs s" and n: "1 \<le> count" "count \<le> osr_count s" "count \<le> 32"
  shows "sm_regs (fst (out_shift s count))" "same_control s (fst (out_shift s count))"
    and "bits_of (snd (out_shift s count)) \<subseteq> {..<nat count}"
proof -
  have le: "0 \<le> osr_count s - count" "osr_count s - count \<le> 32"
    using r n by (auto simp: sm_regs_def)
  show "sm_regs (fst (out_shift s count))"
    using r n le and_low_mask(1,2) [OF le]
    by (simp add: out_shift_def sm_regs_def Let_def)
  show "same_control s (fst (out_shift s count))"
    by (simp add: out_shift_def same_control_def Let_def)
  show "bits_of (snd (out_shift s count)) \<subseteq> {..<nat count}"
    using and_low_mask(3) [of count] n by (simp add: out_shift_def Let_def)
qed

lemma out_destination_ok:
  assumes r: "sm_regs s" and c: "config_validate (config s) = Inr u" and n: "1 \<le> count"
    and chunk: "bits_of chunk \<subseteq> {..<nat count}"
  shows "exec_ok s (out_destination s destination count chunk)"
proof -
  note f = config_validate_facts(13) [OF c]
  let ?w = "cfg_out_window (config s)" and ?M = "bits_of (cfg_output_mask (config s))"
  have pins: "bits_of ((old AND NOT um) OR shl chunk (win_base ?w)) \<subseteq> ?M"
    if "require_output s ?w = Inr ()" "\<not> count > win_width ?w" "bits_of old \<subseteq> ?M" for old um
  proof (rule replace_pins [OF that(3) chunk])
    show "{nat (win_base ?w)..<nat (win_base ?w) + nat count} \<subseteq> ?M"
      using require_output_ok [OF that(1) f] that(2) n by force
  qed
  show ?thesis
  proof (cases "destination \<in> {OUT_PINS, OUT_DIRECTIONS}")
    case True
    show ?thesis
    proof (cases "require_output s ?w")
      case (Inl e)
      with True r require_output_fault [OF Inl] show ?thesis
        by (simp add: out_destination_def Let_def exec_ok_def same_control_def)
    next
      case (Inr v)
      with True r pins show ?thesis
        by (simp add: out_destination_def Let_def exec_ok_def same_control_def sm_regs_def)
    qed
  next
    case False
    with r show ?thesis
      by (simp add: out_destination_def Let_def exec_ok_def same_control_def sm_regs_def
          and_const_bounds)
  qed
qed

lemma same_control_trans: "same_control s t \<Longrightarrow> same_control t v \<Longrightarrow> same_control s v"
  by (simp add: same_control_def)

lemma apply_out_ok:
  assumes r: "sm_regs s" and c: "config_validate (config s) = Inr u"
  shows "exec_ok s (apply_out s oper)"
proof -
  let ?n = "count_of oper"
  obtain s1 e1 where rf: "out_refill s ?n = (s1, e1)" by (cases "out_refill s ?n")
  note o = out_refill_ok [OF r c, of ?n, unfolded rf]
  show ?thesis
  proof (cases e1)
    case (Inl e)
    with o rf show ?thesis by (auto simp: apply_out_def exec_ok_def)
  next
    case (Inr v)
    obtain s2 chunk where sh: "out_shift s1 ?n = (s2, chunk)" by (cases "out_shift s1 ?n")
    have s1: "sm_regs s1" "same_control s s1" "?n \<le> osr_count s1"
      using o Inr by (simp_all add: exec_ok_def)
    note p = out_shift_ok [OF s1(1) count_of_bounds(1) s1(3) count_of_bounds(2), unfolded sh]
    have "config_validate (config s2) = Inr ()"
      using s1(2) p(2) c by (simp add: same_control_def)
    then have "exec_ok s2 (out_destination s2 (shr oper 5) ?n chunk)"
      using p count_of_bounds(1) by (intro out_destination_ok) simp_all
    then show ?thesis
      using rf sh Inr s1(2) p(2) same_control_trans by (auto simp: apply_out_def exec_ok_def)
  qed
qed

lemma in_value_fault: "in_value s source count pins = Inl e \<Longrightarrow> e = ExecFault PIN_AUTHORIZATION"
  by (auto simp: in_value_def Let_def split: if_splits)

lemma apply_in_ok:
  assumes r: "sm_regs s" and c: "config_validate (config s) = Inr u"
  shows "exec_ok s (apply_in s oper pins)"
proof -
  note f = config_validate_facts [OF c]
  let ?n = "count_of oper"
  let ?m = "isr_count s + ?n"
  have n: "1 \<le> ?n" by (rule count_of_bounds)
  show ?thesis
  proof (cases "?m > (if autopush (config s) then rx_bits (config s) else 32) \<or>
      autopush (config s) \<and> ?m = rx_bits (config s) \<and> length (rx_fifo s) \<ge> FIFO_DEPTH")
    case True
    with r show ?thesis by (auto simp: apply_in_def Let_def exec_ok_def same_control_def)
  next
    case False
    then have m: "?m \<le> 32" using f by (auto split: if_splits)
    show ?thesis
    proof (cases "in_value s (shr oper 5) ?n pins")
      case (Inl e)
      with r False in_value_fault [OF Inl] show ?thesis
        by (auto simp: apply_in_def Let_def exec_ok_def same_control_def)
    next
      case (Inr v)
      let ?v = "if rx_right (config s) then (shr (isr s) ?n OR shl v (32 - ?n)) AND 4294967295
        else (shl (isr s) ?n OR v) AND 4294967295"
      let ?s1 = "s\<lparr>isr := ?v, isr_count := ?m\<rparr>"
      have s1: "sm_regs ?s1"
        using r m n and_const_bounds(1,2) by (simp add: sm_regs_def)
      have eq: "apply_in s oper pins =
          (if autopush (config s) \<and> ?m = rx_bits (config s) then
             (case normalized_isr ?s1 of Inl e \<Rightarrow> (?s1, Inl e)
              | Inr word \<Rightarrow> (case fifo_push (rx_fifo ?s1) word of Inl e \<Rightarrow> (?s1, Inl (ExecFifo e))
                  | Inr items \<Rightarrow> (?s1\<lparr>rx_fifo := items, isr := 0, isr_count := 0,
                      last_fifo_failed := False\<rparr>, Inr ())))
           else (?s1, Inr ()))"
        unfolding apply_in_def Let_def using False
        by (simp only: de_Morgan_disj if_False Inr sum.case)
      show ?thesis
      proof (cases "autopush (config s) \<and> ?m = rx_bits (config s)")
        case auto: True
        have "isr_count ?s1 \<noteq> 0" using n r by (simp add: sm_regs_def)
        then obtain w where w: "normalized_isr ?s1 = Inr w"
          by (cases "normalized_isr ?s1") (auto simp: normalized_isr_fault)
        have push: "fifo_push (rx_fifo ?s1) w = Inr (rx_fifo ?s1 @ [w])"
          using False auto normalized_isr_bounds [OF w s1] by (intro fifo_push_space) auto
        have ok: "fifo_ok (rx_fifo ?s1)" using s1 by (simp only: sm_regs_def)
        show ?thesis
          unfolding eq using auto w push s1 fifo_push_ok [OF ok push]
          by (simp add: exec_ok_def same_control_def sm_regs_def)
      next
        case manual: False
        then show ?thesis
          unfolding eq using s1 by (auto simp: exec_ok_def same_control_def)
      qed
    qed
  qed
qed

lemma apply_set_ok:
  assumes r: "sm_regs s" and c: "config_validate (config s) = Inr u"
  shows "exec_ok s (apply_set s opc oper)"
proof -
  let ?w = "cfg_set_window (config s)" and ?M = "bits_of (cfg_output_mask (config s))"
  note f = config_validate_facts(14) [OF c]
  let ?v = "(oper AND 255) AND (shl 1 (win_width ?w) - 1)"
  have v: "bits_of ?v \<subseteq> {..<nat (win_width ?w)}"
    by (auto simp: bits_of_ops bits_of_mask)
  show ?thesis
  proof (cases "require_output s ?w")
    case (Inl e)
    with r require_output_fault [OF Inl] show ?thesis
      by (simp add: apply_set_def Let_def exec_ok_def same_control_def)
  next
    case (Inr u)
    have pins: "bits_of ((old AND NOT um) OR shl ?v (win_base ?w)) \<subseteq> ?M"
      if "bits_of old \<subseteq> ?M" for old um
      by (rule replace_pins [OF that v require_output_ok [OF Inr f]])
    show ?thesis
      using Inr r pins [of "output_value s"] pins [of "output_oe s"]
      by (auto simp: apply_set_def Let_def exec_ok_def same_control_def sm_regs_def)
  qed
qed

text \<open>Executing any valid instruction keeps the registers in range, leaves the control fields
  alone and never trips over a FIFO.\<close>

lemma apply_instruction_ok:
  assumes r: "sm_regs s" and c: "config_validate (config s) = Inr u"
  shows "exec_ok s (apply_instruction s i flgs pins)"
proof -
  have move: "exec_ok s (apply_move s oper)" for oper
    using r and_const_bounds(1-4)
    by (auto simp: apply_move_def Let_def exec_ok_def same_control_def sm_regs_def)
  have wait: "exec_ok s (apply_wait s oper flgs pins)" for oper
    using r by (auto simp: apply_wait_def Let_def exec_ok_def same_control_def)
  have rest: "exec_ok s (s, Inr x)" "exec_ok s (s, Inl (ExecFault ILLEGAL_INSTRUCTION))"
    "exec_ok s (s\<lparr>isr := 0, isr_count := 0\<rparr>, Inr x)" "exec_ok s (s\<lparr>osr := 0, osr_count := 0\<rparr>, Inr x)"
    "exec_ok s (s\<lparr>y_reg := v AND 127\<rparr>, Inr x)" "exec_ok s (s\<lparr>x_reg := v AND 127\<rparr>, Inr x)"
    "x_reg s \<noteq> 0 \<Longrightarrow> exec_ok s (s\<lparr>x_reg := x_reg s - 1\<rparr>, Inr x)"
    "y_reg s \<noteq> 0 \<Longrightarrow> exec_ok s (s\<lparr>y_reg := y_reg s - 1\<rparr>, Inr x)" for v x
    using r and_const_bounds(5,6) [of v] by (auto simp: exec_ok_def same_control_def sm_regs_def)
  show ?thesis
    unfolding apply_instruction_def Let_def
    by (simp add: apply_set_ok [OF r c] exec_ok_no_flags apply_in_ok [OF r c] apply_out_ok [OF r c]
        apply_fifo_ok [OF r c] move wait rest del: push_bit_of_1)
qed

section \<open>The outcome of a tick\<close>

lemma out_fault_codes:
  assumes "apply_out s oper = (c, Inl (ExecFault code))"
  shows "code \<in> {SHIFT_BOUNDS, PIN_AUTHORIZATION}"
  using assms
  by (auto simp: apply_out_def Let_def out_refill_def out_destination_def require_output_def raise_if_def
      split: if_splits sum.splits prod.splits)

lemma in_fault_codes:
  assumes "apply_in s oper pins = (c, Inl (ExecFault code))"
  shows "code \<in> {SHIFT_BOUNDS, PIN_AUTHORIZATION}"
proof -
  have "normalized_isr s' = Inl e \<Longrightarrow> e = ExecFault SHIFT_BOUNDS" for s' e
    by (simp add: normalized_isr_fault)
  with assms show ?thesis
    unfolding apply_in_def Let_def
    by (fastforce dest: in_value_fault split: if_splits sum.splits)
qed

lemma apply_fault_codes:
  assumes "apply_instruction s i flgs pins = (c, Inl (ExecFault code))"
  shows "code \<in> {ILLEGAL_INSTRUCTION, SHIFT_BOUNDS, PIN_AUTHORIZATION}"
proof -
  have nf: "no_flags r = (c, Inl (ExecFault code)) \<longleftrightarrow> r = (c, Inl (ExecFault code))" for r
    by (auto simp: no_flags_def split: sum.splits prod.splits)
  have "apply_fifo s oper = (c, Inl (ExecFault code)) \<Longrightarrow> code = SHIFT_BOUNDS" for oper
    by (auto simp: apply_fifo_def Let_def normalized_isr_fault split: if_splits sum.splits)
  moreover have "apply_set s opc oper = (c, Inl (ExecFault code)) \<Longrightarrow> code = PIN_AUTHORIZATION" for opc oper
    by (auto simp: apply_set_def Let_def require_output_def raise_if_def split: if_splits sum.splits)
  moreover have "apply_wait s oper flgs pins = (c, Inl (ExecFault code)) \<Longrightarrow> code = PIN_AUTHORIZATION" for oper
    by (auto simp: apply_wait_def Let_def split: if_splits)
  moreover have "apply_move s oper \<noteq> (c, Inl (ExecFault code))" for oper
    by (auto simp: apply_move_def Let_def)
  ultimately show ?thesis
    using assms out_fault_codes in_fault_codes unfolding apply_instruction_def Let_def
    by (fastforce simp: nf split: if_splits)
qed

lemma successor_fault_codes:
  assumes "successor s i flgs pins = Inl code"
  shows "code \<in> {ILLEGAL_INSTRUCTION, PROGRAM_BOUNDS, PIN_AUTHORIZATION}"
proof -
  have "branch_taken s cond flgs pins = Inl code \<Longrightarrow> code \<in> {ILLEGAL_INSTRUCTION, PIN_AUTHORIZATION}" for cond
    by (auto simp: branch_taken_def split: if_splits option.splits)
  moreover have "fallthrough s = Inl code \<Longrightarrow> code = PROGRAM_BOUNDS"
    by (auto simp: fallthrough_def Let_def split: if_splits)
  ultimately show ?thesis
    using assms by (fastforce simp: successor_def Let_def split: if_splits sum.splits)
qed

lemma successor_in_region:
  assumes "successor s i flgs pins = Inr (n, h)"
  shows "if h then n = pc s else in_region (config s) n"
  using assms by (auto simp: successor_def fallthrough_def Let_def split: if_splits sum.splits)

text \<open>Three ways a decoded instruction ends its tick, given that no FIFO error can occur.\<close>

lemma execute_decoded_cases:
  assumes "exec_ok s (apply_instruction s i flgs pins)"
  obtains (commit) c st cl n h where "apply_instruction s i flgs pins = (c, Inr (st, cl))"
      "successor c i flgs pins = Inr (n, h)"
      "execute_decoded s i flgs pins = Inr (retire c i n h, st, cl, True)"
  | (stalled) c k where "apply_instruction s i flgs pins = (c, Inl (ExecStall k))"
      "execute_decoded s i flgs pins = Inr (record_stall s k, 0, 0, False)"
  | (faulted) c code where "code \<noteq> FAULT_NONE"
      "apply_instruction s i flgs pins = (c, Inl (ExecFault code)) \<or>
       (\<exists>r. apply_instruction s i flgs pins = (c, r)) \<and> successor c i flgs pins = Inl code"
      "execute_decoded s i flgs pins = Inr (raise_fault s code, 0, 0, False)"
proof (cases "apply_instruction s i flgs pins")
  case (Pair c r)
  note p = Pair
  show thesis
  proof (cases r)
    case (Inr fl)
    obtain st cl where fl: "fl = (st, cl)" by (cases fl)
    show thesis
    proof (cases "successor c i flgs pins")
      case (Inl code)
      have "code \<noteq> FAULT_NONE" using successor_fault_codes [OF Inl] by auto
      then show thesis
        by (rule faulted) (use p \<open>r = Inr fl\<close> fl Inl in \<open>auto simp: execute_decoded_def min_fault_def\<close>)
    next
      case (Inr nh)
      obtain n h where nh: "nh = (n, h)" by (cases nh)
      show thesis
        by (rule commit [of c st cl n h])
          (use p \<open>r = Inr fl\<close> fl Inr nh in \<open>simp_all add: execute_decoded_def\<close>)
    qed
  next
    case (Inl x)
    show thesis
    proof (cases x)
      case (ExecStall k)
      show thesis by (rule stalled [of c k]) (use p Inl ExecStall in \<open>simp_all add: execute_decoded_def\<close>)
    next
      case (ExecFifo e)
      with assms p Inl show thesis by (simp add: exec_ok_def)
    next
      case (ExecFault primary)
      have prim: "primary \<noteq> FAULT_NONE"
        using apply_fault_codes [of s i flgs pins c primary] p Inl ExecFault by auto
      show thesis
      proof (cases "successor c i flgs pins")
        case (Inr nh)
        show thesis
          by (rule faulted [OF prim, of c]) (use p Inl ExecFault Inr in \<open>simp_all add: execute_decoded_def\<close>)
      next
        case second: (Inl code)
        have "code \<noteq> FAULT_NONE" using successor_fault_codes [OF second] by auto
        with prim show thesis
          by (intro faulted [of "min_fault primary code" c])
            (use p Inl ExecFault second in \<open>auto simp: execute_decoded_def min_fault_def\<close>)
      qed
    qed
  qed
qed

section \<open>The invariant of a state machine\<close>

definition sm_inv :: "sm \<Rightarrow> bool" where
  "sm_inv s \<longleftrightarrow>
     sm_regs s \<and> 0 \<le> delay_remaining s \<and> delay_remaining s \<le> 15 \<and>
     (run_state s \<noteq> DISABLED \<longrightarrow>
        config_validate (config s) = Inr () \<and> in_region (config s) (pc s) \<and>
        1 \<le> divider_remaining s \<and> divider_remaining s \<le> cfg_divider (config s)) \<and>
     (fault s \<noteq> FAULT_NONE \<longleftrightarrow> run_state s = CLOSING) \<and>
     (run_state s \<in> {DISABLED, CLOSING} \<longrightarrow> output_oe s = 0)"

lemma sm_inv_new: "sm_inv (new_sm c pc0 div0)"
  by (simp add: sm_inv_def sm_regs_def new_sm_def fifo_ok_def bits_simps)

lemma sm_inv_start:
  assumes "sm_inv s" "config_validate (config s) = Inr u" "fault s = FAULT_NONE"
  shows "sm_inv (start_sm s)"
  using assms config_validate_facts [OF assms(2)]
  by (simp add: sm_inv_def sm_regs_def start_sm_def Let_def)

lemma sm_inv_raise_fault:
  assumes "sm_inv s" "run_state s \<noteq> DISABLED" "code \<noteq> FAULT_NONE"
  shows "sm_inv (raise_fault s code)"
  using assms by (auto simp: sm_inv_def sm_regs_def raise_fault_def Let_def bits_simps)

lemma sm_inv_record_stall:
  assumes "sm_inv s"
  shows "sm_inv (record_stall s k)"
  using assms by (auto simp: sm_inv_def sm_regs_def record_stall_def Let_def)

lemma sm_inv_retire:
  assumes "sm_inv s" "run_state s = RUNNING" "exec_ok s (c, r)" "instruction_validate i = Inr u"
    and "if h then n = pc c else in_region (config c) n"
  shows "sm_inv (retire c i n h)"
  using assms instruction_validate_ranges(3,4) [OF assms(4)]
  by (auto simp: sm_inv_def sm_regs_def retire_def Let_def exec_ok_def same_control_def)

lemma apply_flag_masks:
  assumes "apply_instruction s i flgs pins = (c, Inr (st, cl))" "opcode i \<noteq> FLAG_OP"
  shows "st = 0 \<and> cl = 0"
proof -
  have nf: "no_flags r = (c, Inr (st, cl)) \<Longrightarrow> st = 0 \<and> cl = 0" for r
    by (auto simp: no_flags_def split: sum.splits prod.splits)
  have "apply_set s opc oper = (c, Inr (st, cl)) \<Longrightarrow> st = 0 \<and> cl = 0" for opc oper
    by (auto simp: apply_set_def Let_def split: if_splits sum.splits)
  moreover have "apply_wait s oper flgs pins = (c, Inr (st, cl)) \<Longrightarrow> st = 0 \<and> cl = 0" for oper
    by (auto simp: apply_wait_def Let_def split: if_splits)
  moreover have "apply_move s oper = (c, Inr (st, cl)) \<Longrightarrow> st = 0 \<and> cl = 0" for oper
    by (auto simp: apply_move_def Let_def split: if_splits)
  ultimately show ?thesis
    using assms unfolding apply_instruction_def Let_def
    by (auto split: if_split_asm dest!: nf)
qed

lemma flag_bit: "bits_of (shl 1 (v AND 3)) \<subseteq> {..<4}"
proof -
  have "nat (v mod 4) < 4" by simp
  then show ?thesis by (simp only: bit_arith(2) push_bit_of_1 bits_of_exp) simp
qed

lemma apply_flag_bits:
  assumes "apply_instruction s i flgs pins = (c, Inr (st, cl))"
  shows "bits_of st \<subseteq> {..<4}" "bits_of cl \<subseteq> {..<4}"
proof -
  have "bits_of st \<subseteq> {..<4} \<and> bits_of cl \<subseteq> {..<4}"
  proof (cases "opcode i = FLAG_OP")
    case False
    with apply_flag_masks [OF assms] show ?thesis by (simp add: bits_of_ops)
  next
    case True
    with assms flag_bit [of "shr (operand i) 5"] show ?thesis
      unfolding apply_instruction_def Let_def
      by (auto simp: bits_of_ops(4) simp del: push_bit_of_1 split: if_split_asm)
  qed
  then show "bits_of st \<subseteq> {..<4}" "bits_of cl \<subseteq> {..<4}" by simp_all
qed

text \<open>A tick only takes from the TX FIFO and only adds to the RX FIFO.\<close>

definition fifo_flow :: "sm \<Rightarrow> sm \<Rightarrow> bool" where
  "fifo_flow s s' \<longleftrightarrow>
     (\<exists>k. tx_fifo s' = drop k (tx_fifo s)) \<and> (\<exists>ws. rx_fifo s' = rx_fifo s @ ws)"

lemma fifo_flow_same: "tx_fifo s' = tx_fifo s \<Longrightarrow> rx_fifo s' = rx_fifo s \<Longrightarrow> fifo_flow s s'"
  unfolding fifo_flow_def by (intro conjI exI [of _ 0] exI [of _ "[]"]) simp_all

lemma fifo_flow_pop: "fifo_pop (tx_fifo s) = Inr (w, rest) \<Longrightarrow> tx_fifo s' = rest \<Longrightarrow>
    rx_fifo s' = rx_fifo s \<Longrightarrow> fifo_flow s s'"
  unfolding fifo_flow_def
  by (intro conjI exI [of _ 1] exI [of _ "[]"]) (auto simp: fifo_pop_def split: list.splits)

lemma fifo_flow_push: "fifo_push (rx_fifo s) w = Inr items \<Longrightarrow> rx_fifo s' = items \<Longrightarrow>
    tx_fifo s' = tx_fifo s \<Longrightarrow> fifo_flow s s'"
  unfolding fifo_flow_def
  by (intro conjI exI [of _ 0] exI [of _ "[w]"]) (auto simp: fifo_push_def split: if_splits)

lemma apply_out_flow:
  assumes "apply_out s oper = (c, r)"
  shows "fifo_flow s c"
proof -
  obtain s1 e1 where rf: "out_refill s (count_of oper) = (s1, e1)" by (cases "out_refill s (count_of oper)")
  then have "fifo_flow s s1"
    by (auto simp: out_refill_def intro: fifo_flow_same fifo_flow_pop split: if_splits sum.splits)
  moreover have "tx_fifo c = tx_fifo s1 \<and> rx_fifo c = rx_fifo s1"
    using assms rf
    by (auto simp: apply_out_def out_shift_def out_destination_def Let_def split: if_splits sum.splits)
  ultimately show ?thesis by (simp add: fifo_flow_def)
qed

lemma apply_in_flow:
  assumes "apply_in s oper pins = (c, r)"
  shows "fifo_flow s c"
  using assms unfolding apply_in_def Let_def
  by (auto intro: fifo_flow_same split: if_splits sum.splits) (auto intro: fifo_flow_push)

lemma apply_instruction_flow:
  assumes "apply_instruction s i flgs pins = (c, r)"
  shows "fifo_flow s c"
proof -
  have nf: "no_flags q = (c, r) \<Longrightarrow> \<exists>e. q = (c, e)" for q
    by (auto simp: no_flags_def split: sum.splits prod.splits)
  have "apply_set s opc oper = (c, r) \<Longrightarrow> fifo_flow s c" for opc oper
    by (auto simp: apply_set_def Let_def intro: fifo_flow_same split: if_splits sum.splits)
  moreover have "apply_wait s oper flgs pins = (c, r) \<Longrightarrow> fifo_flow s c" for oper
    by (auto simp: apply_wait_def Let_def intro: fifo_flow_same split: if_splits)
  moreover have "apply_move s oper = (c, r) \<Longrightarrow> fifo_flow s c" for oper
    by (auto simp: apply_move_def Let_def intro: fifo_flow_same split: if_splits)
  moreover have "apply_fifo s oper = (c, e) \<Longrightarrow> fifo_flow s c" for oper e
    by (auto simp: apply_fifo_def Let_def fifo_failed_def intro: fifo_flow_same fifo_flow_pop fifo_flow_push
        split: if_splits sum.splits)
  ultimately show ?thesis
    using assms apply_in_flow apply_out_flow unfolding apply_instruction_def Let_def
    by (auto intro: fifo_flow_same split: if_split_asm dest!: nf)
qed

text \<open>The architectural state: what the program can observe of itself.\<close>

definition arch_state where
  "arch_state s =
     (pc s, isr s, osr s, isr_count s, osr_count s, x_reg s, y_reg s, tx_fifo s, rx_fifo s,
      last_fifo_failed s, output_value s)"

lemma arch_state_control:
  "arch_state (raise_fault s code) = arch_state s" "arch_state (record_stall s k) = arch_state s"
  "arch_state (s\<lparr>divider_remaining := a\<rparr>) = arch_state s"
  "arch_state (s\<lparr>delay_remaining := a, stall := q\<rparr>) = arch_state s"
  "arch_state (s\<lparr>divider_remaining := a, divider_remaining := b, tick_count := v\<rparr>) = arch_state s"
  by (simp_all add: arch_state_def raise_fault_def record_stall_def Let_def)

text \<open>What one clock edge does to one state machine.\<close>

definition edge_ok :: "sm \<Rightarrow> sm \<times> int \<times> int \<times> bool \<Rightarrow> bool" where
  "edge_ok s r \<longleftrightarrow>
     (case r of (s', st, cl, did_commit) \<Rightarrow>
        sm_inv s' \<and> config s' = config s \<and> fifo_flow s s' \<and>
        bits_of st \<subseteq> {..<4} \<and> bits_of cl \<subseteq> {..<4} \<and>
        (run_state s \<noteq> RUNNING \<longrightarrow> s' = s) \<and>
        (run_state s' = DISABLED \<longrightarrow> run_state s = DISABLED) \<and>
        (\<not> did_commit \<longrightarrow> arch_state s' = arch_state s \<and> st = 0 \<and> cl = 0))"

lemma raise_fault_edge_ok:
  assumes "sm_inv s" "run_state s = RUNNING" "code \<noteq> FAULT_NONE"
  shows "edge_ok s (raise_fault s code, 0, 0, False)"
proof -
  have "sm_inv (raise_fault s code)" using assms by (intro sm_inv_raise_fault) simp_all
  moreover have "fifo_flow s (raise_fault s code)"
    by (intro fifo_flow_same) (simp_all add: raise_fault_def Let_def)
  moreover have "config (raise_fault s code) = config s" "run_state (raise_fault s code) = CLOSING"
    by (simp_all add: raise_fault_def Let_def)
  ultimately show ?thesis
    using assms(2) by (simp add: edge_ok_def arch_state_control bits_of_ops)
qed

lemma execute_decoded_ok:
  assumes inv: "sm_inv s" and run: "run_state s = RUNNING" and i: "instruction_validate i = Inr ()"
  shows "\<exists>r. execute_decoded s i flgs pins = Inr r \<and> edge_ok s r"
proof -
  have c: "config_validate (config s) = Inr ()" and r: "sm_regs s"
    using inv run by (auto simp: sm_inv_def)
  note ok = apply_instruction_ok [OF r c, of i flgs pins]
  from ok show ?thesis
  proof (cases rule: execute_decoded_cases)
    case (commit c st cl n h)
    have "sm_inv (retire c i n h)"
      using inv run ok [unfolded commit(1)] i successor_in_region [OF commit(2)]
      by (rule sm_inv_retire)
    moreover have "config c = config s" "run_state c = RUNNING"
      using ok run by (simp_all add: commit(1) exec_ok_def same_control_def)
    moreover have "fifo_flow s (retire c i n h)"
      using apply_instruction_flow [OF commit(1)] by (simp add: fifo_flow_def retire_def Let_def)
    ultimately show ?thesis
      using commit(3) apply_flag_bits [OF commit(1)] run
      by (simp add: edge_ok_def) (simp add: retire_def Let_def)
  next
    case (stalled c k)
    have "fifo_flow s (record_stall s k)"
      by (intro fifo_flow_same) (simp_all add: record_stall_def Let_def)
    moreover have "config (record_stall s k) = config s" "run_state (record_stall s k) = RUNNING"
      using run by (simp_all add: record_stall_def Let_def)
    ultimately show ?thesis
      using stalled(2) run sm_inv_record_stall [OF inv]
      by (simp add: edge_ok_def arch_state_control bits_of_ops)
  next
    case (faulted c code)
    with raise_fault_edge_ok [OF inv run faulted(1)] show ?thesis by simp
  qed
qed

lemma execution_tick_ok:
  assumes inv: "sm_inv s" and run: "run_state s = RUNNING"
  shows "\<exists>r. execution_tick mem valid s flgs pins = Inr r \<and> edge_ok s r"
proof (cases "delay_remaining s = 0")
  case False
  have "fifo_flow s (s\<lparr>delay_remaining := delay_remaining s - 1, stall := STALL_NONE\<rparr>)"
    by (rule fifo_flow_same) simp_all
  moreover have "sm_inv (s\<lparr>delay_remaining := delay_remaining s - 1, stall := STALL_NONE\<rparr>)"
    using inv False by (auto simp: sm_inv_def sm_regs_def)
  ultimately show ?thesis
    using False run by (simp add: execution_tick_def edge_ok_def arch_state_control bits_of_ops)
next
  case True
  note fault = raise_fault_edge_ok [OF inv run]
  show ?thesis
  proof (cases "instruction_decode (mem ! nat (pc s))")
    case (Inl e)
    with True fault show ?thesis by (auto simp: execution_tick_def)
  next
    case (Inr i)
    then have "instruction_validate i = Inr ()" using instruction_decode_value by blast
    from execute_decoded_ok [OF inv run this] Inr True fault show ?thesis
      by (auto simp: execution_tick_def)
  qed
qed

lemma edge_ok_weaken:
  assumes "edge_ok s' r" "arch_state s' = arch_state s" "config s' = config s"
    and "run_state s' = RUNNING" "run_state s = RUNNING"
  shows "edge_ok s r"
  using assms by (auto simp: edge_ok_def fifo_flow_def arch_state_def split: prod.splits)

lemma edge_sm_ok:
  assumes inv: "sm_inv s"
  shows "\<exists>r. edge_sm mem valid s flgs pins = Inr r \<and> edge_ok s r"
proof (cases "run_state s = RUNNING")
  case False
  then show ?thesis
    using inv by (auto simp: edge_sm_def edge_ok_def bits_of_ops fifo_flow_same)
next
  case True
  show ?thesis
  proof (cases "divider_remaining s - 1 = 0")
    case False
    have "fifo_flow s (s\<lparr>divider_remaining := divider_remaining s - 1\<rparr>)"
      by (rule fifo_flow_same) simp_all
    moreover have "sm_inv (s\<lparr>divider_remaining := divider_remaining s - 1\<rparr>)"
      using inv True False by (auto simp: sm_inv_def sm_regs_def)
    ultimately show ?thesis
      using False True by (simp add: edge_sm_def Let_def edge_ok_def arch_state_control bits_of_ops)
  next
    case tick: True
    let ?s = "s\<lparr>divider_remaining := divider_remaining s - 1,
      divider_remaining := cfg_divider (config s), tick_count := saturating_increment (tick_count s)\<rparr>"
    have "sm_inv ?s"
      using inv True config_validate_facts(7) [of "config s"] by (auto simp: sm_inv_def sm_regs_def)
    from execution_tick_ok [OF this, of mem valid flgs pins] True obtain r
      where r: "execution_tick mem valid ?s flgs pins = Inr r" "edge_ok ?s r" by auto
    have "edge_sm mem valid s flgs pins = Inr r"
      using True tick r(1) by (simp add: edge_sm_def Let_def)
    moreover have "edge_ok s r"
      using r(2) by (rule edge_ok_weaken) (simp_all add: arch_state_def True)
    ultimately show ?thesis by blast
  qed
qed

section \<open>The machine invariant\<close>

definition cfg_slots :: "sm_config \<Rightarrow> nat set" where
  "cfg_slots c = {nat (cfg_base c)..<nat (cfg_base c) + nat (cfg_length c)}"

definition image_slots :: "relocated_program \<Rightarrow> nat set" where
  "image_slots r = {nat (rel_base r)..<nat (rel_base r) + length (rel_words r)}"

text \<open>The instruction memory holds exactly the published images, counted and disjoint.\<close>

definition published_ok :: "machine \<Rightarrow> nat \<Rightarrow> allocation \<Rightarrow> bool" where
  "published_ok m k al \<longleftrightarrow>
     alloc_id al = k \<and> 0 \<le> rel_base (image al) \<and>
     rel_base (image al) + int (length (rel_words (image al))) \<le> 32 \<and>
     (\<exists>r \<ge> 1. published_references m k = Some r) \<and>
     (\<forall>j < length (rel_words (image al)).
        imem m ! (nat (rel_base (image al)) + j) = rel_words (image al) ! j)"

definition imem_inv :: "machine \<Rightarrow> bool" where
  "imem_inv m \<longleftrightarrow>
     length (imem m) = 32 \<and> distinct (map fst (published_allocations m)) \<and>
     (\<forall>k al. (k, al) \<in> set (published_allocations m) \<longrightarrow> published_ok m k al) \<and>
     (\<forall>k al j bl. (k, al) \<in> set (published_allocations m) \<longrightarrow>
        (j, bl) \<in> set (published_allocations m) \<longrightarrow> k \<noteq> j \<longrightarrow>
        image_slots (image al) \<inter> image_slots (image bl) = {}) \<and>
     bits_of (imem_valid m) = (\<Union>al \<in> snd ` set (published_allocations m). image_slots (image al))"

text \<open>State machines that are not disabled execute only valid slots, and then the two output
  masks are disjoint.\<close>

definition active_inv :: "machine \<Rightarrow> bool" where
  "active_inv m \<longleftrightarrow>
     (\<forall>s \<in> set (sms m). run_state s \<noteq> DISABLED \<longrightarrow>
        cfg_slots (config s) \<subseteq> bits_of (imem_valid m) \<and>
        bits_of (cfg_output_mask (config (sms m ! 0))) \<inter>
        bits_of (cfg_output_mask (config (sms m ! 1))) = {})"

definition machine_inv :: "machine \<Rightarrow> bool" where
  "machine_inv m \<longleftrightarrow>
     length (sms m) = 2 \<and> (\<forall>s \<in> set (sms m). sm_inv s) \<and> bits_of (machine_flags m) \<subseteq> {..<4} \<and>
     imem_inv m \<and> active_inv m"

lemma imem_inv_other [simp]:
  "imem_inv (m\<lparr>sms := a\<rparr>) = imem_inv m" "imem_inv (m\<lparr>machine_flags := b\<rparr>) = imem_inv m"
  "imem_inv (m\<lparr>pin_inputs := b\<rparr>) = imem_inv m" "imem_inv (m\<lparr>pclk_edges := b\<rparr>) = imem_inv m"
  by (simp_all add: imem_inv_def published_ok_def)

lemma two_machines:
  assumes "machine_inv m"
  obtains a b where "sms m = [a, b]" "sm_inv a" "sm_inv b"
proof -
  from assms have "length (sms m) = Suc (Suc 0)" by (simp add: machine_inv_def)
  then obtain a b where "sms m = [a, b]" by (auto simp: length_Suc_conv)
  with assms that show thesis by (simp add: machine_inv_def)
qed

text \<open>Operations on the state machines that keep configurations and disabled machines disabled
  keep the invariant; the instruction memory is not theirs to change.\<close>

definition sm_frame :: "sm \<Rightarrow> sm \<Rightarrow> bool" where
  "sm_frame s s' \<longleftrightarrow> sm_inv s' \<and> config s' = config s \<and> (run_state s = DISABLED \<longrightarrow> run_state s' = DISABLED)"

lemma machine_inv_frame:
  assumes inv: "machine_inv m" and fr: "list_all2 sm_frame (sms m) ss"
    and flags: "bits_of fl \<subseteq> {..<4}"
  shows "machine_inv (m\<lparr>sms := ss, machine_flags := fl, pin_inputs := p, pclk_edges := e\<rparr>)"
proof -
  from inv obtain a b where m: "sms m = [a, b]" by (rule two_machines)
  with fr obtain a' b' where ss: "ss = [a', b']" and f: "sm_frame a a'" "sm_frame b b'"
    by (auto simp: list_all2_Cons1)
  have "active_inv (m\<lparr>sms := ss, machine_flags := fl, pin_inputs := p, pclk_edges := e\<rparr>)"
    using inv f by (auto simp: machine_inv_def active_inv_def m ss sm_frame_def)
  then show ?thesis
    using inv f flags by (simp add: machine_inv_def ss sm_frame_def)
qed

lemma sm_frame_refl: "sm_inv s \<Longrightarrow> sm_frame s s"
  by (simp add: sm_frame_def)

lemma machine_inv_update_sm:
  assumes inv: "machine_inv m" and fr: "sm_frame (sms m ! k) (f (sms m ! k))" and k: "k < 2"
  shows "machine_inv (update_sm m k f)"
proof -
  from inv obtain a b where m: "sms m = [a, b]" and ab: "sm_inv a" "sm_inv b" by (rule two_machines)
  have "list_all2 sm_frame (sms m) ((sms m)[k := f (sms m ! k)])"
    using fr k ab by (auto simp: m less_2_cases_iff sm_frame_refl)
  moreover have "bits_of (machine_flags m) \<subseteq> {..<4}" using inv by (simp add: machine_inv_def)
  ultimately have "machine_inv (m\<lparr>sms := (sms m)[k := f (sms m ! k)], machine_flags := machine_flags m,
      pin_inputs := pin_inputs m, pclk_edges := pclk_edges m\<rparr>)"
    by (rule machine_inv_frame [OF inv])
  then show ?thesis by (simp add: update_sm_def)
qed

lemma machine_init_inv:
  assumes "machine_init configs = Inr m"
  shows "machine_inv m"
  using assms
  by (auto simp: machine_init_def Let_def machine_inv_def imem_inv_def active_inv_def bits_simps
      sm_inv_new split: if_splits) (auto simp: new_sm_def)

lemma write_tx_inv:
  assumes "machine_inv m" "write_tx m k w = Inr m'"
  shows "machine_inv m'"
proof -
  from assms(2) obtain items where k: "k \<in> {0, 1}"
    and p: "fifo_push (tx_fifo (sms m ! nat k)) w = Inr items"
    and m': "m' = update_sm m (nat k) (\<lambda>s. s\<lparr>tx_fifo := items\<rparr>)"
    by (auto simp: write_tx_def result_simps split: if_splits)
  have i: "sm_inv (sms m ! nat k)" using assms(1) k by (auto simp: machine_inv_def)
  then have "fifo_ok items" using fifo_push_ok [OF _ p] by (simp add: sm_inv_def sm_regs_def)
  with i show ?thesis
    unfolding m' using assms(1) k
    by (intro machine_inv_update_sm) (auto simp: sm_frame_def sm_inv_def sm_regs_def)
qed

lemma read_rx_inv:
  assumes "machine_inv m" "read_rx m k = Inr (w, m')"
  shows "machine_inv m'"
proof -
  from assms(2) obtain items where k: "k \<in> {0, 1}"
    and p: "fifo_pop (rx_fifo (sms m ! nat k)) = Inr (w, items)"
    and m': "m' = update_sm m (nat k) (\<lambda>s. s\<lparr>rx_fifo := items\<rparr>)"
    by (auto simp: read_rx_def result_simps split: if_splits)
  have i: "sm_inv (sms m ! nat k)" using assms(1) k by (auto simp: machine_inv_def)
  then have "fifo_ok items" using fifo_pop_ok [OF _ p] by (simp add: sm_inv_def sm_regs_def)
  with i show ?thesis
    unfolding m' using assms(1) k
    by (intro machine_inv_update_sm) (auto simp: sm_frame_def sm_inv_def sm_regs_def)
qed

lemma validate_mask_cases:
  assumes "validate_mask sel = Inr l"
  shows "l \<in> {[], [0], [1], [0, 1]}"
  using assms by (auto simp: validate_mask_def split: if_splits)

lemma start_checks_facts:
  assumes "start_checks m k = Inr u"
  shows "run_state (sms m ! k) = DISABLED" "fault (sms m ! k) = FAULT_NONE"
    and "config_validate (config (sms m ! k)) = Inr ()"
    and "cfg_slots (config (sms m ! k)) \<subseteq> bits_of (imem_valid m)"
proof -
  let ?c = "config (sms m ! k)"
  show "run_state (sms m ! k) = DISABLED" "fault (sms m ! k) = FAULT_NONE"
    and v: "config_validate ?c = Inr ()"
    using assms by (auto simp: start_checks_def Let_def result_simps)
  have "bits_of (region_mask (cfg_length ?c) (cfg_base ?c)) \<subseteq> bits_of (imem_valid m)"
    using assms by (auto simp: start_checks_def Let_def result_simps and_eq_self_iff)
  then show "cfg_slots ?c \<subseteq> bits_of (imem_valid m)"
    using config_validate_facts(1,2) [OF v] by (simp add: bits_of_region_mask cfg_slots_def)
qed

lemma start_inv:
  assumes inv: "machine_inv m" and st: "start m sel = Inr m'"
  shows "machine_inv m'"
proof -
  from inv obtain a b where m: "sms m = [a, b]" and ab: "sm_inv a" "sm_inv b" by (rule two_machines)
  from st obtain l where l: "validate_mask sel = Inr l"
    and rest: "(if l = [] then Inr m else bind_r (first_error (map (start_checks m) l)) (\<lambda>_.
      if cfg_output_mask (config (sms m ! 0)) AND cfg_output_mask (config (sms m ! 1)) \<noteq> 0
      then Inl (ControlError OutputsOverlap)
      else Inr (fold (\<lambda>index m. update_sm m index start_sm) l m))) = Inr m'"
    by (auto simp: start_def result_simps)
  show ?thesis
  proof (cases "l = []")
    case True
    with rest inv show ?thesis by simp
  next
    case False
    with rest have ok: "\<forall>k \<in> set l. start_checks m k = Inr ()"
      and dis: "bits_of (cfg_output_mask (config a)) \<inter> bits_of (cfg_output_mask (config b)) = {}"
      and m': "m' = fold (\<lambda>index m. update_sm m index start_sm) l m"
      by (auto simp: result_simps m and_zero_iff split: if_splits)
    define a' where "a' = (if 0 \<in> set l then start_sm a else a)"
    define b' where "b' = (if 1 \<in> set l then start_sm b else b)"
    have "m' = m\<lparr>sms := [a', b']\<rparr>"
      using validate_mask_cases [OF l] by (auto simp: m' a'_def b'_def update_sm_def m)
    moreover have "sm_inv a'" "sm_inv b'"
      using ab ok start_checks_facts [of m] m
      by (auto simp: a'_def b'_def intro!: sm_inv_start) (metis nth_Cons_0 nth_Cons_Suc One_nat_def)+
    moreover have "config a' = config a" "config b' = config b"
      by (simp_all add: a'_def b'_def start_sm_def Let_def)
    moreover have "cfg_slots (config a) \<subseteq> bits_of (imem_valid m)" if "run_state a' \<noteq> DISABLED"
      using that ok start_checks_facts(4) [of m 0] inv
      by (auto simp: a'_def machine_inv_def active_inv_def m split: if_splits)
    moreover have "cfg_slots (config b) \<subseteq> bits_of (imem_valid m)" if "run_state b' \<noteq> DISABLED"
      using that ok start_checks_facts(4) [of m 1] inv
      by (auto simp: b'_def machine_inv_def active_inv_def m split: if_splits)
    ultimately show ?thesis
      using inv dis by (simp add: machine_inv_def active_inv_def)
  qed
qed

lemma sm_reset_inv:
  assumes inv: "machine_inv m" and rs: "sm_reset m sel = Inr m'"
  shows "machine_inv m'"
proof -
  from rs obtain l where l: "validate_mask sel = Inr l" and m': "m' = fold (\<lambda>index m. update_sm m index
      (\<lambda>s. new_sm (config s) (cfg_entry (config s)) (cfg_divider (config s)))) l m"
    by (auto simp: sm_reset_def result_simps)
  have fr: "sm_frame s (new_sm (config s) (cfg_entry (config s)) (cfg_divider (config s)))" for s
    by (simp add: sm_frame_def sm_inv_new) (simp add: new_sm_def)
  show ?thesis
    using validate_mask_cases [OF l] inv fr
    by (auto simp: m' intro!: machine_inv_update_sm)
qed

lemma staged_words:
  assumes "map_r (\<lambda>word. bind_r (instruction_decode word) instruction_encode) ws = Inr staged"
  shows "staged = ws" "\<And>w. w \<in> set ws \<Longrightarrow> \<exists>i. instruction_decode w = Inr i"
proof -
  have l: "list_all2 (\<lambda>x y. \<exists>i. instruction_decode x = Inr i \<and> instruction_encode i = Inr y) ws staged"
    using assms by (simp add: map_r_Inr bind_r_Inr)
  then have "list_all2 (=) ws staged"
    by (rule list_all2_mono) (metis encode_of_decode sum.inject(2))
  then show "staged = ws" by (metis list_all2_eq)
  show "\<exists>i. instruction_decode w = Inr i" if "w \<in> set ws" for w
    using l that by (auto simp: in_set_conv_nth list_all2_conv_all_nth)
qed

lemma all_disabled:
  assumes "require_disabled m = Inr u" "s \<in> set (sms m)"
  shows "run_state s = DISABLED"
  using assms by (auto simp: require_disabled_def result_simps list_ex_iff)

lemma machine_inv_imem:
  assumes "machine_inv m" "require_disabled m = Inr u" "imem_inv m'"
    and "sms m' = sms m" "machine_flags m' = machine_flags m"
  shows "machine_inv m'"
  using assms all_disabled [OF assms(2)] by (auto simp: machine_inv_def active_inv_def)

lemma imem_inv_count:
  assumes "imem_inv m" "1 \<le> r"
  shows "imem_inv (m\<lparr>published_references := (published_references m)(k \<mapsto> r)\<rparr>)"
proof -
  have "published_ok (m\<lparr>published_references := (published_references m)(k \<mapsto> r)\<rparr>) j al"
    if "published_ok m j al" for j al
    using that assms(2) by (simp add: published_ok_def)
  with assms(1) show ?thesis unfolding imem_inv_def by simp
qed

lemma imem_invD:
  assumes "imem_inv m" "(k, al) \<in> set (published_allocations m)"
  shows "alloc_id al = k" "0 \<le> rel_base (image al)"
    and "rel_base (image al) + int (length (rel_words (image al))) \<le> 32"
    and "\<exists>r \<ge> 1. published_references m k = Some r"
    and "\<And>j. j < length (rel_words (image al)) \<Longrightarrow>
      imem m ! (nat (rel_base (image al)) + j) = rel_words (image al) ! j"
    and "\<And>j bl. (j, bl) \<in> set (published_allocations m) \<Longrightarrow> k \<noteq> j \<Longrightarrow>
      image_slots (image al) \<inter> image_slots (image bl) = {}"
    and "image_slots (image al) \<subseteq> bits_of (imem_valid m)"
proof -
  have e: "published_ok m k al" using assms by (simp add: imem_inv_def)
  then show "alloc_id al = k" "0 \<le> rel_base (image al)"
    and "rel_base (image al) + int (length (rel_words (image al))) \<le> 32"
    and "\<exists>r \<ge> 1. published_references m k = Some r"
    by (simp_all add: published_ok_def)
  show "imem m ! (nat (rel_base (image al)) + j) = rel_words (image al) ! j"
    if "j < length (rel_words (image al))" for j
    using e that by (simp add: published_ok_def)
  show "image_slots (image al) \<inter> image_slots (image bl) = {}"
    if "(j, bl) \<in> set (published_allocations m)" "k \<noteq> j" for j bl
    using assms that unfolding imem_inv_def by blast
  show "image_slots (image al) \<subseteq> bits_of (imem_valid m)"
    using assms unfolding imem_inv_def by force
qed

lemma publish_new_inv:
  assumes inv: "imem_inv m" and fresh: "map_of (published_allocations m) (alloc_id al) = None"
    and base: "0 \<le> rel_base (image al)" "rel_base (image al) + int (length (rel_words (image al))) \<le> 32"
    and free: "image_slots (image al) \<inter> bits_of (imem_valid m) = {}"
    and valid: "bits_of v = bits_of (imem_valid m) \<union> image_slots (image al)"
    and mem: "mem = take (nat (rel_base (image al))) (imem m) @ rel_words (image al)
        @ drop (nat (rel_base (image al)) + length (rel_words (image al))) (imem m)"
  shows "imem_inv (m\<lparr>imem := mem,
      imem_valid := v, published_allocations := published_allocations m @ [(alloc_id al, al)],
      published_references := (published_references m)(alloc_id al \<mapsto> 1)\<rparr>)" (is "imem_inv ?m")
proof -
  let ?b = "nat (rel_base (image al))" and ?ws = "rel_words (image al)"
  have len: "length (imem m) = 32" using inv by (simp add: imem_inv_def)
  have in_range: "?b + length ?ws \<le> 32" using base by linarith
  have new: "mem ! (?b + j) = ?ws ! j" if "j < length ?ws" for j
    using that len in_range by (simp add: nth_append mem)
  have old: "mem ! n = imem m ! n" if "n \<notin> image_slots (image al)" "n < 32" for n
    using that len in_range by (auto simp: nth_append image_slots_def mem)
  note d = imem_invD [OF inv]
  have fresh': "alloc_id al \<noteq> k" if "(k, bl) \<in> set (published_allocations m)" for k bl
    using fresh that by (metis map_of_eq_None_iff fst_conv imageI)
  have sep: "image_slots (image bl) \<inter> image_slots (image al) = {}"
    if "(k, bl) \<in> set (published_allocations m)" for k bl
    using d(7) [OF that] free by blast
  have keep: "published_ok ?m k bl" if kb: "(k, bl) \<in> set (published_allocations m)" for k bl
  proof -
    have "mem ! (nat (rel_base (image bl)) + j) = rel_words (image bl) ! j"
      if j: "j < length (rel_words (image bl))" for j
    proof -
      let ?n = "nat (rel_base (image bl)) + j"
      have "?n \<in> image_slots (image bl)" using j by (simp add: image_slots_def)
      then have "?n \<notin> image_slots (image al)" using sep [OF kb] by blast
      moreover have "?n < 32" using d(2,3) [OF kb] j by linarith
      ultimately show ?thesis using old d(5) [OF kb j] by simp
    qed
    with d(1-4) [OF kb] fresh' [OF kb] show ?thesis by (simp add: published_ok_def)
  qed
  have own: "published_ok ?m (alloc_id al) al" using base new by (simp add: published_ok_def)
  show ?thesis
    unfolding imem_inv_def
  proof (intro conjI allI impI)
    show "length (imem ?m) = 32" using len in_range by (simp add: mem)
    show "distinct (map fst (published_allocations ?m))"
      using inv fresh by (simp add: imem_inv_def map_of_eq_None_iff)
    show "published_ok ?m k bl" if "(k, bl) \<in> set (published_allocations ?m)" for k bl
      using that keep own by auto
    show "image_slots (image bl) \<inter> image_slots (image cl) = {}"
      if "(k, bl) \<in> set (published_allocations ?m)" "(j, cl) \<in> set (published_allocations ?m)" "k \<noteq> j"
      for k bl j cl
      using that d(6) [of k bl j cl] sep [of k bl] sep [of j cl] by auto
    show "bits_of (imem_valid ?m) = (\<Union>bl \<in> snd ` set (published_allocations ?m). image_slots (image bl))"
      using inv valid by (auto simp: imem_inv_def)
  qed
qed

lemma publish_inv:
  assumes inv: "machine_inv m" and pb: "publish m al = Inr m'"
  shows "machine_inv m'"
proof -
  from pb obtain staged where dis: "require_disabled m = Inr ()"
    and st: "map_r (\<lambda>word. bind_r (instruction_decode word) instruction_encode) (rel_words (image al)) = Inr staged"
    and le: "rel_base (image al) + int (length staged) \<le> 32"
    by (auto simp: publish_def Let_def result_simps not_less)
  have staged: "staged = rel_words (image al)" by (rule staged_words [OF st])
  have im: "imem_inv m" using inv by (simp add: machine_inv_def)
  show ?thesis
  proof (cases "map_of (published_allocations m) (alloc_id al)")
    case (Some bl)
    with pb dis st le obtain r where "published_references m (alloc_id al) = Some r"
      and m': "m' = m\<lparr>published_references := (published_references m)(alloc_id al \<mapsto> r + 1)\<rparr>"
      by (auto simp: publish_def Let_def result_simps split: if_splits option.splits)
    moreover have "1 \<le> r" using imem_invD(4) [OF im map_of_SomeD [OF Some]] calculation(1) by auto
    ultimately show ?thesis
      using inv imem_inv_count [OF im, of "r + 1" "alloc_id al"] by (simp add: machine_inv_def active_inv_def)
  next
    case None
    let ?mask = "region_mask (int (length staged)) (rel_base (image al))"
    from None pb dis st le have base: "0 \<le> rel_base (image al)" and free: "imem_valid m AND ?mask = 0"
      and m': "m' = m\<lparr>imem := take (nat (rel_base (image al))) (imem m) @ staged
          @ drop (nat (rel_base (image al)) + length staged) (imem m),
        imem_valid := imem_valid m OR ?mask,
        published_allocations := published_allocations m @ [(alloc_id al, al)],
        published_references := (published_references m)(alloc_id al \<mapsto> 1)\<rparr>"
      by (auto simp: publish_def Let_def result_simps split: if_splits)
    have bits: "bits_of ?mask = image_slots (image al)"
      using base by (simp add: bits_of_region_mask image_slots_def staged)
    have "imem_inv m'"
      unfolding m' staged
      by (rule publish_new_inv [OF im None base _ _ _ refl])
        (use le free bits in \<open>auto simp: staged and_zero_iff bits_of_ops\<close>)
    then show ?thesis
      by (rule machine_inv_imem [OF inv dis]) (simp_all add: m')
  qed
qed

lemma unpublish_inv:
  assumes inv: "machine_inv m" and up: "unpublish m al = Inr m'"
  shows "machine_inv m'"
proof -
  from up obtain bl r where dis: "require_disabled m = Inr ()"
    and bl: "map_of (published_allocations m) (alloc_id al) = Some bl"
    and r: "published_references m (alloc_id al) = Some r"
    by (auto simp: unpublish_def Let_def result_simps split: option.splits if_splits)
  have im: "imem_inv m" using inv by (simp add: machine_inv_def)
  note mem = map_of_SomeD [OF bl]
  note d = imem_invD [OF im]
  show ?thesis
  proof (cases "r > 1")
    case True
    with up dis bl r have "m' = m\<lparr>published_references := (published_references m)(alloc_id al \<mapsto> r - 1)\<rparr>"
      by (auto simp: unpublish_def Let_def split: if_splits)
    with inv imem_inv_count [OF im, of "r - 1" "alloc_id al"] True show ?thesis
      by (simp add: machine_inv_def active_inv_def)
  next
    case False
    let ?k = "alloc_id al"
    let ?t = "filter (\<lambda>e. fst e \<noteq> ?k) (published_allocations m)"
    let ?v = "imem_valid m AND NOT (region_mask (int (length (rel_words (image bl)))) (rel_base (image bl)))"
    from False up dis bl r have m': "m' = m\<lparr>published_references := (published_references m)(?k := None),
        published_allocations := ?t, imem_valid := ?v\<rparr>"
      by (auto simp: unpublish_def Let_def split: if_splits)
    have bits: "bits_of ?v = bits_of (imem_valid m) - image_slots (image bl)"
      using d(2) [OF mem] by (auto simp: bits_of_ops bits_of_region_mask image_slots_def)
    have own: "cl = bl" if "(?k, cl) \<in> set (published_allocations m)" for cl
      using that mem im by (auto simp: imem_inv_def dest: eq_key_imp_eq_value)
    have "published_ok m' k cl" if "(k, cl) \<in> set ?t" for k cl
      using that d(1-5) [of k cl] by (auto simp: m' published_ok_def)
    moreover have "(\<Union>cl \<in> snd ` set (published_allocations m). image_slots (image cl)) - image_slots (image bl)
        = (\<Union>cl \<in> snd ` set ?t. image_slots (image cl))"
      using own d(6) [OF mem] by fastforce
    moreover have "image_slots (image cl) \<inter> image_slots (image dl) = {}"
      if "(k, cl) \<in> set ?t" "(j, dl) \<in> set ?t" "k \<noteq> j" for k cl j dl
      using that d(6) [of k cl j dl] by simp
    moreover have "distinct (map fst ?t)"
      using im by (simp add: imem_inv_def distinct_map_filter)
    ultimately have "imem_inv m'"
      using im bits unfolding imem_inv_def by (auto simp: m')
    then show ?thesis
      by (rule machine_inv_imem [OF inv dis]) (simp_all add: m')
  qed
qed

lemma invalidate_imem_inv:
  assumes inv: "machine_inv m" and iv: "invalidate_imem m = Inr m'"
  shows "machine_inv m'"
proof -
  from iv have dis: "require_disabled m = Inr ()" and m': "m' = m\<lparr>imem := replicate 32 0, imem_valid := 0,
      published_allocations := [], published_references := Map.empty\<rparr>"
    by (auto simp: invalidate_imem_def result_simps)
  have "imem_inv m'" by (simp add: m' imem_inv_def bits_of_ops)
  then show ?thesis by (rule machine_inv_imem [OF inv dis]) (simp_all add: m')
qed

section \<open>Clock edges\<close>

text \<open>The lifecycle command of an edge, seen from one state machine.\<close>

definition command_sm :: "nat list \<Rightarrow> nat list \<Rightarrow> nat list \<Rightarrow> nat \<Rightarrow> sm \<Rightarrow> sm" where
  "command_sm ps rs ds k s =
     (if k \<in> set ds then s\<lparr>run_state := DISABLED, output_oe := 0, stall := STALL_NONE\<rparr>
      else if k \<in> set ps then s\<lparr>run_state := PAUSED, stall := STALL_NONE\<rparr>
      else if k \<in> set rs then s\<lparr>run_state := RUNNING\<rparr> else s)"

lemma fold_update_sm:
  assumes "l \<in> {[], [0], [1], [0, 1]}" "sms m = [a, b]"
  shows "fold (\<lambda>index m. update_sm m index f) l m =
    m\<lparr>sms := [if 0 \<in> set l then f a else a, if 1 \<in> set l then f b else b]\<rparr>"
  using assms by (auto simp: update_sm_def)

lemma apply_commands_eq:
  assumes "sms m = [a, b]"
    and "ps \<in> {[], [0], [1], [0, 1]}" "rs \<in> {[], [0], [1], [0, 1]}" "ds \<in> {[], [0], [1], [0, 1]}"
    and "set ps \<inter> set rs = {}" "set ps \<inter> set ds = {}" "set rs \<inter> set ds = {}"
  shows "apply_commands m ps rs ds = m\<lparr>sms := [command_sm ps rs ds 0 a, command_sm ps rs ds 1 b]\<rparr>"
proof -
  have "0 \<in> set ps \<Longrightarrow> 0 \<notin> set rs \<and> 0 \<notin> set ds" "1 \<in> set ps \<Longrightarrow> 1 \<notin> set rs \<and> 1 \<notin> set ds"
    "0 \<in> set rs \<Longrightarrow> 0 \<notin> set ds" "1 \<in> set rs \<Longrightarrow> 1 \<notin> set ds"
    using assms(5-7) by auto
  then show ?thesis
    unfolding apply_commands_def Let_def fold_update_sm [OF assms(4,1)]
    by (subst fold_update_sm [OF assms(2)], simp, subst fold_update_sm [OF assms(3)], simp)
      (simp add: command_sm_def)
qed

text \<open>What the checks of \<open>step\<close> establish, and what they leave to typing.\<close>

definition edge_valid :: "machine \<Rightarrow> edge_inputs \<Rightarrow> nat list \<Rightarrow> nat list \<Rightarrow> nat list \<Rightarrow> bool" where
  "edge_valid m e ps rs ds \<longleftrightarrow>
     validate_mask (pause_mask e) = Inr ps \<and> validate_mask (resume_mask e) = Inr rs \<and>
     validate_mask (disable_mask e) = Inr ds \<and> command_checks m e ps rs ds = Inr ()"

lemma command_checks_facts:
  assumes "command_checks m e ps rs ds = Inr u"
  shows "set ps \<inter> set rs = {}" "set ps \<inter> set ds = {}" "set rs \<inter> set ds = {}"
    and "bits_of (flag_set e) \<subseteq> {..<4}" "distinct (rx_reads e)"
    and "\<And>k. k \<in> set (rx_reads e) \<Longrightarrow> k \<in> {0, 1}"
    and "\<And>k w. (k, w) \<in> set (tx_writes e) \<Longrightarrow> k \<in> {0, 1} \<and> 0 \<le> w \<and> w \<le> 4294967295"
    and "\<And>k. k \<in> set ps \<Longrightarrow> run_state (sms m ! k) = RUNNING"
    and "\<And>k. k \<in> set rs \<Longrightarrow> run_state (sms m ! k) = PAUSED"
    and "\<And>k. k \<in> set ds \<Longrightarrow> run_state (sms m ! k) \<noteq> CLOSING"
proof -
  note a = assms [unfolded command_checks_def first_error_Inr]
  show "set ps \<inter> set rs = {}" "set ps \<inter> set ds = {}" "set rs \<inter> set ds = {}" "distinct (rx_reads e)"
    using a by (auto simp: result_simps ball_Un)
  have "0 \<le> flag_set e" "flag_set e < 2 ^ 4" using a by (auto simp: result_simps ball_Un)
  then show "bits_of (flag_set e) \<subseteq> {..<4}" by (rule bits_of_lt_exp)
  show "k \<in> {0, 1}" if "k \<in> set (rx_reads e)" for k
    using a that by (auto simp: result_simps ball_Un list_ex_iff)
  show "k \<in> {0, 1} \<and> 0 \<le> w \<and> w \<le> 4294967295" if "(k, w) \<in> set (tx_writes e)" for k w
    using a that by (fastforce simp: result_simps ball_Un list_ex_iff)
  show "run_state (sms m ! k) = RUNNING" if "k \<in> set ps" for k
    using a that by (simp add: result_simps ball_Un)
  show "run_state (sms m ! k) = PAUSED" if "k \<in> set rs" for k
    using a that by (simp add: result_simps ball_Un)
  show "run_state (sms m ! k) \<noteq> CLOSING" if "k \<in> set ds" for k
    using a that by (simp add: result_simps ball_Un)
qed

lemma command_sm_frame:
  assumes "command_checks m e ps rs ds = Inr u" "sm_inv (sms m ! k)"
  shows "sm_frame (sms m ! k) (command_sm ps rs ds k (sms m ! k))"
  using assms(2) command_checks_facts(8-10) [OF assms(1), of k] command_checks_facts(1-3) [OF assms(1)]
  by (auto simp: command_sm_def sm_frame_def sm_inv_def sm_regs_def bits_of_ops)

lemma edge_loop_two:
  assumes "sms m = [a, b]"
    and "edge_sm (imem m) (imem_valid m) a fl p = Inr (a', sa, ca, da)"
    and "edge_sm (imem m) (imem_valid m) b fl p = Inr (b', sb, cb, db)"
  shows "edge_loop m fl p = Inr (m\<lparr>sms := [a', b']\<rparr>, sa OR sb, ca OR cb, [da, db])"
  using assms by (simp add: edge_loop_def)

text \<open>External FIFO accesses change only the FIFOs.\<close>

definition fifo_touch :: "sm \<Rightarrow> sm \<Rightarrow> bool" where
  "fifo_touch s s' \<longleftrightarrow> (\<exists>t r. s' = s\<lparr>tx_fifo := t, rx_fifo := r\<rparr> \<and> fifo_ok t \<and> fifo_ok r)"

lemma fifo_touch_refl: "fifo_ok (tx_fifo s) \<Longrightarrow> fifo_ok (rx_fifo s) \<Longrightarrow> fifo_touch s s"
  unfolding fifo_touch_def by (intro exI [of _ "tx_fifo s"] exI [of _ "rx_fifo s"]) simp

lemma fifo_touch_trans: "fifo_touch s t \<Longrightarrow> fifo_touch t v \<Longrightarrow> fifo_touch s v"
  by (auto simp: fifo_touch_def) blast

lemma fifo_touch_ok: "fifo_touch s t \<Longrightarrow> fifo_ok (tx_fifo t) \<and> fifo_ok (rx_fifo t)"
  by (auto simp: fifo_touch_def)

lemma sm_inv_fifo_touch:
  assumes "sm_inv s" "fifo_touch s t"
  shows "sm_inv t"
proof -
  from assms(2) obtain a b where "t = s\<lparr>tx_fifo := a, rx_fifo := b\<rparr>" "fifo_ok a" "fifo_ok b"
    by (auto simp: fifo_touch_def)
  with assms(1) show ?thesis by (simp add: sm_inv_def sm_regs_def)
qed

definition touched :: "machine \<Rightarrow> machine \<Rightarrow> bool" where
  "touched m m' \<longleftrightarrow> (\<exists>ss. m' = m\<lparr>sms := ss\<rparr> \<and> list_all2 fifo_touch (sms m) ss)"

lemma touched_trans: "touched m n \<Longrightarrow> touched n p \<Longrightarrow> touched m p"
proof (unfold touched_def, elim exE conjE)
  fix ss ts
  assume "n = m\<lparr>sms := ss\<rparr>" "list_all2 fifo_touch (sms m) ss" "p = n\<lparr>sms := ts\<rparr>"
    "list_all2 fifo_touch (sms n) ts"
  then have "p = m\<lparr>sms := ts\<rparr>" "list_all2 fifo_touch (sms m) ts"
    by (auto simp: list_all2_conv_all_nth) (metis fifo_touch_trans)
  then show "\<exists>ss. p = m\<lparr>sms := ss\<rparr> \<and> list_all2 fifo_touch (sms m) ss" by blast
qed

lemma touched_update:
  assumes "k < length (sms m)" "\<forall>s \<in> set (sms m). fifo_ok (tx_fifo s) \<and> fifo_ok (rx_fifo s)"
    and "fifo_touch (sms m ! k) (f (sms m ! k))"
  shows "touched m (update_sm m k f)"
  using assms
  by (auto simp: touched_def update_sm_def list_all2_conv_all_nth nth_list_update fifo_touch_refl)

lemma touched_refl:
  "\<forall>s \<in> set (sms m). fifo_ok (tx_fifo s) \<and> fifo_ok (rx_fifo s) \<Longrightarrow> touched m m"
  unfolding touched_def
  by (intro exI [of _ "sms m"]) (auto simp: list_all2_conv_all_nth fifo_touch_refl)

lemma touched_fifos:
  assumes "touched m m'"
  shows "length (sms m') = length (sms m)" "\<forall>s \<in> set (sms m'). fifo_ok (tx_fifo s) \<and> fifo_ok (rx_fifo s)"
proof -
  from assms obtain ss where ss: "m' = m\<lparr>sms := ss\<rparr>" "list_all2 fifo_touch (sms m) ss"
    by (auto simp: touched_def)
  then have "list_all2 (\<lambda>_ s. fifo_ok (tx_fifo s) \<and> fifo_ok (rx_fifo s)) (sms m) ss"
    using fifo_touch_ok by (auto elim: list_all2_mono)
  then show "length (sms m') = length (sms m)"
    "\<forall>s \<in> set (sms m'). fifo_ok (tx_fifo s) \<and> fifo_ok (rx_fifo s)"
    by (auto simp: ss(1) list_all2_conv_all_nth in_set_conv_nth)
qed

lemma write_tx_edges_ok:
  assumes "length (sms m) = 2" "\<forall>s \<in> set (sms m). fifo_ok (tx_fifo s) \<and> fifo_ok (rx_fifo s)"
    and "distinct (map fst ws)"
    and "\<And>k w. (k, w) \<in> set ws \<Longrightarrow> k \<in> {0, 1} \<and> 0 \<le> w \<and> w \<le> 4294967295"
    and "\<And>k w. (k, w) \<in> set ws \<Longrightarrow> sp ! nat k \<Longrightarrow> length (tx_fifo (sms m ! nat k)) < 8"
  shows "\<exists>m' acc'. foldl_r (write_tx_edge sp) (m, acc) ws = Inr (m', acc') \<and> touched m m' \<and>
    (\<forall>k < 2. rx_fifo (sms m' ! k) = rx_fifo (sms m ! k))"
  using assms
proof (induction ws arbitrary: m acc)
  case Nil
  then show ?case by (auto simp: touched_refl)
next
  case (Cons kw ws)
  obtain k w where kw: "kw = (k, w)" by (cases kw)
  have k: "k \<in> {0, 1}" "nat k < length (sms m)" and w: "0 \<le> w" "w \<le> 4294967295"
    using Cons.prems(1) Cons.prems(4) [of k w] kw by auto
  show ?case
  proof (cases "sp ! nat k")
    case False
    have head: "write_tx_edge sp (m, acc) kw = Inr (m, acc @ [(k, False)])"
      using False by (simp add: write_tx_edge_def kw)
    have "\<exists>m' acc'. foldl_r (write_tx_edge sp) (m, acc @ [(k, False)]) ws = Inr (m', acc') \<and> touched m m' \<and>
      (\<forall>k < 2. rx_fifo (sms m' ! k) = rx_fifo (sms m ! k))"
    proof (rule Cons.IH [OF Cons.prems(1,2)])
      show "length (tx_fifo (sms m ! nat j)) < 8" if "(j, v) \<in> set ws" "sp ! nat j" for j v
        using Cons.prems(5) [of j v] that by simp
      show "j \<in> {0, 1} \<and> 0 \<le> v \<and> v \<le> 4294967295" if "(j, v) \<in> set ws" for j v
        using Cons.prems(4) [of j v] that by simp
    qed (use Cons.prems(3) in simp)
    then show ?thesis by (simp add: head)
  next
    case True
    let ?f = "\<lambda>s. s\<lparr>tx_fifo := tx_fifo (sms m ! nat k) @ [w]\<rparr>"
    let ?m = "update_sm m (nat k) ?f"
    have space: "length (tx_fifo (sms m ! nat k)) < 8" using Cons.prems(5) [of k w] kw True by simp
    have push: "fifo_push (tx_fifo (sms m ! nat k)) w = Inr (tx_fifo (sms m ! nat k) @ [w])"
      using space w by (rule fifo_push_space)
    have "fifo_ok (tx_fifo (sms m ! nat k))" "fifo_ok (rx_fifo (sms m ! nat k))"
      using Cons.prems(2) k(2) by auto
    then have "fifo_touch (sms m ! nat k) (?f (sms m ! nat k))"
      unfolding fifo_touch_def using fifo_push_ok [OF _ push]
      by (intro exI [of _ "tx_fifo (sms m ! nat k) @ [w]"] exI [of _ "rx_fifo (sms m ! nat k)"]) simp
    then have t: "touched m ?m" by (rule touched_update [OF k(2) Cons.prems(2)])
    have other: "sms ?m ! nat j = sms m ! nat j" if "(j, v) \<in> set ws" for j v
    proof -
      have "j \<noteq> k" "j \<in> {0, 1}" using that Cons.prems(3,4) kw by force+
      then show ?thesis using k(1) by (auto simp: update_sm_def)
    qed
    have "\<exists>m' acc'. foldl_r (write_tx_edge sp) (?m, acc @ [(k, True)]) ws = Inr (m', acc') \<and> touched ?m m' \<and>
      (\<forall>j < 2. rx_fifo (sms m' ! j) = rx_fifo (sms ?m ! j))"
    proof (rule Cons.IH)
      show "length (sms ?m) = 2" "\<forall>s \<in> set (sms ?m). fifo_ok (tx_fifo s) \<and> fifo_ok (rx_fifo s)"
        using touched_fifos [OF t] Cons.prems(1) by simp_all
      show "length (tx_fifo (sms ?m ! nat j)) < 8" if "(j, v) \<in> set ws" "sp ! nat j" for j v
        using Cons.prems(5) [of j v] that other [OF that(1)] by simp
      show "j \<in> {0, 1} \<and> 0 \<le> v \<and> v \<le> 4294967295" if "(j, v) \<in> set ws" for j v
        using Cons.prems(4) [of j v] that by simp
    qed (use Cons.prems(3) in simp)
    moreover have "rx_fifo (sms ?m ! j) = rx_fifo (sms m ! j)" if "j < 2" for j
      using that k(2) Cons.prems(1) by (simp add: update_sm_def nth_list_update)
    moreover have "write_tx_edge sp (m, acc) kw = Inr (?m, acc @ [(k, True)])"
      using True by (simp add: write_tx_edge_def kw push)
    ultimately show ?thesis
      using touched_trans [OF t] by auto
  qed
qed

lemma read_rx_edges_ok:
  assumes "length (sms m) = 2" "\<forall>s \<in> set (sms m). fifo_ok (tx_fifo s) \<and> fifo_ok (rx_fifo s)"
    and "distinct rs" "\<And>k. k \<in> set rs \<Longrightarrow> k \<in> {0, 1}"
    and "\<And>k. k \<in> set rs \<Longrightarrow> had ! nat k \<Longrightarrow> rx_fifo (sms m ! nat k) \<noteq> []"
  shows "\<exists>m' acc'. foldl_r (read_rx_edge had) (m, acc) rs = Inr (m', acc') \<and> touched m m'"
  using assms
proof (induction rs arbitrary: m acc)
  case Nil
  then show ?case by (auto simp: touched_refl)
next
  case (Cons k rs)
  have k: "k \<in> {0, 1}" "nat k < length (sms m)"
    using Cons.prems(1) Cons.prems(4) [of k] by auto
  show ?case
  proof (cases "had ! nat k")
    case False
    have head: "read_rx_edge had (m, acc) k = Inr (m, acc @ [(k, None)])"
      using False by (simp add: read_rx_edge_def)
    have "\<exists>m' acc'. foldl_r (read_rx_edge had) (m, acc @ [(k, None)]) rs = Inr (m', acc') \<and> touched m m'"
      by (rule Cons.IH [OF Cons.prems(1,2) _ Cons.prems(4,5)]) (use Cons.prems(3) in simp_all)
    then show ?thesis by (simp add: head)
  next
    case True
    then obtain w rest where rx: "rx_fifo (sms m ! nat k) = w # rest"
      using Cons.prems(5) [of k] by (cases "rx_fifo (sms m ! nat k)") auto
    let ?f = "\<lambda>s. s\<lparr>rx_fifo := rest\<rparr>"
    let ?m = "update_sm m (nat k) ?f"
    have pop: "fifo_pop (rx_fifo (sms m ! nat k)) = Inr (w, rest)" by (simp add: rx fifo_pop_def)
    have "fifo_ok (tx_fifo (sms m ! nat k))" "fifo_ok (rx_fifo (sms m ! nat k))"
      using Cons.prems(2) k(2) by auto
    then have "fifo_touch (sms m ! nat k) (?f (sms m ! nat k))"
      unfolding fifo_touch_def using fifo_pop_ok(1) [OF _ pop]
      by (intro exI [of _ "tx_fifo (sms m ! nat k)"] exI [of _ rest]) simp
    then have t: "touched m ?m" by (rule touched_update [OF k(2) Cons.prems(2)])
    have other: "sms ?m ! nat j = sms m ! nat j" if "j \<in> set rs" for j
    proof -
      have "j \<noteq> k" "j \<in> {0, 1}" using that Cons.prems(3,4) by force+
      then show ?thesis using k(1) by (auto simp: update_sm_def)
    qed
    have "\<exists>m' acc'. foldl_r (read_rx_edge had) (?m, acc @ [(k, Some w)]) rs = Inr (m', acc') \<and> touched ?m m'"
    proof (rule Cons.IH)
      show "length (sms ?m) = 2" "\<forall>s \<in> set (sms ?m). fifo_ok (tx_fifo s) \<and> fifo_ok (rx_fifo s)"
        using touched_fifos [OF t] Cons.prems(1) by simp_all
      show "rx_fifo (sms ?m ! nat j) \<noteq> []" if "j \<in> set rs" "had ! nat j" for j
        using Cons.prems(5) [of j] that other [OF that(1)] by simp
      show "j \<in> {0, 1}" if "j \<in> set rs" for j
        using Cons.prems(4) [of j] that by simp
    qed (use Cons.prems(3) in simp)
    moreover have "read_rx_edge had (m, acc) k = Inr (?m, acc @ [(k, Some w)])"
      using True by (simp add: read_rx_edge_def pop)
    ultimately show ?thesis using touched_trans [OF t] by auto
  qed
qed

text \<open>What one call of \<open>step\<close> does to each state machine: its command, its tick on the
  memory, flags and pins before the edge, and the external FIFO accesses.\<close>

definition edge_effect :: "machine \<Rightarrow> nat list \<Rightarrow> nat list \<Rightarrow> nat list \<Rightarrow> nat \<Rightarrow> sm \<Rightarrow> bool \<Rightarrow> bool" where
  "edge_effect m ps rs ds k s' did \<longleftrightarrow>
     (\<exists>s st cl. edge_sm (imem m) (imem_valid m) (command_sm ps rs ds k (sms m ! k))
        (machine_flags m) (pin_inputs m) = Inr (s, st, cl, did) \<and> fifo_touch s s')"

lemma step_ok:
  assumes inv: "machine_inv m" and ev: "edge_valid m e ps rs ds"
    and keys: "distinct (map fst (tx_writes e))"
  shows "\<exists>m' res. step m e = Inr (m', res) \<and> machine_inv m' \<and>
    imem m' = imem m \<and> imem_valid m' = imem_valid m \<and>
    published_allocations m' = published_allocations m \<and> length (sms m') = 2 \<and>
    (\<forall>k < 2. edge_effect m ps rs ds k (sms m' ! k) (committed res ! k))"
proof -
  note v = ev [unfolded edge_valid_def]
  note cc = command_checks_facts [of m e ps rs ds, OF v [THEN conjunct2, THEN conjunct2, THEN conjunct2]]
  from inv obtain a b where m: "sms m = [a, b]" and ab: "sm_inv a" "sm_inv b" by (rule two_machines)
  let ?c = "command_sm ps rs ds" and ?fl = "machine_flags m" and ?p = "pin_inputs m"
  let ?m0 = "m\<lparr>sms := [?c 0 a, ?c 1 b]\<rparr>"
  have ap: "apply_commands m ps rs ds = ?m0"
    using m cc(1-3) v by (intro apply_commands_eq) (auto dest: validate_mask_cases)
  have fa: "sm_frame a (?c 0 a)" and fb: "sm_frame b (?c 1 b)"
    using command_sm_frame [of m e ps rs ds "()" 0] command_sm_frame [of m e ps rs ds "()" 1] v ab
    by (simp_all add: m)
  obtain a' sa ca da where ea: "edge_sm (imem m) (imem_valid m) (?c 0 a) ?fl ?p = Inr (a', sa, ca, da)"
    and oa: "edge_ok (?c 0 a) (a', sa, ca, da)"
    using edge_sm_ok [of "?c 0 a" "imem m" "imem_valid m" ?fl ?p] fa by (auto simp: sm_frame_def)
  obtain b' sb cb db where eb: "edge_sm (imem m) (imem_valid m) (?c 1 b) ?fl ?p = Inr (b', sb, cb, db)"
    and ob: "edge_ok (?c 1 b) (b', sb, cb, db)"
    using edge_sm_ok [of "?c 1 b" "imem m" "imem_valid m" ?fl ?p] fb by (auto simp: sm_frame_def)
  have loop: "edge_loop ?m0 ?fl ?p = Inr (m\<lparr>sms := [a', b']\<rparr>, sa OR sb, ca OR cb, [da, db])"
    using edge_loop_two [of ?m0 "?c 0 a" "?c 1 b"] ea eb by simp
  let ?fl' = "((?fl AND NOT (flag_clear e OR (ca OR cb))) OR flag_set e) OR (sa OR sb)"
  let ?m2 = "m\<lparr>sms := [a', b'], machine_flags := ?fl'\<rparr>"
  have fifo: "tx_fifo (?c k s) = tx_fifo s" "rx_fifo (?c k s) = rx_fifo s" for k s
    by (simp_all add: command_sm_def)
  have flow: "fifo_flow a a'" "fifo_flow b b'"
    using oa ob fifo by (simp_all add: edge_ok_def fifo_flow_def)
  have inv': "sm_inv a'" "sm_inv b'" using oa ob by (simp_all add: edge_ok_def)
  then have fok: "\<forall>s \<in> set (sms ?m2). fifo_ok (tx_fifo s) \<and> fifo_ok (rx_fifo s)"
    by (simp add: sm_inv_def sm_regs_def)
  have "\<exists>m3 acc. foldl_r (write_tx_edge (map (\<lambda>s. length (tx_fifo s) < 8) (sms m))) (?m2, []) (tx_writes e) =
      Inr (m3, acc) \<and> touched ?m2 m3 \<and> (\<forall>k < 2. rx_fifo (sms m3 ! k) = rx_fifo (sms ?m2 ! k))"
  proof (rule write_tx_edges_ok [OF _ fok keys cc(7)])
    show "length (tx_fifo (sms ?m2 ! nat k)) < 8"
      if "(k, w) \<in> set (tx_writes e)" "map (\<lambda>s. length (tx_fifo s) < 8) (sms m) ! nat k" for k w
      using cc(7) [OF that(1)] that(2) flow by (auto simp: m fifo_flow_def)
  qed simp_all
  then obtain m3 acc where w3: "foldl_r (write_tx_edge (map (\<lambda>s. length (tx_fifo s) < 8) (sms m))) (?m2, [])
      (tx_writes e) = Inr (m3, acc)" and t3: "touched ?m2 m3"
    and rx3: "\<forall>k < 2. rx_fifo (sms m3 ! k) = rx_fifo (sms ?m2 ! k)" by blast
  note tf = touched_fifos [OF t3]
  have "\<exists>m4 acc'. foldl_r (read_rx_edge (map (\<lambda>s. rx_fifo s \<noteq> []) (sms m))) (m3, []) (rx_reads e) =
      Inr (m4, acc') \<and> touched m3 m4"
  proof (rule read_rx_edges_ok [OF _ tf(2) cc(5) cc(6)])
    show "length (sms m3) = 2" using tf(1) by simp
    show "rx_fifo (sms m3 ! nat k) \<noteq> []"
      if "k \<in> set (rx_reads e)" "map (\<lambda>s. rx_fifo s \<noteq> []) (sms m) ! nat k" for k
      using cc(6) [OF that(1)] that(2) flow rx3 by (auto simp: m fifo_flow_def)
  qed
  then obtain m4 acc' where r4: "foldl_r (read_rx_edge (map (\<lambda>s. rx_fifo s \<noteq> []) (sms m))) (m3, [])
      (rx_reads e) = Inr (m4, acc')" and t4: "touched m3 m4" by blast
  from touched_trans [OF t3 t4] obtain ss where "m4 = ?m2\<lparr>sms := ss\<rparr>"
    and ss: "list_all2 fifo_touch [a', b'] ss" by (auto simp: touched_def)
  then have m4: "m4 = m\<lparr>sms := ss, machine_flags := ?fl'\<rparr>" by (intro machine.equality) simp_all
  from ss obtain a2 b2 where ss2: "ss = [a2, b2]" and ta: "fifo_touch a' a2" and tb: "fifo_touch b' b2"
    by (auto simp: list_all2_Cons1)
  let ?m' = "m4\<lparr>pclk_edges := pclk_edges m4 + 1\<rparr>"
  let ?res = "\<lparr>committed = [da, db], tx_write_accepted = acc, rx_read_values = acc'\<rparr>"
  have st: "step m e = Inr (?m', ?res)"
    unfolding step_def Let_def
    by (simp only: v ap loop w3 r4 bind_r_simps prod.case)
  have frame: "sm_frame s s2" if "sm_frame s (?c k s)" "edge_ok (?c k s) (s1, x)" "fifo_touch s1 s2"
      "x = (y, z, u)" for s k s1 x s2 y z u
    using that sm_inv_fifo_touch [OF _ that(3)] by (auto simp: sm_frame_def edge_ok_def fifo_touch_def)
  have "list_all2 sm_frame (sms m) ss"
    using frame [OF fa oa ta] frame [OF fb ob tb] by (simp add: m ss2)
  moreover have "bits_of ?fl' \<subseteq> {..<4}"
    using inv cc(4) oa ob by (auto simp: machine_inv_def edge_ok_def bits_of_ops)
  ultimately have "machine_inv (m\<lparr>sms := ss, machine_flags := ?fl', pin_inputs := ?p,
      pclk_edges := pclk_edges m4 + 1\<rparr>)"
    by (rule machine_inv_frame [OF inv])
  then have "machine_inv ?m'" by (simp add: m4)
  moreover have "edge_effect m ps rs ds k (sms ?m' ! k) (committed ?res ! k)" if "k < 2" for k
    using that ea eb ta tb by (auto simp: edge_effect_def m m4 ss2 less_2_cases_iff)
  ultimately show ?thesis
    using st by (intro exI [of _ ?m'] exI [of _ ?res]) (simp add: m4 ss2)
qed

end
