(* ===== verification/Pio_Safety.thy ===== *)
theory Pio_Safety
  imports Pio_Machine
begin

text \<open>
  Reachable PIO-lite machines and the properties of every run: register widths, exclusive pin
  drive, the total clock edge, atomic ticks, sticky faults, the published instruction memory, and
  the faults that a loaded program can raise.
\<close>

unbundle bit_operations_syntax

section \<open>Reachable machines\<close>

text \<open>Every public operation of \<open>Machine\<close>; the pins are driven from outside. The keys of the
  dictionary \<open>tx_writes\<close> are distinct.\<close>

inductive machine_step :: "machine \<Rightarrow> machine \<Rightarrow> bool" where
  do_step: "step m e = Inr (m', res) \<Longrightarrow> distinct (map fst (tx_writes e)) \<Longrightarrow> machine_step m m'"
| do_pins: "machine_step m (m\<lparr>pin_inputs := v\<rparr>)"
| do_publish: "publish m al = Inr m' \<Longrightarrow> machine_step m m'"
| do_unpublish: "unpublish m al = Inr m' \<Longrightarrow> machine_step m m'"
| do_invalidate: "invalidate_imem m = Inr m' \<Longrightarrow> machine_step m m'"
| do_write_tx: "write_tx m k w = Inr m' \<Longrightarrow> machine_step m m'"
| do_read_rx: "read_rx m k = Inr (w, m') \<Longrightarrow> machine_step m m'"
| do_start: "start m sel = Inr m' \<Longrightarrow> machine_step m m'"
| do_reset: "sm_reset m sel = Inr m' \<Longrightarrow> machine_step m m'"

inductive_cases machine_stepE: "machine_step m m'"

abbreviation reachable :: "machine \<Rightarrow> bool" where
  "reachable \<equiv> reach (\<lambda>m. \<exists>cs. machine_init cs = Inr m) machine_step"

lemma step_edge_valid:
  assumes "step m e = Inr r"
  obtains ps rs ds where "edge_valid m e ps rs ds"
  using assms by (auto simp: step_def result_simps edge_valid_def)

lemma step_inv:
  assumes "machine_inv m" "step m e = Inr (m', res)" "distinct (map fst (tx_writes e))"
  shows "machine_inv m'"
proof -
  from assms(2) obtain ps rs ds where "edge_valid m e ps rs ds" by (rule step_edge_valid)
  from step_ok [OF assms(1) this assms(3)] assms(2) show ?thesis by auto
qed

lemma pins_inv: "machine_inv m \<Longrightarrow> machine_inv (m\<lparr>pin_inputs := v\<rparr>)"
  by (simp add: machine_inv_def active_inv_def)

interpretation pio_sys: invariant_system "\<lambda>m. \<exists>cs. machine_init cs = Inr m" machine_step machine_inv
  by unfold_locales
    (auto elim!: machine_stepE intro: machine_init_inv step_inv pins_inv publish_inv unpublish_inv
      invalidate_imem_inv write_tx_inv read_rx_inv start_inv sm_reset_inv)

definition published_slots :: "machine \<Rightarrow> nat \<Rightarrow> nat set" where
  "published_slots m k =
     (case map_of (published_allocations m) k of Some al \<Rightarrow> image_slots (image al) | None \<Rightarrow> {})"

lemma published_slots_mem:
  assumes "imem_inv m" "(k, al) \<in> set (published_allocations m)"
  shows "published_slots m k = image_slots (image al)"
  using assms by (auto simp: published_slots_def imem_inv_def)

interpretation pio_store: region_store imem_inv "\<lambda>m. fst ` set (published_allocations m)"
  published_slots "\<lambda>m. bits_of (imem_valid m)" 32
proof unfold_locales
  fix m :: machine and h k :: nat
  assume inv: "imem_inv m"
  note d = imem_invD [OF inv] and o = published_slots_mem [OF inv]
  show "finite (fst ` set (published_allocations m))" by simp
  show "bits_of (imem_valid m) = (\<Union>h \<in> fst ` set (published_allocations m). published_slots m h)"
  proof -
    have "bits_of (imem_valid m) = (\<Union>e \<in> set (published_allocations m). image_slots (image (snd e)))"
      using inv by (simp add: imem_inv_def)
    also have "\<dots> = (\<Union>e \<in> set (published_allocations m). published_slots m (fst e))"
      by (intro SUP_cong refl o [symmetric]) simp
    finally show ?thesis by simp
  qed
  show "published_slots m h \<inter> published_slots m k = {}"
    if "h \<in> fst ` set (published_allocations m)" "k \<in> fst ` set (published_allocations m)" "h \<noteq> k"
    using that d(6) o by force
  show "published_slots m h \<subseteq> {..<32}" if "h \<in> fst ` set (published_allocations m)"
    using that o d(2,3) by (force simp: image_slots_def)
qed

lemma reachable_inv: "reachable m \<Longrightarrow> machine_inv m"
  by (rule pio_sys.reach_inv)

lemma reachable_sm:
  assumes "reachable m" "k < 2"
  shows "sm_inv (sms m ! k)"
  using reachable_inv [OF assms(1)] assms(2) by (simp add: machine_inv_def)

text \<open>C6: in every reachable machine the registers keep their hardware widths: FIFOs hold at most
  eight 32-bit words, shift registers are 32 bits with counts up to 32, X and Y are 16 bits, the
  flags are four bits, and the program counter of a state machine that is not disabled lies in
  its configured region.\<close>

theorem machine_register_widths:
  assumes "reachable m" "k < 2"
  shows "length (tx_fifo (sms m ! k)) \<le> 8 \<and> length (rx_fifo (sms m ! k)) \<le> 8 \<and>
    set (tx_fifo (sms m ! k)) \<union> set (rx_fifo (sms m ! k)) \<subseteq> {0..4294967295} \<and>
    {isr (sms m ! k), osr (sms m ! k)} \<subseteq> {0..4294967295} \<and>
    {isr_count (sms m ! k), osr_count (sms m ! k)} \<subseteq> {0..32} \<and>
    {x_reg (sms m ! k), y_reg (sms m ! k)} \<subseteq> {0..65535} \<and>
    0 \<le> machine_flags m \<and> machine_flags m \<le> 15 \<and>
    (run_state (sms m ! k) = DISABLED \<or> in_region (config (sms m ! k)) (pc (sms m ! k)))"
proof -
  have s: "sm_inv (sms m ! k)" using assms by (rule reachable_sm)
  have f: "bits_of (machine_flags m) \<subseteq> {..<4}"
    using reachable_inv [OF assms(1)] by (simp add: machine_inv_def)
  have "take_bit 4 (machine_flags m) = machine_flags m"
    using f by (intro bit_eqI) (auto simp: bit_take_bit_iff bits_of_def)
  then have "0 \<le> machine_flags m" "machine_flags m < 16"
    using take_bit_nonnegative [of 4 "machine_flags m"] take_bit_int_less_exp [of 4 "machine_flags m"]
    by simp_all
  with s show ?thesis by (auto simp: sm_inv_def sm_regs_def fifo_ok_def)
qed

text \<open>C7: no reachable machine drives a pin from both state machines, and a state machine only
  drives pins of its authorised output mask.\<close>

theorem pins_driven_exclusively:
  assumes "reachable m"
  shows "output_oe (sms m ! 0) AND output_oe (sms m ! 1) = 0 \<and>
    output_oe (sms m ! 0) AND NOT (cfg_output_mask (config (sms m ! 0))) = 0 \<and>
    output_oe (sms m ! 1) AND NOT (cfg_output_mask (config (sms m ! 1))) = 0"
proof -
  have inv: "machine_inv m" using assms by (rule reachable_inv)
  then obtain a b where m: "sms m = [a, b]" and ab: "sm_inv a" "sm_inv b" by (rule two_machines)
  have sub: "bits_of (output_oe a) \<subseteq> bits_of (cfg_output_mask (config a))"
    "bits_of (output_oe b) \<subseteq> bits_of (cfg_output_mask (config b))"
    using ab by (simp_all add: sm_inv_def sm_regs_def)
  have "output_oe a AND output_oe b = 0"
  proof (cases "run_state a = DISABLED")
    case True
    with ab show ?thesis by (simp add: sm_inv_def)
  next
    case False
    with inv have "bits_of (cfg_output_mask (config a)) \<inter> bits_of (cfg_output_mask (config b)) = {}"
      by (auto simp: machine_inv_def active_inv_def m)
    with sub show ?thesis by (auto simp: and_zero_iff)
  qed
  with sub show ?thesis by (simp add: m and_not_zero_iff)
qed

text \<open>C8: on a reachable machine a clock edge is refused only by its argument checks: whenever
  the masks, lifecycle states, flag masks, indices and words pass, \<open>step\<close> completes, and no
  FIFO overflow or underflow can occur in the middle of the edge.\<close>

theorem step_refused_only_by_checks:
  assumes "reachable m" "distinct (map fst (tx_writes e))"
  shows "(\<exists>m' res. step m e = Inr (m', res)) \<longleftrightarrow> (\<exists>ps rs ds. edge_valid m e ps rs ds)"
proof
  show "\<exists>ps rs ds. edge_valid m e ps rs ds" if "\<exists>m' res. step m e = Inr (m', res)"
    using that by (blast elim: step_edge_valid)
  show "\<exists>m' res. step m e = Inr (m', res)" if "\<exists>ps rs ds. edge_valid m e ps rs ds"
    using that step_ok [OF reachable_inv [OF assms(1)] _ assms(2)] by blast
qed

text \<open>A tick is atomic: a state machine that does not commit an instruction on an edge keeps
  its whole architectural state (program counter, shift registers and counts, X and Y, both FIFOs,
  the FIFO-failed bit and the output value) and contributes no flag change.\<close>

theorem uncommitted_tick_is_atomic:
  assumes "reachable m" "k < 2"
    and "edge_sm (imem m) (imem_valid m) (sms m ! k) flgs pins = Inr (s', set_mask, clear_mask, False)"
  shows "arch_state s' = arch_state (sms m ! k) \<and> set_mask = 0 \<and> clear_mask = 0"
  using edge_sm_ok [OF reachable_sm [OF assms(1,2)], of "imem m" "imem_valid m" flgs pins] assms(3)
  by (auto simp: edge_ok_def)

lemma command_sm_closing:
  assumes "command_checks m e ps rs ds = Inr u" "run_state (sms m ! k) = CLOSING"
  shows "command_sm ps rs ds k (sms m ! k) = sms m ! k"
  using assms(2) command_checks_facts(8-10) [OF assms(1), of k] by (auto simp: command_sm_def)

lemma step_closing:
  assumes inv: "machine_inv m" and st: "step m e = Inr (m', res)" and keys: "distinct (map fst (tx_writes e))"
    and k: "k < 2" and cl: "run_state (sms m ! k) = CLOSING"
  shows "fifo_touch (sms m ! k) (sms m' ! k)"
proof -
  from st obtain ps rs ds where ev: "edge_valid m e ps rs ds" by (rule step_edge_valid)
  from step_ok [OF inv ev keys] st k have "edge_effect m ps rs ds k (sms m' ! k) (committed res ! k)" by auto
  moreover have "command_sm ps rs ds k (sms m ! k) = sms m ! k"
    using ev cl by (intro command_sm_closing) (auto simp: edge_valid_def)
  ultimately show ?thesis using cl by (auto simp: edge_effect_def edge_sm_def)
qed

definition still_faulted :: "sm \<Rightarrow> sm \<Rightarrow> bool" where
  "still_faulted s s' \<longleftrightarrow>
     run_state s' = CLOSING \<and> fault s' = fault s \<and> fault_pc s' = fault_pc s \<and> output_oe s' = 0"

lemma still_faulted_touch:
  assumes "sm_inv s" "run_state s = CLOSING" "fifo_touch s s'"
  shows "still_faulted s s'"
  using assms by (auto simp: still_faulted_def fifo_touch_def sm_inv_def)

lemma update_sm_fifo:
  assumes "length (sms m) = 2" "j < 2" "k < 2"
    and "\<And>s. run_state (f s) = run_state s \<and> fault (f s) = fault s \<and> fault_pc (f s) = fault_pc s
      \<and> output_oe (f s) = output_oe s"
    and "sm_inv (sms m ! k)" "run_state (sms m ! k) = CLOSING"
  shows "still_faulted (sms m ! k) (sms (update_sm m j f) ! k)"
  using assms by (auto simp: still_faulted_def update_sm_def nth_list_update sm_inv_def)

lemma start_keeps_closing:
  assumes "start m sel = Inr m'" "machine_inv m" "k < 2" "run_state (sms m ! k) = CLOSING"
  shows "sms m' ! k = sms m ! k"
proof -
  from assms(2) obtain a b where m: "sms m = [a, b]" by (rule two_machines)
  from assms(1) obtain l where l: "validate_mask sel = Inr l" and "l = [] \<Longrightarrow> m' = m"
    and run: "l \<noteq> [] \<Longrightarrow> (\<forall>j \<in> set l. start_checks m j = Inr ()) \<and>
      m' = fold (\<lambda>index m. update_sm m index start_sm) l m"
    by (auto simp: start_def result_simps split: if_splits)
  moreover have "k \<notin> set l" if "l \<noteq> []"
    using run [OF that] start_checks_facts(1) [of m k] assms(4) by auto
  ultimately show ?thesis
    using fold_update_sm [OF validate_mask_cases [OF l] m] assms(3)
    by (cases "l = []") (auto simp: m less_2_cases_iff)
qed

text \<open>A fault is sticky: from a faulted (CLOSING) state machine every public operation other
  than \<open>sm_reset\<close> leaves it CLOSING with the same fault code and fault program counter and with
  no pin driven.\<close>

theorem fault_is_sticky:
  assumes "reachable m" "machine_step m m'" "k < 2" "run_state (sms m ! k) = CLOSING"
  shows "still_faulted (sms m ! k) (sms m' ! k) \<or> (\<exists>sel. sm_reset m sel = Inr m')"
proof -
  have inv: "machine_inv m" using assms(1) by (rule reachable_inv)
  then have len: "length (sms m) = 2" by (simp add: machine_inv_def)
  have s: "sm_inv (sms m ! k)" using assms(1,3) by (rule reachable_sm)
  then have self: "still_faulted (sms m ! k) (sms m ! k)"
    using assms(4) by (simp add: still_faulted_def sm_inv_def)
  have "sms m ! k \<in> set (sms m)" using len assms(3) by simp
  then have no: "require_disabled m \<noteq> Inr ()" using all_disabled assms(4) by fastforce
  from assms(2) show ?thesis
  proof cases
    case (do_step e res)
    then show ?thesis
      using still_faulted_touch [OF s assms(4) step_closing [OF inv _ _ assms(3,4)]] by blast
  next
    case (do_write_tx j w)
    then show ?thesis
      using update_sm_fifo [OF len _ assms(3) _ s assms(4)]
      by (auto simp: write_tx_def result_simps split: if_splits)
  next
    case (do_read_rx j w)
    then show ?thesis
      using update_sm_fifo [OF len _ assms(3) _ s assms(4)]
      by (auto simp: read_rx_def result_simps split: if_splits)
  next
    case (do_start sel)
    then show ?thesis using start_keeps_closing [OF _ inv assms(3,4)] self by simp
  qed (use no self in \<open>auto simp: publish_def unpublish_def invalidate_imem_def result_simps\<close>)
qed

text \<open>C9: the instruction memory of a reachable machine is the disjoint union of the published
  images within 32 slots: every slot of a published image reads back as that image's word, no
  slot belongs to two images, and a slot of no image reads as zero.\<close>

theorem imem_holds_published_images:
  assumes "reachable m"
  shows "(\<forall>k al j. (k, al) \<in> set (published_allocations m) \<and> j < length (rel_words (image al)) \<longrightarrow>
      read_imem m (rel_base (image al) + int j) = Inr (rel_words (image al) ! j)) \<and>
    (\<forall>h k n. h \<in> fst ` set (published_allocations m) \<and> k \<in> fst ` set (published_allocations m) \<and>
      n \<in> published_slots m h \<and> n \<in> published_slots m k \<longrightarrow> h = k) \<and>
    (\<Sum>h \<in> fst ` set (published_allocations m). card (published_slots m h)) \<le> 32 \<and>
    (\<forall>n. 0 \<le> n \<and> n < 32 \<and> (\<forall>h \<in> fst ` set (published_allocations m). nat n \<notin> published_slots m h) \<longrightarrow>
      read_imem m n = Inr 0)"
proof (intro conjI allI impI)
  have inv: "imem_inv m" using reachable_inv [OF assms] by (simp add: machine_inv_def)
  note d = imem_invD [OF inv]
  show "read_imem m (rel_base (image al) + int j) = Inr (rel_words (image al) ! j)"
    if "(k, al) \<in> set (published_allocations m) \<and> j < length (rel_words (image al))" for k al j
  proof -
    let ?n = "nat (rel_base (image al)) + j"
    have mem: "(k, al) \<in> set (published_allocations m)" and j: "j < length (rel_words (image al))"
      using that by simp_all
    have "?n \<in> bits_of (imem_valid m)" using d(7) [OF mem] j by (auto simp: image_slots_def)
    moreover have "nat (rel_base (image al) + int j) = ?n" using d(2) [OF mem] by simp
    ultimately show ?thesis
      using d(2,3,5) [OF mem] j by (simp add: read_imem_def and_bit_zero_iff)
  qed
  show "h = k" if "h \<in> fst ` set (published_allocations m) \<and> k \<in> fst ` set (published_allocations m) \<and>
      n \<in> published_slots m h \<and> n \<in> published_slots m k" for h k n
    using pio_store.owner_unique [OF inv] that by blast
  show "(\<Sum>h \<in> fst ` set (published_allocations m). card (published_slots m h)) \<le> 32"
    using inv by (rule pio_store.capacity_bound)
  show "read_imem m n = Inr 0"
    if "0 \<le> n \<and> n < 32 \<and> (\<forall>h \<in> fst ` set (published_allocations m). nat n \<notin> published_slots m h)" for n
    using that pio_store.used_eq [OF inv] by (auto simp: read_imem_def and_bit_zero_iff)
qed

section \<open>Loaded programs\<close>

text \<open>What the resources of a validated program cover.\<close>

lemma reference_step_mono:
  assumes "reference_step t (c, fl) i = Inr (c', fl')"
  shows "bits_of c \<subseteq> bits_of c'"
  using assms
  by (auto simp: reference_step_def Let_def bits_of_ops split: if_splits option.splits)

lemma references_mono:
  assumes "foldl_r (reference_step t) (c, fl) is = Inr (c', fl')"
  shows "bits_of c \<subseteq> bits_of c'"
  using assms
proof (induction "is" arbitrary: c fl)
  case (Cons i "is")
  then obtain c1 f1 where s: "reference_step t (c, fl) i = Inr (c1, f1)"
    and r: "foldl_r (reference_step t) (c1, f1) is = Inr (c', fl')"
    by (auto simp: result_simps)
  show ?case using reference_step_mono [OF s] Cons.IH [OF r] by blast
qed simp

lemma references_cover:
  assumes "foldl_r (reference_step t) (c, fl) is = Inr (c', fl')" "i \<in> set is"
  shows "opcode i = WAIT_OP \<Longrightarrow> operand i AND 128 = 0 \<Longrightarrow> nat (shr (operand i) 1 AND 31) \<in> bits_of c'"
    and "opcode i = BRANCH_OP \<Longrightarrow> shr (operand i) 5 = BR_TEST_PIN_HIGH \<Longrightarrow>
      \<exists>p. test_spec_pin t = Some p \<and> nat p \<in> bits_of c'"
proof -
  from assms(2) obtain xs ys where "is": "is = xs @ i # ys" by (meson split_list)
  with assms(1) obtain c1 f1 c2 f2 where s: "reference_step t (c1, f1) i = Inr (c2, f2)"
    and r: "foldl_r (reference_step t) (c2, f2) ys = Inr (c', fl')"
    by (auto simp: foldl_r_append result_simps)
  note m = references_mono [OF r]
  show "nat (shr (operand i) 1 AND 31) \<in> bits_of c'"
    if "opcode i = WAIT_OP" "operand i AND 128 = 0"
    using s that m by (auto simp: reference_step_def Let_def bits_of_ops bits_of_exp)
  show "\<exists>p. test_spec_pin t = Some p \<and> nat p \<in> bits_of c'"
    if "opcode i = BRANCH_OP" "shr (operand i) 5 = BR_TEST_PIN_HIGH"
    using s that m by (auto simp: reference_step_def Let_def bits_of_ops bits_of_exp split: option.splits)
qed

text \<open>A state machine configured from an allocation with the program's own masks.\<close>

definition own_masks :: "allocation_overrides \<Rightarrow> bool" where
  "own_masks ov \<longleftrightarrow> ov_claim_mask ov = None \<and> ov_output_mask ov = None \<and> ov_test_pin_enable ov = None"

definition configured :: "sm \<Rightarrow> allocation \<Rightarrow> bool" where
  "configured s al \<longleftrightarrow> (\<exists>ov. own_masks ov \<and> config s = from_allocation al ov)"

lemma configured_fields:
  assumes "configured s al"
  shows "cfg_base (config s) = rel_base (image al)"
    and "cfg_length (config s) = int (length (rel_words (image al)))"
    and "cfg_wrap_top (config s) = rel_wrap_top (image al)"
    and "cfg_wrap_bottom (config s) = rel_wrap_bottom (image al)"
    and "cfg_in_window (config s) = in_window (rel_program (image al))"
    and "cfg_out_window (config s) = out_window (rel_program (image al))"
    and "cfg_set_window (config s) = set_window (rel_program (image al))"
    and "cfg_claim_mask (config s) = claim_mask (rel_program (image al))"
    and "cfg_output_mask (config s) = window_mask (out_window (rel_program (image al)))
      OR window_mask (set_window (rel_program (image al)))"
    and "test_pin_enable (config s) = test_pin_is_used (instructions (rel_program (image al)))"
    and "test_pin (config s) = test_spec_pin (test (rel_program (image al)))"
  using assms by (auto simp: configured_def own_masks_def from_allocation_def Let_def)

lemma program_claims:
  assumes "program_validate p = Inr u"
  shows "bits_of (window_mask (in_window p)) \<subseteq> bits_of (claim_mask p)"
    and "bits_of (window_mask (out_window p)) \<subseteq> bits_of (claim_mask p)"
    and "bits_of (window_mask (set_window p)) \<subseteq> bits_of (claim_mask p)"
    and "\<And>i. i \<in> set (instructions p) \<Longrightarrow> opcode i = WAIT_OP \<Longrightarrow> operand i AND 128 = 0 \<Longrightarrow>
      nat (shr (operand i) 1 AND 31) \<in> bits_of (claim_mask p)"
    and "\<And>i. i \<in> set (instructions p) \<Longrightarrow> opcode i = BRANCH_OP \<Longrightarrow> shr (operand i) 5 = BR_TEST_PIN_HIGH \<Longrightarrow>
      \<exists>q. test_spec_pin (test p) = Some q \<and> nat q \<in> bits_of (claim_mask p)"
proof -
  note r = program_validate_facts(16) [OF assms, unfolded referenced_resources_def]
  show "bits_of (window_mask (in_window p)) \<subseteq> bits_of (claim_mask p)"
    "bits_of (window_mask (out_window p)) \<subseteq> bits_of (claim_mask p)"
    "bits_of (window_mask (set_window p)) \<subseteq> bits_of (claim_mask p)"
    using references_mono [OF r] by (auto simp: bits_of_ops)
  show "nat (shr (operand i) 1 AND 31) \<in> bits_of (claim_mask p)"
    if "i \<in> set (instructions p)" "opcode i = WAIT_OP" "operand i AND 128 = 0" for i
    using references_cover(1) [OF r that] .
  show "\<exists>q. test_spec_pin (test p) = Some q \<and> nat q \<in> bits_of (claim_mask p)"
    if "i \<in> set (instructions p)" "opcode i = BRANCH_OP" "shr (operand i) 5 = BR_TEST_PIN_HIGH" for i
    using references_cover(2) [OF r that] .
qed

lemma configured_outputs:
  assumes c: "configured s al" and v: "program_validate (rel_program (image al)) = Inr u"
  shows "require_output s (out_window (rel_program (image al))) = Inr ()"
    and "require_output s (set_window (rel_program (image al))) = Inr ()"
  using program_claims(2,3) [OF v]
  unfolding require_output_def raise_if_Inr configured_fields [OF c] and_not_zero_iff bits_of_ops
  by auto

text \<open>The instruction a state machine fetches from a published image.\<close>

lemma fetched_instruction:
  assumes inv: "imem_inv m" and ok: "image_ok (image al)" and pub: "(h, al) \<in> set (published_allocations m)"
    and n: "rel_base (image al) \<le> n" "n < rel_base (image al) + int (length (rel_words (image al)))"
  obtains i where "i \<in> set (instructions (rel_program (image al)))"
    "instruction_decode (imem m ! nat n) = Inr (shift_branch (rel_base (image al)) i)"
    "nat n \<in> bits_of (imem_valid m)"
    "usage_checks (rel_program (image al)) (n - rel_base (image al), i) = Inr ()"
proof -
  note d = imem_invD [OF inv pub] and f = image_ok_facts [OF ok]
  let ?j = "nat (n - rel_base (image al))"
  have j: "?j < length (rel_words (image al))" "nat n = nat (rel_base (image al)) + ?j"
    "n - rel_base (image al) = int ?j"
    using n d(2) by linarith+
  show thesis
  proof (rule that)
    show "instructions (rel_program (image al)) ! ?j \<in> set (instructions (rel_program (image al)))"
      using j(1) f(4) by simp
    show "instruction_decode (imem m ! nat n) =
        Inr (shift_branch (rel_base (image al)) (instructions (rel_program (image al)) ! ?j))"
      using f(8) j d(5) [OF j(1)] by (simp add: list_all2_conv_all_nth)
    show "nat n \<in> bits_of (imem_valid m)"
      using d(7) j by (auto simp: image_slots_def)
    show "usage_checks (rel_program (image al))
        (n - rel_base (image al), instructions (rel_program (image al)) ! ?j) = Inr ()"
      using program_validate_facts(15) [OF f(1)] j f(4) by metis
  qed
qed

text \<open>Executing an instruction of the program can only raise a shift fault.\<close>

lemma loaded_apply_fault:
  assumes c: "configured s al" and v: "program_validate (rel_program (image al)) = Inr u"
    and i: "i \<in> set (instructions (rel_program (image al)))"
    and us: "usage_checks (rel_program (image al)) (offset, i) = Inr ()"
    and ap: "apply_instruction s (shift_branch base i) flgs pins = (s', Inl (ExecFault code))"
  shows "code = SHIFT_BOUNDS"
proof -
  let ?p = "rel_program (image al)"
  note cf = configured_fields [OF c] and ro = configured_outputs [OF c v]
  have iv: "instruction_validate i = Inr ()" using program_validate_facts(3) [OF v i] .
  note r = instruction_validate_ranges [OF iv]
  have nf: "no_flags q = (s', Inl (ExecFault code)) \<Longrightarrow> q = (s', Inl (ExecFault code))" for q
    by (auto simp: no_flags_def split: sum.splits prod.splits)
  note u = us [unfolded usage_checks_def prod.case Let_def first_error_Inr]
  have "opcode i \<in> {1, 2} \<or> opcode i = 4 \<or> opcode i = 5 \<or> opcode i = 7 \<or> opcode i = 8 \<or>
      opcode i \<in> {0, 3, 6, 9, 10}"
    using r(1,2) unfolding insert_iff empty_iff by presburger
  then consider "opcode i \<in> {1, 2}" | "opcode i = 4" | "opcode i = 5" | "opcode i = 7" | "opcode i = 8"
    | "opcode i \<in> {0, 3, 6, 9, 10}" by blast
  then show ?thesis
  proof cases
    case 1
    then have "win_width (set_window ?p) \<noteq> 0" using u by (auto simp: result_simps)
    with 1 ap ro show ?thesis
      by (auto simp: apply_instruction_def apply_set_def Let_def cf split: if_splits)
  next
    case 2
    then have a: "apply_in s (operand i) pins = (s', Inl (ExecFault code))"
      using ap nf by (simp add: apply_instruction_def)
    have "in_value s (shr (operand i) 5) (count_of (operand i)) pins \<noteq> Inl e" for e
    proof -
      have "count_of (operand i) \<le> win_width (in_window ?p)" if "shr (operand i) 5 = 0"
        using u 2 that by (auto simp: result_simps count_of_def)
      with program_claims(1) [OF v] show ?thesis
        by (auto simp: in_value_def Let_def cf and_not_zero_iff)
    qed
    moreover have "normalized_isr q = Inl e \<Longrightarrow> e = ExecFault SHIFT_BOUNDS" for q e
      by (simp add: normalized_isr_fault)
    ultimately show ?thesis
      using a unfolding apply_in_def Let_def by (fastforce split: if_splits sum.splits)
  next
    case 3
    then have a: "apply_out s (operand i) = (s', Inl (ExecFault code))"
      using ap nf by (simp add: apply_instruction_def)
    have w: "count_of (operand i) \<le> win_width (out_window ?p)" if "shr (operand i) 5 \<in> {0, 1}"
      using u 3 that by (auto simp: result_simps count_of_def)
    have "out_destination q (shr (operand i) 5) (count_of (operand i)) ch \<noteq> (s', Inl (ExecFault code))"
      if "config q = config s" for q ch
    proof -
      have "require_output q (cfg_out_window (config q)) = Inr ()"
        using ro(1) that by (simp add: require_output_def cf)
      with w that show ?thesis by (auto simp: out_destination_def Let_def cf split: if_splits)
    qed
    note dest = this
    obtain s1 e1 where rf: "out_refill s (count_of (operand i)) = (s1, e1)"
      by (cases "out_refill s (count_of (operand i))")
    obtain s2 ch where sh: "out_shift s1 (count_of (operand i)) = (s2, ch)"
      by (cases "out_shift s1 (count_of (operand i))")
    have "config s1 = config s"
      using rf by (auto simp: out_refill_def split: if_splits sum.splits)
    moreover have "config s2 = config s1"
      using sh by (auto simp: out_shift_def Let_def split: if_splits)
    ultimately have "e1 = Inl (ExecFault code)"
      using a rf sh dest [of s2 ch] by (cases e1) (auto simp: apply_out_def Let_def)
    then show ?thesis
      using rf by (auto simp: out_refill_def split: if_splits sum.splits)
  next
    case 4
    then show ?thesis
      using ap nf by (auto simp: apply_instruction_def apply_fifo_def Let_def normalized_isr_fault
          dest!: nf split: if_splits sum.splits)
  next
    case 5
    have "nat (shr (operand i) 1 AND 31) \<in> bits_of (claim_mask ?p)" if "shr (operand i) 7 AND 1 = 0"
    proof (rule program_claims(4) [OF v i 5])
      have "operand i div 128 = 0" using that r by (simp add: bit_arith)
      then have "operand i < 2 ^ 7" using r by simp
      then have "bits_of (operand i) \<subseteq> {..<7}" using r bits_of_lt_exp by blast
      then have "7 \<notin> bits_of (operand i)" by auto
      then show "operand i AND 128 = 0" using and_bit_zero_iff [of "operand i" 7] by simp
    qed
    with 5 ap show ?thesis
      by (auto simp: apply_instruction_def apply_wait_def Let_def cf and_bit_zero_iff split: if_splits)
  next
    case 6
    then show ?thesis
      using ap by (auto simp: apply_instruction_def apply_move_def Let_def split: if_splits)
  qed
qed

lemma branch_taken_total:
  "condition \<in> {0, 1, 2, 3, 4, 6, 7} \<Longrightarrow> \<exists>b. branch_taken s condition flgs pins = Inr b"
  by (auto simp: branch_taken_def)

lemma octal_digit: "0 \<le> (c::int) \<Longrightarrow> c \<le> 7 \<Longrightarrow> c \<in> {0, 1, 2, 3, 4, 5, 6, 7}"
  unfolding insert_iff empty_iff by presburger

lemma loaded_branch_taken:
  assumes c: "configured s al" and v: "program_validate (rel_program (image al)) = Inr u"
    and i: "i \<in> set (instructions (rel_program (image al)))" and br: "opcode i = BRANCH_OP"
  shows "\<exists>b. branch_taken s (operand i div 32) flgs pins = Inr b"
proof -
  note cf = configured_fields [OF c]
  note r = instruction_validate_ranges [OF program_validate_facts(3) [OF v i]]
  have "0 \<le> operand i div 32" "operand i div 32 \<le> 7" using r by linarith+
  then have cond: "operand i div 32 \<in> {0, 1, 2, 3, 4, 5, 6, 7}"
    by (rule octal_digit)
  show ?thesis
  proof (cases "operand i div 32 = 5")
    case True
    then have "shr (operand i) 5 = BR_TEST_PIN_HIGH" by (simp add: bit_arith)
    with i br obtain q where "test_spec_pin (test (rel_program (image al))) = Some q"
      "nat q \<in> bits_of (claim_mask (rel_program (image al)))"
      and "test_pin_is_used (instructions (rel_program (image al)))"
      using program_claims(5) [OF v] by (auto simp: test_pin_is_used_def list_ex_iff)
    with True show ?thesis by (simp add: branch_taken_def cf and_bit_zero_iff)
  next
    case False
    with cond have "operand i div 32 \<in> {0, 1, 2, 3, 4, 6, 7}" by blast
    then show ?thesis by (rule branch_taken_total)
  qed
qed

lemma loaded_successor_fault:
  assumes c: "configured s al" and ok: "image_ok (image al)"
    and i: "i \<in> set (instructions (rel_program (image al)))"
    and us: "usage_checks (rel_program (image al)) (offset, i) = Inr ()"
    and pc: "in_region (config s) (pc s)"
    and su: "successor s (shift_branch (rel_base (image al)) i) flgs pins = Inl code"
  shows "code = PROGRAM_BOUNDS \<and> pc s = rel_base (image al) + int (length (rel_words (image al))) - 1 \<and>
    pc s \<noteq> rel_wrap_top (image al)"
proof -
  let ?p = "rel_program (image al)" and ?b = "rel_base (image al)"
  let ?n = "int (length (rel_words (image al)))"
  note cf = configured_fields [OF c] and f = image_ok_facts [OF ok]
  note pv = program_validate_facts [OF f(1)]
  note r = instruction_validate_ranges [OF pv(3) [OF i]]
  have "fallthrough s = Inl code"
  proof (cases "opcode i = BRANCH_OP")
    case False
    with su show ?thesis by (auto simp: successor_def Let_def split: if_splits)
  next
    case True
    have local_target: "operand i mod 32 < ?n"
      using us True f(4) by (auto simp: usage_checks_def Let_def result_simps bit_arith)
    have "?b + operand i mod 32 \<le> 31" using local_target f(3,4) by linarith
    note sh = branch_operand_shift [OF r(5,6) f(2) this]
    have op: "operand (shift_branch ?b i) = operand i + ?b" using True by (simp add: shift_branch_def)
    have "0 \<le> operand i mod 32" by simp
    then have "in_region (config s) (operand (shift_branch ?b i) AND 31)"
      using sh(2) local_target by (simp add: in_region_def cf op bit_arith)
    moreover obtain taken where "branch_taken s (shr (operand (shift_branch ?b i)) 5) flgs pins = Inr taken"
      using loaded_branch_taken [OF c f(1) i True, of flgs pins] sh(3) by (auto simp: op bit_arith)
    ultimately show ?thesis
      using su True by (auto simp: successor_def Let_def split: if_splits)
  qed
  moreover have "in_region (config s) (rel_wrap_bottom (image al))"
    using pv(6-8) f(4,6) by (simp add: in_region_def cf)
  ultimately show ?thesis
    using pc by (auto simp: fallthrough_def Let_def in_region_def cf split: if_splits)
qed

text \<open>The only faults a loaded program can raise: a shift past its bit counts, or running off the
  end of its image, which needs the last instruction not to be the wrap point.\<close>

definition program_fault :: "allocation \<Rightarrow> sm \<Rightarrow> bool" where
  "program_fault al s \<longleftrightarrow>
     fault s \<in> {FAULT_NONE, SHIFT_BOUNDS} \<or>
     (fault s = PROGRAM_BOUNDS \<and>
      fault_pc s = rel_base (image al) + int (length (rel_words (image al))) - 1 \<and>
      fault_pc s \<noteq> rel_wrap_top (image al))"

lemma loaded_tick:
  assumes inv: "imem_inv m" and ok: "image_ok (image al)" and pub: "(h, al) \<in> set (published_allocations m)"
    and c: "configured s al" and s: "sm_inv s" and run: "run_state s = RUNNING"
    and tk: "execution_tick (imem m) (imem_valid m) s flgs pins = Inr (s', st, cl, d)"
  shows "program_fault al s'"
proof (cases "delay_remaining s = 0")
  case False
  have "fault s = FAULT_NONE" using s run by (auto simp: sm_inv_def)
  with False tk show ?thesis by (auto simp: execution_tick_def program_fault_def)
next
  case True
  note cf = configured_fields [OF c]
  have nofault: "fault s = FAULT_NONE" and cv: "config_validate (config s) = Inr ()" and regs: "sm_regs s"
    and pc: "in_region (config s) (pc s)"
    using s run by (auto simp: sm_inv_def)
  from pc have "rel_base (image al) \<le> pc s" "pc s < rel_base (image al) + int (length (rel_words (image al)))"
    by (simp_all add: in_region_def cf)
  from inv ok pub this obtain i where i: "i \<in> set (instructions (rel_program (image al)))"
    and dec: "instruction_decode (imem m ! nat (pc s)) = Inr (shift_branch (rel_base (image al)) i)"
    and valid: "nat (pc s) \<in> bits_of (imem_valid m)"
    and us: "usage_checks (rel_program (image al)) (pc s - rel_base (image al), i) = Inr ()"
    by (rule fetched_instruction)
  let ?i = "shift_branch (rel_base (image al)) i"
  have ex: "execute_decoded s ?i flgs pins = Inr (s', st, cl, d)"
    using tk True pc valid dec by (simp add: execution_tick_def and_bit_zero_iff)
  note eok = apply_instruction_ok [OF regs cv, of ?i flgs pins]
  note v = image_ok_facts(1) [OF ok]
  from eok show ?thesis
  proof (cases rule: execute_decoded_cases)
    case (commit q st' cl' n h)
    have "fault q = FAULT_NONE" using eok nofault by (simp add: commit(1) exec_ok_def same_control_def)
    with commit(3) ex show ?thesis by (auto simp: program_fault_def retire_def Let_def)
  next
    case (stalled q k)
    then have "s' = record_stall s k" using ex by simp
    with nofault show ?thesis by (simp add: program_fault_def record_stall_def Let_def)
  next
    case (faulted q code)
    have s': "fault s' = code" "fault_pc s' = pc s"
      using ex faulted(3) nofault by (auto simp: raise_fault_def Let_def)
    from faulted(2) show ?thesis
    proof
      assume "apply_instruction s ?i flgs pins = (q, Inl (ExecFault code))"
      from loaded_apply_fault [OF c v i us this] s' show ?thesis by (simp add: program_fault_def)
    next
      assume a: "(\<exists>r. apply_instruction s ?i flgs pins = (q, r)) \<and> successor q ?i flgs pins = Inl code"
      then have sc: "same_control s q" using eok by (auto simp: exec_ok_def)
      then have "configured q al" "in_region (config q) (pc q)" "pc q = pc s"
        using c pc by (simp_all add: configured_def same_control_def)
      with loaded_successor_fault [OF _ ok i us, of q flgs pins code] a s' show ?thesis
        by (simp add: program_fault_def)
    qed
  qed
qed

text \<open>A machine that hosts a loaded program on state machine \<open>k\<close>.\<close>

definition hosts :: "machine \<Rightarrow> nat \<Rightarrow> allocation \<Rightarrow> bool" where
  "hosts m k al \<longleftrightarrow>
     k < 2 \<and> image_ok (image al) \<and> configured (sms m ! k) al \<and> al \<in> snd ` set (published_allocations m)"

definition clock_edge :: "machine \<Rightarrow> machine \<Rightarrow> bool" where
  "clock_edge m m' \<longleftrightarrow> (\<exists>e res. step m e = Inr (m', res) \<and> distinct (map fst (tx_writes e)))"

lemma loaded_edge:
  assumes inv: "machine_inv m" and h: "hosts m k al" and pf: "program_fault al (sms m ! k)"
    and ce: "clock_edge m m'"
  shows "machine_inv m' \<and> hosts m' k al \<and> program_fault al (sms m' ! k)"
proof -
  from ce obtain e res where st: "step m e = Inr (m', res)" and keys: "distinct (map fst (tx_writes e))"
    by (auto simp: clock_edge_def)
  from st obtain ps rs ds where ev: "edge_valid m e ps rs ds" by (rule step_edge_valid)
  have k: "k < 2" and ok: "image_ok (image al)" and c: "configured (sms m ! k) al"
    and pub: "al \<in> snd ` set (published_allocations m)" using h by (simp_all add: hosts_def)
  then obtain i where pub': "(i, al) \<in> set (published_allocations m)" by auto
  from step_ok [OF inv ev keys] st k have inv': "machine_inv m'"
    and eff: "edge_effect m ps rs ds k (sms m' ! k) (committed res ! k)"
    and pubs: "published_allocations m' = published_allocations m" by auto
  let ?s = "command_sm ps rs ds k (sms m ! k)"
  from eff obtain s st cl where ed: "edge_sm (imem m) (imem_valid m) ?s (machine_flags m) (pin_inputs m)
      = Inr (s, st, cl, committed res ! k)" and t: "fifo_touch s (sms m' ! k)"
    by (auto simp: edge_effect_def)
  have si: "sm_inv (sms m ! k)" using inv k by (simp add: machine_inv_def)
  have fr: "sm_frame (sms m ! k) ?s"
    using ev si by (intro command_sm_frame [of m e]) (simp_all add: edge_valid_def)
  have cs: "configured ?s al" "sm_inv ?s" "program_fault al ?s"
    using c fr pf by (simp_all add: configured_def sm_frame_def program_fault_def command_sm_def)
  have "edge_ok ?s (s, st, cl, committed res ! k)"
    using edge_sm_ok [OF cs(2), of "imem m" "imem_valid m" "machine_flags m" "pin_inputs m"] ed by auto
  then have "config s = config ?s" by (simp add: edge_ok_def)
  moreover have "config (sms m' ! k) = config s" "fault (sms m' ! k) = fault s"
    "fault_pc (sms m' ! k) = fault_pc s" using t by (auto simp: fifo_touch_def)
  moreover have "program_fault al s"
  proof (cases "run_state ?s = RUNNING \<and> divider_remaining ?s - 1 = 0")
    case False
    then have "fault s = fault ?s \<and> fault_pc s = fault_pc ?s"
      using ed by (auto simp: edge_sm_def Let_def split: if_splits)
    with cs(3) show ?thesis by (simp add: program_fault_def)
  next
    case True
    let ?t = "?s\<lparr>divider_remaining := divider_remaining ?s - 1,
      divider_remaining := cfg_divider (config ?s), tick_count := saturating_increment (tick_count ?s)\<rparr>"
    have "sm_inv ?t"
      using cs(2) True config_validate_facts(7) [of "config ?s"] by (auto simp: sm_inv_def sm_regs_def)
    moreover have "configured ?t al" using cs(1) by (simp add: configured_def)
    moreover have "execution_tick (imem m) (imem_valid m) ?t (machine_flags m) (pin_inputs m) =
        Inr (s, st, cl, committed res ! k)"
      using ed True by (simp add: edge_sm_def Let_def)
    moreover have "imem_inv m" using inv by (simp add: machine_inv_def)
    ultimately show ?thesis using True by (intro loaded_tick [OF _ ok pub']) simp_all
  qed
  ultimately show ?thesis
    using inv' k ok pubs pub cs(1) by (simp add: hosts_def configured_def program_fault_def)
qed

lemma loaded_run:
  assumes "clock_edge\<^sup>*\<^sup>* m m'" "machine_inv m" "hosts m k al" "program_fault al (sms m ! k)"
  shows "machine_inv m' \<and> hosts m' k al \<and> program_fault al (sms m' ! k)"
  using assms by (induction rule: rtranclp_induct) (auto dest: loaded_edge)

text \<open>C10: a program taken from the allocator, published, and configured with its own masks never
  raises an illegal-instruction, invalid-fetch or pin-authorisation fault, whatever the pins,
  flags, FIFO traffic and lifecycle commands of the clock edges: its only faults are a shift
  beyond its bit counts and running past the last instruction of its image when that is not the
  wrap point.\<close>

theorem loaded_program_faults:
  assumes "alloc_inv a" "load a p base ident = Inr (al, a')" "reachable m" "k < 2"
    and "config (sms m ! k) = from_allocation al ov" "own_masks ov"
    and "al \<in> snd ` set (published_allocations m)" "fault (sms m ! k) = FAULT_NONE"
    and "clock_edge\<^sup>*\<^sup>* m m'"
  shows "fault (sms m' ! k) \<in> {FAULT_NONE, SHIFT_BOUNDS} \<or>
    (fault (sms m' ! k) = PROGRAM_BOUNDS \<and>
     fault_pc (sms m' ! k) = alloc_base al + int (length (instructions p)) - 1 \<and>
     fault_pc (sms m' ! k) \<noteq> alloc_base al + wrap_top p)"
proof -
  note lm = load_mem [OF assms(1,2)]
  have ok: "image_ok (image al)" using alloc_invD(4) [OF load_inv [OF assms(1,2)] lm(1)] .
  have "hosts m k al" using assms(4-7) ok by (auto simp: hosts_def configured_def)
  moreover have "program_fault al (sms m ! k)" using assms(8) by (simp add: program_fault_def)
  ultimately have pf: "program_fault al (sms m' ! k)"
    using loaded_run [OF assms(9) reachable_inv [OF assms(3)]] by blast
  have "wrap_top (rel_program (image al)) = wrap_top p"
    using lm(2) unfolding program_eq_def by (metis program.select_convs(5) program.surjective program.update_convs(17))
  with pf image_ok_facts(4,7) [OF ok] program_eq_instructions [OF lm(2)] show ?thesis
    by (auto simp: program_fault_def alloc_base_def)
qed

section \<open>The model on concrete programs\<close>

text \<open>A loaded program, published on a machine whose first state machine is configured for it,
  started, and clocked once.\<close>

definition demo_machine :: "program \<Rightarrow> pio_error + (allocation \<times> allocator) \<Rightarrow> model_error + machine" where
  "demo_machine p ld =
     (case ld of
        Inl e \<Rightarrow> Inl (PioError e)
      | Inr (al, a) \<Rightarrow>
          bind_r (machine_init (Some [from_allocation al default_overrides, default_config])) (\<lambda>m.
          bind_r (publish m al) (\<lambda>m1. start m1 1)))"

definition demo :: "program \<Rightarrow> model_error + machine" where
  "demo p = demo_machine p (load allocator_init p None 7)"

text \<open>A program that shifts out of an empty output register.\<close>

definition out_empty :: program where
  "out_empty = ir_tx\<lparr>instructions := [\<lparr>opcode = 5, delay = 0, operand = 129\<rparr>], wrap_top := 0\<rparr>"

lemma ir_tx_demo_runs:
  "case demo ir_tx of Inl _ \<Rightarrow> False
   | Inr m \<Rightarrow> run_state (sms m ! 0) = RUNNING \<and> fault (sms m ! 0) = FAULT_NONE \<and>
       (case step m no_inputs of Inl _ \<Rightarrow> False | Inr (m', res) \<Rightarrow> committed res = [False, False]) \<and>
       (case edge_sm (imem m) (imem_valid m) (sms m ! 0) 0 0 of Inl _ \<Rightarrow> False
        | Inr (s, st, cl, d) \<Rightarrow> \<not> d \<and> stall s = STALL_TX)"
  by code_simp

lemma out_empty_demo_faults:
  "case demo out_empty of Inl _ \<Rightarrow> False
   | Inr m \<Rightarrow> (case step m no_inputs of Inl _ \<Rightarrow> False
       | Inr (m', res) \<Rightarrow> run_state (sms m' ! 0) = CLOSING \<and> fault (sms m' ! 0) = SHIFT_BOUNDS \<and>
       (case step m' no_inputs of Inl _ \<Rightarrow> False | Inr _ \<Rightarrow> True))"
  by code_simp

lemma demo_facts:
  assumes "demo p = Inr m"
  obtains al a where "load allocator_init p None 7 = Inr (al, a)" "reachable m"
    "config (sms m ! 0) = from_allocation al default_overrides"
    "al \<in> snd ` set (published_allocations m)"
proof -
  from assms obtain al a m0 m1 where ld: "load allocator_init p None 7 = Inr (al, a)"
    and m0: "machine_init (Some [from_allocation al default_overrides, default_config]) = Inr m0"
    and m1: "publish m0 al = Inr m1" and st: "start m1 1 = Inr m"
    by (auto simp: demo_def demo_machine_def result_simps split: sum.splits)
  have r0: "reachable m0" using m0 by (intro reach_init) blast
  have r1: "reachable m1" using r0 do_publish [OF m1] by (rule reach_step)
  have r: "reachable m" using r1 do_start [OF st] by (rule reach_step)
  have s1: "sms m1 = sms m0" "al \<in> snd ` set (published_allocations m1)"
    using m0 m1 by (auto simp: machine_init_def publish_def Let_def result_simps split: if_splits)
  have "sms m0 = [new_sm (from_allocation al default_overrides) 0 1, new_sm default_config 0 1]"
    using m0 by (auto simp: machine_init_def Let_def)
  moreover have "m = update_sm m1 0 start_sm"
    using st by (auto simp: start_def validate_mask_def result_simps split: if_splits)
  ultimately have "config (sms m ! 0) = from_allocation al default_overrides"
    "published_allocations m = published_allocations m1"
    using s1 by (simp_all add: update_sm_def start_sm_def new_sm_def Let_def)
  with ld r s1 that show thesis by simp
qed

lemma ir_tx_demo:
  obtains m al a where "demo ir_tx = Inr m" "load allocator_init ir_tx None 7 = Inr (al, a)" "reachable m"
    "config (sms m ! 0) = from_allocation al default_overrides"
    "al \<in> snd ` set (published_allocations m)" "fault (sms m ! 0) = FAULT_NONE"
proof -
  obtain m where m: "demo ir_tx = Inr m" "fault (sms m ! 0) = FAULT_NONE"
    using ir_tx_demo_runs by (auto split: sum.splits)
  from m(1) show thesis by (rule demo_facts) (use m that in blast)
qed

lemma machine_register_widths_witness:
  "\<exists>m. reachable m \<and> run_state (sms m ! 0) = RUNNING \<and> length (tx_fifo (sms m ! 0)) \<le> 8 \<and>
    in_region (config (sms m ! 0)) (pc (sms m ! 0))"
proof -
  obtain m al a where m: "demo ir_tx = Inr m" and r: "reachable m" by (rule ir_tx_demo)
  have "run_state (sms m ! 0) = RUNNING" using ir_tx_demo_runs by (simp add: m)
  with machine_register_widths [OF r, of 0] r show ?thesis by (intro exI [of _ m]) simp
qed

lemma pins_driven_exclusively_witness:
  "\<exists>m. reachable m \<and> run_state (sms m ! 0) = RUNNING \<and> output_oe (sms m ! 0) AND output_oe (sms m ! 1) = 0"
proof -
  obtain m al a where m: "demo ir_tx = Inr m" and r: "reachable m" by (rule ir_tx_demo)
  have "run_state (sms m ! 0) = RUNNING" using ir_tx_demo_runs by (simp add: m)
  with pins_driven_exclusively [OF r] r show ?thesis by blast
qed

lemma step_refused_only_by_checks_witness:
  "\<exists>m. reachable m \<and> (\<exists>ps rs ds. edge_valid m no_inputs ps rs ds) \<and> (\<exists>m' res. step m no_inputs = Inr (m', res))"
proof -
  obtain m al a where m: "demo ir_tx = Inr m" and r: "reachable m" by (rule ir_tx_demo)
  have s: "\<exists>m' res. step m no_inputs = Inr (m', res)"
    using ir_tx_demo_runs by (auto simp: m split: sum.splits)
  moreover have "distinct (map fst (tx_writes no_inputs))" by (simp add: no_inputs_def)
  ultimately show ?thesis using step_refused_only_by_checks [OF r, of no_inputs] r by blast
qed

lemma uncommitted_tick_is_atomic_witness:
  "\<exists>m s. reachable m \<and> edge_sm (imem m) (imem_valid m) (sms m ! 0) 0 0 = Inr (s, 0, 0, False) \<and>
    stall s = STALL_TX \<and> arch_state s = arch_state (sms m ! 0)"
proof -
  obtain m al a where m: "demo ir_tx = Inr m" and r: "reachable m" by (rule ir_tx_demo)
  obtain s st cl where e: "edge_sm (imem m) (imem_valid m) (sms m ! 0) 0 0 = Inr (s, st, cl, False)"
    and k: "stall s = STALL_TX"
    using ir_tx_demo_runs by (auto simp: m split: sum.splits)
  with uncommitted_tick_is_atomic [OF r _ e] r show ?thesis by auto
qed

lemma fault_is_sticky_witness:
  "\<exists>m m'. reachable m \<and> machine_step m m' \<and> run_state (sms m ! 0) = CLOSING \<and> fault (sms m ! 0) = SHIFT_BOUNDS \<and>
    (still_faulted (sms m ! 0) (sms m' ! 0) \<or> (\<exists>sel. sm_reset m sel = Inr m'))"
proof -
  obtain m m1 res1 m2 res2 where m: "demo out_empty = Inr m" and s1: "step m no_inputs = Inr (m1, res1)"
    and f: "run_state (sms m1 ! 0) = CLOSING" "fault (sms m1 ! 0) = SHIFT_BOUNDS"
    and s2: "step m1 no_inputs = Inr (m2, res2)"
    using out_empty_demo_faults by (auto split: sum.splits)
  have d: "distinct (map fst (tx_writes no_inputs))" by (simp add: no_inputs_def)
  have "reachable m" using m by (rule demo_facts)
  then have r: "reachable m1" by (rule reach_step) (rule do_step [OF s1 d])
  have st: "machine_step m1 m2" by (rule do_step [OF s2 d])
  from fault_is_sticky [OF r st _ f(1)] have "still_faulted (sms m1 ! 0) (sms m2 ! 0) \<or> (\<exists>sel. sm_reset m1 sel = Inr m2)" by simp
  with r st f show ?thesis by blast
qed

lemma imem_holds_published_images_witness:
  "\<exists>m al. reachable m \<and> al \<in> snd ` set (published_allocations m) \<and> length (rel_words (image al)) = 10 \<and>
    read_imem m (rel_base (image al) + 9) = Inr (rel_words (image al) ! 9)"
proof -
  obtain m al a where ld: "load allocator_init ir_tx None 7 = Inr (al, a)" and r: "reachable m"
    and al: "al \<in> snd ` set (published_allocations m)" by (rule ir_tx_demo)
  note lm = load_mem [OF alloc_inv_init ld]
  have len: "length (rel_words (image al)) = 10"
    using image_ok_facts(4) [OF alloc_invD(4) [OF load_inv [OF alloc_inv_init ld] lm(1)]]
      program_eq_instructions [OF lm(2)] by simp
  from al obtain k where "(k, al) \<in> set (published_allocations m)" by auto
  then have "read_imem m (rel_base (image al) + int 9) = Inr (rel_words (image al) ! 9)"
    using conjunct1 [OF imem_holds_published_images [OF r], rule_format, of k al 9] len by simp
  with r al len show ?thesis by auto
qed

lemma loaded_program_faults_witness:
  "\<exists>m m' al. reachable m \<and> config (sms m ! 0) = from_allocation al default_overrides \<and> clock_edge m m' \<and>
    fault (sms m' ! 0) \<in> {FAULT_NONE, SHIFT_BOUNDS}"
proof -
  obtain m al a where m: "demo ir_tx = Inr m" and ld: "load allocator_init ir_tx None 7 = Inr (al, a)"
    and r: "reachable m" and c: "config (sms m ! 0) = from_allocation al default_overrides"
    and al: "al \<in> snd ` set (published_allocations m)" and f: "fault (sms m ! 0) = FAULT_NONE"
    by (rule ir_tx_demo)
  obtain m' res where s: "step m no_inputs = Inr (m', res)"
    using ir_tx_demo_runs by (auto simp: m split: sum.splits)
  have ce: "clock_edge m m'" using s by (auto simp: clock_edge_def no_inputs_def)
  have "own_masks default_overrides" by (simp add: own_masks_def default_overrides_def)
  from loaded_program_faults [OF alloc_inv_init ld r _ c this al f r_into_rtranclp [of clock_edge, OF ce]]
  have "fault (sms m' ! 0) \<in> {FAULT_NONE, SHIFT_BOUNDS}"
    by (auto simp: ir_tx_def)
  with r c ce show ?thesis by blast
qed

end
