(* ===== verification/Py_Text.thy ===== *)
theory Py_Text
  imports Soc_Prelude
begin

text \<open>
  Python's \<open>str\<close> as the assembler uses it: white space and line breaks, \<open>strip\<close>, \<open>split\<close> and \<open>splitlines\<close>, the
  lexical classes of identifiers and numbers, and \<open>int\<close> of a numeral. A text is a list of characters
  with code points up to 255.
\<close>

section \<open>White space and lines\<close>

abbreviation code_point :: "char \<Rightarrow> nat" where
  "code_point c \<equiv> of_char c"

definition py_space :: "char \<Rightarrow> bool" where
  "py_space c \<longleftrightarrow> (let n = code_point c in (9 \<le> n \<and> n \<le> 13) \<or> (28 \<le> n \<and> n \<le> 32) \<or> n = 133 \<or> n = 160)"

definition line_break :: "char \<Rightarrow> bool" where
  "line_break c \<longleftrightarrow> (let n = code_point c in (10 \<le> n \<and> n \<le> 13) \<or> (28 \<le> n \<and> n \<le> 30) \<or> n = 133)"

abbreviation lstrip :: "string \<Rightarrow> string" where
  "lstrip s \<equiv> dropWhile py_space s"

definition rstrip :: "string \<Rightarrow> string" where
  "rstrip s = rev (dropWhile py_space (rev s))"

definition strip :: "string \<Rightarrow> string" where
  "strip s = rstrip (lstrip s)"

text \<open>\<open>s.splitlines()\<close>; a carriage return takes a line feed behind it along.\<close>

definition after_break :: "string \<Rightarrow> string" where
  "after_break s =
     (case s of [] \<Rightarrow> []
      | c # cs \<Rightarrow> if code_point c = 13 \<and> cs \<noteq> [] \<and> code_point (hd cs) = 10 then tl cs else cs)"

lemma length_after_break: "length (after_break s) \<le> length s - 1"
  by (cases s) (auto simp: after_break_def)

function splitlines :: "string \<Rightarrow> string list" where
  "splitlines s =
     (if s = [] then []
      else takeWhile (\<lambda>c. \<not> line_break c) s # splitlines (after_break (dropWhile (\<lambda>c. \<not> line_break c) s)))"
  by pat_completeness auto

termination
proof (relation "measure length", simp)
  fix s :: string assume s: "s \<noteq> []"
  have "length (dropWhile (\<lambda>c. \<not> line_break c) s) \<le> length s" by (rule length_dropWhile_le)
  with s length_after_break [of "dropWhile (\<lambda>c. \<not> line_break c) s"]
  show "(after_break (dropWhile (\<lambda>c. \<not> line_break c) s), s) \<in> measure length" by (cases s) auto
qed

declare splitlines.simps [simp del]

section \<open>Splitting\<close>

text \<open>\<open>s.split(d)\<close> for a single character, \<open>s.split()\<close>, and \<open>s.split(None, 1)\<close>.\<close>

fun split_on :: "char \<Rightarrow> string \<Rightarrow> string list" where
  "split_on d [] = [[]]"
| "split_on d (c # cs) = (if c = d then [] # split_on d cs else (c # hd (split_on d cs)) # tl (split_on d cs))"

function py_words :: "string \<Rightarrow> string list" where
  "py_words s =
     (let t = lstrip s in
      if t = [] then [] else takeWhile (\<lambda>c. \<not> py_space c) t # py_words (dropWhile (\<lambda>c. \<not> py_space c) t))"
  by pat_completeness auto

termination
proof (relation "measure length", simp)
  fix s t :: string assume t: "t = lstrip s" "t \<noteq> []"
  then have "\<not> py_space (hd t)" by (simp add: hd_dropWhile)
  with t(2) have "length (dropWhile (\<lambda>c. \<not> py_space c) t) < length t"
    by (cases t) (auto simp: less_Suc_eq_le length_dropWhile_le)
  also have "length t \<le> length s" unfolding t(1) by (rule length_dropWhile_le)
  finally show "(dropWhile (\<lambda>c. \<not> py_space c) t, s) \<in> measure length" by simp
qed

declare py_words.simps [simp del]

definition split_first :: "string \<Rightarrow> string list" where
  "split_first s =
     (let t = lstrip s; rest = lstrip (dropWhile (\<lambda>c. \<not> py_space c) t) in
      if t = [] then [] else takeWhile (\<lambda>c. \<not> py_space c) t # (if rest = [] then [] else [rest]))"

section \<open>Identifiers and numbers\<close>

definition dec_digit :: "char \<Rightarrow> bool" where
  "dec_digit c \<longleftrightarrow> (let n = code_point c in 48 \<le> n \<and> n \<le> 57)"

definition hex_digit :: "char \<Rightarrow> bool" where
  "hex_digit c \<longleftrightarrow> dec_digit c \<or> (let n = code_point c in (65 \<le> n \<and> n \<le> 70) \<or> (97 \<le> n \<and> n \<le> 102))"

definition ident_start :: "char \<Rightarrow> bool" where
  "ident_start c \<longleftrightarrow> (let n = code_point c in (65 \<le> n \<and> n \<le> 90) \<or> (97 \<le> n \<and> n \<le> 122) \<or> n = 95)"

definition ident_char :: "char \<Rightarrow> bool" where
  "ident_char c \<longleftrightarrow> ident_start c \<or> dec_digit c"

definition is_identifier :: "string \<Rightarrow> bool" where
  "is_identifier s \<longleftrightarrow> s \<noteq> [] \<and> ident_start (hd s) \<and> list_all ident_char (tl s)"

definition is_number :: "string \<Rightarrow> bool" where
  "is_number s \<longleftrightarrow> (take 2 s = ''0x'' \<and> drop 2 s \<noteq> [] \<and> list_all hex_digit (drop 2 s)) \<or> (s \<noteq> [] \<and> list_all dec_digit s)"

definition digit_value :: "char \<Rightarrow> int" where
  "digit_value c = (let n = int (code_point c) in if n \<le> 57 then n - 48 else if n \<le> 70 then n - 55 else n - 87)"

definition numeral_value :: "int \<Rightarrow> string \<Rightarrow> int" where
  "numeral_value base s = foldl (\<lambda>v c. v * base + digit_value c) 0 s"

text \<open>\<open>int(s, 10)\<close> of a string of digits raises \<open>ValueError\<close> above the conversion limit of the interpreter, 4300 digits.\<close>

definition int_of_decimal :: "string \<Rightarrow> int option" where
  "int_of_decimal s = (if int (length s) > 4300 then None else Some (numeral_value 10 s))"

text \<open>\<open>str(n)\<close> for \<open>n \<ge> 0\<close>.\<close>

definition decimal_digit :: "int \<Rightarrow> char" where
  "decimal_digit d = char_of (nat (48 + d))"

function decimal :: "int \<Rightarrow> string" where
  "decimal n = (if n < 10 then [decimal_digit (max 0 n)] else decimal (n div 10) @ [decimal_digit (n mod 10)])"
  by pat_completeness auto

termination by (relation "measure nat") auto

declare decimal.simps [simp del]

end
