(* ===== verification/Pio_Asm.thy ===== *)
theory Pio_Asm
  imports Pio_ISA Py_Text
begin

text \<open>
  The PIO-lite assembler of \<open>src/scripts/piolite_asm.py\<close>: lines, labels, directives and statements of a source
  text, the operands of every mnemonic, and the program that \<open>assemble\<close> builds and validates.

  An \<open>AssemblyError\<close> carries its line and which check failed; the text of the message is left out. The
  regular expressions are written as the tests they stand for: a label is the longest run of identifier
  characters in front of a colon, and a delay is what stands between the last opening bracket and a closing
  bracket at the end.
\<close>

unbundle bit_operations_syntax

section \<open>Errors\<close>

datatype (plugins only: code size) asm_check =
    NumberSyntax string | NumberConversion string | NumberRange string | IdentifierSyntax string | UnknownSymbol string
  | OperandCount | DelaySyntax | UnknownLabel string | DuplicateLabel string | LabelAlone | LabelDirective | MalformedLabel
  | UnknownDirective string | DuplicateDirective string | ProgramFull | UnknownMnemonic string | NoInstructions
  | MissingDirective string | ChoiceRequired string | IsaCheck isa_check

datatype (plugins only: code size) asm_exn =
    AssemblyError int asm_check | AsmStopIteration | AsmIndexError | AsmKeyError | AsmUncaught pio_error

section \<open>Tables\<close>

definition DIRECTIVES :: "(string \<times> nat) list" where
  "DIRECTIVES =
     [(''.program'', 1), (''.entry'', 1), (''.wrap_bottom'', 1), (''.wrap_top'', 1), (''.in'', 2), (''.out'', 2), (''.set'', 2),
      (''.tx_bits'', 3), (''.rx_bits'', 3), (''.test'', 2), (''.packing'', 3), (''.clock_ticks'', 2)]"

definition MNEMONICS :: "(string \<times> int) list" where
  "MNEMONICS =
     [(''CTRL'', CTRL), (''SET_PIN'', SET_PIN), (''SET_DIR'', SET_DIR), (''SET_COUNT'', SET_COUNT), (''IN'', IN_OP),
      (''OUT'', OUT_OP), (''MOVE'', MOVE_OP), (''FIFO'', FIFO_OP), (''WAIT'', WAIT_OP), (''BRANCH'', BRANCH_OP), (''FLAG'', FLAG_OP)]"

definition INSTRUCTION_OPERANDS :: "(int \<times> nat) list" where
  "INSTRUCTION_OPERANDS =
     [(CTRL, 1), (SET_PIN, 1), (SET_DIR, 1), (SET_COUNT, 2), (IN_OP, 2), (OUT_OP, 2), (MOVE_OP, 2), (FIFO_OP, 2), (WAIT_OP, 3),
      (BRANCH_OP, 2), (FLAG_OP, 2)]"

definition CTRL_COMMANDS :: "(string \<times> int) list" where
  "CTRL_COMMANDS = [(''NOP'', 0), (''HALT'', 1), (''CLEAR_ISR'', 2), (''CLEAR_OSR'', 3)]"

definition IN_SOURCES :: "(string \<times> int) list" where
  "IN_SOURCES = [(''PINS'', 0), (''X'', 1), (''Y'', 2), (''ZERO'', 3)]"

definition OUT_DESTINATIONS :: "(string \<times> int) list" where
  "OUT_DESTINATIONS = [(''PINS'', 0), (''DIRECTIONS'', 1), (''X'', 2), (''Y'', 3), (''DISCARD'', 4)]"

definition MOVE_REGISTERS :: "(string \<times> int) list" where
  "MOVE_REGISTERS = [(''ISR'', 0), (''OSR'', 1), (''X'', 2), (''Y'', 3)]"

definition MOVE_SOURCES :: "(string \<times> int) list" where
  "MOVE_SOURCES = MOVE_REGISTERS @ [(''ZERO'', 4), (''ONES'', 5)]"

definition FIFO_OPERATIONS :: "(string \<times> int) list" where
  "FIFO_OPERATIONS = [(''PULL'', 0), (''PUSH'', 1)]"

definition FIFO_MODES :: "(string \<times> int) list" where
  "FIFO_MODES = [(''NONBLOCKING'', 0), (''BLOCKING'', 1)]"

definition BRANCH_CONDITIONS :: "(string \<times> int) list" where
  "BRANCH_CONDITIONS =
     [(''ALWAYS'', 0), (''X_ZERO'', 1), (''Y_ZERO'', 2), (''DEC_X_NONZERO'', 3), (''DEC_Y_NONZERO'', 4), (''TEST_PIN_HIGH'', 5),
      (''FIFO_FAILED'', 6), (''TEST_FLAG_SET'', 7)]"

definition WAIT_SOURCES :: "(string \<times> int) list" where
  "WAIT_SOURCES = [(''PIN'', 0), (''FLAG'', 1)]"

definition FLAG_ACTIONS :: "(string \<times> int) list" where
  "FLAG_ACTIONS = [(''CLEAR'', 0), (''SET'', 1)]"

definition COUNT_REGISTERS :: "(string \<times> int) list" where
  "COUNT_REGISTERS = [(''X'', 0), (''Y'', 1)]"

section \<open>Tokens\<close>

definition asm_number :: "string \<Rightarrow> int \<Rightarrow> string \<Rightarrow> int \<Rightarrow> int \<Rightarrow> asm_exn + int" where
  "asm_number token line nm minimum maximum =
     (if \<not> is_number token then Inl (AssemblyError line (NumberSyntax nm))
      else
        case (if take 2 token = ''0x'' then Some (numeral_value 16 (drop 2 token)) else int_of_decimal token) of
          None \<Rightarrow> Inl (AssemblyError line (NumberConversion nm))
        | Some v \<Rightarrow>
            if \<not> (minimum \<le> v \<and> v \<le> maximum) then Inl (AssemblyError line (NumberRange nm)) else Inr v)"

definition asm_identifier :: "string \<Rightarrow> int \<Rightarrow> string \<Rightarrow> asm_exn + string" where
  "asm_identifier token line nm =
     (if \<not> is_identifier token then Inl (AssemblyError line (IdentifierSyntax nm)) else Inr token)"

definition asm_symbol :: "string \<Rightarrow> (string \<times> int) list \<Rightarrow> int \<Rightarrow> string \<Rightarrow> asm_exn + int" where
  "asm_symbol token symbols line nm =
     (case map_of symbols token of None \<Rightarrow> Inl (AssemblyError line (UnknownSymbol nm)) | Some v \<Rightarrow> Inr v)"

definition asm_choice :: "string \<Rightarrow> (string \<times> 'a) list \<Rightarrow> int \<Rightarrow> string \<Rightarrow> asm_exn + 'a" where
  "asm_choice token choices line nm =
     (case map_of choices token of None \<Rightarrow> Inl (AssemblyError line (ChoiceRequired nm)) | Some v \<Rightarrow> Inr v)"

definition asm_args :: "string \<Rightarrow> nat \<Rightarrow> int \<Rightarrow> asm_exn + string list" where
  "asm_args text count line =
     (if count = 1 then
        if CHR '','' \<in> set text \<or> text = [] \<or> length (py_words text) \<noteq> 1 then Inl (AssemblyError line OperandCount)
        else Inr [text]
      else
        let args = map strip (split_on (CHR '','') text) in
        if length args \<noteq> count \<or> list_ex (\<lambda>item. item = [] \<or> length (py_words item) \<noteq> 1) args
        then Inl (AssemblyError line OperandCount)
        else Inr args)"

text \<open>The match of \<open>(.*?)\s*\[([^\[\]]+)\]\<close> with the whole text: both groups.\<close>

definition delay_match :: "string \<Rightarrow> (string \<times> string) option" where
  "delay_match text =
     (if text = [] \<or> last text \<noteq> CHR '']'' then None
      else
        let front = rev (butlast text); inner = takeWhile (\<lambda>c. c \<notin> {CHR ''['', CHR '']''}) front;
            rest = dropWhile (\<lambda>c. c \<notin> {CHR ''['', CHR '']''}) front;
            group = rev (dropWhile py_space (tl rest)) in
        if inner = [] \<or> rest = [] \<or> hd rest \<noteq> CHR ''['' \<or> list_ex (\<lambda>c. code_point c = 10) group then None
        else Some (group, rev inner))"

definition asm_delay :: "string \<Rightarrow> int \<Rightarrow> asm_exn + (string \<times> int)" where
  "asm_delay text line =
     (if CHR ''['' \<notin> set text \<and> CHR '']'' \<notin> set text then Inr (text, 0)
      else
        case delay_match text of
          None \<Rightarrow> Inl (AssemblyError line DelaySyntax)
        | Some (body, inner) \<Rightarrow>
            if strip body = [] then Inl (AssemblyError line DelaySyntax)
            else bind_r (asm_number (strip inner) line ''delay'' 0 15) (\<lambda>n. Inr (strip body, n)))"

section \<open>Statements\<close>

record statement =
  st_line :: int
  st_opcode :: int
  st_args :: "string list"
  st_delay :: int

definition asm_arg :: "string list \<Rightarrow> nat \<Rightarrow> asm_exn + string" where
  "asm_arg args k = (if k < length args then Inr (args ! k) else Inl AsmIndexError)"

definition arg_symbol :: "statement \<Rightarrow> nat \<Rightarrow> (string \<times> int) list \<Rightarrow> string \<Rightarrow> asm_exn + int" where
  "arg_symbol st k symbols nm = bind_r (asm_arg (st_args st) k) (\<lambda>token. asm_symbol token symbols (st_line st) nm)"

definition arg_number :: "statement \<Rightarrow> nat \<Rightarrow> string \<Rightarrow> int \<Rightarrow> int \<Rightarrow> asm_exn + int" where
  "arg_number st k nm minimum maximum =
     bind_r (asm_arg (st_args st) k) (\<lambda>token. asm_number token (st_line st) nm minimum maximum)"

definition arg_label :: "statement \<Rightarrow> nat \<Rightarrow> (string \<times> int) list \<Rightarrow> asm_exn + int" where
  "arg_label st k labels =
     bind_r (asm_arg (st_args st) k) (\<lambda>token.
     bind_r (asm_identifier token (st_line st) ''branch target'') (\<lambda>label.
     case map_of labels label of None \<Rightarrow> Inl (AssemblyError (st_line st) (UnknownLabel label)) | Some offset \<Rightarrow> Inr offset))"

definition asm_operand :: "statement \<Rightarrow> (string \<times> int) list \<Rightarrow> asm_exn + int" where
  "asm_operand st labels =
     (let op = st_opcode st in
      if op = CTRL then bind_r (arg_symbol st 0 CTRL_COMMANDS ''CTRL'') (\<lambda>c. Inr (shl c 5))
      else if op \<in> {SET_PIN, SET_DIR} then arg_number st 0 ''SET immediate'' 0 0xFF
      else if op = SET_COUNT then
        bind_r (arg_symbol st 0 COUNT_REGISTERS ''SET_COUNT destination'') (\<lambda>destination.
        bind_r (arg_number st 1 ''SET_COUNT immediate'' 0 127) (\<lambda>v. Inr (shl destination 7 OR v)))
      else if op = IN_OP then
        bind_r (arg_symbol st 0 IN_SOURCES ''IN source'') (\<lambda>source.
        bind_r (arg_number st 1 ''IN count'' 1 32) (\<lambda>count. Inr (shl source 5 OR (count AND 0x1F))))
      else if op = OUT_OP then
        bind_r (arg_symbol st 0 OUT_DESTINATIONS ''OUT destination'') (\<lambda>destination.
        bind_r (arg_number st 1 ''OUT count'' 1 32) (\<lambda>count. Inr (shl destination 5 OR (count AND 0x1F))))
      else if op = MOVE_OP then
        bind_r (arg_symbol st 0 MOVE_REGISTERS ''MOVE destination'') (\<lambda>destination.
        bind_r (arg_symbol st 1 MOVE_SOURCES ''MOVE source'') (\<lambda>source. Inr (shl destination 6 OR shl source 3)))
      else if op = FIFO_OP then
        bind_r (arg_symbol st 0 FIFO_OPERATIONS ''FIFO operation'') (\<lambda>operation.
        bind_r (arg_symbol st 1 FIFO_MODES ''FIFO mode'') (\<lambda>mode. Inr (shl operation 7 OR shl mode 6)))
      else if op = WAIT_OP then
        bind_r (arg_symbol st 0 WAIT_SOURCES ''WAIT source'') (\<lambda>source.
        bind_r (arg_number st 1 ''WAIT level'' 0 1) (\<lambda>level.
        bind_r (arg_number st 2 ''WAIT index'' 0 (if source = 0 then 31 else 3)) (\<lambda>index.
          Inr ((shl source 7 OR shl level 6) OR shl index 1))))
      else if op = BRANCH_OP then
        bind_r (arg_symbol st 0 BRANCH_CONDITIONS ''branch condition'') (\<lambda>condition.
        bind_r (arg_label st 1 labels) (\<lambda>offset. Inr (shl condition 5 OR offset)))
      else if op = FLAG_OP then
        bind_r (arg_symbol st 0 FLAG_ACTIONS ''FLAG action'') (\<lambda>action.
        bind_r (arg_number st 1 ''FLAG index'' 0 3) (\<lambda>index. Inr (shl action 7 OR shl index 5)))
      else Inr 0)"

text \<open>\<open>except ISAError as exc: raise AssemblyError(line, str(exc))\<close>.\<close>

definition wrap_isa :: "(isa_check \<Rightarrow> asm_exn) \<Rightarrow> pio_error \<Rightarrow> asm_exn" where
  "wrap_isa f x = (case x of ISAError c \<Rightarrow> f c | e \<Rightarrow> AsmUncaught e)"

definition asm_instruction :: "(string \<times> int) list \<Rightarrow> statement \<Rightarrow> asm_exn + instruction" where
  "asm_instruction labels st =
     bind_r (asm_operand st labels) (\<lambda>oper.
     let i = \<lparr>opcode = st_opcode st, delay = st_delay st, operand = oper\<rparr> in
     bind_r (map_error (wrap_isa (\<lambda>c. AssemblyError (st_line st) (IsaCheck c))) (instruction_validate i)) (\<lambda>_. Inr i))"

section \<open>Lines\<close>

text \<open>The dictionaries \<open>labels\<close> and \<open>directives\<close> are association lists without duplicates.\<close>

record asm_state =
  as_labels :: "(string \<times> int) list"
  as_statements :: "statement list"
  as_directives :: "(string \<times> string list \<times> int) list"

definition label_match :: "string \<Rightarrow> (string \<times> string) option" where
  "label_match text =
     (let label = takeWhile ident_char text; rest = dropWhile ident_char text in
      if is_identifier label \<and> rest \<noteq> [] \<and> hd rest = CHR '':'' \<and> \<not> list_ex (\<lambda>c. code_point c = 10) (tl rest)
      then Some (label, tl rest) else None)"

definition asm_label :: "asm_state \<Rightarrow> int \<Rightarrow> string \<Rightarrow> asm_exn + (asm_state \<times> string)" where
  "asm_label s line text =
     (case label_match text of
        Some (label, rest) \<Rightarrow>
          if map_of (as_labels s) label \<noteq> None then Inl (AssemblyError line (DuplicateLabel label))
          else if strip rest = [] then Inl (AssemblyError line LabelAlone)
          else if take 1 (strip rest) = ''.'' then Inl (AssemblyError line LabelDirective)
          else Inr (s\<lparr>as_labels := (label, int (length (as_statements s))) # as_labels s\<rparr>, strip rest)
      | None \<Rightarrow> if CHR '':'' \<in> set text then Inl (AssemblyError line MalformedLabel) else Inr (s, text))"

definition operand_text :: "string list \<Rightarrow> string" where
  "operand_text rest = (case rest of [t] \<Rightarrow> strip t | _ \<Rightarrow> [])"

definition asm_directive :: "asm_state \<Rightarrow> int \<Rightarrow> string \<Rightarrow> asm_exn + asm_state" where
  "asm_directive s line text =
     (case split_first text of
        [] \<Rightarrow> Inl AsmIndexError
      | directive # rest \<Rightarrow>
          (case map_of DIRECTIVES directive of
             None \<Rightarrow> Inl (AssemblyError line (UnknownDirective directive))
           | Some count \<Rightarrow>
               if map_of (as_directives s) directive \<noteq> None then Inl (AssemblyError line (DuplicateDirective directive))
               else
                 bind_r (asm_args (operand_text rest) count line) (\<lambda>args.
                   Inr (s\<lparr>as_directives := (directive, args, line) # as_directives s\<rparr>))))"

definition asm_statement :: "asm_state \<Rightarrow> int \<Rightarrow> string \<Rightarrow> asm_exn + asm_state" where
  "asm_statement s line text =
     (if int (length (as_statements s)) \<ge> INSTRUCTION_WORDS then Inl (AssemblyError line ProgramFull)
      else
        bind_r (asm_delay text line) (\<lambda>(body, n).
        case split_first body of
          [] \<Rightarrow> Inl AsmIndexError
        | mnemonic # rest \<Rightarrow>
            (case map_of MNEMONICS mnemonic of
               None \<Rightarrow> Inl (AssemblyError line (UnknownMnemonic mnemonic))
             | Some op \<Rightarrow>
                 (case map_of INSTRUCTION_OPERANDS op of
                    None \<Rightarrow> Inl AsmKeyError
                  | Some count \<Rightarrow>
                      bind_r (asm_args (operand_text rest) count line) (\<lambda>args.
                        Inr (s\<lparr>as_statements := as_statements s @
                          [\<lparr>st_line = line, st_opcode = op, st_args = args, st_delay = n\<rparr>]\<rparr>))))))"

definition asm_line :: "asm_state \<Rightarrow> int \<times> string \<Rightarrow> asm_exn + asm_state" where
  "asm_line s numbered =
     (case numbered of (line, raw_line) \<Rightarrow>
      let text = strip (takeWhile (\<lambda>c. c \<noteq> CHR '';'') raw_line) in
      if text = [] then Inr s
      else
        bind_r (asm_label s line text) (\<lambda>(s, text).
          if take 1 text = ''.'' then asm_directive s line text else asm_statement s line text))"

section \<open>Programs\<close>

definition directive_of :: "asm_state \<Rightarrow> string \<Rightarrow> asm_exn + (string list \<times> int)" where
  "directive_of s directive = (case map_of (as_directives s) directive of None \<Rightarrow> Inl AsmKeyError | Some d \<Rightarrow> Inr d)"

definition directive_number :: "asm_state \<Rightarrow> string \<Rightarrow> nat \<Rightarrow> string \<Rightarrow> int \<Rightarrow> int \<Rightarrow> asm_exn + int" where
  "directive_number s directive k nm minimum maximum =
     bind_r (directive_of s directive) (\<lambda>(args, line).
     bind_r (asm_arg args k) (\<lambda>token. asm_number token line nm minimum maximum))"

definition directive_choice :: "asm_state \<Rightarrow> string \<Rightarrow> nat \<Rightarrow> (string \<times> 'a) list \<Rightarrow> string \<Rightarrow> asm_exn + 'a" where
  "directive_choice s directive k choices nm =
     bind_r (directive_of s directive) (\<lambda>(args, line).
     bind_r (asm_arg args k) (\<lambda>token. asm_choice token choices line nm))"

definition label_offset :: "asm_state \<Rightarrow> string \<Rightarrow> asm_exn + int" where
  "label_offset s directive =
     bind_r (directive_of s directive) (\<lambda>(args, line).
     bind_r (asm_arg args 0) (\<lambda>token.
     bind_r (asm_identifier token line directive) (\<lambda>label.
     case map_of (as_labels s) label of None \<Rightarrow> Inl (AssemblyError line (UnknownLabel label)) | Some offset \<Rightarrow> Inr offset)))"

definition asm_window :: "asm_state \<Rightarrow> string \<Rightarrow> int \<Rightarrow> asm_exn + pin_window" where
  "asm_window s directive maximum_width =
     bind_r (directive_number s directive 0 directive 0 31) (\<lambda>b.
     bind_r (directive_number s directive 1 directive 0 maximum_width) (\<lambda>w. Inr \<lparr>win_base = b, win_width = w\<rparr>))"

definition asm_shift :: "asm_state \<Rightarrow> string \<Rightarrow> asm_exn + shift_spec" where
  "asm_shift s directive =
     bind_r (directive_number s directive 0 directive 1 32) (\<lambda>n.
     bind_r (directive_choice s directive 1 [(''left'', Left), (''right'', Right)] directive) (\<lambda>d.
     bind_r (directive_choice s directive 2 [(''manual'', Manual), (''auto'', Auto)] directive) (\<lambda>m.
       Inr \<lparr>shift_bits = n, shift_dir = d, shift_md = m\<rparr>)))"

definition asm_test :: "asm_state \<Rightarrow> asm_exn + test_spec" where
  "asm_test s =
     bind_r (directive_of s ''.test'') (\<lambda>(args, line).
     bind_r (asm_arg args 0) (\<lambda>token.
     bind_r (if token = ''none'' then Inr None else bind_r (asm_number token line ''test pin'' 0 31) (\<lambda>v. Inr (Some v))) (\<lambda>pin.
     bind_r (directive_number s ''.test'' 1 ''test flag'' 0 3) (\<lambda>flag.
       Inr \<lparr>test_spec_pin = pin, test_spec_flag = flag\<rparr>))))"

definition asm_packing :: "asm_state \<Rightarrow> asm_exn + packing_spec" where
  "asm_packing s =
     bind_r (directive_number s ''.packing'' 0 ''TX_ITEMS'' 0 0xFFFFFFFF) (\<lambda>t.
     bind_r (directive_number s ''.packing'' 1 ''RX_ITEMS'' 0 0xFFFFFFFF) (\<lambda>r.
     bind_r (directive_number s ''.packing'' 2 ''ITEM_BITS'' 1 32) (\<lambda>n.
       Inr \<lparr>tx_items = t, rx_items = r, item_bits = n\<rparr>)))"

definition asm_timing :: "asm_state \<Rightarrow> asm_exn + timing_spec" where
  "asm_timing s =
     bind_r (directive_number s ''.clock_ticks'' 0 ''clock_ticks'' 1 0xFFFFFFFF) (\<lambda>t.
     bind_r (directive_choice s ''.clock_ticks'' 1 [(''fixed'', Fixed), (''stretchable'', Stretchable)] ''timing behavior'') (\<lambda>b.
       Inr \<lparr>clock_ticks = t, behavior = b\<rparr>))"

text \<open>The line of the first statement that branches on the test pin, for an error of \<open>referenced_resources\<close>: \<open>next\<close> of
  a generator, which raises \<open>StopIteration\<close> when there is none.\<close>

fun test_pin_line :: "statement list \<Rightarrow> asm_exn + int" where
  "test_pin_line [] = Inl AsmStopIteration"
| "test_pin_line (st # sts) =
     (if st_opcode st = BRANCH_OP then
        bind_r (asm_arg (st_args st) 0) (\<lambda>token. if token = ''TEST_PIN_HIGH'' then Inr (st_line st) else test_pin_line sts)
      else test_pin_line sts)"

definition asm_resources ::
  "statement list \<Rightarrow> instruction list \<Rightarrow> pin_window \<Rightarrow> pin_window \<Rightarrow> pin_window \<Rightarrow> test_spec \<Rightarrow> asm_exn + (int \<times> int)" where
  "asm_resources sts is in_w out_w set_w t =
     (case referenced_resources is in_w out_w set_w t of
        Inr masks \<Rightarrow> Inr masks
      | Inl (ISAError c) \<Rightarrow> bind_r (test_pin_line sts) (\<lambda>line. Inl (AssemblyError line (IsaCheck c)))
      | Inl e \<Rightarrow> Inl (AsmUncaught e))"

text \<open>The messages with the words \<open>instruction n\<close>, which \<open>assemble\<close> searches for.\<close>

definition error_instruction :: "isa_check \<Rightarrow> int option" where
  "error_instruction c =
     (case c of BranchOutside n \<Rightarrow> Some n | InExceedsWindow n \<Rightarrow> Some n | OutExceedsWindow n \<Rightarrow> Some n
      | SetNeedsWindow n \<Rightarrow> Some n | TestPinUnselected n \<Rightarrow> Some n | _ \<Rightarrow> None)"

definition validate_error :: "program \<Rightarrow> int \<Rightarrow> isa_check \<Rightarrow> asm_exn" where
  "validate_error p program_line c =
     (case error_instruction c of
        None \<Rightarrow> AssemblyError program_line (IsaCheck c)
      | Some n \<Rightarrow>
          if 0 \<le> n \<and> n < int (length (source_lines p)) then AssemblyError (source_lines p ! nat n) (IsaCheck c)
          else AsmIndexError)"

definition asm_validated :: "program \<Rightarrow> int \<Rightarrow> asm_exn + program" where
  "asm_validated p program_line =
     bind_r (map_error (wrap_isa (validate_error p program_line)) (program_validate p)) (\<lambda>_. Inr p)"

definition asm_program :: "asm_state \<Rightarrow> asm_exn + program" where
  "asm_program s =
     bind_r (directive_of s ''.program'') (\<lambda>(program_args, program_line).
     bind_r (asm_arg program_args 0) (\<lambda>program_token.
     bind_r (asm_identifier program_token program_line ''program name'') (\<lambda>nm.
     bind_r (asm_test s) (\<lambda>t.
     bind_r (asm_packing s) (\<lambda>pack.
     bind_r (asm_timing s) (\<lambda>tm.
     bind_r (asm_window s ''.in'' 32) (\<lambda>in_w.
     bind_r (asm_window s ''.out'' 32) (\<lambda>out_w.
     bind_r (asm_window s ''.set'' 8) (\<lambda>set_w.
     bind_r (asm_shift s ''.tx_bits'') (\<lambda>txs.
     bind_r (asm_shift s ''.rx_bits'') (\<lambda>rxs.
     bind_r (map_r (asm_instruction (as_labels s)) (as_statements s)) (\<lambda>is.
     bind_r (asm_resources (as_statements s) is in_w out_w set_w t) (\<lambda>(claim, flags).
     bind_r (label_offset s ''.entry'') (\<lambda>ent.
     bind_r (label_offset s ''.wrap_bottom'') (\<lambda>bottom.
     bind_r (label_offset s ''.wrap_top'') (\<lambda>wtop.
     let p = \<lparr>name = nm, instructions = is, entry = ent, wrap_bottom = bottom, wrap_top = wtop,
              in_window = in_w, out_window = out_w, set_window = set_w, tx = txs, rx = rxs, test = t,
              packing = pack, timing = tm, claim_mask = claim, flag_mask = flags, isa_version = ISA_VERSION,
              source_lines = map st_line (as_statements s)\<rparr> in
     asm_validated p program_line))))))))))))))))"

definition assemble :: "string \<Rightarrow> asm_exn + program" where
  "assemble source =
     (let lines = splitlines source;
          fallback_line = (if lines = [] then 1 else int (length lines)) in
      bind_r (foldl_r asm_line \<lparr>as_labels = [], as_statements = [], as_directives = []\<rparr> (zip [1..int (length lines)] lines)) (\<lambda>s.
      bind_r (raise_if (as_statements s = []) (AssemblyError fallback_line NoInstructions)) (\<lambda>_.
      bind_r (first_error (map (\<lambda>(directive, _). raise_if (map_of (as_directives s) directive = None)
        (AssemblyError fallback_line (MissingDirective directive))) DIRECTIVES)) (\<lambda>_.
      asm_program s))))"

end
