(* ===== verification/Pio_Asm_Props.thy ===== *)
theory Pio_Asm_Props
  imports Pio_Asm
begin

text \<open>
  What \<open>assemble\<close> promises for arbitrary text: every failure is an \<open>AssemblyError\<close> at a line of the source, and what
  it returns is a valid program.
\<close>

unbundle bit_operations_syntax

section \<open>Postconditions\<close>

definition asm_post :: "int \<Rightarrow> ('a \<Rightarrow> bool) \<Rightarrow> asm_exn + 'a \<Rightarrow> bool" where
  "asm_post n P m \<longleftrightarrow>
     (case m of Inl x \<Rightarrow> (\<exists>line c. x = AssemblyError line c \<and> 1 \<le> line \<and> line \<le> n) | Inr v \<Rightarrow> P v)"

lemma asm_post_simps [simp]:
  "asm_post n P (Inr v) \<longleftrightarrow> P v"
  "asm_post n P (Inl (AssemblyError line c)) \<longleftrightarrow> 1 \<le> line \<and> line \<le> n"
  by (simp_all add: asm_post_def)

lemma asm_post_bind: "asm_post n P m \<Longrightarrow> (\<And>v. P v \<Longrightarrow> asm_post n Q (f v)) \<Longrightarrow> asm_post n Q (bind_r m f)"
  by (cases m) (auto simp: asm_post_def)

lemma asm_post_weaken: "asm_post n P m \<Longrightarrow> (\<And>v. P v \<Longrightarrow> Q v) \<Longrightarrow> asm_post n Q m"
  by (cases m) (auto simp: asm_post_def)

lemma asm_post_lines: "asm_post n P m \<Longrightarrow> n \<le> n' \<Longrightarrow> asm_post n' P m"
  by (cases m) (auto simp: asm_post_def)

lemma asm_post_map: "(\<And>x. x \<in> set xs \<Longrightarrow> asm_post n (P x) (f x)) \<Longrightarrow> asm_post n (list_all2 P xs) (map_r f xs)"
proof (induction xs)
  case (Cons x xs)
  have "asm_post n (P x) (f x)" "asm_post n (list_all2 P xs) (map_r f xs)" using Cons by simp_all
  then show ?case by (auto intro!: asm_post_bind [where P = "P x"] asm_post_bind [where P = "list_all2 P xs"])
qed simp

lemma asm_post_raise: "1 \<le> line \<Longrightarrow> line \<le> n \<Longrightarrow> asm_post n (\<lambda>_. \<not> b) (raise_if b (AssemblyError line c))"
  by (simp add: raise_if_def)

lemma asm_post_first_error:
  "(\<And>m. m \<in> set cs \<Longrightarrow> asm_post n (\<lambda>_. True) m) \<Longrightarrow> asm_post n (\<lambda>_. \<forall>m \<in> set cs. m = Inr ()) (first_error cs)"
  using first_error_Inl [of cs] first_error_Inr [of cs]
  by (cases "first_error cs") (force simp: asm_post_def, simp)

section \<open>Tokens\<close>

definition has_token :: "string \<Rightarrow> bool" where
  "has_token t \<longleftrightarrow> (\<exists>c \<in> set t. \<not> py_space c)"

lemma has_token_strip: "strip s \<noteq> [] \<Longrightarrow> has_token (strip s)"
  unfolding strip_def rstrip_def has_token_def
  by (metis hd_dropWhile list.set_sel(1) rev_is_Nil_conv set_rev)

lemma split_first_token: "has_token t \<Longrightarrow> split_first t \<noteq> []"
  by (auto simp: split_first_def Let_def has_token_def dropWhile_eq_Nil_conv)

lemma asm_number_post:
  assumes "1 \<le> line" "line \<le> n"
  shows "asm_post n (\<lambda>v. lo \<le> v \<and> v \<le> hi) (asm_number token line nm lo hi)"
  using assms by (auto simp: asm_number_def split: option.splits)

lemma asm_identifier_post: "1 \<le> line \<Longrightarrow> line \<le> n \<Longrightarrow> asm_post n (\<lambda>v. v = token) (asm_identifier token line nm)"
  by (simp add: asm_identifier_def)

lemma asm_symbol_post:
  "1 \<le> line \<Longrightarrow> line \<le> n \<Longrightarrow> asm_post n (\<lambda>v. map_of symbols token = Some v) (asm_symbol token symbols line nm)"
  by (simp add: asm_symbol_def split: option.split)

lemma asm_choice_post:
  "1 \<le> line \<Longrightarrow> line \<le> n \<Longrightarrow> asm_post n (\<lambda>v. map_of choices token = Some v) (asm_choice token choices line nm)"
  by (simp add: asm_choice_def split: option.split)

lemma asm_args_post: "1 \<le> line \<Longrightarrow> line \<le> n \<Longrightarrow> asm_post n (\<lambda>args. length args = count) (asm_args text count line)"
  by (simp add: asm_args_def Let_def)

lemma asm_delay_post:
  assumes "1 \<le> line" "line \<le> n" "has_token text"
  shows "asm_post n (\<lambda>(body, d). has_token body) (asm_delay text line)"
proof (cases "CHR ''['' \<notin> set text \<and> CHR '']'' \<notin> set text")
  case True
  then show ?thesis using assms by (simp add: asm_delay_def)
next
  case False
  show ?thesis
  proof (cases "delay_match text")
    case None
    then show ?thesis using assms False by (auto simp: asm_delay_def)
  next
    case (Some p)
    obtain body inner where p: "p = (body, inner)" by (cases p)
    have "asm_post n (\<lambda>(body, d). has_token body) (bind_r (asm_number (strip inner) line ''delay'' 0 15) (\<lambda>n. Inr (strip body, n)))"
      if "strip body \<noteq> []"
      using that by (intro asm_post_bind [OF asm_number_post [OF assms(1,2)]]) (simp add: has_token_strip)
    then show ?thesis using False assms by (auto simp: asm_delay_def Some p)
  qed
qed

section \<open>Lines\<close>

definition statement_ok :: "int \<Rightarrow> statement \<Rightarrow> bool" where
  "statement_ok k st \<longleftrightarrow> 1 \<le> st_line st \<and> st_line st \<le> k
     \<and> map_of INSTRUCTION_OPERANDS (st_opcode st) = Some (length (st_args st))"

definition directive_ok :: "int \<Rightarrow> string \<times> string list \<times> int \<Rightarrow> bool" where
  "directive_ok k d \<longleftrightarrow> (case d of (nm, args, line) \<Rightarrow>
     map_of DIRECTIVES nm = Some (length args) \<and> 1 \<le> line \<and> line \<le> k)"

definition labels_below :: "int \<Rightarrow> asm_state \<Rightarrow> bool" where
  "labels_below m s \<longleftrightarrow> (\<forall>l \<in> set (as_labels s). 0 \<le> snd l \<and> snd l < m)"

text \<open>Between two lines: at most 32 statements with as many operands as their mnemonics take, in the order of
  their lines, and labels on statements.\<close>

definition lines_ok :: "int \<Rightarrow> asm_state \<Rightarrow> bool" where
  "lines_ok k s \<longleftrightarrow> length (as_statements s) \<le> 32 \<and> (\<forall>st \<in> set (as_statements s). statement_ok k st)
     \<and> sorted_wrt (<) (map st_line (as_statements s)) \<and> (\<forall>d \<in> set (as_directives s). directive_ok k d)"

definition asm_ok :: "int \<Rightarrow> asm_state \<Rightarrow> bool" where
  "asm_ok k s \<longleftrightarrow> lines_ok k s \<and> labels_below (int (length (as_statements s))) s"

lemma lines_ok_mono: "lines_ok k s \<Longrightarrow> k \<le> k' \<Longrightarrow> lines_ok k' s"
  by (force simp: lines_ok_def statement_ok_def directive_ok_def)

lemma asm_ok_mono: "asm_ok k s \<Longrightarrow> k \<le> k' \<Longrightarrow> asm_ok k' s"
  using lines_ok_mono by (auto simp: asm_ok_def)

lemma asm_label_post:
  assumes "asm_ok k s" "0 \<le> k" "has_token text"
  shows "asm_post (k + 1) (\<lambda>(t, rest). has_token rest \<and> lines_ok k t \<and> as_statements t = as_statements s
    \<and> labels_below (int (length (as_statements t)) + 1) t
    \<and> (take 1 rest = ''.'' \<longrightarrow> labels_below (int (length (as_statements t))) t)) (asm_label s (k + 1) text)"
  using assms
  by (cases "label_match text")
    (auto simp: asm_label_def asm_ok_def lines_ok_def labels_below_def has_token_strip, force)

lemma asm_directive_post:
  assumes "lines_ok k s" "labels_below (int (length (as_statements s))) s" "0 \<le> k" "has_token text"
  shows "asm_post (k + 1) (asm_ok (k + 1)) (asm_directive s (k + 1) text)"
proof -
  obtain d rest where p: "split_first text = d # rest" using split_first_token [OF assms(4)] by (cases "split_first text") auto
  have s: "lines_ok (k + 1) s" using lines_ok_mono [OF assms(1)] by simp
  have "asm_post (k + 1) (asm_ok (k + 1)) (bind_r (asm_args (operand_text rest) count (k + 1)) (\<lambda>args.
      Inr (s\<lparr>as_directives := (d, args, k + 1) # as_directives s\<rparr>)))" if "map_of DIRECTIVES d = Some count" for count
    using that s assms(2,3)
    by (intro asm_post_bind [OF asm_args_post]) (auto simp: asm_ok_def lines_ok_def directive_ok_def labels_below_def)
  then show ?thesis using assms(3) by (auto simp: asm_directive_def p split: option.split)
qed

lemma mnemonic_operands: "map_of MNEMONICS m = Some op \<Longrightarrow> \<exists>count. map_of INSTRUCTION_OPERANDS op = Some count"
  by (auto simp: MNEMONICS_def INSTRUCTION_OPERANDS_def split: if_splits)

lemma asm_statement_post:
  assumes "lines_ok k s" "labels_below (int (length (as_statements s)) + 1) s" "0 \<le> k" "has_token text"
  shows "asm_post (k + 1) (asm_ok (k + 1)) (asm_statement s (k + 1) text)"
proof (cases "int (length (as_statements s)) \<ge> 32")
  case True
  then show ?thesis using assms(3) by (simp add: asm_statement_def)
next
  case False
  let ?new = "\<lambda>op args d. s\<lparr>as_statements := as_statements s @
      [\<lparr>st_line = k + 1, st_opcode = op, st_args = args, st_delay = d\<rparr>]\<rparr>"
  have s: "lines_ok (k + 1) s" using lines_ok_mono [OF assms(1)] by simp
  have new: "asm_ok (k + 1) (?new op args d)" if "map_of INSTRUCTION_OPERANDS op = Some (length args)" for op args d
    using that s assms(1-3) False
    by (auto simp: asm_ok_def lines_ok_def labels_below_def statement_ok_def sorted_wrt_append)
  have body: "asm_post (k + 1) (asm_ok (k + 1)) (case split_first body of
          [] \<Rightarrow> Inl AsmIndexError
        | mnemonic # rest \<Rightarrow>
            (case map_of MNEMONICS mnemonic of
               None \<Rightarrow> Inl (AssemblyError (k + 1) (UnknownMnemonic mnemonic))
             | Some op \<Rightarrow>
                 (case map_of INSTRUCTION_OPERANDS op of
                    None \<Rightarrow> Inl AsmKeyError
                  | Some count \<Rightarrow> bind_r (asm_args (operand_text rest) count (k + 1)) (\<lambda>args. Inr (?new op args d)))))"
    if t: "has_token body" for body d
  proof -
    obtain m rest where p: "split_first body = m # rest" using split_first_token [OF t] by (cases "split_first body") auto
    show ?thesis
    proof (cases "map_of MNEMONICS m")
      case None
      then show ?thesis using assms(3) by (simp add: p)
    next
      case (Some op)
      obtain count where c: "map_of INSTRUCTION_OPERANDS op = Some count" using mnemonic_operands [OF Some] by blast
      have "asm_post (k + 1) (asm_ok (k + 1)) (bind_r (asm_args (operand_text rest) count (k + 1)) (\<lambda>args. Inr (?new op args d)))"
        by (rule asm_post_bind [OF asm_args_post]) (use assms(3) new [of op] c in auto)
      then show ?thesis by (simp add: p Some c)
    qed
  qed
  have d: "asm_post (k + 1) (\<lambda>(body, d). has_token body) (asm_delay text (k + 1))"
    using asm_delay_post [of "k + 1" "k + 1" "text"] assms(3,4) by simp
  show ?thesis unfolding asm_statement_def if_not_P [OF False]
    by (rule asm_post_bind [OF d]) (auto intro: body)
qed

lemma asm_line_post:
  assumes "asm_ok k s" "0 \<le> k"
  shows "asm_post (k + 1) (asm_ok (k + 1)) (asm_line s (k + 1, raw))"
proof (cases "strip (takeWhile (\<lambda>c. c \<noteq> CHR '';'') raw) = []")
  case True
  then show ?thesis using asm_ok_mono [OF assms(1)] by (simp add: asm_line_def)
next
  case False
  from asm_label_post [OF assms has_token_strip [OF False]] show ?thesis
    using False assms(2) asm_directive_post asm_statement_post unfolding asm_line_def Let_def
    by (auto intro!: asm_post_bind)
qed

lemma asm_lines_post:
  assumes "asm_ok k s" "0 \<le> k"
  shows "asm_post (k + int (length lines)) (asm_ok (k + int (length lines)))
    (foldl_r asm_line s (zip [k + 1..k + int (length lines)] lines))"
  using assms
proof (induction lines arbitrary: k s)
  case (Cons raw lines)
  have z: "[k + 1..k + int (length (raw # lines))] = (k + 1) # [k + 2..k + int (length (raw # lines))]"
    by (simp add: upto_rec1 add.commute)
  have e: "k + int (length (raw # lines)) = (k + 1) + int (length lines)" by simp
  have "asm_post (k + int (length (raw # lines))) (asm_ok (k + 1)) (asm_line s (k + 1, raw))"
    using asm_post_lines [OF asm_line_post [OF Cons.prems]] by simp
  moreover have "asm_post (k + int (length (raw # lines))) (asm_ok (k + int (length (raw # lines))))
      (foldl_r asm_line t (zip [k + 2..k + int (length (raw # lines))] lines))" if "asm_ok (k + 1) t" for t
    using Cons.IH [OF that] Cons.prems(2) unfolding e by (simp add: algebra_simps)
  ultimately show ?case unfolding z by (auto intro!: asm_post_bind)
qed (simp add: asm_post_def)

section \<open>Statements\<close>

lemma asm_arg_post: "k < length args \<Longrightarrow> asm_post n (\<lambda>v. v = args ! k) (asm_arg args k)"
  by (simp add: asm_arg_def)

lemma arg_symbol_post:
  assumes "statement_ok n st" "k < length (st_args st)"
  shows "asm_post n (\<lambda>v. map_of symbols (st_args st ! k) = Some v) (arg_symbol st k symbols nm)"
  unfolding arg_symbol_def using assms
  by (intro asm_post_bind [OF asm_arg_post]) (auto simp: statement_ok_def intro: asm_symbol_post)

lemma arg_number_post:
  assumes "statement_ok n st" "k < length (st_args st)"
  shows "asm_post n (\<lambda>v. lo \<le> v \<and> v \<le> hi) (arg_number st k nm lo hi)"
  unfolding arg_number_def using assms
  by (intro asm_post_bind [OF asm_arg_post]) (auto simp: statement_ok_def intro: asm_number_post)

lemma labels_range:
  assumes "asm_ok n s" "map_of (as_labels s) label = Some off"
  shows "0 \<le> off" "off < 32"
  using assms(1) map_of_SomeD [OF assms(2)] by (force simp: asm_ok_def lines_ok_def labels_below_def)+

lemma arg_label_post:
  assumes "asm_ok n s" "statement_ok n st" "k < length (st_args st)"
  shows "asm_post n (\<lambda>v. 0 \<le> v \<and> v < 32) (arg_label st k (as_labels s))"
  unfolding arg_label_def using assms(2,3) labels_range [OF assms(1)]
  by (intro asm_post_bind [OF asm_arg_post] asm_post_bind [OF asm_identifier_post])
    (auto simp: statement_ok_def split: option.split)

lemma branch_symbols:
  assumes "map_of BRANCH_CONDITIONS token = Some v"
  shows "v = 5 \<longleftrightarrow> token = ''TEST_PIN_HIGH''"
  using assms by (auto simp: BRANCH_CONDITIONS_def split: if_splits)

lemma shifted_or: "0 \<le> off \<Longrightarrow> off < 32 \<Longrightarrow> shr (shl c 5 OR off) 5 = c"
  using or_shift_add(2) [of off 5 c] by (simp add: drop_bit_eq_div)

lemma statement_opcodes:
  assumes "statement_ok n st"
  shows "(st_opcode st \<in> {CTRL, SET_PIN, SET_DIR} \<and> length (st_args st) = 1)
    \<or> (st_opcode st \<in> {SET_COUNT, IN_OP, OUT_OP, MOVE_OP, FIFO_OP, BRANCH_OP, FLAG_OP} \<and> length (st_args st) = 2)
    \<or> (st_opcode st = WAIT_OP \<and> length (st_args st) = 3)"
  using assms by (auto simp: statement_ok_def INSTRUCTION_OPERANDS_def split: if_splits)

lemmas arg_binds = asm_post_bind [OF arg_symbol_post] asm_post_bind [OF arg_number_post] arg_number_post

lemma asm_operand_post:
  assumes "asm_ok n s" "statement_ok n st"
  shows "asm_post n (\<lambda>oper. st_opcode st = BRANCH_OP \<and> shr oper 5 = BR_TEST_PIN_HIGH \<longrightarrow> st_args st ! 0 = ''TEST_PIN_HIGH'')
    (asm_operand st (as_labels s))"
proof (cases "st_opcode st = BRANCH_OP")
  case True
  have l: "0 < length (st_args st)" "Suc 0 < length (st_args st)" using statement_opcodes [OF assms(2)] True by auto
  show ?thesis unfolding asm_operand_def Let_def using True
    by (auto intro!: asm_post_bind [OF arg_symbol_post [OF assms(2) l(1)]]
        asm_post_bind [OF arg_label_post [OF assms l(2)]] simp: shifted_or [simplified] branch_symbols)
next
  case False
  have "asm_post n (\<lambda>_. True) (asm_operand st (as_labels s))"
    using statement_opcodes [OF assms(2)] False unfolding asm_operand_def Let_def
    by (elim disjE conjE insertE emptyE) (auto intro!: arg_binds assms(2) asm_post_weaken [OF arg_number_post])
  then show ?thesis using False by (auto intro: asm_post_weaken)
qed

text \<open>The checks of the instruction set raise only \<open>ISAError\<close>, and name only instructions of the program.\<close>

definition isa_only :: "(isa_check \<Rightarrow> bool) \<Rightarrow> pio_error + 'a \<Rightarrow> bool" where
  "isa_only P m \<longleftrightarrow> (case m of Inl x \<Rightarrow> (\<exists>c. x = ISAError c \<and> P c) | Inr _ \<Rightarrow> True)"

lemma isa_only_simps [simp]:
  "isa_only P (Inr v)" "isa_only P (Inl (ISAError c)) \<longleftrightarrow> P c" "isa_only P (raise_if b (ISAError c)) \<longleftrightarrow> (b \<longrightarrow> P c)"
  by (simp_all add: isa_only_def raise_if_def)

lemma isa_only_first_error: "(\<And>c. c \<in> set cs \<Longrightarrow> isa_only P c) \<Longrightarrow> isa_only P (first_error cs)"
  using first_error_Inl [of cs] by (cases "first_error cs") (force simp: isa_only_def)+

lemma isa_only_bind: "isa_only P m \<Longrightarrow> (\<And>v. isa_only P (f v)) \<Longrightarrow> isa_only P (bind_r m f)"
  by (cases m) (auto simp: isa_only_def)

lemma isa_only_foldl: "(\<And>s x. isa_only P (f s x)) \<Longrightarrow> isa_only P (foldl_r f s xs)"
  by (induction xs arbitrary: s) (auto intro: isa_only_bind)

abbreviation general :: "isa_check \<Rightarrow> bool" where
  "general c \<equiv> error_instruction c = None"

lemma instruction_validate_isa: "isa_only general (instruction_validate i)"
  unfolding instruction_validate_def validate_operand_def Let_def encoded_count_def
  by (rule isa_only_first_error) (auto simp: error_instruction_def intro!: isa_only_first_error isa_only_bind)

lemma resources_isa: "isa_only (\<lambda>c. c = TestPinBranch) (referenced_resources is a b c t)"
  unfolding referenced_resources_def reference_step_def Let_def
  by (rule isa_only_foldl) (auto split: prod.split option.split)

definition names_instruction :: "nat \<Rightarrow> isa_check \<Rightarrow> bool" where
  "names_instruction n c \<longleftrightarrow> (case error_instruction c of None \<Rightarrow> True | Some k \<Rightarrow> 0 \<le> k \<and> k < int n)"

lemma isa_only_weaken: "isa_only P m \<Longrightarrow> (\<And>c. P c \<Longrightarrow> Q c) \<Longrightarrow> isa_only Q m"
  by (cases m) (auto simp: isa_only_def)

lemma general_names: "general c \<Longrightarrow> names_instruction n c"
  by (simp add: names_instruction_def)

lemma usage_checks_isa:
  assumes "oi \<in> set (py_enumerate (instructions p))"
  shows "isa_only (names_instruction (length (instructions p))) (usage_checks p oi)"
proof -
  obtain k i where oi: "oi = (k, i)" "0 \<le> k" "k < int (length (instructions p))"
    using assms by (auto simp: set_py_enumerate)
  then show ?thesis unfolding usage_checks_def Let_def oi(1) prod.case encoded_count_def
    by (intro isa_only_first_error)
      (auto simp: error_instruction_def names_instruction_def intro!: isa_only_bind)
qed

lemma program_validate_isa: "isa_only (names_instruction (length (instructions p))) (program_validate p)"
proof -
  let ?P = "names_instruction (length (instructions p))"
  note defs = name_checks_def window_validate_def shift_validate_def test_validate_def packing_validate_def timing_validate_def
  have g: "?P c" if "error_instruction c = None" for c using that by (rule general_names)
  have r: "isa_only ?P (bind_r (referenced_resources is a b c t) (\<lambda>(x, y). first_error
      [raise_if (claim_mask p \<noteq> x) (ISAError ClaimMaskMismatch), raise_if (flag_mask p \<noteq> y) (ISAError FlagMaskMismatch)]))"
    for "is" a b c t
    using resources_isa [of "is" a b c t]
    by (auto intro!: isa_only_bind isa_only_first_error g elim!: isa_only_weaken simp: error_instruction_def)
  have v: "isa_only ?P (instruction_validate i)" for i using isa_only_weaken [OF instruction_validate_isa] g by blast
  show ?thesis unfolding program_validate_def Let_def
    by (rule isa_only_first_error, unfold set_append Un_iff, elim disjE)
      (auto simp: defs error_instruction_def intro!: g r v usage_checks_isa isa_only_first_error)
qed

lemma wrap_isa_post:
  assumes "isa_only P m" "\<And>c. P c \<Longrightarrow> asm_post n Q (Inl (f c) :: asm_exn + 'a)" "\<And>v. m = Inr v \<Longrightarrow> Q v"
  shows "asm_post n Q (map_error (wrap_isa f) m)"
  using assms by (cases m) (auto simp: isa_only_def wrap_isa_def)

definition translates :: "statement \<Rightarrow> instruction \<Rightarrow> bool" where
  "translates st i \<longleftrightarrow> opcode i = st_opcode st
     \<and> (opcode i = BRANCH_OP \<and> shr (operand i) 5 = BR_TEST_PIN_HIGH \<longrightarrow> st_args st ! 0 = ''TEST_PIN_HIGH'')"

lemma asm_instruction_post:
  assumes "asm_ok n s" "statement_ok n st"
  shows "asm_post n (translates st) (asm_instruction (as_labels s) st)"
  unfolding asm_instruction_def Let_def
proof (rule asm_post_bind [OF asm_operand_post [OF assms]])
  fix oper assume o: "st_opcode st = BRANCH_OP \<and> shr oper 5 = BR_TEST_PIN_HIGH \<longrightarrow> st_args st ! 0 = ''TEST_PIN_HIGH''"
  let ?i = "\<lparr>opcode = st_opcode st, delay = st_delay st, operand = oper\<rparr>"
  have "asm_post n (\<lambda>_. True) (map_error (wrap_isa (\<lambda>c. AssemblyError (st_line st) (IsaCheck c))) (instruction_validate ?i))"
    using assms(2) by (intro wrap_isa_post [OF instruction_validate_isa]) (auto simp: statement_ok_def)
  then show "asm_post n (translates st) (bind_r (map_error (wrap_isa (\<lambda>c. AssemblyError (st_line st) (IsaCheck c)))
      (instruction_validate ?i)) (\<lambda>_. Inr ?i))"
    by (rule asm_post_bind) (use o in \<open>simp add: translates_def\<close>)
qed

section \<open>Directives\<close>

lemma test_pin_line_post:
  assumes "\<forall>st \<in> set sts. statement_ok n st" "list_all2 translates sts is" "test_pin_is_used is"
  shows "asm_post n (\<lambda>line. 1 \<le> line \<and> line \<le> n) (test_pin_line sts)"
  using assms(2,1,3)
proof (induction rule: list_all2_induct)
  case (Cons st sts i "is")
  have st: "statement_ok n st" using Cons.prems(1) by simp
  have rest: "asm_post n (\<lambda>line. 1 \<le> line \<and> line \<le> n) (test_pin_line sts)"
    if "\<not> (opcode i = BRANCH_OP \<and> shr (operand i) 5 = BR_TEST_PIN_HIGH)"
    using Cons that by (auto simp: test_pin_is_used_def)
  have "0 < length (st_args st)" using statement_opcodes [OF st] by auto
  then have arg: "asm_arg (st_args st) 0 = Inr (st_args st ! 0)" by (simp add: asm_arg_def)
  show ?case using rest st Cons.hyps(1) by (auto simp: arg translates_def statement_ok_def)
qed (simp add: test_pin_is_used_def)

lemma resources_used:
  assumes "referenced_resources is a b c t = Inl e"
  shows "test_pin_is_used is"
proof -
  have "foldl_r (reference_step t) m is \<noteq> Inl e" if "\<not> test_pin_is_used is" for m
    using that
    by (induction "is" arbitrary: m)
      (auto simp: test_pin_is_used_def bind_r_Inl reference_step_def Let_def split: prod.splits if_splits)
  with assms show ?thesis unfolding referenced_resources_def by blast
qed

lemma asm_resources_post:
  assumes "\<forall>st \<in> set sts. statement_ok n st" "list_all2 translates sts is"
  shows "asm_post n (\<lambda>m. referenced_resources is a b c t = Inr m) (asm_resources sts is a b c t)"
proof (cases "referenced_resources is a b c t")
  case (Inl e)
  then have e: "e = ISAError TestPinBranch" using resources_isa [of "is" a b c t] by (simp add: isa_only_def)
  show ?thesis unfolding asm_resources_def Inl e
    by (simp, rule asm_post_bind [OF test_pin_line_post [OF assms resources_used [OF Inl]]]) simp
qed (simp add: asm_resources_def)

definition declared :: "int \<Rightarrow> asm_state \<Rightarrow> bool" where
  "declared n s \<longleftrightarrow> asm_ok n s \<and> (\<forall>d \<in> set DIRECTIVES. map_of (as_directives s) (fst d) \<noteq> None)"

lemma directive_of_post:
  assumes "declared n s" "map_of DIRECTIVES d = Some count"
  shows "asm_post n (\<lambda>(args, line). length args = count \<and> 1 \<le> line \<and> line \<le> n) (directive_of s d)"
proof -
  obtain args line where a: "map_of (as_directives s) d = Some (args, line)"
    using assms map_of_SomeD [OF assms(2)] by (force simp: declared_def)
  from map_of_SomeD [OF this] assms show ?thesis
    by (force simp: directive_of_def a declared_def asm_ok_def lines_ok_def directive_ok_def)
qed

lemma directive_number_post:
  assumes "declared n s" "map_of DIRECTIVES d = Some count" "k < count"
  shows "asm_post n (\<lambda>v. lo \<le> v \<and> v \<le> hi) (directive_number s d k nm lo hi)"
  unfolding directive_number_def using assms(3)
  by (intro asm_post_bind [OF directive_of_post [OF assms(1,2)]])
    (auto intro!: asm_post_bind [OF asm_arg_post] asm_number_post)

lemma directive_choice_post:
  assumes "declared n s" "map_of DIRECTIVES d = Some count" "k < count"
  shows "asm_post n (\<lambda>_. True) (directive_choice s d k choices nm)"
  unfolding directive_choice_def using assms(3)
  by (intro asm_post_bind [OF directive_of_post [OF assms(1,2)]])
    (auto intro!: asm_post_bind [OF asm_arg_post] asm_post_weaken [OF asm_choice_post])

lemma label_offset_post:
  assumes "declared n s" "map_of DIRECTIVES d = Some 1"
  shows "asm_post n (\<lambda>_. True) (label_offset s d)"
  unfolding label_offset_def
  by (intro asm_post_bind [OF directive_of_post [OF assms]])
    (auto intro!: asm_post_bind [OF asm_arg_post] asm_post_bind [OF asm_identifier_post] split: option.split)

lemma directives [simp]:
  "map_of DIRECTIVES ''.program'' = Some 1" "map_of DIRECTIVES ''.entry'' = Some 1" "map_of DIRECTIVES ''.wrap_bottom'' = Some 1"
  "map_of DIRECTIVES ''.wrap_top'' = Some 1" "map_of DIRECTIVES ''.in'' = Some 2" "map_of DIRECTIVES ''.out'' = Some 2"
  "map_of DIRECTIVES ''.set'' = Some 2" "map_of DIRECTIVES ''.tx_bits'' = Some 3" "map_of DIRECTIVES ''.rx_bits'' = Some 3"
  "map_of DIRECTIVES ''.test'' = Some 2" "map_of DIRECTIVES ''.packing'' = Some 3" "map_of DIRECTIVES ''.clock_ticks'' = Some 2"
  by (simp_all add: DIRECTIVES_def)

lemma specs_post:
  assumes "declared n s"
  shows "map_of DIRECTIVES d = Some 2 \<Longrightarrow> asm_post n (\<lambda>_. True) (asm_window s d w)"
    "map_of DIRECTIVES d = Some 3 \<Longrightarrow> asm_post n (\<lambda>_. True) (asm_shift s d)"
    "asm_post n (\<lambda>_. True) (asm_packing s)" "asm_post n (\<lambda>_. True) (asm_timing s)"
  unfolding asm_window_def asm_shift_def asm_packing_def asm_timing_def
  by (auto intro!: asm_post_bind [OF directive_number_post [OF assms]] asm_post_bind [OF directive_choice_post [OF assms]])

lemma asm_test_post:
  assumes "declared n s"
  shows "asm_post n (\<lambda>_. True) (asm_test s)"
  unfolding asm_test_def
proof (rule asm_post_bind [OF directive_of_post [OF assms directives(10)]], clarify)
  fix args :: "string list" and line :: int
  assume a: "length args = 2" "1 \<le> line" "line \<le> n"
  have pin: "asm_post n (\<lambda>_. True)
      (if t = ''none'' then Inr None else bind_r (asm_number t line ''test pin'' 0 31) (\<lambda>v. Inr (Some v)))" for t
    using a by (auto intro!: asm_post_bind [OF asm_number_post])
  have arg: "asm_post n (\<lambda>v. v = args ! 0) (asm_arg args 0)" using a by (intro asm_arg_post) simp
  show "asm_post n (\<lambda>_. True) (bind_r (asm_arg args 0) (\<lambda>token.
     bind_r (if token = ''none'' then Inr None else bind_r (asm_number token line ''test pin'' 0 31) (\<lambda>v. Inr (Some v))) (\<lambda>pin.
     bind_r (directive_number s ''.test'' 1 ''test flag'' 0 3) (\<lambda>flag. Inr \<lparr>test_spec_pin = pin, test_spec_flag = flag\<rparr>))))"
    by (rule asm_post_bind [OF arg], rule asm_post_bind [OF pin],
        rule asm_post_bind [OF directive_number_post [OF assms directives(10)]]) simp_all
qed

section \<open>Programs\<close>

definition assembled :: "int \<Rightarrow> program \<Rightarrow> bool" where
  "assembled n p \<longleftrightarrow> program_validate p = Inr () \<and> length (source_lines p) = length (instructions p)
     \<and> sorted_wrt (<) (source_lines p) \<and> (\<forall>line \<in> set (source_lines p). 1 \<le> line \<and> line \<le> n)"

lemma validate_post:
  assumes "length (source_lines p) = length (instructions p)" "sorted_wrt (<) (source_lines p)"
    "\<forall>line \<in> set (source_lines p). 1 \<le> line \<and> line \<le> n" "1 \<le> program_line" "program_line \<le> n"
  shows "asm_post n (assembled n) (asm_validated p program_line)"
proof -
  have "asm_post n (\<lambda>_. program_validate p = Inr ()) (map_error (wrap_isa (validate_error p program_line)) (program_validate p))"
  proof (rule wrap_isa_post [OF program_validate_isa])
    fix c assume c: "names_instruction (length (instructions p)) c"
    have "source_lines p ! nat k \<in> set (source_lines p)" if "0 \<le> k" "k < int (length (instructions p))" for k
      using that assms(1) by (intro nth_mem) (simp add: nat_less_iff)
    then show "asm_post n (\<lambda>_. program_validate p = Inr ()) (Inl (validate_error p program_line c))"
      using c assms by (cases "error_instruction c") (auto simp: validate_error_def names_instruction_def)
  qed simp
  then show ?thesis unfolding asm_validated_def by (rule asm_post_bind) (use assms in \<open>simp add: assembled_def\<close>)
qed

lemma asm_program_post:
  assumes "declared n s" "as_statements s \<noteq> []"
  shows "asm_post n (assembled n) (asm_program s)"
proof -
  have ok: "asm_ok n s" using assms(1) by (simp add: declared_def)
  then have st: "\<forall>st \<in> set (as_statements s). statement_ok n st" and sorted: "sorted_wrt (<) (map st_line (as_statements s))"
    by (simp_all add: asm_ok_def lines_ok_def)
  note dir = directive_of_post [OF assms(1) directives(1)]
  have instrs: "asm_post n (list_all2 translates (as_statements s)) (map_r (asm_instruction (as_labels s)) (as_statements s))"
    using st by (intro asm_post_map asm_instruction_post [OF ok]) blast
  note specs = specs_post [OF assms(1)] and labels = label_offset_post [OF assms(1)]
  have lines: "\<forall>line \<in> set (map st_line (as_statements s)). 1 \<le> line \<and> line \<le> n" using st by (auto simp: statement_ok_def)
  show ?thesis unfolding asm_program_def Let_def
    apply (rule asm_post_bind [OF dir], clarify)
    apply (rule asm_post_bind [OF asm_arg_post], simp)
    apply (rule asm_post_bind [OF asm_identifier_post], assumption+)
    apply (rule asm_post_bind [OF asm_test_post [OF assms(1)]])
    apply (rule asm_post_bind [OF specs(3)], rule asm_post_bind [OF specs(4)])
    apply (rule asm_post_bind [OF specs(1)], simp, rule asm_post_bind [OF specs(1)], simp, rule asm_post_bind [OF specs(1)], simp)
    apply (rule asm_post_bind [OF specs(2)], simp, rule asm_post_bind [OF specs(2)], simp)
    apply (rule asm_post_bind [OF instrs], rule asm_post_bind [OF asm_resources_post [OF st]], assumption, clarify)
    apply (rule asm_post_bind [OF labels], simp, rule asm_post_bind [OF labels], simp, rule asm_post_bind [OF labels], simp)
    apply (rule validate_post)
    using sorted lines by (auto dest: list_all2_lengthD)
qed

text \<open>C11: The assembler on arbitrary text. Assembling ends; a failure is an \<open>AssemblyError\<close> that names a line of the
  source (the first line for an empty source), never another exception of Python: no operand is missing, no
  label is lost, no search for a line fails. A result is a program that passes its own validation, with one source
  line for each instruction, in order.\<close>

theorem assemble_sound:
  "case assemble source of
     Inl x \<Rightarrow> \<exists>line c. x = AssemblyError line c \<and> 1 \<le> line \<and> line \<le> max 1 (int (length (splitlines source)))
   | Inr p \<Rightarrow> assembled (int (length (splitlines source))) p"
proof -
  let ?n = "int (length (splitlines source))"
  let ?m = "max 1 ?n"
  have start: "asm_ok 0 \<lparr>as_labels = [], as_statements = [], as_directives = []\<rparr>"
    by (simp add: asm_ok_def lines_ok_def labels_below_def)
  have "asm_post ?m (assembled ?n) (assemble source)"
  proof (cases "splitlines source = []")
    case True
    then show ?thesis by (simp add: assemble_def raise_if_def)
  next
    case False
    let ?fallback = "if splitlines source = [] then 1 else ?n"
    have n: "1 \<le> ?n" "?m = ?n" "?fallback = ?n" using False by (cases "splitlines source", auto)+
    have missing: "asm_post ?n (\<lambda>_. \<forall>d \<in> set DIRECTIVES. map_of (as_directives s) (fst d) \<noteq> None)
        (first_error (map (\<lambda>(directive, _). raise_if (map_of (as_directives s) directive = None)
          (AssemblyError ?n (MissingDirective directive))) DIRECTIVES))" for s
      using n(1) by (intro asm_post_weaken [OF asm_post_first_error]) (force simp: raise_if_def split: if_splits)+
    show ?thesis unfolding assemble_def Let_def n(2,3)
    proof (rule asm_post_bind [OF asm_lines_post [OF start order.refl, simplified]])
      fix s assume s: "asm_ok ?n s"
      show "asm_post ?n (assembled ?n) (bind_r (raise_if (as_statements s = []) (AssemblyError ?n NoInstructions)) (\<lambda>_.
          bind_r (first_error (map (\<lambda>(directive, _). raise_if (map_of (as_directives s) directive = None)
            (AssemblyError ?n (MissingDirective directive))) DIRECTIVES)) (\<lambda>_. asm_program s)))"
        by (rule asm_post_bind [OF asm_post_raise], use n(1) in simp_all, rule asm_post_bind [OF missing])
          (use s in \<open>auto simp: declared_def intro!: asm_program_post\<close>)
    qed
  qed
  then show ?thesis by (simp add: asm_post_def split: sum.split)
qed

end
