(* ===== verification/Pio_Asm_Roundtrip.thy ===== *)
theory Pio_Asm_Roundtrip
  imports Pio_Asm_Props
begin

text \<open>
  Every valid program has a source text: a printer of programs, and that \<open>assemble\<close> inverts it.
\<close>

unbundle bit_operations_syntax

section \<open>The printer\<close>

definition NEWLINE :: char where
  "NEWLINE = CHR 0x0A"

definition symbol_name :: "(string \<times> int) list \<Rightarrow> int \<Rightarrow> string" where
  "symbol_name table v = (case find (\<lambda>p. snd p = v) table of Some p \<Rightarrow> fst p | None \<Rightarrow> [])"

definition line_label :: "int \<Rightarrow> string" where
  "line_label k = ''L'' @ decimal k"

fun comma_join :: "string list \<Rightarrow> string" where
  "comma_join [] = []"
| "comma_join [t] = t"
| "comma_join (t # ts) = t @ '', '' @ comma_join ts"

definition operand_count :: "int \<Rightarrow> int" where
  "operand_count oper = (if oper mod 32 = 0 then 32 else oper mod 32)"

definition operand_tokens :: "instruction \<Rightarrow> string list" where
  "operand_tokens i =
     (let op = opcode i; v = operand i in
      if op = CTRL then [symbol_name CTRL_COMMANDS (v div 32)]
      else if op \<in> {SET_PIN, SET_DIR} then [decimal v]
      else if op = SET_COUNT then [symbol_name COUNT_REGISTERS (v div 128), decimal (v mod 128)]
      else if op = IN_OP then [symbol_name IN_SOURCES (v div 32), decimal (operand_count v)]
      else if op = OUT_OP then [symbol_name OUT_DESTINATIONS (v div 32), decimal (operand_count v)]
      else if op = MOVE_OP then [symbol_name MOVE_REGISTERS (v div 64), symbol_name MOVE_SOURCES (v div 8 mod 8)]
      else if op = FIFO_OP then [symbol_name FIFO_OPERATIONS (v div 128), symbol_name FIFO_MODES (v div 64 mod 2)]
      else if op = WAIT_OP then [symbol_name WAIT_SOURCES (v div 128), decimal (v div 64 mod 2), decimal (v div 2 mod 32)]
      else if op = BRANCH_OP then [symbol_name BRANCH_CONDITIONS (v div 32), line_label (v mod 32)]
      else [symbol_name FLAG_ACTIONS (v div 128), decimal (v div 32 mod 4)])"

definition statement_line :: "int \<times> instruction \<Rightarrow> string" where
  "statement_line ki =
     (case ki of (k, i) \<Rightarrow>
      line_label k @ '': '' @ symbol_name MNEMONICS (opcode i) @ '' '' @ comma_join (operand_tokens i)
      @ '' ['' @ decimal (delay i) @ '']'')"

definition directive_line :: "string \<times> string list \<Rightarrow> string" where
  "directive_line d = (case d of (nm, args) \<Rightarrow> nm @ '' '' @ comma_join args)"

definition window_tokens :: "pin_window \<Rightarrow> string list" where
  "window_tokens w = [decimal (win_base w), decimal (win_width w)]"

definition shift_tokens :: "shift_spec \<Rightarrow> string list" where
  "shift_tokens s =
     [decimal (shift_bits s), (case shift_dir s of Left \<Rightarrow> ''left'' | Right \<Rightarrow> ''right'' | OtherDirection d \<Rightarrow> d),
      (case shift_md s of Manual \<Rightarrow> ''manual'' | Auto \<Rightarrow> ''auto'' | OtherMode m \<Rightarrow> m)]"

definition program_directives :: "program \<Rightarrow> (string \<times> string list) list" where
  "program_directives p =
     [(''.program'', [name p]), (''.entry'', [line_label (entry p)]), (''.wrap_bottom'', [line_label (wrap_bottom p)]),
      (''.wrap_top'', [line_label (wrap_top p)]), (''.in'', window_tokens (in_window p)), (''.out'', window_tokens (out_window p)),
      (''.set'', window_tokens (set_window p)), (''.tx_bits'', shift_tokens (tx p)), (''.rx_bits'', shift_tokens (rx p)),
      (''.test'', [(case test_spec_pin (test p) of None \<Rightarrow> ''none'' | Some n \<Rightarrow> decimal n), decimal (test_spec_flag (test p))]),
      (''.packing'', [decimal (tx_items (packing p)), decimal (rx_items (packing p)), decimal (item_bits (packing p))]),
      (''.clock_ticks'', [decimal (clock_ticks (timing p)),
         (case behavior (timing p) of Fixed \<Rightarrow> ''fixed'' | Stretchable \<Rightarrow> ''stretchable'' | OtherBehavior b \<Rightarrow> b)])]"

definition program_lines :: "program \<Rightarrow> string list" where
  "program_lines p = map directive_line (program_directives p) @ map statement_line (py_enumerate (instructions p))"

definition print_program :: "program \<Rightarrow> string" where
  "print_program p = concat (map (\<lambda>l. l @ [NEWLINE]) (program_lines p))"

section \<open>Texts made of tokens\<close>

text \<open>A token is made of identifier characters; decimals and names are tokens.\<close>

definition token :: "string \<Rightarrow> bool" where
  "token t \<longleftrightarrow> t \<noteq> [] \<and> list_all ident_char t"

lemma ident_char_plain:
  assumes "ident_char c"
  shows "\<not> py_space c" "\<not> line_break c" "c \<noteq> CHR '','' " "c \<noteq> CHR '':''" "c \<noteq> CHR '';''" "c \<noteq> CHR ''[''" "c \<noteq> CHR '']''"
    "c \<noteq> CHR ''.''" "c \<noteq> CHR '' ''"
  using assms
  by (auto simp: ident_char_def ident_start_def dec_digit_def py_space_def line_break_def Let_def)

lemma space_break: "py_space CHR '' ''" "\<not> line_break CHR '' ''" "\<not> py_space CHR ''.''" "\<not> line_break CHR ''.''"
    "\<not> line_break CHR '',''" "\<not> line_break CHR '':''" "\<not> line_break CHR ''[''" "\<not> line_break CHR '']''" "line_break NEWLINE"
    "\<not> py_space CHR '','' " "\<not> py_space CHR '']''" "\<not> ident_char CHR '':''" "\<not> ident_char CHR ''.''"
  by (simp_all add: py_space_def line_break_def NEWLINE_def ident_char_def ident_start_def dec_digit_def)

lemma strip_trimmed:
  assumes "s \<noteq> []" "\<not> py_space (hd s)" "\<not> py_space (last s)"
  shows "strip s = s" "rstrip s = s" "lstrip s = s"
proof -
  show l: "lstrip s = s" using assms by (cases s) auto
  show r: "rstrip s = s" using assms unfolding rstrip_def by (metis dropWhile.simps(2) hd_Cons_tl hd_rev rev_is_Nil_conv rev_rev_ident)
  show "strip s = s" by (simp add: strip_def l r)
qed

lemma strip_space: "py_space c \<Longrightarrow> strip (c # s) = strip s"
  by (simp add: strip_def)

lemma token_ends:
  assumes "token t"
  shows "t \<noteq> []" "\<not> py_space (hd t)" "\<not> py_space (last t)" "\<forall>c \<in> set t. ident_char c"
  using assms by (auto simp: token_def list_all_iff intro: ident_char_plain(1) dest: ident_char_plain(1))

lemma strip_token: "token t \<Longrightarrow> strip t = t"
  by (rule strip_trimmed) (auto dest: token_ends)

lemma token_span:
  assumes "\<forall>c \<in> set t. \<not> P c" "rest = [] \<or> P (hd rest)"
  shows "takeWhile (\<lambda>c. \<not> P c) (t @ rest) = t" "dropWhile (\<lambda>c. \<not> P c) (t @ rest) = rest"
  using assms by (induction t) (cases rest; auto)+

lemma py_words_token:
  assumes "token t"
  shows "py_words t = [t]"
proof -
  have "\<forall>c \<in> set t. \<not> py_space c" using token_ends(4) [OF assms] ident_char_plain(1) by blast
  from token_span [OF this, of "[]"]
  have span: "takeWhile (\<lambda>c. \<not> py_space c) t = t" "dropWhile (\<lambda>c. \<not> py_space c) t = []" by simp_all
  have "lstrip t = t" by (rule strip_trimmed) (use token_ends [OF assms] in auto)
  then show ?thesis using token_ends(1) [OF assms]
    by (subst py_words.simps) (simp add: span py_words.simps [of "[]"] del: dropWhile_eq_Nil_conv takeWhile_eq_all_conv)
qed

lemma split_on_span:
  assumes "d \<notin> set t"
  shows "split_on d t = [t]" "split_on d (t @ d # rest) = t # split_on d rest"
  using assms by (induction t) auto

lemma split_on_space:
  assumes "py_space c" "c \<noteq> d"
  shows "map strip (split_on d (c # s)) = map strip (split_on d s)"
proof -
  have "split_on d s \<noteq> []" by (cases s) auto
  then show ?thesis using assms by (cases "split_on d s") (auto simp: strip_space)
qed

lemma split_join:
  assumes "\<forall>t \<in> set ts. token t" "ts \<noteq> []"
  shows "map strip (split_on (CHR '','') (comma_join ts)) = ts"
  using assms
proof (induction ts rule: comma_join.induct)
  case (2 t)
  have "CHR '','' \<notin> set t" using 2 token_ends(4) ident_char_plain(3) by auto
  then show ?case using 2 by (simp add: split_on_span strip_token)
next
  case (3 t u ts)
  have "CHR '','' \<notin> set t" using 3(2) token_ends(4) ident_char_plain(3) by auto
  then show ?case using 3 split_on_span(2) [of "CHR '',''" t] split_on_space [of "CHR '' ''" "CHR '',''" "comma_join (u # ts)"]
    by (simp add: strip_token space_break)
qed simp

lemma args_join:
  assumes "\<forall>t \<in> set ts. token t" "ts \<noteq> []"
  shows "asm_args (comma_join ts) (length ts) line = Inr ts"
proof (cases "length ts = 1")
  case True
  then obtain t where t: "ts = [t]" by (cases ts) auto
  then have "CHR '','' \<notin> set t" "t \<noteq> []" using assms token_ends(1,4) [of t] ident_char_plain(3) by auto
  then show ?thesis using assms by (simp add: asm_args_def t py_words_token)
next
  case False
  have "\<not> list_ex (\<lambda>item. item = [] \<or> length (py_words item) \<noteq> 1) ts"
    using assms(1) by (auto simp: list_ex_iff py_words_token token_def)
  then show ?thesis using False by (simp add: asm_args_def Let_def split_join [OF assms])
qed

text \<open>Characters of a joined list, of a directive line and of the body of a statement.\<close>

lemma join_chars: "\<forall>t \<in> set ts. token t \<Longrightarrow> c \<in> set (comma_join ts) \<Longrightarrow> ident_char c \<or> c = CHR '','' \<or> c = CHR '' ''"
  by (induction ts rule: comma_join.induct) (auto dest: token_ends(4))

lemma join_ends:
  assumes "\<forall>t \<in> set ts. token t" "ts \<noteq> []"
  shows "comma_join ts \<noteq> []" "\<not> py_space (hd (comma_join ts))" "\<not> py_space (last (comma_join ts))"
  using assms by (induction ts rule: comma_join.induct) (auto dest: token_ends simp: hd_append)

lemma split_first_join:
  assumes "nm \<noteq> []" "\<forall>c \<in> set nm. \<not> py_space c" "\<forall>t \<in> set ts. token t" "ts \<noteq> []"
  shows "split_first (nm @ CHR '' '' # comma_join ts) = [nm, comma_join ts]"
proof -
  have "takeWhile (\<lambda>c. \<not> py_space c) (nm @ CHR '' '' # comma_join ts) = nm"
    "dropWhile (\<lambda>c. \<not> py_space c) (nm @ CHR '' '' # comma_join ts) = CHR '' '' # comma_join ts"
    using token_span [OF assms(2), of "CHR '' '' # comma_join ts"] by (simp_all add: space_break)
  moreover have "lstrip (nm @ CHR '' '' # comma_join ts) = nm @ CHR '' '' # comma_join ts"
    using assms(1,2) by (cases nm) auto
  moreover have "lstrip (CHR '' '' # comma_join ts) = comma_join ts"
    using strip_trimmed(3) [OF join_ends [OF assms(3,4)]] by (simp add: space_break)
  ultimately show ?thesis using join_ends [OF assms(3,4)] by (simp add: split_first_def Let_def)
qed

lemma operand_text_join: "\<forall>t \<in> set ts. token t \<Longrightarrow> ts \<noteq> [] \<Longrightarrow> operand_text [comma_join ts] = comma_join ts"
  using strip_trimmed(1) [OF join_ends] by (simp add: operand_text_def)

section \<open>Lines\<close>

lemma asm_line_clean:
  assumes "CHR '';'' \<notin> set x" "x \<noteq> []" "\<not> py_space (hd x)" "\<not> py_space (last x)" "asm_label s k x = Inr (t, y)"
  shows "asm_line s (k, x) = (if take 1 y = ''.'' then asm_directive t k y else asm_statement t k y)"
proof -
  have w: "takeWhile (\<lambda>c. c \<noteq> CHR '';'') x = x" using assms(1) by (auto simp: takeWhile_eq_all_conv)
  show ?thesis unfolding asm_line_def prod.case Let_def w strip_trimmed(1) [OF assms(2-4)] using assms(2,5) by simp
qed

lemma directive_step:
  assumes "map_of DIRECTIVES nm = Some (length ts)" "\<forall>t \<in> set ts. token t" "map_of (as_directives s) nm = None"
  shows "asm_line s (k, directive_line (nm, ts)) = Inr (s\<lparr>as_directives := (nm, ts, k) # as_directives s\<rparr>)"
proof -
  have nm: "ts \<noteq> []" "hd nm = CHR ''.''" "nm \<noteq> []" "\<forall>c \<in> set (tl nm). ident_char c"
    using assms(1) map_of_SomeD [OF assms(1)]
    by (auto simp: DIRECTIVES_def ident_char_def ident_start_def)
  let ?x = "nm @ CHR '' '' # comma_join ts"
  have nmc: "c = CHR ''.'' \<or> ident_char c" if "c \<in> set nm" for c using that nm(2-4) by (cases nm) auto
  have plain: "c \<noteq> CHR '';''" "c \<noteq> CHR '':''" if "c \<in> set ?x" for c
    using that nmc [of c] join_chars [OF assms(2), of c] ident_char_plain(4,5) [of c] by auto
  have "\<not> py_space (hd ?x)" "\<not> py_space (last ?x)"
    using nm join_ends [OF assms(2) nm(1)] space_break by (auto simp: hd_append)
  moreover have "asm_label s k ?x = Inr (s, ?x)"
  proof -
    have "label_match ?x = None" using nm by (cases nm) (auto simp: label_match_def space_break is_identifier_def)
    moreover have "CHR '':'' \<notin> set ?x" using plain(2) by blast
    ultimately show ?thesis by (simp add: asm_label_def)
  qed
  moreover have "split_first ?x = [nm, comma_join ts]"
    by (rule split_first_join [OF nm(3) _ assms(2) nm(1)]) (use nmc space_break ident_char_plain(1) in auto)
  moreover have "take 1 ?x = ''.''" using nm by (cases nm) auto
  moreover have "directive_line (nm, ts) = ?x" by (simp add: directive_line_def)
  moreover have "CHR '';'' \<notin> set ?x" using plain(1) by blast
  ultimately show ?thesis using asm_line_clean [of ?x s k s ?x] assms nm(1)
    by (simp add: asm_directive_def operand_text_join args_join)
qed

lemma delay_match_body:
  assumes "body \<noteq> []" "\<not> py_space (last body)" "\<forall>c \<in> set body. code_point c \<noteq> 10" "token d"
  shows "delay_match (body @ '' ['' @ d @ '']'') = Some (body, d)"
proof -
  let ?b = "\<lambda>c. c \<in> {CHR ''['', CHR '']''}"
  have d: "\<forall>c \<in> set (rev d). \<not> ?b c" using token_ends(4) [OF assms(4)] ident_char_plain(6,7) by auto
  have front: "rev (butlast (body @ '' ['' @ d @ '']'')) = rev d @ CHR ''['' # CHR '' '' # rev body"
    by (simp add: butlast_append)
  have "dropWhile py_space (CHR '' '' # rev body) = rev body"
    using assms(1,2) by (cases body rule: rev_cases) (auto simp: space_break)
  moreover have "takeWhile (\<lambda>c. \<not> ?b c) (rev d @ CHR ''['' # CHR '' '' # rev body) = rev d"
    "dropWhile (\<lambda>c. \<not> ?b c) (rev d @ CHR ''['' # CHR '' '' # rev body) = CHR ''['' # CHR '' '' # rev body"
    using token_span [OF d, of "CHR ''['' # CHR '' '' # rev body"] by simp_all
  moreover have "\<not> list_ex (\<lambda>c. code_point c = 10) body" using assms(3) by (simp add: list_ex_iff)
  ultimately show ?thesis unfolding delay_match_def front Let_def using token_ends(1) [OF assms(4)] by simp
qed

text \<open>The lines of the printer contain no line feed, and their labels are fresh.\<close>

definition line_char :: "char \<Rightarrow> bool" where
  "line_char c \<longleftrightarrow> ident_char c \<or> c \<in> {CHR ''.'', CHR '' '', CHR '','', CHR '':'', CHR ''['', CHR '']''}"

lemma line_char_plain: "line_char c \<Longrightarrow> \<not> line_break c" "line_char c \<Longrightarrow> code_point c \<noteq> 10" "line_char c \<Longrightarrow> c \<noteq> CHR '';''"
proof -
  assume c: "line_char c"
  then show b: "\<not> line_break c" using ident_char_plain(2) space_break by (auto simp: line_char_def)
  then show "code_point c \<noteq> 10" by (auto simp: line_break_def Let_def)
  show "c \<noteq> CHR '';''" using c ident_char_plain(5) by (auto simp: line_char_def)
qed

lemma label_match_line:
  assumes "is_identifier l" "\<forall>c \<in> set rest. line_char c"
  shows "label_match (l @ CHR '':'' # rest) = Some (l, rest)"
proof -
  have l: "\<forall>c \<in> set l. \<not> (\<not> ident_char c)" using assms(1) by (cases l) (auto simp: is_identifier_def ident_char_def list_all_iff)
  have "takeWhile ident_char (l @ CHR '':'' # rest) = l" "dropWhile ident_char (l @ CHR '':'' # rest) = CHR '':'' # rest"
    using token_span [of l "\<lambda>c. \<not> ident_char c", OF l, of "CHR '':'' # rest"] by (simp_all add: space_break)
  moreover have "\<not> list_ex (\<lambda>c. code_point c = 10) rest" using assms(2) line_char_plain(2) by (auto simp: list_ex_iff)
  ultimately show ?thesis using assms(1) unfolding label_match_def Let_def by simp
qed

lemma statement_step:
  assumes "is_identifier l" "map_of (as_labels s) l = None" "map_of MNEMONICS m = Some op"
    "map_of INSTRUCTION_OPERANDS op = Some (length ts)" "\<forall>t \<in> set ts. token t" "token d" "token m"
    "asm_number d k ''delay'' 0 15 = Inr n" "length (as_statements s) < 32"
  shows "asm_line s (k, l @ '': '' @ m @ '' '' @ comma_join ts @ '' ['' @ d @ '']'') =
    Inr (s\<lparr>as_labels := (l, int (length (as_statements s))) # as_labels s,
      as_statements := as_statements s @ [\<lparr>st_line = k, st_opcode = op, st_args = ts, st_delay = n\<rparr>]\<rparr>)"
proof -
  define body where "body = m @ CHR '' '' # comma_join ts"
  define y where "y = body @ '' ['' @ d @ '']''"
  define x where "x = l @ CHR '':'' # CHR '' '' # y"
  have ts: "ts \<noteq> []" using map_of_SomeD [OF assms(4)] by (auto simp: INSTRUCTION_OPERANDS_def)
  note je = join_ends [OF assms(5) ts]
  have bc: "line_char c" if "c \<in> set body" for c
    using that token_ends(4) [OF assms(7)] join_chars [OF assms(5), of c] by (auto simp: body_def line_char_def)
  have b: "body \<noteq> []" "\<not> py_space (hd body)" "\<not> py_space (last body)" "\<forall>c \<in> set body. code_point c \<noteq> 10"
    using token_ends [OF assms(7)] je bc line_char_plain(2) by (auto simp: body_def hd_append)
  have yc: "line_char c" if "c \<in> set y" for c
    using that bc token_ends(4) [OF assms(6)] by (auto simp: y_def line_char_def)
  have y: "y \<noteq> []" "\<not> py_space (hd y)" "\<not> py_space (last y)" "CHR '']'' \<in> set y" "take 1 y \<noteq> ''.''"
    using b token_ends [OF assms(7)] ident_char_plain(8) space_break
    by (auto simp: y_def body_def hd_append neq_Nil_conv)
  have l: "l \<noteq> []" "ident_char (hd l)" "\<forall>c \<in> set l. ident_char c"
    using assms(1) by (cases l; auto simp: is_identifier_def ident_char_def list_all_iff)+
  have x: "CHR '';'' \<notin> set x" "x \<noteq> []" "\<not> py_space (hd x)" "\<not> py_space (last x)"
    using l yc y line_char_plain(3) [of "CHR '';''"] ident_char_plain(5) [of "CHR '';''"] ident_char_plain(1) by (auto simp: x_def)
  have rest: "\<forall>c \<in> set (CHR '' '' # y). line_char c" using yc by (auto simp: line_char_def)
  have "strip (CHR '' '' # y) = y" using strip_space [of "CHR '' ''" y] strip_trimmed(1) [OF y(1-3)] space_break by simp
  with y have lab: "asm_label s k x = Inr (s\<lparr>as_labels := (l, int (length (as_statements s))) # as_labels s\<rparr>, y)"
    using assms(2) by (simp add: asm_label_def x_def label_match_line [OF assms(1) rest])
  have "delay_match y = Some (body, d)" unfolding y_def by (rule delay_match_body [OF b(1,3,4) assms(6)])
  then have del: "asm_delay y k = Inr (body, n)"
    using y(4) b(1) by (simp add: asm_delay_def strip_token [OF assms(6)] strip_trimmed(1) [OF b(1-3)] assms(8))
  have "split_first body = [m, comma_join ts]" unfolding body_def
    by (rule split_first_join) (use token_ends [OF assms(7)] ident_char_plain(1) assms(5) ts in auto)
  moreover have "x = l @ '': '' @ m @ '' '' @ comma_join ts @ '' ['' @ d @ '']''" by (simp add: x_def y_def body_def)
  ultimately show ?thesis using asm_line_clean [OF x lab] y(5) del assms(3,4,5,9) ts
    by (simp add: asm_statement_def operand_text_join args_join)
qed

section \<open>Numbers and symbols\<close>

lemma decimal_digit_char: "0 \<le> d \<Longrightarrow> d < 10 \<Longrightarrow> dec_digit (decimal_digit d) \<and> digit_value (decimal_digit d) = d"
  by (auto simp: decimal_digit_def dec_digit_def digit_value_def Let_def nat_less_iff)

lemma decimal_digits: "0 \<le> n \<Longrightarrow> decimal n \<noteq> [] \<and> list_all dec_digit (decimal n)"
proof (induction n rule: decimal.induct)
  case (1 n)
  then show ?case using decimal_digit_char [of n] decimal_digit_char [of "n mod 10"]
    by (subst (1 2) decimal.simps) auto
qed

lemma numeral_value_decimal: "0 \<le> n \<Longrightarrow> numeral_value 10 (decimal n) = n"
proof (induction n rule: decimal.induct)
  case (1 n)
  show ?case
  proof (cases "n < 10")
    case True
    then show ?thesis using 1(2) decimal_digit_char [of n] by (subst decimal.simps) (simp add: numeral_value_def)
  next
    case False
    then show ?thesis using 1 decimal_digit_char [of "n mod 10"] by (subst decimal.simps) (simp add: numeral_value_def)
  qed
qed

lemma length_decimal: "0 \<le> n \<Longrightarrow> n < 10 ^ Suc k \<Longrightarrow> length (decimal n) \<le> Suc k"
proof (induction k arbitrary: n)
  case (Suc k)
  have "n div 10 < 10 ^ Suc k" using Suc.prems by simp
  with Suc show ?case by (subst decimal.simps) auto
qed (simp add: decimal.simps)

lemma decimal_token: "0 \<le> n \<Longrightarrow> token (decimal n)"
  using decimal_digits [of n] by (auto simp: token_def ident_char_def list_all_iff)

lemma asm_number_decimal:
  assumes "0 \<le> n" "lo \<le> n" "n \<le> hi" "n < 10 ^ 10"
  shows "asm_number (decimal n) line nm lo hi = Inr n"
proof -
  have d: "decimal n \<noteq> []" "list_all dec_digit (decimal n)" using decimal_digits [OF assms(1)] by auto
  then have "is_number (decimal n)" by (simp add: is_number_def)
  moreover have "take 2 (decimal n) \<noteq> ''0x''"
  proof
    assume x: "take 2 (decimal n) = ''0x''"
    have "CHR ''x'' \<in> set (take 2 (decimal n))" unfolding x by simp
    then have "CHR ''x'' \<in> set (decimal n)" by (rule in_set_takeD)
    with d(2) show False by (auto simp: list_all_iff dec_digit_def)
  qed
  moreover have "length (decimal n) \<le> 10" using length_decimal [of n 9] assms by simp
  ultimately show ?thesis using assms numeral_value_decimal [OF assms(1)]
    by (simp add: asm_number_def int_of_decimal_def)
qed

lemma decimal_inject: "0 \<le> m \<Longrightarrow> 0 \<le> n \<Longrightarrow> decimal m = decimal n \<longleftrightarrow> m = n"
  by (metis numeral_value_decimal)

lemma line_label_facts: "0 \<le> k \<Longrightarrow> is_identifier (line_label k) \<and> token (line_label k)"
  using decimal_token [of k] by (auto simp: line_label_def is_identifier_def ident_start_def token_def ident_char_def)

lemma asm_symbol_name:
  assumes "map_of table (symbol_name table v) = Some v"
  shows "asm_symbol (symbol_name table v) table line nm = Inr v"
  by (simp add: asm_symbol_def assms)

definition named :: "(string \<times> int) list \<Rightarrow> int \<Rightarrow> bool" where
  "named table v \<longleftrightarrow> map_of table (symbol_name table v) = Some v \<and> token (symbol_name table v)"

definition symbol_table :: "(string \<times> int) list \<Rightarrow> bool" where
  "symbol_table table \<longleftrightarrow> distinct (map fst table) \<and> list_all token (map fst table)"

lemma named_entry:
  assumes "symbol_table table" "v \<in> set (map snd table)"
  shows "named table v"
proof -
  obtain nm w where p: "find (\<lambda>p. snd p = v) table = Some (nm, w)"
    using assms(2) by (cases "find (\<lambda>p. snd p = v) table") (auto simp: find_None_iff)
  then have "(nm, w) \<in> set table" "w = v" unfolding find_Some_iff by (metis nth_mem, metis snd_conv)
  then have "(nm, v) \<in> set table" by simp
  then have "map_of table nm = Some v" "token nm"
    using assms(1) by (auto simp: symbol_table_def list_all_iff intro: map_of_is_SomeI)
  then show ?thesis by (simp add: named_def symbol_name_def p)
qed

lemmas table_defs = CTRL_COMMANDS_def COUNT_REGISTERS_def IN_SOURCES_def OUT_DESTINATIONS_def MOVE_REGISTERS_def
  MOVE_SOURCES_def FIFO_OPERATIONS_def FIFO_MODES_def WAIT_SOURCES_def BRANCH_CONDITIONS_def FLAG_ACTIONS_def
  MNEMONICS_def

lemma symbol_tables:
  "symbol_table CTRL_COMMANDS" "symbol_table COUNT_REGISTERS" "symbol_table IN_SOURCES" "symbol_table OUT_DESTINATIONS"
  "symbol_table MOVE_REGISTERS" "symbol_table MOVE_SOURCES" "symbol_table FIFO_OPERATIONS" "symbol_table FIFO_MODES"
  "symbol_table WAIT_SOURCES" "symbol_table BRANCH_CONDITIONS" "symbol_table FLAG_ACTIONS" "symbol_table MNEMONICS"
  unfolding symbol_table_def table_defs
  by (simp_all add: token_def ident_char_def ident_start_def dec_digit_def)

lemma table_values:
  "set (map snd CTRL_COMMANDS) = {0..3}" "set (map snd COUNT_REGISTERS) = {0..1}" "set (map snd IN_SOURCES) = {0..3}"
  "set (map snd OUT_DESTINATIONS) = {0..4}" "set (map snd MOVE_REGISTERS) = {0..3}" "set (map snd MOVE_SOURCES) = {0..5}"
  "set (map snd FIFO_OPERATIONS) = {0..1}" "set (map snd FIFO_MODES) = {0..1}" "set (map snd WAIT_SOURCES) = {0..1}"
  "set (map snd BRANCH_CONDITIONS) = {0..7}" "set (map snd FLAG_ACTIONS) = {0..1}" "set (map snd MNEMONICS) = insert 10 (insert 9 {0..8})"
  by (auto simp: table_defs)

lemmas named_tables =
  named_entry [OF symbol_tables(1), unfolded table_values]
  named_entry [OF symbol_tables(2), unfolded table_values]
  named_entry [OF symbol_tables(3), unfolded table_values]
  named_entry [OF symbol_tables(4), unfolded table_values]
  named_entry [OF symbol_tables(5), unfolded table_values]
  named_entry [OF symbol_tables(6), unfolded table_values]
  named_entry [OF symbol_tables(7), unfolded table_values]
  named_entry [OF symbol_tables(8), unfolded table_values]
  named_entry [OF symbol_tables(9), unfolded table_values]
  named_entry [OF symbol_tables(10), unfolded table_values]
  named_entry [OF symbol_tables(11), unfolded table_values]
  named_entry [OF symbol_tables(12), unfolded table_values]

lemma two_fields:
  fixes v a b :: int
  assumes "0 < a" "0 < b"
  shows "v div (a * b) * (a * b) + v div a mod b * a = v div a * a"
proof -
  have n: "v div (a * b) = v div a div b" using assms by (simp add: zdiv_zmult2_eq)
  have "v div (a * b) * (a * b) + v div a mod b * a = (v div a div b * b + v div a mod b) * a"
    unfolding n by (simp only: algebra_simps)
  then show ?thesis by (simp only: div_mult_mod_eq)
qed

lemma exact_field: "v mod a = 0 \<Longrightarrow> v div a * a = (v::int)"
  using div_mult_mod_eq [of v a] by simp

lemma field_bound: "0 < a \<Longrightarrow> 0 < b \<Longrightarrow> 0 \<le> x mod b * a \<and> x mod b * a < b * (a::int)"
  by simp

lemma operand_parts:
  fixes v :: int
  shows "shl (v div 32) 5 OR (v mod 32) = v" "shl (v div 128) 7 OR (v mod 128) = v"
    "v mod 32 = 0 \<Longrightarrow> shl (v div 32) 5 = v" "v mod 8 = 0 \<Longrightarrow> shl (v div 64) 6 OR shl (v div 8 mod 8) 3 = v"
    "v mod 64 = 0 \<Longrightarrow> shl (v div 128) 7 OR shl (v div 64 mod 2) 6 = v"
    "v mod 2 = 0 \<Longrightarrow> (shl (v div 128) 7 OR shl (v div 64 mod 2) 6) OR shl (v div 2 mod 32) 1 = v"
    "v mod 32 = 0 \<Longrightarrow> shl (v div 128) 7 OR shl (v div 32 mod 4) 5 = v"
proof -
  note split = or_shift_add(2)
  show "shl (v div 32) 5 OR (v mod 32) = v" using split [of "v mod 32" 5 "v div 32"] by simp
  show "shl (v div 128) 7 OR (v mod 128) = v" using split [of "v mod 128" 7 "v div 128"] by simp
  have s: "shl x 1 = x * 2" "shl x 3 = x * 8" "shl x 5 = x * 32" "shl x 6 = x * 64" for x by (simp_all add: push_bit_eq_mult)
  show "v mod 32 = 0 \<Longrightarrow> shl (v div 32) 5 = v" unfolding s by (rule exact_field)
  have e: "(8::int) * 8 = 64" "(64::int) * 2 = 128" "(2::int) * 64 = 128" "(2::int) * 32 = 64" "(32::int) * 2 = 64"
    "(32::int) * 4 = 128" "(4::int) * 32 = 128" by simp_all
  have pos: "(0::int) < numeral k" for k by simp
  have six: "shl x 6 OR y = x * 64 + y" if "0 \<le> y \<and> y < 64" for x y using split [of y 6 x] that by simp
  have seven: "shl x 7 OR y = x * 128 + y" if "0 \<le> y \<and> y < 128" for x y using split [of y 7 x] that by simp
  have "shl (v div 64) 6 OR v div 8 mod 8 * 8 = v div 8 * 8"
    unfolding six [OF field_bound [of 8 8, unfolded e, OF pos pos]] by (rule two_fields [of 8 8, unfolded e, OF pos pos])
  then show "v mod 8 = 0 \<Longrightarrow> shl (v div 64) 6 OR shl (v div 8 mod 8) 3 = v"
    unfolding s(2) by (simp only: exact_field)
  have top: "shl (v div 128) 7 OR v div 64 mod 2 * 64 = v div 64 * 64"
    unfolding seven [OF field_bound [of 64 2, unfolded e, OF pos pos]] by (rule two_fields [of 64 2, unfolded e, OF pos pos])
  show "v mod 64 = 0 \<Longrightarrow> shl (v div 128) 7 OR shl (v div 64 mod 2) 6 = v"
    unfolding s(4) top by (rule exact_field)
  have "v div 64 * 64 OR v div 2 mod 32 * 2 = v div 2 * 2"
    using six [OF field_bound [of 2 32, unfolded e, OF pos pos], of "v div 64" "v div 2"] two_fields [of 2 32 v, unfolded e, OF pos pos]
    unfolding s(4) by (simp only:)
  then show "v mod 2 = 0 \<Longrightarrow> (shl (v div 128) 7 OR shl (v div 64 mod 2) 6) OR shl (v div 2 mod 32) 1 = v"
    unfolding s(1,4) top by (simp only: exact_field)
  have "shl (v div 128) 7 OR v div 32 mod 4 * 32 = v div 32 * 32"
    unfolding seven [OF field_bound [of 32 4, unfolded e, OF pos pos]] by (rule two_fields [of 32 4, unfolded e, OF pos pos])
  then show "v mod 32 = 0 \<Longrightarrow> shl (v div 128) 7 OR shl (v div 32 mod 4) 5 = v"
    unfolding s(3) by (simp only: exact_field)
qed

lemma operand_ranges:
  fixes v :: int
  assumes "0 \<le> v" "v \<le> 255"
  shows "v div 32 \<in> {0..7}" "v div 128 \<in> {0..1}" "v div 64 \<in> {0..3}" "v div 64 mod 2 \<in> {0..1}" "v div 8 mod 8 \<in> {0..7}"
    "v div 2 mod 32 \<in> {0..31}" "v div 32 mod 4 \<in> {0..3}" "v mod 128 \<in> {0..127}" "v mod 32 \<in> {0..31}"
    "operand_count v \<in> {1..32}" "operand_count v AND 31 = v mod 32"
proof -
  have "v div 32 \<le> 255 div 32" "v div 128 \<le> 255 div 128" "v div 64 \<le> 255 div 64" by (rule zdiv_mono1; use assms in simp)+
  then show "v div 32 \<in> {0..7}" "v div 128 \<in> {0..1}" "v div 64 \<in> {0..3}" using assms by simp_all
  have m: "x mod k \<in> {0..h}" if "0 < k" "k = h + 1" for x k h :: int
    using pos_mod_bound [OF that(1), of x] pos_mod_sign [OF that(1), of x] that(2) by simp
  show "v div 64 mod 2 \<in> {0..1}" "v div 8 mod 8 \<in> {0..7}" "v div 2 mod 32 \<in> {0..31}" "v div 32 mod 4 \<in> {0..3}"
    "v mod 128 \<in> {0..127}" "v mod 32 \<in> {0..31}"
    by (rule m; simp)+
  define x where "x = v mod 32"
  have "x \<in> {0..31}" unfolding x_def by (rule m) simp_all
  moreover have "operand_count v = (if x = 0 then 32 else x)" by (simp only: x_def operand_count_def)
  ultimately have x: "0 \<le> x" "x \<le> 31" "operand_count v = (if x = 0 then 32 else x)" by simp_all
  then show "operand_count v \<in> {1..32}" by auto
  have "operand_count v AND 31 = x" using x by (auto simp: bit_arith)
  then show "operand_count v AND 31 = v mod 32" by (simp add: x_def)
qed

lemma high_bit: "0 \<le> v \<Longrightarrow> v \<le> 255 \<Longrightarrow> v AND 128 = 0 \<longleftrightarrow> v div 128 = (0::int)"
  using operand_ranges(2) [of v] by (auto simp: and_bit_zero_iff [of v 7, simplified] bits_of_def bit_iff_odd)

lemma operand_valid:
  assumes "instruction_validate i = Inr ()"
  shows "opcode i = CTRL \<Longrightarrow> operand i mod 32 = 0 \<and> operand i div 32 \<le> 3"
    "opcode i = IN_OP \<Longrightarrow> operand i div 32 \<le> 3" "opcode i = OUT_OP \<Longrightarrow> operand i div 32 \<le> 4"
    "opcode i = MOVE_OP \<Longrightarrow> operand i mod 8 = 0 \<and> operand i div 8 mod 8 \<le> 5"
    "opcode i = FIFO_OP \<Longrightarrow> operand i mod 64 = 0"
    "opcode i = WAIT_OP \<Longrightarrow> operand i mod 2 = 0 \<and> (operand i div 128 = 0 \<or> operand i div 2 mod 32 \<le> 3)"
    "opcode i = FLAG_OP \<Longrightarrow> operand i mod 32 = 0"
proof -
  note r = instruction_validate_ranges [OF assms]
  note v = r(7) [unfolded validate_operand_def Let_def]
  have e: "encoded_count (operand i AND 31) = Inr (if operand i mod 32 = 0 then 32 else operand i mod 32)" by simp
  show "opcode i = CTRL \<Longrightarrow> operand i mod 32 = 0 \<and> operand i div 32 \<le> 3"
    using v by (simp add: first_error_Inr raise_if_Inr bit_arith)
  show "opcode i = IN_OP \<Longrightarrow> operand i div 32 \<le> 3" using v by (simp add: raise_if_Inr bit_arith)
  show "opcode i = OUT_OP \<Longrightarrow> operand i div 32 \<le> 4" using v by (simp add: bit_arith split: if_splits)
  show "opcode i = MOVE_OP \<Longrightarrow> operand i mod 8 = 0 \<and> operand i div 8 mod 8 \<le> 5" using v by (simp add: raise_if_Inr bit_arith)
  show "opcode i = FIFO_OP \<Longrightarrow> operand i mod 64 = 0" using v by (simp add: raise_if_Inr bit_arith)
  show "opcode i = FLAG_OP \<Longrightarrow> operand i mod 32 = 0" using v by (simp add: raise_if_Inr bit_arith)
  show "operand i mod 2 = 0 \<and> (operand i div 128 = 0 \<or> operand i div 2 mod 32 \<le> 3)" if op: "opcode i = WAIT_OP"
  proof -
    have "operand i AND 1 = 0" "operand i AND 128 = 0 \<or> shr (operand i) 1 AND 31 \<le> 3"
      using v op by (auto simp: first_error_Inr raise_if_Inr)
    then show ?thesis unfolding high_bit [OF r(5,6)] by (simp add: bit_arith)
  qed
qed

section \<open>Statements\<close>

lemma arg_symbol_named:
  assumes "named table v" "k < length args" "args ! k = symbol_name table v"
  shows "arg_symbol \<lparr>st_line = line, st_opcode = op, st_args = args, st_delay = d\<rparr> k table nm = Inr v"
  using assms by (simp add: arg_symbol_def asm_arg_def asm_symbol_def named_def)

lemma arg_number_decimal:
  assumes "v \<in> {lo..hi}" "0 \<le> lo" "hi < 10 ^ 10" "k < length args" "args ! k = decimal v"
  shows "arg_number \<lparr>st_line = line, st_opcode = op, st_args = args, st_delay = d\<rparr> k nm lo hi = Inr v"
  using assms by (simp add: arg_number_def asm_arg_def asm_number_decimal)

lemma arg_label_line:
  assumes "0 \<le> v" "map_of labels (line_label v) = Some v" "k < length args" "args ! k = line_label v"
  shows "arg_label \<lparr>st_line = line, st_opcode = op, st_args = args, st_delay = d\<rparr> k labels = Inr v"
  using assms line_label_facts [OF assms(1)] by (simp add: arg_label_def asm_arg_def asm_identifier_def)

lemma asm_operand_tokens:
  assumes valid: "instruction_validate i = Inr ()"
    and labels: "opcode i = BRANCH_OP \<Longrightarrow> map_of labels (line_label (operand i mod 32)) = Some (operand i mod 32)"
  shows "asm_operand \<lparr>st_line = line, st_opcode = opcode i, st_args = operand_tokens i, st_delay = d\<rparr> labels = Inr (operand i)"
proof -
  note r = instruction_validate_ranges [OF valid]
  note f = operand_ranges [OF r(5,6)] and p = operand_parts [of "operand i"] and o = operand_valid [OF valid]
  have op: "opcode i \<in> {CTRL, SET_PIN, SET_DIR, SET_COUNT, IN_OP, OUT_OP, MOVE_OP, FIFO_OP, WAIT_OP, BRANCH_OP, FLAG_OP}"
    using r(1,2) by (cases "opcode i < 5") auto
  let ?st = "\<lparr>st_line = line, st_opcode = opcode i, st_args = operand_tokens i, st_delay = d\<rparr>"
  consider "opcode i = CTRL" | "opcode i \<in> {SET_PIN, SET_DIR}" | "opcode i = SET_COUNT" | "opcode i = IN_OP" | "opcode i = OUT_OP"
    | "opcode i = MOVE_OP" | "opcode i = FIFO_OP" | "opcode i = WAIT_OP" | "opcode i = BRANCH_OP" | "opcode i = FLAG_OP"
    using op by auto
  then show ?thesis
  proof cases
    case 1
    have "arg_symbol ?st 0 CTRL_COMMANDS nm = Inr (operand i div 32)" for nm
      by (rule arg_symbol_named) (use 1 f(1) o(1) in \<open>auto simp: operand_tokens_def Let_def intro: named_tables(1)\<close>)
    then show ?thesis using 1 p(3) o(1) by (simp add: asm_operand_def)
  next
    case 2
    have "arg_number ?st 0 nm 0 255 = Inr (operand i)" for nm
      by (rule arg_number_decimal) (use 2 r in \<open>auto simp: operand_tokens_def Let_def\<close>)
    then show ?thesis using 2 by (auto simp: asm_operand_def)
  next
    case 3
    have "arg_symbol ?st 0 COUNT_REGISTERS nm = Inr (operand i div 128)" "arg_number ?st 1 nm' 0 127 = Inr (operand i mod 128)" for nm nm'
      by (rule arg_symbol_named arg_number_decimal; use 3 f(2,8) in \<open>simp add: operand_tokens_def Let_def named_tables(2)\<close>)+
    then show ?thesis using 3 p(2) by (simp add: asm_operand_def)
  next
    case 4
    have "arg_symbol ?st 0 IN_SOURCES nm = Inr (operand i div 32)" "arg_number ?st 1 nm' 1 32 = Inr (operand_count (operand i))" for nm nm'
      by (rule arg_symbol_named arg_number_decimal; use 4 f(1,10) o(2) in \<open>simp add: operand_tokens_def Let_def named_tables(3)\<close>)+
    then show ?thesis using 4 p(1) f(11) by (simp add: asm_operand_def)
  next
    case 5
    have "arg_symbol ?st 0 OUT_DESTINATIONS nm = Inr (operand i div 32)" "arg_number ?st 1 nm' 1 32 = Inr (operand_count (operand i))" for nm nm'
      by (rule arg_symbol_named arg_number_decimal; use 5 f(1,10) o(3) in \<open>simp add: operand_tokens_def Let_def named_tables(4)\<close>)+
    then show ?thesis using 5 p(1) f(11) by (simp add: asm_operand_def)
  next
    case 6
    have "operand i div 64 \<in> {0..3}" "operand i div 8 mod 8 \<in> {0..5}" using f(3,5) o(4) 6 by simp_all
    then have "arg_symbol ?st 0 MOVE_REGISTERS nm = Inr (operand i div 64)" "arg_symbol ?st 1 MOVE_SOURCES nm' = Inr (operand i div 8 mod 8)"
      for nm nm'
      by - (rule arg_symbol_named; use 6 in \<open>simp add: operand_tokens_def Let_def named_tables(5,6)\<close>)+
    then show ?thesis using 6 p(4) o(4) by (simp add: asm_operand_def)
  next
    case 7
    have "arg_symbol ?st 0 FIFO_OPERATIONS nm = Inr (operand i div 128)" "arg_symbol ?st 1 FIFO_MODES nm' = Inr (operand i div 64 mod 2)"
      for nm nm'
      by (rule arg_symbol_named; use 7 f(2,4) in \<open>simp add: operand_tokens_def Let_def named_tables(7,8)\<close>)+
    then show ?thesis using 7 p(5) o(5) by (simp add: asm_operand_def)
  next
    case 8
    let ?hi = "if operand i div 128 = 0 then 31 else 3"
    have hi: "operand i div 2 mod 32 \<in> {0..?hi}" using f(6) o(6) 8 by auto
    have "arg_symbol ?st 0 WAIT_SOURCES nm = Inr (operand i div 128)" "arg_number ?st 1 nm' 0 1 = Inr (operand i div 64 mod 2)"
      "arg_number ?st 2 nm'' 0 ?hi = Inr (operand i div 2 mod 32)" for nm nm' nm''
      by (rule arg_symbol_named arg_number_decimal; use 8 f(2,4) hi in \<open>simp add: operand_tokens_def Let_def named_tables(9)\<close>)+
    then show ?thesis using 8 p(6) o(6) by (simp add: asm_operand_def)
  next
    case 9
    have "arg_symbol ?st 0 BRANCH_CONDITIONS nm = Inr (operand i div 32)" "arg_label ?st 1 labels = Inr (operand i mod 32)" for nm
      by (rule arg_symbol_named arg_label_line; use 9 f(1,9) labels in \<open>simp add: operand_tokens_def Let_def named_tables(10)\<close>)+
    then show ?thesis using 9 p(1) by (simp add: asm_operand_def)
  next
    case 10
    have "arg_symbol ?st 0 FLAG_ACTIONS nm = Inr (operand i div 128)" "arg_number ?st 1 nm' 0 3 = Inr (operand i div 32 mod 4)" for nm nm'
      by (rule arg_symbol_named arg_number_decimal; use 10 f(2,7) in \<open>simp add: operand_tokens_def Let_def named_tables(11)\<close>)+
    then show ?thesis using 10 p(7) o(7) by (simp add: asm_operand_def)
  qed
qed

lemma asm_instruction_tokens:
  assumes "instruction_validate i = Inr ()"
    "opcode i = BRANCH_OP \<Longrightarrow> map_of labels (line_label (operand i mod 32)) = Some (operand i mod 32)"
  shows "asm_instruction labels \<lparr>st_line = line, st_opcode = opcode i, st_args = operand_tokens i, st_delay = delay i\<rparr> = Inr i"
proof -
  have "\<lparr>opcode = opcode i, delay = delay i, operand = operand i\<rparr> = i" by simp
  note this [simp]
  show ?thesis using asm_operand_tokens [OF assms] assms(1) by (simp add: asm_instruction_def Let_def)
qed

lemma operand_tokens_shape:
  assumes "instruction_validate i = Inr ()"
  shows "\<forall>t \<in> set (operand_tokens i). token t" "map_of INSTRUCTION_OPERANDS (opcode i) = Some (length (operand_tokens i))"
    "named MNEMONICS (opcode i)"
proof -
  note r = instruction_validate_ranges [OF assms]
  note f = operand_ranges [OF r(5,6)] and o = operand_valid [OF assms]
  have op: "opcode i \<in> {CTRL, SET_PIN, SET_DIR, SET_COUNT, IN_OP, OUT_OP, MOVE_OP, FIFO_OP, WAIT_OP, BRANCH_OP, FLAG_OP}"
    using r(1,2) by (cases "opcode i < 5") auto
  have d: "token (decimal v)" if "0 \<le> v" for v using that by (rule decimal_token)
  have n: "token (symbol_name table v)" if "named table v" for table v using that by (simp add: named_def)
  have numbers: "token (decimal (operand i))" "token (decimal (operand i mod 128))" "token (decimal (operand_count (operand i)))"
    "token (decimal (operand i div 64 mod 2))" "token (decimal (operand i div 2 mod 32))" "token (decimal (operand i div 32 mod 4))"
    by (rule d; use r(5) f(10) in simp)+
  note tables = n [OF named_tables(2) [OF f(2)]] n [OF named_tables(5) [OF f(3)]] n [OF named_tables(7) [OF f(2)]]
    n [OF named_tables(8) [OF f(4)]] n [OF named_tables(9) [OF f(2)]] n [OF named_tables(10) [OF f(1)]]
    n [OF named_tables(11) [OF f(2)]]
  have special: "opcode i = CTRL \<Longrightarrow> token (symbol_name CTRL_COMMANDS (operand i div 32))"
    "opcode i = IN_OP \<Longrightarrow> token (symbol_name IN_SOURCES (operand i div 32))"
    "opcode i = OUT_OP \<Longrightarrow> token (symbol_name OUT_DESTINATIONS (operand i div 32))"
    "opcode i = MOVE_OP \<Longrightarrow> token (symbol_name MOVE_SOURCES (operand i div 8 mod 8))"
    by (rule n, rule named_tables(1), use f(1) o(1) in simp, rule n, rule named_tables(3), use f(1) o(2) in simp,
        rule n, rule named_tables(4), use f(1) o(3) in simp, rule n, rule named_tables(6), use f(5) o(4) in simp)
  have label: "token (line_label (operand i mod 32))" using line_label_facts by simp
  show "\<forall>t \<in> set (operand_tokens i). token t"
    using op special numbers tables label unfolding operand_tokens_def Let_def
    by (elim insertE emptyE) simp_all
  show "map_of INSTRUCTION_OPERANDS (opcode i) = Some (length (operand_tokens i))"
    using op by (auto simp: operand_tokens_def Let_def INSTRUCTION_OPERANDS_def)
  show "named MNEMONICS (opcode i)" using op by (intro named_tables(12)) auto
qed

section \<open>All lines\<close>

lemma splitlines_lines:
  assumes "\<forall>l \<in> set ls. \<forall>c \<in> set l. \<not> line_break c"
  shows "splitlines (concat (map (\<lambda>l. l @ [NEWLINE]) ls)) = ls"
  using assms
proof (induction ls)
  case (Cons l ls)
  let ?rest = "concat (map (\<lambda>l. l @ [NEWLINE]) ls)"
  have span: "takeWhile (\<lambda>c. \<not> line_break c) (l @ NEWLINE # ?rest) = l" "dropWhile (\<lambda>c. \<not> line_break c) (l @ NEWLINE # ?rest) = NEWLINE # ?rest"
    using token_span [of l line_break "NEWLINE # ?rest"] Cons.prems space_break by simp_all
  have "after_break (NEWLINE # ?rest) = ?rest" by (simp add: after_break_def NEWLINE_def)
  then have "splitlines (l @ NEWLINE # ?rest) = l # splitlines ?rest"
    by (subst splitlines.simps) (simp add: span del: takeWhile_eq_all_conv dropWhile_eq_Nil_conv)
  then show ?case using Cons by simp
qed (simp add: splitlines.simps)

primrec printed_lines :: "int \<Rightarrow> instruction list \<Rightarrow> string list" where
  "printed_lines k [] = []"
| "printed_lines k (i # is) = statement_line (k, i) # printed_lines (k + 1) is"

primrec printed_statements :: "int \<Rightarrow> instruction list \<Rightarrow> statement list" where
  "printed_statements n [] = []"
| "printed_statements n (i # is) =
     \<lparr>st_line = n, st_opcode = opcode i, st_args = operand_tokens i, st_delay = delay i\<rparr> # printed_statements (n + 1) is"

primrec printed_labels :: "int \<Rightarrow> instruction list \<Rightarrow> (string \<times> int) list \<Rightarrow> (string \<times> int) list" where
  "printed_labels k [] ls = ls"
| "printed_labels k (i # is) ls = printed_labels (k + 1) is ((line_label k, k) # ls)"

lemma statement_line_step:
  assumes "instruction_validate i = Inr ()" "0 \<le> k" "map_of (as_labels s) (line_label k) = None"
    "int (length (as_statements s)) = k" "k < 32"
  shows "asm_line s (n, statement_line (k, i)) = Inr (s\<lparr>as_labels := (line_label k, k) # as_labels s,
    as_statements := as_statements s @ [\<lparr>st_line = n, st_opcode = opcode i, st_args = operand_tokens i, st_delay = delay i\<rparr>]\<rparr>)"
proof -
  note r = instruction_validate_ranges [OF assms(1)] and t = operand_tokens_shape [OF assms(1)]
  have "asm_number (decimal (delay i)) n ''delay'' 0 15 = Inr (delay i)" using r(3,4) by (intro asm_number_decimal) simp_all
  then show ?thesis using statement_step [of "line_label k" s "symbol_name MNEMONICS (opcode i)" "opcode i" "operand_tokens i"
      "decimal (delay i)" n "delay i"] line_label_facts [OF assms(2)] assms(3-5) t decimal_token [OF r(3)]
    by (simp add: statement_line_def named_def)
qed

lemma line_label_inject: "0 \<le> j \<Longrightarrow> 0 \<le> k \<Longrightarrow> line_label j = line_label k \<longleftrightarrow> j = k"
  by (simp add: line_label_def decimal_inject)

lemma statements_fold:
  assumes "\<forall>i \<in> set is. instruction_validate i = Inr ()" "int (length (as_statements s)) = k" "k + int (length is) \<le> 32"
    "\<forall>j \<ge> k. map_of (as_labels s) (line_label j) = None"
  shows "foldl_r asm_line s (zip [n..n + int (length is) - 1] (printed_lines k is)) =
    Inr (s\<lparr>as_labels := printed_labels k is (as_labels s), as_statements := as_statements s @ printed_statements n is\<rparr>)"
  using assms
proof (induction "is" arbitrary: s k n)
  case (Cons i "is")
  let ?t = "s\<lparr>as_labels := (line_label k, k) # as_labels s,
    as_statements := as_statements s @ [\<lparr>st_line = n, st_opcode = opcode i, st_args = operand_tokens i, st_delay = delay i\<rparr>]\<rparr>"
  have k: "0 \<le> k" using Cons.prems(2) by simp
  have step: "asm_line s (n, statement_line (k, i)) = Inr ?t"
    using Cons.prems k by (intro statement_line_step) auto
  have "\<forall>j \<ge> k + 1. map_of (as_labels ?t) (line_label j) = None"
    using Cons.prems(4) k line_label_inject by auto
  then have "foldl_r asm_line ?t (zip [n + 1..(n + 1) + int (length is) - 1] (printed_lines (k + 1) is)) =
    Inr (?t\<lparr>as_labels := printed_labels (k + 1) is (as_labels ?t), as_statements := as_statements ?t @ printed_statements (n + 1) is\<rparr>)"
    using Cons.prems by (intro Cons.IH) auto
  moreover have "[n..n + int (length (i # is)) - 1] = n # [n + 1..(n + 1) + int (length is) - 1]"
    by (simp add: upto_rec1)
  ultimately show ?case using step by simp
qed simp

primrec printed_directives :: "int \<Rightarrow> (string \<times> string list) list \<Rightarrow> (string \<times> string list \<times> int) list" where
  "printed_directives n [] = []"
| "printed_directives n (d # ds) = (fst d, snd d, n) # printed_directives (n + 1) ds"

lemma printed_directive_names: "map fst (printed_directives n ds) = map fst ds"
  by (induction ds arbitrary: n) auto

lemma directives_fold:
  assumes "\<forall>d \<in> set ds. map_of DIRECTIVES (fst d) = Some (length (snd d)) \<and> (\<forall>t \<in> set (snd d). token t)"
    "distinct (map fst ds)" "\<forall>d \<in> set ds. map_of (as_directives s) (fst d) = None"
  shows "foldl_r asm_line s (zip [n..n + int (length ds) - 1] (map directive_line ds)) =
    Inr (s\<lparr>as_directives := rev (printed_directives n ds) @ as_directives s\<rparr>)"
  using assms
proof (induction ds arbitrary: s n)
  case (Cons d ds)
  obtain nm ts where d: "d = (nm, ts)" by (cases d)
  let ?t = "s\<lparr>as_directives := (nm, ts, n) # as_directives s\<rparr>"
  have step: "asm_line s (n, directive_line d) = Inr ?t"
    unfolding d using Cons.prems by (intro directive_step) (auto simp: d)
  have "foldl_r asm_line ?t (zip [n + 1..(n + 1) + int (length ds) - 1] (map directive_line ds)) =
    Inr (?t\<lparr>as_directives := rev (printed_directives (n + 1) ds) @ as_directives ?t\<rparr>)"
    using Cons.prems by (intro Cons.IH) (force simp: d)+
  moreover have "[n..n + int (length (d # ds)) - 1] = n # [n + 1..(n + 1) + int (length ds) - 1]"
    by (simp add: upto_rec1)
  ultimately show ?case using step by (simp add: d)
qed simp

section \<open>Programs\<close>

definition printed_state :: "program \<Rightarrow> asm_state" where
  "printed_state p =
     \<lparr>as_labels = printed_labels 0 (instructions p) [], as_statements = printed_statements 13 (instructions p),
      as_directives = rev (printed_directives 1 (program_directives p))\<rparr>"

lemma program_specs:
  assumes "program_validate p = Inr ()"
  shows "isa_version p = ISA_VERSION" "packing_validate (packing p) = Inr ()" "timing_validate (timing p) = Inr ()"
    "\<forall>c \<in> set (name_checks (name p)). c = Inr ()"
  using assms by (auto simp: program_validate_def Let_def result_simps first_error_append ball_Un)

lemma program_name_token:
  assumes "program_validate p = Inr ()"
  shows "is_identifier (name p)" "token (name p)"
proof -
  let ?f = "\<lambda>c. if c = CHR ''_'' then CHR ''a'' else c"
  have n: "name p \<noteq> []" "list_all ascii_alnum (map ?f (name p))" "ascii_alpha (hd (name p)) \<or> hd (name p) = CHR ''_''"
    using program_specs(4) [OF assms] by (auto simp: name_checks_def raise_if_Inr)
  have c: "ident_char c" if "ascii_alnum (?f c)" for c
    using that by (auto simp: ascii_alnum_def ident_char_def ident_start_def dec_digit_def Let_def split: if_splits)
  have start: "ident_start c" if "ascii_alpha c \<or> c = CHR ''_''" for c
    using that by (auto simp: ascii_alpha_def ident_start_def Let_def)
  have "\<forall>c \<in> set (name p). ident_char c" using n(2) c by (auto simp: list_all_iff)
  with n(1,3) start show "token (name p)" "is_identifier (name p)"
    by (cases "name p"; auto simp: token_def is_identifier_def list_all_iff)+
qed

text \<open>What the parts of a valid program are, and how they are printed.\<close>

lemma window_parts:
  "window_validate w nm h = Inr () \<Longrightarrow> win_base w \<in> {0..31} \<and> win_width w \<in> {0..h}"
  by (simp add: window_validate_def result_simps)

lemma shift_parts:
  assumes "shift_validate s nm = Inr ()"
  shows "shift_bits s \<in> {1..32}" "shift_dir s \<in> {Left, Right}" "shift_md s \<in> {Manual, Auto}"
  using assms by (auto simp: shift_validate_def result_simps)

lemma word_tokens: "token ''left''" "token ''right''" "token ''manual''" "token ''auto''" "token ''none''" "token ''fixed''" "token ''stretchable''"
  by (simp_all add: token_def ident_char_def ident_start_def dec_digit_def)

lemma shift_tokens_ok:
  assumes "shift_validate s nm = Inr ()"
  shows "\<forall>t \<in> set (shift_tokens s). token t" "length (shift_tokens s) = 3"
  using shift_parts [OF assms] word_tokens decimal_token [of "shift_bits s"] by (auto simp: shift_tokens_def)

lemma window_tokens_ok:
  assumes "window_validate w nm h = Inr ()"
  shows "\<forall>t \<in> set (window_tokens w). token t" "length (window_tokens w) = 2"
  using window_parts [OF assms] decimal_token [of "win_base w"] decimal_token [of "win_width w"] by (auto simp: window_tokens_def)

lemma distinct_directives: "distinct (map fst (program_directives p))"
  by (simp add: program_directives_def)

lemma program_directives_ok:
  assumes "program_validate p = Inr ()"
  shows "\<forall>d \<in> set (program_directives p). map_of DIRECTIVES (fst d) = Some (length (snd d)) \<and> (\<forall>t \<in> set (snd d). token t)"
proof -
  note f = program_validate_facts [OF assms] and g = program_specs [OF assms]
  have t: "\<forall>k. test_spec_pin (test p) = Some k \<longrightarrow> 0 \<le> k" "0 \<le> test_spec_flag (test p)"
    using f(14) by (auto simp: test_validate_def result_simps)
  have q: "0 \<le> tx_items (packing p)" "0 \<le> rx_items (packing p)" "0 \<le> item_bits (packing p)" "0 \<le> clock_ticks (timing p)"
    using g(2,3) by (simp_all add: packing_validate_def timing_validate_def result_simps)
  have b: "behavior (timing p) \<in> {Fixed, Stretchable}" using g(3) by (simp add: timing_validate_def result_simps)
  have "token (case behavior (timing p) of Fixed \<Rightarrow> ''fixed'' | Stretchable \<Rightarrow> ''stretchable'' | OtherBehavior b \<Rightarrow> b)"
    "token (case test_spec_pin (test p) of None \<Rightarrow> ''none'' | Some n \<Rightarrow> decimal n)"
    using b t word_tokens decimal_token by (auto split: option.split)
  then show ?thesis using program_name_token [OF assms] f(4,6,7) q t(2)
      window_tokens_ok [OF f(9)] window_tokens_ok [OF f(10)] window_tokens_ok [OF f(11)] shift_tokens_ok [OF f(12)] shift_tokens_ok [OF f(13)]
    unfolding program_directives_def by (simp add: decimal_token line_label_facts)
qed

lemma printed_lines_enumerate: "map statement_line (py_enumerate is) = printed_lines 0 is"
proof -
  have "map statement_line (map (\<lambda>(i, x). (int i, x)) (enumerate k is)) = printed_lines (int k) is" for k
    by (induction "is" arbitrary: k) (auto simp: add.commute)
  from this [of 0] show ?thesis by (simp add: py_enumerate_def)
qed

lemma print_fold:
  assumes "program_validate p = Inr ()"
  shows "foldl_r asm_line \<lparr>as_labels = [], as_statements = [], as_directives = []\<rparr>
      (zip [1..int (length (program_lines p))] (program_lines p)) = Inr (printed_state p)"
proof -
  let ?is = "instructions p" and ?s0 = "\<lparr>as_labels = [], as_statements = [], as_directives = []\<rparr>"
  let ?s1 = "\<lparr>as_labels = [], as_statements = [], as_directives = rev (printed_directives 1 (program_directives p))\<rparr>"
  note f = program_validate_facts [OF assms]
  have len: "length (program_directives p) = 12" "length (printed_lines 0 ?is) = length ?is"
    by (simp_all add: program_directives_def printed_lines_enumerate [symmetric])
  have split: "[1..12 + int (length ?is)] = [1..12] @ [13..12 + int (length ?is)]"
    using upto_split2 [of 1 12 "12 + int (length ?is)"] by simp
  have lines: "program_lines p = map directive_line (program_directives p) @ printed_lines 0 ?is"
    "int (length (program_lines p)) = 12 + int (length ?is)"
    by (simp_all add: program_lines_def printed_lines_enumerate len)
  have z: "zip [1..12 + int (length ?is)] (program_lines p) =
      zip [1..12] (map directive_line (program_directives p)) @ zip [13..12 + int (length ?is)] (printed_lines 0 ?is)"
    unfolding lines(1) split by (rule zip_append) (simp add: len)
  have "foldl_r asm_line ?s0 (zip [1..1 + int (length (program_directives p)) - 1] (map directive_line (program_directives p))) =
      Inr (?s0\<lparr>as_directives := rev (printed_directives 1 (program_directives p)) @ as_directives ?s0\<rparr>)"
    by (rule directives_fold [OF program_directives_ok [OF assms] distinct_directives]) simp
  then have a: "foldl_r asm_line ?s0 (zip [1..12] (map directive_line (program_directives p))) = Inr ?s1" by (simp add: len)
  have "foldl_r asm_line ?s1 (zip [13..13 + int (length ?is) - 1] (printed_lines 0 ?is)) =
      Inr (?s1\<lparr>as_labels := printed_labels 0 ?is (as_labels ?s1), as_statements := as_statements ?s1 @ printed_statements 13 ?is\<rparr>)"
    using f(2,3) by (intro statements_fold) auto
  then have b: "foldl_r asm_line ?s1 (zip [13..12 + int (length ?is)] (printed_lines 0 ?is)) = Inr (printed_state p)"
    by (simp add: printed_state_def)
  show ?thesis unfolding lines(2) z foldl_r_append a bind_r_simps b ..
qed

lemma directive_name_chars: "list_all (\<lambda>d. list_all line_char (fst d)) DIRECTIVES"
  by (simp add: DIRECTIVES_def line_char_def ident_char_def ident_start_def)

lemma line_char_lines:
  assumes "program_validate p = Inr ()" "l \<in> set (program_lines p)" "c \<in> set l"
  shows "\<not> line_break c"
proof -
  have dirs: "line_char c" if "c \<in> set nm" "map_of DIRECTIVES nm = Some k" for nm k c
    using that(1) map_of_SomeD [OF that(2)] directive_name_chars by (force simp: list_all_iff)
  have join: "line_char c" if "c \<in> set (comma_join ts)" "\<forall>t \<in> set ts. token t" for ts c
    using join_chars [OF that(2,1)] by (auto simp: line_char_def)
  have tok: "line_char c" if "c \<in> set t" "token t" for t c using that token_ends(4) [OF that(2)] by (auto simp: line_char_def)
  have punctuation: "line_char CHR '' ''" "line_char CHR '':''" "line_char CHR ''[''" "line_char CHR '']''" by (simp_all add: line_char_def)
  have "line_char c"
  proof (cases "l \<in> directive_line ` set (program_directives p)")
    case True
    then obtain nm ts where d: "(nm, ts) \<in> set (program_directives p)" "l = nm @ '' '' @ comma_join ts"
      by (auto simp: directive_line_def)
    with program_directives_ok [OF assms(1)] have "map_of DIRECTIVES nm = Some (length ts)" "\<forall>t \<in> set ts. token t" by auto
    moreover have "c \<in> set nm \<or> c = CHR '' '' \<or> c \<in> set (comma_join ts)" using d(2) assms(3) by auto
    ultimately show ?thesis using dirs join punctuation by blast
  next
    case False
    then obtain j where j: "j < length (instructions p)" "l = statement_line (int j, instructions p ! j)"
      using assms(2) by (auto simp: program_lines_def set_py_enumerate)
    define i k where "i = instructions p ! j" and "k = int j"
    then have i: "0 \<le> k" "i \<in> set (instructions p)" "l = statement_line (k, i)" using j by simp_all
    have v: "instruction_validate i = Inr ()" using program_validate_facts(3) [OF assms(1) i(2)] .
    note t = operand_tokens_shape [OF v] and r = instruction_validate_ranges [OF v]
    have "token (line_label k)" "token (symbol_name MNEMONICS (opcode i))" "token (decimal (delay i))"
      using line_label_facts [OF i(1)] t(3) decimal_token [OF r(3)] by (simp_all add: named_def)
    moreover have "c \<in> set (line_label k) \<or> c \<in> set (symbol_name MNEMONICS (opcode i)) \<or> c \<in> set (decimal (delay i))
        \<or> c \<in> set (comma_join (operand_tokens i)) \<or> c \<in> {CHR '' '', CHR '':'', CHR ''['', CHR '']''}"
      using assms(3) by (auto simp: i(3) statement_line_def)
    ultimately show ?thesis using tok join [OF _ t(1)] punctuation by blast
  qed
  then show ?thesis by (rule line_char_plain(1))
qed

lemma printed_labels_lookup:
  assumes "0 \<le> k" "0 \<le> j"
  shows "map_of (printed_labels k is ls) (line_label j) =
    (if k \<le> j \<and> j < k + int (length is) then Some j else map_of ls (line_label j))"
  using assms by (induction "is" arbitrary: k ls) (auto simp: line_label_inject)

lemma printed_statement_lines: "map st_line (printed_statements n is) = [n..n + int (length is) - 1]"
  by (induction "is" arbitrary: n) (simp_all add: upto_rec1 add.assoc)

lemma printed_instructions:
  assumes "\<forall>i \<in> set is. instruction_validate i = Inr ()
    \<and> (opcode i = BRANCH_OP \<longrightarrow> map_of labels (line_label (operand i mod 32)) = Some (operand i mod 32))"
  shows "map_r (asm_instruction labels) (printed_statements n is) = Inr is"
  using assms by (induction "is" arbitrary: n) (auto simp: asm_instruction_tokens)

lemma printed_directive:
  assumes "(nm, ts) \<in> set ds" "distinct (map fst ds)"
  shows "\<exists>line. map_of (rev (printed_directives n ds)) nm = Some (ts, line)"
proof -
  have "\<exists>line. (nm, ts, line) \<in> set (printed_directives n ds)"
    using assms(1) by (induction ds arbitrary: n) auto
  then obtain line where "(nm, ts, line) \<in> set (rev (printed_directives n ds))" by auto
  moreover have "distinct (map fst (rev (printed_directives n ds)))"
    using assms(2) by (simp add: rev_map [symmetric] printed_directive_names)
  ultimately show ?thesis by (auto intro: map_of_is_SomeI)
qed

lemma printed_directive_of:
  assumes "(nm, ts) \<in> set (program_directives p)"
  obtains line where "directive_of (printed_state p) nm = Inr (ts, line)"
  using printed_directive [OF assms distinct_directives, of 1] that by (auto simp: directive_of_def printed_state_def)

lemma printed_number:
  assumes "(nm, ts) \<in> set (program_directives p)" "k < length ts" "ts ! k = decimal v" "v \<in> {lo..hi}" "0 \<le> lo" "hi < 10 ^ 10"
  shows "directive_number (printed_state p) nm k what lo hi = Inr v"
proof -
  obtain line where l: "directive_of (printed_state p) nm = Inr (ts, line)" by (rule printed_directive_of [OF assms(1)])
  show ?thesis using assms(2-6) by (simp add: directive_number_def l asm_arg_def asm_number_decimal)
qed

lemma printed_choice:
  assumes "(nm, ts) \<in> set (program_directives p)" "k < length ts" "map_of choices (ts ! k) = Some v"
  shows "directive_choice (printed_state p) nm k choices what = Inr v"
proof -
  obtain line where l: "directive_of (printed_state p) nm = Inr (ts, line)" by (rule printed_directive_of [OF assms(1)])
  show ?thesis using assms(2-3) by (simp add: directive_choice_def l asm_arg_def asm_choice_def)
qed

lemma printed_label:
  assumes "(nm, [line_label v]) \<in> set (program_directives p)" "0 \<le> v" "v < int (length (instructions p))"
  shows "label_offset (printed_state p) nm = Inr v"
proof -
  obtain line where l: "directive_of (printed_state p) nm = Inr ([line_label v], line)" by (rule printed_directive_of [OF assms(1)])
  show ?thesis using assms(2-3) line_label_facts [OF assms(2)] printed_labels_lookup [of 0 v "instructions p" "[]"]
    by (simp add: label_offset_def l asm_arg_def asm_identifier_def) (simp add: printed_state_def)
qed

lemma printed_window:
  assumes "(nm, window_tokens w) \<in> set (program_directives p)" "window_validate w wn h = Inr ()" "h \<le> 32"
  shows "asm_window (printed_state p) nm h = Inr w"
proof -
  note v = window_parts [OF assms(2)]
  have "directive_number (printed_state p) nm 0 nm 0 31 = Inr (win_base w)" "directive_number (printed_state p) nm 1 nm 0 h = Inr (win_width w)"
    by (rule printed_number [OF assms(1)]; use v assms(3) in \<open>simp add: window_tokens_def\<close>)+
  then show ?thesis by (simp add: asm_window_def)
qed

lemma printed_shift:
  assumes "(nm, shift_tokens s) \<in> set (program_directives p)" "shift_validate s sn = Inr ()"
  shows "asm_shift (printed_state p) nm = Inr s"
proof -
  note v = shift_parts [OF assms(2)]
  have "directive_number (printed_state p) nm 0 nm 1 32 = Inr (shift_bits s)"
    "directive_choice (printed_state p) nm 1 [(''left'', Left), (''right'', Right)] nm = Inr (shift_dir s)"
    "directive_choice (printed_state p) nm 2 [(''manual'', Manual), (''auto'', Auto)] nm = Inr (shift_md s)"
    by (rule printed_number [OF assms(1)] printed_choice [OF assms(1)]; use v in \<open>auto simp: shift_tokens_def numeral_2_eq_2\<close>)+
  then show ?thesis by (simp add: asm_shift_def)
qed

lemma printed_test:
  assumes "program_validate p = Inr ()"
  shows "asm_test (printed_state p) = Inr (test p)"
proof -
  let ?pin = "case test_spec_pin (test p) of None \<Rightarrow> ''none'' | Some n \<Rightarrow> decimal n"
  let ?ts = "[?pin, decimal (test_spec_flag (test p))]"
  have t: "\<forall>k. test_spec_pin (test p) = Some k \<longrightarrow> k \<in> {0..31}" "test_spec_flag (test p) \<in> {0..3}"
    using program_validate_facts(14) [OF assms] by (auto simp: test_validate_def result_simps)
  have mem: "(''.test'', ?ts) \<in> set (program_directives p)" by (simp add: program_directives_def)
  obtain line where l: "directive_of (printed_state p) ''.test'' = Inr (?ts, line)" by (rule printed_directive_of [OF mem])
  have flag: "directive_number (printed_state p) ''.test'' 1 ''test flag'' 0 3 = Inr (test_spec_flag (test p))"
    by (rule printed_number [OF mem]) (use t(2) in simp_all)
  have none: "decimal k \<noteq> ''none''" if "0 \<le> k" for k
    using decimal_digits [OF that] by (auto simp: dec_digit_def)
  show ?thesis
  proof (cases "test_spec_pin (test p)")
    case None
    then show ?thesis using l flag by (simp add: asm_test_def asm_arg_def)
  next
    case (Some k)
    then have "k \<in> {0..31}" using t(1) by blast
    with Some none [of k] show ?thesis using l flag by (simp add: asm_test_def asm_arg_def asm_number_decimal)
  qed
qed

lemma printed_specs:
  assumes "program_validate p = Inr ()"
  shows "asm_packing (printed_state p) = Inr (packing p)" "asm_timing (printed_state p) = Inr (timing p)"
proof -
  note g = program_specs [OF assms]
  have q: "tx_items (packing p) \<in> {0..4294967295}" "rx_items (packing p) \<in> {0..4294967295}" "item_bits (packing p) \<in> {1..32}"
    "clock_ticks (timing p) \<in> {1..4294967295}" and b: "behavior (timing p) \<in> {Fixed, Stretchable}"
    using g(2,3) by (simp_all add: packing_validate_def timing_validate_def result_simps)
  have mem: "(''.packing'', [decimal (tx_items (packing p)), decimal (rx_items (packing p)), decimal (item_bits (packing p))])
      \<in> set (program_directives p)" by (simp add: program_directives_def)
  note n = printed_number [OF mem]
  have "directive_number (printed_state p) ''.packing'' 0 ''TX_ITEMS'' 0 4294967295 = Inr (tx_items (packing p))"
    "directive_number (printed_state p) ''.packing'' 1 ''RX_ITEMS'' 0 4294967295 = Inr (rx_items (packing p))"
    "directive_number (printed_state p) ''.packing'' 2 ''ITEM_BITS'' 1 32 = Inr (item_bits (packing p))"
    by (rule n; use q in simp)+
  then show "asm_packing (printed_state p) = Inr (packing p)" by (simp add: asm_packing_def)
  have mem: "(''.clock_ticks'', [decimal (clock_ticks (timing p)),
      (case behavior (timing p) of Fixed \<Rightarrow> ''fixed'' | Stretchable \<Rightarrow> ''stretchable'' | OtherBehavior b \<Rightarrow> b)])
      \<in> set (program_directives p)" by (simp add: program_directives_def)
  have "directive_number (printed_state p) ''.clock_ticks'' 0 ''clock_ticks'' 1 4294967295 = Inr (clock_ticks (timing p))"
    "directive_choice (printed_state p) ''.clock_ticks'' 1 [(''fixed'', Fixed), (''stretchable'', Stretchable)] ''timing behavior'' =
      Inr (behavior (timing p))"
    by (rule printed_number [OF mem] printed_choice [OF mem]; use q b in auto)+
  then show "asm_timing (printed_state p) = Inr (timing p)" by (simp add: asm_timing_def)
qed

lemma validate_other_lines:
  assumes "program_validate p = Inr ()" "length ls = length (instructions p)"
  shows "program_validate (p\<lparr>source_lines := ls\<rparr>) = Inr ()"
proof -
  have "usage_checks (p\<lparr>source_lines := ls\<rparr>) = usage_checks p" by (rule ext) (simp add: usage_checks_def cong: if_cong)
  then show ?thesis using assms unfolding program_validate_def Let_def by (simp add: result_simps first_error_append ball_Un)
qed

lemma printed_program:
  assumes "program_validate p = Inr ()"
  shows "asm_program (printed_state p) = Inr (p\<lparr>source_lines := [13..12 + int (length (instructions p))]\<rparr>)"
proof -
  let ?s = "printed_state p" and ?ls = "[13..12 + int (length (instructions p))]"
  note f = program_validate_facts [OF assms] and g = program_specs [OF assms]
  obtain line where pl: "directive_of ?s ''.program'' = Inr ([name p], line)"
    by (rule printed_directive_of [of "''.program''" "[name p]" p]) (simp add: program_directives_def)
  have name: "asm_identifier (name p) line ''program name'' = Inr (name p)"
    using program_name_token(1) [OF assms] by (simp add: asm_identifier_def)
  have windows: "asm_window ?s ''.in'' 32 = Inr (in_window p)" "asm_window ?s ''.out'' 32 = Inr (out_window p)"
    "asm_window ?s ''.set'' 8 = Inr (set_window p)"
    by (rule printed_window [OF _ f(9)] printed_window [OF _ f(10)] printed_window [OF _ f(11)]; simp add: program_directives_def)+
  have shifts: "asm_shift ?s ''.tx_bits'' = Inr (tx p)" "asm_shift ?s ''.rx_bits'' = Inr (rx p)"
    by (rule printed_shift [OF _ f(12)] printed_shift [OF _ f(13)]; simp add: program_directives_def)+
  have labels: "label_offset ?s ''.entry'' = Inr (entry p)" "label_offset ?s ''.wrap_bottom'' = Inr (wrap_bottom p)"
    "label_offset ?s ''.wrap_top'' = Inr (wrap_top p)"
    by (rule printed_label; use f(4-8) in \<open>simp add: program_directives_def\<close>)+
  have target: "operand i mod 32 < int (length (instructions p))" if "i \<in> set (instructions p)" "opcode i = BRANCH_OP" for i
    using that f(15) by (force simp: in_set_conv_nth usage_checks_def Let_def result_simps bit_arith)
  have "map_r (asm_instruction (as_labels ?s)) (as_statements ?s) = Inr (instructions p)"
    unfolding printed_state_def asm_state.select_convs
    by (rule printed_instructions) (use f(3) target in \<open>auto simp: printed_labels_lookup\<close>)
  moreover have "asm_resources sts (instructions p) (in_window p) (out_window p) (set_window p) (test p) =
      Inr (claim_mask p, flag_mask p)" for sts
    using f(16) by (simp add: asm_resources_def)
  moreover have "map st_line (as_statements ?s) = ?ls" by (simp add: printed_state_def printed_statement_lines)
  moreover have "\<lparr>name = name p, instructions = instructions p, entry = entry p, wrap_bottom = wrap_bottom p, wrap_top = wrap_top p,
      in_window = in_window p, out_window = out_window p, set_window = set_window p, tx = tx p, rx = rx p, test = test p,
      packing = packing p, timing = timing p, claim_mask = claim_mask p, flag_mask = flag_mask p, isa_version = ISA_VERSION,
      source_lines = ?ls\<rparr> = p\<lparr>source_lines := ?ls\<rparr>" using g(1) by simp
  moreover have "asm_validated (p\<lparr>source_lines := ?ls\<rparr>) line = Inr (p\<lparr>source_lines := ?ls\<rparr>)"
    using validate_other_lines [OF assms, of ?ls] by (simp add: asm_validated_def)
  ultimately show ?thesis
    unfolding asm_program_def Let_def pl bind_r_simps prod.case asm_arg_def
    using name windows shifts labels printed_test [OF assms] printed_specs [OF assms] by simp
qed

text \<open>Every valid program has a source, and assembling it gives the program back: labels, mnemonics, operands, delays and
  directives of the text denote what the instruction set encodes, for each of the instructions and specifications. The
  lines of the instructions follow the twelve directives.\<close>

theorem assemble_print:
  assumes "program_validate p = Inr ()"
  shows "assemble (print_program p) = Inr (p\<lparr>source_lines := [13..12 + int (length (instructions p))]\<rparr>)"
proof -
  have lines: "splitlines (print_program p) = program_lines p"
    unfolding print_program_def using line_char_lines [OF assms] by (intro splitlines_lines) blast
  have "as_statements (printed_state p) \<noteq> []"
    using program_validate_facts(1) [OF assms] by (cases "instructions p") (simp_all add: printed_state_def)
  moreover have "map_of (as_directives (printed_state p)) (fst d) \<noteq> None" if "d \<in> set DIRECTIVES" for d
  proof -
    have "fst d \<in> fst ` set (program_directives p)" using that by (auto simp: DIRECTIVES_def program_directives_def)
    then show ?thesis
      by (simp add: printed_state_def map_of_eq_None_iff printed_directive_names [symmetric] flip: set_map) (simp add: printed_directive_names)
  qed
  then have "first_error (map (\<lambda>(directive, _). raise_if (map_of (as_directives (printed_state p)) directive = None)
      (AssemblyError line (MissingDirective directive))) DIRECTIVES) = Inr ()" for line
    by (force simp: first_error_Inr raise_if_def)
  ultimately show ?thesis
    unfolding assemble_def Let_def lines print_fold [OF assms] bind_r_simps
    by (simp add: raise_if_def printed_program [OF assms])
qed

theorem assemble_print_witness:
  "assemble (print_program ir_tx) = Inr (ir_tx\<lparr>source_lines := [13..12 + int (length (instructions ir_tx))]\<rparr>)"
  by (rule assemble_print [OF ir_tx_valid])

end
