(* ===== verification/Py_Bytes.thy ===== *)
theory Py_Bytes
  imports Soc_Prelude
begin

text \<open>
  Python's \<open>bytes\<close>, the little-endian formats of \<open>struct\<close> and \<open>binascii.crc32\<close>, as the APU
  bundle and the NPU descriptor code use them.

  A byte string is a list of 8-bit words. \<open>struct.pack\<close> raises \<open>struct.error\<close> for a value
  outside its format, so packing is a partial function; \<open>unpack\<close> on a buffer of the right length
  is total.
\<close>

unbundle bit_operations_syntax

type_synonym bytes = "8 word list"

datatype struct_error = StructError

section \<open>Little-endian integers\<close>

fun le_bytes :: "nat \<Rightarrow> int \<Rightarrow> bytes" where
  "le_bytes 0 v = []"
| "le_bytes (Suc n) v = word_of_int v # le_bytes n (v div 256)"

fun le_int :: "bytes \<Rightarrow> int" where
  "le_int [] = 0"
| "le_int (b # bs) = uint b + 256 * le_int bs"

lemma length_le_bytes [simp]: "length (le_bytes n v) = n"
  by (induction n arbitrary: v) auto

lemma le_int_bounds: "0 \<le> le_int bs \<and> le_int bs < 256 ^ length bs"
proof (induction bs)
  case (Cons b bs)
  have "0 \<le> uint b" "uint b < 256" using uint_bounded [of b] by simp_all
  moreover from Cons have "256 * le_int bs \<le> 256 * (256 ^ length bs - 1)" "0 \<le> le_int bs" by simp_all
  ultimately show ?case by simp
qed simp

lemma uint_word8_of_int: "uint (word_of_int v :: 8 word) = v mod 256"
  by (simp add: uint_word_of_int)

lemma le_int_le_bytes:
  assumes "0 \<le> v" "v < 256 ^ n"
  shows "le_int (le_bytes n v) = v"
  using assms
proof (induction n arbitrary: v)
  case (Suc n)
  have "v div 256 * 256 \<le> v" by simp
  then have "v div 256 * 256 < 256 ^ n * 256" using Suc.prems by simp
  then have "0 \<le> v div 256" "v div 256 < 256 ^ n" using Suc.prems by simp_all
  with Suc.IH show ?case by (simp add: uint_word8_of_int)
qed simp

lemma le_bytes_le_int: "le_bytes (length bs) (le_int bs) = bs"
proof (induction bs)
  case (Cons b bs)
  have b: "0 \<le> uint b" "uint b < 256" using uint_bounded [of b] by simp_all
  have "(uint b + 256 * le_int bs) div 256 = le_int bs" using b by simp
  moreover have "(word_of_int (uint b + 256 * le_int bs) :: 8 word) = b"
    unfolding word_uint_eq_iff uint_word8_of_int using b by simp
  ultimately show ?case using Cons by simp
qed simp

section \<open>struct.pack and struct.unpack\<close>

definition pack_uint :: "nat \<Rightarrow> int \<Rightarrow> struct_error + bytes" where
  "pack_uint n v = (if 0 \<le> v \<and> v < 256 ^ n then Inr (le_bytes n v) else Inl StructError)"

definition pack_u32s :: "int list \<Rightarrow> struct_error + bytes" where
  "pack_u32s vs = bind_r (map_r (pack_uint 4) vs) (\<lambda>bss. Inr (concat bss))"

fun unpack_u32s :: "nat \<Rightarrow> bytes \<Rightarrow> int list" where
  "unpack_u32s 0 bs = []"
| "unpack_u32s (Suc n) bs = le_int (take 4 bs) # unpack_u32s n (drop 4 bs)"

abbreviation u32 :: "int \<Rightarrow> bool" where
  "u32 v \<equiv> 0 \<le> v \<and> v < 4294967296"

lemma pack_uint_ok: "0 \<le> v \<Longrightarrow> v < 256 ^ n \<Longrightarrow> pack_uint n v = Inr (le_bytes n v)"
  by (simp add: pack_uint_def)

lemma pack_uint_Inr: "pack_uint n v = Inr bs \<longleftrightarrow> 0 \<le> v \<and> v < 256 ^ n \<and> bs = le_bytes n v"
  by (auto simp: pack_uint_def)

lemma map_r_pack:
  "map_r (pack_uint n) vs = Inr bss \<longleftrightarrow>
     (\<forall>v \<in> set vs. 0 \<le> v \<and> v < 256 ^ n) \<and> bss = map (le_bytes n) vs"
proof (induction vs arbitrary: bss)
  case (Cons v vs)
  then show ?case by (auto simp: bind_r_Inr pack_uint_Inr)
qed auto

lemma pack_u32s_Inr:
  "pack_u32s vs = Inr bs \<longleftrightarrow> (\<forall>v \<in> set vs. u32 v) \<and> bs = concat (map (le_bytes 4) vs)"
  by (auto simp: pack_u32s_def bind_r_Inr map_r_pack)

lemma length_unpack_u32s [simp]: "length (unpack_u32s n bs) = n"
  by (induction n arbitrary: bs) auto

lemma length_concat_le_bytes [simp]: "length (concat (map (le_bytes n) vs)) = n * length vs"
  by (induction vs) auto

lemma unpack_pack:
  "(\<forall>v \<in> set vs. u32 v) \<Longrightarrow> unpack_u32s (length vs) (concat (map (le_bytes 4) vs) @ rest) = vs"
  by (induction vs) (auto simp: le_int_le_bytes)

lemma unpack_u32s_range:
  assumes "v \<in> set (unpack_u32s n bs)" "4 * n \<le> length bs"
  shows "u32 v"
  using assms
proof (induction n arbitrary: bs)
  case (Suc n)
  then have "length (take 4 bs) = 4" by simp
  then have "u32 (le_int (take 4 bs))" using le_int_bounds [of "take 4 bs"] by simp
  with Suc.prems Suc.IH [of "drop 4 bs"] show ?case by auto
qed simp

lemma pack_unpack:
  assumes "length bs = 4 * n"
  shows "concat (map (le_bytes 4) (unpack_u32s n bs)) = bs"
  using assms
proof (induction n arbitrary: bs)
  case (Suc n)
  have "le_bytes 4 (le_int (take 4 bs)) = take 4 bs"
    using le_bytes_le_int [of "take 4 bs"] Suc.prems by simp
  with Suc show ?case by simp
qed simp

section \<open>CRC-32\<close>

text \<open>The reflected CRC-32 of \<open>binascii.crc32\<close>, bit by bit.\<close>

definition crc_step :: "int \<Rightarrow> int" where
  "crc_step c = (if c mod 2 = 1 then (c div 2) XOR 3988292384 else c div 2)"

definition crc_byte :: "int \<Rightarrow> 8 word \<Rightarrow> int" where
  "crc_byte c b = (crc_step ^^ 8) (c XOR uint b)"

definition crc32 :: "bytes \<Rightarrow> int" where
  "crc32 bs = foldl crc_byte 4294967295 bs XOR 4294967295"

lemma crc_step_inj:
  assumes "u32 c" "u32 d" "crc_step c = crc_step d"
  shows "c = d"
proof -
  have top: "bit ((x div 2) XOR (3988292384::int)) 31" "\<not> bit (x div 2) 31" if "u32 x" for x
  proof -
    have "x div 2 < 2147483648" using that by linarith
    then have x: "0 \<le> x div 2" "x div 2 < 2 ^ 31" using that by simp_all
    then have "bits_of (x div 2) \<subseteq> {..<31}" by (rule bits_of_lt_exp)
    then show n: "\<not> bit (x div 2) 31" by (auto simp: bits_of_def)
    have "bit (3988292384::int) 31" by (simp add: bit_iff_odd)
    with n show "bit ((x div 2) XOR (3988292384::int)) 31" by (simp add: bit_xor_iff)
  qed
  have parity: "(c mod 2 = 1) = (d mod 2 = 1)"
    using assms(3) top [OF assms(1)] top [OF assms(2)] unfolding crc_step_def
    by (metis (no_types))
  then have "c div 2 = d div 2"
    using assms(3) by (auto simp: crc_step_def split: if_splits) (metis xor_self_eq xor.assoc xor.right_neutral)
  moreover have "c mod 2 = d mod 2" using parity by presburger
  ultimately show ?thesis by (metis div_mult_mod_eq)
qed

lemma u32_xor:
  assumes "u32 a" "u32 b"
  shows "u32 (a XOR b)"
proof -
  have "bits_of a \<subseteq> {..<32}" "bits_of b \<subseteq> {..<32}" using assms bits_of_lt_exp [of _ 32] by simp_all
  then have "bits_of (a XOR b) \<subseteq> {..<32}" by (auto simp: bits_of_def bit_xor_iff)
  moreover have "0 \<le> a XOR b" using assms by simp
  ultimately show ?thesis using bits_of_nonneg_le [of "a XOR b" 32] by simp
qed

lemma crc_step_u32:
  assumes "u32 c"
  shows "u32 (crc_step c)"
proof -
  have "u32 (c div 2)" using assms by auto
  then show ?thesis using u32_xor [of "c div 2" 3988292384] by (simp add: crc_step_def)
qed

lemma crc_steps_u32: "u32 c \<Longrightarrow> u32 ((crc_step ^^ n) c)"
  by (induction n) (auto simp: crc_step_u32)

lemma crc_steps_inj:
  assumes "u32 c" "u32 d" "(crc_step ^^ n) c = (crc_step ^^ n) d"
  shows "c = d"
  using assms(3) by (induction n) (use crc_step_inj crc_steps_u32 assms(1,2) in auto)

lemma u32_byte: "u32 (uint (b :: 8 word))"
  using uint_bounded [of b] by simp

lemma xor_cancel: "(a::int) XOR b = a XOR c \<longleftrightarrow> b = c"
  by (metis xor.assoc xor_self_eq xor.left_neutral)

lemma crc_byte_u32: "u32 c \<Longrightarrow> u32 (crc_byte c b)"
  unfolding crc_byte_def using u32_xor [OF _ u32_byte] by (intro crc_steps_u32) blast

lemma crc_byte_inj:
  assumes "u32 c" "u32 d" "crc_byte c a = crc_byte d b"
  shows "c = d \<longleftrightarrow> a = b"
proof -
  have "c XOR uint a = d XOR uint b"
    by (rule crc_steps_inj [OF u32_xor [OF assms(1) u32_byte] u32_xor [OF assms(2) u32_byte]
        assms(3) [unfolded crc_byte_def]])
  then have "uint a = uint b" if "c = d" using that by (simp add: xor_cancel)
  moreover have "c = d" if "a = b"
    using \<open>c XOR uint a = d XOR uint b\<close> that xor_cancel [of "uint a" c d] by (simp add: xor.commute)
  ultimately show ?thesis by (auto simp: word_uint_eq_iff)
qed

lemma foldl_crc_u32: "u32 c \<Longrightarrow> u32 (foldl crc_byte c bs)"
  by (induction bs arbitrary: c) (auto simp: crc_byte_u32)

lemma foldl_crc_inj:
  assumes "u32 c" "u32 d" "foldl crc_byte c bs = foldl crc_byte d bs"
  shows "c = d"
  using assms
proof (induction bs arbitrary: c d)
  case (Cons b bs)
  then have "crc_byte c b = crc_byte d b" using crc_byte_u32 by simp
  with Cons.prems crc_byte_inj show ?case by blast
qed simp

lemma crc32_u32: "u32 (crc32 bs)"
  unfolding crc32_def by (intro u32_xor foldl_crc_u32) auto

text \<open>Two byte strings that differ in exactly one byte have different checksums.\<close>

lemma crc32_detects_byte:
  assumes "crc32 (xs @ a # ys) = crc32 (xs @ b # ys)"
  shows "a = b"
proof -
  let ?c = "foldl crc_byte 4294967295 xs"
  have c: "u32 ?c" by (rule foldl_crc_u32) simp
  have "foldl crc_byte (crc_byte ?c a) ys = foldl crc_byte (crc_byte ?c b) ys"
    using assms xor_cancel [of 4294967295] by (simp add: crc32_def xor.commute)
  then have "crc_byte ?c a = crc_byte ?c b" by (rule foldl_crc_inj [OF crc_byte_u32 [OF c] crc_byte_u32 [OF c]])
  with crc_byte_inj [OF c c] show ?thesis by blast
qed

end
