(* ===== verification/Apu_ISA.thy ===== *)
theory Apu_ISA
  imports Py_Bytes
begin

text \<open>
  The APU microcode instruction set of \<^verbatim>\<open>scripts/apu_isa.py\<close>: the 64-bit instruction
  word, the entry descriptors, the primitives an instruction needs and the validation of
  instructions and entries for a target and an image ABI.

  An exception is a value of \<open>apu_error\<close>: \<open>ValueError\<close> with its message (the numbers that
  f-strings interpolate are left out), \<open>ReservedField\<close> for the message of \<open>_require_zero\<close>,
  \<open>EnumError\<close> for an integer outside an \<open>IntEnum\<close>, \<open>ApuStructError\<close> for \<open>struct.error\<close>,
  the others for Python's \<open>IndexError\<close>, \<open>KeyError\<close>, \<open>OverflowError\<close> and
  \<open>ZeroDivisionError\<close>.
\<close>

unbundle bit_operations_syntax

section \<open>Constants\<close>

abbreviation (input) "APUMC_ABI_V1 \<equiv> (65536 :: int)"
abbreviation (input) "APUMC_ABI_V2 \<equiv> (131072 :: int)"
abbreviation (input) "APUMC_MAX_INSTRUCTIONS_V1 \<equiv> (2048 :: int)"
abbreviation (input) "APUMC_MAX_INSTRUCTIONS_V2 \<equiv> (4096 :: int)"
abbreviation (input) "APUMC_P4_TABLE_SCRATCH_BYTES \<equiv> (24576 :: int)"
abbreviation (input) "APUMC_ENTRY_COUNT \<equiv> (3 :: int)"

abbreviation (input) "CLS_CONTROL \<equiv> (0 :: int)"
abbreviation (input) "CLS_SCALAR \<equiv> (1 :: int)"
abbreviation (input) "CLS_BITSTREAM \<equiv> (2 :: int)"
abbreviation (input) "CLS_ENTROPY \<equiv> (3 :: int)"
abbreviation (input) "CLS_LOCAL \<equiv> (4 :: int)"
abbreviation (input) "CLS_KERNEL \<equiv> (5 :: int)"
abbreviation (input) "CLS_TRANSPORT \<equiv> (6 :: int)"

abbreviation (input) "CTL_NOP \<equiv> (0 :: int)"
abbreviation (input) "CTL_END \<equiv> (1 :: int)"
abbreviation (input) "CTL_TRAP \<equiv> (2 :: int)"
abbreviation (input) "CTL_JUMP_FWD \<equiv> (3 :: int)"
abbreviation (input) "CTL_CALL_FWD \<equiv> (4 :: int)"
abbreviation (input) "CTL_RET \<equiv> (5 :: int)"
abbreviation (input) "CTL_LOOP_SETUP \<equiv> (6 :: int)"
abbreviation (input) "CTL_LOOP_BACK \<equiv> (7 :: int)"
abbreviation (input) "CTL_WAIT \<equiv> (8 :: int)"

abbreviation (input) "SC_MOV \<equiv> (0 :: int)"
abbreviation (input) "SC_MOVI \<equiv> (1 :: int)"
abbreviation (input) "SC_ADD \<equiv> (2 :: int)"
abbreviation (input) "SC_SUB \<equiv> (3 :: int)"
abbreviation (input) "SC_AND \<equiv> (4 :: int)"
abbreviation (input) "SC_OR \<equiv> (5 :: int)"
abbreviation (input) "SC_XOR \<equiv> (6 :: int)"
abbreviation (input) "SC_SHL \<equiv> (7 :: int)"
abbreviation (input) "SC_SHR \<equiv> (8 :: int)"
abbreviation (input) "SC_SAR \<equiv> (9 :: int)"
abbreviation (input) "SC_CMP \<equiv> (10 :: int)"
abbreviation (input) "SC_MIN \<equiv> (11 :: int)"
abbreviation (input) "SC_MAX \<equiv> (12 :: int)"
abbreviation (input) "SC_SAT \<equiv> (13 :: int)"

section \<open>Errors and targets\<close>

datatype apu_field = F_dst | F_src0 | F_src1 | F_aux | F_immediate

datatype apu_error =
    ValueError string | ReservedField apu_field | EnumError | ApuStructError | ApuIndexError
  | ApuKeyError | ApuOverflowError | ApuZeroDivision

datatype apu_target = P3 | P4 | P5 | OtherTarget string

definition target_mask :: "apu_target \<Rightarrow> apu_error + int" where
  "target_mask target =
     (case target of
        P3 \<Rightarrow> Inr 0
      | P4 \<Rightarrow> Inr 65535
      | P5 \<Rightarrow> Inr 2097151
      | OtherTarget _ \<Rightarrow> Inl (ValueError ''unknown APU target''))"

section \<open>Instructions\<close>

record apu_instruction =
  mc_class :: int
  mc_opcode :: int
  mc_predicate :: int
  mc_dst :: int
  mc_src0 :: int
  mc_src1 :: int
  mc_aux :: int
  mc_immediate :: int

definition mc_fields :: "apu_instruction \<Rightarrow> (int \<times> int \<times> int) list" where
  "mc_fields i =
     [(mc_class i, 4, 60), (mc_opcode i, 4, 56), (mc_predicate i, 4, 52), (mc_dst i, 4, 48),
      (mc_src0 i, 4, 44), (mc_src1 i, 4, 40), (mc_aux i, 8, 32), (mc_immediate i, 32, 0)]"

definition mc_encode :: "apu_instruction \<Rightarrow> apu_error + int" where
  "mc_encode i =
     foldl_r
       (\<lambda>word (v, width, shift).
          if v < 0 \<or> v \<ge> shl 1 width then Inl (ValueError ''field value does not fit'')
          else Inr (word OR shl v shift))
       0 (mc_fields i)"

definition mc_decode :: "int \<Rightarrow> apu_error + apu_instruction" where
  "mc_decode word =
     (if word < 0 \<or> word \<ge> shl 1 64 then Inl (ValueError ''instruction must fit 64 bits'')
      else
        Inr \<lparr>mc_class = shr word 60 AND 15, mc_opcode = shr word 56 AND 15,
              mc_predicate = shr word 52 AND 15, mc_dst = shr word 48 AND 15,
              mc_src0 = shr word 44 AND 15, mc_src1 = shr word 40 AND 15,
              mc_aux = shr word 32 AND 255, mc_immediate = word AND 4294967295\<rparr>)"

definition trap_detail :: "int \<Rightarrow> int \<Rightarrow> apu_instruction \<Rightarrow> int" where
  "trap_detail reason pc i =
     ((((reason AND 255) OR shl (pc AND 2047) 8) OR shl (mc_class i AND 15) 19)
        OR shl (mc_opcode i AND 15) 23) OR shl (mc_aux i AND 31) 27"

fun getattr :: "apu_field \<Rightarrow> apu_instruction \<Rightarrow> int" where
  "getattr F_dst i = mc_dst i"
| "getattr F_src0 i = mc_src0 i"
| "getattr F_src1 i = mc_src1 i"
| "getattr F_aux i = mc_aux i"
| "getattr F_immediate i = mc_immediate i"

definition require_zero :: "apu_instruction \<Rightarrow> apu_field list \<Rightarrow> apu_error + unit" where
  "require_zero i names =
     first_error (map (\<lambda>name. raise_if (getattr name i \<noteq> 0) (ReservedField name)) names)"

definition instruction_required_mask :: "apu_instruction \<Rightarrow> int" where
  "instruction_required_mask i =
     (let cls = mc_class i; opc = mc_opcode i in
      if cls = CLS_CONTROL \<and> opc = CTL_WAIT then
        (if mc_aux i = 1 then 65472
         else if mc_aux i \<in> {2, 3} then shl 1 5
         else if mc_aux i = 4 then shl 1 18
         else if mc_aux i = 5 then shl 1 17
         else 0)
      else if cls = CLS_BITSTREAM then
        shl 1 0 OR (if opc \<in> {6, 7} then shl 1 1 else 0)
      else if cls = CLS_ENTROPY then shl 1 0 OR shl 1 (if opc \<le> 2 then 2 else 3)
      else if cls = CLS_LOCAL then shl 1 (if opc \<in> {5, 6} then 5 else 4)
      else if cls = CLS_KERNEL then shl 1 (opc + 6)
      else if cls = CLS_TRANSPORT then
        (if opc \<le> 2 then shl 1 (opc + 16)
         else if opc \<in> {4, 5} then shl 1 19
         else if opc = 6 then shl 1 20
         else 0)
      else 0)"

section \<open>Validation of one instruction\<close>

text \<open>The opcode bound of a class and the conversion to its \<open>IntEnum\<close>.\<close>

definition allocated :: "apu_instruction \<Rightarrow> int \<Rightarrow> string \<Rightarrow> apu_error + unit" where
  "allocated i last_opcode message =
     first_error
       [raise_if (mc_opcode i > last_opcode) (ValueError message),
        raise_if (mc_opcode i < 0) EnumError]"

definition branch_limit :: "int \<Rightarrow> int" where
  "branch_limit abi = (if abi = APUMC_ABI_V2 then 4095 else 2047)"

definition validate_control :: "apu_instruction \<Rightarrow> apu_target \<Rightarrow> int \<Rightarrow> apu_error + unit" where
  "validate_control i target abi =
     (let opc = mc_opcode i in
      bind_r (allocated i CTL_WAIT ''control opcode is unallocated'') (\<lambda>_.
      if opc \<in> {CTL_NOP, CTL_END} then require_zero i [F_dst, F_src0, F_src1, F_aux, F_immediate]
      else if opc = CTL_TRAP then require_zero i [F_dst, F_src0, F_src1, F_aux]
      else if opc \<in> {CTL_JUMP_FWD, CTL_CALL_FWD} then
        first_error
          [require_zero i [F_dst, F_src0, F_src1, F_aux],
           raise_if (\<not> (1 \<le> mc_immediate i \<and> mc_immediate i \<le> branch_limit abi))
             (ValueError ''forward branch delta is outside the image PC width'')]
      else if opc = CTL_RET then
        first_error
          [require_zero i [F_dst, F_src0, F_src1, F_aux, F_immediate],
           raise_if (mc_predicate i \<noteq> 0) (ValueError ''RET predicate must be always'')]
      else if opc = CTL_LOOP_SETUP then
        first_error
          [require_zero i [F_dst, F_src1, F_immediate],
           raise_if (mc_predicate i \<noteq> 0 \<or> mc_aux i > 3)
             (ValueError ''LOOP_SETUP requires always predicate and slot 0..3'')]
      else if opc = CTL_LOOP_BACK then
        first_error
          [require_zero i [F_dst, F_src0, F_src1],
           raise_if (mc_predicate i \<noteq> 0 \<or> mc_aux i > 3
               \<or> \<not> (1 \<le> mc_immediate i \<and> mc_immediate i \<le> branch_limit abi))
             (ValueError ''LOOP_BACK encoding is invalid'')]
      else
        first_error
          [require_zero i [F_dst, F_src0, F_src1, F_immediate],
           raise_if (mc_predicate i \<noteq> 0 \<or> mc_aux i > 5) (ValueError ''WAIT encoding is invalid''),
           raise_if (target = P3 \<or> (target = P4 \<and> mc_aux i \<notin> {1, 2, 3}))
             (ValueError ''WAIT source is unavailable'')]))"

definition validate_scalar :: "apu_instruction \<Rightarrow> apu_error + unit" where
  "validate_scalar i =
     (let opc = mc_opcode i in
      bind_r (allocated i SC_SAT ''scalar opcode is unallocated'') (\<lambda>_.
      if opc = SC_MOV then require_zero i [F_src1, F_aux, F_immediate]
      else if opc = SC_MOVI then require_zero i [F_src0, F_src1, F_aux]
      else if opc \<in> {SC_ADD, SC_SUB, SC_AND, SC_OR, SC_XOR, SC_SHL, SC_SHR, SC_SAR} then
        require_zero i [F_aux, F_immediate]
      else if opc = SC_CMP then require_zero i [F_dst, F_aux, F_immediate]
      else if opc \<in> {SC_MIN, SC_MAX} then
        first_error
          [require_zero i [F_immediate],
           raise_if (mc_aux i > 1) (ValueError ''MIN/MAX aux must select unsigned or signed'')]
      else
        first_error
          [require_zero i [F_src1, F_immediate],
           raise_if (mc_aux i AND 192 \<noteq> 0 \<or> mc_aux i AND 31 \<notin> {0, 8, 16, 24})
             (ValueError ''SAT width/sign encoding is invalid'')]))"

definition validate_bitstream :: "apu_instruction \<Rightarrow> apu_error + unit" where
  "validate_bitstream i =
     (let opc = mc_opcode i;
          width = raise_if (\<not> (1 \<le> mc_immediate i \<and> mc_immediate i \<le> 32))
                    (ValueError ''bit width must be 1..32'') in
      bind_r (allocated i 7 ''bitstream opcode is unallocated'') (\<lambda>_.
      if opc \<in> {0, 1, 2} then first_error [require_zero i [F_src0, F_src1, F_aux], width]
      else if opc = 3 then first_error [require_zero i [F_dst, F_src0, F_src1, F_aux], width]
      else if opc = 4 then require_zero i [F_dst, F_src0, F_src1, F_aux, F_immediate]
      else if opc = 5 then
        raise_if (\<not> (8 \<le> mc_aux i \<and> mc_aux i \<le> 16)
            \<or> \<not> (1 \<le> mc_immediate i \<and> mc_immediate i \<le> 65535))
          (ValueError ''FRAME_SYNC width/limit is invalid'')
      else require_zero i [F_aux, F_immediate]))"

definition validate_entropy :: "apu_instruction \<Rightarrow> apu_error + unit" where
  "validate_entropy i =
     (let opc = mc_opcode i in
      bind_r (allocated i 6 ''entropy opcode is unallocated'') (\<lambda>_.
      if opc \<le> 2 then
        first_error
          [raise_if (\<not> (1 \<le> mc_aux i \<and> mc_aux i \<le> 24))
             (ValueError ''Huffman maximum length must be 1..24''),
           raise_if (opc = 1 \<and> mc_dst i > 14) (ValueError ''HUFF_PAIR destination must be 0..14''),
           raise_if (opc = 2 \<and> mc_dst i > 12) (ValueError ''HUFF_QUAD destination must be 0..12''),
           require_zero i [F_immediate]]
      else if opc = 3 then
        first_error
          [require_zero i [F_src0, F_src1],
           raise_if (mc_aux i > 1 \<or> \<not> (1 \<le> mc_immediate i \<and> mc_immediate i \<le> 65535))
             (ValueError ''UNARY polarity/maximum is invalid'')]
      else require_zero i [F_aux, F_immediate]))"

definition validate_local :: "apu_instruction \<Rightarrow> apu_error + unit" where
  "validate_local i =
     (let opc = mc_opcode i in
      bind_r (allocated i 6 ''local opcode is unallocated'') (\<lambda>_.
      if opc = 0 then
        first_error
          [require_zero i [F_src1, F_aux],
           raise_if (shr (mc_immediate i) 16 \<noteq> 0) (ValueError ''LD32 immediate must fit 16 bits'')]
      else if opc = 1 then
        first_error
          [require_zero i [F_dst, F_aux],
           raise_if (shr (mc_immediate i) 16 \<noteq> 0) (ValueError ''ST32 immediate must fit 16 bits'')]
      else if opc \<in> {2, 3, 4} then require_zero i [F_aux, F_immediate]
      else if opc = 5 then
        first_error
          [require_zero i [F_src0, F_src1, F_aux, F_immediate],
           raise_if (mc_dst i > 14) (ValueError ''FIFO_POP destination must be 0..14'')]
      else require_zero i [F_dst, F_aux, F_immediate]))"

definition validate_kernel :: "apu_instruction \<Rightarrow> apu_error + unit" where
  "validate_kernel i =
     (let opc = mc_opcode i; aux = mc_aux i in
      first_error
        [raise_if (opc > 9 \<or> \<not> (1 \<le> mc_immediate i \<and> mc_immediate i \<le> 65535))
           (ValueError ''kernel opcode/count is invalid''),
         raise_if (opc < 0) EnumError,
         raise_if (opc = 0 \<and> shr aux 6 = 3) (ValueError ''REQUANT output width is invalid''),
         raise_if (opc \<in> {1, 7} \<and> shr aux 2 \<noteq> 0) (ValueError ''stereo mode is invalid''),
         raise_if (opc \<in> {2, 3, 4} \<and> aux \<noteq> 0) (ValueError ''transform aux is reserved''),
         raise_if (opc = 5 \<and> aux > 4) (ValueError ''fixed predictor order is invalid''),
         raise_if (opc = 6 \<and> \<not> (1 \<le> aux \<and> aux \<le> 32)) (ValueError ''LPC order is invalid''),
         raise_if (opc = 8 \<and> aux > 15) (ValueError ''resampler profile is invalid''),
         raise_if (opc = 9 \<and> (shr aux 3 \<noteq> 0 \<or> aux AND 3 > 1))
           (ValueError ''PCM pack format is invalid'')])"

definition validate_transport :: "apu_instruction \<Rightarrow> apu_error + unit" where
  "validate_transport i =
     (let opc = mc_opcode i; imm = mc_immediate i in
      bind_r (allocated i 6 ''transport opcode is unallocated'') (\<lambda>_.
      if opc \<in> {0, 1, 2} then require_zero i [F_aux, F_immediate]
      else if opc = 3 then require_zero i [F_src0, F_src1, F_aux, F_immediate]
      else if opc = 4 then require_zero i [F_dst, F_aux, F_immediate]
      else if opc = 5 then
        first_error
          [require_zero i [F_dst, F_immediate],
           raise_if (shr (mc_aux i) 4 \<noteq> 0) (ValueError ''JOB_RESULT stage is invalid'')]
      else
        first_error
          [require_zero i [F_dst, F_src0, F_src1, F_aux],
           raise_if (shr imm 11 \<noteq> 0 \<or> imm AND 192 = 0) (ValueError ''EVENT mask is invalid''),
           raise_if (imm AND NOT 192 \<noteq> 0) (ValueError ''EVENT mask contains unavailable IRQ bits'')]))"

definition validate_instruction :: "apu_instruction \<Rightarrow> apu_target \<Rightarrow> int \<Rightarrow> apu_error + unit" where
  "validate_instruction i target abi =
     bind_r (target_mask target) (\<lambda>tmask.
       let cls = mc_class i in
       bind_r (raise_if (mc_predicate i > 11) (ValueError ''predicate is reserved'')) (\<lambda>_.
       if cls = CLS_CONTROL then validate_control i target abi
       else if cls = CLS_SCALAR then validate_scalar i
       else
         first_error
           [raise_if (cls > CLS_TRANSPORT) (ValueError ''instruction class is invalid in V1''),
            raise_if (target = P3 \<or> (target = P4 \<and> cls = CLS_TRANSPORT))
              (ValueError ''instruction class is unavailable''),
            (if cls = CLS_BITSTREAM then validate_bitstream i
             else if cls = CLS_ENTROPY then validate_entropy i
             else if cls = CLS_LOCAL then validate_local i
             else if cls = CLS_KERNEL then validate_kernel i
             else if cls = CLS_TRANSPORT then validate_transport i
             else Inr ()),
            raise_if (instruction_required_mask i AND NOT tmask \<noteq> 0)
              (ValueError ''required primitive is unavailable'')]))"

definition validate_p3_instruction :: "apu_instruction \<Rightarrow> apu_error + unit" where
  "validate_p3_instruction i = validate_instruction i P3 APUMC_ABI_V1"

definition validate_p4_instruction :: "apu_instruction \<Rightarrow> apu_error + unit" where
  "validate_p4_instruction i = validate_instruction i P4 APUMC_ABI_V1"

definition validate_p5_instruction :: "apu_instruction \<Rightarrow> apu_error + unit" where
  "validate_p5_instruction i = validate_instruction i P5 APUMC_ABI_V1"

section \<open>Entry descriptors\<close>

record apu_entry =
  format_id :: int
  entry_pc :: int
  first_pc :: int
  last_pc :: int
  max_loop_count :: int
  max_retired :: int
  scratch_base :: int
  scratch_bytes :: int
  primitive_mask :: int
  table_offset :: int
  table_bytes :: int

definition entry_words :: "apu_entry \<Rightarrow> int \<Rightarrow> int list" where
  "entry_words e abi =
     (let entry_mask = (if abi = APUMC_ABI_V2 then 65535 else 2047);
          range_mask = (if abi = APUMC_ABI_V2 then 4095 else 2047) in
      [format_id e OR shl (entry_pc e AND entry_mask) 4,
       (first_pc e AND range_mask) OR shl (last_pc e AND range_mask) 16,
       scratch_base e, scratch_bytes e, max_loop_count e, max_retired e, primitive_mask e,
       table_offset e OR shl (table_bytes e) 16])"

definition pc_limit :: "int \<Rightarrow> int" where
  "pc_limit abi = (if abi = APUMC_ABI_V2 then APUMC_MAX_INSTRUCTIONS_V2 else APUMC_MAX_INSTRUCTIONS_V1)"

definition validate_entry_ranges :: "apu_entry \<Rightarrow> int \<Rightarrow> (apu_error + unit) list" where
  "validate_entry_ranges e table_payload_bytes =
     [raise_if (scratch_base e AND 3 \<noteq> 0 \<or> scratch_bytes e AND 3 \<noteq> 0)
        (ValueError ''scratch range must be four-byte aligned''),
      raise_if (scratch_base e + scratch_bytes e > APUMC_P4_TABLE_SCRATCH_BYTES)
        (ValueError ''scratch range exceeds the codec workspace''),
      raise_if (scratch_bytes e \<noteq> 0 \<and> scratch_base e < table_payload_bytes)
        (ValueError ''scratch range overlaps the active table payload''),
      raise_if (table_offset e AND 3 \<noteq> 0 \<or> table_bytes e AND 3 \<noteq> 0)
        (ValueError ''entry table range must be four-byte aligned''),
      raise_if (table_offset e + table_bytes e > table_payload_bytes)
        (ValueError ''entry table range exceeds the active table payload'')]"

definition validate_entry ::
  "apu_entry \<Rightarrow> int \<Rightarrow> apu_target \<Rightarrow> int \<Rightarrow> int \<Rightarrow> apu_error + unit" where
  "validate_entry e instruction_count target table_payload_bytes abi =
     first_error
       [raise_if (\<not> (0 \<le> format_id e \<and> format_id e < APUMC_ENTRY_COUNT))
          (ValueError ''entry format must be 0, 1, or 2''),
        raise_if (\<not> (0 \<le> first_pc e \<and> first_pc e \<le> entry_pc e \<and> entry_pc e \<le> last_pc e
            \<and> last_pc e < instruction_count \<and> instruction_count \<le> pc_limit abi))
          (ValueError ''entry PC range is invalid''),
        raise_if (\<not> (1 \<le> max_loop_count e \<and> max_loop_count e \<le> 65535))
          (ValueError ''maximum loop count must be 1..65535''),
        raise_if (\<not> (1 \<le> max_retired e \<and> max_retired e \<le> 16777215))
          (ValueError ''maximum retired count must be 1..16777215''),
        raise_if (target = P3 \<and> (scratch_base e \<noteq> 0 \<or> scratch_bytes e \<noteq> 0 \<or> primitive_mask e \<noteq> 0
            \<or> table_offset e \<noteq> 0 \<or> table_bytes e \<noteq> 0))
          (ValueError ''P3 entries cannot use scratch, table, or primitives''),
        (if target \<in> {P4, P5} then
           bind_r (target_mask target) (\<lambda>tmask.
             first_error
               (raise_if (primitive_mask e AND NOT tmask \<noteq> 0)
                  (ValueError ''entry requires an unavailable primitive'')
                # validate_entry_ranges e table_payload_bytes))
         else Inr ())]"

section \<open>The instruction word\<close>

definition mc_in_range :: "apu_instruction \<Rightarrow> bool" where
  "mc_in_range i \<longleftrightarrow>
     0 \<le> mc_class i \<and> mc_class i < 16 \<and> 0 \<le> mc_opcode i \<and> mc_opcode i < 16 \<and>
     0 \<le> mc_predicate i \<and> mc_predicate i < 16 \<and> 0 \<le> mc_dst i \<and> mc_dst i < 16 \<and>
     0 \<le> mc_src0 i \<and> mc_src0 i < 16 \<and> 0 \<le> mc_src1 i \<and> mc_src1 i < 16 \<and>
     0 \<le> mc_aux i \<and> mc_aux i < 256 \<and> 0 \<le> mc_immediate i \<and> mc_immediate i < 4294967296"

definition mc_word :: "apu_instruction \<Rightarrow> int" where
  "mc_word i =
     (((((((push_bit 60 (mc_class i)) OR push_bit 56 (mc_opcode i)) OR push_bit 52 (mc_predicate i))
        OR push_bit 48 (mc_dst i)) OR push_bit 44 (mc_src0 i)) OR push_bit 40 (mc_src1 i))
        OR push_bit 32 (mc_aux i)) OR mc_immediate i"

lemma mc_encode_value: "mc_encode i = Inr w \<longleftrightarrow> mc_in_range i \<and> w = mc_word i"
  by (auto simp: mc_encode_def mc_fields_def mc_in_range_def mc_word_def not_less split: if_splits)

text \<open>The word in Horner form: each field is appended below the ones before it.\<close>

definition append_field :: "nat \<Rightarrow> int \<Rightarrow> int \<Rightarrow> int" where
  "append_field k a x = a * 2 ^ k + x"

lemma append_field_or:
  assumes "0 \<le> x" "x < 2 ^ k"
  shows "push_bit (n + k) a OR push_bit n x = push_bit n (append_field k a x)"
proof -
  have "push_bit (n + k) a OR push_bit n x = push_bit n (push_bit k a OR x)"
    by (simp add: push_bit_or push_bit_push_bit)
  then show ?thesis using or_shift_add(2) [OF assms, of a] by (simp add: append_field_def)
qed

lemma append_field_split:
  assumes "0 \<le> x" "x < 2 ^ k"
  shows "drop_bit k (append_field k a x) = a" "take_bit k (append_field k a x) = x"
  using assms by (simp_all add: append_field_def drop_bit_eq_div take_bit_eq_mod)

lemma append_field_join: "append_field k (drop_bit k w) (take_bit k w) = (w::int)"
  by (simp add: append_field_def drop_bit_eq_div take_bit_eq_mod div_mult_mod_eq)

lemma mc_word_append:
  assumes "mc_in_range i"
  shows "mc_word i =
    append_field 32 (append_field 8 (append_field 4 (append_field 4 (append_field 4 (append_field 4
      (append_field 4 (mc_class i) (mc_opcode i)) (mc_predicate i)) (mc_dst i)) (mc_src0 i))
      (mc_src1 i)) (mc_aux i)) (mc_immediate i)"
proof -
  note r = assms [unfolded mc_in_range_def]
  have s: "push_bit 60 a OR push_bit 56 x = push_bit 56 (append_field 4 a x)"
    "push_bit 56 a OR push_bit 52 x = push_bit 52 (append_field 4 a x)"
    "push_bit 52 a OR push_bit 48 x = push_bit 48 (append_field 4 a x)"
    "push_bit 48 a OR push_bit 44 x = push_bit 44 (append_field 4 a x)"
    "push_bit 44 a OR push_bit 40 x = push_bit 40 (append_field 4 a x)" if "0 \<le> x" "x < 16" for a x
    using append_field_or [of x 4 56 a] append_field_or [of x 4 52 a] append_field_or [of x 4 48 a]
      append_field_or [of x 4 44 a] append_field_or [of x 4 40 a] that by simp_all
  have s8: "push_bit 40 a OR push_bit 32 x = push_bit 32 (append_field 8 a x)" if "0 \<le> x" "x < 256" for a x
    using append_field_or [of x 8 32 a] that by simp
  have s32: "push_bit 32 a OR x = append_field 32 a x" if "0 \<le> x" "x < 4294967296" for a x
    using append_field_or [of x 32 0 a] that by simp
  show ?thesis
    unfolding mc_word_def using r by (simp only: s s8 s32)
qed

lemma drop_more: "drop_bit (n + k) (w::int) = drop_bit k (drop_bit n w)"
  by (simp add: drop_bit_drop_bit add.commute)

lemma mc_word_field:
  assumes "mc_in_range i"
  shows "take_bit 4 (drop_bit 60 (mc_word i)) = mc_class i"
    and "take_bit 4 (drop_bit 56 (mc_word i)) = mc_opcode i"
    and "take_bit 4 (drop_bit 52 (mc_word i)) = mc_predicate i"
    and "take_bit 4 (drop_bit 48 (mc_word i)) = mc_dst i"
    and "take_bit 4 (drop_bit 44 (mc_word i)) = mc_src0 i"
    and "take_bit 4 (drop_bit 40 (mc_word i)) = mc_src1 i"
    and "take_bit 8 (drop_bit 32 (mc_word i)) = mc_aux i"
    and "take_bit 32 (mc_word i) = mc_immediate i"
proof -
  note r = assms [unfolded mc_in_range_def] and w = mc_word_append [OF assms]
  have p: "(16::int) = 2 ^ 4" "(256::int) = 2 ^ 8" "(4294967296::int) = 2 ^ 32" by simp_all
  note sp = append_field_split
  let ?a2 = "append_field 4 (mc_class i) (mc_opcode i)"
  let ?a3 = "append_field 4 ?a2 (mc_predicate i)"
  let ?a4 = "append_field 4 ?a3 (mc_dst i)"
  let ?a5 = "append_field 4 ?a4 (mc_src0 i)"
  let ?a6 = "append_field 4 ?a5 (mc_src1 i)"
  have d32: "drop_bit 32 (mc_word i) = append_field 8 ?a6 (mc_aux i)"
    and "take_bit 32 (mc_word i) = mc_immediate i"
    using r sp [of "mc_immediate i" 32] by (simp_all add: w)
  then show "take_bit 32 (mc_word i) = mc_immediate i" by simp
  have d40: "drop_bit 40 (mc_word i) = ?a6" and "take_bit 8 (drop_bit 32 (mc_word i)) = mc_aux i"
    using r sp [of "mc_aux i" 8] drop_more [of 32 8 "mc_word i"] by (simp_all add: d32)
  then show "take_bit 8 (drop_bit 32 (mc_word i)) = mc_aux i" by simp
  have d44: "drop_bit 44 (mc_word i) = ?a5" and "take_bit 4 (drop_bit 40 (mc_word i)) = mc_src1 i"
    using r sp [of "mc_src1 i" 4] drop_more [of 40 4 "mc_word i"] by (simp_all add: d40)
  then show "take_bit 4 (drop_bit 40 (mc_word i)) = mc_src1 i" by simp
  have d48: "drop_bit 48 (mc_word i) = ?a4" and "take_bit 4 (drop_bit 44 (mc_word i)) = mc_src0 i"
    using r sp [of "mc_src0 i" 4] drop_more [of 44 4 "mc_word i"] by (simp_all add: d44)
  then show "take_bit 4 (drop_bit 44 (mc_word i)) = mc_src0 i" by simp
  have d52: "drop_bit 52 (mc_word i) = ?a3" and "take_bit 4 (drop_bit 48 (mc_word i)) = mc_dst i"
    using r sp [of "mc_dst i" 4] drop_more [of 48 4 "mc_word i"] by (simp_all add: d48)
  then show "take_bit 4 (drop_bit 48 (mc_word i)) = mc_dst i" by simp
  have d56: "drop_bit 56 (mc_word i) = ?a2" and "take_bit 4 (drop_bit 52 (mc_word i)) = mc_predicate i"
    using r sp [of "mc_predicate i" 4] drop_more [of 52 4 "mc_word i"] by (simp_all add: d52)
  then show "take_bit 4 (drop_bit 52 (mc_word i)) = mc_predicate i" by simp
  have d60: "drop_bit 60 (mc_word i) = mc_class i" and "take_bit 4 (drop_bit 56 (mc_word i)) = mc_opcode i"
    using r sp [of "mc_opcode i" 4] drop_more [of 56 4 "mc_word i"] by (simp_all add: d56)
  then show "take_bit 4 (drop_bit 56 (mc_word i)) = mc_opcode i"
    "take_bit 4 (drop_bit 60 (mc_word i)) = mc_class i"
    using r by (simp_all add: take_bit_int_eq_self)
qed

lemma mc_decode_value:
  "mc_decode w = Inr i \<longleftrightarrow> 0 \<le> w \<and> w < 2 ^ 64 \<and>
     i = \<lparr>mc_class = take_bit 4 (drop_bit 60 w), mc_opcode = take_bit 4 (drop_bit 56 w),
          mc_predicate = take_bit 4 (drop_bit 52 w), mc_dst = take_bit 4 (drop_bit 48 w),
          mc_src0 = take_bit 4 (drop_bit 44 w), mc_src1 = take_bit 4 (drop_bit 40 w),
          mc_aux = take_bit 8 (drop_bit 32 w), mc_immediate = take_bit 32 w\<rparr>"
proof -
  have m: "(x::int) AND 15 = take_bit 4 x" "x AND 255 = take_bit 8 x" "x AND 4294967295 = take_bit 32 x" for x
    by (simp_all add: bit_arith take_bit_eq_mod)
  show ?thesis by (auto simp: mc_decode_def m)
qed

lemma mc_word_bound:
  assumes "mc_in_range i"
  shows "0 \<le> mc_word i" "mc_word i < 2 ^ 64"
  using assms by (simp_all add: mc_word_append append_field_def mc_in_range_def)

lemma mc_word_join:
  assumes "0 \<le> w" "w < 2 ^ 64"
    and "i = \<lparr>mc_class = take_bit 4 (drop_bit 60 w), mc_opcode = take_bit 4 (drop_bit 56 w),
      mc_predicate = take_bit 4 (drop_bit 52 w), mc_dst = take_bit 4 (drop_bit 48 w),
      mc_src0 = take_bit 4 (drop_bit 44 w), mc_src1 = take_bit 4 (drop_bit 40 w),
      mc_aux = take_bit 8 (drop_bit 32 w), mc_immediate = take_bit 32 w\<rparr>"
  shows "mc_in_range i" "mc_word i = w"
proof -
  show r: "mc_in_range i"
    unfolding mc_in_range_def assms(3)
    using take_bit_int_less_exp [of 4] take_bit_int_less_exp [of 8] take_bit_int_less_exp [of 32] by simp
  have "w div 2 ^ 60 < 16" using assms(2) by simp
  then have top: "take_bit 4 (drop_bit 60 w) = drop_bit 60 w"
    using assms(1) by (simp add: drop_bit_eq_div take_bit_eq_mod)
  have j: "append_field 4 (drop_bit 60 w) (take_bit 4 (drop_bit 56 w)) = drop_bit 56 w"
    "append_field 4 (drop_bit 56 w) (take_bit 4 (drop_bit 52 w)) = drop_bit 52 w"
    "append_field 4 (drop_bit 52 w) (take_bit 4 (drop_bit 48 w)) = drop_bit 48 w"
    "append_field 4 (drop_bit 48 w) (take_bit 4 (drop_bit 44 w)) = drop_bit 44 w"
    "append_field 4 (drop_bit 44 w) (take_bit 4 (drop_bit 40 w)) = drop_bit 40 w"
    "append_field 8 (drop_bit 40 w) (take_bit 8 (drop_bit 32 w)) = drop_bit 32 w"
    "append_field 32 (drop_bit 32 w) (take_bit 32 w) = w"
    using append_field_join [of 4 "drop_bit 56 w"] append_field_join [of 4 "drop_bit 52 w"]
      append_field_join [of 4 "drop_bit 48 w"] append_field_join [of 4 "drop_bit 44 w"]
      append_field_join [of 4 "drop_bit 40 w"] append_field_join [of 8 "drop_bit 32 w"]
      append_field_join [of 32 w] drop_more [of 56 4 w] drop_more [of 52 4 w] drop_more [of 48 4 w]
      drop_more [of 44 4 w] drop_more [of 40 4 w] drop_more [of 32 8 w]
    by simp_all
  show "mc_word i = w"
    using mc_word_append [OF r] by (simp only: assms(3) apu_instruction.select_convs top j)
qed

text \<open>C12: encoding and decoding of APU microcode words are mutually inverse: a 64-bit word is the
  encoding of an instruction exactly when it decodes to it, so every instruction whose fields fit
  survives the round trip and every 64-bit word is the encoding of exactly one instruction.\<close>

theorem mc_encode_decode_iff: "mc_encode i = Inr w \<longleftrightarrow> mc_decode w = Inr i"
proof
  assume "mc_encode i = Inr w"
  then have r: "mc_in_range i" and w: "w = mc_word i" by (simp_all add: mc_encode_value)
  show "mc_decode w = Inr i"
    unfolding mc_decode_value w using mc_word_bound [OF r] mc_word_field [OF r] by simp
next
  assume "mc_decode w = Inr i"
  note d = this [unfolded mc_decode_value]
  then have "mc_in_range i" "mc_word i = w" using mc_word_join [of w i] by blast+
  then show "mc_encode i = Inr w" by (simp add: mc_encode_value)
qed

section \<open>Nested targets\<close>

lemma require_zero_facts:
  "require_zero i fs = Inr u \<longleftrightarrow> (\<forall>f \<in> set fs. getattr f i = 0)"
  by (auto simp: require_zero_def result_simps)

lemma allocated_Inr: "allocated i n msg = Inr u \<longleftrightarrow> mc_opcode i \<le> n \<and> 0 \<le> mc_opcode i"
  by (auto simp: allocated_def result_simps)

lemma validate_control_mono:
  assumes v: "validate_control i t abi = Inr ()"
    and t: "t = P3 \<or> t = P4 \<and> t' = P5 \<or> t = t'" and abi: "abi = abi' \<or> abi = APUMC_ABI_V1"
  shows "validate_control i t' abi' = Inr ()"
proof -
  have b: "branch_limit abi \<le> branch_limit abi'"
    using abi by (auto simp: branch_limit_def)
  have alloc: "allocated i CTL_WAIT ''control opcode is unallocated'' = Inr ()"
    using v by (simp add: validate_control_def Let_def result_simps del: insert_iff)
  consider
      (branch) "mc_opcode i \<in> {CTL_JUMP_FWD, CTL_CALL_FWD}" | (lback) "mc_opcode i = CTL_LOOP_BACK"
    | (wt) "mc_opcode i = CTL_WAIT"
    | (other) "mc_opcode i \<in> {CTL_NOP, CTL_END} \<or> mc_opcode i = CTL_TRAP \<or> mc_opcode i = CTL_RET
        \<or> mc_opcode i = CTL_LOOP_SETUP"
    using alloc unfolding allocated_Inr by fastforce
  then show ?thesis
  proof cases
    case other
    then show ?thesis using v unfolding validate_control_def Let_def alloc by auto
  qed (use v t b alloc in \<open>auto simp: validate_control_def Let_def result_simps\<close>)
qed

text \<open>The rules of the classes beyond control and scalar.\<close>

definition class_rules :: "apu_instruction \<Rightarrow> apu_error + unit" where
  "class_rules i =
     (if mc_class i = CLS_BITSTREAM then validate_bitstream i
      else if mc_class i = CLS_ENTROPY then validate_entropy i
      else if mc_class i = CLS_LOCAL then validate_local i
      else if mc_class i = CLS_KERNEL then validate_kernel i
      else if mc_class i = CLS_TRANSPORT then validate_transport i else Inr ())"

lemma validate_extension:
  assumes "mc_class i \<notin> {CLS_CONTROL, CLS_SCALAR}"
  shows "validate_instruction i t abi = Inr () \<longleftrightarrow>
    (\<exists>tmask. target_mask t = Inr tmask \<and> mc_predicate i \<le> 11 \<and> mc_class i \<le> CLS_TRANSPORT \<and>
      t \<noteq> P3 \<and> (t = P4 \<longrightarrow> mc_class i \<noteq> CLS_TRANSPORT) \<and> class_rules i = Inr () \<and>
      instruction_required_mask i AND NOT tmask = 0)"
proof -
  have "validate_instruction i t abi =
      bind_r (target_mask t) (\<lambda>tmask.
        bind_r (raise_if (mc_predicate i > 11) (ValueError ''predicate is reserved'')) (\<lambda>_.
        first_error
          [raise_if (mc_class i > CLS_TRANSPORT) (ValueError ''instruction class is invalid in V1''),
           raise_if (t = P3 \<or> (t = P4 \<and> mc_class i = CLS_TRANSPORT))
             (ValueError ''instruction class is unavailable''), class_rules i,
           raise_if (instruction_required_mask i AND NOT tmask \<noteq> 0)
             (ValueError ''required primitive is unavailable'')]))"
    unfolding validate_instruction_def Let_def class_rules_def using assms by simp
  then show ?thesis by (auto simp: result_simps)
qed

lemma control_required:
  assumes "validate_instruction i t abi = Inr ()" "mc_class i \<in> {CLS_CONTROL, CLS_SCALAR}"
    "target_mask t = Inr tmask"
  shows "instruction_required_mask i AND NOT tmask = 0"
proof (cases "mc_class i = CLS_CONTROL \<and> mc_opcode i = CTL_WAIT")
  case False
  have "mc_class i = CLS_CONTROL \<or> mc_class i = CLS_SCALAR" using assms(2) by simp
  then have "instruction_required_mask i = 0"
    using False by (elim disjE) (simp_all add: instruction_required_mask_def)
  then show ?thesis by simp
next
  case wt: True
  with assms(1) have "t \<noteq> P3 \<and> (t = P4 \<longrightarrow> mc_aux i \<in> {1, 2, 3})"
    by (simp add: validate_instruction_def validate_control_def result_simps)
  with assms(3) wt show ?thesis
    by (cases t) (auto simp: target_mask_def instruction_required_mask_def Let_def)
qed

lemma p4_mask_in_p5: "v AND NOT (65535::int) = 0 \<Longrightarrow> v AND NOT (2097151::int) = 0"
proof -
  have "bits_of (65535::int) \<subseteq> bits_of (2097151::int)"
    using bits_of_mask [of 16] bits_of_mask [of 21] by simp
  then show "v AND NOT (65535::int) = 0 \<Longrightarrow> v AND NOT (2097151::int) = 0"
    unfolding and_not_zero_iff by blast
qed

text \<open>Targets and image ABIs are nested: an instruction accepted for P3 is accepted for P4 and
  P5, one accepted for P4 is accepted for P5, and one accepted for a V1 image is accepted for a V2
  image; and whatever is accepted needs only primitives of its target.\<close>

theorem targets_are_nested:
  assumes "validate_instruction i t abi = Inr ()"
    and "(t, t') \<in> {(P3, P4), (P3, P5), (P4, P5), (P3, P3), (P4, P4), (P5, P5)}"
    and "(abi, abi') \<in> {(65536, 65536), (65536, 131072), (131072, 131072)}"
  shows "validate_instruction i t' abi' = Inr () \<and>
    (\<forall>tmask. target_mask t = Inr tmask \<longrightarrow> instruction_required_mask i AND NOT tmask = 0)"
proof (cases "mc_class i \<in> {CLS_CONTROL, CLS_SCALAR}")
  case True
  have "t = P3 \<or> t = P4 \<and> t' = P5 \<or> t = t'" "abi = abi' \<or> abi = APUMC_ABI_V1"
    using assms(2,3) by auto
  then have "validate_control i t' abi' = Inr ()" if "validate_control i t abi = Inr ()"
    by (rule validate_control_mono [OF that])
  then have "validate_instruction i t' abi' = Inr ()"
    using True assms(1,2)
    by (auto simp: validate_instruction_def target_mask_def result_simps Let_def)
  with control_required [OF assms(1) True] show ?thesis by blast
next
  case False
  with assms(1,2) show ?thesis
    unfolding validate_extension [OF False] by (auto simp: target_mask_def p4_mask_in_p5 [simplified])
qed

text \<open>A Huffman read of a P4 image in the first ABI.\<close>

theorem targets_are_nested_witness:
  "validate_instruction \<lparr>mc_class = 3, mc_opcode = 0, mc_predicate = 2, mc_dst = 4, mc_src0 = 1,
      mc_src1 = 0, mc_aux = 12, mc_immediate = 0\<rparr> P4 65536 = Inr () \<and>
   validate_instruction \<lparr>mc_class = 3, mc_opcode = 0, mc_predicate = 2, mc_dst = 4, mc_src0 = 1,
      mc_src1 = 0, mc_aux = 12, mc_immediate = 0\<rparr> P5 131072 = Inr ()"
proof -
  have v: "validate_instruction \<lparr>mc_class = 3, mc_opcode = 0, mc_predicate = 2, mc_dst = 4,
      mc_src0 = 1, mc_src1 = 0, mc_aux = 12, mc_immediate = 0\<rparr> P4 65536 = Inr ()"
    by code_simp
  show ?thesis using targets_are_nested [OF v, of P5 131072] v by simp
qed

end
