(* ===== verification/Apu_Flow.thy ===== *)
theory Apu_Flow
  imports Apu_ISA "HOL-Library.Product_Lexorder" "HOL-Library.List_Lexorder" "HOL-Library.Char_ord"
begin

text \<open>
  The control-flow proof of an entry, \<open>control_flow_report\<close> of \<^verbatim>\<open>scripts/apu_isa.py\<close>: the
  linear scan that pairs every \<open>LOOP_BACK\<close> with its \<open>LOOP_SETUP\<close>, the check for crossing loops
  and the exploration of the abstract states (program counter, return stack, start of each active
  loop slot) with its bound.

  Python's stack \<open>pending\<close> is a list whose head is the top; \<open>visited\<close>, \<open>edges\<close> and
  \<open>terminals\<close> are lists without repetition. The exploration is a total function: every iteration
  either shortens \<open>pending\<close> or visits a new state, and the code stops at a fixed number of states.
\<close>

unbundle bit_operations_syntax

section \<open>Indexing and opcodes\<close>

text \<open>\<open>xs[i]\<close> of a Python list, with negative indices counted from the end.\<close>

definition py_index :: "'a list \<Rightarrow> int \<Rightarrow> apu_error + 'a" where
  "py_index xs i =
     (if 0 \<le> i \<and> i < int (length xs) then Inr (xs ! nat i)
      else if i < 0 \<and> - i \<le> int (length xs) then Inr (xs ! nat (int (length xs) + i))
      else Inl ApuIndexError)"

definition control_opcode :: "int \<Rightarrow> apu_error + int" where
  "control_opcode opc = (if 0 \<le> opc \<and> opc \<le> CTL_WAIT then Inr opc else Inl EnumError)"

definition loop_slot :: "apu_instruction \<Rightarrow> int" where
  "loop_slot i = mc_aux i AND 3"

section \<open>The linear scan\<close>

record flow_scan =
  loop_pairs :: "(int \<times> int) list"
  active_setup :: "(int \<times> int) list"
  intervals :: "(int \<times> int) list"

definition scan_start :: flow_scan where
  "scan_start = \<lparr>loop_pairs = [], active_setup = [], intervals = []\<rparr>"

definition scan_control :: "apu_entry \<Rightarrow> int \<Rightarrow> apu_instruction \<Rightarrow> int \<Rightarrow> flow_scan \<Rightarrow> apu_error + flow_scan" where
  "scan_control e pc i opc s =
     (let slot = loop_slot i in
      if opc \<in> {CTL_JUMP_FWD, CTL_CALL_FWD} then
        (if pc + 1 + mc_immediate i > last_pc e
         then Inl (ValueError ''branch leaves its range'') else Inr s)
      else if opc = CTL_LOOP_SETUP then
        (if map_of (active_setup s) slot \<noteq> None then Inl (ValueError ''reuses active loop slot'')
         else Inr (s\<lparr>active_setup := (slot, pc) # active_setup s\<rparr>))
      else if opc = CTL_LOOP_BACK then
        (case map_of (active_setup s) slot of
           None \<Rightarrow> Inl (ValueError ''loop has no setup'')
         | Some setup \<Rightarrow>
             if pc + 1 - mc_immediate i \<noteq> setup + 1 then Inl (ValueError ''loop has wrong target'')
             else
               Inr \<lparr>loop_pairs = (pc, setup + 1) # loop_pairs s,
                     active_setup = filter (\<lambda>p. fst p \<noteq> slot) (active_setup s),
                     intervals = intervals s @ [(setup + 1, pc)]\<rparr>)
      else Inr s)"

definition scan_step :: "apu_instruction list \<Rightarrow> apu_entry \<Rightarrow> flow_scan \<Rightarrow> int \<Rightarrow> apu_error + flow_scan" where
  "scan_step instrs e s pc =
     bind_r (py_index instrs pc) (\<lambda>i.
       if mc_class i \<noteq> CLS_CONTROL then Inr s
       else bind_r (control_opcode (mc_opcode i)) (\<lambda>opc. scan_control e pc i opc s))"

definition crosses :: "int \<times> int \<Rightarrow> int \<times> int \<Rightarrow> bool" where
  "crosses a b \<longleftrightarrow>
     fst a < fst b \<and> fst b \<le> snd a \<and> snd a < snd b \<or>
     fst b < fst a \<and> fst a \<le> snd b \<and> snd b < snd a"

fun crossing_checks :: "(int \<times> int) list \<Rightarrow> apu_error + unit" where
  "crossing_checks [] = Inr ()"
| "crossing_checks (a # rest) =
     bind_r (first_error (map (\<lambda>b. raise_if (crosses a b) (ValueError ''crossing loops'')) rest))
       (\<lambda>_. crossing_checks rest)"

definition scan_loops :: "apu_instruction list \<Rightarrow> apu_entry \<Rightarrow> apu_error + flow_scan" where
  "scan_loops instrs e =
     bind_r (foldl_r (scan_step instrs e) scan_start (py_range (first_pc e) (last_pc e + 1))) (\<lambda>s.
       bind_r (raise_if (active_setup s \<noteq> []) (ValueError ''unterminated loop setup'')) (\<lambda>_.
         bind_r (crossing_checks (intervals s)) (\<lambda>_. Inr s)))"

section \<open>Abstract states and their successors\<close>

type_synonym flow_state = "int \<times> int list \<times> int option list"

datatype edge_kind =
    PredicateFalse | Fallthrough | JumpTrue | CallTrue | Return | LoopSetup | LoopRepeat | LoopExit
  | WaitReady

fun edge_name :: "edge_kind \<Rightarrow> string" where
  "edge_name PredicateFalse = ''predicate_false''"
| "edge_name Fallthrough = ''fallthrough''"
| "edge_name JumpTrue = ''jump_true''"
| "edge_name CallTrue = ''call_true''"
| "edge_name Return = ''return''"
| "edge_name LoopSetup = ''loop_setup''"
| "edge_name LoopRepeat = ''loop_repeat''"
| "edge_name LoopExit = ''loop_exit''"
| "edge_name WaitReady = ''wait_ready''"

text \<open>The report sorts the edges by their printed names.\<close>

lemma edge_name_inj: "edge_name a = edge_name b \<longleftrightarrow> a = b"
  by (cases a; cases b) simp_all

instantiation edge_kind :: linorder
begin

definition less_eq_edge_kind :: "edge_kind \<Rightarrow> edge_kind \<Rightarrow> bool" where
  "less_eq_edge_kind a b \<longleftrightarrow> edge_name a \<le> edge_name b"

definition less_edge_kind :: "edge_kind \<Rightarrow> edge_kind \<Rightarrow> bool" where
  "less_edge_kind a b \<longleftrightarrow> edge_name a < edge_name b"

instance
proof
  fix a b c :: edge_kind
  show "a < b \<longleftrightarrow> a \<le> b \<and> \<not> b \<le> a" "a \<le> a" "a \<le> b \<or> b \<le> a"
    by (auto simp: less_eq_edge_kind_def less_edge_kind_def)
  show "a \<le> c" if "a \<le> b" "b \<le> c"
    using that unfolding less_eq_edge_kind_def by (rule order_trans)
  show "a = b" if "a \<le> b" "b \<le> a"
    using that by (simp add: less_eq_edge_kind_def edge_name_inj [symmetric])
qed

end

type_synonym flow_edge = "int \<times> int \<times> edge_kind"

text \<open>What one iteration adds: successors in the order of the appends, edges, whether the state is
  terminal and the call depth it reaches.\<close>

record flow_expansion =
  fx_successors :: "flow_state list"
  fx_edges :: "flow_edge list"
  fx_terminal :: bool
  fx_depth :: nat

definition expansion :: "flow_state list \<Rightarrow> flow_edge list \<Rightarrow> flow_expansion" where
  "expansion succs es = \<lparr>fx_successors = succs, fx_edges = es, fx_terminal = False, fx_depth = 0\<rparr>"

definition expand_control ::
  "apu_target \<Rightarrow> (int \<times> int) list \<Rightarrow> apu_instruction \<Rightarrow> int \<Rightarrow> flow_state \<Rightarrow> apu_error + flow_expansion" where
  "expand_control target pairs i opc st =
     (case st of (pc, returns, loops) \<Rightarrow>
      let slot = nat (loop_slot i); branch_target = pc + 1 + mc_immediate i in
      if opc \<in> {CTL_END, CTL_TRAP} then Inr ((expansion [] [])\<lparr>fx_terminal := True\<rparr>)
      else if opc = CTL_JUMP_FWD then
        Inr (expansion [(branch_target, returns, loops)] [(pc, branch_target, JumpTrue)])
      else if opc = CTL_CALL_FWD then
        (if length returns = 4 then Inl (ValueError ''can exceed four nested calls'')
         else
           Inr ((expansion [(branch_target, returns @ [pc + 1], loops)] [(pc, branch_target, CallTrue)])
                  \<lparr>fx_depth := length returns + 1\<rparr>))
      else if opc = CTL_RET then
        (if returns = [] then Inl (ValueError ''can return with an empty stack'')
         else Inr (expansion [(last returns, butlast returns, loops)] [(pc, last returns, Return)]))
      else if opc = CTL_LOOP_SETUP then
        (if loops ! slot \<noteq> None then Inl (ValueError ''can reuse active loop slot'')
         else Inr (expansion [(pc + 1, returns, loops[slot := Some (pc + 1)])] [(pc, pc + 1, LoopSetup)]))
      else if opc = CTL_LOOP_BACK then
        (if loops ! slot \<noteq> map_of pairs pc then Inl (ValueError ''has an invalid runtime loop path'')
         else
           case map_of pairs pc of
             None \<Rightarrow> Inl ApuKeyError
           | Some start \<Rightarrow>
               Inr (expansion [(start, returns, loops), (pc + 1, returns, loops[slot := None])]
                      [(pc, start, LoopRepeat), (pc, pc + 1, LoopExit)]))
      else if opc = CTL_NOP then
        Inr (expansion [(pc + 1, returns, loops)] [(pc, pc + 1, Fallthrough)])
      else if opc = CTL_WAIT \<and> target \<in> {P4, P5} then
        Inr (expansion [(pc + 1, returns, loops)] [(pc, pc + 1, WaitReady)])
      else Inl (ValueError ''WAIT requires a primitive unavailable''))"

definition expand ::
  "apu_instruction list \<Rightarrow> apu_entry \<Rightarrow> apu_target \<Rightarrow> (int \<times> int) list \<Rightarrow> flow_state
    \<Rightarrow> apu_error + flow_expansion" where
  "expand instrs e target pairs st =
     (case st of (pc, returns, loops) \<Rightarrow>
      if pc < first_pc e \<or> pc > last_pc e
      then Inl (ValueError ''can fall outside its program range'')
      else
        bind_r (py_index instrs pc) (\<lambda>i.
        let skip = (if mc_predicate i \<noteq> 0
                    then expansion [(pc + 1, returns, loops)] [(pc, pc + 1, PredicateFalse)]
                    else expansion [] []) in
        bind_r
          (if mc_class i \<noteq> CLS_CONTROL
           then Inr (expansion [(pc + 1, returns, loops)] [(pc, pc + 1, Fallthrough)])
           else
             bind_r (control_opcode (mc_opcode i)) (\<lambda>opc. expand_control target pairs i opc st))
          (\<lambda>x. Inr (x\<lparr>fx_successors := fx_successors skip @ fx_successors x,
                       fx_edges := fx_edges skip @ fx_edges x\<rparr>))))"

section \<open>The exploration\<close>

record flow_explored =
  fl_visited :: "flow_state list"
  fl_edges :: "flow_edge list"
  fl_terminals :: "int list"
  fl_depth :: nat
  fl_pending :: nat

definition proof_limit :: "int \<Rightarrow> int" where
  "proof_limit abi = pc_limit abi * 64"

definition flow_visit :: "flow_state \<Rightarrow> flow_expansion \<Rightarrow> flow_explored \<Rightarrow> flow_explored" where
  "flow_visit st x s =
     s\<lparr>fl_visited := st # fl_visited s,
       fl_edges := fold List.insert (fx_edges x) (fl_edges s),
       fl_terminals := (if fx_terminal x then List.insert (fst st) (fl_terminals s) else fl_terminals s),
       fl_depth := max (fl_depth s) (fx_depth x)\<rparr>"

lemma flow_visit_visited [simp]: "fl_visited (flow_visit st x s) = st # fl_visited s"
  by (simp add: flow_visit_def)

function flow_loop ::
  "(flow_state \<Rightarrow> apu_error + flow_expansion) \<Rightarrow> int \<Rightarrow> flow_state list \<Rightarrow> flow_explored
    \<Rightarrow> apu_error + flow_explored" where
  "flow_loop ex limit [] s = Inr s"
| "flow_loop ex limit (st # pending) s =
     (let s' = s\<lparr>fl_pending := max (fl_pending s) (length pending + 1)\<rparr> in
      if st \<in> set (fl_visited s) then flow_loop ex limit pending s'
      else
        (case ex st of
           Inl err \<Rightarrow> Inl err
         | Inr x \<Rightarrow>
             if int (length (fl_visited s)) + 1 > limit
             then Inl (ValueError ''control-flow proof exceeded its bound'')
             else flow_loop ex limit (rev (fx_successors x) @ pending) (flow_visit st x s')))"
  by pat_completeness auto

termination
  by (relation "measures [\<lambda>(ex, limit, pending, s). nat limit - length (fl_visited s),
      \<lambda>(ex, limit, pending, s). length pending]") auto

definition flow_start :: flow_explored where
  "flow_start = \<lparr>fl_visited = [], fl_edges = [], fl_terminals = [], fl_depth = 0, fl_pending = 1\<rparr>"

record flow_report =
  fr_entry :: int
  fr_entry_pc :: int
  fr_first_pc :: int
  fr_last_pc :: int
  fr_reachable_states :: nat
  fr_maximum_call_depth :: nat
  fr_maximum_pending_states :: nat
  fr_terminals :: "int list"
  fr_loops :: "(int \<times> int \<times> int) list"
  fr_edges :: "flow_edge list"

definition entry_state :: "apu_entry \<Rightarrow> flow_state" where
  "entry_state e = (entry_pc e, [], replicate 4 None)"

definition explore ::
  "apu_instruction list \<Rightarrow> apu_entry \<Rightarrow> apu_target \<Rightarrow> int \<Rightarrow> (int \<times> int) list \<Rightarrow> apu_error + flow_explored" where
  "explore instrs e target abi pairs =
     flow_loop (expand instrs e target pairs) (proof_limit abi) [entry_state e] flow_start"

definition control_flow_report ::
  "apu_instruction list \<Rightarrow> apu_entry \<Rightarrow> apu_target \<Rightarrow> int \<Rightarrow> apu_error + flow_report" where
  "control_flow_report instrs e target abi =
     bind_r (scan_loops instrs e) (\<lambda>sc.
     bind_r (explore instrs e target abi (loop_pairs sc)) (\<lambda>s.
     bind_r (raise_if (fl_terminals s = []) (ValueError ''has no reachable END or TRAP'')) (\<lambda>_.
       Inr \<lparr>fr_entry = format_id e, fr_entry_pc = entry_pc e, fr_first_pc = first_pc e,
             fr_last_pc = last_pc e, fr_reachable_states = length (fl_visited s),
             fr_maximum_call_depth = fl_depth s, fr_maximum_pending_states = fl_pending s,
             fr_terminals = sort (fl_terminals s),
             fr_loops = map (\<lambda>(first, back_at). (first - 1, first, back_at)) (sort (intervals sc)),
             fr_edges = sort (fl_edges s)\<rparr>)))"

definition validate_control_flow ::
  "apu_instruction list \<Rightarrow> apu_entry \<Rightarrow> apu_target \<Rightarrow> int \<Rightarrow> apu_error + unit" where
  "validate_control_flow instrs e target abi =
     bind_r (control_flow_report instrs e target abi) (\<lambda>_. Inr ())"

text \<open>The programs that pass the loader's checks for one entry.\<close>

definition entry_accepted :: "apu_instruction list \<Rightarrow> apu_entry \<Rightarrow> apu_target \<Rightarrow> int \<Rightarrow> int \<Rightarrow> bool" where
  "entry_accepted instrs e target table_payload_bytes abi \<longleftrightarrow>
     validate_entry e (int (length instrs)) target table_payload_bytes abi = Inr () \<and>
     (\<forall>i \<in> set instrs. validate_instruction i target abi = Inr ()) \<and>
     (\<exists>r. control_flow_report instrs e target abi = Inr r)"

section \<open>The exploration visits exactly the reachable states\<close>

text \<open>One step of the abstract machine.\<close>

definition flow_step :: "(flow_state \<Rightarrow> apu_error + flow_expansion) \<Rightarrow> flow_state \<Rightarrow> flow_state \<Rightarrow> bool" where
  "flow_step ex st st' \<longleftrightarrow> (\<exists>x. ex st = Inr x \<and> st' \<in> set (fx_successors x))"

definition flow_reachable :: "(flow_state \<Rightarrow> apu_error + flow_expansion) \<Rightarrow> flow_state \<Rightarrow> flow_state set" where
  "flow_reachable ex st = {st'. (flow_step ex)\<^sup>*\<^sup>* st st'}"

text \<open>The states taken off the stack so far are expanded, and their successors are taken or still
  pending.\<close>

definition flow_closed :: "(flow_state \<Rightarrow> apu_error + flow_expansion) \<Rightarrow> flow_state set \<Rightarrow> flow_state set \<Rightarrow> bool" where
  "flow_closed ex taken pending \<longleftrightarrow>
     (\<forall>st \<in> taken. \<exists>x. ex st = Inr x \<and> set (fx_successors x) \<subseteq> taken \<union> pending)"

lemma flow_closed_mono: "flow_closed ex A B \<Longrightarrow> B \<subseteq> C \<union> A \<Longrightarrow> flow_closed ex A C"
  unfolding flow_closed_def by blast

lemma flow_closed_insert:
  assumes "flow_closed ex A (insert st P)" "ex st = Inr x"
  shows "flow_closed ex (insert st A) (set (fx_successors x) \<union> P)"
  using assms unfolding flow_closed_def by fast

lemma flow_loop_closed:
  assumes "flow_loop ex limit pending s = Inr t"
    and "flow_closed ex (set (fl_visited s)) (set pending)"
  shows "set pending \<union> set (fl_visited s) \<subseteq> set (fl_visited t) \<and> flow_closed ex (set (fl_visited t)) {}"
  using assms
proof (induction ex limit pending s rule: flow_loop.induct)
  case (2 ex limit st pending s)
  show ?case
  proof (cases "st \<in> set (fl_visited s)")
    case True
    have "flow_closed ex (set (fl_visited s)) (set pending)"
      using 2(4) by (rule flow_closed_mono) (use True in auto)
    with 2(1) [OF refl True] 2(3) True show ?thesis by auto
  next
    case False
    with 2(3) obtain x where x: "ex st = Inr x" "\<not> limit < int (length (fl_visited s)) + 1"
      by (auto simp: Let_def split: sum.splits if_splits)
    have "flow_closed ex (set (st # fl_visited s)) (set (rev (fx_successors x) @ pending))"
      using flow_closed_insert [where st = st and ex = ex and x = x] 2(4) x(1) by simp
    with 2(2) [OF refl False x] 2(3) False x show ?thesis by auto
  qed
qed simp

lemma flow_loop_bounded:
  assumes "flow_loop ex limit pending s = Inr t" "distinct (fl_visited s)" "int (length (fl_visited s)) \<le> limit"
  shows "distinct (fl_visited t) \<and> int (length (fl_visited t)) \<le> limit"
  using assms
  by (induction ex limit pending s rule: flow_loop.induct)
    (auto simp: Let_def split: sum.splits if_splits)

lemma flow_loop_sound:
  assumes "flow_loop ex limit pending s = Inr t" "set pending \<union> set (fl_visited s) \<subseteq> R"
    and "\<And>st st'. st \<in> R \<Longrightarrow> flow_step ex st st' \<Longrightarrow> st' \<in> R"
  shows "set (fl_visited t) \<subseteq> R"
  using assms
proof (induction ex limit pending s rule: flow_loop.induct)
  case (2 ex limit st pending s)
  show ?case
  proof (cases "st \<in> set (fl_visited s)")
    case True
    with 2(1) [OF refl True] 2(3-5) show ?thesis by simp
  next
    case False
    with 2(3) obtain x where x: "ex st = Inr x" "\<not> limit < int (length (fl_visited s)) + 1"
      by (auto simp: Let_def split: sum.splits if_splits)
    have "set (fx_successors x) \<subseteq> R"
      by (rule subsetI, rule 2(5) [of st]) (use 2(4) x(1) in \<open>auto simp: flow_step_def\<close>)
    with 2(2) [OF refl False x] 2(3-5) False x show ?thesis by simp
  qed
qed simp

lemma flow_loop_total:
  assumes "finite R" "int (card R) \<le> limit" "\<forall>st \<in> R. \<exists>x. ex st = Inr x \<and> set (fx_successors x) \<subseteq> R"
    and "set pending \<union> set (fl_visited s) \<subseteq> R" "distinct (fl_visited s)"
  shows "\<exists>t. flow_loop ex limit pending s = Inr t"
  using assms
proof (induction ex limit pending s rule: flow_loop.induct)
  case (2 ex limit st pending s)
  show ?case
  proof (cases "st \<in> set (fl_visited s)")
    case True
    with 2(1) [OF refl True] 2(3-) show ?thesis by simp
  next
    case False
    from 2(5,6) obtain x where x: "ex st = Inr x" "set (fx_successors x) \<subseteq> R" by auto
    have "card (insert st (set (fl_visited s))) \<le> card R"
      using 2(3,6) by (intro card_mono) auto
    then have fits: "\<not> limit < int (length (fl_visited s)) + 1"
      using False 2(4) distinct_card [OF 2(7)] by simp
    with 2(2) [OF refl False x(1) fits] 2(3-) False x show ?thesis by simp
  qed
qed simp

lemma flow_reachable_refl [simp]: "st \<in> flow_reachable ex st"
  by (simp add: flow_reachable_def)

lemma flow_reachable_step:
  "st' \<in> flow_reachable ex st \<Longrightarrow> flow_step ex st' st'' \<Longrightarrow> st'' \<in> flow_reachable ex st"
  by (auto simp: flow_reachable_def)

lemma closed_contains_reachable:
  assumes "flow_closed ex V {}" "st \<in> V"
  shows "flow_reachable ex st \<subseteq> V"
proof
  fix st' assume "st' \<in> flow_reachable ex st"
  then have "(flow_step ex)\<^sup>*\<^sup>* st st'" by (simp add: flow_reachable_def)
  then show "st' \<in> V"
  proof induction
    case (step y z)
    from assms(1) step.IH obtain x where "ex y = Inr x" "set (fx_successors x) \<subseteq> V"
      unfolding flow_closed_def by force
    with step.hyps(2) show ?case unfolding flow_step_def by auto
  qed (rule assms(2))
qed

lemma flow_loop_exact:
  assumes "fl_visited s = []" "0 \<le> limit"
  shows "(\<exists>t. flow_loop ex limit [st] s = Inr t) \<longleftrightarrow>
      finite (flow_reachable ex st) \<and> int (card (flow_reachable ex st)) \<le> limit \<and>
      (\<forall>st' \<in> flow_reachable ex st. \<exists>x. ex st' = Inr x)"
    and "flow_loop ex limit [st] s = Inr t \<Longrightarrow>
      set (fl_visited t) = flow_reachable ex st \<and> distinct (fl_visited t)"
proof -
  let ?R = "flow_reachable ex st"
  have visited: "set (fl_visited t) = ?R \<and> distinct (fl_visited t) \<and> int (length (fl_visited t)) \<le> limit
      \<and> flow_closed ex (set (fl_visited t)) {}"
    if t: "flow_loop ex limit [st] s = Inr t" for t
  proof -
    have c: "st \<in> set (fl_visited t)" "flow_closed ex (set (fl_visited t)) {}"
      using flow_loop_closed [OF t] assms by (auto simp: flow_closed_def)
    moreover have "set (fl_visited t) \<subseteq> ?R"
      by (rule flow_loop_sound [OF t]) (auto simp: assms intro: flow_reachable_step)
    moreover have "distinct (fl_visited t) \<and> int (length (fl_visited t)) \<le> limit"
      by (rule flow_loop_bounded [OF t]) (simp_all add: assms)
    ultimately show ?thesis using closed_contains_reachable by blast
  qed
  then show "flow_loop ex limit [st] s = Inr t \<Longrightarrow> set (fl_visited t) = ?R \<and> distinct (fl_visited t)"
    by blast
  show "(\<exists>t. flow_loop ex limit [st] s = Inr t) \<longleftrightarrow>
      finite ?R \<and> int (card ?R) \<le> limit \<and> (\<forall>st' \<in> ?R. \<exists>x. ex st' = Inr x)" (is "?L \<longleftrightarrow> ?Q")
  proof
    assume ?L
    then obtain t where "flow_loop ex limit [st] s = Inr t" ..
    note v = visited [OF this]
    then have R: "?R = set (fl_visited t)" by simp
    have "int (card (set (fl_visited t))) \<le> limit" using v distinct_card [of "fl_visited t"] by simp
    moreover have "\<forall>st' \<in> set (fl_visited t). \<exists>x. ex st' = Inr x"
      using v unfolding flow_closed_def by blast
    ultimately show ?Q unfolding R by simp
  next
    assume q: ?Q
    then have "\<forall>st' \<in> ?R. \<exists>x. ex st' = Inr x \<and> set (fx_successors x) \<subseteq> ?R"
      by (metis flow_reachable_step flow_step_def subsetI)
    with q show ?L by (intro flow_loop_total [of ?R]) (auto simp: assms)
  qed
qed

section \<open>What the linear scan establishes\<close>

definition control_at :: "apu_instruction list \<Rightarrow> int \<Rightarrow> int \<Rightarrow> apu_instruction \<Rightarrow> bool" where
  "control_at instrs opc pc i \<longleftrightarrow>
     py_index instrs pc = Inr i \<and> mc_class i = CLS_CONTROL \<and> mc_opcode i = opc"

text \<open>A loop: a setup and a back branch on the same slot whose displacement returns to the
  instruction after the setup.\<close>

definition loop_at :: "apu_instruction list \<Rightarrow> int \<Rightarrow> int \<Rightarrow> bool" where
  "loop_at instrs start pc \<longleftrightarrow>
     (\<exists>i j. control_at instrs CTL_LOOP_SETUP (start - 1) i \<and> control_at instrs CTL_LOOP_BACK pc j \<and>
       loop_slot i = loop_slot j \<and> start = pc + 1 - mc_immediate j)"

definition setups_ok :: "apu_instruction list \<Rightarrow> apu_entry \<Rightarrow> int \<Rightarrow> flow_scan \<Rightarrow> bool" where
  "setups_ok instrs e k s \<longleftrightarrow>
     (\<forall>slot setup. (slot, setup) \<in> set (active_setup s) \<longrightarrow> first_pc e \<le> setup \<and> setup < k \<and>
        (\<exists>i. control_at instrs CTL_LOOP_SETUP setup i \<and> loop_slot i = slot))"

definition pairs_ok :: "apu_instruction list \<Rightarrow> apu_entry \<Rightarrow> int \<Rightarrow> flow_scan \<Rightarrow> bool" where
  "pairs_ok instrs e k s \<longleftrightarrow>
     set (intervals s) = (\<lambda>(pc, start). (start, pc)) ` set (loop_pairs s) \<and>
     (\<forall>pc start. (pc, start) \<in> set (loop_pairs s) \<longrightarrow>
        first_pc e < start \<and> start \<le> pc \<and> pc < k \<and> loop_at instrs start pc)"

definition backs_ok :: "apu_instruction list \<Rightarrow> apu_entry \<Rightarrow> int \<Rightarrow> flow_scan \<Rightarrow> bool" where
  "backs_ok instrs e k s \<longleftrightarrow>
     (\<forall>pc i. first_pc e \<le> pc \<and> pc < k \<and> control_at instrs CTL_LOOP_BACK pc i \<longrightarrow>
        pc \<in> fst ` set (loop_pairs s))"

definition jumps_ok :: "apu_instruction list \<Rightarrow> apu_entry \<Rightarrow> int \<Rightarrow> bool" where
  "jumps_ok instrs e k \<longleftrightarrow>
     (\<forall>pc i opc. first_pc e \<le> pc \<and> pc < k \<and> opc \<in> {CTL_JUMP_FWD, CTL_CALL_FWD} \<and>
        control_at instrs opc pc i \<longrightarrow> pc + 1 + mc_immediate i \<le> last_pc e)"

definition scan_inv :: "apu_instruction list \<Rightarrow> apu_entry \<Rightarrow> int \<Rightarrow> flow_scan \<Rightarrow> bool" where
  "scan_inv instrs e k s \<longleftrightarrow>
     setups_ok instrs e k s \<and> pairs_ok instrs e k s \<and> backs_ok instrs e k s \<and> jumps_ok instrs e k"

lemmas scan_parts = setups_ok_def pairs_ok_def backs_ok_def jumps_ok_def

lemma below_next: "(pc::int) < k + 1 \<longleftrightarrow> pc < k \<or> pc = k"
  by auto

lemma scan_step_cases:
  assumes "scan_step instrs e s k = Inr t"
  obtains (skip) "t = s" "\<And>i. \<not> control_at instrs CTL_LOOP_BACK k i"
      "\<And>opc i. opc \<in> {CTL_JUMP_FWD, CTL_CALL_FWD} \<Longrightarrow> control_at instrs opc k i \<Longrightarrow>
         k + 1 + mc_immediate i \<le> last_pc e"
  | (lsetup) i where "control_at instrs CTL_LOOP_SETUP k i"
      "t = s\<lparr>active_setup := (loop_slot i, k) # active_setup s\<rparr>"
  | (loop) j st where "control_at instrs CTL_LOOP_BACK k j"
      "(loop_slot j, st) \<in> set (active_setup s)" "k + 1 - mc_immediate j = st + 1"
      "t = \<lparr>loop_pairs = (k, st + 1) # loop_pairs s,
            active_setup = filter (\<lambda>p. fst p \<noteq> loop_slot j) (active_setup s),
            intervals = intervals s @ [(st + 1, k)]\<rparr>"
proof -
  from assms obtain i where i: "py_index instrs k = Inr i"
    by (auto simp: scan_step_def result_simps)
  consider
      (a) "mc_class i = CLS_CONTROL" "mc_opcode i = CTL_LOOP_SETUP"
    | (b) "mc_class i = CLS_CONTROL" "mc_opcode i = CTL_LOOP_BACK"
    | (c) "mc_class i \<noteq> CLS_CONTROL \<or> mc_opcode i \<notin> {CTL_LOOP_SETUP, CTL_LOOP_BACK}" by auto
  then show thesis
  proof cases
    case a
    with i assms show thesis
      by (intro lsetup [of i])
        (auto simp: scan_step_def scan_control_def control_opcode_def control_at_def Let_def split: if_splits)
  next
    case b
    with i assms show thesis
      by (auto simp: scan_step_def scan_control_def control_opcode_def control_at_def Let_def
          split: if_splits option.splits dest!: map_of_SomeD intro: loop [of i])
  next
    case c
    with i assms show thesis
      by (intro skip)
        (auto simp: scan_step_def scan_control_def control_opcode_def control_at_def Let_def split: if_splits)
  qed
qed

lemma scan_inv_step:
  assumes "first_pc e \<le> k" "scan_inv instrs e k s" "scan_step instrs e s k = Inr t"
  shows "scan_inv instrs e (k + 1) t"
  using assms(3)
proof (cases rule: scan_step_cases)
  case skip
  have "setups_ok instrs e (k + 1) t" "pairs_ok instrs e (k + 1) t"
    using assms(2) skip(1) unfolding scan_inv_def scan_parts below_next by blast+
  moreover have "backs_ok instrs e (k + 1) t" "jumps_ok instrs e (k + 1)"
    using assms(2) skip unfolding scan_inv_def backs_ok_def jumps_ok_def below_next by blast+
  ultimately show ?thesis by (simp add: scan_inv_def)
next
  case (lsetup i)
  then have "setups_ok instrs e (k + 1) t" "pairs_ok instrs e (k + 1) t"
    using assms(1,2) unfolding scan_inv_def scan_parts below_next by auto
  moreover have "backs_ok instrs e (k + 1) t" "jumps_ok instrs e (k + 1)"
    using lsetup assms(2) unfolding scan_inv_def scan_parts below_next by (auto simp: control_at_def)
  ultimately show ?thesis by (simp add: scan_inv_def)
next
  case (loop j st)
  from assms(2) loop(2) obtain i where i: "control_at instrs CTL_LOOP_SETUP st i" "loop_slot i = loop_slot j"
    "first_pc e \<le> st" "st < k" unfolding scan_inv_def setups_ok_def by blast
  have "loop_at instrs (st + 1) k"
    unfolding loop_at_def using i loop(1,3) by auto
  then have "pairs_ok instrs e (k + 1) t"
    using i assms(2) loop(4) unfolding scan_inv_def pairs_ok_def by fastforce
  moreover have "setups_ok instrs e (k + 1) t"
    using assms(2) loop(4) unfolding scan_inv_def setups_ok_def below_next by auto
  moreover have "backs_ok instrs e (k + 1) t" "jumps_ok instrs e (k + 1)"
    using loop(1,4) assms(2) unfolding scan_inv_def scan_parts below_next by (auto simp: control_at_def)
  ultimately show ?thesis by (simp add: scan_inv_def)
qed

lemma crossing_checks_ok:
  "crossing_checks xs = Inr () \<longleftrightarrow> (\<forall>a \<in> set xs. \<forall>b \<in> set xs. \<not> crosses a b)"
proof (induction xs)
  case (Cons a xs)
  have "crosses a b \<longleftrightarrow> crosses b a" "\<not> crosses a a" for a b by (auto simp: crosses_def)
  with Cons show ?case by (auto simp: result_simps)
qed simp

lemma scan_loops_facts:
  assumes "scan_loops instrs e = Inr sc" "first_pc e \<le> last_pc e"
  shows "scan_inv instrs e (last_pc e + 1) sc"
    "\<forall>a \<in> set (intervals sc). \<forall>b \<in> set (intervals sc). \<not> crosses a b"
proof -
  have run: "foldl_r (scan_step instrs e) scan_start (py_range (first_pc e) (last_pc e + 1)) = Inr sc"
    and c: "crossing_checks (intervals sc) = Inr ()"
    using assms(1) by (auto simp: scan_loops_def result_simps)
  have start: "scan_inv instrs e (first_pc e) scan_start"
    by (simp add: scan_inv_def scan_parts scan_start_def)
  show "scan_inv instrs e (last_pc e + 1) sc"
    using run by (rule foldl_r_range_induct) (use assms(2) start scan_inv_step in auto)
  show "\<forall>a \<in> set (intervals sc). \<forall>b \<in> set (intervals sc). \<not> crosses a b"
    using c by (simp only: crossing_checks_ok)
qed

text \<open>A back branch inside the entry has exactly one start, the one its displacement names.\<close>

lemma back_start:
  assumes "scan_inv instrs e (last_pc e + 1) sc" "control_at instrs CTL_LOOP_BACK pc j"
    "first_pc e \<le> pc" "pc \<le> last_pc e"
  shows "map_of (loop_pairs sc) pc = Some (pc + 1 - mc_immediate j)" "first_pc e < pc + 1 - mc_immediate j"
    "pc + 1 - mc_immediate j \<le> pc"
proof -
  from assms have "pc \<in> fst ` set (loop_pairs sc)"
    unfolding scan_inv_def backs_ok_def by auto
  then obtain st where st: "map_of (loop_pairs sc) pc = Some st"
    by (metis map_of_eq_None_iff option.exhaust_sel)
  then have "(pc, st) \<in> set (loop_pairs sc)" by (rule map_of_SomeD)
  with assms(1) have f: "first_pc e < st" "st \<le> pc" "loop_at instrs st pc"
    unfolding scan_inv_def pairs_ok_def by blast+
  then have "st = pc + 1 - mc_immediate j"
    using assms(2) unfolding loop_at_def by (auto simp: control_at_def)
  with st f show "map_of (loop_pairs sc) pc = Some (pc + 1 - mc_immediate j)"
    "first_pc e < pc + 1 - mc_immediate j" "pc + 1 - mc_immediate j \<le> pc" by simp_all
qed

section \<open>The report\<close>

definition terminal_state :: "(flow_state \<Rightarrow> apu_error + flow_expansion) \<Rightarrow> flow_state \<Rightarrow> bool" where
  "terminal_state ex st = (case ex st of Inl _ \<Rightarrow> False | Inr x \<Rightarrow> fx_terminal x)"

definition state_edges :: "(flow_state \<Rightarrow> apu_error + flow_expansion) \<Rightarrow> flow_state \<Rightarrow> flow_edge set" where
  "state_edges ex st = (case ex st of Inl _ \<Rightarrow> {} | Inr x \<Rightarrow> set (fx_edges x))"

text \<open>What the exploration has recorded of the states it has visited.\<close>

definition recorded :: "(flow_state \<Rightarrow> apu_error + flow_expansion) \<Rightarrow> flow_explored \<Rightarrow> bool" where
  "recorded ex s \<longleftrightarrow>
     set (fl_terminals s) = fst ` {st \<in> set (fl_visited s). terminal_state ex st} \<and>
     set (fl_edges s) = (\<Union>st \<in> set (fl_visited s). state_edges ex st)"

lemma set_fold_insert: "set (fold List.insert xs ys) = set xs \<union> set ys"
  by (induction xs arbitrary: ys) auto

lemma recorded_visit:
  assumes "recorded ex s" "ex st = Inr x"
  shows "recorded ex (flow_visit st x s)"
proof -
  have "{u \<in> insert st (set (fl_visited s)). terminal_state ex u} =
      (if fx_terminal x then {st} else {}) \<union> {u \<in> set (fl_visited s). terminal_state ex u}"
    using assms(2) by (auto simp: terminal_state_def)
  moreover have "state_edges ex st = set (fx_edges x)" using assms(2) by (simp add: state_edges_def)
  ultimately show ?thesis
    using assms(1) unfolding recorded_def flow_visit_def by (simp add: set_fold_insert)
qed

lemma recorded_pending [simp]: "recorded ex (s\<lparr>fl_pending := n\<rparr>) = recorded ex s"
  by (simp add: recorded_def)

lemma flow_loop_recorded:
  assumes "flow_loop ex limit pending s = Inr t" "recorded ex s"
  shows "recorded ex t"
  using assms
proof (induction ex limit pending s rule: flow_loop.induct)
  case (2 ex limit st pending s)
  show ?case
  proof (cases "st \<in> set (fl_visited s)")
    case True
    with 2(1) [OF refl True] 2(3,4) show ?thesis by simp
  next
    case False
    with 2(3) obtain x where x: "ex st = Inr x" "\<not> limit < int (length (fl_visited s)) + 1"
      by (auto simp: Let_def split: sum.splits if_splits)
    with 2(2) [OF refl False x] 2(3,4) False show ?thesis by (simp add: recorded_visit)
  qed
qed simp

abbreviation entry_flow ::
  "apu_instruction list \<Rightarrow> apu_entry \<Rightarrow> apu_target \<Rightarrow> flow_scan \<Rightarrow> flow_state \<Rightarrow> apu_error + flow_expansion" where
  "entry_flow instrs e target sc \<equiv> expand instrs e target (loop_pairs sc)"

abbreviation entry_reachable ::
  "apu_instruction list \<Rightarrow> apu_entry \<Rightarrow> apu_target \<Rightarrow> flow_scan \<Rightarrow> flow_state set" where
  "entry_reachable instrs e target sc \<equiv> flow_reachable (entry_flow instrs e target sc) (entry_state e)"

lemma explore_Inr:
  "(\<exists>s. explore instrs e target abi (loop_pairs sc) = Inr s) \<longleftrightarrow>
     finite (entry_reachable instrs e target sc) \<and>
     int (card (entry_reachable instrs e target sc)) \<le> proof_limit abi \<and>
     (\<forall>st \<in> entry_reachable instrs e target sc. \<exists>x. entry_flow instrs e target sc st = Inr x)"
  unfolding explore_def by (rule flow_loop_exact) (simp_all add: flow_start_def proof_limit_def pc_limit_def)

lemma explore_facts:
  assumes "explore instrs e target abi (loop_pairs sc) = Inr s"
  shows "set (fl_visited s) = entry_reachable instrs e target sc" "distinct (fl_visited s)"
    "recorded (entry_flow instrs e target sc) s"
proof -
  have "fl_visited flow_start = []" "0 \<le> proof_limit abi"
    by (simp_all add: flow_start_def proof_limit_def pc_limit_def)
  from flow_loop_exact(2) [OF this assms [unfolded explore_def]]
  show "set (fl_visited s) = entry_reachable instrs e target sc" "distinct (fl_visited s)" by auto
  show "recorded (entry_flow instrs e target sc) s"
    using assms [unfolded explore_def] by (rule flow_loop_recorded) (simp add: recorded_def flow_start_def)
qed

lemma control_flow_report_Inr:
  "control_flow_report instrs e target abi = Inr r \<longleftrightarrow>
     (\<exists>sc s. scan_loops instrs e = Inr sc \<and> explore instrs e target abi (loop_pairs sc) = Inr s \<and>
       fl_terminals s \<noteq> [] \<and>
       r = \<lparr>fr_entry = format_id e, fr_entry_pc = entry_pc e, fr_first_pc = first_pc e,
             fr_last_pc = last_pc e, fr_reachable_states = length (fl_visited s),
             fr_maximum_call_depth = fl_depth s, fr_maximum_pending_states = fl_pending s,
             fr_terminals = sort (fl_terminals s),
             fr_loops = map (\<lambda>(first, back_at). (first - 1, first, back_at)) (sort (intervals sc)),
             fr_edges = sort (fl_edges s)\<rparr>)"
  by (auto simp: control_flow_report_def result_simps)

text \<open>C13: the control-flow proof of an entry succeeds exactly when its loops pair up without
  crossing and the abstract machine, from the entry point, reaches finitely many states within the
  bound of the ABI, none of which faults and one of which is terminal. The report then counts the
  reachable states and lists exactly the reachable terminals and edges.\<close>

theorem control_flow_report_exact:
  "((\<exists>r. control_flow_report instrs e target abi = Inr r) \<longleftrightarrow>
     (\<exists>sc. scan_loops instrs e = Inr sc \<and> finite (entry_reachable instrs e target sc) \<and>
       int (card (entry_reachable instrs e target sc)) \<le> proof_limit abi \<and>
       (\<forall>st \<in> entry_reachable instrs e target sc. \<exists>x. entry_flow instrs e target sc st = Inr x) \<and>
       (\<exists>st \<in> entry_reachable instrs e target sc. terminal_state (entry_flow instrs e target sc) st))) \<and>
   (\<forall>r. control_flow_report instrs e target abi = Inr r \<longrightarrow>
     (\<exists>sc. scan_loops instrs e = Inr sc \<and>
       fr_reachable_states r = card (entry_reachable instrs e target sc) \<and>
       set (fr_terminals r) =
         fst ` {st \<in> entry_reachable instrs e target sc. terminal_state (entry_flow instrs e target sc) st} \<and>
       set (fr_edges r) =
         (\<Union>st \<in> entry_reachable instrs e target sc. state_edges (entry_flow instrs e target sc) st)))"
proof -
  have terminals: "fl_terminals s = [] \<longleftrightarrow>
      \<not> (\<exists>st \<in> entry_reachable instrs e target sc. terminal_state (entry_flow instrs e target sc) st)"
    if "explore instrs e target abi (loop_pairs sc) = Inr s" for sc s
    using explore_facts [OF that] by (auto simp: recorded_def set_empty [symmetric] simp del: set_empty)
  have "(\<exists>r. control_flow_report instrs e target abi = Inr r) \<longleftrightarrow>
      (\<exists>sc s. scan_loops instrs e = Inr sc \<and> explore instrs e target abi (loop_pairs sc) = Inr s \<and>
        fl_terminals s \<noteq> [])"
    unfolding control_flow_report_Inr by blast
  also have "\<dots> \<longleftrightarrow> (\<exists>sc. scan_loops instrs e = Inr sc \<and>
      (\<exists>s. explore instrs e target abi (loop_pairs sc) = Inr s) \<and>
      (\<exists>st \<in> entry_reachable instrs e target sc. terminal_state (entry_flow instrs e target sc) st))"
    using terminals by blast
  finally have ok: "(\<exists>r. control_flow_report instrs e target abi = Inr r) \<longleftrightarrow> \<dots>" .
  have rep: "\<exists>sc. scan_loops instrs e = Inr sc \<and>
       fr_reachable_states r = card (entry_reachable instrs e target sc) \<and>
       set (fr_terminals r) =
         fst ` {st \<in> entry_reachable instrs e target sc. terminal_state (entry_flow instrs e target sc) st} \<and>
       set (fr_edges r) =
         (\<Union>st \<in> entry_reachable instrs e target sc. state_edges (entry_flow instrs e target sc) st)"
    if "control_flow_report instrs e target abi = Inr r" for r
  proof -
    from that obtain sc s where s: "scan_loops instrs e = Inr sc"
      "explore instrs e target abi (loop_pairs sc) = Inr s"
      "fr_reachable_states r = length (fl_visited s)" "fr_terminals r = sort (fl_terminals s)"
      "fr_edges r = sort (fl_edges s)"
      unfolding control_flow_report_Inr by auto
    note facts = explore_facts [OF s(2)]
    have "fr_reachable_states r = card (entry_reachable instrs e target sc)"
      using facts(1,2) s(3) distinct_card [of "fl_visited s"] by simp
    with s facts show ?thesis by (intro exI [of _ sc]) (simp add: recorded_def)
  qed
  from ok rep show ?thesis unfolding explore_Inr by simp
qed

section \<open>Accepted entries\<close>

definition flow_ok :: "apu_entry \<Rightarrow> flow_state \<Rightarrow> bool" where
  "flow_ok e st = (case st of (pc, returns, loops) \<Rightarrow>
     first_pc e \<le> pc \<and> pc \<le> last_pc e \<and> length returns \<le> 4 \<and> length loops = 4)"

lemma expandE:
  assumes "expand instrs e target pairs (pc, returns, loops) = Inr x"
  obtains i y where "first_pc e \<le> pc" "pc \<le> last_pc e" "py_index instrs pc = Inr i"
    "mc_class i \<noteq> CLS_CONTROL \<and> y = expansion [(pc + 1, returns, loops)] [(pc, pc + 1, Fallthrough)] \<or>
     mc_class i = CLS_CONTROL \<and> 0 \<le> mc_opcode i \<and> mc_opcode i \<le> CTL_WAIT \<and>
       expand_control target pairs i (mc_opcode i) (pc, returns, loops) = Inr y"
    "fx_successors x =
       (if mc_predicate i \<noteq> 0 then [(pc + 1, returns, loops)] else []) @ fx_successors y"
proof -
  have range: "first_pc e \<le> pc" "pc \<le> last_pc e"
    using assms by (auto simp: expand_def split: if_splits)
  with assms obtain i y where i: "py_index instrs pc = Inr i"
    and y: "(if mc_class i \<noteq> CLS_CONTROL
           then Inr (expansion [(pc + 1, returns, loops)] [(pc, pc + 1, Fallthrough)])
           else bind_r (control_opcode (mc_opcode i))
             (\<lambda>opc. expand_control target pairs i opc (pc, returns, loops))) = Inr y"
    and x: "fx_successors x =
       (if mc_predicate i \<noteq> 0 then [(pc + 1, returns, loops)] else []) @ fx_successors y"
    unfolding expand_def Let_def prod.case bind_r_Inr by (auto simp: expansion_def bind_r_Inr)
  show thesis
    using y by (intro that [OF range i _ x]) (auto simp: control_opcode_def split: if_splits)
qed

lemma not_crossing:
  "\<not> crosses (f1, b1) (f2, b2) \<Longrightarrow>
     {f1..b1} \<inter> {f2..b2} = {} \<or> {f1..b1} \<subseteq> {f2..b2} \<or> {f2..b2} \<subseteq> {f1..b1}"
  by (auto simp: crosses_def)

lemma expand_control_shape:
  assumes "expand_control target pairs i opc (pc, returns, loops) = Inr y" "(pc', returns', loops') \<in> set (fx_successors y)"
    "length returns \<le> 4"
  shows "length returns' \<le> 4 \<and> length loops' = length loops"
  using assms unfolding expand_control_def Let_def expansion_def
  by (auto split: if_splits option.splits)

lemma reachable_shape:
  assumes "(pc, returns, loops) \<in> entry_reachable instrs e target sc"
  shows "length returns \<le> 4 \<and> length loops = 4"
proof -
  have "(flow_step (entry_flow instrs e target sc))\<^sup>*\<^sup>* (entry_state e) (pc, returns, loops)"
    using assms by (simp add: flow_reachable_def)
  then show ?thesis
  proof (induction "(pc, returns, loops)" arbitrary: pc returns loops rule: rtranclp_induct)
    case base
    then show ?case by (auto simp: entry_state_def)
  next
    case (step st)
    obtain p r l where st: "st = (p, r, l)" by (cases st)
    with step.hyps(2) obtain x where x: "expand instrs e target (loop_pairs sc) (p, r, l) = Inr x"
      "(pc, returns, loops) \<in> set (fx_successors x)" by (auto simp: flow_step_def)
    have "length r \<le> 4 \<and> length l = 4" using step.hyps(3) st by blast
    with x(2) show ?case
      by (cases rule: expandE [OF x(1)]) (auto simp: expansion_def dest!: expand_control_shape split: if_splits)
  qed
qed

lemma accepted_reachable_ok:
  assumes "explore instrs e target abi (loop_pairs sc) = Inr s" "st \<in> entry_reachable instrs e target sc"
  shows "flow_ok e st" "\<exists>x. entry_flow instrs e target sc st = Inr x"
proof -
  show x: "\<exists>x. entry_flow instrs e target sc st = Inr x"
    using assms explore_Inr [of instrs e target abi sc] by blast
  obtain p r l where "st = (p, r, l)" by (cases st)
  with x reachable_shape [of p r l] assms(2) show "flow_ok e st"
    by (auto simp: flow_ok_def elim: expandE)
qed

text \<open>C14: the loops of an accepted entry are real and properly nested: each reported loop is a
  \<open>LOOP_SETUP\<close> inside the entry and a later \<open>LOOP_BACK\<close> on the same slot that branches back to the
  instruction after the setup, every \<open>LOOP_BACK\<close> of the entry is reported, and of two
  reported loops the bodies are disjoint or one contains the other.\<close>

theorem accepted_loops_nested:
  assumes "control_flow_report instrs e target abi = Inr r" "first_pc e \<le> last_pc e"
  shows "(\<forall>(setup_pc, first, back_pc) \<in> set (fr_loops r).
      setup_pc + 1 = first \<and> first_pc e \<le> setup_pc \<and> setup_pc < back_pc \<and> back_pc \<le> last_pc e \<and>
      loop_at instrs first back_pc) \<and>
    (\<forall>pc j. first_pc e \<le> pc \<and> pc \<le> last_pc e \<and> control_at instrs CTL_LOOP_BACK pc j \<longrightarrow>
      (\<exists>s f. (s, f, pc) \<in> set (fr_loops r))) \<and>
    (\<forall>s1 f1 b1 s2 f2 b2. (s1, f1, b1) \<in> set (fr_loops r) \<and> (s2, f2, b2) \<in> set (fr_loops r) \<longrightarrow>
      {f1..b1} \<inter> {f2..b2} = {} \<or> {f1..b1} \<subseteq> {f2..b2} \<or> {f2..b2} \<subseteq> {f1..b1})"
proof -
  from assms(1) obtain sc where sc: "scan_loops instrs e = Inr sc"
    "set (fr_loops r) = (\<lambda>(f, b). (f - 1, f, b)) ` set (intervals sc)"
    by (auto simp: control_flow_report_Inr)
  note facts = scan_loops_facts [OF sc(1) assms(2)]
  have iv: "set (intervals sc) = (\<lambda>(pc, start). (start, pc)) ` set (loop_pairs sc)"
    "\<And>pc start. (pc, start) \<in> set (loop_pairs sc) \<Longrightarrow> first_pc e < start \<and> start \<le> pc \<and>
       pc < last_pc e + 1 \<and> loop_at instrs start pc"
    using facts(1) unfolding scan_inv_def pairs_ok_def by blast+
  have "\<forall>(setup_pc, first, back_pc) \<in> set (fr_loops r).
      setup_pc + 1 = first \<and> first_pc e \<le> setup_pc \<and> setup_pc < back_pc \<and> back_pc \<le> last_pc e \<and>
      loop_at instrs first back_pc"
    unfolding sc(2) iv(1) using iv(2) by fastforce
  moreover have "\<forall>pc j. first_pc e \<le> pc \<and> pc \<le> last_pc e \<and> control_at instrs CTL_LOOP_BACK pc j \<longrightarrow>
      (\<exists>s f. (s, f, pc) \<in> set (fr_loops r))"
  proof (intro allI impI)
    fix pc j assume a: "first_pc e \<le> pc \<and> pc \<le> last_pc e \<and> control_at instrs CTL_LOOP_BACK pc j"
    then have "(pc, pc + 1 - mc_immediate j) \<in> set (loop_pairs sc)"
      using back_start(1) [OF facts(1)] by (blast dest: map_of_SomeD)
    then show "\<exists>s f. (s, f, pc) \<in> set (fr_loops r)" unfolding sc(2) iv(1) by force
  qed
  moreover have "\<forall>s1 f1 b1 s2 f2 b2. (s1, f1, b1) \<in> set (fr_loops r) \<and> (s2, f2, b2) \<in> set (fr_loops r) \<longrightarrow>
      {f1..b1} \<inter> {f2..b2} = {} \<or> {f1..b1} \<subseteq> {f2..b2} \<or> {f2..b2} \<subseteq> {f1..b1}"
    using facts(2) by (intro allI impI not_crossing) (auto simp: sc(2))
  ultimately show ?thesis by blast
qed

lemma crossing_checks_Inl: "crossing_checks xs = Inl err \<Longrightarrow> \<exists>message. err = ValueError message"
  by (induction xs) (auto simp: bind_r_Inl raise_if_def split: if_splits dest!: first_error_Inl)

lemma scan_step_Inl:
  assumes "scan_step instrs e s pc = Inl err"
    and "\<exists>i. py_index instrs pc = Inr i \<and>
      (mc_class i = CLS_CONTROL \<longrightarrow> control_opcode (mc_opcode i) = Inr (mc_opcode i))"
  shows "\<exists>message. err = ValueError message"
  using assms
  by (auto simp: scan_step_def scan_control_def Let_def split: if_splits option.splits)

lemma flow_loop_Inl:
  "flow_loop ex limit pending s = Inl err \<Longrightarrow> (\<exists>st. ex st = Inl err) \<or> (\<exists>message. err = ValueError message)"
  by (induction ex limit pending s rule: flow_loop.induct)
    (auto simp: Let_def split: sum.splits if_splits)

lemma expand_Inl:
  assumes "expand instrs e target pairs (pc, returns, loops) = Inl err"
    and "\<And>pc. first_pc e \<le> pc \<Longrightarrow> pc \<le> last_pc e \<Longrightarrow>
      \<exists>i. py_index instrs pc = Inr i \<and>
      (mc_class i = CLS_CONTROL \<longrightarrow> control_opcode (mc_opcode i) = Inr (mc_opcode i)) \<and>
      (control_at instrs CTL_LOOP_BACK pc i \<longrightarrow> map_of pairs pc \<noteq> None)"
  shows "\<exists>message. err = ValueError message"
proof (cases "first_pc e \<le> pc \<and> pc \<le> last_pc e")
  case False
  with assms(1) show ?thesis by (auto simp: expand_def)
next
  case True
  with assms(2) [of pc] obtain i where i: "py_index instrs pc = Inr i"
    "mc_class i = CLS_CONTROL \<longrightarrow> control_opcode (mc_opcode i) = Inr (mc_opcode i)"
    "mc_class i = CLS_CONTROL \<Longrightarrow> mc_opcode i = CTL_LOOP_BACK \<Longrightarrow> map_of pairs pc \<noteq> None"
    by (auto simp: control_at_def)
  with True assms(1) have "mc_class i = CLS_CONTROL"
    "expand_control target pairs i (mc_opcode i) (pc, returns, loops) = Inl err"
    by (auto simp: expand_def Let_def bind_r_Inl split: if_splits)
  with i(3) show ?thesis
    unfolding expand_control_def by (auto simp: Let_def split: if_splits option.splits)
qed

text \<open>C15: on an entry and instructions that passed their own validation the control-flow proof
  raises nothing but \<open>ValueError\<close>: no missing instruction, no unknown opcode and no back
  branch without a recorded loop.\<close>

theorem control_flow_errors:
  assumes "validate_entry e (int (length instrs)) target payload_bytes abi = Inr ()"
    and "\<forall>i \<in> set instrs. validate_instruction i target abi = Inr ()"
    and "control_flow_report instrs e target abi = Inl err"
  shows "\<exists>message. err = ValueError message"
proof -
  have range: "0 \<le> first_pc e" "first_pc e \<le> last_pc e" "last_pc e < int (length instrs)"
    using assms(1) by (auto simp: validate_entry_def result_simps)
  have at: "\<exists>i. py_index instrs pc = Inr i \<and> (mc_class i = CLS_CONTROL \<longrightarrow> control_opcode (mc_opcode i) = Inr (mc_opcode i))"
    if pc: "first_pc e \<le> pc" "pc \<le> last_pc e" for pc
  proof -
    have "py_index instrs pc = Inr (instrs ! nat pc)" "instrs ! nat pc \<in> set instrs"
      using pc range by (simp_all add: py_index_def)
    moreover from this(2) assms(2) have "validate_instruction (instrs ! nat pc) target abi = Inr ()" by blast
    then have "mc_class (instrs ! nat pc) = CLS_CONTROL \<Longrightarrow>
        control_opcode (mc_opcode (instrs ! nat pc)) = Inr (mc_opcode (instrs ! nat pc))"
      by (simp add: validate_instruction_def validate_control_def control_opcode_def allocated_Inr bind_r_Inr Let_def)
    ultimately show ?thesis by blast
  qed
  have scan: "\<exists>message. err' = ValueError message" if "scan_loops instrs e = Inl err'" for err'
    using that unfolding scan_loops_def bind_r_Inl raise_if_Inl
    using at by (auto dest!: foldl_r_Inl crossing_checks_Inl scan_step_Inl)
  have flow: "\<exists>message. err' = ValueError message"
    if that': "scan_loops instrs e = Inr sc" and ex: "explore instrs e target abi (loop_pairs sc) = Inl err'" for sc err'
  proof -
    have b: "\<exists>i. py_index instrs pc = Inr i \<and>
        (mc_class i = CLS_CONTROL \<longrightarrow> control_opcode (mc_opcode i) = Inr (mc_opcode i)) \<and>
        (control_at instrs CTL_LOOP_BACK pc i \<longrightarrow> map_of (loop_pairs sc) pc \<noteq> None)"
      if "first_pc e \<le> pc" "pc \<le> last_pc e" for pc
      using at [OF that] back_start(1) [OF scan_loops_facts(1) [OF that' range(2)] _ that] by fastforce
    show ?thesis
      using flow_loop_Inl [OF ex [unfolded explore_def]] expand_Inl [OF _ b] by (metis surj_pair)
  qed
  from assms(3) scan flow show ?thesis
    unfolding control_flow_report_def bind_r_Inl raise_if_Inl by blast
qed

section \<open>A program with a loop and a call\<close>

definition mc_ins :: "int \<Rightarrow> int \<Rightarrow> int \<Rightarrow> int \<Rightarrow> int \<Rightarrow> int \<Rightarrow> int \<Rightarrow> apu_instruction" where
  "mc_ins cls opc dst src0 src1 aux imm =
     \<lparr>mc_class = cls, mc_opcode = opc, mc_predicate = 0, mc_dst = dst, mc_src0 = src0,
      mc_src1 = src1, mc_aux = aux, mc_immediate = imm\<rparr>"

definition flow_demo :: "apu_instruction list" where
  "flow_demo =
     [mc_ins CLS_SCALAR SC_MOVI 1 0 0 0 3,
      mc_ins CLS_CONTROL CTL_LOOP_SETUP 0 1 0 0 0,
      mc_ins CLS_SCALAR SC_ADD 2 2 1 0 0,
      mc_ins CLS_CONTROL CTL_LOOP_BACK 0 0 0 0 2,
      mc_ins CLS_CONTROL CTL_CALL_FWD 0 0 0 0 1,
      mc_ins CLS_CONTROL CTL_END 0 0 0 0 0,
      mc_ins CLS_SCALAR SC_CMP 0 2 1 0 0,
      mc_ins CLS_CONTROL CTL_RET 0 0 0 0 0]"

definition flow_entry :: "int \<Rightarrow> apu_entry" where
  "flow_entry last_at =
     \<lparr>format_id = 0, entry_pc = 0, first_pc = 0, last_pc = last_at, max_loop_count = 16,
      max_retired = 100, scratch_base = 0, scratch_bytes = 0, primitive_mask = 0, table_offset = 0,
      table_bytes = 0\<rparr>"

lemma flow_demo_scan: "scan_loops flow_demo (flow_entry 7) =
    Inr \<lparr>loop_pairs = [(3, 2)], active_setup = [], intervals = [(2, 3)]\<rparr>"
  by code_simp

definition flow_demo_report :: flow_report where
  "flow_demo_report =
     \<lparr>fr_entry = 0, fr_entry_pc = 0, fr_first_pc = 0, fr_last_pc = 7, fr_reachable_states = 8,
      fr_maximum_call_depth = 1, fr_maximum_pending_states = 2, fr_terminals = [5],
      fr_loops = [(1, 2, 3)],
      fr_edges =
        [(0, 1, Fallthrough), (1, 2, LoopSetup), (2, 3, Fallthrough), (3, 2, LoopRepeat),
         (3, 4, LoopExit), (4, 6, CallTrue), (6, 7, Fallthrough), (7, 5, Return)]\<rparr>"

lemma flow_demo_accepted: "control_flow_report flow_demo (flow_entry 7) P3 65536 = Inr flow_demo_report"
  by code_simp

theorem control_flow_report_exact_witness:
  "\<exists>sc. scan_loops flow_demo (flow_entry 7) = Inr sc \<and>
     card (entry_reachable flow_demo (flow_entry 7) P3 sc) = 8 \<and>
     fst ` {st \<in> entry_reachable flow_demo (flow_entry 7) P3 sc.
       terminal_state (entry_flow flow_demo (flow_entry 7) P3 sc) st} = {5}"
  using control_flow_report_exact [of flow_demo "flow_entry 7" P3 65536] flow_demo_accepted
  by (auto simp: flow_demo_report_def)

theorem accepted_loops_nested_witness:
  "loop_at flow_demo 2 3 \<and> first_pc (flow_entry 7) \<le> 1"
  using accepted_loops_nested [OF flow_demo_accepted] by (auto simp: flow_demo_report_def flow_entry_def)

text \<open>The first three instructions alone: a setup without its back branch.\<close>

theorem control_flow_errors_witness:
  "\<exists>message. control_flow_report (take 3 flow_demo) (flow_entry 2) P3 65536 = Inl (ValueError message)"
proof -
  have "validate_entry (flow_entry 2) (int (length (take 3 flow_demo))) P3 0 65536 = Inr ()"
    by code_simp
  moreover have "\<forall>i \<in> set (take 3 flow_demo). validate_instruction i P3 65536 = Inr ()"
    by code_simp
  moreover have "\<exists>err. control_flow_report (take 3 flow_demo) (flow_entry 2) P3 65536 = Inl err"
    by (intro exI [of _ "ValueError ''unterminated loop setup''"]) code_simp
  ultimately show ?thesis using control_flow_errors by blast
qed

end
