(* ===== verification/Apu_Prim.thy ===== *)
theory Apu_Prim
  imports Apu_Flow
begin

text \<open>
  The APU primitives of \<^verbatim>\<open>scripts/apu_primitives.py\<close>: the local memory with its table and
  scratch ranges, the word FIFOs, the bit reader and the bitstream, entropy and local operations.
  The kernels are in the theory after this one.

  The bytearray of the local memory never changes its length (every slice assignment is inside
  it), so it is a function from addresses; \<open>valid_words\<close> is a function together with the
  constant length of the Python list, beyond which indexing raises \<open>IndexError\<close>. A method
  returns its result or exception together with the state at that moment, so that what it changed
  before a fault stays changed.
\<close>

unbundle bit_operations_syntax

section \<open>Faults\<close>

datatype prim_exn = PrimitiveFault int int int | PyError apu_error

abbreviation (input) range_fault :: prim_exn where
  "range_fault \<equiv> PrimitiveFault 11 11 5"

section \<open>Local memory\<close>

abbreviation (input) "LOCAL_DATA_BYTES \<equiv> (114688 :: int)"
abbreviation (input) "CODEC_BYTES \<equiv> (40960 :: int)"
abbreviation (input) "TABLE_SCRATCH_BYTES \<equiv> (24576 :: int)"
abbreviation (input) "VALID_WORDS \<equiv> (10240 :: int)"

record local_memory =
  mem_data :: "int \<Rightarrow> 8 word"
  valid_words :: "int \<Rightarrow> bool"
  mem_table_bytes :: int
  image_valid :: bool

definition memory_init :: local_memory where
  "memory_init =
     \<lparr>mem_data = (\<lambda>_. 0), valid_words = (\<lambda>_. False), mem_table_bytes = 0, image_valid = False\<rparr>"

definition slice_assign :: "int \<Rightarrow> bytes \<Rightarrow> (int \<Rightarrow> 8 word) \<Rightarrow> int \<Rightarrow> 8 word" where
  "slice_assign address payload d =
     (\<lambda>a. if address \<le> a \<and> a < address + int (length payload) then payload ! nat (a - address) else d a)"

definition mem_slice :: "(int \<Rightarrow> 8 word) \<Rightarrow> int \<Rightarrow> int \<Rightarrow> bytes" where
  "mem_slice d address sz = map d (py_range address (address + sz))"

definition publish_table :: "bytes \<Rightarrow> local_memory \<Rightarrow> (prim_exn + unit) \<times> local_memory" where
  "publish_table payload m =
     (if int (length payload) > TABLE_SCRATCH_BYTES \<or> int (length payload) AND 3 \<noteq> 0
      then (Inl (PyError (ValueError ''P4 table payload is outside the frozen workspace'')), m)
      else
        (Inr (), m\<lparr>mem_data := slice_assign 0 payload (mem_data m),
                  mem_table_bytes := int (length payload), image_valid := True\<rparr>))"

definition invalidate_image :: "local_memory \<Rightarrow> local_memory" where
  "invalidate_image m = m\<lparr>image_valid := False, mem_table_bytes := 0\<rparr>"

definition new_epoch :: "local_memory \<Rightarrow> local_memory" where
  "new_epoch m = m\<lparr>valid_words := (\<lambda>_. False)\<rparr>"

definition check_range :: "int \<Rightarrow> int \<Rightarrow> apu_entry \<Rightarrow> bool \<Rightarrow> local_memory \<Rightarrow> prim_exn + unit" where
  "check_range address sz e table m =
     first_error
       [raise_if (address < 0 \<or> sz < 1 \<or> address + sz > LOCAL_DATA_BYTES) range_fault,
        (if table then
           raise_if (\<not> image_valid m \<or> address < table_offset e
               \<or> address + sz > table_offset e + table_bytes e) range_fault
         else
           raise_if (address < scratch_base e \<or> address + sz > scratch_base e + scratch_bytes e)
             range_fault)]"

definition word_check :: "local_memory \<Rightarrow> int \<Rightarrow> prim_exn + unit" where
  "word_check m index =
     (if index \<ge> VALID_WORDS then Inl (PyError ApuIndexError)
      else raise_if (\<not> valid_words m index) range_fault)"

definition mem_read :: "int \<Rightarrow> int \<Rightarrow> apu_entry \<Rightarrow> bool \<Rightarrow> local_memory \<Rightarrow> prim_exn + bytes" where
  "mem_read address sz e table m =
     bind_r (check_range address sz e table m) (\<lambda>_.
     bind_r
       (if table then Inr ()
        else
          first_error
            (map (word_check m) (py_range (address div 4) ((address + sz - 1) div 4 + 1))))
       (\<lambda>_. Inr (mem_slice (mem_data m) address sz)))"

text \<open>The loop that marks the words of a range valid, up to the end of the list.\<close>

definition mark_valid :: "int \<Rightarrow> int \<Rightarrow> local_memory \<Rightarrow> (prim_exn + unit) \<times> local_memory" where
  "mark_valid address sz m =
     fold_s
       (\<lambda>_ index m.
          if index \<ge> VALID_WORDS then (Inl (PyError ApuIndexError), m)
          else (Inr (), m\<lparr>valid_words := (valid_words m)(index := True)\<rparr>))
       () (py_range (address div 4) ((address + sz - 1) div 4 + 1)) m"

definition mem_write :: "int \<Rightarrow> bytes \<Rightarrow> apu_entry \<Rightarrow> local_memory \<Rightarrow> (prim_exn + unit) \<times> local_memory" where
  "mem_write address payload e m =
     (let sz = int (length payload) in
      bind_s (lift_s (check_range address sz e False m) m) (\<lambda>_ m.
      if address < mem_table_bytes m then (Inl range_fault, m)
      else mark_valid address sz (m\<lparr>mem_data := slice_assign address payload (mem_data m)\<rparr>)))"

definition inject :: "int \<Rightarrow> bytes \<Rightarrow> local_memory \<Rightarrow> (prim_exn + unit) \<times> local_memory" where
  "inject address payload m =
     (if address < 0 \<or> address + int (length payload) > CODEC_BYTES
      then (Inl (PyError (ValueError ''verification injection exceeds the P4 codec region'')), m)
      else
        mark_valid address (int (length payload))
          (m\<lparr>mem_data := slice_assign address payload (mem_data m)\<rparr>))"

section \<open>FIFOs\<close>

definition pf_full :: "int list \<Rightarrow> bool" where
  "pf_full ws \<longleftrightarrow> length ws = 64"

definition pf_push :: "int \<Rightarrow> int list \<Rightarrow> prim_exn + int list" where
  "pf_push word ws =
     (if pf_full ws \<or> word AND shl 31 35 \<noteq> 0
         \<or> \<not> (1 \<le> shr word 32 AND 7 \<and> shr word 32 AND 7 \<le> 4)
      then Inl (PrimitiveFault 22 7 9)
      else Inr (ws @ [word AND (shl 1 41 - 1)]))"

definition pf_pop :: "int list \<Rightarrow> prim_exn + (int \<times> int list)" where
  "pf_pop ws = (case ws of [] \<Rightarrow> Inl (PrimitiveFault 22 4 9) | w # rest \<Rightarrow> Inr (w, rest))"

section \<open>The primitive state\<close>

record prim_result =
  pr_writes :: "(int \<times> int) list"
  pr_cycles :: int
  pr_kernel_done :: bool

record prim_bam =
  bam_memory :: local_memory
  input_fifo :: "int list"
  output_fifo :: "int list"
  bam_bits :: "int list"
  bam_eof :: bool
  bit_position :: int
  bam_kernel_done :: bool
  resample_profile :: "int option"

definition bam_init :: "local_memory \<Rightarrow> prim_bam" where
  "bam_init m =
     \<lparr>bam_memory = m, input_fifo = [], output_fifo = [], bam_bits = [], bam_eof = False,
      bit_position = 0, bam_kernel_done = False, resample_profile = None\<rparr>"

definition bam_signed :: "int \<Rightarrow> int \<Rightarrow> int" where
  "bam_signed v width =
     (let u = v AND (shl 1 width - 1) in
      if u AND shl 1 (width - 1) \<noteq> 0 then u - shl 1 width else u)"

definition bam_sat :: "int \<Rightarrow> int \<Rightarrow> int" where
  "bam_sat v width = min (max v (- shl 1 (width - 1))) (shl 1 (width - 1) - 1)"

definition rne :: "int \<Rightarrow> int \<Rightarrow> int" where
  "rne v shift =
     (if shift = 0 then v
      else
        let magnitude = \<bar>v\<bar>;
            quot = magnitude div shl 1 shift;
            remainder = magnitude mod shl 1 shift;
            halfway = shl 1 (shift - 1);
            rounded = (if remainder > halfway \<or> (remainder = halfway \<and> quot AND 1 \<noteq> 0)
                       then quot + 1 else quot) in
        if v < 0 then - rounded else rounded)"

definition to_u32 :: "int \<Rightarrow> int" where
  "to_u32 v = v AND 4294967295"

definition reset_mutable :: "prim_bam \<Rightarrow> prim_bam" where
  "reset_mutable b =
     b\<lparr>bam_memory := new_epoch (bam_memory b), input_fifo := [], output_fifo := [], bam_bits := [],
       bam_eof := False, bit_position := 0, bam_kernel_done := False, resample_profile := None\<rparr>"

section \<open>The bit reader\<close>

definition byte_bits :: "int \<Rightarrow> int list" where
  "byte_bits byte = map (\<lambda>k. shr byte (7 - k) AND 1) (py_range 0 8)"

definition word_bits :: "int \<Rightarrow> int list" where
  "word_bits word =
     concat (map (\<lambda>k. byte_bits (shr word (8 * k) AND 255)) (py_range 0 (shr word 32 AND 7)))"

definition word_last :: "int \<Rightarrow> bool" where
  "word_last word \<longleftrightarrow> word AND shl 1 40 \<noteq> 0"

fun refill_loop :: "int \<Rightarrow> int list \<Rightarrow> int list \<Rightarrow> bool \<Rightarrow> int list \<times> int list \<times> bool" where
  "refill_loop width [] bits eof = ([], bits, eof)"
| "refill_loop width (word # fifo) bits eof =
     (if int (length bits) < width
      then refill_loop width fifo (bits @ word_bits word) (eof \<or> word_last word)
      else (word # fifo, bits, eof))"

definition refill :: "int \<Rightarrow> prim_bam \<Rightarrow> prim_bam" where
  "refill width b =
     (case refill_loop width (input_fifo b) (bam_bits b) (bam_eof b) of
        (fifo, bits, eof) \<Rightarrow> b\<lparr>input_fifo := fifo, bam_bits := bits, bam_eof := eof\<rparr>)"

definition bits_value :: "int list \<Rightarrow> int" where
  "bits_value bits = foldl (\<lambda>v bit. shl v 1 OR bit) 0 bits"

definition peek_bits :: "int \<Rightarrow> int \<Rightarrow> prim_bam \<Rightarrow> (prim_exn + int) \<times> prim_bam" where
  "peek_bits width stage b =
     (let b' = refill width b in
      if int (length (bam_bits b')) < width then (Inl (PrimitiveFault 5 stage 9), b')
      else (Inr (bits_value (take (nat width) (bam_bits b'))), b'))"

definition get_bits :: "int \<Rightarrow> int \<Rightarrow> prim_bam \<Rightarrow> (prim_exn + int) \<times> prim_bam" where
  "get_bits width stage b =
     bind_s (peek_bits width stage b) (\<lambda>v b.
       (Inr v, b\<lparr>bam_bits := drop (nat width) (bam_bits b),
                bit_position := (bit_position b + width) AND 7\<rparr>))"

section \<open>Registers and results\<close>

definition reg_read :: "int list \<Rightarrow> int \<Rightarrow> prim_exn + int" where
  "reg_read registers r = map_error PyError (py_index registers r)"

definition prim_ok :: "(int \<times> int) list \<Rightarrow> int \<Rightarrow> prim_result" where
  "prim_ok writes cycles = \<lparr>pr_writes = writes, pr_cycles = cycles, pr_kernel_done = False\<rparr>"

definition enum_opcode :: "int \<Rightarrow> int \<Rightarrow> prim_exn + int" where
  "enum_opcode last_opcode opc =
     (if 0 \<le> opc \<and> opc \<le> last_opcode then Inr opc else Inl (PyError EnumError))"

section \<open>Bitstream operations\<close>

definition crc_bit :: "int \<Rightarrow> int \<Rightarrow> int \<Rightarrow> int \<Rightarrow> int \<Rightarrow> int" where
  "crc_bit width poly byte crc bit_index =
     (let feedback = (shr crc (width - 1) XOR shr byte (7 - bit_index)) AND 1;
          shifted = shl crc 1 AND (shl 1 width - 1) in
      if feedback \<noteq> 0 then shifted XOR poly else shifted)"

definition crc_update :: "int \<Rightarrow> int \<Rightarrow> int \<Rightarrow> int \<Rightarrow> int" where
  "crc_update width poly crc byte =
     foldl (crc_bit width poly (byte AND 255)) (crc AND (shl 1 width - 1)) (py_range 0 8)"

function frame_sync_loop ::
  "int \<Rightarrow> int \<Rightarrow> int \<Rightarrow> int \<Rightarrow> int \<Rightarrow> prim_bam \<Rightarrow> (prim_exn + int) \<times> prim_bam" where
  "frame_sync_loop width pattern msk limit skipped b =
     (if skipped < limit then
        bind_s (peek_bits width 4 b) (\<lambda>v b.
          if v AND msk = pattern AND msk then (Inr skipped, b)
          else if skipped + 1 = limit then (Inl (PrimitiveFault 4 4 9), b)
          else bind_s (get_bits 8 4 b) (\<lambda>_ b. frame_sync_loop width pattern msk limit (skipped + 1) b))
      else (Inl (PrimitiveFault 4 4 9), b))"
  by pat_completeness auto

termination
  by (relation "measure (\<lambda>(width, pattern, msk, limit, skipped, b). nat (limit - skipped))") auto

declare frame_sync_loop.simps [simp del]

definition execute_frame_sync ::
  "apu_instruction \<Rightarrow> int list \<Rightarrow> prim_bam \<Rightarrow> (prim_exn + prim_result) \<times> prim_bam" where
  "execute_frame_sync i registers b =
     bind_s
       (if bit_position b \<noteq> 0 then get_bits (- bit_position b AND 7) 4 b else (Inr 0, b)) (\<lambda>_ b.
     bind_s (lift_s (reg_read registers (mc_src0 i)) b) (\<lambda>r0 b.
     bind_s (lift_s (reg_read registers (mc_src1 i)) b) (\<lambda>r1 b.
     bind_s
       (frame_sync_loop (mc_aux i AND 31) (r0 AND 65535) (r1 AND 65535) (mc_immediate i) 0 b)
       (\<lambda>skipped b. (Inr (prim_ok [(mc_dst i, skipped)] (2 + 2 * skipped)), b)))))"

definition execute_bitstream ::
  "apu_instruction \<Rightarrow> int list \<Rightarrow> prim_bam \<Rightarrow> (prim_exn + prim_result) \<times> prim_bam" where
  "execute_bitstream i registers b =
     bind_s (lift_s (enum_opcode 7 (mc_opcode i)) b) (\<lambda>opc b.
     let width = mc_immediate i AND 63; dst = mc_dst i in
     if opc = 0 then
       let b' = refill width b in
       (Inr (prim_ok [(dst, min (int (length (bam_bits b'))) 64)] 3), b')
     else if opc = 1 then
       bind_s (peek_bits width 4 b) (\<lambda>v b. (Inr (prim_ok [(dst, v)] 1), b))
     else if opc = 2 then
       bind_s (get_bits width 4 b) (\<lambda>v b. (Inr (prim_ok [(dst, v)] 1), b))
     else if opc = 3 then bind_s (get_bits width 4 b) (\<lambda>_ b. (Inr (prim_ok [] 1), b))
     else if opc = 4 then
       let skip = - bit_position b AND 7 in
       bind_s (if skip \<noteq> 0 then get_bits skip 4 b else (Inr 0, b)) (\<lambda>_ b. (Inr (prim_ok [] 1), b))
     else if opc = 5 then execute_frame_sync i registers b
     else
       bind_s (lift_s (reg_read registers (mc_src0 i)) b) (\<lambda>r0 b.
       bind_s (lift_s (reg_read registers (mc_src1 i)) b) (\<lambda>r1 b.
         (Inr (prim_ok
            [(dst, if opc = 6 then crc_update 8 7 r0 r1 else crc_update 16 32773 r0 r1)] 1), b))))"

section \<open>Memory words\<close>

definition read_u32 :: "int \<Rightarrow> apu_entry \<Rightarrow> bool \<Rightarrow> local_memory \<Rightarrow> prim_exn + int" where
  "read_u32 address e table m = bind_r (mem_read address 4 e table m) (\<lambda>bs. Inr (le_int bs))"

definition read_s32 :: "int \<Rightarrow> apu_entry \<Rightarrow> bool \<Rightarrow> local_memory \<Rightarrow> prim_exn + int" where
  "read_s32 address e table m = bind_r (read_u32 address e table m) (\<lambda>v. Inr (bam_signed v 32))"

definition write_s32 :: "int \<Rightarrow> int \<Rightarrow> apu_entry \<Rightarrow> local_memory \<Rightarrow> (prim_exn + unit) \<times> local_memory" where
  "write_s32 address v e m = mem_write address (le_bytes 4 (to_u32 v)) e m"

text \<open>An operation on the memory inside the primitive state.\<close>

definition on_memory ::
  "(local_memory \<Rightarrow> (prim_exn + 'a) \<times> local_memory) \<Rightarrow> prim_bam \<Rightarrow> (prim_exn + 'a) \<times> prim_bam" where
  "on_memory f b = (case f (bam_memory b) of (r, m) \<Rightarrow> (r, b\<lparr>bam_memory := m\<rparr>))"

section \<open>Entropy operations\<close>

text \<open>The canonical code walk over the table entries; the value is symbol and length.\<close>

fun huff_match ::
  "int \<Rightarrow> int \<Rightarrow> int \<Rightarrow> int list \<Rightarrow> prim_bam \<Rightarrow> (prim_exn + (int \<times> int)) \<times> prim_bam" where
  "huff_match max_length code previous [] b = (Inl (PrimitiveFault 7 5 9), b)"
| "huff_match max_length code previous (word # ws) b =
     (let len = shr word 16 AND 31; code' = shl code (len - previous) in
      if \<not> (previous \<le> len \<and> len \<le> max_length) \<or> shr word 21 \<noteq> 0 then (Inl (PrimitiveFault 7 5 9), b)
      else
        bind_s (peek_bits len 5 b) (\<lambda>v b.
          if v = code' then (Inr (word AND 65535, len), b)
          else huff_match max_length (code' + 1) len ws b))"

definition huff_writes :: "int \<Rightarrow> int \<Rightarrow> int \<Rightarrow> (int \<times> int) list" where
  "huff_writes opc dst symbol =
     (if opc = 0 then [(dst, symbol)]
      else if opc = 1 then [(dst, shr symbol 4 AND 15), (dst + 1, symbol AND 15)]
      else map (\<lambda>k. (dst + k, shr symbol (3 - k) AND 1)) (py_range 0 4))"

definition execute_huffman ::
  "apu_instruction \<Rightarrow> int list \<Rightarrow> apu_entry \<Rightarrow> prim_bam \<Rightarrow> (prim_exn + prim_result) \<times> prim_bam" where
  "execute_huffman i registers e b =
     bind_s (lift_s (reg_read registers (mc_src1 i)) b) (\<lambda>count b.
     if \<not> (1 \<le> count \<and> count \<le> 4096) then (Inl (PrimitiveFault 7 5 9), b)
     else
       bind_s (lift_s (reg_read registers (mc_src0 i)) b) (\<lambda>r0 b.
       bind_s
         (lift_s
           (map_r (\<lambda>index. read_u32 (table_offset e + r0 + index * 4) e True (bam_memory b))
             (py_range 0 count)) b) (\<lambda>words b.
       bind_s (huff_match (mc_aux i) 0 0 words b) (\<lambda>(symbol, len) b.
       bind_s (get_bits len 5 b) (\<lambda>_ b.
         (Inr (prim_ok (huff_writes (mc_opcode i) (mc_dst i) symbol) (26 + count)), b))))))"

function unary_loop :: "int \<Rightarrow> int \<Rightarrow> int \<Rightarrow> prim_bam \<Rightarrow> (prim_exn + int) \<times> prim_bam" where
  "unary_loop polarity limit run b =
     (if run \<le> limit then
        bind_s (get_bits 1 5 b) (\<lambda>bit b.
          if bit \<noteq> polarity then (Inr run, b) else unary_loop polarity limit (run + 1) b)
      else (Inl (PrimitiveFault 7 5 9), b))"
  by pat_completeness auto

termination
  by (relation "measure (\<lambda>(polarity, limit, run, b). nat (limit + 1 - run))") auto

declare unary_loop.simps [simp del]

function rice_quotient :: "int \<Rightarrow> prim_bam \<Rightarrow> (prim_exn + int) \<times> prim_bam" where
  "rice_quotient quot b =
     bind_s (get_bits 1 5 b) (\<lambda>bit b.
       if bit = 0 then
         (if quot + 1 > 65535 then (Inl (PrimitiveFault 7 5 9), b)
          else rice_quotient (quot + 1) b)
       else (Inr quot, b))"
  by pat_completeness auto

termination
  by (relation "measure (\<lambda>(quot, b). nat (65535 - quot))") auto

declare rice_quotient.simps [simp del]

definition rice_value :: "int \<Rightarrow> int" where
  "rice_value u = to_u32 (shr u 1 XOR - (u AND 1))"

definition execute_rice ::
  "apu_instruction \<Rightarrow> int list \<Rightarrow> prim_bam \<Rightarrow> (prim_exn + prim_result) \<times> prim_bam" where
  "execute_rice i registers b =
     (let width = (if mc_opcode i = 4 then 4 else 5); escape = (if width = 4 then 15 else 31) in
      bind_s (lift_s (reg_read registers (mc_src0 i)) b) (\<lambda>r0 b.
      let parameter = r0 AND (shl 1 width - 1) in
      if parameter = escape then
        bind_s (lift_s (reg_read registers (mc_src1 i)) b) (\<lambda>r1 b.
        let raw_width = r1 AND 63 in
        if \<not> (1 \<le> raw_width \<and> raw_width \<le> 32) then (Inl (PrimitiveFault 7 5 9), b)
        else
          bind_s (get_bits raw_width 5 b) (\<lambda>v b.
            (Inr (prim_ok [(mc_dst i, to_u32 (bam_signed v raw_width))] (4 + raw_width)), b)))
      else
        bind_s (rice_quotient 0 b) (\<lambda>quot b.
        bind_s (if parameter \<noteq> 0 then get_bits parameter 5 b else (Inr 0, b)) (\<lambda>remainder b.
          (Inr (prim_ok [(mc_dst i, rice_value (shl quot parameter OR remainder))]
             (4 + quot + parameter)), b)))))"

definition execute_sign_restore ::
  "apu_instruction \<Rightarrow> int list \<Rightarrow> prim_bam \<Rightarrow> (prim_exn + prim_result) \<times> prim_bam" where
  "execute_sign_restore i registers b =
     bind_s (lift_s (reg_read registers (mc_src0 i)) b) (\<lambda>magnitude b.
     if magnitude = 0 then (Inr (prim_ok [(mc_dst i, 0)] 3), b)
     else
       bind_s (lift_s (reg_read registers (mc_src1 i)) b) (\<lambda>r1 b.
       let linbits = r1 AND 31 in
       bind_s (if linbits \<noteq> 0 then get_bits linbits 5 b else (Inr 0, b)) (\<lambda>extra b.
       bind_s (get_bits 1 5 b) (\<lambda>sign b.
         let v = magnitude + extra in
         (Inr (prim_ok [(mc_dst i, to_u32 (if sign \<noteq> 0 then - v else v))] (3 + linbits)), b)))))"

definition execute_entropy ::
  "apu_instruction \<Rightarrow> int list \<Rightarrow> apu_entry \<Rightarrow> prim_bam \<Rightarrow> (prim_exn + prim_result) \<times> prim_bam" where
  "execute_entropy i registers e b =
     bind_s (lift_s (enum_opcode 6 (mc_opcode i)) b) (\<lambda>opc b.
     if opc \<le> 2 then execute_huffman i registers e b
     else if opc = 3 then
       bind_s (unary_loop (mc_aux i AND 1) (mc_immediate i) 0 b)
         (\<lambda>run b. (Inr (prim_ok [(mc_dst i, run)] (2 + run)), b))
     else if opc \<in> {4, 5} then execute_rice i registers b
     else execute_sign_restore i registers b)"

section \<open>Local operations\<close>

definition execute_load_store ::
  "apu_instruction \<Rightarrow> int list \<Rightarrow> apu_entry \<Rightarrow> prim_bam \<Rightarrow> (prim_exn + prim_result) \<times> prim_bam" where
  "execute_load_store i registers e b =
     bind_s (lift_s (reg_read registers (mc_src0 i)) b) (\<lambda>r0 b.
     let address = scratch_base e + r0 + bam_signed (mc_immediate i) 16 in
     if address AND 3 \<noteq> 0 then (Inl range_fault, b)
     else if mc_opcode i = 0 then
       bind_s (lift_s (read_u32 address e False (bam_memory b)) b)
         (\<lambda>v b. (Inr (prim_ok [(mc_dst i, v)] 2), b))
     else
       bind_s (lift_s (reg_read registers (mc_src1 i)) b) (\<lambda>r1 b.
       bind_s (on_memory (write_s32 address r1 e) b) (\<lambda>_ b. (Inr (prim_ok [] 1), b))))"

definition execute_table ::
  "apu_instruction \<Rightarrow> int list \<Rightarrow> apu_entry \<Rightarrow> prim_bam \<Rightarrow> (prim_exn + prim_result) \<times> prim_bam" where
  "execute_table i registers e b =
     (let sz = shl 1 (mc_opcode i - 2) in
      bind_s (lift_s (reg_read registers (mc_src0 i)) b) (\<lambda>r0 b.
      bind_s (lift_s (reg_read registers (mc_src1 i)) b) (\<lambda>r1 b.
      let address = table_offset e + r0 + r1 * sz in
      if address AND (sz - 1) \<noteq> 0 then (Inl range_fault, b)
      else
        bind_s (lift_s (mem_read address sz e True (bam_memory b)) b)
          (\<lambda>bs b. (Inr (prim_ok [(mc_dst i, le_int bs)] 2), b)))))"

definition execute_fifo_pop ::
  "apu_instruction \<Rightarrow> prim_bam \<Rightarrow> (prim_exn + prim_result) \<times> prim_bam" where
  "execute_fifo_pop i b =
     bind_s (lift_s (pf_pop (input_fifo b)) b) (\<lambda>(word, rest) b.
       (Inr (prim_ok
          [(mc_dst i, word AND 4294967295),
           (mc_dst i + 1, (shr word 32 AND 7) OR shl (shr word 40 AND 1) 8)] 1),
        b\<lparr>input_fifo := rest\<rparr>))"

definition execute_fifo_push ::
  "apu_instruction \<Rightarrow> int list \<Rightarrow> prim_bam \<Rightarrow> (prim_exn + prim_result) \<times> prim_bam" where
  "execute_fifo_push i registers b =
     bind_s (lift_s (reg_read registers (mc_src1 i)) b) (\<lambda>metadata b.
     if metadata AND NOT 263 \<noteq> 0 \<or> \<not> (1 \<le> metadata AND 7 \<and> metadata AND 7 \<le> 4)
     then (Inl (PrimitiveFault 22 7 9), b)
     else
       bind_s (lift_s (reg_read registers (mc_src0 i)) b) (\<lambda>r0 b.
       bind_s
         (lift_s
           (pf_push ((r0 AND 4294967295) OR shl (metadata AND 7) 32 OR shl (shr metadata 8 AND 1) 40)
             (output_fifo b)) b)
         (\<lambda>ws b. (Inr (prim_ok [] 1), b\<lparr>output_fifo := ws\<rparr>))))"

definition execute_local ::
  "apu_instruction \<Rightarrow> int list \<Rightarrow> apu_entry \<Rightarrow> prim_bam \<Rightarrow> (prim_exn + prim_result) \<times> prim_bam" where
  "execute_local i registers e b =
     bind_s (lift_s (enum_opcode 6 (mc_opcode i)) b) (\<lambda>opc b.
     if opc \<in> {0, 1} then execute_load_store i registers e b
     else if opc \<in> {2, 3, 4} then execute_table i registers e b
     else if opc = 5 then execute_fifo_pop i b
     else execute_fifo_push i registers b)"

end
