(* ===== verification/Apu_Kernel.thy ===== *)
theory Apu_Kernel
  imports Apu_Prim
begin

text \<open>
  The kernels of \<^verbatim>\<open>scripts/apu_primitives.py\<close> and the dispatcher \<open>execute\<close>: requantisation,
  stereo and decorrelation, the two inverse transforms, the polyphase filter bank, the fixed and
  linear predictors, the resampler and the PCM packer. Every kernel reads and writes the local
  memory through the range-checked operations of the memory, one element after the other, in the
  order of the source.
\<close>

unbundle bit_operations_syntax

section \<open>References, dot products and element access\<close>

definition resolve_ref ::
  "int \<Rightarrow> apu_entry \<Rightarrow> int \<Rightarrow> bool \<Rightarrow> local_memory \<Rightarrow> prim_exn + (int \<times> bool)" where
  "resolve_ref word e sz state m =
     (let table = (word AND 2147483648 \<noteq> 0);
          offset = word AND (if table then 65535 else 131071);
          address = (if table then table_offset e else scratch_base e) + offset in
      bind_r
        (first_error
          [raise_if (word AND (if table then 2147418112 else 2147352576) \<noteq> 0 \<or> word AND 3 \<noteq> 0) range_fault,
           raise_if (state \<and> table) range_fault,
           check_range address sz e table m])
        (\<lambda>_. Inr (address, table)))"

definition dot :: "int list \<Rightarrow> int list \<Rightarrow> prim_exn + int" where
  "dot left right =
     (if length left \<noteq> length right
      then Inl (PyError (ValueError ''zip() arguments have different lengths''))
      else
        let total = sum_list (map (\<lambda>(a, b). a * b) (zip left right)) in
        if total < - shl 1 71 \<or> total > shl 1 71 - 1 then Inl (PrimitiveFault 22 6 9) else Inr total)"

definition read_array :: "int \<Rightarrow> int \<Rightarrow> apu_entry \<Rightarrow> bool \<Rightarrow> local_memory \<Rightarrow> prim_exn + int list" where
  "read_array address n e table m =
     map_r (\<lambda>index. read_s32 (address + index * 4) e table m) (py_range 0 n)"

definition write_array :: "int \<Rightarrow> int list \<Rightarrow> apu_entry \<Rightarrow> local_memory \<Rightarrow> (prim_exn + unit) \<times> local_memory" where
  "write_array address vs e m =
     fold_s (\<lambda>_ (index, v) m. write_s32 (address + index * 4) v e m) () (py_enumerate vs) m"

definition rounded_dot :: "int list \<Rightarrow> int list \<Rightarrow> prim_exn + int" where
  "rounded_dot left right = bind_r (dot left right) (\<lambda>total. Inr (bam_sat (rne total 30) 32))"

definition out_of_s32 :: "int \<Rightarrow> bool" where
  "out_of_s32 v \<longleftrightarrow> v < - shl 1 31 \<or> v > shl 1 31 - 1"

section \<open>Requantisation and stereo\<close>

definition kernel_requant ::
  "int \<Rightarrow> int \<Rightarrow> int \<Rightarrow> int \<Rightarrow> int \<Rightarrow> apu_entry \<Rightarrow> local_memory \<Rightarrow> (prim_exn + (int \<times> int)) \<times> local_memory" where
  "kernel_requant aux count input_at par_at output_at e m =
     bind_s (lift_s (read_u32 par_at e False m) m) (\<lambda>reference m.
     bind_s (lift_s (resolve_ref reference e (count * 4) False m) m) (\<lambda>(scale_at, scale_table) m.
     bind_s (lift_s (check_range input_at (count * 4) e False m) m) (\<lambda>_ m.
     bind_s (lift_s (map_error PyError (py_index [16, 24, 32] (shr aux 6))) m) (\<lambda>width m.
     let shift = 30 + (aux AND 31) in
     bind_s
       (fold_s
         (\<lambda>_ index m.
            bind_s (lift_s (read_s32 (input_at + index * 4) e False m) m) (\<lambda>sample m.
            bind_s (lift_s (read_s32 (scale_at + index * 4) e scale_table m) m) (\<lambda>scale m.
            let product = sample * scale;
                v = (if aux AND 32 \<noteq> 0 then rne product shift else shr product shift) in
            write_s32 (output_at + index * 4) (bam_sat v width) e m)))
         () (py_range 0 count) m)
       (\<lambda>_ m. (Inr (count, 8 + 4 * count), m))))))"

definition stereo_pair :: "int \<Rightarrow> int \<Rightarrow> int \<Rightarrow> int \<times> int" where
  "stereo_pair mode left right =
     (if mode = 0 then (left, right)
      else if mode = 1 then (left, left - right)
      else if mode = 2 then (left + right, right)
      else
        let middle = left * 2 + (right AND 1) in
        (shr (middle + right) 1, shr (middle - right) 1))"

definition kernel_stereo ::
  "bool \<Rightarrow> int \<Rightarrow> int \<Rightarrow> int \<Rightarrow> int \<Rightarrow> int \<Rightarrow> apu_entry \<Rightarrow> local_memory
    \<Rightarrow> (prim_exn + (int \<times> int)) \<times> local_memory" where
  "kernel_stereo decorrelate aux count input_at par_at output_at e m =
     bind_s (lift_s (read_u32 par_at e False m) m) (\<lambda>reference m.
     bind_s (lift_s (resolve_ref reference e (count * 4) True m) m) (\<lambda>(second_at, _) m.
     bind_s (lift_s (check_range input_at (count * 4) e False m) m) (\<lambda>_ m.
     bind_s
       (fold_s
         (\<lambda>_ index m.
            bind_s (lift_s (read_s32 (input_at + index * 4) e False m) m) (\<lambda>left m.
            bind_s (lift_s (read_s32 (second_at + index * 4) e False m) m) (\<lambda>right m.
            case stereo_pair (aux AND 3) left right of (p0, p1) \<Rightarrow>
            if decorrelate \<and> (out_of_s32 p0 \<or> out_of_s32 p1) then (Inl (PrimitiveFault 8 6 9), m)
            else
              bind_s (write_s32 (output_at + index * 4) (bam_sat p0 32) e m) (\<lambda>_ m.
              write_s32 (output_at + (count + index) * 4) (bam_sat p1 32) e m))))
         () (py_range 0 count) m)
       (\<lambda>_ m. (Inr (2 * count, 8 + 4 * count), m)))))"

section \<open>Transforms\<close>

definition imdct_block ::
  "int \<Rightarrow> int \<Rightarrow> int \<Rightarrow> bool \<Rightarrow> int \<Rightarrow> int \<Rightarrow> apu_entry \<Rightarrow> local_memory \<Rightarrow> (prim_exn + unit) \<times> local_memory" where
  "imdct_block order block matrix_at matrix_table input_at output_at e m =
     bind_s (lift_s (read_array (input_at + block * order * 4) order e False m) m) (\<lambda>vs m.
     fold_s
       (\<lambda>_ row m.
          bind_s (lift_s (read_array (matrix_at + row * order * 4) order e matrix_table m) m)
            (\<lambda>coefficients m.
          bind_s (lift_s (rounded_dot vs coefficients) m) (\<lambda>v m.
          write_s32 (output_at + (block * 2 * order + row) * 4) v e m)))
       () (py_range 0 (2 * order)) m)"

definition kernel_imdct ::
  "int \<Rightarrow> int \<Rightarrow> int \<Rightarrow> int \<Rightarrow> int \<Rightarrow> apu_entry \<Rightarrow> local_memory \<Rightarrow> (prim_exn + (int \<times> int)) \<times> local_memory" where
  "kernel_imdct order count input_at par_at output_at e m =
     bind_s (lift_s (read_u32 par_at e False m) m) (\<lambda>reference m.
     bind_s (lift_s (resolve_ref reference e (2 * order * order * 4) False m) m) (\<lambda>(matrix_at, matrix_table) m.
     bind_s (lift_s (check_range input_at (count * order * 4) e False m) m) (\<lambda>_ m.
     bind_s
       (fold_s (\<lambda>_ block m. imdct_block order block matrix_at matrix_table input_at output_at e m)
         () (py_range 0 count) m)
       (\<lambda>_ m. (Inr (count * 2 * order, 8 + (if order = 6 then 94 else 706) * count), m)))))"

definition dct_transform ::
  "int \<Rightarrow> int \<Rightarrow> bool \<Rightarrow> int \<Rightarrow> apu_entry \<Rightarrow> local_memory \<Rightarrow> prim_exn + int list" where
  "dct_transform block matrix_at matrix_table input_at e m =
     bind_r (read_array (input_at + block * 32 * 4) 32 e False m) (\<lambda>vs.
     map_r
       (\<lambda>row.
          bind_r (read_array (matrix_at + row * 32 * 4) 32 e matrix_table m) (rounded_dot vs))
       (py_range 0 32))"

definition dct_output ::
  "int \<Rightarrow> int \<Rightarrow> int \<Rightarrow> int \<Rightarrow> bool \<Rightarrow> apu_entry \<Rightarrow> local_memory \<Rightarrow> prim_exn + int" where
  "dct_output phase item history_at window_at window_table e m =
     bind_r
       (map_r
         (\<lambda>tap. read_s32 (history_at + (((phase - tap) AND 15) * 32 + item) * 4) e False m)
         (py_range 0 16)) (\<lambda>history.
     bind_r
       (map_r (\<lambda>tap. read_s32 (window_at + (tap * 32 + item) * 4) e window_table m) (py_range 0 16))
       (\<lambda>window. rounded_dot history window))"

definition dct_block ::
  "int \<times> bool \<Rightarrow> int \<times> bool \<Rightarrow> int \<Rightarrow> int \<Rightarrow> int \<Rightarrow> apu_entry \<Rightarrow> int \<Rightarrow> int \<Rightarrow> local_memory
    \<Rightarrow> (prim_exn + int) \<times> local_memory" where
  "dct_block matrix_ref window_ref history_at input_at output_at e phase block m =
     bind_s (lift_s (dct_transform block (fst matrix_ref) (snd matrix_ref) input_at e m) m)
       (\<lambda>transformed m.
     bind_s (write_array (history_at + phase * 32 * 4) transformed e m) (\<lambda>_ m.
     bind_s
       (fold_s
         (\<lambda>_ item m.
            bind_s (lift_s (dct_output phase item history_at (fst window_ref) (snd window_ref) e m) m)
              (\<lambda>v m. write_s32 (output_at + (block * 32 + item) * 4) v e m))
         () (py_range 0 32) m)
       (\<lambda>_ m. (Inr ((phase + 1) AND 15), m))))"

definition kernel_dct32 ::
  "int \<Rightarrow> int \<Rightarrow> int \<Rightarrow> int \<Rightarrow> apu_entry \<Rightarrow> local_memory \<Rightarrow> (prim_exn + (int \<times> int)) \<times> local_memory" where
  "kernel_dct32 count input_at par_at output_at e m =
     bind_s (lift_s (read_u32 par_at e False m) m) (\<lambda>ref0 m.
     bind_s (lift_s (read_u32 (par_at + 4) e False m) m) (\<lambda>ref1 m.
     bind_s (lift_s (read_u32 (par_at + 8) e False m) m) (\<lambda>ref2 m.
     bind_s (lift_s (read_u32 (par_at + 12) e False m) m) (\<lambda>phase m.
     if shr phase 4 \<noteq> 0 then (Inl range_fault, m)
     else
       bind_s (lift_s (resolve_ref ref0 e (32 * 32 * 4) False m) m) (\<lambda>matrix_ref m.
       bind_s (lift_s (resolve_ref ref1 e (16 * 32 * 4) False m) m) (\<lambda>window_ref m.
       bind_s (lift_s (resolve_ref ref2 e (16 * 32 * 4) True m) m) (\<lambda>(history_at, _) m.
       bind_s
         (fold_s (dct_block matrix_ref window_ref history_at input_at output_at e)
           phase (py_range 0 count) m) (\<lambda>phase m.
       bind_s (write_s32 (par_at + 12) phase e m)
         (\<lambda>_ m. (Inr (32 * count, 8 + 2304 * count), m))))))))))"

section \<open>Predictors\<close>

definition fixed_predictor :: "int \<Rightarrow> int list \<Rightarrow> int" where
  "fixed_predictor order h =
     (if order = 0 then 0
      else if order = 1 then h ! 0
      else if order = 2 then 2 * h ! 0 - h ! 1
      else if order = 3 then 3 * h ! 0 - 3 * h ! 1 + h ! 2
      else 4 * h ! 0 - 6 * h ! 1 + 4 * h ! 2 - h ! 3)"

definition push_history :: "int \<Rightarrow> int list \<Rightarrow> int list" where
  "push_history v h = v # butlast h"

text \<open>One predicted sample: the residual is read, the sum checked, written and remembered.\<close>

definition predict_sample ::
  "(int list \<Rightarrow> prim_exn + int) \<Rightarrow> int \<Rightarrow> int \<Rightarrow> apu_entry \<Rightarrow> int list \<Rightarrow> int \<Rightarrow> local_memory
    \<Rightarrow> (prim_exn + int list) \<times> local_memory" where
  "predict_sample predictor input_at output_at e history index m =
     bind_s (lift_s (predictor history) m) (\<lambda>p m.
     bind_s (lift_s (read_s32 (input_at + index * 4) e False m) m) (\<lambda>residual m.
     let v = p + residual in
     if out_of_s32 v then (Inl (PrimitiveFault 8 6 9), m)
     else
       bind_s (write_s32 (output_at + index * 4) v e m)
         (\<lambda>_ m. (Inr (if history = [] then [] else push_history v history), m))))"

definition kernel_fixed ::
  "int \<Rightarrow> int \<Rightarrow> int \<Rightarrow> int \<Rightarrow> int \<Rightarrow> apu_entry \<Rightarrow> local_memory \<Rightarrow> (prim_exn + (int \<times> int)) \<times> local_memory" where
  "kernel_fixed aux count input_at par_at output_at e m =
     (let order = aux AND 7 in
      bind_s (lift_s (read_u32 par_at e False m) m) (\<lambda>reference m.
      bind_s (lift_s (resolve_ref reference e (max order 1 * 4) True m) m) (\<lambda>(history_at, _) m.
      bind_s (lift_s (read_array history_at order e False m) m) (\<lambda>history m.
      bind_s (lift_s (check_range input_at (count * 4) e False m) m) (\<lambda>_ m.
      bind_s
        (fold_s (predict_sample (\<lambda>h. Inr (fixed_predictor order h)) input_at output_at e)
          history (py_range 0 count) m) (\<lambda>history m.
      bind_s (write_array history_at history e m)
        (\<lambda>_ m. (Inr (count, 8 + (order + 4) * count), m))))))))"

definition lpc_predictor :: "int \<Rightarrow> int list \<Rightarrow> int list \<Rightarrow> prim_exn + int" where
  "lpc_predictor shift coefficients history =
     bind_r (dot coefficients history)
       (\<lambda>total. Inr (if shift \<ge> 0 then shr total shift else shl total (- shift)))"

definition kernel_lpc ::
  "int \<Rightarrow> int \<Rightarrow> int \<Rightarrow> int \<Rightarrow> int \<Rightarrow> apu_entry \<Rightarrow> local_memory \<Rightarrow> (prim_exn + (int \<times> int)) \<times> local_memory" where
  "kernel_lpc aux count input_at par_at output_at e m =
     (let order = aux AND 63 in
      bind_s (lift_s (read_u32 par_at e False m) m) (\<lambda>coefficient_ref m.
      bind_s (lift_s (read_u32 (par_at + 4) e False m) m) (\<lambda>history_ref m.
      bind_s (lift_s (read_u32 (par_at + 8) e False m) m) (\<lambda>raw_shift m.
      let shift = bam_signed raw_shift 32 in
      if \<not> (- 31 \<le> shift \<and> shift \<le> 31) then (Inl range_fault, m)
      else
        bind_s (lift_s (resolve_ref coefficient_ref e (order * 4) False m) m)
          (\<lambda>(coefficient_at, coefficient_table) m.
        bind_s (lift_s (resolve_ref history_ref e (order * 4) True m) m) (\<lambda>(history_at, _) m.
        bind_s (lift_s (read_array coefficient_at order e coefficient_table m) m) (\<lambda>coefficients m.
        bind_s (lift_s (read_array history_at order e False m) m) (\<lambda>history m.
        bind_s
          (fold_s (predict_sample (lpc_predictor shift coefficients) input_at output_at e)
            history (py_range 0 count) m) (\<lambda>history m.
        bind_s (write_array history_at history e m)
          (\<lambda>_ m. (Inr (count, 8 + (2 * order + 5) * count), m)))))))))))"

section \<open>PCM packing\<close>

definition pcm_sample :: "int \<Rightarrow> int \<Rightarrow> int \<Rightarrow> bytes" where
  "pcm_sample aux gain sample =
     (let v = rne (sample * gain) 30;
          packed = bam_sat v (if aux AND 3 = 0 then 16 else 24);
          full = le_bytes 4 (to_u32 packed);
          encoded = (if aux AND 3 = 0 then take 2 full else full) in
      if aux AND 4 \<noteq> 0 then encoded @ encoded else encoded)"

definition kernel_pcm_pack ::
  "int \<Rightarrow> int \<Rightarrow> int \<Rightarrow> int \<Rightarrow> int \<Rightarrow> apu_entry \<Rightarrow> local_memory \<Rightarrow> (prim_exn + (int \<times> int)) \<times> local_memory" where
  "kernel_pcm_pack aux count input_at par_at output_at e m =
     bind_s (lift_s (read_s32 par_at e False m) m) (\<lambda>gain m.
     bind_s (lift_s (read_u32 (par_at + 4) e False m) m) (\<lambda>channels m.
     if channels \<notin> {1, 2} \<or> (aux AND 4 \<noteq> 0 \<and> channels \<noteq> 1) then (Inl (PrimitiveFault 8 7 9), m)
     else
       bind_s (lift_s (read_array input_at (count * channels) e False m) m) (\<lambda>samples m.
       let packed = concat (map (pcm_sample aux gain) samples) in
       bind_s (mem_write output_at packed e m)
         (\<lambda>_ m. (Inr (int (length packed),
             8 + 5 * (count * (if aux AND 4 \<noteq> 0 then 2 else channels))), m)))))"

section \<open>Resampling\<close>

definition ratios :: "(int \<times> int) list" where
  "ratios =
     [(1, 1), (1, 2), (80, 147), (160, 147), (3, 2), (2, 1), (3, 1), (4, 1), (6, 1), (8, 1), (12, 1),
      (320, 147), (640, 147), (1280, 147), (2, 3), (4, 3)]"

definition ratio_of :: "int \<Rightarrow> int \<times> int" where
  "ratio_of aux = ratios ! nat (aux AND 15)"

lemma ratio_of_positive: "0 < fst (ratio_of aux)" "0 < snd (ratio_of aux)"
proof -
  have "aux AND 15 = aux mod 16" by (simp add: bit_arith)
  then have "nat (aux AND 15) < length ratios" by (simp add: ratios_def nat_less_iff)
  then have "ratio_of aux \<in> set ratios" by (simp add: ratio_of_def)
  moreover have "\<forall>r \<in> set ratios. 0 < fst r \<and> 0 < snd r" by (simp add: ratios_def)
  ultimately show "0 < fst (ratio_of aux)" "0 < snd (ratio_of aux)" by blast+
qed

text \<open>The source index and filter phase of an output sample.\<close>

definition resample_position :: "int \<Rightarrow> int \<Rightarrow> int \<times> int" where
  "resample_position numerator next_output =
     (let source_index = next_output div numerator;
          remainder = next_output mod numerator;
          quot = (32 * remainder) div numerator;
          doubled = 2 * ((32 * remainder) mod numerator);
          phase = (if doubled > numerator \<or> (doubled = numerator \<and> quot AND 1 \<noteq> 0)
                   then quot + 1 else quot) in
      if phase = 32 then (source_index + 1, 0) else (source_index, phase))"

definition resample_output ::
  "int \<Rightarrow> int \<Rightarrow> int \<Rightarrow> int \<times> bool \<Rightarrow> int \<Rightarrow> int \<Rightarrow> int \<Rightarrow> int \<Rightarrow> apu_entry \<Rightarrow> local_memory
    \<Rightarrow> (prim_exn + unit) \<times> local_memory" where
  "resample_output source_index phase input_base coefficient_ref channels produced input_at output_at e m =
     fold_s
       (\<lambda>_ channel m.
          bind_s
            (lift_s
              (map_r
                (\<lambda>tap. read_s32
                   (input_at + ((source_index + tap - 7 - input_base) * channels + channel) * 4) e False m)
                (py_range 0 16)) m) (\<lambda>samples m.
          bind_s
            (lift_s
              (map_r
                (\<lambda>tap. read_s32 (fst coefficient_ref + (phase * 16 + tap) * 4) e (snd coefficient_ref) m)
                (py_range 0 16)) m) (\<lambda>coefficients m.
          bind_s (lift_s (rounded_dot samples coefficients) m) (\<lambda>v m.
          write_s32 (output_at + (produced * channels + channel) * 4) v e m))))
       () (py_range 0 channels) m"

lemma resample_progress:
  assumes "next_output div fst (ratio_of aux) < limit"
  shows "nat (limit * fst (ratio_of aux) - (next_output + snd (ratio_of aux)))
    < nat (limit * fst (ratio_of aux) - next_output)"
proof -
  let ?n = "fst (ratio_of aux)"
  note pos = ratio_of_positive [of aux]
  have "(next_output div ?n + 1) * ?n \<le> limit * ?n"
    using assms pos(1) by (intro mult_right_mono) auto
  moreover have "next_output < (next_output div ?n + 1) * ?n"
    using pos_mod_bound [OF pos(1), of next_output] minus_mod_eq_div_mult [of next_output ?n]
    unfolding distrib_right by linarith
  ultimately show ?thesis using pos(2) by simp
qed

function resample_loop ::
  "int \<Rightarrow> int \<Rightarrow> int \<times> bool \<Rightarrow> int \<Rightarrow> int \<Rightarrow> int \<Rightarrow> apu_entry \<Rightarrow> int \<Rightarrow> int \<Rightarrow> int \<Rightarrow> local_memory
    \<Rightarrow> (prim_exn + (int \<times> int)) \<times> local_memory" where
  "resample_loop aux count coefficient_ref channels input_at output_at e input_base next_output produced m =
     (if next_output div fst (ratio_of aux) < input_base + count then
        (case resample_position (fst (ratio_of aux)) next_output of (source_index, phase) \<Rightarrow>
         bind_s
           (resample_output source_index phase input_base coefficient_ref channels produced input_at
              output_at e m)
           (\<lambda>_ m. resample_loop aux count coefficient_ref channels input_at output_at e input_base
              (next_output + snd (ratio_of aux)) (produced + 1) m))
      else (Inr (next_output, produced), m))"
  by pat_completeness auto

termination
  by (relation "measure (\<lambda>(aux, count, cref, channels, input_at, output_at, e, input_base,
      next_output, produced, m). nat ((input_base + count) * fst (ratio_of aux) - next_output))")
    (simp, simp only: in_measure prod.case, rule resample_progress)

declare resample_loop.simps [simp del]

definition resample_body ::
  "int \<Rightarrow> int \<Rightarrow> int \<Rightarrow> int \<Rightarrow> int \<Rightarrow> apu_entry \<Rightarrow> local_memory \<Rightarrow> (prim_exn + (int \<times> int)) \<times> local_memory" where
  "resample_body aux count input_at par_at output_at e m =
     (let profile = aux AND 15; word = (\<lambda>k. lift_s (read_u32 (par_at + k) e False m) m) in
      bind_s (word 0) (\<lambda>ref0 m.
      bind_s (word 4) (\<lambda>ref1 m.
      bind_s (word 8) (\<lambda>ref2 m.
      bind_s (word 12) (\<lambda>next_lo m.
      bind_s (word 16) (\<lambda>next_hi m.
      bind_s (word 20) (\<lambda>base_lo m.
      bind_s (word 24) (\<lambda>base_hi m.
      bind_s (word 28) (\<lambda>channels m.
      let next_output = next_lo OR shl next_hi 32; input_base = base_lo OR shl base_hi 32 in
      if channels \<notin> {1, 2} then (Inl (PrimitiveFault 8 7 9), m)
      else
        bind_s
          (if profile = 0 then
             bind_s (lift_s (mem_read input_at (count * channels * 4) e False m) m) (\<lambda>payload m.
             bind_s (mem_write output_at payload e m)
               (\<lambda>_ m. (Inr (next_output + count, count, 8 + 2 * count * channels), m)))
           else
             bind_s
               (lift_s
                 (resolve_ref (if profile \<in> {1, 2} then ref2 else if profile = 14 then ref1 else ref0)
                   e (32 * 16 * 4) False m) m) (\<lambda>coefficient_ref m.
             bind_s
               (resample_loop aux count coefficient_ref channels input_at output_at e input_base
                  next_output 0 m) (\<lambda>(next_output, produced) m.
               (Inr (next_output, produced,
                  8 + 2 * count * channels + 36 * produced * channels), m))))
          (\<lambda>(next_output, produced, cycles) m.
        let input_base = input_base + count in
        bind_s (write_s32 (par_at + 12) (next_output AND 4294967295) e m) (\<lambda>_ m.
        bind_s (write_s32 (par_at + 16) (shr next_output 32) e m) (\<lambda>_ m.
        bind_s (write_s32 (par_at + 20) (input_base AND 4294967295) e m) (\<lambda>_ m.
        bind_s (write_s32 (par_at + 24) (shr input_base 32) e m) (\<lambda>_ m.
          (Inr (produced, cycles), m)))))))))))))))"

definition kernel_resample ::
  "int \<Rightarrow> int \<Rightarrow> int \<Rightarrow> int \<Rightarrow> int \<Rightarrow> apu_entry \<Rightarrow> prim_bam \<Rightarrow> (prim_exn + (int \<times> int)) \<times> prim_bam" where
  "kernel_resample aux count input_at par_at output_at e b =
     (let profile = aux AND 15 in
      bind_s
        (case resample_profile b of
           None \<Rightarrow> (Inr (), b\<lparr>resample_profile := Some profile\<rparr>)
         | Some p \<Rightarrow> if profile \<noteq> p then (Inl (PrimitiveFault 8 7 9), b) else (Inr (), b))
        (\<lambda>_ b. on_memory (resample_body aux count input_at par_at output_at e) b))"

section \<open>Dispatch\<close>

definition kernel_arrays ::
  "apu_instruction \<Rightarrow> int list \<Rightarrow> apu_entry \<Rightarrow> local_memory \<Rightarrow> prim_exn + (int \<times> int \<times> int \<times> int)" where
  "kernel_arrays i registers e m =
     bind_r (reg_read registers (mc_src0 i)) (\<lambda>r0.
     bind_r (reg_read registers (mc_src1 i)) (\<lambda>r1.
     bind_r (reg_read registers (mc_dst i)) (\<lambda>rd.
     let input_at = scratch_base e + r0; par_at = scratch_base e + r1; output_at = scratch_base e + rd;
         alignment = (if mc_opcode i = 9 \<and> mc_aux i AND 3 = 0 then 2 else 4) in
     bind_r
       (first_error
         [raise_if (scratch_base e AND 3 \<noteq> 0 \<or> input_at AND 3 \<noteq> 0 \<or> par_at AND 3 \<noteq> 0
             \<or> output_at AND (alignment - 1) \<noteq> 0) range_fault,
          check_range par_at 4 e False m])
       (\<lambda>_. Inr (mc_immediate i AND 65535, input_at, par_at, output_at)))))"

definition run_kernel ::
  "int \<Rightarrow> int \<Rightarrow> int \<Rightarrow> int \<Rightarrow> int \<Rightarrow> int \<Rightarrow> apu_entry \<Rightarrow> prim_bam \<Rightarrow> (prim_exn + (int \<times> int)) \<times> prim_bam" where
  "run_kernel opc aux count input_at par_at output_at e b =
     (if opc = 0 then on_memory (kernel_requant aux count input_at par_at output_at e) b
      else if opc \<in> {1, 7} then on_memory (kernel_stereo (opc = 7) aux count input_at par_at output_at e) b
      else if opc = 2 then on_memory (kernel_imdct 6 count input_at par_at output_at e) b
      else if opc = 3 then on_memory (kernel_imdct 18 count input_at par_at output_at e) b
      else if opc = 5 then on_memory (kernel_fixed aux count input_at par_at output_at e) b
      else if opc = 6 then on_memory (kernel_lpc aux count input_at par_at output_at e) b
      else if opc = 9 then on_memory (kernel_pcm_pack aux count input_at par_at output_at e) b
      else if opc = 8 then kernel_resample aux count input_at par_at output_at e b
      else on_memory (kernel_dct32 count input_at par_at output_at e) b)"

definition execute_kernel ::
  "apu_instruction \<Rightarrow> int list \<Rightarrow> apu_entry \<Rightarrow> prim_bam \<Rightarrow> (prim_exn + prim_result) \<times> prim_bam" where
  "execute_kernel i registers e b =
     bind_s (lift_s (enum_opcode 9 (mc_opcode i)) b) (\<lambda>opc b.
     bind_s (lift_s (kernel_arrays i registers e (bam_memory b)) b)
       (\<lambda>(count, input_at, par_at, output_at) b.
     bind_s (run_kernel opc (mc_aux i) count input_at par_at output_at e b) (\<lambda>(produced, cycles) b.
       (Inr \<lparr>pr_writes = [(mc_dst i, produced)], pr_cycles = cycles, pr_kernel_done = True\<rparr>,
        b\<lparr>bam_kernel_done := True\<rparr>))))"

definition execute_primitive ::
  "apu_instruction \<Rightarrow> int list \<Rightarrow> apu_entry \<Rightarrow> prim_bam \<Rightarrow> (prim_exn + prim_result) \<times> prim_bam" where
  "execute_primitive i registers e b =
     (if mc_class i = CLS_BITSTREAM then execute_bitstream i registers b
      else if mc_class i = CLS_ENTROPY then execute_entropy i registers e b
      else if mc_class i = CLS_LOCAL then execute_local i registers e b
      else if mc_class i = CLS_KERNEL then execute_kernel i registers e b
      else (Inl (PyError (ValueError ''instruction is not an APU-P4 primitive'')), b))"

end
