(* ===== verification/Apu_Prim_Props.thy ===== *)
theory Apu_Prim_Props
  imports Apu_Kernel
begin

text \<open>
  Correctness of the APU primitives: rounding, isolation of the memory outside the scratch range
  of an entry, the bit reader as a refinement of a list of bits (with its interface as the locale
  \<open>bit_source\<close>), Rice and canonical Huffman decoding as inverses of their encodings, stores and
  loads, joint stereo, and the invariant of the primitive state.
\<close>

unbundle bit_operations_syntax

section \<open>Rounding and saturation\<close>

lemma shl_one: "0 \<le> n \<Longrightarrow> shl 1 n = 2 ^ nat n"
  by (simp add: push_bit_eq_mult)

lemma and_one_odd: "q AND 1 \<noteq> 0 \<longleftrightarrow> odd (q :: int)"
  by (simp add: bit_arith odd_iff_mod_2_eq_one)

text \<open>The rounding \<open>rne\<close> is division by a power of two rounded to nearest, ties to even: the result is within
  half a step of the exact quotient, and exactly half a step away only when it is even.\<close>

theorem rne_nearest_even:
  assumes "0 \<le> shift"
  shows "2 * \<bar>v - rne v shift * 2 ^ nat shift\<bar> \<le> 2 ^ nat shift \<and>
    (2 * \<bar>v - rne v shift * 2 ^ nat shift\<bar> = 2 ^ nat shift \<longrightarrow> even (rne v shift))"
proof (cases "shift = 0")
  case True
  then show ?thesis by (simp add: rne_def)
next
  case False
  obtain n where n: "nat shift = Suc n" using assms False by (metis not0_implies_Suc nat_0_iff order_antisym)
  define h where "h = (2 ^ n :: int)"
  have h: "0 < h" "2 ^ nat shift = 2 * h" "shl 1 shift = 2 * h" "shl 1 (shift - 1) = h"
  proof -
    show "0 < h" by (simp add: h_def)
    show "2 ^ nat shift = 2 * h" by (simp add: h_def n)
    show "shl 1 shift = 2 * h" by (simp add: h_def n)
    have "nat (shift - 1) = n" using n by simp
    then show "shl 1 (shift - 1) = h" by (simp add: h_def)
  qed
  define q r where "q = \<bar>v\<bar> div (2 * h)" and "r = \<bar>v\<bar> mod (2 * h)"
  have v: "\<bar>v\<bar> = q * (2 * h) + r" "0 \<le> r" "r < 2 * h"
    using h(1) by (simp_all only: q_def r_def div_mult_mod_eq) simp_all
  define m where "m = (if r > h \<or> r = h \<and> odd q then q + 1 else q)"
  have "rne v shift = (if v < 0 then - m else m)"
    unfolding rne_def Let_def h m_def q_def [symmetric] r_def [symmetric] and_one_odd
    using False by (simp only: if_False)
  then have e: "even (rne v shift) = even m"
    and "v - rne v shift * (2 * h) = (if v < 0 then - (\<bar>v\<bar> - m * (2 * h)) else \<bar>v\<bar> - m * (2 * h))"
    by (auto simp: algebra_simps)
  then have d: "\<bar>v - rne v shift * (2 * h)\<bar> = \<bar>\<bar>v\<bar> - m * (2 * h)\<bar>"
    by (simp only: abs_minus_cancel split: if_split) simp
  have "\<bar>v\<bar> - m * (2 * h) = r - (m - q) * (2 * h)" using v(1) by (simp add: algebra_simps)
  moreover have "2 * \<bar>r - (m - q) * (2 * h)\<bar> \<le> 2 * h \<and> (2 * \<bar>r - (m - q) * (2 * h)\<bar> = 2 * h \<longrightarrow> even m)"
    using v(2,3) by (auto simp: m_def)
  ultimately show ?thesis unfolding h(2) d e by simp
qed

section \<open>Memory isolation\<close>

text \<open>What a primitive may change of the memory: bytes of the scratch range of its entry that lie
  above the published table, and more words marked valid.\<close>

definition mem_frame :: "apu_entry \<Rightarrow> local_memory \<Rightarrow> local_memory \<Rightarrow> bool" where
  "mem_frame e m m' \<longleftrightarrow>
     mem_table_bytes m' = mem_table_bytes m \<and> image_valid m' = image_valid m \<and>
     (\<forall>a. mem_data m' a \<noteq> mem_data m a \<longrightarrow>
        mem_table_bytes m \<le> a \<and> scratch_base e \<le> a \<and> a < scratch_base e + scratch_bytes e \<and>
        0 \<le> a \<and> a < LOCAL_DATA_BYTES) \<and>
     (\<forall>w. valid_words m w \<longrightarrow> valid_words m' w)"

lemma mem_frame_refl [simp, intro]: "mem_frame e m m"
  by (simp add: mem_frame_def)

lemma mem_frame_trans: "mem_frame e a b \<Longrightarrow> mem_frame e b c \<Longrightarrow> mem_frame e a c"
  unfolding mem_frame_def by metis

lemma mem_frame_reflp: "reflp (mem_frame e)" and mem_frame_transp: "transp (mem_frame e)"
  by (auto intro: reflpI transpI mem_frame_trans)

lemmas frame_bind = bind_s_frame [OF mem_frame_transp]
lemmas frame_fold = fold_s_frame [OF mem_frame_reflp mem_frame_transp]

lemma frame_mark_valid: "mem_frame e m (snd (mark_valid address sz m))"
  unfolding mark_valid_def
  by (rule frame_fold) (auto simp: mem_frame_def)

lemma check_range_Inr:
  "check_range address sz e False m = Inr u \<longleftrightarrow> 0 \<le> address \<and> 1 \<le> sz \<and> address + sz \<le> LOCAL_DATA_BYTES \<and>
     scratch_base e \<le> address \<and> address + sz \<le> scratch_base e + scratch_bytes e"
  by (auto simp: check_range_def result_simps)

lemma frame_mem_write: "mem_frame e m (snd (mem_write address payload e m))"
proof -
  have w: "mem_frame e m (m\<lparr>mem_data := slice_assign address payload (mem_data m)\<rparr>)"
    if "check_range address (int (length payload)) e False m = Inr ()" "mem_table_bytes m \<le> address"
    using that by (auto simp: mem_frame_def check_range_Inr slice_assign_def)
  show ?thesis
    unfolding mem_write_def Let_def
    by (rule frame_bind)
      (auto simp: lift_s_Inr not_less intro!: mem_frame_trans [OF w frame_mark_valid])
qed

lemma frame_write_s32: "mem_frame e m (snd (write_s32 address v e m))"
  unfolding write_s32_def by (rule frame_mem_write)

lemmas frame_rules = frame_bind frame_fold frame_write_s32 frame_mem_write

lemma frame_write_array: "mem_frame e m (snd (write_array address vs e m))"
  unfolding write_array_def by (rule frame_fold) (auto simp: split_beta intro: frame_rules)

lemma frame_kernel_requant: "mem_frame e m (snd (kernel_requant aux count input_at par_at output_at e m))"
  unfolding kernel_requant_def Let_def
  by (auto intro!: frame_rules simp: split_beta)

lemma frame_kernel_stereo:
  "mem_frame e m (snd (kernel_stereo dec aux count input_at par_at output_at e m))"
  unfolding kernel_stereo_def Let_def
  by (auto intro!: frame_rules simp: split_beta)

lemma frame_kernel_imdct: "mem_frame e m (snd (kernel_imdct order count input_at par_at output_at e m))"
  unfolding kernel_imdct_def imdct_block_def Let_def
  by (auto intro!: frame_rules simp: split_beta)

lemma frame_kernel_dct32: "mem_frame e m (snd (kernel_dct32 count input_at par_at output_at e m))"
  unfolding kernel_dct32_def dct_block_def Let_def
  by (auto intro!: frame_rules frame_write_array simp: split_beta)

lemma frame_predict: "mem_frame e m (snd (predict_sample p input_at output_at e h index m))"
  unfolding predict_sample_def Let_def
  by (auto intro!: frame_rules simp: split_beta)

lemma frame_kernel_fixed: "mem_frame e m (snd (kernel_fixed aux count input_at par_at output_at e m))"
  unfolding kernel_fixed_def Let_def
  by (auto intro!: frame_rules frame_predict frame_write_array simp: split_beta)

lemma frame_kernel_lpc: "mem_frame e m (snd (kernel_lpc aux count input_at par_at output_at e m))"
  unfolding kernel_lpc_def Let_def
  by (auto intro!: frame_rules frame_predict frame_write_array simp: split_beta)

lemma frame_kernel_pcm_pack: "mem_frame e m (snd (kernel_pcm_pack aux count input_at par_at output_at e m))"
  unfolding kernel_pcm_pack_def Let_def
  by (auto intro!: frame_rules simp: split_beta)

lemma frame_resample_output:
  "mem_frame e m (snd (resample_output si ph ib cref channels produced input_at output_at e m))"
  unfolding resample_output_def
  by (auto intro!: frame_rules simp: split_beta)

lemma frame_resample_loop:
  "mem_frame e m (snd (resample_loop aux count cref channels input_at output_at e ib next_output produced m))"
proof (induction aux count cref channels input_at output_at e ib next_output produced m rule: resample_loop.induct)
  case (1 aux count cref channels input_at output_at e ib next_output produced m)
  show ?case
    by (subst resample_loop.simps)
      (auto intro!: frame_bind frame_resample_output 1 split: prod.split)
qed

lemma frame_resample_body: "mem_frame e m (snd (resample_body aux count input_at par_at output_at e m))"
  unfolding resample_body_def Let_def
  by (auto intro!: frame_rules frame_resample_loop simp: split_beta lift_s_Inr)

definition bam_frame :: "apu_entry \<Rightarrow> prim_bam \<Rightarrow> prim_bam \<Rightarrow> bool" where
  "bam_frame e b b' \<longleftrightarrow> mem_frame e (bam_memory b) (bam_memory b')"

lemma bam_frame_refl [simp, intro]: "bam_frame e b b"
  by (simp add: bam_frame_def)

lemma bam_frame_transp: "transp (bam_frame e)"
  unfolding bam_frame_def by (intro transpI) (blast intro: mem_frame_trans)

lemmas bam_bind = bind_s_frame [OF bam_frame_transp]

lemma frame_refill: "bam_memory (refill width b) = bam_memory b"
  by (simp add: refill_def split: prod.splits)

lemma frame_peek: "bam_memory (snd (peek_bits width stage b)) = bam_memory b"
  by (simp add: peek_bits_def Let_def frame_refill)

lemma bam_frame_updates [simp]:
  "bam_frame e b (b'\<lparr>input_fifo := f\<rparr>) = bam_frame e b b'"
  "bam_frame e b (b'\<lparr>output_fifo := f\<rparr>) = bam_frame e b b'"
  "bam_frame e b (b'\<lparr>bam_kernel_done := d\<rparr>) = bam_frame e b b'"
  "bam_frame e b (b'\<lparr>resample_profile := p\<rparr>) = bam_frame e b b'"
  "bam_frame e b (refill width b') = bam_frame e b b'"
  by (simp_all add: bam_frame_def frame_refill)

lemma frame_get: "bam_frame e b (snd (get_bits width stage b))"
  unfolding get_bits_def by (rule bam_bind) (auto simp: bam_frame_def frame_peek)

lemma frame_peek_bits: "bam_frame e b (snd (peek_bits width stage b))"
  by (simp add: bam_frame_def frame_peek)

lemma frame_sync: "bam_frame e b (snd (frame_sync_loop width pattern msk limit skipped b))"
proof (induction width pattern msk limit skipped b rule: frame_sync_loop.induct)
  case (1 width pattern msk limit skipped b)
  then show ?case
    by (subst frame_sync_loop.simps) (auto intro!: bam_bind frame_peek_bits frame_get)
qed

lemma frame_unary: "bam_frame e b (snd (unary_loop polarity limit run b))"
proof (induction polarity limit run b rule: unary_loop.induct)
  case (1 polarity limit run b)
  then show ?case by (subst unary_loop.simps) (auto intro!: bam_bind frame_get)
qed

lemma frame_rice: "bam_frame e b (snd (rice_quotient q b))"
proof (induction q b rule: rice_quotient.induct)
  case (1 q b)
  then show ?case by (subst rice_quotient.simps) (auto intro!: bam_bind frame_get)
qed

lemma frame_huff: "bam_frame e b (snd (huff_match max_length code previous ws b))"
  by (induction max_length code previous ws b rule: huff_match.induct)
    (auto simp: Let_def intro!: bam_bind frame_peek_bits)

lemma frame_on_memory:
  "mem_frame e (bam_memory b) (snd (f (bam_memory b))) \<Longrightarrow> bam_frame e b (snd (on_memory f b))"
  by (cases "f (bam_memory b)") (simp add: on_memory_def bam_frame_def)

lemma frame_bitstream: "bam_frame e b (snd (execute_bitstream i registers b))"
  unfolding execute_bitstream_def execute_frame_sync_def Let_def
  by (auto intro!: bam_bind frame_get frame_peek_bits frame_sync)

lemma frame_entropy: "bam_frame e b (snd (execute_entropy i registers e b))"
  unfolding execute_entropy_def execute_huffman_def execute_rice_def execute_sign_restore_def Let_def
  by (auto intro!: bam_bind frame_get frame_huff frame_unary frame_rice simp: split_beta)

lemma frame_local: "bam_frame e b (snd (execute_local i registers e b))"
  unfolding execute_local_def execute_load_store_def execute_table_def execute_fifo_pop_def
    execute_fifo_push_def Let_def
  by (auto intro!: bam_bind frame_on_memory frame_write_s32 simp: split_beta lift_s_Inr)

lemma frame_kernel_resample: "bam_frame e b (snd (kernel_resample aux count input_at par_at output_at e b))"
  unfolding kernel_resample_def Let_def
  by (rule bam_bind) (auto intro!: frame_on_memory frame_resample_body split: option.splits)

lemmas frame_kernels = frame_kernel_requant frame_kernel_stereo frame_kernel_imdct
  frame_kernel_dct32 frame_kernel_fixed frame_kernel_lpc frame_kernel_pcm_pack

lemma frame_kernel: "bam_frame e b (snd (execute_kernel i registers e b))"
proof -
  have "bam_frame e b (snd (run_kernel opc aux count input_at par_at output_at e b))" for opc aux count input_at par_at output_at b
    unfolding run_kernel_def
    by (simp add: frame_on_memory frame_kernels frame_kernel_resample)
  then show ?thesis
    unfolding execute_kernel_def by (auto intro!: bam_bind simp: split_beta)
qed

lemma frame_execute: "bam_frame e b (snd (execute_primitive i registers e b))"
  by (simp add: execute_primitive_def frame_bitstream frame_entropy frame_local frame_kernel)

text \<open>C16: whatever a primitive does, and also when it faults half way, it changes only bytes inside
  the scratch range of its entry and above the published table, keeps the table's extent and
  validity, and never makes an initialised word uninitialised.\<close>

theorem primitive_memory_isolation:
  "let m = bam_memory b; m' = bam_memory (snd (execute_primitive i registers e b)) in
   {a. mem_data m' a \<noteq> mem_data m a} \<subseteq>
     {max (mem_table_bytes m) (scratch_base e)..<scratch_base e + scratch_bytes e} \<inter> {0..<LOCAL_DATA_BYTES} \<and>
   mem_table_bytes m' = mem_table_bytes m \<and> image_valid m' = image_valid m \<and>
   {w. valid_words m w} \<subseteq> {w. valid_words m' w}"
  using frame_execute [of e b i registers] by (auto simp: Let_def bam_frame_def mem_frame_def)

section \<open>The bit reader\<close>

lemma shift_in_bit: "x \<in> {0, 1} \<Longrightarrow> shl v 1 OR x = 2 * v + (x :: int)"
  using or_shift_add(2) [of x 1 v] by auto

lemma horner_start: "foldl (\<lambda>v x. 2 * v + x) (a :: int) bs = a * 2 ^ length bs + foldl (\<lambda>v x. 2 * v + x) 0 bs"
proof (induction bs arbitrary: a)
  case (Cons x bs)
  from Cons.IH [of "2 * a + x"] Cons.IH [of x] show ?case by (simp add: algebra_simps)
qed simp

lemma bits_value_horner: "set bs \<subseteq> {0, 1} \<Longrightarrow> bits_value bs = foldl (\<lambda>v x. 2 * v + x) 0 bs"
  unfolding bits_value_def by (intro foldl_cong refl shift_in_bit) blast

lemma bits_value_append:
  assumes "set xs \<union> set ys \<subseteq> {0, 1}"
  shows "bits_value (xs @ ys) = bits_value xs * 2 ^ length ys + bits_value ys"
proof -
  have "set (xs @ ys) \<subseteq> {0, 1}" "set xs \<subseteq> {0, 1}" "set ys \<subseteq> {0, 1}" using assms by auto
  then show ?thesis
    using horner_start [of "foldl (\<lambda>v x. 2 * v + x) 0 xs" ys] by (simp add: bits_value_horner)
qed

lemma bits_value_single: "x \<in> {0, 1} \<Longrightarrow> bits_value [x] = x"
  by (auto simp: bits_value_def)

lemma bits_value_Cons: "x \<in> {0, 1} \<Longrightarrow> set xs \<subseteq> {0, 1} \<Longrightarrow> bits_value (x # xs) = x * 2 ^ length xs + bits_value xs"
  using bits_value_append [of "[x]" xs] bits_value_single [of x] by auto

text \<open>The bits of a number, most significant first.\<close>

fun value_bits :: "nat \<Rightarrow> int \<Rightarrow> int list" where
  "value_bits 0 v = []"
| "value_bits (Suc n) v = value_bits n (v div 2) @ [v mod 2]"

lemma value_bits_shape [simp]: "length (value_bits n v) = n" "set (value_bits n v) \<subseteq> {0, 1}"
  by (induction n arbitrary: v) auto

lemma bits_value_bits: "0 \<le> v \<Longrightarrow> v < 2 ^ n \<Longrightarrow> bits_value (value_bits n v) = v"
proof (induction n arbitrary: v)
  case (Suc n)
  then have "v div 2 < 2 ^ n" by simp
  with Suc have "bits_value (value_bits n (v div 2)) = v div 2" by simp
  moreover have "bits_value (value_bits n (v div 2) @ [v mod 2]) =
      bits_value (value_bits n (v div 2)) * 2 + v mod 2"
    using bits_value_append [of "value_bits n (v div 2)" "[v mod 2]"] value_bits_shape(2) [of n "v div 2"]
      bits_value_single [of "v mod 2"] by (auto simp: mod2_eq_if)
  ultimately show ?case by simp
qed (simp add: bits_value_def)

text \<open>The interface of a bit source: reading a width takes that many bits off the front of a stream
  and returns them as a number, most significant bit first; a short stream raises and is not
  consumed.\<close>

locale bit_source =
  fixes take_bits :: "int \<Rightarrow> 's \<Rightarrow> ('e + int) \<times> 's" and stream :: "'s \<Rightarrow> int list" and inv :: "'s \<Rightarrow> bool"
  assumes take_ok: "inv s \<Longrightarrow> 0 \<le> w \<Longrightarrow> w \<le> int (length (stream s)) \<Longrightarrow>
      \<exists>t. take_bits w s = (Inr (bits_value (take (nat w) (stream s))), t) \<and>
        stream t = drop (nat w) (stream s) \<and> inv t"
    and take_short: "inv s \<Longrightarrow> int (length (stream s)) < w \<Longrightarrow>
      \<exists>err t. take_bits w s = (Inl err, t) \<and> stream t = stream s \<and> inv t"
    and stream_bits: "inv s \<Longrightarrow> set (stream s) \<subseteq> {0, 1}"
begin

lemma take_prefix:
  assumes "inv s" "stream s = bs @ rest"
  obtains t where "take_bits (int (length bs)) s = (Inr (bits_value bs), t)" "stream t = rest" "inv t"
  using take_ok [of s "int (length bs)"] assms by auto

lemma take_bit:
  assumes "inv s" "stream s = x # rest"
  obtains t where "take_bits 1 s = (Inr x, t)" "stream t = rest" "inv t"
  using take_prefix [of s "[x]" rest] assms stream_bits [of s] bits_value_single [of x] by auto

lemma take_number:
  assumes "inv s" "stream s = value_bits n v @ rest" "0 \<le> v" "v < 2 ^ n"
  obtains t where "take_bits (int n) s = (Inr v, t)" "stream t = rest" "inv t"
  using take_prefix [OF assms(1,2)] bits_value_bits [OF assms(3,4)] by auto

text \<open>Two reads are one read of the sum of their widths.\<close>

lemma take_take:
  assumes "inv s" "0 \<le> w" "0 \<le> v" "w + v \<le> int (length (stream s))"
  shows "\<exists>x y t u z. take_bits w s = (Inr x, t) \<and> take_bits v t = (Inr y, u) \<and>
    take_bits (w + v) s = (Inr (x * 2 ^ nat v + y), z) \<and> stream z = stream u"
proof -
  let ?xs = "take (nat w) (stream s)" and ?ys = "take (nat v) (drop (nat w) (stream s))"
  have parts: "take (nat (w + v)) (stream s) = ?xs @ ?ys"
    using assms(2,3) by (simp add: nat_add_distrib take_add)
  have "set ?xs \<union> set ?ys \<subseteq> {0, 1}"
    using stream_bits [OF assms(1)] by (meson Un_least order_trans set_drop_subset set_take_subset)
  from bits_value_append [OF this] assms(2-4)
  have val: "bits_value (?xs @ ?ys) = bits_value ?xs * 2 ^ nat v + bits_value ?ys"
    by (simp add: nat_le_iff min_absorb2)
  obtain t where t: "take_bits w s = (Inr (bits_value ?xs), t)" "stream t = drop (nat w) (stream s)" "inv t"
    using take_ok [of s w] assms by auto
  obtain u where u: "take_bits v t = (Inr (bits_value ?ys), u)" "stream u = drop (nat v) (drop (nat w) (stream s))"
    using take_ok [of t v] t assms by auto
  obtain z where z: "take_bits (w + v) s = (Inr (bits_value (?xs @ ?ys)), z)"
    "stream z = drop (nat (w + v)) (stream s)"
    using take_ok [of s "w + v"] assms parts by auto
  have "stream z = stream u" using z(2) u(2) assms(2,3) by (simp add: nat_add_distrib add.commute)
  with t(1) u(1) z(1) val show ?thesis by auto
qed

end

text \<open>The stream of the primitive state: the buffered bits, then the words of the FIFO.\<close>

definition bam_stream :: "prim_bam \<Rightarrow> int list" where
  "bam_stream b = bam_bits b @ concat (map word_bits (input_fifo b))"

definition bam_bits_ok :: "prim_bam \<Rightarrow> bool" where
  "bam_bits_ok b \<longleftrightarrow> set (bam_bits b) \<subseteq> {0, 1}"

lemma word_bits_binary: "set (word_bits w) \<subseteq> {0, 1}"
  by (auto simp: word_bits_def byte_bits_def bit_arith)

lemma refill_loop_stream:
  assumes "refill_loop width fifo bits eof = (fifo', bits', eof')"
  shows "bits' @ concat (map word_bits fifo') = bits @ concat (map word_bits fifo) \<and>
    (int (length bits') < width \<longrightarrow> fifo' = []) \<and> (set bits \<subseteq> {0, 1} \<longrightarrow> set bits' \<subseteq> {0, 1})"
  using assms
proof (induction width fifo bits eof rule: refill_loop.induct)
  case (2 width word fifo bits eof)
  then show ?case using word_bits_binary [of word] by (auto split: if_splits)
qed simp

lemma refill_stream:
  shows "bam_stream (refill width b) = bam_stream b"
    and "int (length (bam_bits (refill width b))) < width \<Longrightarrow> input_fifo (refill width b) = []"
    and "bam_bits_ok b \<Longrightarrow> bam_bits_ok (refill width b)"
proof -
  obtain f bs x where r: "refill_loop width (input_fifo b) (bam_bits b) (bam_eof b) = (f, bs, x)"
    by (metis prod_cases3)
  from refill_loop_stream [OF r] show "bam_stream (refill width b) = bam_stream b"
    and "int (length (bam_bits (refill width b))) < width \<Longrightarrow> input_fifo (refill width b) = []"
    and "bam_bits_ok b \<Longrightarrow> bam_bits_ok (refill width b)"
    by (simp_all add: refill_def r bam_stream_def bam_bits_ok_def)
qed

lemma peek_bits_stream:
  assumes "0 \<le> w"
  shows "peek_bits w stage b =
    (if w \<le> int (length (bam_stream b)) then Inr (bits_value (take (nat w) (bam_stream b)))
     else Inl (PrimitiveFault 5 stage 9), refill w b)"
proof (cases "int (length (bam_bits (refill w b))) < w")
  case True
  then have "bam_stream b = bam_bits (refill w b)"
    using refill_stream(1,2) [of w b] by (simp add: bam_stream_def)
  with True show ?thesis by (simp add: peek_bits_def Let_def)
next
  case False
  have s: "bam_stream b = bam_bits (refill w b) @ concat (map word_bits (input_fifo (refill w b)))"
    using refill_stream(1) [of w b] by (simp add: bam_stream_def)
  have "nat w \<le> length (bam_bits (refill w b))" using False by simp
  with False assms show ?thesis by (simp add: peek_bits_def s Let_def)
qed

lemma get_bits_stream:
  assumes "bam_bits_ok b" "0 \<le> w"
  shows "w \<le> int (length (bam_stream b)) \<Longrightarrow>
      \<exists>t. get_bits w stage b = (Inr (bits_value (take (nat w) (bam_stream b))), t) \<and>
        bam_stream t = drop (nat w) (bam_stream b) \<and> bam_bits_ok t"
    and "int (length (bam_stream b)) < w \<Longrightarrow>
      \<exists>t. get_bits w stage b = (Inl (PrimitiveFault 5 stage 9), t) \<and> bam_stream t = bam_stream b \<and> bam_bits_ok t"
proof -
  note ok = refill_stream(3) [OF assms(1), of w]
  show "\<exists>t. get_bits w stage b = (Inl (PrimitiveFault 5 stage 9), t) \<and> bam_stream t = bam_stream b \<and> bam_bits_ok t"
    if "int (length (bam_stream b)) < w"
    using that ok by (simp add: get_bits_def peek_bits_stream assms(2) refill_stream(1))
  show "\<exists>t. get_bits w stage b = (Inr (bits_value (take (nat w) (bam_stream b))), t) \<and>
        bam_stream t = drop (nat w) (bam_stream b) \<and> bam_bits_ok t"
    if w: "w \<le> int (length (bam_stream b))"
  proof -
    let ?r = "refill w b"
    have s: "bam_stream b = bam_bits ?r @ concat (map word_bits (input_fifo ?r))"
      using refill_stream(1) [of w b] by (simp add: bam_stream_def)
    have n: "nat w \<le> length (bam_bits ?r)"
    proof (rule ccontr)
      assume "\<not> nat w \<le> length (bam_bits ?r)"
      then have l: "int (length (bam_bits ?r)) < w" by linarith
      with refill_stream(2) s have "bam_stream b = bam_bits ?r" by simp
      with l w show False by simp
    qed
    have "set (drop (nat w) (bam_bits ?r)) \<subseteq> {0, 1}"
      using ok set_drop_subset unfolding bam_bits_ok_def by fastforce
    with w n show ?thesis
      by (simp add: get_bits_def peek_bits_stream assms(2))
        (simp add: s, simp add: bam_stream_def bam_bits_ok_def)
  qed
qed

interpretation bam_source: bit_source "\<lambda>w. get_bits w stage" bam_stream bam_bits_ok for stage
proof
  fix s :: prim_bam and w :: int
  assume s: "bam_bits_ok s"
  show "\<exists>t. get_bits w stage s = (Inr (bits_value (take (nat w) (bam_stream s))), t) \<and>
      bam_stream t = drop (nat w) (bam_stream s) \<and> bam_bits_ok t"
    if "0 \<le> w" "w \<le> int (length (bam_stream s))"
    by (rule get_bits_stream(1) [OF s that])
  show "\<exists>err t. get_bits w stage s = (Inl err, t) \<and> bam_stream t = bam_stream s \<and> bam_bits_ok t"
    if "int (length (bam_stream s)) < w"
    using get_bits_stream(2) [OF s _ that, of stage] that by fastforce
  show "set (bam_stream s) \<subseteq> {0, 1}"
    using s word_bits_binary by (fastforce simp: bam_stream_def bam_bits_ok_def)
qed

text \<open>C17: the bit reader refines a plain list of bits. The list is what is buffered followed by what
  the FIFO words hold, most significant bit of each byte first; reading returns the number in front
  and removes it, refilling only moves the boundary, and a read past the end faults without
  losing a bit.\<close>

theorem get_bits_refines_stream:
  assumes "bam_bits_ok b" "0 \<le> w"
  shows "case get_bits w stage b of (r, t) \<Rightarrow> bam_bits_ok t \<and>
    (if w \<le> int (length (bam_stream b))
     then r = Inr (bits_value (take (nat w) (bam_stream b))) \<and> bam_stream t = drop (nat w) (bam_stream b)
     else r = Inl (PrimitiveFault 5 stage 9) \<and> bam_stream t = bam_stream b)"
  using get_bits_stream [OF assms, of stage] by (cases "w \<le> int (length (bam_stream b))") auto

section \<open>Rice codes\<close>

definition zigzag :: "int \<Rightarrow> int" where
  "zigzag v = (if v \<ge> 0 then 2 * v else - 2 * v - 1)"

definition rice_code :: "nat \<Rightarrow> int \<Rightarrow> int list" where
  "rice_code k v =
     replicate (nat (zigzag v div 2 ^ k)) 0 @ [1] @ value_bits k (zigzag v mod 2 ^ k)"

lemma zigzag_nonneg: "0 \<le> zigzag v"
  by (simp add: zigzag_def)

lemma rice_value_zigzag: "rice_value (zigzag v) = v mod 4294967296"
proof (cases "v \<ge> 0")
  case True
  then show ?thesis by (simp add: rice_value_def zigzag_def to_u32_def bit_arith)
next
  case False
  then have "zigzag v = 2 * (- v - 1) + 1" by (simp add: zigzag_def)
  then have "shr (zigzag v) 1 = - v - 1" "zigzag v AND 1 = 1"
    unfolding bit_arith by (simp, presburger)
  moreover have "(- v - 1) XOR - 1 = v" by (simp add: bit.xor_one_right not_int_def)
  ultimately show ?thesis by (simp add: rice_value_def to_u32_def bit_arith)
qed

lemma rice_quotient_stream:
  assumes "bam_bits_ok b" "bam_stream b = replicate n 0 @ 1 # rest" "q + int n \<le> 65535"
  shows "\<exists>t. rice_quotient q b = (Inr (q + int n), t) \<and> bam_stream t = rest \<and> bam_bits_ok t"
  using assms
proof (induction n arbitrary: q b)
  case 0
  then obtain t where "get_bits 1 5 b = (Inr 1, t)" "bam_stream t = rest" "bam_bits_ok t"
    using bam_source.take_bit [of b 1 rest 5] by auto
  then show ?case by (subst rice_quotient.simps) simp
next
  case (Suc n)
  then obtain t where t: "get_bits 1 5 b = (Inr 0, t)" "bam_stream t = replicate n 0 @ 1 # rest" "bam_bits_ok t"
    using bam_source.take_bit [of b 0 "replicate n 0 @ 1 # rest" 5] by auto
  with Suc.IH [of t "q + 1"] Suc.prems(3) show ?case by (subst rice_quotient.simps) (auto simp: add.assoc)
qed

text \<open>C18: Rice decoding inverts Rice encoding: a \<open>RICE4\<close> or \<open>RICE5\<close> instruction whose parameter is
  not the escape, on a stream that starts with the code of \<open>v\<close>, writes the two's complement of \<open>v\<close> and
  consumes exactly the code.\<close>

theorem rice_roundtrip:
  assumes "mc_class i = CLS_ENTROPY" "mc_opcode i \<in> {4, 5}"
    and "reg_read registers (mc_src0 i) = Inr r0"
    and "r0 AND (shl 1 (mc_opcode i) - 1) = int k" "int k < shl 1 (mc_opcode i) - 1"
    and "zigzag v div 2 ^ k \<le> 65535"
    and "bam_bits_ok b" "bam_stream b = rice_code k v @ rest"
  shows "\<exists>b'. execute_primitive i registers e b =
      (Inr (prim_ok [(mc_dst i, v mod 2 ^ 32)] (4 + zigzag v div 2 ^ k + int k)), b') \<and>
    bam_stream b' = rest \<and> bam_bits_ok b'"
proof -
  let ?q = "zigzag v div 2 ^ k" and ?r = "zigzag v mod 2 ^ k"
  have q: "0 \<le> ?q" "int (nat ?q) = ?q" using zigzag_nonneg [of v] by (simp_all add: pos_imp_zdiv_nonneg_iff)
  have r: "0 \<le> ?r" "?r < 2 ^ k" by simp_all
  from assms(8) have "bam_stream b = replicate (nat ?q) 0 @ 1 # (value_bits k ?r @ rest)"
    by (simp add: rice_code_def)
  then obtain t where t: "rice_quotient 0 b = (Inr ?q, t)" "bam_stream t = value_bits k ?r @ rest" "bam_bits_ok t"
    using rice_quotient_stream [OF assms(7), of "nat ?q" "value_bits k ?r @ rest" 0] assms(6) q by auto
  obtain u where u: "get_bits (int k) 5 t = (Inr ?r, u)" "bam_stream u = rest" "bam_bits_ok u"
    by (rule bam_source.take_number [OF t(3,2) r])
  have step: "(if int k \<noteq> 0 then get_bits (int k) 5 t else (Inr 0, t)) = (Inr ?r, if k = 0 then t else u)"
    using u by simp
  have "shl ?q (int k) OR ?r = zigzag v"
    using or_shift_add(2) [OF r, of ?q] by (simp only: nat_int div_mult_mod_eq)
  then have val: "rice_value (shl ?q (int k) OR ?r) = v mod 2 ^ 32"
    by (simp add: rice_value_zigzag)
  have w: "(if mc_opcode i = 4 then 4 else 5) = mc_opcode i" using assms(2) by auto
  have esc: "int k \<noteq> (if mc_opcode i = 4 then 15 else 31)" using assms(2,5) by auto
  have "execute_rice i registers b =
      (Inr (prim_ok [(mc_dst i, v mod 2 ^ 32)] (4 + ?q + int k)), if k = 0 then t else u)"
    unfolding execute_rice_def Let_def w assms(3,4) lift_s_def bind_s_simps step val t
    using esc by (simp add: t(1) u(1) val [simplified])
  moreover have "execute_primitive i registers e b = execute_rice i registers b"
    using assms(1,2) by (auto simp: execute_primitive_def execute_entropy_def enum_opcode_def lift_s_def)
  moreover have "bam_stream (if k = 0 then t else u) = rest" using t(2) u(2) by simp
  ultimately show ?thesis using t(3) u(3) by auto
qed

section \<open>Canonical Huffman codes\<close>

definition huff_len :: "int \<Rightarrow> int" where
  "huff_len w = shr w 16 AND 31"

text \<open>The code words a table stands for: symbol, length and code of each entry.\<close>

fun huff_codes :: "int \<Rightarrow> int \<Rightarrow> int list \<Rightarrow> (int \<times> int \<times> int) list" where
  "huff_codes code previous [] = []"
| "huff_codes code previous (w # ws) =
     (let code' = code * 2 ^ nat (huff_len w - previous) in
      (w AND 65535, huff_len w, code') # huff_codes (code' + 1) (huff_len w) ws)"

fun huff_table_ok :: "int \<Rightarrow> int \<Rightarrow> int list \<Rightarrow> bool" where
  "huff_table_ok max_length previous [] = True"
| "huff_table_ok max_length previous (w # ws) =
     (previous \<le> huff_len w \<and> huff_len w \<le> max_length \<and> shr w 21 = 0 \<and>
      huff_table_ok max_length (huff_len w) ws)"

text \<open>Later codes, cut to the length of an earlier one, are strictly greater: no code is a prefix of
  a later one.\<close>

lemma huff_codes_above:
  assumes "(symbol, len, c) \<in> set (huff_codes code previous ws)" "huff_table_ok max_length previous ws" "0 \<le> code"
  shows "previous \<le> len \<and> code * 2 ^ nat (len - previous) \<le> c"
  using assms
proof (induction code previous ws rule: huff_codes.induct)
  case (2 code previous w ws)
  let ?l = "huff_len w" and ?c = "code * 2 ^ nat (huff_len w - previous)"
  from 2(3) have ok: "previous \<le> ?l" "huff_table_ok max_length ?l ws" by simp_all
  show ?case
  proof (cases "(symbol, len, c) = (w AND 65535, ?l, ?c)")
    case True
    with ok show ?thesis by simp
  next
    case False
    with 2(2) have "(symbol, len, c) \<in> set (huff_codes (?c + 1) ?l ws)" by (auto simp: Let_def)
    with 2(1) [OF refl _ ok(2)] 2(4) have ih: "?l \<le> len" "(?c + 1) * 2 ^ nat (len - ?l) \<le> c" by auto
    have "nat (len - previous) = nat (?l - previous) + nat (len - ?l)" using ok(1) ih(1) by simp
    then have "code * 2 ^ nat (len - previous) = ?c * 2 ^ nat (len - ?l)" by (simp add: power_add)
    also have "\<dots> \<le> (?c + 1) * 2 ^ nat (len - ?l)" by (simp add: distrib_right)
    finally show ?thesis using ih ok(1) by simp
  qed
qed simp

lemma value_bits_take: "n \<le> m \<Longrightarrow> take n (value_bits m v) = value_bits n (v div 2 ^ (m - n))"
proof (induction m arbitrary: v)
  case (Suc m)
  show ?case
  proof (cases "n = Suc m")
    case False
    with Suc have "n \<le> m" by simp
    then have "2 * 2 ^ (m - n) = (2 :: int) ^ (Suc m - n)" by (simp add: Suc_diff_le)
    moreover have "v div 2 div 2 ^ (m - n) = v div (2 * 2 ^ (m - n))"
      by (rule div_mult2_eq' [symmetric, where 'a = int, of v 2 "2 ^ (m - n)", simplified])
    ultimately show ?thesis using Suc \<open>n \<le> m\<close> by simp
  qed simp
qed simp

lemma huff_len_range: "0 \<le> huff_len w" "huff_len w < 32"
  by (simp_all add: huff_len_def bit_arith)

lemma int_div_less:
  fixes c a k :: int
  assumes "0 < k" "c < a * k"
  shows "c div k < a"
proof (rule ccontr)
  assume "\<not> c div k < a"
  then have "a * k \<le> c div k * k" using assms(1) by (intro mult_right_mono) auto
  moreover have "c div k * k \<le> c"
    using pos_mod_sign [OF assms(1), of c] minus_mod_eq_div_mult [of c k] by linarith
  ultimately show False using assms(2) by linarith
qed

lemma int_le_div:
  fixes c a k :: int
  assumes "0 < k" "a * k \<le> c"
  shows "a \<le> c div k"
  using zdiv_mono1 [OF assms(2,1)] assms(1) by simp

lemma length_huff_codes [simp]: "length (huff_codes code previous ws) = length ws"
  by (induction code previous ws rule: huff_codes.induct) (auto simp: Let_def)

lemma peek_code:
  assumes "bam_stream b = value_bits (nat m) c @ rest" "0 \<le> n" "n \<le> m" "0 \<le> c" "c < 2 ^ nat m"
  shows "peek_bits n stage b = (Inr (c div 2 ^ nat (m - n)), refill n b)"
proof -
  have le: "nat n \<le> nat m" "nat m - nat n = nat (m - n)" using assms(2,3) by simp_all
  have "c div 2 ^ nat (m - n) < 2 ^ nat n"
  proof -
    have "2 ^ nat m = (2 :: int) ^ nat n * 2 ^ nat (m - n)"
      using le by (metis le_add_diff_inverse power_add)
    then show ?thesis using assms(5) by (intro int_div_less) simp_all
  qed
  moreover have "0 \<le> c div 2 ^ nat (m - n)" using assms(4) by (simp add: pos_imp_zdiv_nonneg_iff)
  ultimately have "bits_value (take (nat n) (bam_stream b)) = c div 2 ^ nat (m - n)"
    using le assms(1) by (simp add: value_bits_take bits_value_bits)
  with assms show ?thesis by (simp add: peek_bits_stream nat_le_iff)
qed

lemma huff_match_code:
  assumes "huff_table_ok max_length previous ws" "0 \<le> code" "0 \<le> previous"
    and "j < length ws" "huff_codes code previous ws ! j = (symbol, len, c)" "c < 2 ^ nat len"
    and "bam_bits_ok b" "bam_stream b = value_bits (nat len) c @ rest"
  shows "\<exists>t. huff_match max_length code previous ws b = (Inr (symbol, len), t) \<and>
    bam_stream t = bam_stream b \<and> bam_bits_ok t"
  using assms
proof (induction ws arbitrary: code previous j b)
  case (Cons w ws)
  let ?l = "huff_len w" and ?c = "code * 2 ^ nat (huff_len w - previous)"
  have ok: "previous \<le> ?l" "?l \<le> max_length" "shr w 21 = 0" "huff_table_ok max_length ?l ws"
    using Cons.prems(1) by simp_all
  have head: "peek_bits ?l 5 b = (Inr (c div 2 ^ nat (len - ?l)), refill ?l b)" if "?l \<le> len" "0 \<le> c"
    using Cons.prems(6,8) that huff_len_range by (intro peek_code) auto
  have unfold: "huff_match max_length code previous (w # ws) b =
      bind_s (peek_bits ?l 5 b) (\<lambda>v b.
        if v = ?c then (Inr (w AND 65535, ?l), b) else huff_match max_length (?c + 1) ?l ws b)"
    unfolding huff_match.simps Let_def huff_len_def [symmetric] push_bit_eq_mult using ok by simp
  note r = refill_stream(1) [of ?l b] refill_stream(3) [OF Cons.prems(7), of ?l]
  show ?case
  proof (cases j)
    case 0
    with Cons.prems(5) have "symbol = w AND 65535" "len = ?l" "c = ?c" by (auto simp: Let_def)
    with head unfold r Cons.prems(2) show ?thesis by simp
  next
    case (Suc k)
    with Cons.prems(4,5) have k: "k < length ws" "huff_codes (?c + 1) ?l ws ! k = (symbol, len, c)"
      by (simp_all add: Let_def)
    then have "(symbol, len, c) \<in> set (huff_codes (?c + 1) ?l ws)"
      by (metis length_huff_codes nth_mem)
    from huff_codes_above [OF this ok(4)] Cons.prems(2)
    have above: "?l \<le> len" "(?c + 1) * 2 ^ nat (len - ?l) \<le> c" by auto
    have "?c + 1 \<le> c div 2 ^ nat (len - ?l)" using above(2) by (intro int_le_div) simp_all
    moreover have "0 \<le> (?c + 1) * 2 ^ nat (len - ?l)" using Cons.prems(2) by simp
    then have "0 \<le> c" using above(2) by (rule order_trans)
    ultimately have "huff_match max_length code previous (w # ws) b =
        huff_match max_length (?c + 1) ?l ws (refill ?l b)"
      using unfold head [OF above(1)] by simp
    moreover have "\<exists>t. huff_match max_length (?c + 1) ?l ws (refill ?l b) = (Inr (symbol, len), t) \<and>
        bam_stream t = bam_stream (refill ?l b) \<and> bam_bits_ok t"
      using Cons.prems(2,6,8) huff_len_range r by (intro Cons.IH [OF ok(4) _ _ k]) auto
    ultimately show ?thesis using r by simp
  qed
qed simp

text \<open>C19: Huffman decoding inverts the canonical code of its table: with a table of non-decreasing
  code lengths and a stream that starts with the code of entry \<open>j\<close>, \<open>HUFF_SYMBOL\<close> writes the symbol
  of that entry and consumes exactly its code, whatever follows.\<close>

theorem huffman_roundtrip:
  assumes "mc_class i = CLS_ENTROPY" "mc_opcode i = 0"
    and "reg_read registers (mc_src0 i) = Inr r0" "reg_read registers (mc_src1 i) = Inr (int (length ws))"
    and "map_r (\<lambda>k. read_u32 (table_offset e + r0 + k * 4) e True (bam_memory b)) (py_range 0 (int (length ws))) = Inr ws"
    and "length ws \<le> 4096" "huff_table_ok (mc_aux i) 0 ws"
    and "j < length ws" "huff_codes 0 0 ws ! j = (symbol, len, c)" "c < 2 ^ nat len"
    and "bam_bits_ok b" "bam_stream b = value_bits (nat len) c @ rest"
  shows "\<exists>b'. execute_primitive i registers e b =
      (Inr (prim_ok [(mc_dst i, symbol)] (26 + int (length ws))), b') \<and> bam_stream b' = rest \<and> bam_bits_ok b'"
proof -
  obtain t where t: "huff_match (mc_aux i) 0 0 ws b = (Inr (symbol, len), t)"
    "bam_stream t = bam_stream b" "bam_bits_ok t"
    using huff_match_code [OF assms(7) _ _ assms(8-12)] by auto
  have "(symbol, len, c) \<in> set (huff_codes 0 0 ws)"
    using assms(8,9) by (metis length_huff_codes nth_mem)
  from huff_codes_above [OF this assms(7)] have lc: "0 \<le> len" "0 \<le> c" by simp_all
  then obtain u where u: "get_bits len 5 t = (Inr c, u)" "bam_stream u = rest" "bam_bits_ok u"
    using bam_source.take_number [OF t(3) _ lc(2) assms(10), of rest 5] t(2) assms(12) by auto
  have "1 \<le> int (length ws) \<and> int (length ws) \<le> 4096" using assms(6,8) by auto
  then have "execute_huffman i registers e b = (Inr (prim_ok [(mc_dst i, symbol)] (26 + int (length ws))), u)"
    unfolding execute_huffman_def assms(2-5) lift_s_def bind_s_simps
    using t(1) u(1) assms(5) by (simp add: huff_writes_def)
  moreover have "execute_primitive i registers e b = execute_huffman i registers e b"
    using assms(1,2) by (simp add: execute_primitive_def execute_entropy_def enum_opcode_def lift_s_def)
  ultimately show ?thesis using u(2,3) by simp
qed

section \<open>Stores and loads\<close>

lemma mark_valid_fold:
  assumes "fold_s
       (\<lambda>_ index m.
          if index \<ge> VALID_WORDS then (Inl (PyError ApuIndexError), m)
          else (Inr (), m\<lparr>valid_words := (valid_words m)(index := True)\<rparr>)) u idxs m = (Inr u', m')"
  shows "mem_data m' = mem_data m \<and> (\<forall>w \<in> set idxs. w < VALID_WORDS) \<and>
    mem_table_bytes m' = mem_table_bytes m \<and> image_valid m' = image_valid m \<and>
    (\<forall>w. valid_words m' w \<longleftrightarrow> valid_words m w \<or> w \<in> set idxs)"
  using assms
proof (induction idxs arbitrary: m u)
  case (Cons i idxs)
  from Cons.prems have "i < VALID_WORDS" by (auto split: if_splits)
  with Cons.prems Cons.IH [of "()" "m\<lparr>valid_words := (valid_words m)(i := True)\<rparr>"] show ?case by auto
qed simp

lemmas mark_valid_ok = mark_valid_fold [of "()", folded mark_valid_def]

lemma mem_slice_assign:
  "mem_slice (slice_assign address payload d) address (int (length payload)) = payload"
  by (rule nth_equalityI) (simp_all add: mem_slice_def slice_assign_def py_range_def)

lemma mem_write_read:
  assumes "mem_write address payload e m = (Inr u, m')"
  shows "mem_read address (int (length payload)) e False m' = Inr payload"
proof -
  let ?n = "int (length payload)"
  from assms have c: "check_range address ?n e False m = Inr ()"
    and m: "mark_valid address ?n (m\<lparr>mem_data := slice_assign address payload (mem_data m)\<rparr>) = (Inr (), m')"
    by (auto simp: mem_write_def Let_def bind_s_Inr lift_s_Inr split: if_splits)
  from m [unfolded mark_valid_def, THEN mark_valid_fold]
  have f: "mem_data m' = slice_assign address payload (mem_data m)"
    "\<forall>w \<in> set (py_range (address div 4) ((address + ?n - 1) div 4 + 1)). w < VALID_WORDS \<and> valid_words m' w"
    by auto
  have "check_range address ?n e False m' = Inr ()" using c by (simp add: check_range_Inr)
  moreover have "first_error (map (word_check m') (py_range (address div 4) ((address + ?n - 1) div 4 + 1))) = Inr ()"
    using f(2) unfolding first_error_Inr by (auto simp: word_check_def raise_if_Inr)
  ultimately show ?thesis by (simp add: mem_read_def f(1) mem_slice_assign)
qed

text \<open>A load returns what the store before it wrote: after a \<open>ST32\<close> that did not fault, \<open>LD32\<close>
  with the same base and offset returns the stored register as an unsigned 32-bit value and changes
  nothing.\<close>

theorem store_load_roundtrip:
  assumes "mc_class st = CLS_LOCAL" "mc_opcode st = 1" "mc_class ld = CLS_LOCAL" "mc_opcode ld = 0"
    and "mc_src0 ld = mc_src0 st" "mc_immediate ld = mc_immediate st"
    and "reg_read registers (mc_src1 st) = Inr v"
    and "execute_primitive st registers e b = (Inr p, b')"
  shows "execute_primitive ld registers e b' = (Inr (prim_ok [(mc_dst ld, v mod 2 ^ 32)] 2), b')"
proof -
  from assms(1,2,8) have "execute_load_store st registers e b = (Inr p, b')"
    by (simp add: execute_primitive_def execute_local_def enum_opcode_def lift_s_def)
  then obtain r0 where r0: "reg_read registers (mc_src0 st) = Inr r0"
    and al: "scratch_base e + r0 + bam_signed (mc_immediate st) 16 AND 3 = 0"
    and w: "on_memory (write_s32 (scratch_base e + r0 + bam_signed (mc_immediate st) 16) v e) b = (Inr (), b')"
    using assms(2,7) by (auto simp: execute_load_store_def Let_def bind_s_Inr lift_s_Inr split: if_splits)
  let ?a = "scratch_base e + r0 + bam_signed (mc_immediate st) 16"
  from w have "write_s32 ?a v e (bam_memory b) = (Inr (), bam_memory b')"
    by (auto simp: on_memory_def split: prod.splits)
  from mem_write_read [OF this [unfolded write_s32_def]]
  have "read_u32 ?a e False (bam_memory b') = Inr (to_u32 v)"
    by (simp add: read_u32_def le_int_le_bytes to_u32_def bit_arith)
  then have "execute_load_store ld registers e b' = (Inr (prim_ok [(mc_dst ld, to_u32 v)] 2), b')"
    using r0 al assms(4-6) by (simp add: execute_load_store_def lift_s_def)
  then show ?thesis
    using assms(3,4) by (simp add: execute_primitive_def execute_local_def enum_opcode_def lift_s_def to_u32_def bit_arith)
qed

section \<open>Stereo\<close>

text \<open>The three joint-stereo representations of FLAC.\<close>

definition stereo_encode :: "int \<Rightarrow> int \<Rightarrow> int \<Rightarrow> int \<times> int" where
  "stereo_encode mode left right =
     (if mode = 0 then (left, right)
      else if mode = 1 then (left, left - right)
      else if mode = 2 then (left - right, right)
      else ((left + right) div 2, left - right))"

text \<open>Decorrelation inverts every joint-stereo representation: independent, left and
  difference, difference and right, and middle and difference, where the bit the halved
  sum lost is taken from the difference.\<close>

theorem stereo_roundtrip:
  "stereo_pair mode (fst (stereo_encode mode l r)) (snd (stereo_encode mode l r)) = (l, r)"
proof -
  have "(l + r) div 2 * 2 + (l - r) mod 2 = l + r" by presburger
  then show ?thesis by (simp add: stereo_pair_def stereo_encode_def Let_def bit_arith)
qed

section \<open>The invariant of the primitive state\<close>

text \<open>A FIFO word: 32 data bits, a byte count from 1 to 4, reserved zeros and the last flag.\<close>

definition prim_word_ok :: "int \<Rightarrow> bool" where
  "prim_word_ok w \<longleftrightarrow>
     0 \<le> w \<and> w < 2 ^ 41 \<and> w AND shl 31 35 = 0 \<and> 1 \<le> shr w 32 AND 7 \<and> shr w 32 AND 7 \<le> 4"

definition prim_fifo_ok :: "int list \<Rightarrow> bool" where
  "prim_fifo_ok ws \<longleftrightarrow> length ws \<le> 64 \<and> list_all prim_word_ok ws"

definition prim_inv :: "prim_bam \<Rightarrow> bool" where
  "prim_inv b \<longleftrightarrow> bam_bits_ok b \<and> prim_fifo_ok (input_fifo b) \<and> prim_fifo_ok (output_fifo b) \<and>
     0 \<le> bit_position b \<and> bit_position b \<le> 7"

lemma pf_push_ok:
  assumes "pf_push word ws = Inr ws'" "prim_fifo_ok ws"
  shows "prim_fifo_ok ws'"
proof -
  let ?w = "word AND (2 ^ 41 - 1)"
  from assms(1) have p: "length ws \<noteq> 64" "word AND shl 31 35 = 0" "1 \<le> shr word 32 AND 7"
    "shr word 32 AND 7 \<le> 4" "ws' = ws @ [?w]"
    by (auto simp: pf_push_def pf_full_def split: if_splits)
  have "?w = word mod 2 ^ 41" by (rule int_and_mask)
  then have "0 \<le> ?w" "?w < 2 ^ 41" by simp_all
  moreover have "?w AND shl 31 35 = 0"
    using p(2) unfolding and_zero_iff bits_of_ops by blast
  moreover have "shr ?w 32 AND 7 = shr word 32 AND 7"
  proof (rule bit_eqI)
    fix n
    have "bit (7::int) n \<longleftrightarrow> n < 3" using bits_of_mask [of 3] by (auto simp: bits_of_def set_eq_iff)
    moreover have "bit ((2::int) ^ 41 - 1) (32 + n) \<longleftrightarrow> 32 + n < 41"
      using bits_of_mask [of 41] unfolding bits_of_def set_eq_iff by blast
    ultimately show "bit (shr ?w 32 AND 7) n \<longleftrightarrow> bit (shr word 32 AND 7) n"
      unfolding bit_and_iff bit_drop_bit_eq o_def by auto
  qed
  ultimately have "prim_word_ok ?w" using p(3,4) unfolding prim_word_ok_def by (simp only: simp_thms)
  with assms(2) p(1,5) show ?thesis by (simp add: prim_fifo_ok_def)
qed

lemma pf_pop_ok: "pf_pop ws = Inr (w, rest) \<Longrightarrow> prim_fifo_ok ws \<Longrightarrow> prim_word_ok w \<and> prim_fifo_ok rest"
  by (auto simp: pf_pop_def prim_fifo_ok_def split: list.splits)

lemma refill_loop_suffix:
  "refill_loop width fifo bits eof = (fifo', bits', eof') \<Longrightarrow> \<exists>n. fifo' = drop n fifo"
proof (induction width fifo bits eof rule: refill_loop.induct)
  case (2 width word fifo bits eof)
  show ?case
  proof (cases "int (length bits) < width")
    case True
    with 2 show ?thesis by simp (metis drop_Suc_Cons)
  next
    case False
    with 2(2) have "fifo' = drop 0 (word # fifo)" by simp
    then show ?thesis ..
  qed
qed simp

lemma prim_inv_refill:
  assumes "prim_inv b"
  shows "prim_inv (refill width b)"
proof -
  obtain f bs x where r: "refill_loop width (input_fifo b) (bam_bits b) (bam_eof b) = (f, bs, x)"
    by (metis prod_cases3)
  from refill_loop_suffix [OF r] obtain n where "f = drop n (input_fifo b)" ..
  then have "prim_fifo_ok f"
    using assms by (auto simp: prim_inv_def prim_fifo_ok_def list_all_iff dest: in_set_dropD)
  moreover have "bam_bits_ok (refill width b)" using assms refill_stream(3) by (simp add: prim_inv_def)
  ultimately show ?thesis using assms by (simp add: prim_inv_def refill_def r)
qed

definition prim_kept :: "prim_bam \<Rightarrow> prim_bam \<Rightarrow> bool" where
  "prim_kept b b' \<longleftrightarrow> (prim_inv b \<longrightarrow> prim_inv b')"

lemma prim_kept_refl [simp, intro]: "prim_kept b b"
  by (simp add: prim_kept_def)

lemma prim_kept_transp: "transp prim_kept"
  by (auto simp: prim_kept_def transp_def)

lemmas kept_bind = bind_s_frame [OF prim_kept_transp]

lemma prim_kept_updates [simp]:
  "prim_kept b (b'\<lparr>bam_kernel_done := d\<rparr>) = prim_kept b b'"
  "prim_kept b (b'\<lparr>resample_profile := p\<rparr>) = prim_kept b b'"
  "prim_kept b (b'\<lparr>bam_memory := m\<rparr>) = prim_kept b b'"
  by (simp_all add: prim_kept_def prim_inv_def bam_bits_ok_def)

lemma kept_refill [intro]: "prim_kept b (refill width b)"
  by (simp add: prim_kept_def prim_inv_refill)

lemma kept_peek: "prim_kept b (snd (peek_bits width stage b))"
  by (simp add: peek_bits_def Let_def kept_refill)

lemma kept_get: "prim_kept b (snd (get_bits width stage b))"
proof -
  have "prim_inv b' \<Longrightarrow> set (drop n (bam_bits b')) \<subseteq> {0, 1}" for b' n
    using set_drop_subset unfolding prim_inv_def bam_bits_ok_def by fastforce
  moreover have "0 \<le> p AND 7" "p AND 7 \<le> 7" for p :: int
    using pos_mod_bound [of 8 p] by (simp_all add: bit_arith)
  ultimately have "prim_kept b' (b'\<lparr>bam_bits := drop n (bam_bits b'), bit_position := p AND 7\<rparr>)" for b' n p
    by (simp add: prim_kept_def prim_inv_def bam_bits_ok_def)
  then show ?thesis unfolding get_bits_def by (auto intro!: kept_bind kept_peek)
qed

lemma kept_sync: "prim_kept b (snd (frame_sync_loop width pattern msk limit skipped b))"
proof (induction width pattern msk limit skipped b rule: frame_sync_loop.induct)
  case (1 width pattern msk limit skipped b)
  then show ?case
    by (subst frame_sync_loop.simps) (auto intro!: kept_bind kept_peek kept_get)
qed

lemma kept_unary: "prim_kept b (snd (unary_loop polarity limit run b))"
proof (induction polarity limit run b rule: unary_loop.induct)
  case (1 polarity limit run b)
  then show ?case by (subst unary_loop.simps) (auto intro!: kept_bind kept_get)
qed

lemma kept_rice: "prim_kept b (snd (rice_quotient q b))"
proof (induction q b rule: rice_quotient.induct)
  case (1 q b)
  then show ?case by (subst rice_quotient.simps) (auto intro!: kept_bind kept_get)
qed

lemma kept_huff: "prim_kept b (snd (huff_match max_length code previous ws b))"
  by (induction max_length code previous ws b rule: huff_match.induct)
    (auto simp: Let_def intro!: kept_bind kept_peek)

lemma kept_on_memory: "prim_kept b (snd (on_memory f b))"
  by (cases "f (bam_memory b)") (simp add: on_memory_def)

lemma kept_bitstream: "prim_kept b (snd (execute_bitstream i registers b))"
  unfolding execute_bitstream_def execute_frame_sync_def Let_def
  by (auto intro!: kept_bind kept_get kept_peek kept_sync)

lemma kept_entropy: "prim_kept b (snd (execute_entropy i registers e b))"
  unfolding execute_entropy_def execute_huffman_def execute_rice_def execute_sign_restore_def Let_def
  by (auto intro!: kept_bind kept_get kept_huff kept_unary kept_rice simp: split_beta)

lemma kept_fifo_pop: "prim_kept b (snd (execute_fifo_pop i b))"
  unfolding execute_fifo_pop_def
  by (rule kept_bind)
    (auto simp: lift_s_Inr prim_kept_def prim_inv_def bam_bits_ok_def dest: pf_pop_ok)

lemma kept_fifo_push: "prim_kept b (snd (execute_fifo_push i registers b))"
proof -
  have "prim_kept b (b\<lparr>output_fifo := ws\<rparr>)" if "pf_push w (output_fifo b) = Inr ws" for b w ws
    using pf_push_ok [OF that] by (simp add: prim_kept_def prim_inv_def bam_bits_ok_def)
  then show ?thesis
    unfolding execute_fifo_push_def by (auto simp: lift_s_Inr intro!: kept_bind)
qed

lemma kept_local: "prim_kept b (snd (execute_local i registers e b))"
  unfolding execute_local_def execute_load_store_def execute_table_def Let_def
  by (auto intro!: kept_bind kept_on_memory kept_fifo_pop kept_fifo_push simp: split_beta lift_s_Inr)

lemma kept_kernel: "prim_kept b (snd (execute_kernel i registers e b))"
proof -
  have "prim_kept b (snd (kernel_resample aux count input_at par_at output_at e b))" for aux count input_at par_at output_at b
    unfolding kernel_resample_def Let_def
    by (rule kept_bind) (auto intro!: kept_on_memory split: option.splits)
  then have "prim_kept b (snd (run_kernel opc aux count input_at par_at output_at e b))" for opc aux count input_at par_at output_at b
    by (simp add: run_kernel_def kept_on_memory)
  then show ?thesis
    unfolding execute_kernel_def by (auto intro!: kept_bind simp: split_beta)
qed

lemma prim_kept_execute: "prim_kept b (snd (execute_primitive i registers e b))"
  by (simp add: execute_primitive_def kept_bitstream kept_entropy kept_local kept_kernel)

text \<open>Every primitive, completed or faulted, keeps the primitive state well formed: buffered bits are
  zeros and ones, the FIFOs hold at most 64 valid words and the bit position stays below 8.\<close>

theorem primitive_state_invariant:
  assumes "prim_inv b"
  shows "prim_inv (snd (execute_primitive i registers e b))"
  using assms prim_kept_execute [of b i registers e] by (simp add: prim_kept_def)

section \<open>Concrete states\<close>

definition prim_demo_entry :: apu_entry where
  "prim_demo_entry =
     \<lparr>format_id = 1, entry_pc = 0, first_pc = 0, last_pc = 0, max_loop_count = 1, max_retired = 1,
      scratch_base = 256, scratch_bytes = 64, primitive_mask = 65535, table_offset = 0, table_bytes = 12\<rparr>"

text \<open>Symbols 65, 66 and 67 with the canonical codes 0, 10 and 11.\<close>

definition prim_demo_table :: "int list" where
  "prim_demo_table = [65601, 131138, 131139]"

definition prim_demo :: "int list \<Rightarrow> prim_bam" where
  "prim_demo bits =
     (bam_init (snd (publish_table (concat (map (le_bytes 4) prim_demo_table)) memory_init)))\<lparr>bam_bits := bits\<rparr>"

lemma prim_demo_stream: "bam_stream (prim_demo bits) = bits"
  by (simp add: bam_stream_def prim_demo_def bam_init_def)

lemma prim_demo_inv: "set bits \<subseteq> {0, 1} \<Longrightarrow> prim_inv (prim_demo bits)"
  by (simp add: prim_inv_def bam_bits_ok_def prim_demo_def bam_init_def prim_fifo_ok_def)

lemma prim_demo_bits: "set bits \<subseteq> {0, 1} \<Longrightarrow> bam_bits_ok (prim_demo bits)"
  using prim_demo_inv by (simp add: prim_inv_def)

theorem rne_nearest_even_witness: "rne 5 1 = 2 \<and> rne (- 7) 1 = - 4 \<and> even (rne 5 1)"
proof -
  have "rne 5 1 = 2" "rne (- 7) 1 = - 4" by code_simp+
  with rne_nearest_even [of 1 5] show ?thesis by simp
qed

theorem get_bits_refines_stream_witness:
  "\<exists>t. get_bits 3 4 (prim_demo [1, 0, 1, 1]) = (Inr 5, t) \<and> bam_stream t = [1]"
proof -
  have "bits_value [1, 0, 1] = 5" by code_simp
  with get_bits_refines_stream [of "prim_demo [1, 0, 1, 1]" 3 4] show ?thesis
    by (simp add: prim_demo_bits prim_demo_stream split: prod.splits)
qed

theorem rice_roundtrip_witness:
  "\<exists>b'. execute_primitive (mc_ins 3 4 7 0 0 0 0) [2] prim_demo_entry (prim_demo (rice_code 2 (- 3) @ [1, 1])) =
     (Inr (prim_ok [(7, 4294967293)] 7), b') \<and> bam_stream b' = [1, 1]"
proof -
  have c: "rice_code 2 (- 3) = [0, 1, 0, 1]" by code_simp
  then have ok: "bam_bits_ok (prim_demo (rice_code 2 (- 3) @ [1, 1]))" by (simp add: prim_demo_bits)
  have r: "reg_read [2] (mc_src0 (mc_ins 3 4 7 0 0 0 0)) = Inr 2" by code_simp
  show ?thesis
    using rice_roundtrip [OF _ _ r, of 2 "- 3" "prim_demo (rice_code 2 (- 3) @ [1, 1])" "[1, 1]" prim_demo_entry] ok
    by (auto simp: mc_ins_def prim_demo_stream zigzag_def bit_arith)
qed

theorem huffman_roundtrip_witness:
  "\<exists>b'. execute_primitive (mc_ins 3 0 7 0 1 8 0) [0, 3] prim_demo_entry (prim_demo [1, 0, 1]) =
     (Inr (prim_ok [(7, 66)] 29), b') \<and> bam_stream b' = [1]"
proof -
  have t: "map_r (\<lambda>k. read_u32 (table_offset prim_demo_entry + 0 + k * 4) prim_demo_entry True
      (bam_memory (prim_demo [1, 0, 1]))) (py_range 0 (int (length prim_demo_table))) = Inr prim_demo_table"
    by code_simp
  have r: "reg_read [0, 3] (mc_src0 (mc_ins 3 0 7 0 1 8 0)) = Inr 0"
    "reg_read [0, 3] (mc_src1 (mc_ins 3 0 7 0 1 8 0)) = Inr (int (length prim_demo_table))" by code_simp+
  have c: "huff_codes 0 0 prim_demo_table ! 1 = (66, 2, 2)" "huff_table_ok 8 0 prim_demo_table"
    "value_bits (nat 2) 2 = [1, 0]" by code_simp+
  show ?thesis
    using huffman_roundtrip [OF _ _ r t, of 1 66 2 2 "[1]"] c
    by (simp add: mc_ins_def prim_demo_stream prim_demo_bits) (auto simp: prim_demo_table_def)
qed

theorem store_load_roundtrip_witness:
  "\<exists>b'. execute_primitive (mc_ins 4 0 3 0 0 0 4) [8, 305419896] prim_demo_entry b' =
     (Inr (prim_ok [(3, 305419896)] 2), b')"
proof -
  let ?st = "mc_ins 4 1 0 0 1 0 4"
  let ?b = "prim_demo []"
  have "fst (execute_primitive ?st [8, 305419896] prim_demo_entry ?b) = Inr (prim_ok [] 1)" by code_simp
  then obtain b' where b': "execute_primitive ?st [8, 305419896] prim_demo_entry ?b = (Inr (prim_ok [] 1), b')"
    by (metis prod.collapse)
  have r: "reg_read [8, 305419896] (mc_src1 ?st) = Inr 305419896" by code_simp
  show ?thesis
    using store_load_roundtrip [OF _ _ _ _ _ _ r b', of "mc_ins 4 0 3 0 0 0 4"]
    by (auto simp: mc_ins_def)
qed

theorem primitive_state_invariant_witness:
  "prim_inv (snd (execute_primitive (mc_ins 2 2 1 0 0 0 3) [] prim_demo_entry (prim_demo [1, 0, 1, 1])))"
  using primitive_state_invariant [OF prim_demo_inv, of "[1, 0, 1, 1]"] by simp

end
