(* ===== verification/Apu_Transport.thy ===== *)
theory Apu_Transport
  imports Apu_Prim_Props
begin

text \<open>
  The transport model of \<^verbatim>\<open>scripts/apu_interpreter.py\<close>: input refill and output commands with a
  latency, frame accounting, job results and events. \<open>issue\<close> reads the primitives and changes
  only the transport; \<open>tick\<close> changes both, so its state is the pair. Commands are compared by value,
  as the dataclass does, when a completed one is removed from the pending list.
\<close>

unbundle bit_operations_syntax

record transport_command =
  tc_opcode :: int
  tc_destination :: int
  tc_offset :: int
  tc_count :: int
  tc_payload :: bytes
  tc_cycles :: int

record transport =
  tr_input_data :: bytes
  tr_output_capacity :: int
  tr_stream_output :: bool
  tr_latency :: int
  tr_output_frame_bytes :: int
  tr_input_cursor :: int
  tr_output :: bytes
  tr_frames :: int
  tr_logical_input :: int
  tr_logical_output :: int
  tr_result_code :: int
  tr_result_stage :: int
  tr_result_detail :: int
  tr_events :: int
  tr_pending :: "transport_command list"
  tr_completed :: "(int \<times> int) list"
  tr_output_commands :: "(int \<times> int) list"

definition transport_idle :: "transport \<Rightarrow> bool" where
  "transport_idle t \<longleftrightarrow> tr_pending t = []"

definition transport_reset :: "transport \<Rightarrow> transport" where
  "transport_reset t =
     t\<lparr>tr_input_cursor := 0, tr_output := [], tr_frames := 0, tr_logical_input := 0,
       tr_logical_output := 0, tr_result_code := 0, tr_result_stage := 0, tr_result_detail := 0,
       tr_events := 0, tr_pending := [], tr_completed := [], tr_output_commands := []\<rparr>"

definition transport_abort :: "transport \<Rightarrow> transport" where
  "transport_abort t = t\<lparr>tr_pending := [], tr_completed := []\<rparr>"

section \<open>Issuing a command\<close>

definition issue_input ::
  "apu_instruction \<Rightarrow> int \<Rightarrow> int \<Rightarrow> apu_entry \<Rightarrow> prim_bam \<Rightarrow> transport \<Rightarrow> (prim_exn + bool) \<times> transport" where
  "issue_input i offset count e b t =
     (if count < 4 \<or> count > 256 \<or> count AND 3 \<noteq> 0 \<or> offset AND 3 \<noteq> 0 \<or> offset + count > scratch_bytes e
      then (Inl range_fault, t)
      else
        let actual = min count (int (length (tr_input_data t)) - tr_input_cursor t);
            needed = (actual + 3) div 4;
            payload = take (nat actual) (drop (nat (tr_input_cursor t)) (tr_input_data t)) in
        if list_ex (\<lambda>c. tc_opcode c = 0) (tr_pending t) then (Inr False, t)
        else if int (length (input_fifo b)) + needed > 64 then (Inr False, t)
        else
          (Inr True, t\<lparr>tr_pending := tr_pending t @
             [\<lparr>tc_opcode = 0, tc_destination = mc_dst i, tc_offset = offset, tc_count = actual,
               tc_payload = payload, tc_cycles = max 1 (tr_latency t)\<rparr>]\<rparr>))"

definition issue_output ::
  "apu_instruction \<Rightarrow> int \<Rightarrow> int \<Rightarrow> apu_entry \<Rightarrow> prim_bam \<Rightarrow> transport \<Rightarrow> (prim_exn + bool) \<times> transport" where
  "issue_output i offset count e b t =
     (let opc = mc_opcode i in
      if count < 1 \<or> count > 256 \<or> offset AND 3 \<noteq> 0 \<or> offset + count > scratch_bytes e
      then (Inl range_fault, t)
      else if tr_output_frame_bytes t = 0 then (Inl (PyError ApuZeroDivision), t)
      else if count mod tr_output_frame_bytes t \<noteq> 0 \<or> ((opc = 2) \<noteq> tr_stream_output t)
      then (Inl range_fault, t)
      else if output_fifo b \<noteq> [] then (Inl range_fault, t)
      else if list_ex (\<lambda>c. tc_opcode c \<in> {1, 2}) (tr_pending t) then (Inr False, t)
      else if opc = 1 \<and> int (length (tr_output t)) + count > tr_output_capacity t
      then (Inl (PrimitiveFault 8 8 9), t)
      else
        bind_s (lift_s (mem_read (scratch_base e + offset) count e False (bam_memory b)) t) (\<lambda>payload t.
          (Inr True, t\<lparr>tr_output_commands := tr_output_commands t @ [(opc, count)],
             tr_pending := tr_pending t @
             [\<lparr>tc_opcode = opc, tc_destination = mc_dst i, tc_offset = offset, tc_count = count,
               tc_payload = payload, tc_cycles = max 1 (tr_latency t)\<rparr>]\<rparr>)))"

definition issue_immediate ::
  "apu_instruction \<Rightarrow> int \<Rightarrow> int \<Rightarrow> transport \<Rightarrow> (prim_exn + bool) \<times> transport" where
  "issue_immediate i offset count t =
     (let opc = mc_opcode i; done = tr_completed t @ [(mc_dst i, 0)] in
      if opc = 3 then
        (if \<not> transport_idle t then (Inr False, t) else (Inr True, t\<lparr>tr_completed := done\<rparr>))
      else if opc = 4 then
        (if count \<noteq> tr_output_frame_bytes t \<or> tr_logical_input t + offset > tr_input_cursor t
             \<or> tr_logical_output t + count > int (length (tr_output t))
         then (Inl (PrimitiveFault 11 11 9), t)
         else
           (Inr True, t\<lparr>tr_logical_input := min 4294967295 (tr_logical_input t + offset),
              tr_logical_output := min 4294967295 (tr_logical_output t + count),
              tr_frames := min 4294967295 (tr_frames t + 1), tr_completed := done\<rparr>))
      else if opc = 5 then
        (if shr offset 6 \<noteq> 0 \<or> offset AND 63 > 22 then (Inl (PrimitiveFault 11 11 1), t)
         else
           (Inr True, t\<lparr>tr_result_code := offset AND 63, tr_result_stage := mc_aux i AND 15,
              tr_result_detail := count, tr_completed := done\<rparr>))
      else
        (Inr True, t\<lparr>tr_events := tr_events t OR (mc_immediate i AND 192), tr_completed := done\<rparr>))"

definition issue ::
  "apu_instruction \<Rightarrow> int list \<Rightarrow> apu_entry \<Rightarrow> prim_bam \<Rightarrow> transport \<Rightarrow> (prim_exn + bool) \<times> transport" where
  "issue i registers e b t =
     bind_s (lift_s (enum_opcode 6 (mc_opcode i)) t) (\<lambda>opc t.
     bind_s (lift_s (reg_read registers (mc_src0 i)) t) (\<lambda>offset t.
     bind_s (lift_s (reg_read registers (mc_src1 i)) t) (\<lambda>count t.
     if opc = 0 then issue_input i offset count e b t
     else if opc \<in> {1, 2} then issue_output i offset count e b t
     else issue_immediate i offset count t)))"

section \<open>Ticking\<close>

definition input_word :: "transport_command \<Rightarrow> transport \<Rightarrow> int \<Rightarrow> int" where
  "input_word c t position =
     (let chunk = take 4 (drop (nat position) (tc_payload c));
          last_chunk = (tr_input_cursor t + position + int (length chunk) = int (length (tr_input_data t))) in
      le_int chunk OR shl (int (length chunk)) 32 OR shl (if last_chunk then 1 else 0) 40)"

text \<open>The positions 0, 4, 8, ... below a count.\<close>

definition word_positions :: "int \<Rightarrow> int list" where
  "word_positions count = map (\<lambda>k. 4 * k) (py_range 0 ((count + 3) div 4))"

definition complete_input ::
  "apu_entry \<Rightarrow> transport_command \<Rightarrow> transport \<times> prim_bam \<Rightarrow> (prim_exn + unit) \<times> (transport \<times> prim_bam)" where
  "complete_input e c tb =
     bind_s
       (case tb of (t, b) \<Rightarrow>
          (case on_memory (mem_write (scratch_base e + tc_offset c) (tc_payload c) e) b of
             (r, b') \<Rightarrow> (r, (t, b')))) (\<lambda>_ tb.
     bind_s
       (fold_s
         (\<lambda>_ position (t, b).
            case pf_push (input_word c t position) (input_fifo b) of
              Inl err \<Rightarrow> (Inl err, (t, b))
            | Inr ws \<Rightarrow> (Inr (), (t, b\<lparr>input_fifo := ws\<rparr>)))
         () (word_positions (tc_count c)) tb)
       (\<lambda>_ (t, b). (Inr (), (t\<lparr>tr_input_cursor := tr_input_cursor t + tc_count c\<rparr>, b))))"

definition complete_output ::
  "apu_entry \<Rightarrow> transport_command \<Rightarrow> transport \<times> prim_bam \<Rightarrow> (prim_exn + unit) \<times> (transport \<times> prim_bam)" where
  "complete_output e c tb =
     (case tb of (t, b) \<Rightarrow>
      let t' = t\<lparr>tr_output := tr_output t @ tc_payload c\<rparr>;
          n = int (length (tr_output t')) in
      if n \<ge> 4294967296 then (Inl (PyError ApuOverflowError), (t', b))
      else
        case on_memory
            (mem_write (scratch_base e + scratch_bytes e - 64 + 44) (le_bytes 4 n) e) b of
          (r, b') \<Rightarrow> (r, (t', b')))"

definition complete_command ::
  "apu_entry \<Rightarrow> transport_command \<Rightarrow> transport \<times> prim_bam \<Rightarrow> (prim_exn + unit) \<times> (transport \<times> prim_bam)" where
  "complete_command e c tb =
     bind_s (if tc_opcode c = 0 then complete_input e c tb else complete_output e c tb) (\<lambda>_ (t, b).
       (Inr (), (t\<lparr>tr_completed := tr_completed t @ [(tc_destination c, tc_count c)],
                  tr_pending := remove1 c (tr_pending t)\<rparr>, b)))"

definition transport_tick ::
  "apu_entry \<Rightarrow> transport \<times> prim_bam \<Rightarrow> (prim_exn + unit) \<times> (transport \<times> prim_bam)" where
  "transport_tick e tb =
     (case tb of (t, b) \<Rightarrow>
      if tr_pending t = [] then (Inr (), (t, b))
      else
        let pending = map (\<lambda>c. c\<lparr>tc_cycles := tc_cycles c - 1\<rparr>) (tr_pending t) in
        fold_s (\<lambda>_ c tb. complete_command e c tb) () (filter (\<lambda>c. tc_cycles c = 0) pending)
          (t\<lparr>tr_pending := pending\<rparr>, b))"

end
