(* ===== verification/Apu_Interp.thy ===== *)
theory Apu_Interp
  imports Apu_Transport
begin

text \<open>
  The microcode sequencer, \<open>Machine\<close> of \<^verbatim>\<open>scripts/apu_interpreter.py\<close>: registers, flags,
  program counter, return stack, hardware loops, the deferred kernel result and the transport, one
  definition per method. \<open>apu_step\<close> is the whole of \<open>step\<close>; its value is the returned
  Boolean or the exception, with the machine at that moment. \<open>apu_run\<close> is \<open>run\<close> with a bound on
  the number of iterations; \<open>None\<close> means that the bound was too small.

  The dictionaries \<open>loops\<close> and \<open>stall_cycles\<close> are maps, the set of pending destinations is a list.
  The return stack is a list whose last element is the top.
\<close>

unbundle bit_operations_syntax

section \<open>State\<close>

datatype seq_exn = SequencerTrap int int apu_instruction int | SeqError apu_error

record pred_inputs =
  pi_input_exhausted :: bool
  pi_input_ready :: bool
  pi_output_ready :: bool
  pi_kernel_done :: bool
  pi_transport_done :: bool

record trace_item =
  ti_pc :: int
  ti_word :: int
  ti_predicate :: bool
  ti_retired :: int

record apu_machine =
  am_instructions :: "apu_instruction list"
  am_entry :: apu_entry
  am_inputs :: pred_inputs
  am_timeout :: int
  am_fetch_cycles :: int
  am_stall_cycles :: "int \<Rightarrow> int option"
  am_registers :: "int list"
  am_eq :: bool
  am_signed_lt :: bool
  am_unsigned_lt :: bool
  am_pc :: int
  am_retired :: int
  am_return_stack :: "int list"
  am_loops :: "int \<Rightarrow> (int \<times> int) option"
  am_watchdog :: int
  am_trace :: "trace_item list"
  am_target :: apu_target
  am_primitives :: "prim_bam option"
  am_transport :: "transport option"
  am_primitive_cycles :: "int list"
  am_kernel_result :: "prim_result option"
  am_kernel_fault :: "prim_exn option"
  am_kernel_pending_fault :: "prim_exn option"
  am_kernel_pending_dst :: "int option"
  am_kernel_cycles :: int
  am_transport_pending :: "int list"
  am_transport_fault :: "prim_exn option"
  am_abi :: int

text \<open>The exception of a primitive fault at the current program counter.\<close>

definition trap :: "int \<Rightarrow> apu_instruction \<Rightarrow> apu_machine \<Rightarrow> seq_exn" where
  "trap reason i m = SequencerTrap reason (am_pc m) i (trap_detail reason (am_pc m) i)"

definition fault_trap :: "prim_exn \<Rightarrow> apu_instruction \<Rightarrow> apu_machine \<Rightarrow> seq_exn" where
  "fault_trap err i m =
     (case err of PrimitiveFault code stage reason \<Rightarrow> trap reason i m | PyError x \<Rightarrow> SeqError x)"

definition null_instruction :: apu_instruction where
  "null_instruction = mc_ins 0 0 0 0 0 0 0"

section \<open>Predicates and registers\<close>

definition apu_signed :: "int \<Rightarrow> int" where
  "apu_signed v = (if v < 2147483648 then v else v - 4294967296)"

definition predicate_values :: "apu_machine \<Rightarrow> bool list" where
  "predicate_values m =
     (let inp = am_inputs m;
          (ready, space, kdone, exhausted) =
            (case am_primitives m of
               Some b \<Rightarrow>
                 (if am_target m \<in> {P4, P5}
                  then (input_fifo b \<noteq> [], \<not> pf_full (output_fifo b), bam_kernel_done b,
                        bam_eof b \<and> input_fifo b = [] \<and> bam_bits b = [])
                  else (pi_input_ready inp, pi_output_ready inp, pi_kernel_done inp, pi_input_exhausted inp))
             | None \<Rightarrow> (pi_input_ready inp, pi_output_ready inp, pi_kernel_done inp, pi_input_exhausted inp)) in
      [True, am_eq m, \<not> am_eq m, am_signed_lt m, \<not> am_signed_lt m, am_unsigned_lt m,
       \<not> am_unsigned_lt m, exhausted, ready, space, kdone,
       (case am_transport m of Some t \<Rightarrow> transport_idle t | None \<Rightarrow> pi_transport_done inp)])"

definition predicate :: "int \<Rightarrow> apu_machine \<Rightarrow> seq_exn + bool" where
  "predicate p m =
     (if p \<ge> 12 then
        (case py_index (am_instructions m) (am_pc m) of
           Inl err \<Rightarrow> Inl (SeqError err) | Inr i \<Rightarrow> Inl (trap 1 i m))
      else map_error SeqError (py_index (predicate_values m) p))"

definition py_store :: "'a list \<Rightarrow> int \<Rightarrow> 'a \<Rightarrow> apu_error + 'a list" where
  "py_store xs i v =
     (if 0 \<le> i \<and> i < int (length xs) then Inr (xs[nat i := v])
      else if i < 0 \<and> - i \<le> int (length xs) then Inr (xs[nat (int (length xs) + i) := v])
      else Inl ApuIndexError)"

definition write_reg :: "int \<Rightarrow> int \<Rightarrow> apu_machine \<Rightarrow> (seq_exn + unit) \<times> apu_machine" where
  "write_reg r v m =
     (case py_store (am_registers m) r (v AND 4294967295) of
        Inl err \<Rightarrow> (Inl (SeqError err), m)
      | Inr regs \<Rightarrow> (Inr (), m\<lparr>am_registers := regs\<rparr>))"

definition write_all :: "(int \<times> int) list \<Rightarrow> apu_machine \<Rightarrow> (seq_exn + unit) \<times> apu_machine" where
  "write_all writes m = fold_s (\<lambda>_ (r, v) m. write_reg r v m) () writes m"

definition read_reg :: "int \<Rightarrow> apu_machine \<Rightarrow> seq_exn + int" where
  "read_reg r m = map_error SeqError (py_index (am_registers m) r)"

section \<open>The deferred kernel and the transport\<close>

definition complete_kernel :: "apu_machine \<Rightarrow> (seq_exn + unit) \<times> apu_machine" where
  "complete_kernel m =
     bind_s
       (case am_kernel_pending_fault m of
          Some err \<Rightarrow> (Inr (), m\<lparr>am_kernel_fault := Some err\<rparr>)
        | None \<Rightarrow>
            (case am_kernel_result m of
               None \<Rightarrow> (Inr (), m)
             | Some result \<Rightarrow>
                 bind_s (write_all (pr_writes result) m) (\<lambda>_ m.
                   (Inr (), m\<lparr>am_primitives := map_option (\<lambda>b. b\<lparr>bam_kernel_done := True\<rparr>) (am_primitives m)\<rparr>))))
       (\<lambda>_ m. (Inr (), m\<lparr>am_kernel_result := None, am_kernel_pending_fault := None,
                       am_kernel_pending_dst := None, am_kernel_cycles := 0\<rparr>))"

definition tick_kernel :: "apu_machine \<Rightarrow> (seq_exn + unit) \<times> apu_machine" where
  "tick_kernel m =
     (if am_kernel_pending_dst m = None then (Inr (), m)
      else
        let m' = (if am_kernel_cycles m > 0 then m\<lparr>am_kernel_cycles := am_kernel_cycles m - 1\<rparr> else m) in
        if am_kernel_cycles m' = 0 then complete_kernel m' else (Inr (), m'))"

text \<open>The completions are popped one by one; each is written and its destination discarded.\<close>

fun drain_completed :: "(int \<times> int) list \<Rightarrow> transport \<Rightarrow> apu_machine \<Rightarrow> (seq_exn + unit) \<times> apu_machine" where
  "drain_completed [] t m = (Inr (), m\<lparr>am_transport := Some (t\<lparr>tr_completed := []\<rparr>)\<rparr>)"
| "drain_completed ((r, v) # rest) t m =
     bind_s (write_reg r v (m\<lparr>am_transport := Some (t\<lparr>tr_completed := rest\<rparr>)\<rparr>)) (\<lambda>_ m.
       drain_completed rest t
         (m\<lparr>am_transport_pending := filter (\<lambda>p. p \<noteq> r) (am_transport_pending m)\<rparr>))"

definition tick_transport :: "apu_machine \<Rightarrow> (seq_exn + unit) \<times> apu_machine" where
  "tick_transport m =
     (case (am_transport m, am_primitives m) of
        (Some t, Some b) \<Rightarrow>
          (case transport_tick (am_entry m) (t, b) of (r, (t', b')) \<Rightarrow>
            let m' = m\<lparr>am_transport := Some t', am_primitives := Some b'\<rparr> in
            (case r of
               Inl (PrimitiveFault c s k) \<Rightarrow> (Inr (), m'\<lparr>am_transport_fault := Some (PrimitiveFault c s k)\<rparr>)
             | Inl (PyError err) \<Rightarrow> (Inl (SeqError err), m')
             | Inr _ \<Rightarrow> drain_completed (tr_completed t') t' m'))
      | _ \<Rightarrow> (Inr (), m))"

definition uses_pending_register :: "apu_instruction \<Rightarrow> int \<Rightarrow> bool" where
  "uses_pending_register i p \<longleftrightarrow>
     (let cls = mc_class i; opc = mc_opcode i in
      if cls = CLS_CONTROL then
        (if opc = CTL_END then True else opc = CTL_LOOP_SETUP \<and> mc_src0 i = p)
      else if cls = CLS_SCALAR then
        (if opc = SC_MOV then mc_src0 i = p \<or> mc_dst i = p
         else if opc = SC_MOVI then mc_dst i = p
         else if opc = SC_CMP then mc_src0 i = p \<or> mc_src1 i = p
         else if opc = SC_SAT then mc_src0 i = p \<or> mc_dst i = p
         else mc_src0 i = p \<or> mc_src1 i = p \<or> mc_dst i = p)
      else True)"

definition pending_dependency :: "apu_instruction \<Rightarrow> apu_machine \<Rightarrow> bool" where
  "pending_dependency i m \<longleftrightarrow>
     list_ex (uses_pending_register i)
       (am_transport_pending m @ (case am_kernel_pending_dst m of None \<Rightarrow> [] | Some d \<Rightarrow> [d]))"

section \<open>Entries, abort and retirement\<close>

definition begin_entry :: "apu_entry option \<Rightarrow> apu_machine \<Rightarrow> apu_machine" where
  "begin_entry new_entry m =
     (let e = (case new_entry of Some e \<Rightarrow> e | None \<Rightarrow> am_entry m) in
      m\<lparr>am_entry := e, am_pc := entry_pc e, am_retired := 0, am_registers := replicate 16 0,
        am_eq := False, am_signed_lt := False, am_unsigned_lt := False, am_return_stack := [],
        am_loops := (\<lambda>_. None), am_watchdog := 0, am_kernel_result := None, am_kernel_fault := None,
        am_kernel_pending_fault := None, am_kernel_pending_dst := None, am_kernel_cycles := 0,
        am_transport_pending := [], am_transport_fault := None,
        am_primitives := map_option reset_mutable (am_primitives m),
        am_transport := map_option transport_reset (am_transport m)\<rparr>)"

text \<open>A new machine: the defaults of the fields, then the entry is begun.\<close>

definition machine_new ::
  "apu_instruction list \<Rightarrow> apu_entry \<Rightarrow> pred_inputs \<Rightarrow> int \<Rightarrow> apu_target \<Rightarrow> prim_bam option \<Rightarrow>
    transport option \<Rightarrow> int \<Rightarrow> apu_machine" where
  "machine_new instrs e inputs timeout target prims tm abi =
     begin_entry (Some e)
       \<lparr>am_instructions = instrs, am_entry = e, am_inputs = inputs, am_timeout = timeout,
        am_fetch_cycles = 2, am_stall_cycles = Map.empty, am_registers = replicate 16 0,
        am_eq = False, am_signed_lt = False, am_unsigned_lt = False, am_pc = 0, am_retired = 0,
        am_return_stack = [], am_loops = Map.empty, am_watchdog = 0, am_trace = [], am_target = target,
        am_primitives = prims, am_transport = tm, am_primitive_cycles = [], am_kernel_result = None,
        am_kernel_fault = None, am_kernel_pending_fault = None, am_kernel_pending_dst = None,
        am_kernel_cycles = 0, am_transport_pending = [], am_transport_fault = None, am_abi = abi\<rparr>"

definition apu_abort :: "apu_machine \<Rightarrow> apu_machine" where
  "apu_abort m =
     m\<lparr>am_kernel_result := None, am_kernel_fault := None, am_kernel_pending_fault := None,
       am_kernel_pending_dst := None, am_kernel_cycles := 0, am_transport_pending := [],
       am_transport_fault := None, am_transport := map_option transport_abort (am_transport m),
       am_watchdog := 0, am_primitives := map_option reset_mutable (am_primitives m)\<rparr>"

definition apu_reset :: "apu_machine \<Rightarrow> apu_machine" where
  "apu_reset m = begin_entry (Some (am_entry m)) m"

definition retire_instruction :: "apu_instruction \<Rightarrow> bool \<Rightarrow> apu_machine \<Rightarrow> (seq_exn + unit) \<times> apu_machine" where
  "retire_instruction i predicate_true m =
     (let m' = m\<lparr>am_retired := am_retired m + 1, am_watchdog := 0\<rparr> in
      case mc_encode i of
        Inl err \<Rightarrow> (Inl (SeqError err), m')
      | Inr word \<Rightarrow>
          (Inr (), m'\<lparr>am_trace := am_trace m' @
             [\<lparr>ti_pc = am_pc m', ti_word = word, ti_predicate = predicate_true, ti_retired = am_retired m'\<rparr>]\<rparr>))"

definition watchdog_cycle :: "apu_instruction \<Rightarrow> apu_machine \<Rightarrow> (seq_exn + unit) \<times> apu_machine" where
  "watchdog_cycle i m =
     (let m' = m\<lparr>am_watchdog := am_watchdog m + 1\<rparr> in
      if am_timeout m' \<le> 0 \<or> am_watchdog m' \<ge> am_timeout m' then (Inl (trap 7 i m'), m') else (Inr (), m'))"

definition no_retirement_cycle ::
  "apu_instruction \<Rightarrow> bool \<Rightarrow> bool \<Rightarrow> apu_machine \<Rightarrow> (seq_exn + unit) \<times> apu_machine" where
  "no_retirement_cycle i with_kernel with_transport m =
     bind_s (if with_kernel then tick_kernel m else (Inr (), m)) (\<lambda>_ m.
     bind_s (if with_transport then tick_transport m else (Inr (), m)) (\<lambda>_ m.
       watchdog_cycle i m))"

definition saturate :: "int \<Rightarrow> int \<Rightarrow> bool \<Rightarrow> int" where
  "saturate v width is_signed =
     (let w = (if width = 0 then 32 else width) in
      if is_signed
      then min (max (apu_signed v) (- shl 1 (w - 1))) (shl 1 (w - 1) - 1) AND 4294967295
      else min v (shl 1 w - 1))"

section \<open>One step\<close>

text \<open>What the body of an instruction answers: \<open>None\<close> when the step returned without retiring,
  otherwise the next program counter and whether the program ended.\<close>

type_synonym outcome = "(int \<times> bool) option"

definition stall :: "apu_instruction \<Rightarrow> apu_machine \<Rightarrow> (seq_exn + outcome) \<times> apu_machine" where
  "stall i m = bind_s (no_retirement_cycle i False False m) (\<lambda>_ m. (Inr None, m))"

definition wait_ready :: "apu_instruction \<Rightarrow> apu_machine \<Rightarrow> bool" where
  "wait_ready i m \<longleftrightarrow>
     (case am_primitives m of
        None \<Rightarrow> False
      | Some b \<Rightarrow>
          (let idle = (case am_transport m of None \<Rightarrow> False | Some t \<Rightarrow> transport_idle t) in
           mc_aux i = 0 \<and> idle \<or> mc_aux i = 1 \<and> bam_kernel_done b \<or> mc_aux i = 2 \<and> input_fifo b \<noteq> [] \<or>
           mc_aux i = 3 \<and> \<not> pf_full (output_fifo b) \<or> mc_aux i = 4 \<and> idle \<or> mc_aux i = 5 \<and> idle))"

definition loop_setup :: "apu_instruction \<Rightarrow> apu_machine \<Rightarrow> (seq_exn + outcome) \<times> apu_machine" where
  "loop_setup i m =
     bind_s (lift_s (read_reg (mc_src0 i) m) m) (\<lambda>r m.
     let slot = loop_slot i; count = r AND 65535; next_pc = am_pc m + 1 in
     if am_loops m slot \<noteq> None \<or> count = 0 \<or> count > max_loop_count (am_entry m)
     then (Inl (trap 4 i m), m)
     else (Inr (Some (next_pc, False)), m\<lparr>am_loops := (am_loops m)(slot \<mapsto> (count, next_pc))\<rparr>))"

definition loop_back :: "apu_instruction \<Rightarrow> apu_machine \<Rightarrow> (seq_exn + outcome) \<times> apu_machine" where
  "loop_back i m =
     (let slot = loop_slot i; next_pc = am_pc m + 1; dest = next_pc - mc_immediate i in
      case am_loops m slot of
        None \<Rightarrow> (Inl (trap 4 i m), m)
      | Some (count, start) \<Rightarrow>
          if dest \<noteq> start \<or> dest < first_pc (am_entry m) then (Inl (trap 4 i m), m)
          else if count > 1
          then (Inr (Some (dest, False)), m\<lparr>am_loops := (am_loops m)(slot \<mapsto> (count - 1, start))\<rparr>)
          else (Inr (Some (next_pc, False)), m\<lparr>am_loops := (am_loops m)(slot := None)\<rparr>))"

definition step_control :: "apu_instruction \<Rightarrow> apu_machine \<Rightarrow> (seq_exn + outcome) \<times> apu_machine" where
  "step_control i m =
     (let next_pc = am_pc m + 1 in
      bind_s (lift_s (map_error SeqError (control_opcode (mc_opcode i))) m) (\<lambda>opc m.
      if opc = CTL_END then
        (if (case am_transport m of None \<Rightarrow> False | Some t \<Rightarrow> \<not> transport_idle t) then stall i m
         else (Inr (Some (next_pc, True)), m))
      else if opc = CTL_TRAP then (Inl (SequencerTrap 10 (am_pc m) i (mc_immediate i)), m)
      else if opc = CTL_JUMP_FWD then (Inr (Some (next_pc + mc_immediate i, False)), m)
      else if opc = CTL_CALL_FWD then
        (if length (am_return_stack m) = 4 then (Inl (trap 3 i m), m)
         else (Inr (Some (next_pc + mc_immediate i, False)),
               m\<lparr>am_return_stack := am_return_stack m @ [next_pc]\<rparr>))
      else if opc = CTL_RET then
        (if am_return_stack m = [] then (Inl (trap 3 i m), m)
         else (Inr (Some (last (am_return_stack m), False)),
               m\<lparr>am_return_stack := butlast (am_return_stack m)\<rparr>))
      else if opc = CTL_LOOP_SETUP then loop_setup i m
      else if opc = CTL_LOOP_BACK then loop_back i m
      else if opc = CTL_WAIT then
        (if \<not> wait_ready i m then stall i m else (Inr (Some (next_pc, False)), m))
      else (Inr (Some (next_pc, False)), m)))"

definition scalar_result :: "apu_instruction \<Rightarrow> int \<Rightarrow> int \<Rightarrow> int \<Rightarrow> int" where
  "scalar_result i opc s0 s1 =
     (let left = (if mc_aux i \<noteq> 0 then apu_signed s0 else s0);
          right = (if mc_aux i \<noteq> 0 then apu_signed s1 else s1) in
      if opc = SC_MOV then s0
      else if opc = SC_MOVI then mc_immediate i
      else if opc = SC_ADD then s0 + s1
      else if opc = SC_SUB then s0 - s1
      else if opc = SC_AND then s0 AND s1
      else if opc = SC_OR then s0 OR s1
      else if opc = SC_XOR then s0 XOR s1
      else if opc = SC_SHL then shl s0 (s1 AND 31)
      else if opc = SC_SHR then shr s0 (s1 AND 31)
      else if opc = SC_SAR then shr (apu_signed s0) (s1 AND 31)
      else if opc = SC_MIN then min left right
      else if opc = SC_MAX then max left right
      else saturate s0 (mc_aux i AND 31) (mc_aux i AND 32 \<noteq> 0))"

definition step_scalar :: "apu_instruction \<Rightarrow> apu_machine \<Rightarrow> (seq_exn + outcome) \<times> apu_machine" where
  "step_scalar i m =
     (let opc = mc_opcode i in
      bind_s (lift_s (if 0 \<le> opc \<and> opc \<le> SC_SAT then Inr () else Inl (SeqError EnumError)) m) (\<lambda>_ m.
      bind_s (lift_s (read_reg (mc_src0 i) m) m) (\<lambda>s0 m.
      bind_s (lift_s (read_reg (mc_src1 i) m) m) (\<lambda>s1 m.
      bind_s
        (if opc = SC_CMP
         then (Inr (), m\<lparr>am_eq := (s0 = s1), am_signed_lt := (apu_signed s0 < apu_signed s1),
                        am_unsigned_lt := (s0 < s1)\<rparr>)
         else write_reg (mc_dst i) (scalar_result i opc s0 s1) m)
        (\<lambda>_ m. (Inr (Some (am_pc m + 1, False)), m))))))"

definition step_transport :: "apu_instruction \<Rightarrow> apu_machine \<Rightarrow> (seq_exn + outcome) \<times> apu_machine" where
  "step_transport i m =
     (case (am_transport m, am_primitives m) of
        (Some t, Some b) \<Rightarrow>
          (case issue i (am_registers m) (am_entry m) b t of (r, t') \<Rightarrow>
            let m = m\<lparr>am_transport := Some t'\<rparr> in
            (case r of
               Inl err \<Rightarrow> (Inl (fault_trap err i m), m)
             | Inr accepted \<Rightarrow>
                 if \<not> accepted then stall i m
                 else if mc_opcode i \<le> 2
                 then (Inr (Some (am_pc m + 1, False)),
                       m\<lparr>am_transport_pending := List.insert (mc_dst i) (am_transport_pending m)\<rparr>)
                 else bind_s (tick_transport m) (\<lambda>_ m. (Inr (Some (am_pc m + 1, False)), m))))
      | _ \<Rightarrow> (Inl (trap 6 i m), m))"

text \<open>The bits an instruction needs buffered before it may execute; \<open>None\<close> for a class that does not
  read bits.\<close>

definition required_bits :: "apu_instruction \<Rightarrow> apu_machine \<Rightarrow> seq_exn + int" where
  "required_bits i m =
     (let opc = mc_opcode i in
      if mc_class i = CLS_BITSTREAM then
        (if \<not> (0 \<le> opc \<and> opc \<le> 7) then Inl (SeqError EnumError)
         else if opc \<in> {0, 1, 2, 3} then Inr (mc_immediate i AND 63)
         else if opc = 5 then Inr (mc_aux i AND 31)
         else Inr 0)
      else if \<not> (0 \<le> opc \<and> opc \<le> 6) then Inl (SeqError EnumError)
      else if opc \<le> 2 then Inr (mc_aux i)
      else if opc = 3 then Inr (mc_immediate i + 1)
      else if opc = 6 then
        bind_r (read_reg (mc_src0 i) m) (\<lambda>r0.
          if r0 = 0 then Inr 0 else bind_r (read_reg (mc_src1 i) m) (\<lambda>r1. Inr ((r1 AND 31) + 1)))
      else Inr 1)"

text \<open>Whether the instruction must wait for a FIFO or for bits, after the refill.\<close>

definition primitive_waits :: "apu_instruction \<Rightarrow> prim_bam \<Rightarrow> apu_machine \<Rightarrow> (seq_exn + bool) \<times> apu_machine" where
  "primitive_waits i b m =
     (if mc_class i = CLS_LOCAL then
        (if \<not> (0 \<le> mc_opcode i \<and> mc_opcode i \<le> 6) then (Inl (SeqError EnumError), m)
         else (Inr (mc_opcode i = 5 \<and> input_fifo b = [] \<or> mc_opcode i = 6 \<and> pf_full (output_fifo b)), m))
      else if mc_class i \<in> {CLS_BITSTREAM, CLS_ENTROPY} then
        bind_s (lift_s (required_bits i m) m) (\<lambda>required m.
          let b' = (if mc_class i = CLS_BITSTREAM \<and> required = 0 then b else refill required b) in
          (Inr (\<not> (mc_class i = CLS_BITSTREAM \<and> required = 0)
                \<and> int (length (bam_bits b')) < required \<and> \<not> bam_eof b'),
           m\<lparr>am_primitives := Some b'\<rparr>))
      else (Inr False, m))"

definition set_kernel_done :: "bool \<Rightarrow> apu_machine \<Rightarrow> apu_machine" where
  "set_kernel_done d m =
     m\<lparr>am_primitives := map_option (\<lambda>b. b\<lparr>bam_kernel_done := d\<rparr>) (am_primitives m)\<rparr>"

text \<open>The call of \<open>execute\<close> with its handler: a kernel fault other than a range fault is deferred.\<close>

definition call_primitive :: "apu_instruction \<Rightarrow> apu_machine \<Rightarrow> (seq_exn + prim_result) \<times> apu_machine" where
  "call_primitive i m =
     (case am_primitives m of
        None \<Rightarrow> (Inl (trap 6 i m), m)
      | Some b \<Rightarrow>
          (case execute_primitive i (am_registers m) (am_entry m) b of (r, b') \<Rightarrow>
            let m = m\<lparr>am_primitives := Some b'\<rparr> in
            (case r of
               Inr result \<Rightarrow> (Inr result, m)
             | Inl (PyError err) \<Rightarrow> (Inl (SeqError err), m)
             | Inl (PrimitiveFault c s k) \<Rightarrow>
                 if mc_class i \<noteq> CLS_KERNEL \<or> k = 5 then (Inl (trap k i m), m)
                 else
                   (Inr \<lparr>pr_writes = [], pr_cycles = 1, pr_kernel_done = True\<rparr>,
                    m\<lparr>am_kernel_pending_fault := Some (PrimitiveFault c s k)\<rparr>))))"

definition finish_primitive :: "apu_instruction \<Rightarrow> prim_result \<Rightarrow> apu_machine \<Rightarrow> (seq_exn + unit) \<times> apu_machine" where
  "finish_primitive i result m =
     (let m = m\<lparr>am_primitive_cycles := am_primitive_cycles m @ [pr_cycles result]\<rparr> in
      if mc_class i = CLS_KERNEL then
        (let m = (set_kernel_done False m)\<lparr>am_kernel_result := Some result,
                   am_kernel_pending_dst := Some (mc_dst i),
                   am_kernel_cycles := max (pr_cycles result - 1) 0\<rparr> in
         if am_kernel_cycles m = 0 then complete_kernel m else (Inr (), m))
      else
        bind_s (write_all (pr_writes result) m) (\<lambda>_ m.
          fold_s (\<lambda>_ _ m. no_retirement_cycle i True True m) ()
            (py_range 0 (max (pr_cycles result - 1) 0)) m))"

definition step_primitive :: "apu_instruction \<Rightarrow> apu_machine \<Rightarrow> (seq_exn + outcome) \<times> apu_machine" where
  "step_primitive i m =
     (case am_primitives m of
        None \<Rightarrow> (Inl (trap 6 i m), m)
      | Some b \<Rightarrow>
          bind_s (primitive_waits i b m) (\<lambda>waiting m.
          if waiting then stall i m
          else
            bind_s (call_primitive i (if mc_class i = CLS_KERNEL then set_kernel_done False m else m))
              (\<lambda>result m.
            bind_s (finish_primitive i result m) (\<lambda>_ m.
              (Inr (Some (am_pc m + 1, False)), m)))))"

definition step_body :: "apu_instruction \<Rightarrow> apu_machine \<Rightarrow> (seq_exn + outcome) \<times> apu_machine" where
  "step_body i m =
     (if mc_class i = CLS_CONTROL then step_control i m
      else if mc_class i = CLS_SCALAR then step_scalar i m
      else if mc_class i = CLS_TRANSPORT then step_transport i m
      else step_primitive i m)"

text \<open>A fault left by a kernel or the transport traps at the next step.\<close>

definition pending_fault :: "apu_instruction \<Rightarrow> apu_machine \<Rightarrow> (seq_exn + unit) \<times> apu_machine" where
  "pending_fault i m =
     (case am_kernel_fault m of
        Some err \<Rightarrow> (Inl (fault_trap err i m), m\<lparr>am_kernel_fault := None\<rparr>)
      | None \<Rightarrow>
          (case am_transport_fault m of
             Some err \<Rightarrow> (Inl (fault_trap err i m), m\<lparr>am_transport_fault := None\<rparr>)
           | None \<Rightarrow> (Inr (), m)))"

definition skip_instruction :: "apu_instruction \<Rightarrow> apu_machine \<Rightarrow> (seq_exn + bool) \<times> apu_machine" where
  "skip_instruction i m =
     (let store_last = (if am_abi m = APUMC_ABI_V1 then 2047 else 4095) in
      if am_pc m = last_pc (am_entry m) \<or> am_pc m = store_last then (Inl (trap 2 i m), m)
      else
        bind_s (retire_instruction i False m) (\<lambda>_ m. (Inr False, m\<lparr>am_pc := am_pc m + 1\<rparr>)))"

definition finish_step ::
  "apu_instruction \<Rightarrow> outcome \<Rightarrow> apu_machine \<Rightarrow> (seq_exn + bool) \<times> apu_machine" where
  "finish_step i result m =
     (case result of
        None \<Rightarrow> (Inr False, m)
      | Some (next_pc, terminal) \<Rightarrow>
          bind_s (retire_instruction i True m) (\<lambda>_ m.
          if terminal then (Inr True, m)
          else if next_pc < first_pc (am_entry m) \<or> next_pc > last_pc (am_entry m)
          then (Inl (trap 2 i m), m)
          else (Inr False, m\<lparr>am_pc := next_pc\<rparr>)))"

definition issue_instruction :: "apu_instruction \<Rightarrow> apu_machine \<Rightarrow> (seq_exn + bool) \<times> apu_machine" where
  "issue_instruction i m =
     (case validate_instruction i (am_target m) (am_abi m) of
        Inl _ \<Rightarrow> (Inl (trap 1 i m), m)
      | Inr _ \<Rightarrow>
          if am_retired m \<ge> max_retired (am_entry m) then (Inl (trap 8 i m), m)
          else
            bind_s (lift_s (predicate (mc_predicate i) m) m) (\<lambda>holds m.
            if \<not> holds then skip_instruction i m
            else if pending_dependency i m
            then bind_s (no_retirement_cycle i False False m) (\<lambda>_ m. (Inr False, m))
            else bind_s (step_body i m) (\<lambda>result m. finish_step i result m)))"

definition apu_step :: "apu_machine \<Rightarrow> (seq_exn + bool) \<times> apu_machine" where
  "apu_step m =
     (if am_pc m < first_pc (am_entry m) \<or> am_pc m > last_pc (am_entry m)
      then (Inl (trap 2 null_instruction m), m)
      else
        bind_s (lift_s (map_error SeqError (py_index (am_instructions m) (am_pc m))) m) (\<lambda>i m.
        bind_s (tick_kernel m) (\<lambda>_ m.
        bind_s (tick_transport m) (\<lambda>_ m.
        bind_s (pending_fault i m) (\<lambda>_ m.
        issue_instruction i m)))))"

section \<open>Running\<close>

text \<open>The fetch of an instruction: the fixed latency and the stalls planned for its address.\<close>

definition fetch_cycles :: "apu_instruction \<Rightarrow> apu_machine \<Rightarrow> (seq_exn + unit) \<times> apu_machine" where
  "fetch_cycles i m =
     (let cycle = (\<lambda>_ _ m. no_retirement_cycle i True True m) in
      bind_s (fold_s cycle () (py_range 0 (am_fetch_cycles m)) m) (\<lambda>_ m.
      let stalls = (case am_stall_cycles m (am_pc m) of None \<Rightarrow> 0 | Some n \<Rightarrow> n) in
      bind_s (fold_s cycle () (py_range 0 stalls) m) (\<lambda>_ m.
        (Inr (), m\<lparr>am_stall_cycles := (am_stall_cycles m)(am_pc m \<mapsto> 0)\<rparr>))))"

definition run_iteration :: "bool \<Rightarrow> apu_machine \<Rightarrow> (seq_exn + bool) \<times> apu_machine" where
  "run_iteration fetch_required m =
     (if am_pc m < first_pc (am_entry m) \<or> am_pc m > last_pc (am_entry m)
      then (Inl (trap 2 null_instruction m), m)
      else
        bind_s (lift_s (map_error SeqError (py_index (am_instructions m) (am_pc m))) m) (\<lambda>i m.
        bind_s (if fetch_required then fetch_cycles i m else (Inr (), m)) (\<lambda>_ m. apu_step m)))"

fun run_loop :: "nat \<Rightarrow> bool \<Rightarrow> apu_machine \<Rightarrow> ((seq_exn + unit) \<times> apu_machine) option" where
  "run_loop 0 fetch_required m = None"
| "run_loop (Suc fuel) fetch_required m =
     (case run_iteration fetch_required m of
        (Inl err, m') \<Rightarrow> Some (Inl err, m')
      | (Inr True, m') \<Rightarrow> Some (Inr (), m')
      | (Inr False, m') \<Rightarrow> run_loop fuel (am_retired m' \<noteq> am_retired m) m')"

definition apu_run :: "nat \<Rightarrow> apu_machine \<Rightarrow> ((seq_exn + unit) \<times> apu_machine) option" where
  "apu_run fuel m = run_loop fuel True m"

end
