(* ===== verification/Apu_Run.thy ===== *)
theory Apu_Run
  imports Apu_Interp Apu_Prim_Props
begin

text \<open>
  The sequencer of \<open>src/scripts/apu_interpreter.py\<close> runs what the loader of
  \<open>src/scripts/apu_isa.py\<close> accepts. The reasons of the faults a primitive or the transport raises
  (\<open>good_fault\<close>); what every part of a step but the control instructions keeps (\<open>side_ok\<close>); a control
  instruction moves along the abstract flow of the checker (\<open>control_result\<close>); one iteration of the run
  loop (\<open>step_result\<close>); the simulation of the flow by the machine as an interpretation of
  \<open>stuttering_simulation\<close>, and the bound on the number of iterations (\<open>run_measure\<close>).
\<close>

unbundle bit_operations_syntax

section \<open>The reasons of primitive faults\<close>

definition good_fault :: "prim_exn \<Rightarrow> bool" where
  "good_fault err = (case err of PrimitiveFault c s k \<Rightarrow> k \<in> {1, 5, 9} | PyError x \<Rightarrow> True)"

definition good_r :: "prim_exn + 'a \<Rightarrow> bool" where
  "good_r r = (case r of Inl err \<Rightarrow> good_fault err | Inr _ \<Rightarrow> True)"

lemma good_fault_simps [simp]: "good_fault (PyError x)" "good_fault (PrimitiveFault c s 5)"
  "good_fault (PrimitiveFault c s 9)" "good_fault (PrimitiveFault c s 1)"
  by (simp_all add: good_fault_def)

lemma good_r_simps [simp]: "good_r (Inl err) = good_fault err" "good_r (Inr x)"
  by (simp_all add: good_r_def)

lemma good_bind_r: "good_r p \<Longrightarrow> (\<And>x. p = Inr x \<Longrightarrow> good_r (k x)) \<Longrightarrow> good_r (bind_r p k)"
  by (cases p) auto

lemma good_raise_if: "good_fault err \<Longrightarrow> good_r (raise_if c err)"
  by (simp add: raise_if_def)

lemma good_map_r: "(\<And>x. x \<in> set xs \<Longrightarrow> good_r (f x)) \<Longrightarrow> good_r (map_r f xs)"
  by (induction xs) (auto intro!: good_bind_r)

lemma good_first_error: "(\<And>c. c \<in> set cs \<Longrightarrow> good_r c) \<Longrightarrow> good_r (first_error cs)"
proof (induction cs)
  case (Cons c cs)
  then have "good_r c" "good_r (first_error cs)" by auto
  then show ?case by (cases c) simp_all
qed simp

lemma good_map_error: "good_r (map_error PyError r)"
  by (cases r) auto

lemma good_bind_s:
  "good_r (fst p) \<Longrightarrow> (\<And>x t. p = (Inr x, t) \<Longrightarrow> good_r (fst (k x t))) \<Longrightarrow> good_r (fst (bind_s p k))"
  by (cases p; cases "fst p") auto

lemma good_fold_s: "(\<And>a i s. i \<in> set xs \<Longrightarrow> good_r (fst (f a i s))) \<Longrightarrow> good_r (fst (fold_s f a xs s))"
  by (induction xs arbitrary: a s) (auto intro!: good_bind_s)

lemmas good_rules = good_bind_r good_raise_if good_map_r good_first_error good_map_error good_bind_s good_fold_s

lemma good_check_range: "good_r (check_range a sz e table m)"
  unfolding check_range_def by (auto intro!: good_rules)

lemma good_word_check: "good_r (word_check m w)"
  by (simp add: word_check_def good_raise_if)

lemma good_mem_read: "good_r (mem_read a sz e table m)"
  unfolding mem_read_def by (auto intro!: good_rules good_check_range good_word_check)

lemma good_mark_valid: "good_r (fst (mark_valid a sz m))"
  unfolding mark_valid_def by (auto intro!: good_rules)

lemma good_mem_write: "good_r (fst (mem_write a payload e m))"
  unfolding mem_write_def Let_def by (auto intro!: good_rules good_check_range good_mark_valid)

lemma good_read_u32: "good_r (read_u32 a e table m)"
  unfolding read_u32_def by (auto intro!: good_rules good_mem_read)

lemma good_read_s32: "good_r (read_s32 a e table m)"
  unfolding read_s32_def by (auto intro!: good_rules good_read_u32)

lemma good_write_s32: "good_r (fst (write_s32 a v e m))"
  unfolding write_s32_def by (rule good_mem_write)

lemma good_resolve_ref: "good_r (resolve_ref w e sz state m)"
  unfolding resolve_ref_def Let_def by (auto intro!: good_rules good_check_range)

lemma good_dot: "good_r (dot a b)"
  by (simp add: dot_def Let_def)

lemma good_rounded_dot: "good_r (rounded_dot a b)"
  unfolding rounded_dot_def by (auto intro!: good_rules good_dot)

lemma good_read_array: "good_r (read_array a n e table m)"
  unfolding read_array_def by (auto intro!: good_rules good_read_s32)

lemma good_write_array: "good_r (fst (write_array a vs e m))"
  unfolding write_array_def by (auto intro!: good_rules good_write_s32 simp: split_beta)

lemmas good_memory = good_check_range good_mem_read good_mem_write good_read_u32 good_read_s32
  good_write_s32 good_resolve_ref good_rounded_dot good_dot good_read_array good_write_array

lemma good_kernel_requant: "good_r (fst (kernel_requant aux count i p out e m))"
  unfolding kernel_requant_def Let_def by (auto intro!: good_rules good_memory simp: split_beta)

lemma good_kernel_stereo: "good_r (fst (kernel_stereo d aux count i p out e m))"
  unfolding kernel_stereo_def Let_def by (auto intro!: good_rules good_memory simp: split_beta)

lemma good_kernel_imdct: "good_r (fst (kernel_imdct order count i p out e m))"
  unfolding kernel_imdct_def imdct_block_def Let_def by (auto intro!: good_rules good_memory simp: split_beta)

lemma good_dct_parts: "good_r (dct_transform b a t i e m)" "good_r (dct_output ph it h w wt e m)"
  unfolding dct_transform_def dct_output_def by (auto intro!: good_rules good_memory)

lemma good_kernel_dct32: "good_r (fst (kernel_dct32 count i p out e m))"
  unfolding kernel_dct32_def dct_block_def Let_def
  by (auto intro!: good_rules good_memory good_dct_parts simp: split_beta)

lemma good_predict: "(\<And>h. good_r (p h)) \<Longrightarrow> good_r (fst (predict_sample p i out e h index m))"
  unfolding predict_sample_def Let_def by (auto intro!: good_rules good_memory)

lemma good_lpc_predictor: "good_r (lpc_predictor shift cs h)"
  unfolding lpc_predictor_def by (auto intro!: good_rules good_memory)

lemma good_kernel_fixed: "good_r (fst (kernel_fixed aux count i p out e m))"
  unfolding kernel_fixed_def Let_def by (auto intro!: good_rules good_memory good_predict simp: split_beta)

lemma good_kernel_lpc: "good_r (fst (kernel_lpc aux count i p out e m))"
  unfolding kernel_lpc_def Let_def
  by (auto intro!: good_rules good_memory good_predict good_lpc_predictor simp: split_beta)

lemma good_kernel_pcm_pack: "good_r (fst (kernel_pcm_pack aux count i p out e m))"
  unfolding kernel_pcm_pack_def Let_def by (auto intro!: good_rules good_memory simp: split_beta)

lemma good_resample_output: "good_r (fst (resample_output si ph ib cref channels produced i out e m))"
  unfolding resample_output_def by (auto intro!: good_rules good_memory)

lemma good_resample_loop:
  "good_r (fst (resample_loop aux count cref channels i out e ib next_output produced m))"
proof (induction aux count cref channels i out e ib next_output produced m rule: resample_loop.induct)
  case (1 aux count cref channels i out e ib next_output produced m)
  then show ?case
    by (subst resample_loop.simps) (auto intro!: good_bind_s good_resample_output split: prod.split)
qed

lemma good_resample_body: "good_r (fst (resample_body aux count i p out e m))"
  unfolding resample_body_def Let_def
  by (auto intro!: good_rules good_memory good_resample_loop simp: split_beta lift_s_Inr)

lemma good_on_memory: "good_r (fst (f (bam_memory b))) \<Longrightarrow> good_r (fst (on_memory f b))"
  by (cases "f (bam_memory b)") (simp add: on_memory_def)

lemma good_kernel_resample: "good_r (fst (kernel_resample aux count i p out e b))"
  unfolding kernel_resample_def Let_def
  by (rule good_bind_s) (auto intro!: good_on_memory good_resample_body split: option.splits)

lemmas good_kernels = good_kernel_requant good_kernel_stereo good_kernel_imdct good_kernel_dct32
  good_kernel_fixed good_kernel_lpc good_kernel_pcm_pack

lemma good_enum: "good_r (enum_opcode n opc)" and good_reg_read: "good_r (reg_read regs r)"
  by (simp_all add: enum_opcode_def reg_read_def good_map_error)

lemma good_kernel_arrays: "good_r (kernel_arrays i regs e m)"
  unfolding kernel_arrays_def Let_def by (auto intro!: good_rules good_memory good_reg_read)

lemma good_execute_kernel: "good_r (fst (execute_kernel i regs e b))"
proof -
  have "good_r (fst (run_kernel opc aux count inp par out e b))" for opc aux count inp par out b
    by (simp add: run_kernel_def good_on_memory good_kernels good_kernel_resample)
  then show ?thesis
    unfolding execute_kernel_def
    by (auto intro!: good_bind_s good_enum good_kernel_arrays simp: split_beta)
qed

lemma good_peek: "good_r (fst (peek_bits w stage b))"
  by (simp add: peek_bits_def Let_def)

lemma good_get: "good_r (fst (get_bits w stage b))"
  unfolding get_bits_def by (auto intro!: good_bind_s good_peek)

lemma good_sync: "good_r (fst (frame_sync_loop width pattern msk limit skipped b))"
proof (induction width pattern msk limit skipped b rule: frame_sync_loop.induct)
  case (1 width pattern msk limit skipped b)
  then show ?case
    by (subst frame_sync_loop.simps) (auto intro!: good_bind_s good_peek good_get)
qed

lemma good_unary: "good_r (fst (unary_loop polarity limit run b))"
proof (induction polarity limit run b rule: unary_loop.induct)
  case (1 polarity limit run b)
  then show ?case by (subst unary_loop.simps) (auto intro!: good_bind_s good_get)
qed

lemma good_rice: "good_r (fst (rice_quotient q b))"
proof (induction q b rule: rice_quotient.induct)
  case (1 q b)
  then show ?case by (subst rice_quotient.simps) (auto intro!: good_bind_s good_get)
qed

lemma good_huff: "good_r (fst (huff_match max_length code previous ws b))"
  by (induction max_length code previous ws b rule: huff_match.induct)
    (auto simp: Let_def intro!: good_bind_s good_peek)

lemma good_bitstream: "good_r (fst (execute_bitstream i regs b))"
  unfolding execute_bitstream_def execute_frame_sync_def Let_def
  by (auto intro!: good_bind_s good_enum good_get good_peek good_sync good_reg_read)

lemma good_entropy: "good_r (fst (execute_entropy i regs e b))"
  unfolding execute_entropy_def execute_huffman_def execute_rice_def execute_sign_restore_def Let_def
  by (auto intro!: good_bind_s good_enum good_get good_huff good_unary good_rice good_reg_read
      good_map_r good_memory simp: split_beta)

lemma good_pf: "good_r (pf_push w ws)" "good_r (pf_pop ws)"
  by (simp_all add: pf_push_def pf_pop_def split: list.split)

lemma good_local: "good_r (fst (execute_local i regs e b))"
  unfolding execute_local_def execute_load_store_def execute_table_def execute_fifo_pop_def
    execute_fifo_push_def Let_def
  by (auto intro!: good_bind_s good_enum good_reg_read good_on_memory good_memory good_pf simp: split_beta)

lemma good_execute: "good_r (fst (execute_primitive i regs e b))"
  by (simp add: execute_primitive_def good_bitstream good_entropy good_local good_execute_kernel)

lemma good_issue_input: "good_r (fst (issue_input i offset count e b t))"
  by (simp add: issue_input_def Let_def)

lemma good_issue_output: "good_r (fst (issue_output i offset count e b t))"
  unfolding issue_output_def Let_def by (simp add: good_bind_s good_mem_read)

lemma good_issue_immediate: "good_r (fst (issue_immediate i offset count t))"
  by (simp add: issue_immediate_def Let_def)

lemma good_issue: "good_r (fst (issue i regs e b t))"
  unfolding issue_def
  by (auto intro!: good_bind_s good_enum good_reg_read good_issue_input good_issue_output good_issue_immediate)

lemma good_paired: "good_r (fst p) \<Longrightarrow> good_r (fst (case p of (r, b') \<Rightarrow> (r, (t, b'))))"
  by (cases p) simp

lemmas good_write_pair = good_paired [OF good_on_memory [OF good_mem_write]]

lemma good_complete_input: "good_r (fst (complete_input e c (t, b)))"
proof -
  have p: "good_r (fst (case pf_push w ws of Inl err \<Rightarrow> (Inl err, s) | Inr ws' \<Rightarrow> (Inr (), g ws')))"
    for w ws and s :: "transport \<times> prim_bam" and g
    using good_pf(1) [of w ws] by (cases "pf_push w ws") simp_all
  have push: "good_r (fst (fold_s
      (\<lambda>_ position (t, b).
         case pf_push (input_word c t position) (input_fifo b) of
           Inl err \<Rightarrow> (Inl err, (t, b))
         | Inr ws \<Rightarrow> (Inr (), (t, b\<lparr>input_fifo := ws\<rparr>))) () ps tb))" for ps and tb :: "transport \<times> prim_bam"
    by (rule good_fold_s, split prod.split, intro allI impI) (rule p)
  show ?thesis
    unfolding complete_input_def prod.case
    by (rule good_bind_s, rule good_write_pair, rule good_bind_s, rule push) (simp add: split_beta)
qed

lemma good_complete_output: "good_r (fst (complete_output e c (t, b)))"
  unfolding complete_output_def prod.case Let_def by (simp add: good_write_pair)

lemma good_transport_tick: "good_r (fst (transport_tick e tb))"
proof -
  have "good_r (fst (complete_command e c tb))" for c tb
    unfolding complete_command_def
    by (cases tb) (auto intro!: good_bind_s good_complete_input good_complete_output split: prod.split)
  then show ?thesis
    unfolding transport_tick_def by (auto intro!: good_fold_s simp: Let_def split: prod.split)
qed

section \<open>What everything but control instructions keeps\<close>

definition mach_ok :: "apu_machine \<Rightarrow> bool" where
  "mach_ok m \<longleftrightarrow>
     0 \<le> am_watchdog m \<and> length (am_registers m) = 16 \<and> (\<forall>r \<in> set (am_registers m). u32 r) \<and>
     (\<forall>err. am_kernel_fault m = Some err \<longrightarrow> good_fault err) \<and>
     (\<forall>err. am_kernel_pending_fault m = Some err \<longrightarrow> good_fault err) \<and>
     (\<forall>err. am_transport_fault m = Some err \<longrightarrow> good_fault err) \<and>
     (\<forall>b. am_primitives m = Some b \<longrightarrow> prim_inv b)"

text \<open>The program, the entry and the control state are the same, the watchdog has not gone back.\<close>

definition same_ctl :: "apu_machine \<Rightarrow> apu_machine \<Rightarrow> bool" where
  "same_ctl m m' \<longleftrightarrow>
     am_instructions m' = am_instructions m \<and> am_entry m' = am_entry m \<and> am_timeout m' = am_timeout m \<and>
     am_target m' = am_target m \<and> am_abi m' = am_abi m \<and> am_pc m' = am_pc m \<and>
     am_retired m' = am_retired m \<and> am_return_stack m' = am_return_stack m \<and>
     am_loops m' = am_loops m \<and> am_watchdog m \<le> am_watchdog m'"

abbreviation side_traps :: "int set" where
  "side_traps \<equiv> {1, 5, 6, 7, 9}"

definition trap_in :: "int set \<Rightarrow> seq_exn + 'a \<Rightarrow> bool" where
  "trap_in S r = (case r of Inl (SequencerTrap k pc i d) \<Rightarrow> k \<in> S | _ \<Rightarrow> True)"

definition side_ok :: "apu_machine \<Rightarrow> (seq_exn + 'a) \<times> apu_machine \<Rightarrow> bool" where
  "side_ok m p \<longleftrightarrow> same_ctl m (snd p) \<and> (mach_ok m \<longrightarrow> mach_ok (snd p) \<and> trap_in side_traps (fst p))"

lemma same_ctl_refl [simp]: "same_ctl m m"
  by (simp add: same_ctl_def)

lemma same_ctl_trans: "same_ctl a b \<Longrightarrow> same_ctl b c \<Longrightarrow> same_ctl a c"
  by (auto simp: same_ctl_def)

lemma trap_in_simps [simp]:
  "trap_in S (Inr x)" "trap_in S (Inl (SeqError err))" "trap_in S (Inl (SequencerTrap k pc i d)) = (k \<in> S)"
  "trap_in S (Inl (trap k i m)) = (k \<in> S)" "trap_in S (map_error SeqError r)"
  by (simp_all add: trap_in_def trap_def map_error_def split: sum.split)

lemma side_ok_return [simp]: "side_ok m (Inr x, m)"
  by (simp add: side_ok_def)

lemma side_ok_error [simp]: "side_ok m (Inl (SeqError err), m)" "side_ok m (Inl (trap k i m'), m) = (mach_ok m \<longrightarrow> k \<in> side_traps)"
  by (simp_all add: side_ok_def)

lemma side_ok_lift: "trap_in side_traps r \<Longrightarrow> side_ok m (lift_s r m)"
  by (simp add: side_ok_def lift_s_def)

lemma side_bind:
  assumes "side_ok m p" "\<And>x t. p = (Inr x, t) \<Longrightarrow> side_ok t (k x t)"
  shows "side_ok m (bind_s p k)"
proof (cases p)
  case (Pair r t)
  show ?thesis
  proof (cases r)
    case (Inl err)
    with assms(1) Pair show ?thesis by (simp add: side_ok_def trap_in_def)
  next
    case (Inr x)
    with assms Pair show ?thesis by (auto simp: side_ok_def intro: same_ctl_trans)
  qed
qed

lemma side_fold:
  assumes "\<And>a i m. i \<in> set xs \<Longrightarrow> side_ok m (f a i m)"
  shows "side_ok m (fold_s f a xs m)"
  using assms by (induction xs arbitrary: a m) (auto intro!: side_bind)

text \<open>Starting from a machine with other side fields.\<close>

lemma side_ok_from:
  assumes "side_ok m' p" "same_ctl m m'" "mach_ok m \<Longrightarrow> mach_ok m'"
  shows "side_ok m p"
  using assms by (auto simp: side_ok_def intro: same_ctl_trans)

lemma side_ok_step: "same_ctl m m' \<Longrightarrow> (mach_ok m \<Longrightarrow> mach_ok m') \<Longrightarrow> side_ok m (Inr x, m')"
  by (simp add: side_ok_def)

lemma u32_masked: "u32 (v AND 4294967295)"
  using pos_mod_bound [of 4294967296 v] by (simp add: bit_arith)

lemma py_store_ok:
  "py_store xs i v = Inr ys \<Longrightarrow> length ys = length xs \<and> set ys \<subseteq> insert v (set xs)"
  using set_update_subset_insert by (fastforce simp: py_store_def split: if_splits)

lemma side_write_reg: "side_ok m (write_reg r v m)"
proof (cases "py_store (am_registers m) r (v AND 4294967295)")
  case (Inl err)
  then show ?thesis by (simp add: write_reg_def)
next
  case (Inr regs)
  have "mach_ok m \<Longrightarrow> mach_ok (m\<lparr>am_registers := regs\<rparr>)"
    using py_store_ok [OF Inr] u32_masked [of v] unfolding mach_ok_def by auto
  then show ?thesis by (simp add: write_reg_def Inr side_ok_step same_ctl_def)
qed

lemma side_write_all: "side_ok m (write_all ws m)"
  unfolding write_all_def by (rule side_fold) (simp add: split_beta side_write_reg)

lemma side_complete_kernel: "side_ok m (complete_kernel m)"
proof -
  have fin: "side_ok m (Inr (), m\<lparr>am_kernel_result := None, am_kernel_pending_fault := None,
      am_kernel_pending_dst := None, am_kernel_cycles := 0\<rparr>)" for m
    by (rule side_ok_step) (auto simp: same_ctl_def mach_ok_def)
  have fault: "side_ok m (Inr (), m\<lparr>am_kernel_fault := Some err\<rparr>)" if "am_kernel_pending_fault m = Some err" for err
    using that by (intro side_ok_step) (auto simp: same_ctl_def mach_ok_def)
  have flag: "side_ok m (Inr (), m\<lparr>am_primitives := map_option (\<lambda>b. b\<lparr>bam_kernel_done := True\<rparr>) (am_primitives m)\<rparr>)" for m
    by (rule side_ok_step) (auto simp: same_ctl_def mach_ok_def prim_inv_def bam_bits_ok_def)
  show ?thesis
    unfolding complete_kernel_def
    by (rule side_bind)
      (auto intro!: side_bind fin fault flag side_write_all split: option.split)
qed

lemma side_tick_kernel: "side_ok m (tick_kernel m)"
proof -
  have "side_ok m (Inr (), m\<lparr>am_kernel_cycles := n\<rparr>)" "side_ok m (complete_kernel (m\<lparr>am_kernel_cycles := n\<rparr>))" for n
    by (rule side_ok_step side_ok_from [OF side_complete_kernel]; auto simp: same_ctl_def mach_ok_def)+
  then show ?thesis by (simp add: tick_kernel_def Let_def side_complete_kernel)
qed

lemma prim_inv_push:
  "prim_inv b \<Longrightarrow> pf_push w (input_fifo b) = Inr ws \<Longrightarrow> prim_inv (b\<lparr>input_fifo := ws\<rparr>)"
  using pf_push_ok by (auto simp: prim_inv_def bam_bits_ok_def)

lemma transport_tick_inv:
  assumes "prim_inv (snd tb)"
  shows "prim_inv (snd (snd (transport_tick e tb)))"
proof -
  define R :: "transport \<times> prim_bam \<Rightarrow> transport \<times> prim_bam \<Rightarrow> bool"
    where "R = (\<lambda>s t. prim_kept (snd s) (snd t))"
  have R: "reflp R" "transp R" by (auto simp: R_def prim_kept_def reflp_def transp_def)
  note bind = bind_s_frame [OF R(2)] and fold = fold_s_frame [OF R]
  have mem: "R (t, b) (snd (case on_memory f b of (r, b') \<Rightarrow> (r, (t', b'))))" for t t' b and f :: "local_memory \<Rightarrow> (prim_exn + unit) \<times> local_memory"
    using kept_on_memory [of b f] by (cases "on_memory f b") (simp add: R_def)
  have push: "R s (snd (fold_s
      (\<lambda>_ position (t, b).
         case pf_push (input_word c t position) (input_fifo b) of
           Inl err \<Rightarrow> (Inl err, (t, b))
         | Inr ws \<Rightarrow> (Inr (), (t, b\<lparr>input_fifo := ws\<rparr>))) () ps s))" for c ps s
    by (rule fold) (auto simp: R_def prim_kept_def prim_inv_push split: prod.split sum.split)
  have "R tb (snd (complete_input e c tb))" for c tb
    unfolding complete_input_def
    by (cases tb, simp only: prod.case, rule bind, rule mem, rule bind, rule push)
      (auto simp: R_def)
  moreover have "R tb (snd (complete_output e c tb))" for c tb
    unfolding complete_output_def
    by (cases tb) (auto simp: Let_def R_def intro: mem [unfolded R_def snd_conv])
  ultimately have "R tb (snd (complete_command e c tb))" for c tb
    unfolding complete_command_def by (intro bind) (auto simp: R_def split: prod.split)
  then have f: "R s (snd (fold_s (\<lambda>_ c tb. complete_command e c tb) () cs s))" for cs s
    by (intro fold)
  have "R tb (snd (transport_tick e tb))"
    using f by (cases tb) (simp add: transport_tick_def Let_def R_def prim_kept_def)
  with assms show ?thesis by (simp add: R_def prim_kept_def)
qed

lemma side_drain: "side_ok m (drain_completed cs t m)"
proof (induction cs t m rule: drain_completed.induct)
  case (1 t m)
  show ?case by (auto intro!: side_ok_step simp: same_ctl_def mach_ok_def)
next
  case (2 r v rest t m)
  let ?m = "m\<lparr>am_transport := Some (t\<lparr>tr_completed := rest\<rparr>)\<rparr>"
  have "side_ok m (write_reg r v ?m)"
    by (rule side_ok_from [OF side_write_reg]) (auto simp: same_ctl_def mach_ok_def)
  moreover have "side_ok u (drain_completed rest t
      (u\<lparr>am_transport_pending := filter (\<lambda>p. p \<noteq> r) (am_transport_pending u)\<rparr>))"
    if "write_reg r v ?m = (Inr x, u)" for x u
    by (rule side_ok_from [OF 2]) (auto simp: same_ctl_def mach_ok_def)
  ultimately show ?case unfolding drain_completed.simps by (rule side_bind)
qed

lemma side_tick_transport: "side_ok m (tick_transport m)"
proof (cases "am_transport m"; cases "am_primitives m")
  fix t b assume tb: "am_transport m = Some t" "am_primitives m = Some b"
  obtain r t' b' where tick: "transport_tick (am_entry m) (t, b) = (r, (t', b'))" by (metis surj_pair)
  let ?m = "m\<lparr>am_transport := Some t', am_primitives := Some b'\<rparr>"
  have base: "same_ctl m ?m" "mach_ok m \<Longrightarrow> mach_ok ?m"
    using transport_tick_inv [of "(t, b)" "am_entry m"] tick tb by (auto simp: same_ctl_def mach_ok_def)
  have good: "good_r r" using good_transport_tick [of "am_entry m" "(t, b)"] tick by simp
  show ?thesis
  proof (cases r)
    case (Inr u)
    with tb tick side_ok_from [OF side_drain base] show ?thesis by (simp add: tick_transport_def Let_def)
  next
    case (Inl err)
    with good base tb tick show ?thesis
      by (cases err) (auto simp: tick_transport_def Let_def side_ok_def same_ctl_def mach_ok_def)
  qed
qed (simp_all add: tick_transport_def)

lemma side_watchdog: "side_ok m (watchdog_cycle i m)"
  by (auto simp: watchdog_cycle_def Let_def side_ok_def same_ctl_def mach_ok_def)

lemma side_no_retirement: "side_ok m (no_retirement_cycle i k t m)"
  unfolding no_retirement_cycle_def
  by (auto intro!: side_bind side_tick_kernel side_tick_transport side_watchdog)

lemma side_stall: "side_ok m (stall i m)"
  unfolding stall_def by (auto intro!: side_bind side_no_retirement)

lemma side_read_reg: "side_ok m (lift_s (read_reg r m) m)"
  by (simp add: read_reg_def side_ok_lift)

lemma side_step_scalar: "side_ok m (step_scalar i m)"
proof -
  have "side_ok m (Inr (), m\<lparr>am_eq := a, am_signed_lt := b, am_unsigned_lt := c\<rparr>)" for m a b c
    by (auto intro!: side_ok_step simp: same_ctl_def mach_ok_def)
  then show ?thesis
    unfolding step_scalar_def Let_def
    by (auto intro!: side_bind side_ok_lift side_read_reg side_write_reg simp: lift_s_Inr)
qed

lemma side_step_transport: "side_ok m (step_transport i m)"
proof (cases "am_transport m"; cases "am_primitives m")
  fix t b assume tb: "am_transport m = Some t" "am_primitives m = Some b"
  obtain r t' where iss: "issue i (am_registers m) (am_entry m) b t = (r, t')" by (metis surj_pair)
  let ?m = "m\<lparr>am_transport := Some t'\<rparr>"
  have base: "same_ctl m ?m" "mach_ok m \<Longrightarrow> mach_ok ?m" by (auto simp: same_ctl_def mach_ok_def)
  note from_here = side_ok_from [OF _ base]
  have good: "good_r r" using good_issue [of i "am_registers m" "am_entry m" b t] iss by simp
  have "side_ok ?m (Inr (Some (am_pc m + 1, False)),
      ?m\<lparr>am_transport_pending := List.insert (mc_dst i) (am_transport_pending ?m)\<rparr>)"
    by (auto intro!: side_ok_step simp: same_ctl_def mach_ok_def)
  moreover have "side_ok ?m (bind_s (tick_transport ?m) (\<lambda>_ m. (Inr (Some (am_pc m + 1, False)), m)))"
    by (auto intro!: side_bind side_tick_transport)
  moreover have "side_ok ?m (Inl (fault_trap err i ?m), ?m)" if "r = Inl err" for err
    using good that by (cases err) (auto simp: fault_trap_def good_fault_def)
  ultimately show ?thesis
    using tb iss by (cases r) (auto simp: step_transport_def Let_def side_stall intro!: from_here)
qed (simp_all add: step_transport_def)

lemma side_primitive_waits:
  assumes "am_primitives m = Some b"
  shows "side_ok m (primitive_waits i b m)"
proof -
  have req: "trap_in side_traps (required_bits i m)" for m
    unfolding required_bits_def Let_def read_reg_def
    by (auto simp: bind_r_def map_error_def split: sum.split)
  have set: "side_ok m (Inr x, m\<lparr>am_primitives := Some (refill n b)\<rparr>)"
    "side_ok m (Inr x, m\<lparr>am_primitives := Some b\<rparr>)" for x :: bool and n
    using assms prim_inv_refill [of b n] by (auto simp: side_ok_def same_ctl_def mach_ok_def)
  show ?thesis
    unfolding primitive_waits_def Let_def
    by (auto intro!: side_bind side_ok_lift req set simp: lift_s_Inr)
qed

lemma side_call_primitive: "side_ok m (call_primitive i m)"
proof (cases "am_primitives m")
  case None
  then show ?thesis by (simp add: call_primitive_def)
next
  case (Some b)
  obtain r b' where ex: "execute_primitive i (am_registers m) (am_entry m) b = (r, b')" by (metis surj_pair)
  have "prim_kept b b'"
    using prim_kept_execute [of b i "am_registers m" "am_entry m"] ex by simp
  then have base: "same_ctl m (m\<lparr>am_primitives := Some b'\<rparr>)" "mach_ok m \<Longrightarrow> mach_ok (m\<lparr>am_primitives := Some b'\<rparr>)"
    using Some by (auto simp: same_ctl_def mach_ok_def prim_kept_def)
  have good: "good_r r" using good_execute [of i "am_registers m" "am_entry m" b] ex by simp
  show ?thesis
  proof (cases r)
    case (Inr x)
    with Some ex base show ?thesis by (simp add: call_primitive_def Let_def side_ok_step)
  next
    case (Inl err)
    with Some ex base good show ?thesis
      by (cases err)
        (auto simp: call_primitive_def Let_def side_ok_def same_ctl_def mach_ok_def good_fault_def)
  qed
qed

lemma side_cycles: "side_ok m (fold_s (\<lambda>_ _ m. no_retirement_cycle i True True m) u xs m)"
  by (rule side_fold) (rule side_no_retirement)

lemma side_finish_primitive: "side_ok m (finish_primitive i result m)"
proof -
  let ?m = "m\<lparr>am_primitive_cycles := am_primitive_cycles m @ [pr_cycles result]\<rparr>"
  let ?k = "(set_kernel_done False ?m)\<lparr>am_kernel_result := Some result,
    am_kernel_pending_dst := Some (mc_dst i), am_kernel_cycles := max (pr_cycles result - 1) 0\<rparr>"
  have a: "same_ctl m ?m" "mach_ok m \<Longrightarrow> mach_ok ?m" and k: "same_ctl m ?k" "mach_ok m \<Longrightarrow> mach_ok ?k"
    by (auto simp: same_ctl_def mach_ok_def set_kernel_done_def prim_inv_def bam_bits_ok_def)
  have "side_ok ?m (bind_s (write_all (pr_writes result) ?m) (\<lambda>_ m.
      fold_s (\<lambda>_ _ m. no_retirement_cycle i True True m) () (py_range 0 (max (pr_cycles result - 1) 0)) m))"
    by (rule side_bind [OF side_write_all side_cycles])
  note tail = side_ok_from [OF this a]
  show ?thesis
  proof (cases "mc_class i = CLS_KERNEL")
    case True
    have "side_ok m (complete_kernel ?k)" by (rule side_ok_from [OF side_complete_kernel k])
    moreover have "side_ok m (Inr (), ?k)" by (rule side_ok_step [OF k])
    ultimately show ?thesis
      unfolding finish_primitive_def Let_def if_P [OF True] by (simp only: split: if_split) blast
  next
    case False
    with tail show ?thesis unfolding finish_primitive_def Let_def by (simp only: if_False)
  qed
qed

lemma side_call_kernel:
  "side_ok m (call_primitive i (if mc_class i = CLS_KERNEL then set_kernel_done False m else m))"
  by (rule side_ok_from [OF side_call_primitive])
    (auto simp: same_ctl_def mach_ok_def set_kernel_done_def prim_inv_def bam_bits_ok_def)

lemma side_step_primitive: "side_ok m (step_primitive i m)"
proof -
  have "side_ok t (bind_s (call_primitive i (if mc_class i = CLS_KERNEL then set_kernel_done False t else t))
      (\<lambda>result m. bind_s (finish_primitive i result m) (\<lambda>_ m. (Inr (Some (am_pc m + 1, False)), m))))" for t
    by (intro side_bind side_call_kernel side_finish_primitive side_ok_return)
  then show ?thesis
    unfolding step_primitive_def
    by (auto intro!: side_bind side_primitive_waits side_stall split: option.split simp del: if_split)
qed

lemma side_pending_fault: "side_ok m (pending_fault i m)"
proof -
  have "trap_in side_traps (Inl (fault_trap err i m))" if "good_fault err" for err
    using that by (cases err) (auto simp: fault_trap_def good_fault_def)
  then show ?thesis
    unfolding pending_fault_def
    by (auto simp: side_ok_def same_ctl_def mach_ok_def split: option.split)
qed

lemma side_fetch_cycles: "side_ok m (fetch_cycles i m)"
proof -
  have "side_ok m (Inr (), m\<lparr>am_stall_cycles := f\<rparr>)" for m f
    by (auto intro!: side_ok_step simp: same_ctl_def mach_ok_def)
  then show ?thesis unfolding fetch_cycles_def Let_def by (auto intro!: side_bind side_cycles)
qed

section \<open>Progress\<close>

lemma no_retirement_progress:
  assumes "no_retirement_cycle i k t m = (Inr u, m')"
  shows "am_watchdog m < am_watchdog m' \<and> am_watchdog m' < am_timeout m'"
proof -
  from assms obtain m1 m2 where
    m1: "(if k then tick_kernel m else (Inr (), m)) = (Inr (), m1)" and
    m2: "(if t then tick_transport m1 else (Inr (), m1)) = (Inr (), m2)" and
    w: "watchdog_cycle i m2 = (Inr u, m')"
    by (auto simp: no_retirement_cycle_def bind_s_Inr)
  have "am_watchdog m \<le> am_watchdog m1"
    using m1 side_tick_kernel [of m] by (auto simp: side_ok_def same_ctl_def split: if_splits)
  also have "\<dots> \<le> am_watchdog m2"
    using m2 side_tick_transport [of m1] by (auto simp: side_ok_def same_ctl_def split: if_splits)
  finally show ?thesis using w by (auto simp: watchdog_cycle_def Let_def split: if_splits)
qed

text \<open>A step that answers nothing has spent watchdog time; the others go to the next instruction.\<close>

definition plain_outcome :: "apu_machine \<Rightarrow> (seq_exn + outcome) \<times> apu_machine \<Rightarrow> bool" where
  "plain_outcome m p \<longleftrightarrow>
     (case p of
        (Inr None, m') \<Rightarrow> am_watchdog m < am_watchdog m' \<and> am_watchdog m' < am_timeout m'
      | (Inr (Some (n, t)), m') \<Rightarrow> n = am_pc m + 1 \<and> \<not> t
      | _ \<Rightarrow> True)"

lemma stall_outcome: "same_ctl m0 m \<Longrightarrow> plain_outcome m0 (stall i m)"
  unfolding stall_def plain_outcome_def bind_s_def
  by (auto split: prod.split sum.split dest!: no_retirement_progress simp: same_ctl_def)

lemma next_outcome: "same_ctl m m' \<Longrightarrow> plain_outcome m (Inr (Some (am_pc m' + 1, False)), m')"
  by (simp add: plain_outcome_def same_ctl_def)

lemma outcome_bind:
  assumes "same_ctl m u" "side_ok u p" "\<And>x t. p = (Inr x, t) \<Longrightarrow> same_ctl m t \<Longrightarrow> plain_outcome m (k x t)"
  shows "plain_outcome m (bind_s p k)"
proof (cases p)
  case (Pair r t)
  then have "same_ctl m t" using assms(1,2) same_ctl_trans by (fastforce simp: side_ok_def)
  with assms(3) Pair show ?thesis by (cases r) (auto simp: plain_outcome_def)
qed

lemma scalar_outcome: "plain_outcome m (step_scalar i m)"
proof -
  have flags: "side_ok m (Inr (), m\<lparr>am_eq := a, am_signed_lt := b, am_unsigned_lt := c\<rparr>)" for m a b c
    by (auto intro!: side_ok_step simp: same_ctl_def mach_ok_def)
  show ?thesis
    unfolding step_scalar_def Let_def
    by (rule outcome_bind [OF same_ctl_refl]; (rule side_ok_lift; simp)?;
        rule outcome_bind, assumption, rule side_read_reg; rule outcome_bind, assumption, rule side_read_reg;
        rule outcome_bind, assumption) (auto simp: flags side_write_reg next_outcome)
qed

lemma transport_outcome: "plain_outcome m (step_transport i m)"
proof (cases "am_transport m"; cases "am_primitives m")
  fix t b assume tb: "am_transport m = Some t" "am_primitives m = Some b"
  obtain r t' where iss: "issue i (am_registers m) (am_entry m) b t = (r, t')" by (metis surj_pair)
  let ?m = "m\<lparr>am_transport := Some t'\<rparr>"
  have base: "same_ctl m ?m" by (auto simp: same_ctl_def)
  have "plain_outcome m (bind_s (tick_transport ?m) (\<lambda>_ m. (Inr (Some (am_pc m + 1, False)), m)))"
    by (rule outcome_bind [OF base side_tick_transport]) (rule next_outcome)
  then show ?thesis
    using tb iss stall_outcome [OF base]
    by (cases r) (auto simp: step_transport_def Let_def plain_outcome_def)
qed (simp_all add: step_transport_def plain_outcome_def)

lemma primitive_outcome: "plain_outcome m (step_primitive i m)"
proof (cases "am_primitives m")
  case None
  then show ?thesis by (simp add: step_primitive_def plain_outcome_def)
next
  case (Some b)
  have rest: "plain_outcome m (bind_s (call_primitive i (if mc_class i = CLS_KERNEL then set_kernel_done False t else t))
      (\<lambda>result m. bind_s (finish_primitive i result m) (\<lambda>_ m. (Inr (Some (am_pc m + 1, False)), m))))"
    if "same_ctl m t" for t
    by (rule outcome_bind [OF that side_call_kernel], rule outcome_bind [OF _ side_finish_primitive])
      (auto intro: next_outcome)
  show ?thesis
    unfolding step_primitive_def Some option.case
    by (rule outcome_bind [OF same_ctl_refl side_primitive_waits [OF Some]])
      (simp add: stall_outcome rest split: if_split del: if_split)
qed

section \<open>Control instructions follow the abstract flow\<close>

definition loops_of :: "(int \<Rightarrow> (int \<times> int) option) \<Rightarrow> int option list" where
  "loops_of ls = map (\<lambda>s. map_option snd (ls s)) [0, 1, 2, 3]"

definition flow_of :: "apu_machine \<Rightarrow> flow_state" where
  "flow_of m = (am_pc m, am_return_stack m, loops_of (am_loops m))"

lemma loop_slot_range: "loop_slot i \<in> {0, 1, 2, 3}"
proof -
  have "loop_slot i = mc_aux i mod 4" by (simp add: loop_slot_def bit_arith)
  moreover have "0 \<le> mc_aux i mod 4" "mc_aux i mod 4 < 4" by simp_all
  ultimately show ?thesis by auto
qed

lemma loops_of_nth: "loops_of ls ! nat (loop_slot i) = map_option snd (ls (loop_slot i))"
  using loop_slot_range [of i] by (auto simp: loops_of_def)

lemma loops_of_update: "loops_of (ls(loop_slot i := v)) = (loops_of ls)[nat (loop_slot i) := map_option snd v]"
  using loop_slot_range [of i] by (auto simp: loops_of_def)

text \<open>The only way a loop instruction of an accepted program traps: a setup whose count register
  is zero or above the limit of the entry.\<close>

definition bad_loop_count :: "apu_instruction \<Rightarrow> apu_machine \<Rightarrow> bool" where
  "bad_loop_count i m \<longleftrightarrow>
     mc_class i = CLS_CONTROL \<and> mc_opcode i = CTL_LOOP_SETUP \<and>
     (\<exists>r. read_reg (mc_src0 i) m = Inr r \<and> (r AND 65535 = 0 \<or> r AND 65535 > max_loop_count (am_entry m)))"

definition control_result ::
  "apu_instruction \<Rightarrow> apu_machine \<Rightarrow> flow_state list \<Rightarrow> (seq_exn + outcome) \<times> apu_machine \<Rightarrow> bool" where
  "control_result i m succs p =
     (case p of
        (Inr None, m') \<Rightarrow> same_ctl m m' \<and> (mach_ok m \<longrightarrow> mach_ok m') \<and>
          am_watchdog m < am_watchdog m' \<and> am_watchdog m' < am_timeout m'
      | (Inr (Some (n, t)), m') \<Rightarrow>
          (\<exists>rs ls. m' = m\<lparr>am_return_stack := rs, am_loops := ls\<rparr> \<and> (t \<or> (n, rs, loops_of ls) \<in> set succs))
      | (Inl (SequencerTrap k pc j d), m') \<Rightarrow> k \<in> {7, 10} \<or> k = 4 \<and> bad_loop_count i m'
      | (Inl (SeqError err), m') \<Rightarrow> True)"

lemma stall_control: "control_result i m succs (stall i m)"
proof -
  have "plain_outcome m (stall i m)" "side_ok m (stall i m)"
    by (simp_all add: stall_outcome side_stall)
  moreover have "trap_in {7} (fst (stall i m))"
    by (auto simp: stall_def no_retirement_cycle_def watchdog_cycle_def Let_def)
  moreover have "fst (stall i m) = Inr None \<or> (\<exists>err. fst (stall i m) = Inl err)"
    by (auto simp: stall_def bind_s_def split: prod.split sum.split)
  ultimately show ?thesis
    by (auto simp: control_result_def plain_outcome_def side_ok_def trap_in_def split: prod.split sum.split seq_exn.split option.split)
qed

lemma control_next: "(n, am_return_stack m, loops_of (am_loops m)) \<in> set succs \<Longrightarrow>
    control_result i m succs (Inr (Some (n, False)), m)"
  by (auto simp: control_result_def intro!: exI [of _ "am_return_stack m"] exI [of _ "am_loops m"])

lemma loop_setup_control:
  assumes "expand_control target pairs i CTL_LOOP_SETUP (flow_of m) = Inr y" "mc_class i = CLS_CONTROL"
    "mc_opcode i = CTL_LOOP_SETUP"
  shows "control_result i m (fx_successors y) (loop_setup i m)"
proof -
  from assms(1) have free: "am_loops m (loop_slot i) = None"
    and succ: "(am_pc m + 1, am_return_stack m, (loops_of (am_loops m))[nat (loop_slot i) := Some (am_pc m + 1)])
      \<in> set (fx_successors y)"
    by (cases "am_loops m (loop_slot i)";
        auto simp: expand_control_def flow_of_def loops_of_nth Let_def expansion_def split: if_splits)+
  show ?thesis
  proof (cases "read_reg (mc_src0 i) m")
    case (Inl err)
    then show ?thesis
      by (cases "py_index (am_registers m) (mc_src0 i)") (auto simp: loop_setup_def lift_s_def control_result_def read_reg_def)
  next
    case (Inr r)
    have "control_result i m (fx_successors y) (Inr (Some (am_pc m + 1, False)),
        m\<lparr>am_loops := (am_loops m)(loop_slot i \<mapsto> (c, am_pc m + 1))\<rparr>)" for c
      using succ by (auto simp: control_result_def loops_of_update
          intro!: exI [of _ "am_return_stack m"] exI [of _ "(am_loops m)(loop_slot i \<mapsto> (c, am_pc m + 1))"])
    moreover have "control_result i m (fx_successors y) (Inl (trap 4 i m), m)" if "bad_loop_count i m"
      using that by (simp add: control_result_def trap_def)
    ultimately show ?thesis
      using Inr free assms(2,3) by (auto simp: loop_setup_def lift_s_def Let_def bad_loop_count_def)
  qed
qed

lemma loop_back_control:
  assumes "expand_control target pairs i CTL_LOOP_BACK (flow_of m) = Inr y"
    and "map_of pairs (am_pc m) = Some (am_pc m + 1 - mc_immediate i)"
    and "first_pc (am_entry m) \<le> am_pc m + 1 - mc_immediate i"
  shows "control_result i m (fx_successors y) (loop_back i m)"
proof -
  let ?dest = "am_pc m + 1 - mc_immediate i" and ?slot = "loop_slot i"
  from assms(1,2) have act: "map_option snd (am_loops m ?slot) = Some ?dest"
    and succ: "(?dest, am_return_stack m, loops_of (am_loops m)) \<in> set (fx_successors y)"
      "(am_pc m + 1, am_return_stack m, (loops_of (am_loops m))[nat ?slot := None]) \<in> set (fx_successors y)"
    by (auto simp: expand_control_def flow_of_def loops_of_nth Let_def expansion_def split: if_splits)
  from act obtain count where c: "am_loops m ?slot = Some (count, ?dest)" by auto
  have same: "(loops_of (am_loops m))[nat ?slot := Some ?dest] = loops_of (am_loops m)"
    using loops_of_nth [of "am_loops m" i] act by (metis list_update_id)
  have "control_result i m (fx_successors y) (Inr (Some (?dest, False)),
      m\<lparr>am_loops := (am_loops m)(?slot \<mapsto> (count - 1, ?dest))\<rparr>)"
    using succ(1) same by (auto simp: control_result_def loops_of_update
        intro!: exI [of _ "am_return_stack m"] exI [of _ "(am_loops m)(?slot \<mapsto> (count - 1, ?dest))"])
  moreover have "control_result i m (fx_successors y) (Inr (Some (am_pc m + 1, False)),
      m\<lparr>am_loops := (am_loops m)(?slot := None)\<rparr>)"
    using succ(2) by (auto simp: control_result_def loops_of_update
        intro!: exI [of _ "am_return_stack m"] exI [of _ "(am_loops m)(?slot := None)"])
  ultimately show ?thesis using c assms(3) by (simp add: loop_back_def Let_def)
qed

lemma step_control_flow:
  assumes "expand_control target pairs i (mc_opcode i) (flow_of m) = Inr y"
    and "mc_class i = CLS_CONTROL" "0 \<le> mc_opcode i" "mc_opcode i \<le> CTL_WAIT"
    and "mc_opcode i = CTL_LOOP_BACK \<Longrightarrow> map_of pairs (am_pc m) = Some (am_pc m + 1 - mc_immediate i) \<and>
      first_pc (am_entry m) \<le> am_pc m + 1 - mc_immediate i"
  shows "control_result i m (fx_successors y) (step_control i m)"
proof -
  note unfold = step_control_def Let_def control_opcode_def lift_s_def
  consider (setup_op) "mc_opcode i = CTL_LOOP_SETUP" | (back_op) "mc_opcode i = CTL_LOOP_BACK"
    | (call_op) "mc_opcode i = CTL_CALL_FWD" | (ret_op) "mc_opcode i = CTL_RET" | (end_op) "mc_opcode i = CTL_END"
    | (trap_op) "mc_opcode i = CTL_TRAP" | (jump_op) "mc_opcode i = CTL_JUMP_FWD"
    | (nop_op) "mc_opcode i = CTL_NOP" | (wait_op) "mc_opcode i = CTL_WAIT"
    using assms(3,4) by fastforce
  then show ?thesis
  proof cases
    case setup_op
    then show ?thesis using loop_setup_control [of target pairs i m y] assms(1,2) by (simp add: unfold)
  next
    case back_op
    then show ?thesis using loop_back_control [of target pairs i m y] assms(1,5) by (simp add: unfold)
  next
    case call_op
    with assms(1) have "length (am_return_stack m) \<noteq> 4"
      "(am_pc m + 1 + mc_immediate i, am_return_stack m @ [am_pc m + 1], loops_of (am_loops m)) \<in> set (fx_successors y)"
      by (auto simp: expand_control_def flow_of_def Let_def expansion_def split: if_splits)
    with call_op show ?thesis
      by (auto simp: unfold control_result_def
          intro!: exI [of _ "am_return_stack m @ [am_pc m + 1]"] exI [of _ "am_loops m"])
  next
    case ret_op
    with assms(1) have "am_return_stack m \<noteq> []"
      "(last (am_return_stack m), butlast (am_return_stack m), loops_of (am_loops m)) \<in> set (fx_successors y)"
      by (auto simp: expand_control_def flow_of_def Let_def expansion_def split: if_splits)
    with ret_op show ?thesis
      by (auto simp: unfold control_result_def
          intro!: exI [of _ "butlast (am_return_stack m)"] exI [of _ "am_loops m"])
  next
    case end_op
    have "control_result i m (fx_successors y) (Inr (Some (am_pc m + 1, True)), m)"
      by (auto simp: control_result_def intro!: exI [of _ "am_return_stack m"] exI [of _ "am_loops m"])
    with end_op show ?thesis by (simp add: unfold stall_control)
  next
    case trap_op
    then show ?thesis by (simp add: unfold control_result_def)
  next
    case jump_op
    with assms(1) have "(am_pc m + 1 + mc_immediate i, am_return_stack m, loops_of (am_loops m)) \<in> set (fx_successors y)"
      by (auto simp: expand_control_def flow_of_def Let_def expansion_def)
    with jump_op show ?thesis by (simp add: unfold control_next)
  next
    case nop_op
    with assms(1) have "(am_pc m + 1, am_return_stack m, loops_of (am_loops m)) \<in> set (fx_successors y)"
      by (auto simp: expand_control_def flow_of_def Let_def expansion_def)
    with nop_op show ?thesis by (simp add: unfold control_next)
  next
    case wait_op
    with assms(1) have "(am_pc m + 1, am_return_stack m, loops_of (am_loops m)) \<in> set (fx_successors y)"
      by (auto simp: expand_control_def flow_of_def Let_def expansion_def split: if_splits)
    with wait_op show ?thesis by (simp add: unfold control_next stall_control)
  qed
qed

section \<open>One step of an accepted program\<close>

definition same_prog :: "apu_machine \<Rightarrow> apu_machine \<Rightarrow> bool" where
  "same_prog m m' \<longleftrightarrow>
     am_instructions m' = am_instructions m \<and> am_entry m' = am_entry m \<and> am_timeout m' = am_timeout m \<and>
     am_target m' = am_target m \<and> am_abi m' = am_abi m"

lemma same_ctl_prog: "same_ctl m m' \<Longrightarrow> same_prog m m'"
  by (simp add: same_ctl_def same_prog_def)

lemma same_ctl_flow: "same_ctl m m' \<Longrightarrow> flow_of m' = flow_of m"
  by (simp add: same_ctl_def flow_of_def)

lemma same_prog_trans: "same_prog a b \<Longrightarrow> same_prog b c \<Longrightarrow> same_prog a c"
  by (simp add: same_prog_def)

text \<open>What a step of a machine with a well-formed state may answer: it stalls and spends watchdog
  time, it retires one instruction and moves along the abstract flow, it ends, or it traps for a reason
  that is not a fault of the control flow.\<close>

definition step_result :: "apu_machine \<Rightarrow> flow_state list \<Rightarrow> (seq_exn + bool) \<times> apu_machine \<Rightarrow> bool" where
  "step_result m succs p =
     (case p of
        (Inr stop, m') \<Rightarrow> same_prog m m' \<and> mach_ok m' \<and>
          (\<not> stop \<and> flow_of m' = flow_of m \<and> am_retired m' = am_retired m \<and> am_watchdog m < am_watchdog m' \<and>
             am_watchdog m' < am_timeout m \<or>
           (stop \<or> flow_of m' \<in> set succs) \<and> am_retired m' = am_retired m + 1 \<and>
             am_retired m < max_retired (am_entry m))
      | (Inl (SequencerTrap k pc j d), m') \<Rightarrow>
          k \<in> {1, 5, 6, 7, 8, 9, 10} \<or> k = 4 \<and> bad_loop_count j m'
      | (Inl (SeqError err), m') \<Rightarrow> True)"

lemma step_result_from:
  assumes "same_ctl m m1" "step_result m1 succs p"
  shows "step_result m succs p"
proof -
  obtain r m' where p: "p = (r, m')" by (cases p)
  have "same_prog m m'" if "same_prog m1 m'" using that assms(1) by (auto simp: same_ctl_def same_prog_def)
  moreover have "flow_of m1 = flow_of m" "am_retired m1 = am_retired m" "am_watchdog m \<le> am_watchdog m1"
    "am_entry m1 = am_entry m" "am_timeout m1 = am_timeout m"
    using assms(1) by (simp_all add: same_ctl_def flow_of_def)
  ultimately show ?thesis
    using assms(2) p by (cases r) (auto simp: step_result_def split: seq_exn.splits)
qed

lemma step_result_side:
  assumes "same_ctl m u" "mach_ok u" "side_ok u p"
    and "\<And>x t. p = (Inr x, t) \<Longrightarrow> same_ctl m t \<Longrightarrow> mach_ok t \<Longrightarrow> step_result m succs (k x t)"
  shows "step_result m succs (bind_s p k)"
proof (cases p)
  case (Pair r t)
  show ?thesis
  proof (cases r)
    case (Inl err)
    with Pair assms(2,3) have "trap_in side_traps (Inl err :: seq_exn + 'a)" by (simp add: side_ok_def trap_in_def)
    with Pair Inl show ?thesis by (cases err) (auto simp: step_result_def)
  next
    case (Inr x)
    with Pair assms(1-3) have "same_ctl m t" "mach_ok t"
      by (auto simp: side_ok_def intro: same_ctl_trans)
    with assms(4) Pair Inr show ?thesis by simp
  qed
qed

lemma retire_cases:
  obtains (ok) m' where "retire_instruction i pt m = (Inr (), m')" "same_prog m m'" "am_pc m' = am_pc m"
      "am_return_stack m' = am_return_stack m" "am_loops m' = am_loops m" "am_retired m' = am_retired m + 1"
      "mach_ok m \<longrightarrow> mach_ok m'"
  | (error) err m' where "retire_instruction i pt m = (Inl (SeqError err), m')"
proof (cases "mc_encode i")
  case (Inl err)
  then show thesis by (intro error) (simp add: retire_instruction_def Let_def)
next
  case (Inr w)
  let ?m = "m\<lparr>am_retired := am_retired m + 1, am_watchdog := 0,
    am_trace := am_trace m @ [\<lparr>ti_pc = am_pc m, ti_word = w, ti_predicate = pt, ti_retired = am_retired m + 1\<rparr>]\<rparr>"
  show thesis
    by (rule ok [of ?m]) (simp_all add: retire_instruction_def Let_def Inr same_prog_def mach_ok_def)
qed

text \<open>The successors of the expansion that a retired instruction may take.\<close>

lemma finish_step_result:
  assumes "mach_ok m" "am_retired m < max_retired (am_entry m)"
    and ok': "\<And>st. st \<in> set succs \<Longrightarrow> first_pc (am_entry m) \<le> fst st \<and> fst st \<le> last_pc (am_entry m)"
    and out: "control_result i m succs (Inr out, m1)"
  shows "step_result m succs (finish_step i out m1)"
proof (cases out)
  case None
  with assms show ?thesis
    by (auto simp: finish_step_def step_result_def control_result_def same_ctl_prog same_ctl_flow) (auto simp: same_ctl_def)
next
  case (Some nt)
  then obtain n t where nt: "out = Some (n, t)" by (cases nt) auto
  with out obtain rs ls where m1: "m1 = m\<lparr>am_return_stack := rs, am_loops := ls\<rparr>"
    and succ: "t \<or> (n, rs, loops_of ls) \<in> set succs" by (auto simp: control_result_def)
  have mo: "mach_ok m1" using assms(1) by (simp add: m1 mach_ok_def)
  show ?thesis
  proof (cases rule: retire_cases [of i True m1])
    case (ok m2)
    have ent: "am_entry m2 = am_entry m" "same_prog m m2" "am_retired m2 = am_retired m + 1" "mach_ok m2"
      using ok mo m1 by (simp_all add: same_prog_def)
    show ?thesis
    proof (cases t)
      case True
      with ok(1) nt ent assms(2) show ?thesis by (simp add: finish_step_def step_result_def)
    next
      case False
      with succ have s: "(n, rs, loops_of ls) \<in> set succs" by simp
      from ok' [OF s] have "\<not> (n < first_pc (am_entry m) \<or> n > last_pc (am_entry m))" by simp
      moreover have "flow_of (m2\<lparr>am_pc := n\<rparr>) = (n, rs, loops_of ls)" using ok(4,5) m1 by (simp add: flow_of_def)
      moreover have "same_prog m (m2\<lparr>am_pc := n\<rparr>)" "mach_ok (m2\<lparr>am_pc := n\<rparr>)"
        using ent(2,4) by (simp_all add: same_prog_def mach_ok_def)
      ultimately show ?thesis
        using False ok(1) nt ent s assms(2) by (simp add: finish_step_def step_result_def)
    qed
  next
    case (error err m2)
    with nt show ?thesis by (simp add: finish_step_def step_result_def)
  qed
qed

lemma control_result_mono:
  "control_result i m succs p \<Longrightarrow> set succs \<subseteq> set succs' \<Longrightarrow> control_result i m succs' p"
  unfolding control_result_def by (auto split: prod.splits sum.splits option.splits seq_exn.splits; blast)

lemma plain_body_result:
  assumes "mach_ok m" "am_retired m < max_retired (am_entry m)" "side_ok m p" "plain_outcome m p"
    and ok: "\<And>st. st \<in> set succs \<Longrightarrow> first_pc (am_entry m) \<le> fst st \<and> fst st \<le> last_pc (am_entry m)"
    and succ: "(am_pc m + 1, am_return_stack m, loops_of (am_loops m)) \<in> set succs"
  shows "step_result m succs (bind_s p (\<lambda>r m. finish_step i r m))"
proof (rule step_result_side [OF same_ctl_refl assms(1,3)])
  fix out t assume p: "p = (Inr out, t)" and t: "same_ctl m t" "mach_ok t"
  show "step_result m succs (finish_step i out t)"
  proof (cases out)
    case None
    with p assms(4) t show ?thesis
      by (auto simp: plain_outcome_def finish_step_def step_result_def same_ctl_prog same_ctl_flow)
        (auto simp: same_ctl_def)
  next
    case (Some nt)
    with p assms(4) have out: "out = Some (am_pc m + 1, False)" by (cases nt) (simp add: plain_outcome_def)
    have e: "am_entry t = am_entry m" "am_retired t = am_retired m" using t(1) by (simp_all add: same_ctl_def)
    have "control_result i t succs (Inr out, t)"
      using succ t(1) unfolding out by (intro control_next) (simp add: same_ctl_def)
    then have "step_result t succs (finish_step i out t)"
      using t(2) assms(2) ok e by (intro finish_step_result) auto
    with t(1) show ?thesis by (rule step_result_from)
  qed
qed

lemma control_body_result:
  assumes "mach_ok m" "am_retired m < max_retired (am_entry m)" "control_result i m succs p"
    and ok: "\<And>st. st \<in> set succs \<Longrightarrow> first_pc (am_entry m) \<le> fst st \<and> fst st \<le> last_pc (am_entry m)"
    and own: "\<And>k pc j d t. p = (Inl (SequencerTrap k pc j d), t) \<Longrightarrow> j = i"
  shows "step_result m succs (bind_s p (\<lambda>r m. finish_step i r m))"
proof -
  obtain r t where p: "p = (r, t)" by (cases p)
  show ?thesis
  proof (cases r)
    case (Inr out)
    with p finish_step_result [OF assms(1,2) ok, of succs i out t] assms(3) show ?thesis by simp
  next
    case (Inl err)
    with p assms(3) own show ?thesis
      by (cases err) (auto simp: step_result_def control_result_def intro: same_ctl_refl)
  qed
qed

text \<open>A trap of a control instruction names the instruction itself.\<close>

lemma control_trap_names: "step_control i m = (Inl (SequencerTrap k pc j d), t) \<Longrightarrow> j = i"
  unfolding step_control_def loop_setup_def loop_back_def stall_def no_retirement_cycle_def watchdog_cycle_def
  by (auto simp: Let_def bind_s_def lift_s_def trap_def read_reg_def map_error_def
      split: if_splits option.splits sum.splits prod.splits)

definition flow_accepted :: "apu_instruction list \<Rightarrow> apu_entry \<Rightarrow> apu_target \<Rightarrow> flow_scan \<Rightarrow> bool" where
  "flow_accepted instrs e target sc \<longleftrightarrow>
     scan_inv instrs e (last_pc e + 1) sc \<and>
     (\<forall>st \<in> entry_reachable instrs e target sc. \<exists>x. entry_flow instrs e target sc st = Inr x)"

lemma report_accepted:
  assumes "control_flow_report instrs e target abi = Inr r" "first_pc e \<le> last_pc e"
  obtains sc where "scan_loops instrs e = Inr sc" "flow_accepted instrs e target sc"
proof -
  from assms(1) obtain sc s where sc: "scan_loops instrs e = Inr sc"
    "explore instrs e target abi (loop_pairs sc) = Inr s" by (auto simp: control_flow_report_Inr)
  from sc scan_loops_facts(1) [OF _ assms(2)] explore_Inr [of instrs e target abi sc]
  have "flow_accepted instrs e target sc" unfolding flow_accepted_def by blast
  with sc(1) show thesis by (rule that)
qed

lemma accepted_pc:
  assumes "flow_accepted instrs e target sc" "st \<in> entry_reachable instrs e target sc"
  shows "first_pc e \<le> fst st \<and> fst st \<le> last_pc e"
proof -
  obtain pc rs ls where st: "st = (pc, rs, ls)" by (cases st)
  from assms obtain x where "expand instrs e target (loop_pairs sc) st = Inr x"
    unfolding flow_accepted_def by blast
  then show ?thesis unfolding st by (auto elim: expandE)
qed

text \<open>A machine that runs an accepted program and is at a state of its flow.\<close>

definition on_flow :: "flow_scan \<Rightarrow> apu_machine \<Rightarrow> bool" where
  "on_flow sc m \<longleftrightarrow>
     mach_ok m \<and> flow_accepted (am_instructions m) (am_entry m) (am_target m) sc \<and>
     (\<forall>i \<in> set (am_instructions m). validate_instruction i (am_target m) (am_abi m) = Inr ()) \<and>
     0 \<le> first_pc (am_entry m) \<and> last_pc (am_entry m) < int (length (am_instructions m)) \<and>
     last_pc (am_entry m) \<le> (if am_abi m = APUMC_ABI_V1 then 2047 else 4095) \<and>
     flow_of m \<in> entry_reachable (am_instructions m) (am_entry m) (am_target m) sc"

lemma on_flow_ctl: "on_flow sc m \<Longrightarrow> same_ctl m m' \<Longrightarrow> mach_ok m' \<Longrightarrow> on_flow sc m'"
  by (auto simp: on_flow_def same_ctl_flow) (auto simp: same_ctl_def)

lemma body_result:
  assumes flow: "on_flow sc m" and i: "py_index (am_instructions m) (am_pc m) = Inr i"
    and x: "entry_flow (am_instructions m) (am_entry m) (am_target m) sc (flow_of m) = Inr x"
    and "am_retired m < max_retired (am_entry m)"
  shows "step_result m (fx_successors x) (bind_s (step_body i m) (\<lambda>r m. finish_step i r m))"
proof -
  note f = flow [unfolded on_flow_def]
  have ok: "first_pc (am_entry m) \<le> fst st \<and> fst st \<le> last_pc (am_entry m)" if "st \<in> set (fx_successors x)" for st
  proof (rule accepted_pc [of "am_instructions m" _ "am_target m" sc])
    show "flow_accepted (am_instructions m) (am_entry m) (am_target m) sc" using f by blast
    show "st \<in> entry_reachable (am_instructions m) (am_entry m) (am_target m) sc"
      using f x that by (auto intro: flow_reachable_step simp: flow_step_def)
  qed
  from x [unfolded flow_of_def] obtain j y where
    y: "py_index (am_instructions m) (am_pc m) = Inr j"
      "mc_class j \<noteq> CLS_CONTROL \<and> y = expansion [(am_pc m + 1, am_return_stack m, loops_of (am_loops m))] [(am_pc m, am_pc m + 1, Fallthrough)] \<or>
       mc_class j = CLS_CONTROL \<and> 0 \<le> mc_opcode j \<and> mc_opcode j \<le> CTL_WAIT \<and>
       expand_control (am_target m) (loop_pairs sc) j (mc_opcode j) (flow_of m) = Inr y"
      "set (fx_successors y) \<subseteq> set (fx_successors x)" "first_pc (am_entry m) \<le> am_pc m" "am_pc m \<le> last_pc (am_entry m)"
    by (rule expandE) (auto simp: flow_of_def)
  from y(1) i have ij: "j = i" by simp
  show ?thesis
  proof (cases "mc_class i = CLS_CONTROL")
    case True
    have backs: "map_of (loop_pairs sc) (am_pc m) = Some (am_pc m + 1 - mc_immediate i) \<and>
        first_pc (am_entry m) \<le> am_pc m + 1 - mc_immediate i" if "mc_opcode i = CTL_LOOP_BACK"
      using back_start [of "am_instructions m" "am_entry m" sc "am_pc m" i] f y(4,5) i True that
      by (auto simp: flow_accepted_def control_at_def)
    have "control_result i m (fx_successors y) (step_control i m)"
      using y(2) True backs by (intro step_control_flow [of "am_target m" "loop_pairs sc"]) (auto simp: ij)
    then have "control_result i m (fx_successors x) (step_control i m)"
      using y(3) by (rule control_result_mono)
    then have "step_result m (fx_successors x) (bind_s (step_control i m) (\<lambda>r m. finish_step i r m))"
      using f assms(4) ok control_trap_names by (intro control_body_result) auto
    with True show ?thesis by (simp add: step_body_def)
  next
    case False
    with y(2,3) ij have succ: "(am_pc m + 1, am_return_stack m, loops_of (am_loops m)) \<in> set (fx_successors x)"
      by (auto simp: expansion_def)
    have "side_ok m (step_body i m)" "plain_outcome m (step_body i m)"
      using False by (simp_all add: step_body_def side_step_scalar side_step_transport side_step_primitive
          scalar_outcome transport_outcome primitive_outcome)
    then show ?thesis using f assms(4) ok succ by (intro plain_body_result) auto
  qed
qed

lemma skip_result:
  assumes "mach_ok m" "am_retired m < max_retired (am_entry m)"
    and "(am_pc m + 1, am_return_stack m, loops_of (am_loops m)) \<in> set succs"
    and "am_pc m + 1 \<le> last_pc (am_entry m)"
    and "last_pc (am_entry m) \<le> (if am_abi m = APUMC_ABI_V1 then 2047 else 4095)"
  shows "step_result m succs (skip_instruction i m)"
proof -
  have "skip_instruction i m =
      bind_s (retire_instruction i False m) (\<lambda>_ m. (Inr False, m\<lparr>am_pc := am_pc m + 1\<rparr>))"
    using assms(4,5) by (auto simp: skip_instruction_def Let_def)
  moreover have "step_result m succs \<dots>"
  proof (cases rule: retire_cases [of i False m])
    case (ok m2)
    have "mach_ok m2" using ok(7) assms(1) by blast
    then have "mach_ok (m2\<lparr>am_pc := am_pc m2 + 1\<rparr>)" by (simp add: mach_ok_def)
    moreover have "same_prog m (m2\<lparr>am_pc := am_pc m2 + 1\<rparr>)" using ok(2) by (simp add: same_prog_def)
    moreover have "flow_of (m2\<lparr>am_pc := am_pc m2 + 1\<rparr>) = (am_pc m + 1, am_return_stack m, loops_of (am_loops m))"
      using ok(3-5) by (simp add: flow_of_def)
    ultimately show ?thesis using ok(1,6) assms(2,3) by (simp add: step_result_def)
  next
    case (error err m2)
    then show ?thesis by (simp add: step_result_def)
  qed
  ultimately show ?thesis by simp
qed

lemma predicate_values_Cons: "\<exists>vs. predicate_values m = True # vs"
  by (auto simp: predicate_values_def Let_def split: prod.split)

lemma predicate_result:
  shows "predicate p m = Inr h \<Longrightarrow> \<not> h \<Longrightarrow> p \<noteq> 0"
    and "trap_in {1} (predicate p m)"
proof -
  show "p \<noteq> 0" if "predicate p m = Inr h" "\<not> h"
    using that predicate_values_Cons [of m] by (auto simp: predicate_def py_index_def map_error_def)
  show "trap_in {1} (predicate p m)"
    by (simp add: predicate_def split: sum.split)
qed

lemma stalled_result:
  assumes "mach_ok m" shows "step_result m succs (bind_s (no_retirement_cycle i False False m) (\<lambda>_ m. (Inr False, m)))"
proof (rule step_result_side [OF same_ctl_refl assms])
  show "side_ok m (no_retirement_cycle i False False m)" by (rule side_no_retirement)
  fix x t assume "no_retirement_cycle i False False m = (Inr x, t)" and t: "same_ctl m t" "mach_ok t"
  from no_retirement_progress [OF this(1)] t show "step_result m succs (Inr False, t)"
    by (simp add: step_result_def same_ctl_prog same_ctl_flow) (simp add: same_ctl_def)
qed

lemma on_flow_expand:
  assumes "on_flow sc m"
  obtains x where "entry_flow (am_instructions m) (am_entry m) (am_target m) sc (flow_of m) = Inr x"
  using assms by (auto simp: on_flow_def flow_accepted_def)

lemma issue_result:
  assumes flow: "on_flow sc m" and i: "py_index (am_instructions m) (am_pc m) = Inr i"
    and x: "entry_flow (am_instructions m) (am_entry m) (am_target m) sc (flow_of m) = Inr x"
  shows "step_result m (fx_successors x) (issue_instruction i m)"
proof (cases "validate_instruction i (am_target m) (am_abi m) = Inr () \<and> am_retired m < max_retired (am_entry m)")
  case False
  then show ?thesis
    by (auto simp: issue_instruction_def step_result_def trap_def split: sum.splits)
next
  case True
  have ok: "mach_ok m" and lim: "last_pc (am_entry m) \<le> (if am_abi m = APUMC_ABI_V1 then 2047 else 4095)"
    using flow by (simp_all add: on_flow_def)
  have skip: "step_result m (fx_successors x) (skip_instruction i m)" if "mc_predicate i \<noteq> 0"
  proof (rule skip_result [OF ok _ _ _ lim])
    from x [unfolded flow_of_def] i that show
      s: "(am_pc m + 1, am_return_stack m, loops_of (am_loops m)) \<in> set (fx_successors x)"
      by (auto elim!: expandE)
    have "(am_pc m + 1, am_return_stack m, loops_of (am_loops m)) \<in>
        entry_reachable (am_instructions m) (am_entry m) (am_target m) sc"
      using flow x s by (auto simp: on_flow_def flow_step_def intro: flow_reachable_step)
    with accepted_pc [of "am_instructions m" "am_entry m" "am_target m" sc] flow
    show "am_pc m + 1 \<le> last_pc (am_entry m)" by (fastforce simp: on_flow_def)
  qed (use True in simp)
  show ?thesis
  proof (cases "predicate (mc_predicate i) m")
    case (Inl err)
    with predicate_result(2) [of "mc_predicate i" m] True show ?thesis
      by (cases err) (auto simp: issue_instruction_def step_result_def lift_s_def)
  next
    case (Inr h)
    with True have "issue_instruction i m =
        (if \<not> h then skip_instruction i m
         else if pending_dependency i m then bind_s (no_retirement_cycle i False False m) (\<lambda>_ m. (Inr False, m))
         else bind_s (step_body i m) (\<lambda>r m. finish_step i r m))"
      by (simp add: issue_instruction_def lift_s_def)
    then show ?thesis
      using skip predicate_result(1) [OF Inr] stalled_result [OF ok] body_result [OF flow i x] True by simp
  qed
qed

lemma on_flow_fetch:
  assumes "on_flow sc m"
  obtains i where "py_index (am_instructions m) (am_pc m) = Inr i"
    "\<not> (am_pc m < first_pc (am_entry m) \<or> am_pc m > last_pc (am_entry m))"
proof -
  from assms obtain x where "expand (am_instructions m) (am_entry m) (am_target m) (loop_pairs sc) (flow_of m) = Inr x"
    by (rule on_flow_expand)
  then show thesis unfolding flow_of_def by (elim expandE) (auto intro: that)
qed

lemma apu_step_result:
  assumes flow: "on_flow sc m"
    and x: "entry_flow (am_instructions m) (am_entry m) (am_target m) sc (flow_of m) = Inr x"
  shows "step_result m (fx_successors x) (apu_step m)"
proof -
  from flow obtain i where i: "py_index (am_instructions m) (am_pc m) = Inr i"
    "\<not> (am_pc m < first_pc (am_entry m) \<or> am_pc m > last_pc (am_entry m))" by (rule on_flow_fetch)
  have ok: "mach_ok m" using flow by (simp add: on_flow_def)
  have issue: "step_result m (fx_successors x) (issue_instruction i t)" if t: "same_ctl m t" "mach_ok t" for t
  proof -
    have "am_instructions t = am_instructions m" "am_entry t = am_entry m" "am_target t = am_target m" "am_pc t = am_pc m"
      using t(1) by (simp_all add: same_ctl_def)
    with issue_result [OF on_flow_ctl [OF flow t], of i x] i x same_ctl_flow [OF t(1)]
    have "step_result t (fx_successors x) (issue_instruction i t)" by simp
    with t(1) show ?thesis by (rule step_result_from)
  qed
  have "step_result m (fx_successors x) (bind_s (tick_kernel m) (\<lambda>_ m. bind_s (tick_transport m) (\<lambda>_ m.
      bind_s (pending_fault i m) (\<lambda>_ m. issue_instruction i m))))"
    by (rule step_result_side [OF same_ctl_refl ok side_tick_kernel], rule step_result_side [OF _ _ side_tick_transport],
        assumption+, rule step_result_side [OF _ _ side_pending_fault], assumption+, rule issue)
  with i show ?thesis by (simp add: apu_step_def lift_s_def map_error_def)
qed

lemma run_iteration_result:
  assumes flow: "on_flow sc m"
    and x: "entry_flow (am_instructions m) (am_entry m) (am_target m) sc (flow_of m) = Inr x"
  shows "step_result m (fx_successors x) (run_iteration fetch m)"
proof -
  from flow obtain i where i: "py_index (am_instructions m) (am_pc m) = Inr i"
    "\<not> (am_pc m < first_pc (am_entry m) \<or> am_pc m > last_pc (am_entry m))" by (rule on_flow_fetch)
  have ok: "mach_ok m" using flow by (simp add: on_flow_def)
  have "step_result m (fx_successors x) (bind_s (if fetch then fetch_cycles i m else (Inr (), m)) (\<lambda>_ m. apu_step m))"
  proof (rule step_result_side [OF same_ctl_refl ok])
    show "side_ok m (if fetch then fetch_cycles i m else (Inr (), m))" by (simp add: side_fetch_cycles)
    fix t assume t: "same_ctl m t" "mach_ok t"
    then have "entry_flow (am_instructions t) (am_entry t) (am_target t) sc (flow_of t) = Inr x"
      using x by (simp add: same_ctl_flow) (simp add: same_ctl_def)
    with apu_step_result [OF on_flow_ctl [OF flow t]] have "step_result t (fx_successors x) (apu_step t)" .
    with t(1) show "step_result m (fx_successors x) (apu_step t)" by (rule step_result_from)
  qed
  with i show ?thesis by (simp add: run_iteration_def lift_s_def map_error_def)
qed

section \<open>Runs of an accepted program\<close>

text \<open>One iteration of the loop of \<open>run\<close> that goes on.\<close>

definition run_step :: "apu_machine \<Rightarrow> apu_machine \<Rightarrow> bool" where
  "run_step m m' \<longleftrightarrow> (\<exists>fetch. run_iteration fetch m = (Inr False, m'))"

definition runs_program :: "apu_instruction list \<Rightarrow> apu_entry \<Rightarrow> apu_target \<Rightarrow> flow_scan \<Rightarrow> apu_machine \<Rightarrow> bool" where
  "runs_program instrs e target sc m \<longleftrightarrow>
     on_flow sc m \<and> am_instructions m = instrs \<and> am_entry m = e \<and> am_target m = target"

lemma on_flow_keeps:
  assumes flow: "on_flow sc m" and r: "step_result m (fx_successors x) (Inr False, m')"
    and x: "entry_flow (am_instructions m) (am_entry m) (am_target m) sc (flow_of m) = Inr x"
  shows "on_flow sc m'" "same_prog m m'"
    "flow_of m' = flow_of m \<or> flow_step (entry_flow (am_instructions m) (am_entry m) (am_target m) sc) (flow_of m) (flow_of m')"
proof -
  show p: "same_prog m m'" using r by (simp add: step_result_def)
  show s: "flow_of m' = flow_of m \<or> flow_step (entry_flow (am_instructions m) (am_entry m) (am_target m) sc) (flow_of m) (flow_of m')"
    using r x by (auto simp: step_result_def flow_step_def)
  have "flow_of m' \<in> entry_reachable (am_instructions m) (am_entry m) (am_target m) sc"
    using s flow by (auto simp: on_flow_def intro: flow_reachable_step)
  with p flow r show "on_flow sc m'"
    by (simp add: on_flow_def same_prog_def step_result_def)
qed

interpretation seq: stuttering_simulation run_step "flow_step (entry_flow instrs e target sc)" flow_of
  "runs_program instrs e target sc" for instrs e target sc
proof
  fix m m' assume m: "runs_program instrs e target sc m" and "run_step m m'"
  then obtain fetch where s: "run_iteration fetch m = (Inr False, m')" by (auto simp: run_step_def)
  from m obtain x where x: "entry_flow (am_instructions m) (am_entry m) (am_target m) sc (flow_of m) = Inr x"
    unfolding runs_program_def by (auto elim: on_flow_expand)
  with m run_iteration_result [of sc m x fetch] s
  have "step_result m (fx_successors x) (Inr False, m')" by (simp add: runs_program_def)
  from on_flow_keeps [OF _ this x] m
  show "flow_of m' = flow_of m \<or> flow_step (entry_flow instrs e target sc) (flow_of m) (flow_of m')"
    "runs_program instrs e target sc m'"
    by (auto simp: runs_program_def same_prog_def)
qed

lemma runs_program_facts:
  assumes "runs_program instrs e target sc m"
  shows "flow_of m \<in> entry_reachable instrs e target sc" "first_pc e \<le> am_pc m" "am_pc m \<le> last_pc e"
    "length (am_registers m) = 16" "\<forall>r \<in> set (am_registers m). u32 r"
proof -
  have m: "on_flow sc m" "am_instructions m = instrs" "am_entry m = e" "am_target m = target"
    using assms by (simp_all add: runs_program_def)
  show "flow_of m \<in> entry_reachable instrs e target sc"
    using m(1) unfolding on_flow_def m(2-4) by (elim conjE)
  from m(1) have "\<not> (am_pc m < first_pc (am_entry m) \<or> am_pc m > last_pc (am_entry m))" by (rule on_flow_fetch)
  then show "first_pc e \<le> am_pc m" "am_pc m \<le> last_pc e" unfolding m(3) by simp_all
  have "mach_ok m" using m(1) unfolding on_flow_def by (elim conjE)
  then show "length (am_registers m) = 16" "\<forall>r \<in> set (am_registers m). u32 r" by (simp_all add: mach_ok_def)
qed

text \<open>The fuel that is enough: each iteration retires an instruction or spends watchdog time.\<close>

definition run_measure :: "apu_machine \<Rightarrow> nat" where
  "run_measure m =
     nat (max_retired (am_entry m) - am_retired m) * Suc (nat (am_timeout m)) + nat (am_timeout m - am_watchdog m)"

lemma run_measure_less:
  assumes "step_result m succs (Inr False, m')"
  shows "run_measure m' < run_measure m"
proof -
  have p: "am_entry m' = am_entry m" "am_timeout m' = am_timeout m" "0 \<le> am_watchdog m'"
    using assms by (simp_all add: step_result_def same_prog_def mach_ok_def)
  show ?thesis
  proof (cases "am_retired m' = am_retired m")
    case True
    with assms have "am_watchdog m < am_watchdog m'" "am_watchdog m' < am_timeout m" by (simp_all add: step_result_def)
    with True p show ?thesis by (simp add: run_measure_def)
  next
    case False
    with assms have r: "am_retired m' = am_retired m + 1" "am_retired m < max_retired (am_entry m)"
      by (simp_all add: step_result_def)
    have "nat (am_timeout m - am_watchdog m') \<le> nat (am_timeout m)" using p(3) by auto
    moreover have "nat (max_retired (am_entry m) - am_retired m) = Suc (nat (max_retired (am_entry m) - am_retired m'))"
      using r by simp
    ultimately show ?thesis using p by (simp add: run_measure_def)
  qed
qed


text \<open>The answers a run of an accepted program can give.\<close>

definition run_answer :: "apu_entry \<Rightarrow> (seq_exn + unit) \<times> apu_machine \<Rightarrow> bool" where
  "run_answer e p =
     (case p of
        (Inr _, m') \<Rightarrow> am_entry m' = e \<and> am_retired m' \<le> max_retired e
      | (Inl (SequencerTrap k pc j d), m') \<Rightarrow> k \<in> {1, 5, 6, 7, 8, 9, 10} \<or> k = 4 \<and> bad_loop_count j m'
      | (Inl (SeqError err), m') \<Rightarrow> True)"

lemma run_loop_answer:
  assumes "runs_program instrs e target sc m" "run_measure m < fuel"
  shows "\<exists>p. run_loop fuel fetch m = Some p \<and> run_answer e p"
  using assms
proof (induction fuel arbitrary: fetch m)
  case (Suc fuel)
  from Suc.prems(1) obtain x where
    x: "entry_flow (am_instructions m) (am_entry m) (am_target m) sc (flow_of m) = Inr x"
    unfolding runs_program_def by (auto elim: on_flow_expand)
  obtain r m' where it: "run_iteration fetch m = (r, m')" by (cases "run_iteration fetch m")
  have s: "step_result m (fx_successors x) (r, m')"
    using run_iteration_result [of sc m x fetch] Suc.prems(1) x it by (simp add: runs_program_def)
  show ?case
  proof (cases r)
    case (Inl err)
    with s it show ?thesis by (cases err) (auto simp: run_answer_def step_result_def)
  next
    case (Inr stop)
    show ?thesis
    proof (cases stop)
      case True
      with s Inr it Suc.prems(1) show ?thesis
        by (auto simp: run_answer_def step_result_def runs_program_def same_prog_def)
    next
      case False
      with it Inr have "run_step m m'" by (auto simp: run_step_def)
      with Suc.prems(1) have "runs_program instrs e target sc m'" by (rule seq.step_keeps)
      moreover have "run_measure m' < fuel" using run_measure_less [of m _ m'] s Inr False Suc.prems(2) by fastforce
      ultimately show ?thesis using Suc.IH it Inr False by simp
    qed
  qed
qed simp

lemma run_loop_more:
  assumes "run_loop fuel fetch m = Some p" "fuel \<le> fuel'" shows "run_loop fuel' fetch m = Some p"
  using assms
proof (induction fuel arbitrary: fuel' fetch m)
  case (Suc fuel)
  then obtain k where k: "fuel' = Suc k" "fuel \<le> k" by (cases fuel') auto
  with Suc show ?case by (auto split: prod.splits sum.splits bool.splits)
qed simp

lemma prim_inv_reset: "prim_inv (reset_mutable b)"
  by (simp add: prim_inv_def reset_mutable_def bam_bits_ok_def prim_fifo_ok_def)

lemma begin_entry_runs:
  assumes "entry_accepted (am_instructions m) e (am_target m) n (am_abi m)"
  obtains sc where "scan_loops (am_instructions m) e = Inr sc"
    "runs_program (am_instructions m) e (am_target m) sc (begin_entry (Some e) m)"
proof -
  from assms obtain r where acc: "control_flow_report (am_instructions m) e (am_target m) (am_abi m) = Inr r"
    "validate_entry e (int (length (am_instructions m))) (am_target m) n (am_abi m) = Inr ()"
    "\<forall>i \<in> set (am_instructions m). validate_instruction i (am_target m) (am_abi m) = Inr ()"
    by (auto simp: entry_accepted_def)
  from acc(2) have pcs: "0 \<le> first_pc e" "first_pc e \<le> last_pc e" "last_pc e < int (length (am_instructions m))"
    "int (length (am_instructions m)) \<le> pc_limit (am_abi m)"
    by (auto simp: validate_entry_def result_simps)
  from report_accepted [OF acc(1) pcs(2)] obtain sc where
    sc: "scan_loops (am_instructions m) e = Inr sc" "flow_accepted (am_instructions m) e (am_target m) sc" .
  have "mach_ok (begin_entry (Some e) m)"
    by (auto simp: mach_ok_def begin_entry_def Let_def prim_inv_reset)
  moreover have "flow_of (begin_entry (Some e) m) = entry_state e"
    by (simp add: flow_of_def begin_entry_def entry_state_def loops_of_def Let_def eval_nat_numeral)
  moreover have "last_pc e \<le> (if am_abi m = APUMC_ABI_V1 then 2047 else 4095)"
    using pcs(3,4) by (simp add: pc_limit_def split: if_splits)
  ultimately have "on_flow sc (begin_entry (Some e) m)"
    using sc acc(3) pcs by (auto simp: on_flow_def begin_entry_def Let_def flow_reachable_def)
  then show thesis using sc(1) by (intro that) (auto simp: runs_program_def begin_entry_def Let_def)
qed

text \<open>Every run of an accepted entry ends, with an answer of \<open>run_answer\<close>.\<close>

lemma accepted_run_answer:
  assumes "entry_accepted (am_instructions m) e (am_target m) n (am_abi m)"
    and "nat (max_retired e) * (nat (am_timeout m) + 1) + nat (am_timeout m) < fuel"
  shows "\<exists>p. apu_run fuel (begin_entry (Some e) m) = Some p \<and> run_answer e p"
proof -
  from assms(1) obtain sc where
    r: "runs_program (am_instructions m) e (am_target m) sc (begin_entry (Some e) m)" by (rule begin_entry_runs)
  have "run_measure (begin_entry (Some e) m) < fuel"
    using assms(2) by (simp add: run_measure_def begin_entry_def Let_def)
  with run_loop_answer [OF r] show ?thesis unfolding apu_run_def by blast
qed

section \<open>Properties of the sequencer\<close>

text \<open>C20: Refinement. A machine that begins an entry the loader accepts follows the abstract control flow
  of the checker: after any number of iterations of the run loop the program counter, the return
  stack and the end addresses of the active loops are a state that the checker has explored, so the
  program counter lies in the entry's range; the sixteen registers hold unsigned 32-bit values.\<close>

theorem sequencer_refines_flow:
  assumes "entry_accepted (am_instructions m) e (am_target m) table_payload_bytes (am_abi m)"
    and "run_step\<^sup>*\<^sup>* (begin_entry (Some e) m) m'"
  shows "\<exists>sc. scan_loops (am_instructions m) e = Inr sc \<and>
      flow_of m' \<in> entry_reachable (am_instructions m) e (am_target m) sc \<and>
      first_pc e \<le> am_pc m' \<and> am_pc m' \<le> last_pc e \<and>
      length (am_registers m') = 16 \<and> (\<forall>r \<in> set (am_registers m'). u32 r)"
proof -
  from assms(1) obtain sc where sc: "scan_loops (am_instructions m) e = Inr sc"
    "runs_program (am_instructions m) e (am_target m) sc (begin_entry (Some e) m)" by (rule begin_entry_runs)
  have "runs_program (am_instructions m) e (am_target m) sc m'"
    using seq.steps_simulate [OF assms(2) sc(2)] ..
  from runs_program_facts [OF this] sc(1) show ?thesis by blast
qed

text \<open>C21: Safety. A run of an accepted entry never leaves its program range (trap 2) and never
  overflows or underflows the return stack (trap 3); it traps for a loop (trap 4) only when the
  count register of a loop setup is zero or above the entry's maximum.\<close>

theorem accepted_run_traps:
  assumes "entry_accepted (am_instructions m) e (am_target m) table_payload_bytes (am_abi m)"
    and "apu_run fuel (begin_entry (Some e) m) = Some (Inl (SequencerTrap k pc i detail), m')"
  shows "k \<noteq> 2 \<and> k \<noteq> 3 \<and> (k = 4 \<longrightarrow> bad_loop_count i m')"
proof -
  let ?fuel = "fuel + Suc (nat (max_retired e) * (nat (am_timeout m) + 1) + nat (am_timeout m))"
  obtain p where "apu_run ?fuel (begin_entry (Some e) m) = Some p" "run_answer e p"
    using accepted_run_answer [OF assms(1), of ?fuel] by auto
  moreover have "apu_run ?fuel (begin_entry (Some e) m) = Some (Inl (SequencerTrap k pc i detail), m')"
    using assms(2) unfolding apu_run_def by (rule run_loop_more) simp
  ultimately show ?thesis by (auto simp: run_answer_def)
qed

text \<open>C22: Termination. Every iteration of the run loop retires an instruction or spends watchdog
  time, so a run of an accepted entry returns or traps after at most
  \<open>max_retired * (timeout + 1) + timeout + 1\<close> iterations, and a run that returns has retired at most
  \<open>max_retired\<close> instructions.\<close>

theorem accepted_run_ends:
  assumes "entry_accepted (am_instructions m) e (am_target m) table_payload_bytes (am_abi m)"
    and "nat (max_retired e) * (nat (am_timeout m) + 1) + nat (am_timeout m) < fuel"
  shows "\<exists>r m'. apu_run fuel (begin_entry (Some e) m) = Some (r, m') \<and>
      (r = Inr () \<longrightarrow> am_retired m' \<le> max_retired e)"
proof -
  obtain r m' where "apu_run fuel (begin_entry (Some e) m) = Some (r, m')" "run_answer e (r, m')"
    using accepted_run_answer [OF assms] by (metis surj_pair)
  then show ?thesis by (auto simp: run_answer_def)
qed

section \<open>A concrete machine\<close>

definition seq_inputs :: pred_inputs where
  "seq_inputs = \<lparr>pi_input_exhausted = False, pi_input_ready = False, pi_output_ready = False,
     pi_kernel_done = False, pi_transport_done = False\<rparr>"

definition seq_demo :: "apu_instruction list \<Rightarrow> apu_machine" where
  "seq_demo instrs = machine_new instrs (flow_entry 7) seq_inputs 10 P3 None None 65536"

text \<open>The demonstration program with a loop count of zero.\<close>

definition flow_zero :: "apu_instruction list" where
  "flow_zero = mc_ins CLS_SCALAR SC_MOVI 1 0 0 0 0 # tl flow_demo"

lemma flow_demo_entry:
  "entry_accepted flow_demo (flow_entry 7) P3 0 65536" "entry_accepted flow_zero (flow_entry 7) P3 0 65536"
proof -
  have "control_flow_report flow_zero (flow_entry 7) P3 65536 = Inr flow_demo_report" by code_simp
  moreover have "validate_entry (flow_entry 7) (int (length flow_demo)) P3 0 65536 = Inr ()"
    "validate_entry (flow_entry 7) (int (length flow_zero)) P3 0 65536 = Inr ()"
    "\<forall>i \<in> set flow_demo. validate_instruction i P3 65536 = Inr ()"
    "\<forall>i \<in> set flow_zero. validate_instruction i P3 65536 = Inr ()" by code_simp+
  ultimately show "entry_accepted flow_demo (flow_entry 7) P3 0 65536" "entry_accepted flow_zero (flow_entry 7) P3 0 65536"
    using flow_demo_accepted by (auto simp: entry_accepted_def)
qed

lemma seq_demo_fields [simp]:
  "am_instructions (seq_demo is) = is" "am_target (seq_demo is) = P3" "am_abi (seq_demo is) = 65536"
  "am_timeout (seq_demo is) = 10"
  by (simp_all add: seq_demo_def machine_new_def begin_entry_def Let_def)

text \<open>The first iteration of the demonstration program.\<close>

definition seq_demo1 :: apu_machine where
  "seq_demo1 = snd (run_iteration True (begin_entry (Some (flow_entry 7)) (seq_demo flow_demo)))"

theorem sequencer_refines_flow_witness:
  "am_pc seq_demo1 = 1 \<and> first_pc (flow_entry 7) \<le> am_pc seq_demo1 \<and> am_pc seq_demo1 \<le> last_pc (flow_entry 7)"
proof -
  have s: "fst (run_iteration True (begin_entry (Some (flow_entry 7)) (seq_demo flow_demo))) = Inr False" by code_simp
  then have "run_step (begin_entry (Some (flow_entry 7)) (seq_demo flow_demo)) seq_demo1"
    unfolding run_step_def seq_demo1_def by (metis prod.collapse)
  then have "run_step\<^sup>*\<^sup>* (begin_entry (Some (flow_entry 7)) (seq_demo flow_demo)) seq_demo1" ..
  from sequencer_refines_flow [of "seq_demo flow_demo" "flow_entry 7" 0, OF _ this] flow_demo_entry(1)
  have "first_pc (flow_entry 7) \<le> am_pc seq_demo1 \<and> am_pc seq_demo1 \<le> last_pc (flow_entry 7)" by auto
  moreover have "am_pc seq_demo1 = 1" by code_simp
  ultimately show ?thesis by simp
qed

text \<open>The loop setup of \<open>flow_zero\<close> traps.\<close>

theorem accepted_run_traps_witness:
  "\<exists>m'. bad_loop_count (mc_ins CLS_CONTROL CTL_LOOP_SETUP 0 1 0 0 0) m'"
proof -
  let ?p = "apu_run 10 (begin_entry (Some (flow_entry 7)) (seq_demo flow_zero))"
  have "\<exists>d. map_option fst ?p = Some (Inl (SequencerTrap 4 1 (mc_ins CLS_CONTROL CTL_LOOP_SETUP 0 1 0 0 0) d))"
    by (rule exI) code_simp
  then obtain d m' where "?p = Some (Inl (SequencerTrap 4 1 (mc_ins CLS_CONTROL CTL_LOOP_SETUP 0 1 0 0 0) d), m')"
    by auto
  from accepted_run_traps [of "seq_demo flow_zero" "flow_entry 7" 0, OF _ this] flow_demo_entry(2)
  show ?thesis by auto
qed

theorem accepted_run_ends_witness:
  "\<exists>r m'. apu_run 1200 (begin_entry (Some (flow_entry 7)) (seq_demo flow_demo)) = Some (r, m')"
  using accepted_run_ends [of "seq_demo flow_demo" "flow_entry 7" 0 1200] flow_demo_entry(1)
  by (auto simp: flow_entry_def)

end
