(* ===== verification/Apu_Bundle.thy ===== *)
theory Apu_Bundle
  imports Apu_Flow Py_Bytes
begin

text \<open>
  The microcode container of \<open>src/scripts/apu_isa.py\<close>: \<open>build_apumc\<close> lays out header, entry
  descriptors, padding, instructions and table payload; \<open>parse_apumc\<close> checks the header ranges, the
  checksum, the reserved fields, the padding, and then the same entry, instruction and control-flow
  rules as the builder. The header is the tuple of its sixteen words, as in the source.

  A bundle that was built parses back to what was built, a bundle with one damaged payload byte is
  refused, and everything that parses satisfies the conditions under which the sequencer is safe.
\<close>

unbundle bit_operations_syntax

abbreviation (input) "APUMC_MAGIC \<equiv> (1095781699 :: int)"
abbreviation (input) "APUMC_HEADER_BYTES \<equiv> (64 :: int)"
abbreviation (input) "APUMC_ENTRY_BYTES \<equiv> (32 :: int)"
abbreviation (input) "APUMC_INSTRUCTION_OFFSET \<equiv> (192 :: int)"

definition crc32_iso_hdlc :: "bytes \<Rightarrow> int" where
  "crc32_iso_hdlc payload = crc32 payload AND 4294967295"

section \<open>Checks shared by both directions\<close>

definition entry_checks ::
  "apu_entry list \<Rightarrow> int \<Rightarrow> apu_target \<Rightarrow> int \<Rightarrow> int \<Rightarrow> apu_error + unit" where
  "entry_checks entries count target tbytes abi =
     first_error (map (\<lambda>(index, e).
       bind_r (raise_if (format_id e \<noteq> index) (ValueError ''entry descriptor order must be WAV, MP3, FLAC''))
         (\<lambda>_. validate_entry e count target tbytes abi)) (py_enumerate entries))"

definition control_primitive_check :: "apu_instruction \<Rightarrow> apu_entry \<Rightarrow> int \<Rightarrow> apu_error + unit" where
  "control_primitive_check i e required =
     (if mc_aux i = 1
      then raise_if (primitive_mask e AND required = 0) (ValueError ''kernel WAIT requires a class-5 primitive'')
      else raise_if (required AND NOT (primitive_mask e) \<noteq> 0)
             (ValueError ''FIFO WAIT requires the local-FIFO primitive''))"

definition build_primitive_check :: "apu_instruction list \<Rightarrow> apu_entry \<Rightarrow> int \<Rightarrow> apu_error + unit" where
  "build_primitive_check instrs e pc =
     bind_r (py_index instrs pc) (\<lambda>i.
       let required = instruction_required_mask i in
       if mc_class i = CLS_CONTROL \<and> required \<noteq> 0 then control_primitive_check i e required
       else raise_if (required AND NOT (primitive_mask e) \<noteq> 0)
              (ValueError ''entry omits an instruction primitive''))"

definition parse_primitive_check :: "apu_instruction list \<Rightarrow> apu_entry \<Rightarrow> int \<Rightarrow> apu_error + unit" where
  "parse_primitive_check instrs e pc =
     bind_r (py_index instrs pc) (\<lambda>i.
       let required = instruction_required_mask i in
       if mc_class i = CLS_CONTROL \<and> required \<noteq> 0 then control_primitive_check i e required
       else if mc_class i = CLS_CONTROL \<and> mc_opcode i = CTL_WAIT \<and> mc_aux i = 0
           \<and> primitive_mask e AND 458752 = 0
       then Inl (ValueError ''DMA WAIT requires a transport primitive'')
       else if mc_class i = CLS_TRANSPORT \<and> mc_opcode i = 3 \<and> primitive_mask e AND 458752 = 0
       then Inl (ValueError ''DMA_WAIT requires a transport primitive'')
       else raise_if (required AND NOT (primitive_mask e) \<noteq> 0)
              (ValueError ''entry omits an instruction primitive''))"

definition code_checks ::
  "(apu_instruction list \<Rightarrow> apu_entry \<Rightarrow> int \<Rightarrow> apu_error + unit) \<Rightarrow> apu_instruction list \<Rightarrow> apu_target \<Rightarrow> int \<Rightarrow>
    apu_entry \<Rightarrow> apu_error + unit" where
  "code_checks check instrs target abi e =
     bind_r (validate_control_flow instrs e target abi) (\<lambda>_.
       first_error (map (check instrs e) (py_range (first_pc e) (last_pc e + 1))))"

section \<open>Building\<close>

definition build_abi :: "apu_target \<Rightarrow> int option \<Rightarrow> int" where
  "build_abi target abi =
     (case abi of Some a \<Rightarrow> a | None \<Rightarrow> if target = P5 then APUMC_ABI_V2 else APUMC_ABI_V1)"

definition pack_entry :: "int \<Rightarrow> apu_entry \<Rightarrow> apu_error + bytes" where
  "pack_entry abi e = map_error (\<lambda>_. ApuStructError) (pack_u32s (entry_words e abi))"

definition pack_instruction :: "apu_instruction \<Rightarrow> apu_error + bytes" where
  "pack_instruction i =
     bind_r (mc_encode i) (\<lambda>w. map_error (\<lambda>_. ApuStructError) (pack_uint 8 w))"

definition required_primitives :: "apu_entry list \<Rightarrow> int" where
  "required_primitives entries = foldl (\<lambda>acc e. acc OR primitive_mask e) 0 entries"

definition scratch_limit :: "apu_entry list \<Rightarrow> int" where
  "scratch_limit entries = foldl (\<lambda>acc e. max acc (scratch_base e + scratch_bytes e)) 0 entries"

definition build_checks ::
  "apu_instruction list \<Rightarrow> apu_entry list \<Rightarrow> apu_target \<Rightarrow> bytes \<Rightarrow> int \<Rightarrow> apu_error + int" where
  "build_checks instrs entries target table abi =
     bind_r (raise_if (abi \<notin> {APUMC_ABI_V1, APUMC_ABI_V2}) (ValueError ''unsupported APUMC ABI'')) (\<lambda>_.
     bind_r (raise_if (abi = APUMC_ABI_V2 \<and> target \<noteq> P5) (ValueError ''APUMC V2 is available only for P5'')) (\<lambda>_.
     bind_r (target_mask target) (\<lambda>tmask.
     bind_r (first_error
       ([raise_if (\<not> (1 \<le> int (length instrs) \<and> int (length instrs) \<le> pc_limit abi))
           (ValueError ''instruction count is outside the selected APUMC ABI''),
         raise_if (int (length table) AND 3 \<noteq> 0 \<or> int (length table) > APUMC_P4_TABLE_SCRATCH_BYTES)
           (ValueError ''table payload must be four-byte aligned and at most 24 KiB''),
         raise_if (target = P3 \<and> table \<noteq> []) (ValueError ''P3 does not admit a table payload''),
         raise_if (int (length entries) \<noteq> APUMC_ENTRY_COUNT)
           (ValueError ''APUMC V1 requires exactly three entries''),
         entry_checks entries (int (length instrs)) target (int (length table)) abi]
        @ map (\<lambda>i. validate_instruction i target abi) instrs
        @ map (code_checks build_primitive_check instrs target abi) entries)) (\<lambda>_. Inr tmask))))"

definition header_words ::
  "int \<Rightarrow> int \<Rightarrow> bytes \<Rightarrow> apu_entry list \<Rightarrow> bytes \<Rightarrow> int \<Rightarrow> int list" where
  "header_words abi count table entries payload build_id =
     [APUMC_MAGIC, abi, APUMC_HEADER_BYTES + int (length payload), count, APUMC_INSTRUCTION_OFFSET,
      (if table \<noteq> [] then APUMC_INSTRUCTION_OFFSET + 8 * count else 0), int (length table),
      APUMC_HEADER_BYTES, APUMC_ENTRY_COUNT, required_primitives entries, scratch_limit entries,
      crc32_iso_hdlc payload, build_id AND 4294967295, shr build_id 32 AND 4294967295, 0, 0]"

definition build_apumc ::
  "apu_instruction list \<Rightarrow> apu_entry list \<Rightarrow> int \<Rightarrow> apu_target \<Rightarrow> bytes \<Rightarrow> int option \<Rightarrow> apu_error + bytes" where
  "build_apumc instrs entries build_id target table abi_opt =
     (let abi = build_abi target abi_opt in
      bind_r (build_checks instrs entries target table abi) (\<lambda>tmask.
      bind_r (map_r (pack_entry abi) entries) (\<lambda>ds.
      bind_r (map_r pack_instruction instrs) (\<lambda>ws.
      let descriptor = concat ds;
          padding = replicate (nat (APUMC_INSTRUCTION_OFFSET - APUMC_HEADER_BYTES - int (length descriptor))) 0;
          payload = descriptor @ padding @ concat ws @ table in
      bind_r (raise_if (required_primitives entries AND NOT tmask \<noteq> 0)
          (ValueError ''bundle requires a primitive unavailable in the target'')) (\<lambda>_.
      bind_r (map_error (\<lambda>_. ApuStructError)
          (pack_u32s (header_words abi (int (length instrs)) table entries payload build_id))) (\<lambda>header.
        Inr (header @ payload)))))))"

section \<open>Parsing\<close>

definition abi_checks :: "apu_target \<Rightarrow> int option \<Rightarrow> int \<Rightarrow> apu_error + unit" where
  "abi_checks target abi image_abi =
     first_error
       [raise_if (case abi of None \<Rightarrow> False | Some a \<Rightarrow> image_abi \<noteq> a)
          (ValueError ''APUMC ABI does not match requested version''),
        (if target = P5
         then raise_if (image_abi \<notin> {APUMC_ABI_V1, APUMC_ABI_V2}) (ValueError ''APUMC header is invalid'')
         else raise_if (image_abi \<noteq> APUMC_ABI_V1) (ValueError ''APUMC header is invalid''))]"

definition range_error :: "int \<Rightarrow> int list \<Rightarrow> bool" where
  "range_error size_bytes h =
     (let instruction_offset = h ! 4; instruction_end = h ! 4 + h ! 3 * 8; entry_offset = h ! 7;
          entry_end = h ! 7 + APUMC_ENTRY_COUNT * APUMC_ENTRY_BYTES in
      instruction_offset < APUMC_HEADER_BYTES \<or> instruction_offset mod 64 \<noteq> 0 \<or> instruction_end > size_bytes \<or>
      entry_offset < APUMC_HEADER_BYTES \<or> entry_offset mod APUMC_ENTRY_BYTES \<noteq> 0 \<or> entry_end > size_bytes \<or>
      \<not> (instruction_end \<le> entry_offset \<or> entry_end \<le> instruction_offset) \<or> h ! 5 mod 4 \<noteq> 0)"

definition table_range_error :: "int \<Rightarrow> int list \<Rightarrow> int \<Rightarrow> bool" where
  "table_range_error size_bytes h tmask =
     (let instruction_offset = h ! 4; instruction_end = h ! 4 + h ! 3 * 8; entry_offset = h ! 7;
          entry_end = h ! 7 + APUMC_ENTRY_COUNT * APUMC_ENTRY_BYTES;
          toffset = h ! 5; tbytes = h ! 6; tend = h ! 5 + h ! 6 in
      tbytes > APUMC_P4_TABLE_SCRATCH_BYTES \<or> tbytes AND 3 \<noteq> 0 \<or> toffset > size_bytes \<or>
      (tbytes \<noteq> 0 \<and> (toffset < APUMC_HEADER_BYTES \<or> tend > size_bytes)) \<or>
      (tbytes \<noteq> 0 \<and> \<not> ((tend \<le> instruction_offset \<or> toffset \<ge> instruction_end) \<and>
                       (tend \<le> entry_offset \<or> toffset \<ge> entry_end))) \<or>
      h ! 9 AND NOT tmask \<noteq> 0 \<or> h ! 10 > APUMC_P4_TABLE_SCRATCH_BYTES)"

definition header_checks :: "apu_target \<Rightarrow> int option \<Rightarrow> int \<Rightarrow> int \<Rightarrow> int list \<Rightarrow> apu_error + unit" where
  "header_checks target abi tmask size_bytes h =
     first_error
       [abi_checks target abi (h ! 1),
        raise_if (h ! 0 \<noteq> APUMC_MAGIC \<or> h ! 2 \<noteq> size_bytes \<or> size_bytes < 160 \<or> h ! 14 \<noteq> 0 \<or> h ! 15 \<noteq> 0)
          (ValueError ''APUMC header is invalid''),
        raise_if (h ! 8 \<noteq> APUMC_ENTRY_COUNT) (ValueError ''APUMC V1 requires exactly three entries''),
        raise_if (\<not> (1 \<le> h ! 3 \<and> h ! 3 \<le> pc_limit (h ! 1))) (ValueError ''APUMC instruction count is invalid''),
        raise_if (range_error size_bytes h) (ValueError ''APUMC range fields are invalid''),
        raise_if (target = P3 \<and> (h ! 6 \<noteq> 0 \<or> h ! 5 \<noteq> 0 \<or> h ! 9 \<noteq> 0 \<or> h ! 10 \<noteq> 0))
          (ValueError ''APUMC range or P3 capability fields are invalid''),
        raise_if (target \<in> {P4, P5} \<and> table_range_error size_bytes h tmask)
          (ValueError ''APUMC range or capability fields are invalid'')]"

definition entry_reserved_error :: "int \<Rightarrow> int list \<Rightarrow> bool" where
  "entry_reserved_error abi w \<longleftrightarrow>
     shr (w ! 0) (if abi = APUMC_ABI_V2 then 16 else 15) \<noteq> 0 \<or>
     w ! 1 AND (if abi = APUMC_ABI_V2 then 4026593280 else 4160813056) \<noteq> 0 \<or>
     shr (w ! 4) 16 \<noteq> 0 \<or> shr (w ! 5) 24 \<noteq> 0 \<or> shr (w ! 2) 17 \<noteq> 0 \<or> shr (w ! 3) 17 \<noteq> 0"

definition parse_entry :: "apu_target \<Rightarrow> int \<Rightarrow> int list \<Rightarrow> apu_error + apu_entry" where
  "parse_entry target abi w =
     (let pc_mask = (if abi = APUMC_ABI_V2 then 4095 else 2047) in
      if entry_reserved_error abi w \<or> (target = P3 \<and> (w ! 2 \<noteq> 0 \<or> w ! 3 \<noteq> 0 \<or> w ! 6 \<noteq> 0 \<or> w ! 7 \<noteq> 0))
      then Inl (ValueError ''APUMC entry has invalid reserved or target fields'')
      else
        Inr \<lparr>format_id = w ! 0 AND 15, entry_pc = shr (w ! 0) 4 AND pc_mask, first_pc = w ! 1 AND pc_mask,
              last_pc = shr (w ! 1) 16 AND pc_mask, max_loop_count = w ! 4 AND 65535,
              max_retired = w ! 5 AND 16777215, scratch_base = w ! 2 AND 131071,
              scratch_bytes = w ! 3 AND 131071, primitive_mask = w ! 6, table_offset = w ! 7 AND 65535,
              table_bytes = shr (w ! 7) 16 AND 65535\<rparr>)"

text \<open>The bytes that no part of the layout occupies.\<close>

definition occupied :: "int list \<Rightarrow> nat \<Rightarrow> bool" where
  "occupied h n \<longleftrightarrow>
     n < 64 \<or> nat (h ! 7) \<le> n \<and> n < nat (h ! 7 + APUMC_ENTRY_COUNT * APUMC_ENTRY_BYTES) \<or>
     nat (h ! 4) \<le> n \<and> n < nat (h ! 4 + h ! 3 * 8) \<or>
     h ! 6 \<noteq> 0 \<and> nat (h ! 5) \<le> n \<and> n < nat (h ! 5 + h ! 6)"

definition padding_clear :: "bytes \<Rightarrow> int list \<Rightarrow> bool" where
  "padding_clear bundle h \<longleftrightarrow> (\<forall>n \<in> {..<length bundle}. \<not> occupied h n \<longrightarrow> bundle ! n = 0)"

definition parse_entries :: "bytes \<Rightarrow> apu_target \<Rightarrow> int list \<Rightarrow> apu_error + apu_entry list" where
  "parse_entries bundle target h =
     map_r (\<lambda>index. parse_entry target (h ! 1) (unpack_u32s 8 (drop (nat (h ! 7 + index * APUMC_ENTRY_BYTES)) bundle)))
       (py_range 0 APUMC_ENTRY_COUNT)"

definition parse_instructions :: "bytes \<Rightarrow> int list \<Rightarrow> apu_error + apu_instruction list" where
  "parse_instructions bundle h =
     map_r (\<lambda>pc. mc_decode (le_int (take 8 (drop (nat (h ! 4 + pc * 8)) bundle)))) (py_range 0 (h ! 3))"

definition content_checks ::
  "apu_instruction list \<Rightarrow> apu_entry list \<Rightarrow> apu_target \<Rightarrow> int list \<Rightarrow> apu_error + unit" where
  "content_checks instrs entries target h =
     first_error
       ([entry_checks entries (h ! 3) target (h ! 6) (h ! 1)]
        @ map (\<lambda>i. validate_instruction i target (h ! 1)) instrs
        @ map (code_checks parse_primitive_check instrs target (h ! 1)) entries
        @ [raise_if (h ! 9 \<noteq> foldl (OR) 0 (map primitive_mask entries))
             (ValueError ''APUMC header primitive mask does not match entry masks''),
           raise_if (h ! 10 \<noteq> Max (set (map (\<lambda>e. scratch_base e + scratch_bytes e) entries)))
             (ValueError ''APUMC scratch end does not match entry descriptors'')])"

definition parse_apumc ::
  "bytes \<Rightarrow> apu_target \<Rightarrow> int option \<Rightarrow> apu_error + (apu_instruction list \<times> apu_entry list \<times> int list)" where
  "parse_apumc bundle target abi =
     bind_r (target_mask target) (\<lambda>tmask.
     bind_r (raise_if (length bundle < 64) (ValueError ''bundle is smaller than the APUMC header'')) (\<lambda>_.
     let h = unpack_u32s 16 bundle in
     bind_r (header_checks target abi tmask (int (length bundle)) h) (\<lambda>_.
     bind_r (raise_if (crc32_iso_hdlc (drop 64 bundle) \<noteq> h ! 11) (ValueError ''APUMC CRC mismatch'')) (\<lambda>_.
     bind_r (parse_entries bundle target h) (\<lambda>entries.
     bind_r (parse_instructions bundle h) (\<lambda>instrs.
     bind_r (raise_if (\<not> padding_clear bundle h) (ValueError ''APUMC padding must be zero'')) (\<lambda>_.
     bind_r (content_checks instrs entries target h) (\<lambda>_.
       Inr (instrs, entries, h)))))))))"

end
