(* ===== verification/Apu_Bundle_Props.thy ===== *)
theory Apu_Bundle_Props
  imports Apu_Bundle
begin

text \<open>
  The microcode container of \<open>src/scripts/apu_isa.py\<close>: a built bundle parses back to what was built
  exactly when its DMA waits are declared, a bundle with a damaged byte is refused, and every entry of
  a bundle that parses satisfies \<open>entry_accepted\<close>, the hypothesis of the sequencer's properties.
\<close>

unbundle bit_operations_syntax

section \<open>Reading back what was packed\<close>

lemma crc32_iso_hdlc_eq [simp]: "crc32_iso_hdlc payload = crc32 payload"
proof -
  have "crc32 payload AND (2 ^ 32 - 1) = crc32 payload"
    unfolding int_and_mask using crc32_u32 [of payload] by simp
  then show ?thesis by (simp add: crc32_iso_hdlc_def)
qed

lemma unpack_u32s_append: "4 * n \<le> length xs \<Longrightarrow> unpack_u32s n (xs @ ys) = unpack_u32s n xs"
  by (induction n arbitrary: xs) auto

lemma and_mask_small: "0 \<le> v \<Longrightarrow> v < 2 ^ n \<Longrightarrow> v AND (2 ^ n - 1) = (v :: int)"
  unfolding int_and_mask by simp

text \<open>A word made of a low field and a shifted high field.\<close>

lemma join_fields:
  assumes "0 \<le> lo" "lo < 2 ^ k"
  shows "(lo OR push_bit k hi) AND (2 ^ k - 1) = (lo :: int)" "drop_bit k (lo OR push_bit k hi) = hi"
proof -
  have "take_bit k (lo OR push_bit k hi) = take_bit k lo" by (simp add: take_bit_push_bit)
  then show "(lo OR push_bit k hi) AND (2 ^ k - 1) = lo"
    unfolding int_and_mask using assms by (simp add: take_bit_eq_mod)
  have "drop_bit k lo = 0" using assms by (simp add: drop_bit_eq_div)
  then show "drop_bit k (lo OR push_bit k hi) = hi" by (simp add: drop_bit_push_bit)
qed

lemma or_nonneg_parts: "0 \<le> (a :: int) OR b \<longleftrightarrow> 0 \<le> a \<and> 0 \<le> b"
  by simp

text \<open>What a validated entry fits in.\<close>

definition entry_fits :: "apu_target \<Rightarrow> int \<Rightarrow> apu_entry \<Rightarrow> bool" where
  "entry_fits target abi e \<longleftrightarrow>
     0 \<le> format_id e \<and> format_id e < 3 \<and> 0 \<le> first_pc e \<and> first_pc e \<le> entry_pc e \<and> entry_pc e \<le> last_pc e \<and>
     last_pc e < pc_limit abi \<and> 1 \<le> max_loop_count e \<and> max_loop_count e < 65536 \<and>
     1 \<le> max_retired e \<and> max_retired e < 16777216 \<and>
     (target = P3 \<and> scratch_base e = 0 \<and> scratch_bytes e = 0 \<and> primitive_mask e = 0 \<and>
        table_offset e = 0 \<and> table_bytes e = 0 \<or>
      target \<noteq> P3 \<and> scratch_base e + scratch_bytes e \<le> 24576 \<and> table_offset e + table_bytes e \<le> 24576)"

lemma validated_entry_fits:
  assumes "validate_entry e count target tbytes abi = Inr ()" "target_mask target = Inr tmask" "tbytes \<le> 24576"
  shows "entry_fits target abi e"
proof -
  have t: "target \<in> {P3, P4, P5}" using assms(2) by (cases target) (auto simp: target_mask_def)
  have common: "0 \<le> format_id e" "format_id e < 3" "0 \<le> first_pc e" "first_pc e \<le> entry_pc e" "entry_pc e \<le> last_pc e"
     "last_pc e < pc_limit abi" "1 \<le> max_loop_count e" "max_loop_count e < 65536"
     "1 \<le> max_retired e" "max_retired e < 16777216"
    using assms(1) by (auto simp: validate_entry_def result_simps)
  show ?thesis
  proof (cases "target = P3")
    case True
    with assms(1) common show ?thesis by (simp add: entry_fits_def validate_entry_def result_simps)
  next
    case False
    with t assms(1) have "first_error (validate_entry_ranges e tbytes) = Inr ()"
      by (auto simp: validate_entry_def result_simps)
    then have "scratch_base e + scratch_bytes e \<le> 24576" "table_offset e + table_bytes e \<le> tbytes"
      by (simp_all add: validate_entry_ranges_def result_simps)
    with False common assms(3) show ?thesis by (simp add: entry_fits_def)
  qed
qed

lemma small_bits: "0 \<le> v \<Longrightarrow> v < 2 ^ n \<Longrightarrow> bits_of v \<subseteq> {..<n}"
  by (rule bits_of_lt_exp)

lemma pc_mask_small:
  assumes "abi \<in> {APUMC_ABI_V1, APUMC_ABI_V2}" "0 \<le> v" "v < pc_limit abi"
  shows "v AND (if abi = APUMC_ABI_V2 then 4095 else 2047) = v"
    "v AND (if abi = APUMC_ABI_V2 then 65535 else 2047) = v"
  using assms and_mask_small [of v 11] and_mask_small [of v 12] and_mask_small [of v 16]
  by (auto simp: pc_limit_def)

lemma range_word_reserved:
  assumes "abi \<in> {APUMC_ABI_V1, APUMC_ABI_V2}" "0 \<le> a" "a < pc_limit abi" "0 \<le> b" "b < pc_limit abi"
  shows "(a OR push_bit 16 b) AND (if abi = APUMC_ABI_V2 then 4026593280 else 4160813056) = 0"
proof (cases "abi = APUMC_ABI_V2")
  case True
  have c: "(4026593280 :: int) = push_bit 12 (2 ^ 4 - 1) OR push_bit 28 (2 ^ 4 - 1)" by code_simp
  have "bits_of a \<subseteq> {..<12}" "bits_of b \<subseteq> {..<12}"
    using assms(2-5) True small_bits [of a 12] small_bits [of b 12] by (simp_all add: pc_limit_def)
  then have "(a OR push_bit 16 b) AND (push_bit 12 (2 ^ 4 - 1) OR push_bit 28 (2 ^ 4 - 1)) = 0"
    unfolding and_zero_iff bits_of_ops bits_of_push_bit bits_of_mask by fastforce
  then show ?thesis unfolding c using True by simp
next
  case False
  have c: "(4160813056 :: int) = push_bit 11 (2 ^ 5 - 1) OR push_bit 27 (2 ^ 5 - 1)" by code_simp
  have "bits_of a \<subseteq> {..<11}" "bits_of b \<subseteq> {..<11}"
    using assms(2-5) False small_bits [of a 11] small_bits [of b 11] by (simp_all add: pc_limit_def)
  then have "(a OR push_bit 16 b) AND (push_bit 11 (2 ^ 5 - 1) OR push_bit 27 (2 ^ 5 - 1)) = 0"
    unfolding and_zero_iff bits_of_ops bits_of_push_bit bits_of_mask by fastforce
  then show ?thesis unfolding c using False by simp
qed

lemma small_fields:
  fixes v :: int
  shows "0 \<le> v \<Longrightarrow> v < 65536 \<Longrightarrow> v AND 65535 = v \<and> drop_bit 16 v = 0"
    and "0 \<le> v \<Longrightarrow> v < 16777216 \<Longrightarrow> v AND 16777215 = v \<and> drop_bit 24 v = 0"
    and "0 \<le> v \<Longrightarrow> v < 131072 \<Longrightarrow> v AND 131071 = v \<and> drop_bit 17 v = 0"
  using and_mask_small [of v 16] and_mask_small [of v 24] and_mask_small [of v 17]
  by (simp_all add: drop_bit_eq_div)

lemma parse_entry_words:
  assumes "entry_fits target abi e" "abi \<in> {APUMC_ABI_V1, APUMC_ABI_V2}" "\<forall>w \<in> set (entry_words e abi). u32 w"
  shows "parse_entry target abi (entry_words e abi) = Inr e"
proof -
  define w0 where "w0 = format_id e OR push_bit 4 (entry_pc e)"
  define w1 where "w1 = first_pc e OR push_bit 16 (last_pc e)"
  define w7 where "w7 = table_offset e OR push_bit 16 (table_bytes e)"
  note f = assms(1) [unfolded entry_fits_def]
  have pcs: "0 \<le> entry_pc e" "entry_pc e < pc_limit abi" "0 \<le> first_pc e" "first_pc e < pc_limit abi"
    "0 \<le> last_pc e" "last_pc e < pc_limit abi" and lim: "pc_limit abi \<le> 4096"
    using f by (auto simp: pc_limit_def)
  have ws: "entry_words e abi =
      [w0, w1, scratch_base e, scratch_bytes e, max_loop_count e, max_retired e, primitive_mask e, w7]"
    unfolding entry_words_def Let_def w0_def w1_def w7_def pc_mask_small(2) [OF assms(2) pcs(1,2)]
      pc_mask_small(1) [OF assms(2) pcs(3,4)] pc_mask_small(1) [OF assms(2) pcs(5,6)] by simp
  have u: "u32 (scratch_base e)" "u32 (scratch_bytes e)" "u32 w7" using assms(3) unfolding ws by simp_all
  then have t: "0 \<le> table_offset e" "0 \<le> table_bytes e" unfolding w7_def by auto
  with f u(1,2) have small: "table_offset e < 65536" "table_bytes e < 65536"
    "scratch_base e < 131072" "scratch_bytes e < 131072" by auto
  have j0: "w0 AND 15 = format_id e" "drop_bit 4 w0 = entry_pc e"
    using join_fields [of "format_id e" 4 "entry_pc e"] f by (auto simp: w0_def)
  have j1: "drop_bit 16 w1 = last_pc e" "w1 AND 65535 = first_pc e"
    using join_fields [of "first_pc e" 16 "last_pc e"] pcs lim by (auto simp: w1_def)
  have j7: "w7 AND 65535 = table_offset e" "drop_bit 16 w7 = table_bytes e"
    using join_fields [of "table_offset e" 16 "table_bytes e"] t small by (auto simp: w7_def)
  have m1: "w1 AND (if abi = APUMC_ABI_V2 then 4095 else 2047) = first_pc e"
  proof -
    have "w1 AND (if abi = APUMC_ABI_V2 then 4095 else 2047) =
        (w1 AND 65535) AND (if abi = APUMC_ABI_V2 then 4095 else 2047)" by (simp add: and.assoc)
    then show ?thesis using j1(2) pc_mask_small(1) [OF assms(2) pcs(3,4)] by simp
  qed
  have r0: "drop_bit (nat (if abi = APUMC_ABI_V2 then 16 else 15)) w0 = 0"
  proof -
    have "drop_bit n w0 = drop_bit (n - 4) (entry_pc e)" if "4 \<le> n" for n
      using that j0(2) drop_bit_drop_bit [of "n - 4" 4 w0] by simp
    moreover have "entry_pc e < 4096" "abi \<noteq> APUMC_ABI_V2 \<Longrightarrow> entry_pc e < 2048"
      using pcs(2) lim by (auto simp: pc_limit_def)
    ultimately show ?thesis using pcs(1) by (auto simp: drop_bit_eq_div)
  qed
  have r1: "w1 AND (if abi = APUMC_ABI_V2 then 4026593280 else 4160813056) = 0"
    unfolding w1_def using range_word_reserved [OF assms(2) pcs(3-6)] .
  have "\<not> entry_reserved_error abi (entry_words e abi)"
    unfolding ws entry_reserved_error_def
    using r0 r1 small_fields(1) [of "max_loop_count e"] small_fields(2) [of "max_retired e"]
      small_fields(3) [of "scratch_base e"] small_fields(3) [of "scratch_bytes e"] f u small by simp
  moreover have "scratch_base e = 0 \<and> scratch_bytes e = 0 \<and> primitive_mask e = 0 \<and> w7 = 0" if "target = P3"
    using f that by (auto simp: w7_def)
  ultimately show ?thesis
    unfolding parse_entry_def ws Let_def
    using j0 j1 j7 m1 pc_mask_small(1) [OF assms(2) pcs(1,2)] pc_mask_small(1) [OF assms(2) pcs(5,6)]
      small_fields(1) [of "max_loop_count e"] small_fields(2) [of "max_retired e"] small_fields(1) [OF t(2) small(2)]
      small_fields(3) [of "scratch_base e"] small_fields(3) [of "scratch_bytes e"] f u small
    by simp
qed

section \<open>The layout of a built bundle\<close>

lemma chunk_at:
  "(\<forall>w \<in> set ws. length w = n) \<Longrightarrow> k < length ws \<Longrightarrow> take n (drop (k * n) (concat ws @ rest)) = ws ! k"
proof (induction ws arbitrary: k)
  case (Cons w ws)
  then show ?case by (cases k) (auto simp: add.commute)
qed simp

lemma length_concat_chunks: "(\<forall>w \<in> set ws. length w = n) \<Longrightarrow> length (concat ws) = n * length ws"
  by (induction ws) auto

definition entry_bytes :: "int \<Rightarrow> apu_entry \<Rightarrow> bytes" where
  "entry_bytes abi e = concat (map (le_bytes 4) (entry_words e abi))"

definition code_bytes :: "apu_instruction list \<Rightarrow> bytes list" where
  "code_bytes instrs = map (\<lambda>i. le_bytes 8 (mc_word i)) instrs"

definition bundle_payload :: "int \<Rightarrow> apu_entry list \<Rightarrow> apu_instruction list \<Rightarrow> bytes \<Rightarrow> bytes" where
  "bundle_payload abi entries instrs table =
     concat (map (entry_bytes abi) entries) @ replicate 32 0 @ concat (code_bytes instrs) @ table"

lemma length_entry_bytes [simp]: "length (entry_bytes abi e) = 32"
  by (simp add: entry_bytes_def entry_words_def Let_def)

lemma pack_entry_Inr:
  "pack_entry abi e = Inr bs \<longleftrightarrow> (\<forall>w \<in> set (entry_words e abi). u32 w) \<and> bs = entry_bytes abi e"
  by (auto simp: pack_entry_def map_error_Inr pack_u32s_Inr entry_bytes_def)

lemma pack_instruction_Inr:
  "pack_instruction i = Inr bs \<longleftrightarrow> mc_in_range i \<and> bs = le_bytes 8 (mc_word i)"
proof -
  have "0 \<le> mc_word i \<and> mc_word i < 256 ^ 8" if "mc_in_range i" using mc_word_bound [OF that] by simp
  then show ?thesis by (auto simp: pack_instruction_def bind_r_Inr mc_encode_value map_error_Inr pack_uint_Inr)
qed

lemma list_all2_function: "list_all2 (\<lambda>x y. P x \<and> y = f x) xs ys \<longleftrightarrow> (\<forall>x \<in> set xs. P x) \<and> ys = map f xs"
  by (induction xs arbitrary: ys) (auto simp: list_all2_Cons1)

lemma build_apumc_Inr:
  assumes "build_apumc instrs entries build_id target table abi_opt = Inr bundle"
  defines "abi \<equiv> build_abi target abi_opt"
  defines "payload \<equiv> bundle_payload abi entries instrs table"
  defines "h \<equiv> header_words abi (int (length instrs)) table entries payload build_id"
  obtains tmask where "build_checks instrs entries target table abi = Inr tmask"
    "\<forall>e \<in> set entries. \<forall>w \<in> set (entry_words e abi). u32 w" "\<forall>i \<in> set instrs. mc_in_range i"
    "required_primitives entries AND NOT tmask = 0" "\<forall>w \<in> set h. u32 w"
    "bundle = concat (map (le_bytes 4) h) @ payload"
proof -
  from assms(1) obtain tmask ds ws hdr where b: "build_checks instrs entries target table abi = Inr tmask"
    "map_r (pack_entry abi) entries = Inr ds" "map_r pack_instruction instrs = Inr ws"
    "required_primitives entries AND NOT tmask = 0"
    "pack_u32s (header_words abi (int (length instrs)) table entries
       (concat ds @ replicate (nat (192 - 64 - int (length (concat ds)))) 0 @ concat ws @ table) build_id) = Inr hdr"
    "bundle = hdr @ concat ds @ replicate (nat (192 - 64 - int (length (concat ds)))) 0 @ concat ws @ table"
    by (auto simp: build_apumc_def Let_def bind_r_Inr raise_if_Inr map_error_Inr abi_def)
  have ds: "\<forall>e \<in> set entries. \<forall>w \<in> set (entry_words e abi). u32 w" "ds = map (entry_bytes abi) entries"
    using b(2) by (simp_all add: map_r_Inr pack_entry_Inr list_all2_function)
  have ws: "\<forall>i \<in> set instrs. mc_in_range i" "ws = code_bytes instrs"
    using b(3) by (simp_all add: map_r_Inr pack_instruction_Inr list_all2_function code_bytes_def)
  have "length entries = 3"
    using b(1) by (simp add: build_checks_def bind_r_Inr raise_if_Inr first_error_append first_error_Inr)
  then have "length (concat ds) = 96" using length_concat_chunks [of ds 32] by (simp add: ds(2))
  then have p: "concat ds @ replicate (nat (192 - 64 - int (length (concat ds)))) 0 @ concat ws @ table = payload"
    by (simp add: payload_def bundle_payload_def ds(2) ws(2))
  show thesis
  proof (rule that)
    show "\<forall>w \<in> set h. u32 w" "bundle = concat (map (le_bytes 4) h) @ payload"
      using b(5,6) unfolding p by (auto simp: pack_u32s_Inr h_def)
  qed (use b ds ws in auto)
qed

text \<open>A built bundle: its header words and the conditions the builder has checked.\<close>

definition built ::
  "apu_instruction list \<Rightarrow> apu_entry list \<Rightarrow> apu_target \<Rightarrow> bytes \<Rightarrow> int \<Rightarrow> int \<Rightarrow> int \<Rightarrow> int list \<Rightarrow> bool" where
  "built instrs entries target table abi build_id tmask h \<longleftrightarrow>
     build_checks instrs entries target table abi = Inr tmask \<and>
     (\<forall>e \<in> set entries. \<forall>w \<in> set (entry_words e abi). u32 w) \<and> (\<forall>i \<in> set instrs. mc_in_range i) \<and>
     required_primitives entries AND NOT tmask = 0 \<and> (\<forall>w \<in> set h. u32 w) \<and>
     h = header_words abi (int (length instrs)) table entries (bundle_payload abi entries instrs table) build_id"

abbreviation built_bytes :: "apu_instruction list \<Rightarrow> apu_entry list \<Rightarrow> bytes \<Rightarrow> int \<Rightarrow> int list \<Rightarrow> bytes" where
  "built_bytes instrs entries table abi h \<equiv>
     concat (map (le_bytes 4) h) @ bundle_payload abi entries instrs table"

lemma built_facts:
  assumes "built instrs entries target table abi build_id tmask h"
  shows "abi \<in> {APUMC_ABI_V1, APUMC_ABI_V2}" "abi = APUMC_ABI_V2 \<longrightarrow> target = P5" "target_mask target = Inr tmask"
    "1 \<le> length instrs" "int (length instrs) \<le> pc_limit abi" "int (length table) AND 3 = 0" "length table \<le> 24576"
    "target = P3 \<longrightarrow> table = []" "length entries = 3"
    "entry_checks entries (int (length instrs)) target (int (length table)) abi = Inr ()"
    "\<forall>i \<in> set instrs. validate_instruction i target abi = Inr ()"
    "\<forall>e \<in> set entries. code_checks build_primitive_check instrs target abi e = Inr ()"
  using assms by (auto simp: built_def build_checks_def bind_r_Inr raise_if_Inr first_error_Inr)

lemma entry_checks_Inr:
  "entry_checks entries count target tbytes abi = Inr () \<longleftrightarrow>
     (\<forall>k < length entries. format_id (entries ! k) = int k \<and> validate_entry (entries ! k) count target tbytes abi = Inr ())"
  unfolding entry_checks_def first_error_Inr set_map ball_simps all_py_enumerate
  by (simp add: bind_r_Inr raise_if_Inr)

lemma built_entries:
  assumes "built instrs entries target table abi build_id tmask h" "e \<in> set entries"
  shows "validate_entry e (int (length instrs)) target (int (length table)) abi = Inr ()" "entry_fits target abi e"
    "parse_entry target abi (entry_words e abi) = Inr e" "0 \<le> scratch_base e + scratch_bytes e"
proof -
  note f = built_facts [OF assms(1)]
  show v: "validate_entry e (int (length instrs)) target (int (length table)) abi = Inr ()"
    using f(10) assms(2) by (auto simp: entry_checks_Inr in_set_conv_nth)
  show fit: "entry_fits target abi e" using f(7) by (intro validated_entry_fits [OF v f(3)]) simp
  have u: "\<forall>w \<in> set (entry_words e abi). u32 w" using assms by (simp add: built_def)
  then show "parse_entry target abi (entry_words e abi) = Inr e" by (rule parse_entry_words [OF fit f(1)])
  show "0 \<le> scratch_base e + scratch_bytes e" using u by (simp add: entry_words_def Let_def)
qed

lemma built_header:
  assumes "built instrs entries target table abi build_id tmask h"
  shows "length h = 16" "unpack_u32s 16 (built_bytes instrs entries table abi h) = h"
    "drop 64 (built_bytes instrs entries table abi h) = bundle_payload abi entries instrs table"
    "length (bundle_payload abi entries instrs table) = 128 + 8 * length instrs + length table"
    "length (built_bytes instrs entries table abi h) = 192 + 8 * length instrs + length table"
proof -
  show l: "length h = 16" using assms by (simp add: built_def header_words_def)
  have "\<forall>w \<in> set h. u32 w" using assms by (simp add: built_def)
  from unpack_pack [OF this] l show "unpack_u32s 16 (built_bytes instrs entries table abi h) = h" by metis
  show "drop 64 (built_bytes instrs entries table abi h) = bundle_payload abi entries instrs table"
    using l by simp
  have "length (concat (map (entry_bytes abi) entries)) = 96"
    using length_concat_chunks [of "map (entry_bytes abi) entries" 32] built_facts(9) [OF assms] by simp
  moreover have "length (concat (code_bytes instrs)) = 8 * length instrs"
    using length_concat_chunks [of "code_bytes instrs" 8] by (simp add: code_bytes_def)
  ultimately show p: "length (bundle_payload abi entries instrs table) = 128 + 8 * length instrs + length table"
    by (simp add: bundle_payload_def)
  show "length (built_bytes instrs entries table abi h) = 192 + 8 * length instrs + length table"
    using l p by simp
qed

lemma header_nth:
  assumes "built instrs entries target table abi build_id tmask h"
  shows "h ! 0 = APUMC_MAGIC" "h ! 1 = abi" "h ! 2 = int (192 + 8 * length instrs + length table)" "h ! 3 = int (length instrs)"
    "h ! 4 = 192" "h ! 5 = (if table \<noteq> [] then 192 + 8 * int (length instrs) else 0)" "h ! 6 = int (length table)"
    "h ! 7 = 64" "h ! 8 = 3" "h ! 9 = required_primitives entries" "h ! 10 = scratch_limit entries"
    "h ! 11 = crc32 (bundle_payload abi entries instrs table)" "h ! 14 = 0" "h ! 15 = 0" "h ! Suc 0 = abi"
  using assms built_header(4) [OF assms] by (simp_all add: built_def header_words_def numeral_eq_Suc)

lemma length_entry_words: "length (entry_words e abi) = 8"
  by (simp add: entry_words_def Let_def)

lemma three_entries: "length xs = 3 \<Longrightarrow> \<exists>a b c. xs = [a, b, c]"
  by (auto simp: numeral_eq_Suc length_Suc_conv)

lemma parse_entries_built:
  assumes "built instrs entries target table abi build_id tmask h"
  shows "parse_entries (built_bytes instrs entries table abi h) target h = Inr entries"
proof -
  obtain a b c where e: "entries = [a, b, c]" using three_entries built_facts(9) [OF assms] by blast
  have "unpack_u32s 8 (entry_bytes abi x @ rest) = entry_words x abi" if "x \<in> set entries" for x rest
  proof -
    have "\<forall>w \<in> set (entry_words x abi). u32 w" using assms that unfolding built_def by blast
    from unpack_pack [OF this, of rest] show ?thesis unfolding entry_bytes_def length_entry_words .
  qed
  moreover have "py_range 0 3 = [0, 1, 2]" by code_simp
  ultimately show ?thesis
    using built_entries(3) [OF assms] built_header(1) [OF assms] header_nth [OF assms]
    by (simp add: parse_entries_def e bundle_payload_def)
qed

lemma nth_py_range: "k < nat (hi - lo) \<Longrightarrow> py_range lo hi ! k = lo + int k"
  by (simp add: py_range_def)

lemma parse_instructions_built:
  assumes "built instrs entries target table abi build_id tmask h"
  shows "parse_instructions (built_bytes instrs entries table abi h) h = Inr instrs"
  unfolding parse_instructions_def map_r_Inr list_all2_conv_all_nth
proof (intro conjI allI impI)
  have h: "h ! 3 = int (length instrs)" "h ! 4 = 192" using header_nth [OF assms] by simp_all
  show len: "length (py_range 0 (h ! 3)) = length instrs" by (simp add: h py_range_def)
  fix k assume "k < length (py_range 0 (h ! 3))"
  then have k: "k < length instrs" by (simp add: len)
  let ?front = "concat (map (le_bytes 4) h) @ concat (map (entry_bytes abi) entries) @ replicate 32 0"
  have "length ?front = 192"
    using length_concat_chunks [of "map (entry_bytes abi) entries" 32] built_facts(9) [OF assms] built_header(1) [OF assms]
    by simp
  then have "drop (nat (h ! 4 + py_range 0 (h ! 3) ! k * 8)) (built_bytes instrs entries table abi h) =
      drop (k * 8) (concat (code_bytes instrs) @ table)"
    using k by (simp add: h nth_py_range bundle_payload_def nat_add_distrib nat_mult_distrib)
  then have "take 8 (drop (nat (h ! 4 + py_range 0 (h ! 3) ! k * 8)) (built_bytes instrs entries table abi h)) =
      le_bytes 8 (mc_word (instrs ! k))"
    using chunk_at [of "code_bytes instrs" 8 k table] k by (simp add: code_bytes_def)
  moreover have r: "mc_in_range (instrs ! k)" using assms k by (simp add: built_def)
  moreover have "le_int (le_bytes 8 (mc_word (instrs ! k))) = mc_word (instrs ! k)"
    using mc_word_bound [OF r] by (intro le_int_le_bytes) simp_all
  moreover have "mc_decode (mc_word (instrs ! k)) = Inr (instrs ! k)"
    unfolding mc_decode_value using mc_word_bound [OF r] mc_word_field [OF r] by simp
  ultimately show "mc_decode (le_int (take 8 (drop (nat (h ! 4 + py_range 0 (h ! 3) ! k * 8))
      (built_bytes instrs entries table abi h)))) = Inr (instrs ! k)" by simp
qed

lemma padding_clear_built:
  assumes "built instrs entries target table abi build_id tmask h"
  shows "padding_clear (built_bytes instrs entries table abi h) h"
  unfolding padding_clear_def
proof (intro ballI impI)
  note f = header_nth [OF assms] built_header(1,5) [OF assms]
  fix n assume n: "n \<in> {..<length (built_bytes instrs entries table abi h)}" and "\<not> occupied h n"
  then have "n < 192 + 8 * length instrs + length table" "160 \<le> n" "n < 192"
    using f(17) by (auto simp: occupied_def f nat_add_distrib nat_mult_distrib split: if_splits)
  moreover have "length (concat (map (entry_bytes abi) entries)) = 96"
    using length_concat_chunks [of "map (entry_bytes abi) entries" 32] built_facts(9) [OF assms] by simp
  moreover have "\<not> n < 64" "\<not> n - 64 < 96" "n - 64 - 96 < 32" using calculation by linarith+
  ultimately show "built_bytes instrs entries table abi h ! n = 0"
    using f(16) by (simp add: bundle_payload_def nth_append)
qed

lemma header_checks_built:
  assumes "built instrs entries target table abi build_id tmask h" "req = None \<or> req = Some abi"
  shows "header_checks target req tmask (int (length (built_bytes instrs entries table abi h))) h = Inr ()"
proof -
  note f = header_nth [OF assms(1)] and b = built_facts [OF assms(1)]
  obtain x y z where e: "entries = [x, y, z]" using three_entries b(9) by blast
  have fit: "entry_fits target abi e'" "0 \<le> scratch_base e' + scratch_bytes e'" if "e' \<in> set entries" for e'
    using built_entries [OF assms(1) that] by blast+
  have p3: "required_primitives entries = 0 \<and> scratch_limit entries = 0" if "target = P3"
    using fit [of x] fit [of y] fit [of z] that
    by (simp add: e entry_fits_def required_primitives_def scratch_limit_def)
  have scratch: "scratch_limit entries \<le> 24576"
    using fit(1) [of x] fit(1) [of y] fit(1) [of z] by (auto simp: e entry_fits_def scratch_limit_def)
  have abi: "abi_checks target req (h ! 1) = Inr ()"
    using assms(2) b(1,2) by (auto simp: abi_checks_def f raise_if_def split: if_splits)
  let ?n = "192 + 8 * length instrs + length table"
  have r: "\<not> range_error (int ?n) h"
    unfolding range_error_def Let_def f by simp
  have mask: "required_primitives entries AND NOT tmask = 0" using assms(1) by (simp add: built_def)
  have t: "\<not> table_range_error (int ?n) h tmask"
    unfolding table_range_error_def Let_def f using b(6,7) mask scratch by simp
  show ?thesis
    unfolding header_checks_def first_error_Inr built_header(5) [OF assms(1)]
    using abi r t b(4,5,8) p3 by (auto simp: f raise_if_def)
qed

section \<open>What parses\<close>

definition dma_wait :: "apu_instruction \<Rightarrow> bool" where
  "dma_wait i \<longleftrightarrow> mc_class i = CLS_CONTROL \<and> mc_opcode i = CTL_WAIT \<and> mc_aux i = 0 \<or>
     mc_class i = CLS_TRANSPORT \<and> mc_opcode i = 3"

definition dma_declared :: "apu_instruction list \<Rightarrow> apu_entry \<Rightarrow> bool" where
  "dma_declared instrs e \<longleftrightarrow>
     list_all (\<lambda>pc. dma_wait (instrs ! nat pc) \<longrightarrow> primitive_mask e AND 458752 \<noteq> 0)
       (py_range (first_pc e) (last_pc e + 1))"

lemma parse_check_declared:
  assumes "build_primitive_check instrs e pc = Inr ()" "0 \<le> pc" "pc < int (length instrs)"
    and "dma_wait (instrs ! nat pc) \<longrightarrow> primitive_mask e AND 458752 \<noteq> 0"
  shows "parse_primitive_check instrs e pc = Inr ()"
  using assms by (auto simp: parse_primitive_check_def build_primitive_check_def py_index_def Let_def dma_wait_def)

lemma code_checks_declared:
  assumes "code_checks build_primitive_check instrs target abi e = Inr ()" "dma_declared instrs e"
    and "0 \<le> first_pc e" "last_pc e < int (length instrs)"
  shows "code_checks parse_primitive_check instrs target abi e = Inr ()"
proof -
  from assms(1) have c: "validate_control_flow instrs e target abi = Inr ()"
    "\<forall>pc \<in> {first_pc e..last_pc e}. build_primitive_check instrs e pc = Inr ()"
    by (auto simp: code_checks_def bind_r_Inr first_error_Inr)
  have "parse_primitive_check instrs e pc = Inr ()" if "pc \<in> {first_pc e..last_pc e}" for pc
    using that c(2) assms(2-4) by (intro parse_check_declared) (auto simp: dma_declared_def list_all_iff)
  with c(1) show ?thesis by (auto simp: code_checks_def bind_r_Inr first_error_Inr)
qed

lemma content_checks_built:
  assumes "built instrs entries target table abi build_id tmask h" "\<forall>e \<in> set entries. dma_declared instrs e"
  shows "content_checks instrs entries target h = Inr ()"
proof -
  note f = header_nth [OF assms(1)] and b = built_facts [OF assms(1)]
  obtain x y z where e: "entries = [x, y, z]" using three_entries b(9) by blast
  have "code_checks parse_primitive_check instrs target abi e' = Inr ()" if "e' \<in> set entries" for e'
  proof (rule code_checks_declared)
    show "0 \<le> first_pc e'" "last_pc e' < int (length instrs)"
      using built_entries(1) [OF assms(1) that] by (auto simp: validate_entry_def result_simps)
  qed (use that b(12) assms(2) in auto)
  moreover have "required_primitives entries = foldl (OR) 0 (map primitive_mask entries)"
    by (simp add: required_primitives_def e)
  moreover have "scratch_limit entries = Max (set (map (\<lambda>e. scratch_base e + scratch_bytes e) entries))"
    using built_entries(4) [OF assms(1), of x] by (simp add: scratch_limit_def e max.assoc)
  ultimately show ?thesis
    using b(10,11) by (auto simp: content_checks_def first_error_Inr raise_if_Inr f)
qed

lemma build_is_built:
  assumes "build_apumc instrs entries build_id target table abi_opt = Inr bundle"
  obtains tmask h where "built instrs entries target table (build_abi target abi_opt) build_id tmask h"
    "bundle = built_bytes instrs entries table (build_abi target abi_opt) h"
  using build_apumc_Inr [OF assms] unfolding built_def by blast

lemma parse_built:
  assumes "built instrs entries target table abi build_id tmask h"
  shows "parse_apumc (built_bytes instrs entries table abi h) target None =
    bind_r (content_checks instrs entries target h) (\<lambda>_. Inr (instrs, entries, h))"
proof -
  have "\<not> length (built_bytes instrs entries table abi h) < 64" using built_header(5) [OF assms] by simp
  moreover have "crc32_iso_hdlc (drop 64 (built_bytes instrs entries table abi h)) = h ! 11"
    using built_header(3) [OF assms] header_nth(12) [OF assms] by simp
  ultimately show ?thesis
    unfolding parse_apumc_def Let_def built_facts(3) [OF assms] built_header(2) [OF assms] bind_r_simps
      header_checks_built [OF assms disjI1, OF refl] parse_entries_built [OF assms]
      parse_instructions_built [OF assms]
    by (simp add: raise_if_def padding_clear_built [OF assms])
qed

lemma code_checks_undeclared:
  assumes "code_checks build_primitive_check instrs target abi e = Inr ()"
    and "0 \<le> first_pc e" "last_pc e < int (length instrs)"
  shows "code_checks parse_primitive_check instrs target abi e = Inr () \<and> dma_declared instrs e \<or>
    (\<exists>msg. code_checks parse_primitive_check instrs target abi e = Inl (ValueError msg)) \<and> \<not> dma_declared instrs e"
proof -
  from assms(1) have c: "validate_control_flow instrs e target abi = Inr ()"
    "\<forall>pc \<in> {first_pc e..last_pc e}. build_primitive_check instrs e pc = Inr ()"
    by (auto simp: code_checks_def bind_r_Inr first_error_Inr)
  let ?cs = "map (parse_primitive_check instrs e) (py_range (first_pc e) (last_pc e + 1))"
  have p: "code_checks parse_primitive_check instrs target abi e = first_error ?cs"
    by (simp add: code_checks_def c)
  show ?thesis
  proof (cases "dma_declared instrs e")
    case True
    then show ?thesis using code_checks_declared [OF assms(1) _ assms(2,3)] by simp
  next
    case False
    then obtain pc where pc: "pc \<in> {first_pc e..last_pc e}" "dma_wait (instrs ! nat pc)" "primitive_mask e AND 458752 = 0"
      by (auto simp: dma_declared_def list_all_iff)
    have err: "\<exists>msg. parse_primitive_check instrs e q = Inl (ValueError msg)"
      if "q \<in> {first_pc e..last_pc e}" "parse_primitive_check instrs e q \<noteq> Inr ()" for q
      using that assms(2,3) unfolding parse_primitive_check_def control_primitive_check_def
      by (auto simp: py_index_def Let_def raise_if_def split: if_splits)
    have "instruction_required_mask (instrs ! nat pc) = 0"
      using pc(2) unfolding dma_wait_def by (elim disjE) (simp_all add: instruction_required_mask_def Let_def)
    then have "parse_primitive_check instrs e pc \<noteq> Inr ()"
      using pc assms(2,3) by (auto simp: parse_primitive_check_def py_index_def Let_def dma_wait_def)
    then have "first_error ?cs \<noteq> Inr ()" using pc(1) by (auto simp: first_error_Inr)
    then obtain x where "first_error ?cs = Inl x" by (cases "first_error ?cs") auto
    with first_error_Inl [OF this] err have "\<exists>msg. x = ValueError msg" by fastforce
    with \<open>first_error ?cs = Inl x\<close> False p show ?thesis by auto
  qed
qed

lemma content_checks_exact:
  assumes "built instrs entries target table abi build_id tmask h"
  shows "content_checks instrs entries target h = Inr () \<and> (\<forall>e \<in> set entries. dma_declared instrs e) \<or>
    (\<exists>msg. content_checks instrs entries target h = Inl (ValueError msg)) \<and> (\<exists>e \<in> set entries. \<not> dma_declared instrs e)"
proof (cases "\<forall>e \<in> set entries. dma_declared instrs e")
  case True
  with content_checks_built [OF assms] show ?thesis by simp
next
  case False
  then obtain e where e: "e \<in> set entries" "\<not> dma_declared instrs e" by blast
  note b = built_facts [OF assms] and f = header_nth [OF assms]
  have code: "code_checks parse_primitive_check instrs target abi x = Inr () \<and> dma_declared instrs x \<or>
    (\<exists>msg. code_checks parse_primitive_check instrs target abi x = Inl (ValueError msg)) \<and> \<not> dma_declared instrs x"
    if "x \<in> set entries" for x
  proof (rule code_checks_undeclared)
    show "0 \<le> first_pc x" "last_pc x < int (length instrs)"
      using built_entries(1) [OF assms that] by (auto simp: validate_entry_def result_simps)
  qed (use b(12) that in blast)
  have "content_checks instrs entries target h \<noteq> Inr ()"
  proof
    assume "content_checks instrs entries target h = Inr ()"
    then have "code_checks parse_primitive_check instrs target abi e = Inr ()"
      using e(1) by (simp add: content_checks_def first_error_Inr f)
    with code [OF e(1)] e(2) show False by simp
  qed
  then obtain x where x: "content_checks instrs entries target h = Inl x"
    by (cases "content_checks instrs entries target h") auto
  have "\<exists>msg. x = ValueError msg"
    using first_error_Inl [OF x [unfolded content_checks_def]] b(10,11) code
    by (auto simp: f raise_if_def dest!: code split: if_splits)
  with x False show ?thesis by blast
qed

text \<open>C23: Round trip. A bundle that the builder produces parses back to the same instructions and entry
  descriptors, with the build identifier and the table payload where the header says, exactly when
  every entry that waits for the DMA declares a transport primitive; otherwise the parser refuses it
  with a \<open>ValueError\<close>, although the builder accepted it.\<close>

theorem build_parse_roundtrip:
  assumes "build_apumc instrs entries build_id target table abi = Inr bundle"
  shows "if \<forall>e \<in> set entries. dma_declared instrs e
    then \<exists>h. parse_apumc bundle target None = Inr (instrs, entries, h) \<and> h ! 1 = build_abi target abi \<and>
      h ! 12 + 2 ^ 32 * h ! 13 = build_id mod 2 ^ 64 \<and>
      take (nat (h ! 6)) (drop (nat (h ! 5)) bundle) = table
    else \<exists>message. parse_apumc bundle target None = Inl (ValueError message)"
proof -
  from build_is_built [OF assms] obtain tmask h where
    b: "built instrs entries target table (build_abi target abi) build_id tmask h"
    and bnd: "bundle = built_bytes instrs entries table (build_abi target abi) h" .
  note f = header_nth [OF b]
  have "h ! 12 = build_id mod 2 ^ 32" "h ! 13 = build_id div 2 ^ 32 mod 2 ^ 32"
  proof -
    have "h = header_words (build_abi target abi) (int (length instrs)) table entries
        (bundle_payload (build_abi target abi) entries instrs table) build_id"
      using b unfolding built_def by blast
    then have "h ! 12 = build_id AND 4294967295" "h ! 13 = shr build_id 32 AND 4294967295"
      by (simp_all add: header_words_def)
    then show "h ! 12 = build_id mod 2 ^ 32" "h ! 13 = build_id div 2 ^ 32 mod 2 ^ 32"
      by (simp_all add: bit_arith)
  qed
  then have id: "h ! 12 + 2 ^ 32 * h ! 13 = build_id mod 2 ^ 64"
    using zmod_zmult2_eq [of "2 ^ 32" build_id "2 ^ 32"] by simp
  have "drop (192 + 8 * length instrs) bundle = table"
  proof -
    have "length (built_bytes instrs entries [] (build_abi target abi) h) = 192 + 8 * length instrs"
      using built_header(5) [OF b] by (simp add: bundle_payload_def)
    moreover have "bundle = built_bytes instrs entries [] (build_abi target abi) h @ table"
      by (simp add: bnd bundle_payload_def)
    ultimately show ?thesis by simp
  qed
  then have tab: "take (nat (h ! 6)) (drop (nat (h ! 5)) bundle) = table"
    by (auto simp: f nat_add_distrib nat_mult_distrib)
  from content_checks_exact [OF b] parse_built [OF b] id tab f(2) show ?thesis
    unfolding bnd by auto
qed

lemma parse_apumc_Inr:
  assumes "parse_apumc bundle target abi = Inr (instrs, entries, h)"
  obtains tmask where "target_mask target = Inr tmask" "64 \<le> length bundle" "h = unpack_u32s 16 bundle"
    "header_checks target abi tmask (int (length bundle)) h = Inr ()" "crc32 (drop 64 bundle) = h ! 11"
    "parse_entries bundle target h = Inr entries" "parse_instructions bundle h = Inr instrs"
    "padding_clear bundle h" "content_checks instrs entries target h = Inr ()"
  using assms by (auto simp: parse_apumc_def Let_def bind_r_Inr raise_if_Inr)

text \<open>C24: Integrity. Changing one byte behind the header of a bundle that parses makes the parser
  refuse it with the checksum error.\<close>

theorem damaged_byte_refused:
  assumes "parse_apumc (xs @ a # ys) target abi = Inr r" "64 \<le> length xs" "a \<noteq> b"
  shows "parse_apumc (xs @ b # ys) target abi = Inl (ValueError ''APUMC CRC mismatch'')"
proof -
  obtain instrs entries h where r: "r = (instrs, entries, h)" by (cases r)
  from parse_apumc_Inr [OF assms(1) [unfolded r]] obtain tmask where p: "target_mask target = Inr tmask"
    "h = unpack_u32s 16 (xs @ a # ys)" "header_checks target abi tmask (int (length (xs @ a # ys))) h = Inr ()"
    "crc32 (drop 64 (xs @ a # ys)) = h ! 11" by blast
  have h: "unpack_u32s 16 (xs @ b # ys) = h" using assms(2) by (simp add: p(2) unpack_u32s_append)
  have "crc32 (drop 64 xs @ b # ys) \<noteq> crc32 (drop 64 xs @ a # ys)"
    using crc32_detects_byte [of "drop 64 xs" a ys b] assms(3) by auto
  then have "crc32 (drop 64 (xs @ b # ys)) \<noteq> h ! 11" using p(4) assms(2) by simp
  with p(1,3) h assms(2) show ?thesis by (simp add: parse_apumc_def Let_def raise_if_def)
qed

lemma parsed_entry_accepted:
  assumes "parse_apumc bundle target abi = Inr (instrs, entries, h)" "e \<in> set entries"
  shows "entry_accepted instrs e target (h ! 6) (h ! 1)" "int (length instrs) = h ! 3"
proof -
  from parse_apumc_Inr [OF assms(1)] obtain tmask where p:
    "header_checks target abi tmask (int (length bundle)) h = Inr ()" "parse_instructions bundle h = Inr instrs"
    "content_checks instrs entries target h = Inr ()" by metis
  have "1 \<le> h ! 3" using p(1) by (auto simp: header_checks_def first_error_Inr raise_if_Inr)
  moreover have "length instrs = nat (h ! 3)"
    using p(2) by (auto simp: parse_instructions_def map_r_Inr py_range_def dest!: list_all2_lengthD)
  ultimately show n: "int (length instrs) = h ! 3" by simp
  have c: "entry_checks entries (h ! 3) target (h ! 6) (h ! 1) = Inr ()"
    "\<forall>i \<in> set instrs. validate_instruction i target (h ! 1) = Inr ()"
    "code_checks parse_primitive_check instrs target (h ! 1) e = Inr ()"
    using p(3) assms(2) by (simp_all add: content_checks_def first_error_Inr)
  have "validate_entry e (h ! 3) target (h ! 6) (h ! 1) = Inr ()"
    using c(1) assms(2) by (auto simp: entry_checks_Inr in_set_conv_nth)
  moreover have "\<exists>rep. control_flow_report instrs e target (h ! 1) = Inr rep"
    using c(3) by (auto simp: code_checks_def validate_control_flow_def bind_r_Inr)
  ultimately show "entry_accepted instrs e target (h ! 6) (h ! 1)" using c(2) n by (simp add: entry_accepted_def)
qed

lemma parsed_instruction_word:
  assumes "parse_apumc bundle target abi = Inr (instrs, entries, h)" "k < length instrs"
  shows "mc_encode (instrs ! k) = Inr (le_int (take 8 (drop (nat (h ! 4) + 8 * k) bundle)))"
proof -
  from parse_apumc_Inr [OF assms(1)] obtain tmask where p:
    "header_checks target abi tmask (int (length bundle)) h = Inr ()" "parse_instructions bundle h = Inr instrs" by metis
  have "0 \<le> h ! 4" using p(1) by (auto simp: header_checks_def first_error_Inr raise_if_Inr range_error_def Let_def)
  then have n: "nat (h ! 4 + int k * 8) = nat (h ! 4) + 8 * k" by (simp add: nat_add_distrib nat_mult_distrib)
  have len: "length instrs = nat (h ! 3)"
    using p(2) by (auto simp: parse_instructions_def map_r_Inr py_range_def dest!: list_all2_lengthD)
  then have "mc_decode (le_int (take 8 (drop (nat (h ! 4 + py_range 0 (h ! 3) ! k * 8)) bundle))) = Inr (instrs ! k)"
    using p(2) assms(2) by (auto simp: parse_instructions_def map_r_Inr list_all2_conv_all_nth)
  then have d: "mc_decode (le_int (take 8 (drop (nat (h ! 4) + 8 * k) bundle))) = Inr (instrs ! k)"
    using len assms(2) n by (simp add: nth_py_range)
  note v = d [unfolded mc_decode_value]
  from mc_word_join [OF v [THEN conjunct1] v [THEN conjunct2, THEN conjunct1] v [THEN conjunct2, THEN conjunct2]]
  show ?thesis by (simp add: mc_encode_value)
qed

text \<open>C25: What parses is safe to run. Every entry of a bundle that parses passes the checks of
  \<open>entry_accepted\<close> for the image's own ABI, its instructions are the decodings of its bytes, and the
  header's sizes are those of the image.\<close>

theorem parsed_bundle_accepted:
  assumes "parse_apumc bundle target abi = Inr (instrs, entries, h)" "e \<in> set entries"
  shows "entry_accepted instrs e target (h ! 6) (h ! 1) \<and> int (length instrs) = h ! 3 \<and>
    length entries = 3 \<and> int (length bundle) = h ! 2 \<and>
    (\<forall>k < length instrs. mc_encode (instrs ! k) = Inr (le_int (take 8 (drop (nat (h ! 4) + 8 * k) bundle))))"
proof -
  from parse_apumc_Inr [OF assms(1)] obtain tmask where p:
    "header_checks target abi tmask (int (length bundle)) h = Inr ()" "parse_entries bundle target h = Inr entries" by metis
  have "h ! 2 = int (length bundle)" using p(1) by (auto simp: header_checks_def first_error_Inr raise_if_Inr)
  moreover have "length entries = 3"
    using p(2) by (auto simp: parse_entries_def map_r_Inr py_range_def dest!: list_all2_lengthD)
  ultimately show ?thesis
    using parsed_entry_accepted [OF assms] parsed_instruction_word [OF assms(1)] by simp
qed

section \<open>A concrete bundle\<close>

text \<open>The smallest microcode: every entry ends at once.\<close>

definition tiny_code :: "apu_instruction list" where
  "tiny_code = [mc_ins CLS_CONTROL CTL_END 0 0 0 0 0]"

definition tiny_entries :: "apu_entry list" where
  "tiny_entries = map (\<lambda>k. (flow_entry 0)\<lparr>format_id := k\<rparr>) [0, 1, 2]"

lemma tiny_build: "\<exists>bundle. build_apumc tiny_code tiny_entries 0 P3 [] None = Inr bundle"
proof -
  have c: "build_checks tiny_code tiny_entries P3 [] APUMC_ABI_V1 = Inr 0" by code_simp
  have "\<exists>ds. map_r (pack_entry APUMC_ABI_V1) tiny_entries = Inr ds" by (rule exI) code_simp
  moreover have "\<exists>ws. map_r pack_instruction tiny_code = Inr ws" by (rule exI) code_simp
  ultimately obtain ds ws where d: "map_r (pack_entry APUMC_ABI_V1) tiny_entries = Inr ds"
    "map_r pack_instruction tiny_code = Inr ws" by blast
  have "list_all2 (\<lambda>e d. length d = 32) tiny_entries ds" "list_all2 (\<lambda>i w. length w = 8) tiny_code ws"
    using d by (auto simp: map_r_Inr pack_entry_Inr pack_instruction_Inr elim!: list_all2_mono)
  then have len: "length (concat ds) = 96" "length (concat ws) = 8"
    by (auto simp: tiny_entries_def tiny_code_def list_all2_Cons1)
  have "required_primitives tiny_entries = 0" "scratch_limit tiny_entries = 0" by code_simp+
  moreover from this obtain hdr where
    "pack_u32s (header_words APUMC_ABI_V1 (int (length tiny_code)) [] tiny_entries (concat ds @ replicate 32 0 @ concat ws) 0) =
      Inr hdr"
    using crc32_u32 [of "concat ds @ replicate 32 0 @ concat ws"] len
    by (auto simp: pack_u32s_Inr header_words_def tiny_code_def)
  ultimately show ?thesis
    by (simp add: build_apumc_def build_abi_def c d Let_def raise_if_def len)
qed

lemma tiny_declared: "\<forall>e \<in> set tiny_entries. dma_declared tiny_code e"
  by code_simp

lemma tiny_parse:
  obtains bs h where "parse_apumc bs P3 None = Inr (tiny_code, tiny_entries, h)" "64 < length bs" "h ! 1 = APUMC_ABI_V1" "h ! 6 = 0"
proof -
  obtain tmask h where b: "built tiny_code tiny_entries P3 [] (build_abi P3 None) 0 tmask h"
    using tiny_build by (elim exE build_is_built)
  show thesis
  proof (rule that)
    show "parse_apumc (built_bytes tiny_code tiny_entries [] (build_abi P3 None) h) P3 None = Inr (tiny_code, tiny_entries, h)"
      using content_checks_built [OF b tiny_declared] parse_built [OF b] by simp
  qed (use header_nth [OF b] built_header(5) [OF b] in \<open>simp_all add: build_abi_def\<close>)
qed

theorem build_parse_roundtrip_witness:
  "\<exists>bundle h. parse_apumc bundle P3 None = Inr (tiny_code, tiny_entries, h) \<and> h ! 12 + 2 ^ 32 * h ! 13 = 0"
proof -
  obtain bs where "build_apumc tiny_code tiny_entries 0 P3 [] None = Inr bs" using tiny_build by blast
  from build_parse_roundtrip [OF this] tiny_declared show ?thesis by auto
qed

theorem parsed_bundle_accepted_witness:
  "entry_accepted tiny_code (flow_entry 0) P3 0 APUMC_ABI_V1"
proof -
  have e: "flow_entry 0 \<in> set tiny_entries" by (simp add: tiny_entries_def flow_entry_def)
  obtain bs h where "parse_apumc bs P3 None = Inr (tiny_code, tiny_entries, h)" "h ! 1 = APUMC_ABI_V1" "h ! 6 = 0"
    by (rule tiny_parse)
  with parsed_bundle_accepted [OF this(1) e] show ?thesis by simp
qed

theorem damaged_byte_refused_witness:
  "\<exists>xs a ys r. parse_apumc (xs @ a # ys) P3 None = Inr r \<and>
     parse_apumc (xs @ (a + 1) # ys) P3 None = Inl (ValueError ''APUMC CRC mismatch'')"
proof -
  obtain bs h where p: "parse_apumc bs P3 None = Inr (tiny_code, tiny_entries, h)" and l: "64 < length bs" by (rule tiny_parse)
  have s: "take 64 bs @ bs ! 64 # drop 65 bs = bs" using id_take_nth_drop [OF l] by simp
  have q: "parse_apumc (take 64 bs @ bs ! 64 # drop 65 bs) P3 None = Inr (tiny_code, tiny_entries, h)"
    unfolding s by (rule p)
  have "bs ! 64 \<noteq> bs ! 64 + 1" "64 \<le> length (take 64 bs)" using l by simp_all
  from damaged_byte_refused [OF q this(2,1)] q show ?thesis by blast
qed

end
