(* ===== verification/Apu_Codec.thy ===== *)
theory Apu_Codec
  imports Apu_Prim_Props
begin

text \<open>
  The host codecs of \<open>src/scripts/apu_codecs.py\<close>: the post-processing of decoded PCM, the bit reader, the RIFF/WAVE
  parser and the metadata, subframes and frames of FLAC. The loop over the frames of a file is in the
  theory after this one.

  \<open>CodecError\<close> carries the attributes of the exception. \<open>CodecPy\<close> stands for the exceptions of Python
  itself: an index out of range, a negative shift count, an integer that does not fit its bytes, a
  division by zero. A method of the reader answers its result or exception with the reader at that
  moment. The coefficient words of \<open>coefficient_words()\<close>, decimal fixed-point data, are an argument.
\<close>

unbundle bit_operations_syntax

section \<open>Data\<close>

record audio_info =
  ai_rate :: int
  ai_channels :: int
  ai_bits :: int
  ai_samples :: "int option"
  ai_data_offset :: int
  ai_data_bytes :: int
  ai_input_used :: int
  ai_warnings :: int

record decoded_audio =
  da_info :: audio_info
  da_samples :: "int list list"

record processed_pcm =
  pp_rate :: int
  pp_channels :: int
  pp_bits :: int
  pp_frames :: int
  pp_payload :: bytes

record codec_error =
  ce_code :: int
  ce_stage :: int
  ce_reason :: int
  ce_offset :: int
  ce_warnings :: int
  ce_input_used :: int
  ce_partial_audio :: "decoded_audio option"

datatype codec_py = CodecIndexError | CodecShiftError | CodecOverflowError | CodecZeroDivision

datatype codec_exn = CodecError codec_error | CodecPy codec_py

definition codec_error_new :: "int \<Rightarrow> int \<Rightarrow> int \<Rightarrow> int \<Rightarrow> int \<Rightarrow> int option \<Rightarrow> codec_error" where
  "codec_error_new code stage reason offset warnings used =
     \<lparr>ce_code = code, ce_stage = stage, ce_reason = reason, ce_offset = offset, ce_warnings = warnings,
      ce_input_used = (case used of None \<Rightarrow> offset | Some n \<Rightarrow> n), ce_partial_audio = None\<rparr>"

definition codec_fail :: "int \<Rightarrow> int \<Rightarrow> int \<Rightarrow> int \<Rightarrow> int \<Rightarrow> codec_exn" where
  "codec_fail code stage reason offset warnings =
     CodecError (codec_error_new code stage reason offset warnings None)"

definition codec_fail_used :: "int \<Rightarrow> int \<Rightarrow> int \<Rightarrow> int \<Rightarrow> int \<Rightarrow> int \<Rightarrow> codec_exn" where
  "codec_fail_used code stage reason offset warnings used =
     CodecError (codec_error_new code stage reason offset warnings (Some used))"

section \<open>Indexing, slices, shifts and comprehensions of Python\<close>

definition codec_nth :: "'a list \<Rightarrow> int \<Rightarrow> codec_exn + 'a" where
  "codec_nth xs i =
     (if 0 \<le> i \<and> i < int (length xs) then Inr (xs ! nat i) else Inl (CodecPy CodecIndexError))"

text \<open>\<open>xs[-k]\<close> for a positive \<open>k\<close>.\<close>

definition codec_last :: "int \<Rightarrow> 'a list \<Rightarrow> codec_exn + 'a" where
  "codec_last k xs = codec_nth xs (int (length xs) - k)"

definition py_slice :: "'a list \<Rightarrow> int \<Rightarrow> int \<Rightarrow> 'a list" where
  "py_slice xs lo hi = take (nat (hi - lo)) (drop (nat lo) xs)"

definition py_shl :: "int \<Rightarrow> int \<Rightarrow> codec_exn + int" where
  "py_shl v n = (if n < 0 then Inl (CodecPy CodecShiftError) else Inr (shl v n))"

definition py_to_bytes :: "nat \<Rightarrow> int \<Rightarrow> codec_exn + bytes" where
  "py_to_bytes n v =
     (if - (256 ^ n div 2) \<le> v \<and> v < 256 ^ n div 2 then Inr (le_bytes n v)
      else Inl (CodecPy CodecOverflowError))"

fun map_s :: "('i \<Rightarrow> 's \<Rightarrow> ('e + 'a) \<times> 's) \<Rightarrow> 'i list \<Rightarrow> 's \<Rightarrow> ('e + 'a list) \<times> 's" where
  "map_s f [] s = (Inr [], s)"
| "map_s f (i # is) s = bind_s (f i s) (\<lambda>x s. bind_s (map_s f is s) (\<lambda>xs s. (Inr (x # xs), s)))"

definition be_int :: "bytes \<Rightarrow> int" where
  "be_int bs = le_int (rev bs)"

section \<open>PCM post-processing\<close>

definition codec_ratios :: "(int \<times> int) list" where
  "codec_ratios =
     [(1, 1), (1, 2), (80, 147), (160, 147), (3, 2), (2, 1), (3, 1), (4, 1), (6, 1), (8, 1), (12, 1),
      (320, 147), (640, 147), (1280, 147), (2, 3), (4, 3)]"

text \<open>The shift is 1 or 30 where the source calls it.\<close>

definition codec_rne :: "int \<Rightarrow> int \<Rightarrow> int" where
  "codec_rne v shift =
     (let magnitude = \<bar>v\<bar>;
          quot = magnitude div shl 1 shift;
          remainder = magnitude mod shl 1 shift;
          halfway = shl 1 (shift - 1);
          rounded = (if remainder > halfway \<or> (remainder = halfway \<and> quot AND 1 \<noteq> 0)
                     then quot + 1 else quot) in
      if v < 0 then - rounded else rounded)"

definition codec_sat :: "int \<Rightarrow> int \<Rightarrow> int" where
  "codec_sat v bits = min (max v (- shl 1 (bits - 1))) (shl 1 (bits - 1) - 1)"

definition codec_profile :: "int \<Rightarrow> int \<Rightarrow> codec_exn + int" where
  "codec_profile output_rate input_rate =
     (if input_rate = 0 then Inl (CodecPy CodecZeroDivision)
      else
        case find (\<lambda>(index, item). output_rate * snd item = fst item * input_rate) (py_enumerate codec_ratios) of
          Some (index, item) \<Rightarrow> Inr index
        | None \<Rightarrow> Inl (codec_fail 3 0 0x50 0 0))"

text \<open>Position and phase of one output frame, then its value on every channel.\<close>

definition codec_phase :: "int \<Rightarrow> int \<Rightarrow> int \<times> int" where
  "codec_phase ratio_l numerator =
     (let source_index = numerator div ratio_l;
          remainder = numerator mod ratio_l;
          phase_floor = (32 * remainder) div ratio_l;
          twice = (32 * remainder) mod ratio_l * 2;
          phase = (if twice > ratio_l \<or> (twice = ratio_l \<and> phase_floor AND 1 \<noteq> 0)
                   then phase_floor + 1 else phase_floor) in
      if phase = 32 then (source_index + 1, 0) else (source_index, phase))"

definition codec_tap :: "int list list \<Rightarrow> int list \<Rightarrow> int \<Rightarrow> int \<Rightarrow> int \<Rightarrow> int \<Rightarrow> codec_exn + int" where
  "codec_tap padded coefficients source_index phase channel tap =
     bind_r (codec_nth padded (source_index + tap)) (\<lambda>frame.
     bind_r (codec_nth frame channel) (\<lambda>x.
     bind_r (codec_nth coefficients (phase * 16 + tap)) (\<lambda>c. Inr (x * c))))"

definition resampled_frame :: "int list list \<Rightarrow> int list \<Rightarrow> int \<Rightarrow> int \<Rightarrow> int \<Rightarrow> codec_exn + int list" where
  "resampled_frame padded coefficients channels source_index phase =
     map_r
       (\<lambda>channel.
          bind_r (map_r (codec_tap padded coefficients source_index phase channel) (py_range 0 16)) (\<lambda>products.
            Inr (codec_sat (codec_rne (sum_list products) 30) 32)))
       (py_range 0 channels)"

text \<open>The ratios are positive, as the entries of the table are.\<close>

function codec_resample_loop ::
  "int list list \<Rightarrow> int list \<Rightarrow> int \<Rightarrow> int \<Rightarrow> int \<Rightarrow> int \<Rightarrow> int list list \<Rightarrow> int \<Rightarrow> codec_exn + int list list" where
  "codec_resample_loop padded coefficients channels ratio_l ratio_m count out numerator =
     (if 0 < ratio_l \<and> 0 < ratio_m \<and> numerator div ratio_l < count then
        (case codec_phase ratio_l numerator of (source_index, phase) \<Rightarrow>
         bind_r (resampled_frame padded coefficients channels source_index phase) (\<lambda>frame.
           codec_resample_loop padded coefficients channels ratio_l ratio_m count (out @ [frame])
             (numerator + ratio_m)))
      else Inr out)"
  by pat_completeness auto

termination
proof (relation "measure (\<lambda>(padded, coefficients, channels, ratio_l, ratio_m, count, out, numerator).
    nat (count * ratio_l - numerator))", simp)
  fix ratio_l ratio_m count numerator :: int
  assume "0 < ratio_l \<and> 0 < ratio_m \<and> numerator div ratio_l < count"
  then have "numerator < count * ratio_l" "0 < ratio_m"
    using zdiv_mono1 [of "count * ratio_l" numerator ratio_l] by (auto simp: not_le [symmetric])
  then show "((padded, coefficients, channels, ratio_l, ratio_m, count, out @ [frame], numerator + ratio_m),
      padded, coefficients, channels, ratio_l, ratio_m, count, out, numerator)
      \<in> measure (\<lambda>(padded, coefficients, channels, ratio_l, ratio_m, count, out, numerator).
          nat (count * ratio_l - numerator))" for padded coefficients channels out frame by simp
qed

declare codec_resample_loop.simps [simp del]

definition codec_resample :: "int list \<Rightarrow> int list list \<Rightarrow> int \<Rightarrow> codec_exn + int list list" where
  "codec_resample words samples profile =
     (if profile = 0 then Inr samples
      else
        bind_r (codec_nth codec_ratios profile) (\<lambda>(ratio_l, ratio_m).
        let bank = (if profile \<in> {1, 2} then 2 else if profile = 14 then 1 else 0);
            coefficients = py_slice words (bank * 512) ((bank + 1) * 512);
            channels = (case samples of [] \<Rightarrow> 1 | frame # _ \<Rightarrow> int (length frame));
            zero = replicate (nat channels) 0;
            padded = replicate 7 zero @ samples @ replicate 9 zero in
        codec_resample_loop padded coefficients channels ratio_l ratio_m (int (length samples)) [] 0))"

text \<open>The keyword arguments of \<open>process_pcm\<close>.\<close>

record pcm_args =
  pa_output_rate :: int
  pa_output_channels :: int
  pa_output_bits :: int
  pa_downmix :: bool
  pa_resample :: bool
  pa_i2s :: bool

definition pcm_target_rate :: "audio_info \<Rightarrow> pcm_args \<Rightarrow> int" where
  "pcm_target_rate info args = (if pa_output_rate args = 0 then ai_rate info else pa_output_rate args)"

definition pcm_logical_channels :: "audio_info \<Rightarrow> pcm_args \<Rightarrow> int" where
  "pcm_logical_channels info args =
     (if pa_output_channels args = 0 then if pa_i2s args then 2 else ai_channels info
      else pa_output_channels args)"

definition pcm_checks :: "audio_info \<Rightarrow> pcm_args \<Rightarrow> codec_exn + unit" where
  "pcm_checks info args =
     (let refused = codec_fail 3 0 0x50 0 0; logical = pcm_logical_channels info args in
      first_error
        [raise_if (pa_output_bits args \<notin> {16, 24}) refused,
         raise_if (logical \<notin> {1, 2}) refused,
         raise_if (pa_downmix args \<and> (ai_channels info \<noteq> 2 \<or> logical \<noteq> 1)) refused,
         raise_if (\<not> pa_downmix args \<and> ai_channels info = 2 \<and> logical = 1) refused,
         raise_if (\<not> pa_resample args \<and> pcm_target_rate info args \<noteq> ai_rate info) refused])"

definition duplicate_mono :: "int list \<Rightarrow> codec_exn + int list" where
  "duplicate_mono frame = bind_r (codec_nth frame 0) (\<lambda>x. Inr [x, x])"

definition downmix_frame :: "int list \<Rightarrow> codec_exn + int list" where
  "downmix_frame frame =
     bind_r (codec_nth frame 0) (\<lambda>x. bind_r (codec_nth frame 1) (\<lambda>y.
       Inr [codec_sat (codec_rne (x + y) 1) 32]))"

definition pcm_mix :: "audio_info \<Rightarrow> pcm_args \<Rightarrow> int list list \<Rightarrow> codec_exn + int list list" where
  "pcm_mix info args normalized =
     (if pa_downmix args then map_r downmix_frame normalized
      else if ai_channels info = 1 \<and> pcm_logical_channels info args = 2 then map_r duplicate_mono normalized
      else Inr normalized)"

definition pcm_sample_bytes :: "int \<Rightarrow> int \<Rightarrow> codec_exn + bytes" where
  "pcm_sample_bytes output_bits sample =
     (let v = codec_sat (shr sample (32 - output_bits)) output_bits in
      if output_bits = 16 then py_to_bytes 2 v else py_to_bytes 4 v)"

definition process_pcm :: "int list \<Rightarrow> decoded_audio \<Rightarrow> pcm_args \<Rightarrow> codec_exn + processed_pcm" where
  "process_pcm words audio args =
     (let info = da_info audio in
      bind_r (pcm_checks info args) (\<lambda>_.
      bind_r (if pa_resample args then codec_profile (pcm_target_rate info args) (ai_rate info) else Inr 0)
        (\<lambda>profile.
      bind_r (map_r (map_r (\<lambda>sample. py_shl sample (32 - ai_bits info))) (da_samples audio)) (\<lambda>normalized.
      bind_r (pcm_mix info args normalized) (\<lambda>mixed.
      bind_r (codec_resample words mixed profile) (\<lambda>converted.
      let physical = (if pa_i2s args then 2 else pcm_logical_channels info args) in
      bind_r
        (if physical = 2 \<and> converted \<noteq> [] \<and> length (hd converted) = 1 then map_r duplicate_mono converted
         else Inr converted)
        (\<lambda>frames.
      bind_r (map_r (pcm_sample_bytes (pa_output_bits args)) (concat frames)) (\<lambda>encoded.
        Inr \<lparr>pp_rate = pcm_target_rate info args, pp_channels = physical, pp_bits = pa_output_bits args,
             pp_frames = int (length frames), pp_payload = concat encoded\<rparr>))))))))"

section \<open>The bit reader\<close>

record reader =
  rd_data :: bytes
  rd_bit :: int

definition reader_new :: "bytes \<Rightarrow> int \<Rightarrow> reader" where
  "reader_new data offset = \<lparr>rd_data = data, rd_bit = offset * 8\<rparr>"

definition byte_offset :: "reader \<Rightarrow> int" where
  "byte_offset r = rd_bit r div 8"

abbreviation data_length :: "reader \<Rightarrow> int" where
  "data_length r \<equiv> int (length (rd_data r))"

text \<open>The loop of \<open>get\<close>; \<open>remaining\<close> is never negative, and the bound on \<open>width\<close> keeps every index inside the data.\<close>

function rd_loop :: "int \<Rightarrow> int \<Rightarrow> reader \<Rightarrow> int \<times> reader" where
  "rd_loop v remaining r =
     (if remaining \<le> 0 then (v, r)
      else
        let bit_offset = rd_bit r AND 7;
            taken = min remaining (8 - bit_offset);
            shift = 8 - bit_offset - taken in
        rd_loop
          (shl v taken OR (shr (uint (rd_data r ! nat (rd_bit r div 8))) shift AND (shl 1 taken - 1)))
          (remaining - taken) (r\<lparr>rd_bit := rd_bit r + taken\<rparr>))"
  by pat_completeness auto

termination
  by (relation "measure (\<lambda>(v, remaining, r). nat remaining)") (auto simp: bit_arith min_def)

declare rd_loop.simps [simp del]

definition rd_get :: "int \<Rightarrow> int \<Rightarrow> reader \<Rightarrow> (codec_exn + int) \<times> reader" where
  "rd_get width stage r =
     (if width < 0 \<or> rd_bit r + width > data_length r * 8
      then (Inl (codec_fail 5 stage 0x20 (data_length r) 1), r)
      else case rd_loop 0 width r of (v, r') \<Rightarrow> (Inr v, r'))"

definition rd_signed :: "int \<Rightarrow> reader \<Rightarrow> (codec_exn + int) \<times> reader" where
  "rd_signed width r =
     bind_s (rd_get width 5 r) (\<lambda>v r.
     bind_s (lift_s (py_shl 1 (width - 1)) r) (\<lambda>sign r.
       (Inr (if v AND sign \<noteq> 0 then v - shl 1 width else v), r)))"

function rd_unary :: "int \<Rightarrow> int \<Rightarrow> reader \<Rightarrow> (codec_exn + int) \<times> reader" where
  "rd_unary limit count r =
     bind_s (rd_get 1 5 r) (\<lambda>b r.
       if b \<noteq> 0 then (Inr count, r)
       else if count + 1 > limit then (Inl (codec_fail 3 5 0x04 (byte_offset r) 1), r)
       else rd_unary limit (count + 1) r)"
  by pat_completeness auto

termination
  by (relation "measure (\<lambda>(limit, count, r). nat (limit - count))") auto

declare rd_unary.simps [simp del]

definition unary_zeros :: "reader \<Rightarrow> (codec_exn + int) \<times> reader" where
  "unary_zeros r = rd_unary 65535 0 r"

text \<open>A loop whose recursive call follows a read may use what the read did in its termination proof.\<close>

lemma bind_s_cong [fundef_cong]:
  "p = q \<Longrightarrow> (\<And>x t. q = (Inr x, t) \<Longrightarrow> k x t = l x t) \<Longrightarrow> bind_s p k = bind_s q l"
  by (cases q) (auto simp: bind_s_def split: sum.splits)

lemma bind_r_cong [fundef_cong]:
  "p = q \<Longrightarrow> (\<And>x. q = Inr x \<Longrightarrow> k x = l x) \<Longrightarrow> bind_r p k = bind_r q l"
  by (cases q) auto

lemma rd_loop_reader: "snd (rd_loop v n r) = r\<lparr>rd_bit := rd_bit r + max n 0\<rparr>"
proof (induction v n r rule: rd_loop.induct)
  case (1 v n r)
  show ?case
  proof (cases "n \<le> 0")
    case True
    then show ?thesis by (simp add: rd_loop.simps max_def)
  next
    case False
    have b: "0 \<le> rd_bit r AND 7" "rd_bit r AND 7 \<le> 7" by (simp_all add: bit_arith)
    show ?thesis using False b 1 [OF False refl refl refl]
      by (subst rd_loop.simps) (simp add: Let_def min_def)
  qed
qed

lemma rd_get_Inr:
  assumes "rd_get w stage r = (Inr v, t)"
  shows "0 \<le> w" "rd_bit r + w \<le> data_length r * 8" "t = r\<lparr>rd_bit := rd_bit r + w\<rparr>"
  using assms rd_loop_reader [of 0 w r]
  by (auto simp: rd_get_def split: if_splits prod.splits)

function align_zero :: "reader \<Rightarrow> (codec_exn + unit) \<times> reader" where
  "align_zero r =
     (if rd_bit r AND 7 \<noteq> 0 then
        bind_s (rd_get 1 5 r) (\<lambda>b r.
          if b \<noteq> 0 then (Inl (codec_fail 4 4 0x19 (byte_offset r) 1), r) else align_zero r)
      else (Inr (), r))"
  by pat_completeness auto

termination
proof (relation "measure (\<lambda>r. nat ((- rd_bit r) mod 8))", simp)
  fix r t :: reader and b :: int
  assume "rd_bit r AND 7 \<noteq> 0" "rd_get 1 5 r = (Inr b, t)"
  then show "(t, r) \<in> measure (\<lambda>r. nat ((- rd_bit r) mod 8))"
    using rd_get_Inr(3) [of 1 5 r b t] by (simp add: bit_arith) presburger
qed

declare align_zero.simps [simp del]

definition signed_range :: "int \<Rightarrow> int \<Rightarrow> int \<Rightarrow> codec_exn + int" where
  "signed_range v width offset =
     (if v < - shl 1 (width - 1) \<or> v > shl 1 (width - 1) - 1 then Inl (codec_fail 22 6 0x43 offset 1) else Inr v)"

text \<open>The number of leading ones of the first byte; the source starts with the prefix \<open>0x80\<close>.\<close>

function utf8_count :: "int \<Rightarrow> int \<Rightarrow> int \<Rightarrow> int" where
  "utf8_count first prefix count =
     (if 0 < prefix \<and> first AND prefix \<noteq> 0 then utf8_count first (shr prefix 1) (count + 1) else count)"
  by pat_completeness auto

termination
  by (relation "measure (\<lambda>(first, prefix, count). nat prefix)") (auto simp: bit_arith)

declare utf8_count.simps [simp del]

definition utf8_continuation :: "int \<Rightarrow> int \<Rightarrow> reader \<Rightarrow> (codec_exn + int) \<times> reader" where
  "utf8_continuation v _ r =
     bind_s (rd_get 8 4 r) (\<lambda>byte r.
       if byte AND 0xC0 \<noteq> 0x80 then (Inl (codec_fail 4 4 0x17 (byte_offset r - 1) 1), r)
       else (Inr (shl v 6 OR (byte AND 0x3F)), r))"

definition utf8_integer :: "reader \<Rightarrow> (codec_exn + int) \<times> reader" where
  "utf8_integer r =
     bind_s (rd_get 8 4 r) (\<lambda>first r.
       if first < 0x80 then (Inr first, r)
       else
         let count = utf8_count first 0x80 0 in
         if count < 2 \<or> count > 7 then (Inl (codec_fail 4 4 0x17 (byte_offset r - 1) 1), r)
         else
           bind_s (fold_s utf8_continuation (first AND (shl 1 (7 - count) - 1)) (py_range 0 (count - 1)) r)
             (\<lambda>v r.
               if v < shl 1 (if count = 2 then 7 else 5 * count - 4) \<or> v \<ge> shl 1 36
               then (Inl (codec_fail 4 4 0x17 (byte_offset r - count) 1), r)
               else (Inr v, r)))"

section \<open>RIFF/WAVE\<close>

definition codec_u16 :: "bytes \<Rightarrow> int \<Rightarrow> codec_exn + int" where
  "codec_u16 data offset =
     (if offset + 2 > int (length data) then Inl (codec_fail 5 4 0x20 (int (length data)) 0)
      else Inr (le_int (py_slice data offset (offset + 2))))"

definition codec_u32 :: "bytes \<Rightarrow> int \<Rightarrow> codec_exn + int" where
  "codec_u32 data offset =
     (if offset + 4 > int (length data) then Inl (codec_fail 5 4 0x20 (int (length data)) 0)
      else Inr (le_int (py_slice data offset (offset + 4))))"

abbreviation (input) "RIFF_TAG \<equiv> ([82, 73, 70, 70] :: bytes)"
abbreviation (input) "WAVE_TAG \<equiv> ([87, 65, 86, 69] :: bytes)"
abbreviation (input) "FMT_TAG \<equiv> ([102, 109, 116, 32] :: bytes)"
abbreviation (input) "DATA_TAG \<equiv> ([100, 97, 116, 97] :: bytes)"
abbreviation (input) "FLAC_TAG \<equiv> ([102, 76, 97, 67] :: bytes)"

definition pcm_guid :: bytes where
  "pcm_guid = [1, 0, 0, 0, 0, 0, 16, 0, 128, 0, 0, 170, 0, 56, 155, 113]"

record wav_state =
  ws_offset :: int
  ws_fmt :: "(int \<times> int \<times> int \<times> int) option"
  ws_data_chunk :: "(int \<times> int) option"
  ws_skipped :: int
  ws_chunks :: int
  ws_warnings :: int

text \<open>The format tag: plain PCM, or the extensible form with the PCM identifier and an accepted channel mask.\<close>

definition wav_tag_checks :: "bytes \<Rightarrow> int \<Rightarrow> int \<Rightarrow> int \<Rightarrow> int \<Rightarrow> int \<Rightarrow> int \<Rightarrow> codec_exn + unit" where
  "wav_tag_checks data payload sz tag channels bits warnings =
     (if tag = 1 then
        bind_r
          (if sz \<notin> {16, 18} then Inr True
           else if sz = 18 then bind_r (codec_u16 data (payload + 16)) (\<lambda>extra. Inr (extra \<noteq> 0))
           else Inr False)
          (\<lambda>bad. raise_if bad (codec_fail 4 4 0x14 payload warnings))
      else if tag = 0xFFFE then
        bind_r
          (if sz \<noteq> 40 then Inr True
           else
             bind_r (codec_u16 data (payload + 16)) (\<lambda>extension.
             if extension \<noteq> 22 then Inr True
             else
               bind_r (codec_u16 data (payload + 18)) (\<lambda>valid_bits.
                 Inr (valid_bits \<noteq> bits \<or> py_slice data (payload + 24) (payload + 40) \<noteq> pcm_guid))))
          (\<lambda>bad.
        bind_r (raise_if bad (codec_fail 3 4 0x03 payload warnings)) (\<lambda>_.
        bind_r (codec_u32 data (payload + 20)) (\<lambda>channel_mask.
          raise_if ((channels = 1 \<and> channel_mask \<notin> {0, 4}) \<or> (channels = 2 \<and> channel_mask \<notin> {0, 3}))
            (codec_fail 3 4 0x03 (payload + 20) warnings))))
      else Inl (codec_fail 3 4 0x03 payload warnings))"

definition wav_format :: "bytes \<Rightarrow> int \<Rightarrow> int \<Rightarrow> int \<Rightarrow> codec_exn + (int \<times> int \<times> int \<times> int)" where
  "wav_format data payload sz warnings =
     bind_r (codec_u16 data payload) (\<lambda>tag.
     bind_r (codec_u16 data (payload + 2)) (\<lambda>channels.
     bind_r (codec_u32 data (payload + 4)) (\<lambda>rate.
     bind_r (codec_u32 data (payload + 8)) (\<lambda>average.
     bind_r (codec_u16 data (payload + 12)) (\<lambda>alignment.
     bind_r (codec_u16 data (payload + 14)) (\<lambda>bits.
     bind_r (wav_tag_checks data payload sz tag channels bits warnings) (\<lambda>_.
     let expected = channels * (bits div 8) in
     bind_r
       (raise_if
         (channels \<notin> {1, 2} \<or> rate < 8000 \<or> rate > 96000 \<or> bits \<notin> {8, 16, 24, 32} \<or> alignment \<noteq> expected
            \<or> average \<noteq> rate * expected)
         (codec_fail 4 4 0x14 payload warnings))
       (\<lambda>_. Inr (rate, channels, bits, alignment)))))))))"

text \<open>What a chunk does by its identifier.\<close>

definition wav_chunk ::
  "bytes \<Rightarrow> bytes \<Rightarrow> int \<Rightarrow> int \<Rightarrow> wav_state \<Rightarrow> codec_exn + wav_state" where
  "wav_chunk data chunk_id payload sz s =
     (if chunk_id = FMT_TAG then
        bind_r (raise_if (ws_fmt s \<noteq> None \<or> ws_data_chunk s \<noteq> None)
            (codec_fail 4 4 0x12 (ws_offset s) (ws_warnings s))) (\<lambda>_.
        bind_r (wav_format data payload sz (ws_warnings s)) (\<lambda>fmt. Inr (s\<lparr>ws_fmt := Some fmt\<rparr>)))
      else if chunk_id = DATA_TAG then
        (case (ws_fmt s, ws_data_chunk s) of
           (Some (rate, channels, bits, alignment), None) \<Rightarrow>
             if alignment = 0 then Inl (CodecPy CodecZeroDivision)
             else if sz mod alignment \<noteq> 0 then Inl (codec_fail 4 4 0x13 payload (ws_warnings s))
             else Inr (s\<lparr>ws_data_chunk := Some (payload, sz)\<rparr>)
         | _ \<Rightarrow> Inl (codec_fail 4 4 0x12 (ws_offset s) (ws_warnings s)))
      else
        let skipped = ws_skipped s + (sz + (sz AND 1)) in
        bind_r (raise_if (skipped > 1024 * 1024) (codec_fail 3 4 0x04 (ws_offset s) (ws_warnings s))) (\<lambda>_.
          Inr (s\<lparr>ws_skipped := skipped\<rparr>)))"

text \<open>The pad byte of a chunk of odd size.\<close>

definition wav_padding :: "bytes \<Rightarrow> bool \<Rightarrow> int \<Rightarrow> int \<Rightarrow> wav_state \<Rightarrow> codec_exn + wav_state" where
  "wav_padding data strict sz chunk_end s =
     (if sz AND 1 \<noteq> 0 then
        bind_r (codec_nth data chunk_end) (\<lambda>pad.
          if pad \<noteq> 0 then
            if strict then Inl (codec_fail 4 4 0x19 chunk_end (ws_warnings s))
            else Inr (s\<lparr>ws_warnings := ws_warnings s OR 4\<rparr>)
          else Inr s)
      else Inr s)"

definition wav_step :: "bytes \<Rightarrow> bool \<Rightarrow> int \<Rightarrow> wav_state \<Rightarrow> codec_exn + wav_state" where
  "wav_step data strict riff_end s =
     (let offset = ws_offset s in
      bind_r (raise_if (offset + 8 > riff_end) (codec_fail 5 4 0x20 offset (ws_warnings s))) (\<lambda>_.
      let chunk_id = py_slice data offset (offset + 4) in
      bind_r (codec_u32 data (offset + 4)) (\<lambda>sz.
      let payload = offset + 8; chunk_end = payload + sz; padded_end = chunk_end + (sz AND 1) in
      bind_r (raise_if (chunk_end < payload \<or> padded_end > riff_end)
          (codec_fail 4 4 0x13 offset (ws_warnings s))) (\<lambda>_.
      let s1 = s\<lparr>ws_chunks := ws_chunks s + 1\<rparr> in
      bind_r (raise_if (ws_chunks s1 > 1024) (codec_fail 3 4 0x04 offset (ws_warnings s))) (\<lambda>_.
      bind_r (wav_chunk data chunk_id payload sz s1) (\<lambda>s2.
      bind_r (wav_padding data strict sz chunk_end s2) (\<lambda>s3. Inr (s3\<lparr>ws_offset := padded_end\<rparr>))))))))"

lemma codec_u32_Inr:
  assumes "codec_u32 data offset = Inr v"
  shows "offset + 4 \<le> int (length data)" "0 \<le> v"
  using assms le_int_bounds by (auto simp: codec_u32_def split: if_splits)

lemma wav_step_Inr:
  assumes "wav_step data strict riff_end s = Inr t"
  obtains sz s2 s3 where "codec_u32 data (ws_offset s + 4) = Inr sz" "0 \<le> sz"
    "ws_offset s + 8 \<le> riff_end" "ws_offset s + 8 + sz + (sz AND 1) \<le> riff_end"
    "wav_chunk data (py_slice data (ws_offset s) (ws_offset s + 4)) (ws_offset s + 8) sz
      (s\<lparr>ws_chunks := ws_chunks s + 1\<rparr>) = Inr s2"
    "wav_padding data strict sz (ws_offset s + 8 + sz) s2 = Inr s3"
    "t = s3\<lparr>ws_offset := ws_offset s + 8 + sz + (sz AND 1)\<rparr>"
  using assms codec_u32_Inr(2)
  by (simp add: wav_step_def Let_def bind_r_Inr raise_if_Inr not_less) fastforce

function wav_loop :: "bytes \<Rightarrow> bool \<Rightarrow> int \<Rightarrow> wav_state \<Rightarrow> codec_exn + wav_state" where
  "wav_loop data strict riff_end s =
     (if ws_offset s < riff_end then
        bind_r (wav_step data strict riff_end s) (\<lambda>t. wav_loop data strict riff_end t)
      else Inr s)"
  by pat_completeness auto

termination
proof (relation "measure (\<lambda>(data, strict, riff_end, s). nat (riff_end - ws_offset s))", simp)
  fix data strict riff_end s t
  assume "ws_offset s < riff_end" "wav_step data strict riff_end s = Inr t"
  then show "((data, strict, riff_end, t), data, strict, riff_end, s)
      \<in> measure (\<lambda>(data, strict, riff_end, s). nat (riff_end - ws_offset s))"
    by (elim wav_step_Inr) (auto simp: bit_arith)
qed

declare wav_loop.simps [simp del]

definition wav_start :: wav_state where
  "wav_start =
     \<lparr>ws_offset = 12, ws_fmt = None, ws_data_chunk = None, ws_skipped = 0, ws_chunks = 0, ws_warnings = 0\<rparr>"

definition wav_result :: "bytes \<Rightarrow> bool \<Rightarrow> int \<Rightarrow> wav_state \<Rightarrow> codec_exn + audio_info" where
  "wav_result data strict riff_end s =
     (case (ws_fmt s, ws_data_chunk s) of
        (Some (rate, channels, bits, alignment), Some (start, sz)) \<Rightarrow>
          bind_r (raise_if (strict \<and> riff_end \<noteq> int (length data)) (codec_fail 4 4 0x1B riff_end (ws_warnings s)))
            (\<lambda>_.
          let warnings = (if \<not> strict \<and> riff_end \<noteq> int (length data) then ws_warnings s OR 2 else ws_warnings s) in
          if alignment = 0 then Inl (CodecPy CodecZeroDivision)
          else
            Inr \<lparr>ai_rate = rate, ai_channels = channels, ai_bits = bits, ai_samples = Some (sz div alignment),
                 ai_data_offset = start, ai_data_bytes = sz, ai_input_used = riff_end, ai_warnings = warnings\<rparr>)
      | _ \<Rightarrow> Inl (codec_fail 4 4 0x12 (ws_offset s) (ws_warnings s)))"

definition parse_wav :: "bytes \<Rightarrow> bool \<Rightarrow> codec_exn + audio_info" where
  "parse_wav data strict =
     bind_r (raise_if (length data < 12 \<or> py_slice data 0 4 \<noteq> RIFF_TAG \<or> py_slice data 8 12 \<noteq> WAVE_TAG)
         (codec_fail 4 4 0x10 0 0)) (\<lambda>_.
     bind_r (codec_u32 data 4) (\<lambda>riff_size.
     let riff_end = 8 + riff_size in
     bind_r (raise_if (riff_end < 12 \<or> riff_end > int (length data)) (codec_fail 4 4 0x11 4 0)) (\<lambda>_.
     bind_r (wav_loop data strict riff_end wav_start) (wav_result data strict riff_end))))"

definition le_signed :: "bytes \<Rightarrow> int" where
  "le_signed bs =
     (if 2 * le_int bs \<ge> 256 ^ length bs \<and> bs \<noteq> [] then le_int bs - 256 ^ length bs else le_int bs)"

text \<open>One sample at the running \<open>offset\<close>, which is the state of the two loops.\<close>

definition wav_sample :: "bytes \<Rightarrow> int \<Rightarrow> int \<Rightarrow> (codec_exn + int) \<times> int" where
  "wav_sample data bits offset =
     (let encoded = py_slice data offset (offset + bits div 8) in
      bind_s (Inr (), offset + bits div 8) (\<lambda>_ offset.
        if bits = 8 then (bind_r (codec_nth encoded 0) (\<lambda>b. Inr (uint b - 128)), offset)
        else (Inr (le_signed encoded), offset)))"

definition decode_wav :: "bytes \<Rightarrow> bool \<Rightarrow> codec_exn + decoded_audio" where
  "decode_wav data strict =
     bind_r (parse_wav data strict) (\<lambda>info.
     bind_r
       (fst (map_s (\<lambda>_. map_s (\<lambda>_. wav_sample data (ai_bits info)) (py_range 0 (ai_channels info)))
         (py_range 0 (case ai_samples info of None \<Rightarrow> 0 | Some n \<Rightarrow> n)) (ai_data_offset info)))
       (\<lambda>frames. Inr \<lparr>da_info = info, da_samples = frames\<rparr>))"

section \<open>FLAC metadata\<close>

record flac_scan =
  fs_offset :: int
  fs_blocks :: int
  fs_metadata_bytes :: int
  fs_stream_info :: "audio_info option"
  fs_last :: bool

text \<open>The fields of the STREAMINFO block.\<close>

definition stream_info_block :: "bytes \<Rightarrow> int \<Rightarrow> int \<Rightarrow> codec_exn + audio_info" where
  "stream_info_block data payload block_end =
     (let minimum = be_int (py_slice data payload (payload + 2));
          maximum = be_int (py_slice data (payload + 2) (payload + 4));
          min_frame = be_int (py_slice data (payload + 4) (payload + 7));
          max_frame = be_int (py_slice data (payload + 7) (payload + 10));
          packed = be_int (py_slice data (payload + 10) (payload + 18));
          rate = shr packed 44 AND 0xFFFFF;
          channels = (shr packed 41 AND 7) + 1;
          bits = (shr packed 36 AND 0x1F) + 1;
          samples = packed AND (shl 1 36 - 1) in
      bind_r
        (first_error
          [raise_if (minimum < 16) (codec_fail_used 3 4 0x04 payload 1 block_end),
           raise_if (maximum < minimum) (codec_fail_used 4 4 0x15 (payload + 2) 1 block_end),
           raise_if (channels \<in> {1, 2} \<and> maximum > (if channels = 1 then 4096 else 2048))
             (codec_fail_used 3 4 0x04 (payload + 2) 1 block_end),
           raise_if (min_frame \<noteq> 0 \<and> max_frame \<noteq> 0 \<and> min_frame > max_frame)
             (codec_fail_used 4 4 0x15 (payload + 7) 1 block_end),
           raise_if (max_frame > 65536) (codec_fail_used 3 4 0x04 (payload + 7) 1 block_end),
           raise_if (channels \<notin> {1, 2} \<or> bits \<notin> {16, 24} \<or> \<not> (8000 \<le> rate \<and> rate \<le> 96000))
             (codec_fail_used 3 4 0x02 (payload + 10) 1 block_end)])
        (\<lambda>_. Inr \<lparr>ai_rate = rate, ai_channels = channels, ai_bits = bits,
                  ai_samples = (if samples = 0 then None else Some samples), ai_data_offset = 0,
                  ai_data_bytes = 0, ai_input_used = 0, ai_warnings = 1\<rparr>))"

definition flac_block :: "bytes \<Rightarrow> flac_scan \<Rightarrow> codec_exn + flac_scan" where
  "flac_block data s =
     (let offset = fs_offset s; size_of_data = int (length data) in
      bind_r (raise_if (offset + 4 > size_of_data) (codec_fail 5 4 0x20 size_of_data 1)) (\<lambda>_.
      bind_r (codec_nth data offset) (\<lambda>byte.
      let header = uint byte;
          block_type = header AND 0x7F;
          sz = be_int (py_slice data (offset + 1) (offset + 4));
          payload = offset + 4;
          block_end = payload + sz;
          blocks = fs_blocks s + 1;
          metadata_bytes = fs_metadata_bytes s + sz in
      bind_r
        (first_error
          [(if blocks = 1 then
              first_error
                [raise_if (block_type \<noteq> 0) (codec_fail_used 4 4 0x15 offset 1 payload),
                 raise_if (sz \<noteq> 34) (codec_fail_used 4 4 0x15 (offset + 1) 1 payload)]
            else if block_type = 0 \<or> block_type = 127 then Inl (codec_fail_used 4 4 0x16 offset 1 payload)
            else raise_if (block_type \<ge> 7) (codec_fail_used 3 4 0x03 offset 1 payload)),
           raise_if (blocks > 128 \<or> metadata_bytes > 1024 * 1024)
             (codec_fail_used 3 4 0x04 (offset + 1) 1 payload),
           raise_if (block_end > size_of_data) (codec_fail_used 5 4 0x20 size_of_data 1 payload)])
        (\<lambda>_.
      bind_r
        (if blocks = 1 then bind_r (stream_info_block data payload block_end) (\<lambda>info. Inr (Some info))
         else Inr (fs_stream_info s))
        (\<lambda>stream_info.
      Inr \<lparr>fs_offset = block_end, fs_blocks = blocks, fs_metadata_bytes = metadata_bytes,
           fs_stream_info = stream_info, fs_last = (header AND 0x80 \<noteq> 0)\<rparr>)))))"

lemma be_int_bounds: "0 \<le> be_int bs" "be_int bs < 256 ^ length bs"
  using le_int_bounds [of "rev bs"] by (auto simp: be_int_def)

lemma flac_block_progress:
  assumes "flac_block data s = Inr t"
  shows "fs_offset s + 4 \<le> fs_offset t" "fs_offset t \<le> int (length data)"
  using assms be_int_bounds(1)
  by (auto simp: flac_block_def Let_def bind_r_Inr raise_if_Inr first_error_Inr)

function flac_blocks :: "bytes \<Rightarrow> flac_scan \<Rightarrow> codec_exn + flac_scan" where
  "flac_blocks data s =
     (if \<not> fs_last s then bind_r (flac_block data s) (\<lambda>t. flac_blocks data t) else Inr s)"
  by pat_completeness auto

termination
proof (relation "measure (\<lambda>(data, s). nat (int (length data) + 4 - fs_offset s))", simp)
  fix data s t
  assume "flac_block data s = Inr t"
  from flac_block_progress [OF this]
  show "((data, t), data, s) \<in> measure (\<lambda>(data, s). nat (int (length data) + 4 - fs_offset s))" by simp
qed

declare flac_blocks.simps [simp del]

definition inspect_flac :: "bytes \<Rightarrow> bool \<Rightarrow> codec_exn + audio_info" where
  "inspect_flac data strict =
     (let size_of_data = int (length data) in
      bind_r (raise_if (size_of_data < 4) (codec_fail 5 4 0x20 size_of_data 1)) (\<lambda>_.
      bind_r (raise_if (py_slice data 0 4 \<noteq> FLAC_TAG) (codec_fail_used 4 4 0x10 0 0 4)) (\<lambda>_.
      bind_r (flac_blocks data
          \<lparr>fs_offset = 4, fs_blocks = 0, fs_metadata_bytes = 0, fs_stream_info = None, fs_last = False\<rparr>) (\<lambda>s.
      case fs_stream_info s of
        None \<Rightarrow> Inl (codec_fail 4 4 0x15 4 1)
      | Some info \<Rightarrow>
          bind_r (raise_if (strict \<and> ai_samples info = None \<and> fs_offset s \<noteq> size_of_data)
              (codec_fail 4 4 0x1B (fs_offset s) 1)) (\<lambda>_.
            Inr (info\<lparr>ai_data_offset := fs_offset s, ai_data_bytes := size_of_data - fs_offset s,
                     ai_input_used := fs_offset s, ai_warnings := 1\<rparr>))))))"

definition crc8_bit :: "int \<Rightarrow> int" where
  "crc8_bit v = (shl v 1 XOR (if v AND 0x80 \<noteq> 0 then 0x07 else 0)) AND 0xFF"

definition crc8 :: "bytes \<Rightarrow> int" where
  "crc8 data = foldl (\<lambda>v byte. (crc8_bit ^^ 8) (v XOR uint byte)) 0 data"

definition crc16_bit :: "int \<Rightarrow> int" where
  "crc16_bit v = (shl v 1 XOR (if v AND 0x8000 \<noteq> 0 then 0x8005 else 0)) AND 0xFFFF"

definition crc16 :: "bytes \<Rightarrow> int" where
  "crc16 data = foldl (\<lambda>v byte. (crc16_bit ^^ 8) (v XOR shl (uint byte) 8)) 0 data"

record flac_meta =
  fm_minimum_block :: int
  fm_maximum_block :: int
  fm_minimum_frame :: int
  fm_maximum_frame :: int
  fm_rate :: int
  fm_channels :: int
  fm_bits :: int
  fm_total_samples :: "int option"
  fm_frame_offset :: int

definition flac_metadata :: "bytes \<Rightarrow> codec_exn + flac_meta" where
  "flac_metadata data =
     bind_r (inspect_flac data False) (\<lambda>info.
     let payload = 8 in
     Inr \<lparr>fm_minimum_block = be_int (py_slice data payload (payload + 2)),
          fm_maximum_block = be_int (py_slice data (payload + 2) (payload + 4)),
          fm_minimum_frame = be_int (py_slice data (payload + 4) (payload + 7)),
          fm_maximum_frame = be_int (py_slice data (payload + 7) (payload + 10)),
          fm_rate = ai_rate info, fm_channels = ai_channels info, fm_bits = ai_bits info,
          fm_total_samples = ai_samples info, fm_frame_offset = ai_data_offset info\<rparr>)"

end
