(* ===== verification/Apu_Flac.thy ===== *)
theory Apu_Flac
  imports Apu_Codec
begin

text \<open>
  FLAC subframes, frames and files of \<open>src/scripts/apu_codecs.py\<close>. The reader only moves forward inside its
  data (\<open>rd_frame\<close>), so that the loop over the frames of a file ends.
\<close>

unbundle bit_operations_syntax

section \<open>Header fields\<close>

definition block_size :: "int \<Rightarrow> reader \<Rightarrow> (codec_exn + int) \<times> reader" where
  "block_size code r =
     (if code = 0 then (Inl (codec_fail 4 4 0x17 (byte_offset r) 1), r)
      else if code = 1 then (Inr 192, r)
      else if code \<le> 5 then (Inr (shl 576 (code - 2)), r)
      else if code = 6 then bind_s (rd_get 8 4 r) (\<lambda>v r. (Inr (v + 1), r))
      else if code = 7 then bind_s (rd_get 16 4 r) (\<lambda>v r. (Inr (v + 1), r))
      else (Inr (shl 256 (code - 8)), r))"

definition fixed_rates :: "int list" where
  "fixed_rates = [88200, 176400, 192000, 8000, 16000, 22050, 24000, 32000, 44100, 48000, 96000]"

definition sample_rate :: "int \<Rightarrow> int \<Rightarrow> reader \<Rightarrow> (codec_exn + int) \<times> reader" where
  "sample_rate code stream_rate r =
     (if code = 0 then (Inr stream_rate, r)
      else if 1 \<le> code \<and> code \<le> 11 then (Inr (fixed_rates ! nat (code - 1)), r)
      else if code = 12 then bind_s (rd_get 8 4 r) (\<lambda>v r. (Inr (v * 1000), r))
      else if code = 13 then rd_get 16 4 r
      else if code = 14 then bind_s (rd_get 16 4 r) (\<lambda>v r. (Inr (v * 10), r))
      else (Inl (codec_fail 4 4 0x17 (byte_offset r) 1), r))"

definition sample_bits :: "int \<Rightarrow> int \<Rightarrow> int \<Rightarrow> codec_exn + int" where
  "sample_bits code stream_bits offset =
     (case map_of [(0, stream_bits), (1, 8), (2, 12), (4, 16), (5, 20), (6, 24), (7, 32)] code of
        None \<Rightarrow> Inl (codec_fail 4 4 0x17 offset 1)
      | Some bits \<Rightarrow> Inr bits)"

section \<open>Residuals\<close>

definition rice_residual :: "int \<Rightarrow> reader \<Rightarrow> (codec_exn + int) \<times> reader" where
  "rice_residual parameter r =
     bind_s (unary_zeros r) (\<lambda>quot r.
     bind_s (if parameter \<noteq> 0 then rd_get parameter 5 r else (Inr 0, r)) (\<lambda>remainder r.
       let folded = shl quot parameter OR remainder in
       (Inr (shr folded 1 XOR - (folded AND 1)), r)))"

definition residual_partition ::
  "int \<Rightarrow> int \<Rightarrow> int \<Rightarrow> int \<Rightarrow> int list \<Rightarrow> int \<Rightarrow> reader \<Rightarrow> (codec_exn + int list) \<times> reader" where
  "residual_partition blocks order partitions parameter_bits acc part r =
     (let count = blocks div partitions - (if part = 0 then order else 0) in
      if count < 0 then (Inl (codec_fail 7 5 0x42 (byte_offset r) 1), r)
      else
        bind_s (rd_get parameter_bits 5 r) (\<lambda>parameter r.
          if parameter = shl 1 parameter_bits - 1 then
            bind_s (rd_get 5 5 r) (\<lambda>raw_width r.
              if raw_width = 0 then (Inr (acc @ replicate (nat count) 0), r)
              else
                bind_s (map_s (\<lambda>_. rd_signed raw_width) (py_range 0 count) r) (\<lambda>xs r. (Inr (acc @ xs), r)))
          else
            bind_s (map_s (\<lambda>_. rice_residual parameter) (py_range 0 count) r) (\<lambda>xs r. (Inr (acc @ xs), r))))"

definition residuals :: "int \<Rightarrow> int \<Rightarrow> reader \<Rightarrow> (codec_exn + int list) \<times> reader" where
  "residuals blocks order r =
     bind_s (rd_get 2 5 r) (\<lambda>coding r.
       if coding > 1 then (Inl (codec_fail 7 5 0x40 (byte_offset r) 1), r)
       else
         bind_s (rd_get 4 5 r) (\<lambda>partition_order r.
         let partitions = shl 1 partition_order in
         if partition_order > 15 \<or> blocks mod partitions \<noteq> 0
         then (Inl (codec_fail 7 5 0x42 (byte_offset r) 1), r)
         else
           bind_s (fold_s (residual_partition blocks order partitions (4 + coding)) [] (py_range 0 partitions) r)
             (\<lambda>acc r.
               if int (length acc) \<noteq> blocks - order then (Inl (codec_fail 7 5 0x42 (byte_offset r) 1), r)
               else (Inr acc, r))))"

section \<open>Subframes\<close>

definition fixed_predict :: "int \<Rightarrow> int list \<Rightarrow> codec_exn + int" where
  "fixed_predict order history =
     (if order = 0 then Inr 0
      else
        bind_r (codec_last 1 history) (\<lambda>a.
        if order = 1 then Inr a
        else
          bind_r (codec_last 2 history) (\<lambda>b.
          if order = 2 then Inr (2 * a - b)
          else
            bind_r (codec_last 3 history) (\<lambda>c.
            if order = 3 then Inr (3 * a - 3 * b + c)
            else bind_r (codec_last 4 history) (\<lambda>d. Inr (4 * a - 6 * b + 4 * c - d))))))"

definition lpc_predict :: "int list \<Rightarrow> int \<Rightarrow> int \<Rightarrow> int list \<Rightarrow> codec_exn + int" where
  "lpc_predict coefficients shift order samples =
     bind_r
       (map_r
         (\<lambda>index. bind_r (codec_nth coefficients index) (\<lambda>c.
            bind_r (codec_last (index + 1) samples) (\<lambda>x. Inr (c * x))))
         (py_range 0 order))
       (\<lambda>products.
         let prediction = sum_list products in
         Inr (if shift \<ge> 0 then shr prediction shift else shl prediction (- shift)))"

text \<open>The loop that adds a prediction to every residual.\<close>

definition restore_samples ::
  "(int list \<Rightarrow> codec_exn + int) \<Rightarrow> int \<Rightarrow> int list \<Rightarrow> int list \<Rightarrow> codec_exn + int list" where
  "restore_samples predict offset samples rs =
     foldl_r
       (\<lambda>samples residual.
          bind_r (predict samples) (\<lambda>p.
          bind_r (signed_range (p + residual) 32 offset) (\<lambda>v. Inr (samples @ [v]))))
       samples rs"

definition fixed_subframe :: "int \<Rightarrow> int \<Rightarrow> int \<Rightarrow> int \<Rightarrow> reader \<Rightarrow> (codec_exn + int list) \<times> reader" where
  "fixed_subframe order blocks coded_bits offset r =
     (if order > blocks then (Inl (codec_fail 7 5 0x40 offset 1), r)
      else
        bind_s (map_s (\<lambda>_. rd_signed coded_bits) (py_range 0 order) r) (\<lambda>samples r.
        bind_s (residuals blocks order r) (\<lambda>rs r.
          lift_s (restore_samples (fixed_predict order) offset samples rs) r)))"

definition lpc_subframe :: "int \<Rightarrow> int \<Rightarrow> int \<Rightarrow> int \<Rightarrow> reader \<Rightarrow> (codec_exn + int list) \<times> reader" where
  "lpc_subframe order blocks coded_bits offset r =
     (if order > blocks then (Inl (codec_fail 7 5 0x40 offset 1), r)
      else
        bind_s (map_s (\<lambda>_. rd_signed coded_bits) (py_range 0 order) r) (\<lambda>samples r.
        bind_s (rd_get 4 5 r) (\<lambda>p r.
        let precision = p + 1 in
        if precision = 16 then (Inl (codec_fail 7 5 0x40 (byte_offset r) 1), r)
        else
          bind_s (rd_signed 5 r) (\<lambda>shift r.
          bind_s (map_s (\<lambda>_. rd_signed precision) (py_range 0 order) r) (\<lambda>coefficients r.
          bind_s (residuals blocks order r) (\<lambda>rs r.
            lift_s (restore_samples (lpc_predict coefficients shift order) offset samples rs) r))))))"

definition subframe_samples :: "int \<Rightarrow> int \<Rightarrow> int \<Rightarrow> int \<Rightarrow> reader \<Rightarrow> (codec_exn + int list) \<times> reader" where
  "subframe_samples kind blocks coded_bits offset r =
     (if kind = 0 then bind_s (rd_signed coded_bits r) (\<lambda>v r. (Inr (replicate (nat blocks) v), r))
      else if kind = 1 then map_s (\<lambda>_. rd_signed coded_bits) (py_range 0 blocks) r
      else if 8 \<le> kind \<and> kind \<le> 12 then fixed_subframe (kind - 8) blocks coded_bits offset r
      else if 32 \<le> kind \<and> kind \<le> 63 then lpc_subframe (kind - 31) blocks coded_bits offset r
      else (Inl (codec_fail 7 5 0x40 offset 1), r))"

definition subframe :: "int \<Rightarrow> int \<Rightarrow> reader \<Rightarrow> (codec_exn + int list) \<times> reader" where
  "subframe blocks bits r =
     (let offset = byte_offset r in
      bind_s (rd_get 1 5 r) (\<lambda>pad r.
        if pad \<noteq> 0 then (Inl (codec_fail 4 5 0x40 offset 1), r)
        else
          bind_s (rd_get 6 5 r) (\<lambda>kind r.
          bind_s (rd_get 1 5 r) (\<lambda>wasted_flag r.
          bind_s (if wasted_flag \<noteq> 0 then bind_s (unary_zeros r) (\<lambda>n r. (Inr (n + 1), r)) else (Inr 0, r))
            (\<lambda>wasted r.
          let coded_bits = bits - wasted in
          if coded_bits < 1 then (Inl (codec_fail 7 5 0x41 offset 1), r)
          else
            bind_s (subframe_samples kind blocks coded_bits offset r) (\<lambda>samples r.
              lift_s (map_r (\<lambda>sample. signed_range (shl sample wasted) 32 offset) samples) r))))))"

section \<open>Frames\<close>

definition stereo_values :: "int \<Rightarrow> int \<Rightarrow> int list list \<Rightarrow> int \<Rightarrow> codec_exn + int list" where
  "stereo_values assignment channels planar index =
     (if assignment \<le> 7 then
        map_r (\<lambda>channel. bind_r (codec_nth planar channel) (\<lambda>xs. codec_nth xs index)) (py_range 0 channels)
      else
        bind_r (codec_nth planar 0) (\<lambda>xs. bind_r (codec_nth xs index) (\<lambda>x.
        bind_r (codec_nth planar 1) (\<lambda>ys. bind_r (codec_nth ys index) (\<lambda>y.
          if assignment = 8 then Inr [x, x - y]
          else if assignment = 9 then Inr [x + y, y]
          else
            let middle = shl x 1 OR (y AND 1) in Inr [shr (middle + y) 1, shr (middle - y) 1])))))"

definition frame_values ::
  "int \<Rightarrow> int \<Rightarrow> int \<Rightarrow> int \<Rightarrow> int \<Rightarrow> int list list \<Rightarrow> codec_exn + int list list" where
  "frame_values assignment channels blocks bits start planar =
     map_r
       (\<lambda>index. bind_r (stereo_values assignment channels planar index) (\<lambda>vs.
          map_r (\<lambda>v. signed_range v bits start) vs))
       (py_range 0 blocks)"

text \<open>The fields of a frame header up to the checksum.\<close>

record frame_header =
  fh_strategy :: int
  fh_assignment :: int
  fh_number :: int
  fh_block_size :: int
  fh_channels :: int
  fh_bits :: int

definition flac_header_checks ::
  "flac_meta \<Rightarrow> int \<Rightarrow> int option \<Rightarrow> int \<Rightarrow> frame_header \<Rightarrow> int \<Rightarrow> codec_exn + unit" where
  "flac_header_checks meta start expected_number header_end h rate =
     first_error
       [raise_if (fh_assignment h > 10) (codec_fail_used 4 4 0x17 start 1 header_end),
        raise_if ((rate, fh_channels h, fh_bits h) \<noteq> (fm_rate meta, fm_channels meta, fm_bits meta))
          (codec_fail_used 4 4 0x18 start 1 header_end),
        raise_if (fh_block_size h > (if fh_channels h = 1 then 4096 else 2048))
          (codec_fail_used 3 4 0x04 start 1 header_end),
        raise_if (case expected_number of None \<Rightarrow> False | Some n \<Rightarrow> fh_number h \<noteq> n)
          (codec_fail_used 4 4 0x1A start 1 header_end)]"

definition sync_ok :: "reader \<Rightarrow> (codec_exn + bool) \<times> reader" where
  "sync_ok r =
     bind_s (rd_get 14 4 r) (\<lambda>sync r.
       if sync \<noteq> 0x3FFE then (Inr False, r) else bind_s (rd_get 1 4 r) (\<lambda>reserved r. (Inr (reserved = 0), r)))"

definition frame_head :: "flac_meta \<Rightarrow> int option \<Rightarrow> int \<Rightarrow> reader \<Rightarrow> (codec_exn + frame_header) \<times> reader" where
  "frame_head meta expected_number start r =
     bind_s (sync_ok r) (\<lambda>ok r.
       if \<not> ok then (Inl (codec_fail 4 4 0x17 start 1), r)
       else
         bind_s (rd_get 1 4 r) (\<lambda>strategy r.
         bind_s (rd_get 4 4 r) (\<lambda>block_code r.
         bind_s (rd_get 4 4 r) (\<lambda>rate_code r.
         bind_s (rd_get 4 4 r) (\<lambda>assignment r.
         bind_s (rd_get 3 4 r) (\<lambda>bits_code r.
         bind_s (rd_get 1 4 r) (\<lambda>reserved r.
         if reserved \<noteq> 0 then (Inl (codec_fail 4 4 0x17 start 1), r)
         else
           bind_s (utf8_integer r) (\<lambda>number r.
           bind_s (block_size block_code r) (\<lambda>blocks r.
           bind_s (sample_rate rate_code (fm_rate meta) r) (\<lambda>rate r.
           bind_s (lift_s (sample_bits bits_code (fm_bits meta) start) r) (\<lambda>bits r.
           let h = \<lparr>fh_strategy = strategy, fh_assignment = assignment, fh_number = number, fh_block_size = blocks,
                    fh_channels = (if assignment \<le> 7 then assignment + 1 else 2), fh_bits = bits\<rparr> in
           bind_s (lift_s (flac_header_checks meta start expected_number (byte_offset r) h rate) r) (\<lambda>_ r.
             (Inr h, r)))))))))))))"

definition channel_bits :: "frame_header \<Rightarrow> int list" where
  "channel_bits h =
     (let even = replicate (nat (fh_channels h)) (fh_bits h) in
      if fh_assignment h = 8 \<or> fh_assignment h = 10 then even[1 := even ! 1 + 1]
      else if fh_assignment h = 9 then even[0 := even ! 0 + 1]
      else even)"

definition frame_body ::
  "flac_meta \<Rightarrow> int \<Rightarrow> frame_header \<Rightarrow> reader \<Rightarrow> (codec_exn + (int list list \<times> int)) \<times> reader" where
  "frame_body meta start h r =
     (let header_end = byte_offset r in
      bind_s (rd_get 8 4 r) (\<lambda>expected_crc8 r.
        if crc8 (py_slice (rd_data r) start header_end) \<noteq> expected_crc8
        then (Inl (codec_fail_used 6 4 0x30 header_end 1 (byte_offset r)), r)
        else
          bind_s (map_s (subframe (fh_block_size h)) (channel_bits h) r) (\<lambda>planar r.
          bind_s (align_zero r) (\<lambda>_ r.
          let footer = byte_offset r in
          bind_s (rd_get 16 4 r) (\<lambda>expected_crc16 r.
            if crc16 (py_slice (rd_data r) start footer) \<noteq> expected_crc16
            then (Inl (codec_fail 6 4 0x31 footer 1), r)
            else
              let frame_bytes = byte_offset r - start in
              if (fm_minimum_frame meta \<noteq> 0 \<and> frame_bytes < fm_minimum_frame meta)
                  \<or> (fm_maximum_frame meta \<noteq> 0 \<and> frame_bytes > fm_maximum_frame meta) \<or> frame_bytes > 65536
              then (Inl (codec_fail 3 4 0x04 start 1), r)
              else
                bind_s
                  (lift_s (frame_values (fh_assignment h) (fh_channels h) (fh_block_size h) (fh_bits h) start planar) r)
                  (\<lambda>frames r. (Inr (frames, byte_offset r), r)))))))"

definition decode_frame ::
  "bytes \<Rightarrow> int \<Rightarrow> flac_meta \<Rightarrow> int option \<Rightarrow> codec_exn + (int list list \<times> int \<times> int \<times> int \<times> int)" where
  "decode_frame data start meta expected_number =
     fst (bind_s (frame_head meta expected_number start (reader_new data start)) (\<lambda>h r.
       bind_s (frame_body meta start h r) (\<lambda>(frames, frame_end) r.
         (Inr (frames, frame_end, fh_block_size h, fh_strategy h, fh_number h), r))))"

end
