(* ===== verification/Apu_Flac_Frame.thy ===== *)
theory Apu_Flac_Frame
  imports Apu_Flac
begin

text \<open>
  What a FLAC frame decoder can do, as a calculus of postconditions over the bit reader: every method moves the
  reader forward inside its data and raises only located codec errors (\<open>rd_post\<close>), with one rule per combinator
  and one per method. A decoded frame has the length, the channels and the sample width of its header.
\<close>

unbundle bit_operations_syntax

named_theorems rd_rules \<open>postconditions of the methods of the reader\<close>

section \<open>Postconditions\<close>

definition located :: "int \<Rightarrow> codec_exn \<Rightarrow> bool" where
  "located n x \<longleftrightarrow> (\<exists>e. x = CodecError e \<and> 0 \<le> ce_offset e \<and> ce_offset e \<le> n
     \<and> 0 \<le> ce_input_used e \<and> ce_input_used e \<le> n \<and> ce_partial_audio e = None)"

lemma located_fail [simp]:
  "located n (codec_fail code stage reason offset warnings) \<longleftrightarrow> 0 \<le> offset \<and> offset \<le> n"
  "located n (codec_fail_used code stage reason offset warnings used) \<longleftrightarrow>
     0 \<le> offset \<and> offset \<le> n \<and> 0 \<le> used \<and> used \<le> n"
  "\<not> located n (CodecPy err)"
  by (auto simp: located_def codec_fail_def codec_fail_used_def codec_error_new_def)

definition rd_valid :: "reader \<Rightarrow> bool" where
  "rd_valid r \<longleftrightarrow> 0 \<le> rd_bit r \<and> rd_bit r \<le> data_length r * 8"

definition rd_moves :: "reader \<Rightarrow> reader \<Rightarrow> bool" where
  "rd_moves r t \<longleftrightarrow> rd_valid t \<and> rd_data t = rd_data r \<and> rd_bit r \<le> rd_bit t"

definition rd_post :: "reader \<Rightarrow> ('a \<Rightarrow> reader \<Rightarrow> bool) \<Rightarrow> (codec_exn + 'a) \<times> reader \<Rightarrow> bool" where
  "rd_post r Q p \<longleftrightarrow> rd_moves r (snd p) \<and>
     (case fst p of Inl x \<Rightarrow> located (data_length r) x | Inr v \<Rightarrow> Q v (snd p))"

lemma rd_valid_offset: "rd_valid r \<Longrightarrow> 0 \<le> byte_offset r \<and> byte_offset r \<le> data_length r"
  by (auto simp: rd_valid_def byte_offset_def)

lemma rd_moves_refl: "rd_valid r \<Longrightarrow> rd_moves r r"
  by (simp add: rd_moves_def)

lemma rd_moves_trans: "rd_moves r s \<Longrightarrow> rd_moves s t \<Longrightarrow> rd_moves r t"
  by (auto simp: rd_moves_def)

lemma rd_moves_valid: "rd_moves r t \<Longrightarrow> rd_valid t"
  by (simp add: rd_moves_def)

lemma rd_moves_data: "rd_moves r t \<Longrightarrow> rd_data t = rd_data r"
  by (simp add: rd_moves_def)

lemma rd_post_Inr: "rd_valid r \<Longrightarrow> Q v r \<Longrightarrow> rd_post r Q (Inr v, r)"
  by (simp add: rd_post_def rd_moves_refl)

lemma rd_post_Inl: "rd_valid r \<Longrightarrow> located (data_length r) x \<Longrightarrow> rd_post r Q (Inl x, r)"
  by (simp add: rd_post_def rd_moves_refl)

lemma rd_post_if: "(b \<Longrightarrow> rd_post r Q p) \<Longrightarrow> (\<not> b \<Longrightarrow> rd_post r Q q) \<Longrightarrow> rd_post r Q (if b then p else q)"
  by simp

lemma rd_post_lift:
  assumes "rd_valid r" "\<And>x. m = Inl x \<Longrightarrow> located (data_length r) x" "\<And>v. m = Inr v \<Longrightarrow> Q v r"
  shows "rd_post r Q (lift_s m r)"
  using assms by (auto simp: rd_post_def lift_s_def rd_moves_refl split: sum.splits)

lemma rd_post_bind_eq:
  assumes "rd_post r P p"
    "\<And>v t. p = (Inr v, t) \<Longrightarrow> rd_moves r t \<Longrightarrow> rd_valid t \<Longrightarrow> P v t \<Longrightarrow> rd_post t Q (k v t)"
  shows "rd_post r Q (bind_s p k)"
proof (cases p)
  case (Pair m t)
  show ?thesis
  proof (cases m)
    case (Inl x)
    with Pair assms(1) show ?thesis by (simp add: rd_post_def)
  next
    case (Inr v)
    with Pair assms(1) have m: "rd_moves r t" "P v t" by (simp_all add: rd_post_def)
    from assms(2) [OF _ m(1) rd_moves_valid [OF m(1)] m(2)] Pair Inr m(1) show ?thesis
      by (auto simp: rd_post_def rd_moves_data intro: rd_moves_trans split: sum.splits)
  qed
qed

lemma rd_post_bind:
  assumes "rd_post r P p" "\<And>v t. rd_moves r t \<Longrightarrow> rd_valid t \<Longrightarrow> P v t \<Longrightarrow> rd_post t Q (k v t)"
  shows "rd_post r Q (bind_s p k)"
  using assms(1) by (rule rd_post_bind_eq) (rule assms(2))

lemma rd_post_weaken:
  assumes "rd_post r P p" "\<And>v t. rd_moves r t \<Longrightarrow> P v t \<Longrightarrow> Q v t"
  shows "rd_post r Q p"
  using assms by (auto simp: rd_post_def split: sum.splits)

lemma rd_post_map:
  assumes "rd_valid r"
    "\<And>i t. i \<in> set is \<Longrightarrow> rd_valid t \<Longrightarrow> rd_data t = rd_data r \<Longrightarrow> rd_post t (\<lambda>v _. P v) (f i t)"
  shows "rd_post r (\<lambda>vs _. length vs = length is \<and> (\<forall>v \<in> set vs. P v)) (map_s f is r)"
  using assms
proof (induction "is" arbitrary: r)
  case Nil
  then show ?case by (simp add: rd_post_Inr)
next
  case (Cons i "is")
  show ?case unfolding map_s.simps
  proof (rule rd_post_bind [OF Cons.prems(2)])
    fix v t assume t: "rd_moves r t" "rd_valid t" "P v"
    show "rd_post t (\<lambda>vs _. length vs = length (i # is) \<and> (\<forall>v \<in> set vs. P v))
        (bind_s (map_s f is t) (\<lambda>xs s. (Inr (v # xs), s)))"
      by (rule rd_post_bind [OF Cons.IH [OF t(2)]])
        (use t Cons.prems(2) in \<open>auto simp: rd_moves_data intro!: rd_post_Inr\<close>)
  qed (use Cons.prems in auto)
qed

lemma rd_post_fold:
  assumes "rd_valid r" "I 0 a r"
    "\<And>j a t. j < length is \<Longrightarrow> rd_moves r t \<Longrightarrow> rd_valid t \<Longrightarrow> I j a t \<Longrightarrow> rd_post t (I (Suc j)) (f a (is ! j) t)"
  shows "rd_post r (I (length is)) (fold_s f a is r)"
  using assms
proof (induction "is" arbitrary: I a r)
  case Nil
  then show ?case by (simp add: rd_post_Inr)
next
  case (Cons i "is")
  show ?case unfolding fold_s.simps
  proof (rule rd_post_bind)
    show "rd_post r (I (Suc 0)) (f a i r)"
      using Cons.prems(3) [of 0 r a] Cons.prems(1,2) by (simp add: rd_moves_refl)
    fix b t assume t: "rd_moves r t" "rd_valid t" "I (Suc 0) b t"
    have "rd_post t (\<lambda>b s. I (Suc (length is)) b s) (fold_s f b is t)"
    proof (rule Cons.IH [of t "\<lambda>j. I (Suc j)", OF t(2,3)])
      fix j a s assume "j < length is" "rd_moves t s" "rd_valid s" "I (Suc j) a s"
      then show "rd_post s (I (Suc (Suc j))) (f a (is ! j) s)"
        using Cons.prems(3) [of "Suc j" s a] rd_moves_trans [OF t(1)] by simp
    qed
    then show "rd_post t (I (length (i # is))) (fold_s f b is t)" by simp
  qed
qed

lemma byte_steps [simp]: "((x::int) + 16) mod 8 = x mod 8" "(x + 32) mod 8 = x mod 8"
  by presburger+

lemmas rd_combinators = rd_post_Inr rd_post_Inl rd_post_if rd_post_bind

section \<open>The methods of the reader\<close>

lemma or_shift_bounds:
  assumes "0 \<le> v" "v < 2 ^ m" "0 \<le> w" "w < 2 ^ n"
  shows "0 \<le> push_bit n v OR w \<and> push_bit n v OR (w::int) < 2 ^ (m + n)"
proof -
  have "v * 2 ^ n + w < v * 2 ^ n + 2 ^ n" using assms by simp
  also have "v * 2 ^ n + 2 ^ n = (v + 1) * 2 ^ n" by (simp add: algebra_simps)
  also have "\<dots> \<le> 2 ^ m * 2 ^ n" using assms by (intro mult_right_mono) auto
  finally show ?thesis using assms by (simp add: or_shift_add(2) power_add)
qed

lemma rd_loop_bounds:
  assumes "0 \<le> v" "v < 2 ^ m" "0 \<le> n"
  shows "0 \<le> fst (rd_loop v n r) \<and> fst (rd_loop v n r) < 2 ^ (m + nat n)"
  using assms
proof (induction v n r arbitrary: m rule: rd_loop.induct)
  case (1 v n r)
  show ?case
  proof (cases "n \<le> 0")
    case True
    with 1 show ?thesis by (simp add: rd_loop.simps)
  next
    case False
    let ?o = "rd_bit r AND 7"
    let ?t = "min n (8 - ?o)"
    let ?x = "shr (uint (rd_data r ! nat (rd_bit r div 8))) (8 - ?o - ?t) AND (shl 1 ?t - 1)"
    let ?v = "shl v ?t OR ?x"
    have o: "0 \<le> ?o" "?o \<le> 7" by (simp_all add: bit_arith)
    have x: "0 \<le> ?x" "?x < 2 ^ nat ?t"
      by (simp_all add: push_bit_eq_mult int_and_mask)
    have b: "0 \<le> ?v" "?v < 2 ^ (m + nat ?t)" using or_shift_bounds [OF 1(2,3) x] by auto
    have "0 \<le> ?t" "?t \<le> n" using o False by auto
    then have len: "m + nat ?t + nat (n - ?t) = m + nat n" by linarith
    show ?thesis
      using 1(1) [OF False refl refl refl b] False \<open>?t \<le> n\<close> unfolding len
      by (subst (1 2) rd_loop.simps) (simp add: Let_def)
  qed
qed

lemma rd_get_post:
  assumes "rd_valid r" "0 \<le> w"
  shows "rd_post r (\<lambda>v t. 0 \<le> v \<and> v < 2 ^ nat w \<and> rd_bit t = rd_bit r + w) (rd_get w stage r)"
proof (cases "rd_get w stage r")
  case (Pair m t)
  show ?thesis
  proof (cases m)
    case (Inl x)
    then show ?thesis using Pair assms
      by (auto simp: rd_get_def rd_post_def rd_moves_refl split: if_splits prod.splits)
  next
    case (Inr v)
    have "v = fst (rd_loop 0 w r)" using Pair Inr by (auto simp: rd_get_def split: if_splits prod.splits)
    then have "0 \<le> v \<and> v < 2 ^ nat w" using rd_loop_bounds [of 0 0 w r] assms(2) by simp
    then show ?thesis
      using rd_get_Inr [of w stage r v t] Pair Inr assms by (simp add: rd_post_def rd_moves_def rd_valid_def)
  qed
qed

lemma and_power_iff:
  fixes v :: int
  assumes "0 \<le> v" "v < 2 ^ Suc n"
  shows "v AND push_bit n 1 \<noteq> 0 \<longleftrightarrow> 2 ^ n \<le> v"
proof -
  have "v AND push_bit n 1 \<noteq> 0 \<longleftrightarrow> bit v n"
    using and_bit_zero_iff [of v n] by (simp add: push_bit_eq_mult bits_of_def)
  also have "\<dots> \<longleftrightarrow> 2 ^ n \<le> v"
  proof (cases "2 ^ n \<le> v")
    case True
    then have "v div 2 ^ n = 1" using assms by (intro int_div_pos_eq [of v _ _ "v - 2 ^ n"]) auto
    with True show ?thesis by (simp add: bit_iff_odd)
  qed (use assms in \<open>simp add: bit_iff_odd\<close>)
  finally show ?thesis .
qed

lemma rd_signed_post:
  assumes "rd_valid r" "1 \<le> w"
  shows "rd_post r (\<lambda>v t. - (2 ^ nat (w - 1)) \<le> v \<and> v < 2 ^ nat (w - 1) \<and> rd_bit t = rd_bit r + w) (rd_signed w r)"
  unfolding rd_signed_def
proof (rule rd_post_bind [OF rd_get_post])
  fix v :: int and t assume t: "rd_valid t" "0 \<le> v \<and> v < 2 ^ nat w \<and> rd_bit t = rd_bit r + w"
  have w: "nat w = Suc (nat (w - 1))" using assms(2) by simp
  have "v AND shl 1 (w - 1) \<noteq> 0 \<longleftrightarrow> 2 ^ nat (w - 1) \<le> v"
    using and_power_iff [of v "nat (w - 1)"] t(2) unfolding w by simp
  with t show "rd_post t (\<lambda>v t. - (2 ^ nat (w - 1)) \<le> v \<and> v < 2 ^ nat (w - 1) \<and> rd_bit t = rd_bit r + w)
      (bind_s (lift_s (py_shl 1 (w - 1)) t) (\<lambda>sign r. (Inr (if v AND sign \<noteq> 0 then v - shl 1 w else v), r)))"
    using assms(2) by (simp add: py_shl_def lift_s_def rd_post_Inr push_bit_eq_mult w)
qed (use assms in auto)

lemma rd_unary_post:
  assumes "rd_valid r" "0 \<le> count"
  shows "rd_post r (\<lambda>v _. 0 \<le> v) (rd_unary limit count r)"
  using assms
proof (induction limit count r rule: rd_unary.induct)
  case (1 limit count r)
  show ?case
  proof (subst rd_unary.simps, rule rd_post_bind_eq [OF rd_get_post [OF 1(2)]])
    fix b :: int and t assume t: "rd_get 1 5 r = (Inr b, t)" "rd_valid t"
    from 1(1) [of b t] t 1(3) rd_valid_offset [OF t(2)]
    show "rd_post t (\<lambda>v _. 0 \<le> v) (if b \<noteq> 0 then (Inr count, t)
        else if count + 1 > limit then (Inl (codec_fail 3 5 0x04 (byte_offset t) 1), t)
        else rd_unary limit (count + 1) t)"
      by (auto intro!: rd_post_Inr rd_post_Inl)
  qed simp
qed

lemma unary_zeros_post: "rd_valid r \<Longrightarrow> rd_post r (\<lambda>v _. 0 \<le> v) (unary_zeros r)"
  by (simp add: unary_zeros_def rd_unary_post)

lemma align_zero_post:
  assumes "rd_valid r"
  shows "rd_post r (\<lambda>_ t. rd_bit t mod 8 = 0) (align_zero r)"
  using assms
proof (induction r rule: align_zero.induct)
  case (1 r)
  show ?case
  proof (cases "rd_bit r AND 7 = 0")
    case True
    then show ?thesis using 1(2) by (subst align_zero.simps) (simp add: rd_post_Inr bit_arith)
  next
    case False
    have "rd_post r (\<lambda>_ t. rd_bit t mod 8 = 0) (bind_s (rd_get 1 5 r) (\<lambda>b r.
          if b \<noteq> 0 then (Inl (codec_fail 4 4 0x19 (byte_offset r) 1), r) else align_zero r))"
    proof (rule rd_post_bind_eq [OF rd_get_post [OF 1(2)]])
      fix b :: int and t assume t: "rd_get 1 5 r = (Inr b, t)" "rd_valid t"
      from 1(1) [OF False t(1) _ t(2)] t(2) rd_valid_offset [OF t(2)]
      show "rd_post t (\<lambda>_ t. rd_bit t mod 8 = 0)
          (if b \<noteq> 0 then (Inl (codec_fail 4 4 0x19 (byte_offset t) 1), t) else align_zero t)"
        by (auto intro!: rd_post_Inl)
    qed simp
    with False show ?thesis by (subst align_zero.simps) simp
  qed
qed

text \<open>A method that reads whole bytes; the offsets of its errors look back at bytes already read.\<close>

lemma utf8_continuation_post:
  assumes "rd_valid r" "0 \<le> v"
  shows "rd_post r (\<lambda>w t. 0 \<le> w \<and> rd_bit t = rd_bit r + 8) (utf8_continuation v i r)"
  unfolding utf8_continuation_def
proof (rule rd_post_bind [OF rd_get_post])
  fix byte :: int and t assume t: "rd_moves r t" "rd_valid t" "0 \<le> byte \<and> byte < 2 ^ nat 8 \<and> rd_bit t = rd_bit r + 8"
  have "0 \<le> byte_offset t - 1" "byte_offset t - 1 \<le> data_length t"
    using t assms by (auto simp: byte_offset_def rd_valid_def)
  then show "rd_post t (\<lambda>w t. 0 \<le> w \<and> rd_bit t = rd_bit r + 8)
      (if byte AND 0xC0 \<noteq> 0x80 then (Inl (codec_fail 4 4 0x17 (byte_offset t - 1) 1), t)
       else (Inr (shl v 6 OR (byte AND 0x3F)), t))"
    using t assms(2) by (auto intro!: rd_post_Inl rd_post_Inr)
qed (use assms in auto)

lemma utf8_integer_post:
  assumes "rd_valid r"
  shows "rd_post r (\<lambda>v t. 0 \<le> v \<and> v < 2 ^ 36 \<and> rd_bit t mod 8 = rd_bit r mod 8) (utf8_integer r)"
  unfolding utf8_integer_def
proof (rule rd_post_bind [OF rd_get_post [OF assms]])
  fix first :: int and t
  let ?n = "utf8_count first 0x80 0"
  let ?Q = "\<lambda>v t. 0 \<le> v \<and> v < (2 :: int) ^ 36 \<and> rd_bit t mod 8 = rd_bit r mod 8"
  assume t: "rd_valid t" "0 \<le> first \<and> first < 2 ^ nat 8 \<and> rd_bit t = rd_bit r + 8"
  have off: "0 \<le> byte_offset t - 1" "byte_offset t - 1 \<le> data_length t"
    using t assms by (auto simp: byte_offset_def rd_valid_def)
  have more: "rd_post t ?Q
      (bind_s (fold_s utf8_continuation (first AND (shl 1 (7 - ?n) - 1)) (py_range 0 (?n - 1)) t) (\<lambda>v r.
         if v < shl 1 (if ?n = 2 then 7 else 5 * ?n - 4) \<or> v \<ge> shl 1 36
         then (Inl (codec_fail 4 4 0x17 (byte_offset r - ?n) 1), r) else (Inr v, r)))" if n: "2 \<le> ?n"
  proof (rule rd_post_bind)
    show "rd_post t (\<lambda>v u. 0 \<le> v \<and> rd_bit u = rd_bit t + 8 * int (length (py_range 0 (?n - 1))))
        (fold_s utf8_continuation (first AND (shl 1 (7 - ?n) - 1)) (py_range 0 (?n - 1)) t)"
      by (rule rd_post_fold [where I = "\<lambda>j v u. 0 \<le> v \<and> rd_bit u = rd_bit t + 8 * int j"])
        (use t in \<open>auto intro!: rd_post_weaken [OF utf8_continuation_post]\<close>)
    fix v :: int and u assume u: "rd_valid u" "0 \<le> v \<and> rd_bit u = rd_bit t + 8 * int (length (py_range 0 (?n - 1)))"
    have "rd_bit u = rd_bit r + 8 * ?n" using u t n by (simp add: py_range_def)
    then show "rd_post u ?Q (if v < shl 1 (if ?n = 2 then 7 else 5 * ?n - 4) \<or> v \<ge> shl 1 36
         then (Inl (codec_fail 4 4 0x17 (byte_offset u - ?n) 1), u) else (Inr v, u))"
      using u n assms by (auto simp: rd_valid_def byte_offset_def push_bit_eq_mult intro!: rd_post_Inl rd_post_Inr)
  qed
  then show "rd_post t ?Q (if first < 0x80 then (Inr first, t)
       else let count = ?n in
         if count < 2 \<or> count > 7 then (Inl (codec_fail 4 4 0x17 (byte_offset t - 1) 1), t)
         else bind_s (fold_s utf8_continuation (first AND (shl 1 (7 - count) - 1)) (py_range 0 (count - 1)) t) (\<lambda>v r.
               if v < shl 1 (if count = 2 then 7 else 5 * count - 4) \<or> v \<ge> shl 1 36
               then (Inl (codec_fail 4 4 0x17 (byte_offset r - count) 1), r) else (Inr v, r)))"
    using t off by (auto simp: Let_def intro!: rd_post_Inr rd_post_Inl)
qed simp

section \<open>Subframes\<close>

text \<open>Pure steps: what they return and where they locate their errors.\<close>

definition in_width :: "int \<Rightarrow> int \<Rightarrow> bool" where
  "in_width bits v \<longleftrightarrow> - (2 ^ nat (bits - 1)) \<le> v \<and> v < 2 ^ nat (bits - 1)"

lemma signed_range_Inr: "signed_range v bits offset = Inr w \<longleftrightarrow> w = v \<and> in_width bits v"
  by (auto simp: signed_range_def in_width_def push_bit_eq_mult)

lemma signed_range_Inl: "signed_range v bits offset = Inl x \<Longrightarrow> 0 \<le> offset \<Longrightarrow> offset \<le> n \<Longrightarrow> located n x"
  by (auto simp: signed_range_def split: if_splits)

lemma map_r_raises: "map_r f xs = Inl x \<Longrightarrow> \<exists>y \<in> set xs. f y = Inl x"
  by (induction xs) (auto simp: bind_r_Inl)

lemma map_r_set: "map_r f xs = Inr ys \<Longrightarrow> y \<in> set ys \<Longrightarrow> \<exists>x \<in> set xs. f x = Inr y"
  by (induction xs arbitrary: ys) (auto simp: bind_r_Inr)

lemma map_r_length: "map_r f xs = Inr ys \<Longrightarrow> length ys = length xs"
  by (induction xs arbitrary: ys) (auto simp: bind_r_Inr)

lemma codec_nth_ok: "0 \<le> i \<Longrightarrow> i < int (length xs) \<Longrightarrow> codec_nth xs i = Inr (xs ! nat i)"
  by (simp add: codec_nth_def)

lemma codec_last_ok: "1 \<le> k \<Longrightarrow> k \<le> int (length xs) \<Longrightarrow> codec_last k xs = Inr (xs ! (length xs - nat k))"
  by (simp add: codec_last_def codec_nth_def nat_diff_distrib)

lemma fixed_predict_ok: "0 \<le> order \<Longrightarrow> order \<le> 4 \<Longrightarrow> order \<le> int (length h) \<Longrightarrow> \<exists>p. fixed_predict order h = Inr p"
  by (cases "order = 0"; cases "order = 1"; cases "order = 2"; cases "order = 3")
    (simp_all add: fixed_predict_def codec_last_ok)

lemma lpc_predict_ok:
  assumes "0 \<le> order" "order \<le> int (length h)" "int (length cs) = order"
  shows "\<exists>p. lpc_predict cs shift order h = Inr p"
proof -
  have "map_r (\<lambda>index. bind_r (codec_nth cs index) (\<lambda>c. bind_r (codec_last (index + 1) h) (\<lambda>x. Inr (c * x)))) (py_range 0 order)
      = Inr (map (\<lambda>i. cs ! nat i * h ! (length h - nat (i + 1))) (py_range 0 order))"
    using assms by (intro map_r_ok) (simp add: codec_nth_ok codec_last_ok)
  then show ?thesis by (simp add: lpc_predict_def Let_def)
qed

lemma restore_samples_post:
  assumes "0 \<le> offset" "offset \<le> n" "\<forall>h. length samples \<le> length h \<longrightarrow> (\<exists>p. predict h = Inr p)"
  shows "case restore_samples predict offset samples rs of Inl x \<Rightarrow> located n x
    | Inr vs \<Rightarrow> length vs = length samples + length rs"
  using assms(3)
proof (induction rs arbitrary: samples)
  case Nil
  then show ?case by (simp add: restore_samples_def)
next
  case (Cons a rs)
  from Cons.prems obtain p where p: "predict samples = Inr p" by blast
  have step: "restore_samples predict offset samples (a # rs) =
      bind_r (signed_range (p + a) 32 offset) (\<lambda>v. restore_samples predict offset (samples @ [v]) rs)"
    by (auto simp: restore_samples_def p bind_r_def split: sum.splits)
  show ?case
  proof (cases "signed_range (p + a) 32 offset")
    case (Inl x)
    then show ?thesis using signed_range_Inl [OF Inl assms(1,2)] by (simp add: step)
  next
    case (Inr v)
    then show ?thesis using Cons.IH [of "samples @ [v]"] Cons.prems by (simp add: step split: sum.splits)
  qed
qed

lemma restore_lift_post:
  assumes "rd_valid u" "0 \<le> offset" "offset \<le> data_length u"
    "\<And>h. length samples \<le> length h \<Longrightarrow> \<exists>p. predict h = Inr p"
    "int (length samples) + int (length rs) = blocks"
  shows "rd_post u (\<lambda>vs _. int (length vs) = blocks) (lift_s (restore_samples predict offset samples rs) u)"
  using restore_samples_post [OF assms(2,3), of samples predict rs] assms(4,5)
  by (intro rd_post_lift [OF assms(1)]) (auto split: sum.splits)

lemma rice_residual_post: "rd_valid r \<Longrightarrow> 0 \<le> p \<Longrightarrow> rd_post r (\<lambda>_ _. True) (rice_residual p r)"
  unfolding rice_residual_def Let_def
  by (rule rd_post_bind [OF unary_zeros_post], assumption,
      rule rd_post_bind [where P = "\<lambda>_ _. True"])
    (auto intro!: rd_post_Inr rd_post_weaken [OF rd_get_post])

lemma residual_partition_post:
  assumes "rd_valid r" "0 \<le> pb"
  shows "rd_post r (\<lambda>_ _. True) (residual_partition blocks order partitions pb acc part r)"
proof -
  have read: "rd_post t (\<lambda>_ _. True) (bind_s (map_s (\<lambda>_. g) is t) (\<lambda>xs r. (Inr (acc @ xs), r)))"
    if "rd_valid t" "\<And>u. rd_valid u \<Longrightarrow> rd_post u (\<lambda>_ _. True) (g u)"
    for g :: "reader \<Rightarrow> (codec_exn + int) \<times> reader" and t and "is" :: "int list"
    by (rule rd_post_bind [OF rd_post_map [where P = "\<lambda>_. True"]]) (use that in \<open>auto intro: rd_post_Inr\<close>)
  show ?thesis
    unfolding residual_partition_def Let_def using assms rd_valid_offset [OF assms(1)]
    by (auto intro!: rd_post_Inl rd_post_Inr rd_post_bind [OF rd_get_post] read rice_residual_post
        rd_post_weaken [OF rd_signed_post])
qed

lemma residuals_post:
  assumes "rd_valid r"
  shows "rd_post r (\<lambda>rs _. int (length rs) = blocks - order) (residuals blocks order r)"
  unfolding residuals_def Let_def
proof (rule rd_post_bind [OF rd_get_post [OF assms]], simp, rule rd_post_if)
  fix coding :: int and t assume t: "rd_valid t" "0 \<le> coding \<and> coding < 2 ^ nat 2 \<and> rd_bit t = rd_bit r + 2"
  show "rd_post t (\<lambda>rs _. int (length rs) = blocks - order) (Inl (codec_fail 7 5 0x40 (byte_offset t) 1), t)"
    using t(1) rd_valid_offset [OF t(1)] by (auto intro: rd_post_Inl)
  have parts: "rd_post u (\<lambda>_ _. True)
      (fold_s (residual_partition blocks order partitions (4 + coding)) [] is u)" if "rd_valid u" for u partitions "is"
    by (rule rd_post_fold [where I = "\<lambda>_ _ _. True"]) (use that t in \<open>auto intro: residual_partition_post\<close>)
  show "rd_post t (\<lambda>rs _. int (length rs) = blocks - order)
      (bind_s (rd_get 4 5 t) (\<lambda>partition_order r.
         if partition_order > 15 \<or> blocks mod shl 1 partition_order \<noteq> 0
         then (Inl (codec_fail 7 5 0x42 (byte_offset r) 1), r)
         else bind_s (fold_s (residual_partition blocks order (shl 1 partition_order) (4 + coding)) []
               (py_range 0 (shl 1 partition_order)) r)
             (\<lambda>acc r. if int (length acc) \<noteq> blocks - order then (Inl (codec_fail 7 5 0x42 (byte_offset r) 1), r)
               else (Inr acc, r))))"
    by (rule rd_post_bind [OF rd_get_post [OF t(1)]], simp,
        auto intro!: rd_post_Inl rd_post_Inr rd_post_bind [OF parts] simp: rd_valid_offset)
qed

lemma signed_list_post:
  "rd_valid r \<Longrightarrow> 1 \<le> w \<Longrightarrow> rd_post r (\<lambda>vs _. length vs = length is) (map_s (\<lambda>_. rd_signed w) is r)"
  by (rule rd_post_weaken [OF rd_post_map [where P = "\<lambda>_. True"]])
    (auto intro: rd_post_weaken [OF rd_signed_post])

lemma py_range_length [simp]: "length (py_range lo hi) = nat (hi - lo)"
  by (simp add: py_range_def)

lemma fixed_subframe_post:
  assumes "rd_valid r" "1 \<le> cb" "0 \<le> order" "order \<le> 4" "0 \<le> offset" "offset \<le> data_length r"
  shows "rd_post r (\<lambda>vs _. int (length vs) = blocks) (fixed_subframe order blocks cb offset r)"
  unfolding fixed_subframe_def
proof (rule rd_post_if)
  assume le: "\<not> order > blocks"
  show "rd_post r (\<lambda>vs _. int (length vs) = blocks)
      (bind_s (map_s (\<lambda>_. rd_signed cb) (py_range 0 order) r) (\<lambda>samples r.
        bind_s (residuals blocks order r) (\<lambda>rs r.
          lift_s (restore_samples (fixed_predict order) offset samples rs) r)))"
  proof (rule rd_post_bind [OF signed_list_post [OF assms(1,2)]], rule rd_post_bind [OF residuals_post], assumption)
    fix samples rs :: "int list" and t u
    assume t: "rd_moves r t" "length samples = length (py_range 0 order)"
      and u: "rd_moves t u" "rd_valid u" "int (length rs) = blocks - order"
    have d: "data_length u = data_length r" using rd_moves_data [OF t(1)] rd_moves_data [OF u(1)] by simp
    have p: "\<exists>p. fixed_predict order h = Inr p" if "length samples \<le> length h" for h
      using fixed_predict_ok [of order h] that t(2) assms(3,4) by simp
    show "rd_post u (\<lambda>vs _. int (length vs) = blocks) (lift_s (restore_samples (fixed_predict order) offset samples rs) u)"
      using t(2) u(3) assms(3,5,6) by (intro restore_lift_post [OF u(2) _ _ p]) (simp_all add: d)
  qed
qed (use assms in \<open>auto intro: rd_post_Inl\<close>)

lemma lpc_subframe_post:
  assumes "rd_valid r" "1 \<le> cb" "0 \<le> order" "0 \<le> offset" "offset \<le> data_length r"
  shows "rd_post r (\<lambda>vs _. int (length vs) = blocks) (lpc_subframe order blocks cb offset r)"
  unfolding lpc_subframe_def Let_def
proof (rule rd_post_if)
  assume le: "\<not> order > blocks"
  let ?Q = "\<lambda>vs _ :: reader. int (length vs) = blocks"
  have restore: "rd_post t ?Q (bind_s (residuals blocks order t) (\<lambda>rs r.
        lift_s (restore_samples (lpc_predict cs shift order) offset samples rs) r))"
    if t: "rd_valid t" "rd_data t = rd_data r" and len: "int (length samples) = order" "int (length cs) = order"
    for t samples cs shift
  proof (rule rd_post_bind [OF residuals_post [OF t(1)]])
    fix rs :: "int list" and u assume u: "rd_moves t u" "rd_valid u" "int (length rs) = blocks - order"
    have d: "data_length u = data_length r" using t(2) rd_moves_data [OF u(1)] by simp
    have p: "\<exists>p. lpc_predict cs shift order h = Inr p" if "length samples \<le> length h" for h
      using lpc_predict_ok [of order h cs] that len assms(3) by simp
    show "rd_post u ?Q (lift_s (restore_samples (lpc_predict cs shift order) offset samples rs) u)"
      using len u(3) assms(4,5) by (intro restore_lift_post [OF u(2) _ _ p]) (simp_all add: d)
  qed
  show "rd_post r ?Q
      (bind_s (map_s (\<lambda>_. rd_signed cb) (py_range 0 order) r) (\<lambda>samples r.
        bind_s (rd_get 4 5 r) (\<lambda>p r.
        if p + 1 = 16 then (Inl (codec_fail 7 5 0x40 (byte_offset r) 1), r)
        else
          bind_s (rd_signed 5 r) (\<lambda>shift r.
          bind_s (map_s (\<lambda>_. rd_signed (p + 1)) (py_range 0 order) r) (\<lambda>coefficients r.
          bind_s (residuals blocks order r) (\<lambda>rs r.
            lift_s (restore_samples (lpc_predict coefficients shift order) offset samples rs) r))))))"
    by (rule rd_post_bind [OF signed_list_post [OF assms(1,2)]], rule rd_post_bind [OF rd_get_post], assumption, simp,
        rule rd_post_if, rule rd_post_Inl, assumption, simp add: rd_valid_offset,
        rule rd_post_bind [OF rd_signed_post], assumption, simp,
        rule rd_post_bind [OF signed_list_post], assumption, simp,
        rule restore, assumption)
      (use assms(3) in \<open>simp_all add: rd_moves_def\<close>)
qed (use assms in \<open>auto intro: rd_post_Inl\<close>)

lemma subframe_samples_post:
  assumes "rd_valid r" "1 \<le> cb" "0 \<le> blocks" "0 \<le> offset" "offset \<le> data_length r"
  shows "rd_post r (\<lambda>vs _. int (length vs) = blocks) (subframe_samples kind blocks cb offset r)"
  unfolding subframe_samples_def using assms
  by (auto intro!: rd_post_if rd_post_Inl fixed_subframe_post lpc_subframe_post
      rd_post_bind [OF rd_signed_post] rd_post_Inr rd_post_weaken [OF signed_list_post])

lemma signed_range_list:
  assumes "0 \<le> offset" "offset \<le> n"
  shows "case map_r (\<lambda>v. signed_range (g v) bits offset) vs of Inl x \<Rightarrow> located n x
    | Inr ws \<Rightarrow> ws = map g vs \<and> (\<forall>w \<in> set ws. in_width bits w)"
proof (induction vs)
  case (Cons v vs)
  show ?case
  proof (cases "signed_range (g v) bits offset")
    case (Inl x)
    then show ?thesis using signed_range_Inl [OF Inl assms] by simp
  next
    case (Inr w)
    then have "w = g v" "in_width bits (g v)" by (simp_all add: signed_range_Inr)
    with Inr Cons show ?thesis by (auto simp: bind_r_def split: sum.splits)
  qed
qed simp

lemma subframe_post:
  assumes "rd_valid r" "0 \<le> blocks"
  shows "rd_post r (\<lambda>vs _. int (length vs) = blocks) (subframe blocks bits r)"
proof -
  let ?o = "byte_offset r"
  let ?Q = "\<lambda>vs _. int (length vs) = blocks"
  have o: "0 \<le> ?o" "?o \<le> data_length r" using rd_valid_offset [OF assms(1)] by auto
  have tail: "rd_post t ?Q
      (if bits - wasted < 1 then (Inl (codec_fail 7 5 0x41 ?o 1), t)
       else bind_s (subframe_samples kind blocks (bits - wasted) ?o t) (\<lambda>samples r.
              lift_s (map_r (\<lambda>sample. signed_range (shl sample wasted) 32 ?o) samples) r))"
    if t: "rd_valid t" "rd_data t = rd_data r" for t wasted kind
  proof (rule rd_post_if)
    assume "\<not> bits - wasted < 1"
    then show "rd_post t ?Q (bind_s (subframe_samples kind blocks (bits - wasted) ?o t) (\<lambda>samples r.
              lift_s (map_r (\<lambda>sample. signed_range (shl sample wasted) 32 ?o) samples) r))"
    proof (intro rd_post_bind [OF subframe_samples_post])
      fix vs :: "int list" and u assume u: "rd_moves t u" "rd_valid u" "int (length vs) = blocks"
      show "rd_post u ?Q (lift_s (map_r (\<lambda>sample. signed_range (shl sample wasted) 32 ?o) vs) u)"
        using signed_range_list [OF o, where g = "\<lambda>v. shl v wasted" and bits = 32 and vs = vs] u t(2) rd_moves_data [OF u(1)]
        by (intro rd_post_lift [OF u(2)]) (auto split: sum.splits)
    qed (use t o assms(2) in auto)
  qed (use t o in \<open>auto intro: rd_post_Inl\<close>)
  have wasted: "rd_post t (\<lambda>_ _. True)
      (if f \<noteq> 0 then bind_s (unary_zeros t) (\<lambda>n r. (Inr (n + 1), r)) else (Inr 0, t))" if "rd_valid t" for t and f :: int
    using that by (auto intro!: rd_post_bind [OF unary_zeros_post] rd_post_Inr)
  show ?thesis
    unfolding subframe_def Let_def
    by (rule rd_post_bind [OF rd_get_post [OF assms(1)]], simp, rule rd_post_if, rule rd_post_Inl, assumption,
        use o in \<open>simp add: rd_moves_def\<close>,
        rule rd_post_bind [OF rd_get_post], assumption, simp,
        rule rd_post_bind [OF rd_get_post], assumption, simp,
        rule rd_post_bind [OF wasted], assumption,
        rule tail, assumption, simp add: rd_moves_def)
qed

section \<open>Frames\<close>

lemma block_size_post:
  assumes "rd_valid r"
  shows "rd_post r (\<lambda>n t. 1 \<le> n \<and> rd_bit t mod 8 = rd_bit r mod 8) (block_size code r)"
  unfolding block_size_def using assms rd_valid_offset [OF assms]
  by (auto intro!: rd_post_if rd_post_Inl rd_post_Inr rd_post_bind [OF rd_get_post] simp: push_bit_eq_mult
      intro: order_trans [of _ 256] order_trans [of _ 576] mult_right_mono)

lemma sample_rate_post:
  assumes "rd_valid r"
  shows "rd_post r (\<lambda>_ t. rd_bit t mod 8 = rd_bit r mod 8) (sample_rate code rate r)"
  unfolding sample_rate_def using assms rd_valid_offset [OF assms]
  by (auto intro!: rd_post_if rd_post_Inl rd_post_Inr rd_post_bind [OF rd_get_post] rd_post_weaken [OF rd_get_post])

lemma sync_ok_post:
  assumes "rd_valid r"
  shows "rd_post r (\<lambda>ok t. ok \<longrightarrow> rd_bit t = rd_bit r + 15) (sync_ok r)"
  unfolding sync_ok_def using assms
  by (auto intro!: rd_post_if rd_post_Inr rd_post_bind [OF rd_get_post])

definition header_ok :: "flac_meta \<Rightarrow> int option \<Rightarrow> frame_header \<Rightarrow> bool" where
  "header_ok meta expected h \<longleftrightarrow>
     1 \<le> fh_block_size h \<and> fh_block_size h \<le> 4096 \<and> fh_channels h = fm_channels meta \<and> fh_bits h = fm_bits meta
     \<and> 0 \<le> fh_assignment h \<and> fh_assignment h \<le> 10 \<and> 0 \<le> fh_number h \<and> fh_strategy h \<in> {0, 1}
     \<and> fh_channels h = (if fh_assignment h \<le> 7 then fh_assignment h + 1 else 2)
     \<and> (\<forall>n. expected = Some n \<longrightarrow> fh_number h = n)"

lemma flac_header_checks_Inl:
  "flac_header_checks meta start expected header_end h rate = Inl x \<Longrightarrow> 0 \<le> start \<Longrightarrow> start \<le> n \<Longrightarrow>
    0 \<le> header_end \<Longrightarrow> header_end \<le> n \<Longrightarrow> located n x"
  by (drule first_error_Inl [OF trans [OF flac_header_checks_def [symmetric]]])
    (auto simp: raise_if_Inl eq_commute [of "Inl x"])

lemma flac_header_checks_post:
  assumes "rd_valid r" "0 \<le> start" "start \<le> data_length r"
    "h = \<lparr>fh_strategy = strategy, fh_assignment = assignment, fh_number = number, fh_block_size = blocks,
          fh_channels = (if assignment \<le> 7 then assignment + 1 else 2), fh_bits = bits\<rparr>"
    "1 \<le> blocks" "0 \<le> assignment" "0 \<le> number" "strategy \<in> {0, 1}"
  shows "rd_post r (\<lambda>h t. header_ok meta expected h \<and> t = r)
    (bind_s (lift_s (flac_header_checks meta start expected (byte_offset r) h rate) r) (\<lambda>_ r. (Inr h, r)))"
proof (rule rd_post_bind [OF rd_post_lift [OF assms(1), where Q = "\<lambda>_ t. header_ok meta expected h \<and> t = r"]])
  show "located (data_length r) x" if "flac_header_checks meta start expected (byte_offset r) h rate = Inl x" for x
    using flac_header_checks_Inl [OF that] assms(2,3) rd_valid_offset [OF assms(1)] by simp
  show "header_ok meta expected h \<and> r = r" if "flac_header_checks meta start expected (byte_offset r) h rate = Inr v" for v
    using that assms(4-8)
    by (auto simp: flac_header_checks_def first_error_Inr raise_if_Inr header_ok_def split: option.splits if_splits)
qed (auto intro: rd_post_Inr)

lemma frame_head_post:
  assumes "rd_valid r" "rd_bit r mod 8 = 0" "0 \<le> start" "start \<le> data_length r"
  shows "rd_post r (\<lambda>h t. header_ok meta expected h \<and> rd_bit t mod 8 = 0 \<and> rd_bit r + 32 \<le> rd_bit t)
    (frame_head meta expected start r)"
proof -
  let ?Q = "\<lambda>h t. header_ok meta expected h \<and> rd_bit t mod 8 = 0 \<and> rd_bit r + 32 \<le> rd_bit t"
  have bits: "rd_post t (\<lambda>_ u. u = t) (lift_s (sample_bits code (fm_bits meta) start) t)"
    if "rd_valid t" "rd_data t = rd_data r" for t code
    using that assms(3,4) by (intro rd_post_lift) (auto simp: sample_bits_def split: option.splits)
  have tail: "rd_post t ?Q
      (bind_s (utf8_integer t) (\<lambda>number r.
           bind_s (block_size block_code r) (\<lambda>blocks r.
           bind_s (sample_rate rate_code (fm_rate meta) r) (\<lambda>rate r.
           bind_s (lift_s (sample_bits bits_code (fm_bits meta) start) r) (\<lambda>bits r.
           let h = \<lparr>fh_strategy = strategy, fh_assignment = assignment, fh_number = number, fh_block_size = blocks,
                    fh_channels = (if assignment \<le> 7 then assignment + 1 else 2), fh_bits = bits\<rparr> in
           bind_s (lift_s (flac_header_checks meta start expected (byte_offset r) h rate) r) (\<lambda>_ r.
             (Inr h, r)))))))"
    if t: "rd_valid t" "rd_data t = rd_data r" "rd_bit t = rd_bit r + 32"
      and f: "0 \<le> assignment" "strategy \<in> {0, 1}"
    for t block_code rate_code bits_code strategy assignment
    unfolding Let_def
    apply (rule rd_post_bind [OF utf8_integer_post [OF t(1)]])
    apply (rule rd_post_bind [OF block_size_post], assumption)
    apply (rule rd_post_bind [OF sample_rate_post], assumption)
    apply (rule rd_post_bind [OF bits], assumption)
     apply (use t(2) in \<open>simp add: rd_moves_def\<close>)
    apply (rule rd_post_weaken [OF flac_header_checks_post [OF _ assms(3) _ refl]])
    using t f assms(2,4) by (auto simp: rd_moves_def)
  show ?thesis
    unfolding frame_head_def
    apply (rule rd_post_bind [OF sync_ok_post [OF assms(1)]])
    apply (rule rd_post_if, rule rd_post_Inl, assumption)
     apply (use assms in \<open>simp add: rd_moves_def\<close>)
    apply (rule rd_post_bind [OF rd_get_post], assumption, simp)+
    apply (rule rd_post_if, rule rd_post_Inl, assumption)
     apply (use assms in \<open>simp add: rd_moves_def\<close>)
    apply (rule tail, assumption)
    by (auto simp: rd_moves_def)
qed

definition frames_ok :: "int \<Rightarrow> int \<Rightarrow> int list list \<Rightarrow> bool" where
  "frames_ok channels bits frames \<longleftrightarrow>
     (\<forall>f \<in> set frames. int (length f) = channels \<and> (\<forall>v \<in> set f. in_width bits v))"

lemma stereo_values_ok:
  assumes "int (length planar) = channels" "\<forall>xs \<in> set planar. int (length xs) = blocks" "0 \<le> i" "i < blocks"
    "assignment \<le> 7 \<or> channels = 2"
  shows "\<exists>vs. stereo_values assignment channels planar i = Inr vs \<and> int (length vs) = channels"
proof -
  have nth: "codec_nth (planar ! nat c) i = Inr (planar ! nat c ! nat i)" if "0 \<le> c" "c < channels" for c
    using that assms by (intro codec_nth_ok) auto
  show ?thesis
  proof (cases "assignment \<le> 7")
    case True
    have "map_r (\<lambda>channel. bind_r (codec_nth planar channel) (\<lambda>xs. codec_nth xs i)) (py_range 0 channels)
        = Inr (map (\<lambda>c. planar ! nat c ! nat i) (py_range 0 channels))"
      using assms(1) nth by (intro map_r_ok) (simp add: codec_nth_ok)
    with True assms(1) show ?thesis by (auto simp: stereo_values_def)
  next
    case False
    with assms have "channels = 2" by simp
    with assms(1) nth [of 0] nth [of 1] False show ?thesis
      by (simp add: stereo_values_def codec_nth_ok Let_def)
  qed
qed

lemma frame_values_post:
  assumes "int (length planar) = channels" "\<forall>xs \<in> set planar. int (length xs) = blocks" "0 \<le> blocks"
    "assignment \<le> 7 \<or> channels = 2" "0 \<le> start" "start \<le> n"
  shows "case frame_values assignment channels blocks bits start planar of Inl x \<Rightarrow> located n x
    | Inr frames \<Rightarrow> int (length frames) = blocks \<and> frames_ok channels bits frames"
proof (cases "frame_values assignment channels blocks bits start planar")
  case (Inl x)
  then obtain i where i: "0 \<le> i" "i < blocks"
    "bind_r (stereo_values assignment channels planar i) (\<lambda>vs. map_r (\<lambda>v. signed_range v bits start) vs) = Inl x"
    by (auto simp: frame_values_def dest!: map_r_raises)
  obtain vs where vs: "stereo_values assignment channels planar i = Inr vs"
    using stereo_values_ok [OF assms(1,2) i(1,2) assms(4)] by blast
  show ?thesis
    using i(3) signed_range_list [OF assms(5,6), where g = "\<lambda>v. v" and vs = vs and bits = bits] by (simp add: vs Inl)
next
  case (Inr frames)
  then have fv: "map_r (\<lambda>index. bind_r (stereo_values assignment channels planar index)
      (\<lambda>vs. map_r (\<lambda>v. signed_range v bits start) vs)) (py_range 0 blocks) = Inr frames"
    by (simp add: frame_values_def)
  have "int (length f) = channels \<and> (\<forall>v \<in> set f. in_width bits v)" if f: "f \<in> set frames" for f
  proof -
    from map_r_set [OF fv f] obtain i where i: "0 \<le> i" "i < blocks"
      "bind_r (stereo_values assignment channels planar i) (\<lambda>vs. map_r (\<lambda>v. signed_range v bits start) vs) = Inr f"
      by auto
    obtain vs where vs: "stereo_values assignment channels planar i = Inr vs" "int (length vs) = channels"
      using stereo_values_ok [OF assms(1,2) i(1,2) assms(4)] by blast
    show ?thesis
      using i(3) signed_range_list [OF assms(5,6), where g = "\<lambda>v. v" and vs = vs and bits = bits] vs(2) by (simp add: vs(1))
  qed
  with Inr map_r_length [OF fv] assms(3) show ?thesis by (simp add: frames_ok_def)
qed

text \<open>The trailer of a frame: the checksum over everything before it, most significant byte first.\<close>

definition frame_trailer :: "bytes \<Rightarrow> int \<Rightarrow> int \<Rightarrow> bool" where
  "frame_trailer data start frame_end \<longleftrightarrow>
     fst (rd_get 16 4 (reader_new data (frame_end - 2))) = Inr (crc16 (py_slice data start (frame_end - 2)))"

lemma channel_bits_length:
  "header_ok meta expected h \<Longrightarrow> int (length (channel_bits h)) = fh_channels h"
  by (auto simp: channel_bits_def header_ok_def Let_def split: if_splits)

lemma frame_tail_post:
  assumes "rd_valid r" "rd_bit r mod 8 = 0" "0 \<le> start" "start \<le> data_length r"
    "int (length planar) = channels" "\<forall>xs \<in> set planar. int (length xs) = blocks" "0 \<le> blocks"
    "assignment \<le> 7 \<or> channels = 2"
  shows "rd_post r (\<lambda>(frames, frame_end) t. int (length frames) = blocks \<and> frames_ok channels bits frames
      \<and> rd_bit t = frame_end * 8 \<and> rd_bit t = rd_bit r + 16 \<and> frame_trailer (rd_data r) start frame_end)
    (bind_s (rd_get 16 4 r) (\<lambda>expected_crc16 t.
       if crc16 (py_slice (rd_data t) start (byte_offset r)) \<noteq> expected_crc16
       then (Inl (codec_fail 6 4 0x31 (byte_offset r) 1), t)
       else
         let frame_bytes = byte_offset t - start in
         if (lo \<noteq> 0 \<and> frame_bytes < lo) \<or> (hi \<noteq> 0 \<and> frame_bytes > hi) \<or> frame_bytes > 65536
         then (Inl (codec_fail 3 4 0x04 start 1), t)
         else
           bind_s (lift_s (frame_values assignment channels blocks bits start planar) t)
             (\<lambda>frames r. (Inr (frames, byte_offset r), r))))" (is "rd_post r ?Q _")
proof (rule rd_post_bind_eq [OF rd_get_post [OF assms(1)]], simp)
  fix c t assume t: "rd_get 16 4 r = (Inr c, t)" "rd_moves r t" "rd_valid t"
    "0 \<le> c \<and> c < 2 ^ nat 16 \<and> rd_bit t = rd_bit r + 16"
  have d: "rd_data t = rd_data r" by (rule rd_moves_data [OF t(2)])
  have al: "rd_bit r = byte_offset r * 8" "rd_bit t = byte_offset t * 8" "byte_offset r = byte_offset t - 2"
    using assms(2) t(4) by (auto simp: byte_offset_def)
  have r: "reader_new (rd_data r) (byte_offset t - 2) = r"
    using al by (simp add: reader_new_def)
  have trailer: "frame_trailer (rd_data r) start (byte_offset t)" if "crc16 (py_slice (rd_data t) start (byte_offset r)) = c"
    using that t(1) by (simp add: frame_trailer_def r d al(3))
  have vals: "rd_post t (\<lambda>frames u. int (length frames) = blocks \<and> frames_ok channels bits frames \<and> u = t)
      (lift_s (frame_values assignment channels blocks bits start planar) t)"
    using frame_values_post [OF assms(5-8,3), of "data_length t" bits] assms(4) d
    by (intro rd_post_lift [OF t(3)]) (auto split: sum.splits)
  show "rd_post t ?Q (if crc16 (py_slice (rd_data t) start (byte_offset r)) \<noteq> c
       then (Inl (codec_fail 6 4 0x31 (byte_offset r) 1), t)
       else
         let frame_bytes = byte_offset t - start in
         if (lo \<noteq> 0 \<and> frame_bytes < lo) \<or> (hi \<noteq> 0 \<and> frame_bytes > hi) \<or> frame_bytes > 65536
         then (Inl (codec_fail 3 4 0x04 start 1), t)
         else
           bind_s (lift_s (frame_values assignment channels blocks bits start planar) t)
             (\<lambda>frames r. (Inr (frames, byte_offset r), r)))"
    unfolding Let_def using t(3) rd_valid_offset [OF assms(1)] assms(3,4) d al t(4) trailer
    by (intro rd_post_if rd_post_Inl rd_post_bind [OF vals]) (auto intro: rd_post_Inr)
qed

lemma frame_body_post:
  assumes "rd_valid r" "0 \<le> start" "start \<le> data_length r" "header_ok meta expected h"
  shows "rd_post r (\<lambda>(frames, frame_end) t. int (length frames) = fh_block_size h
      \<and> frames_ok (fm_channels meta) (fm_bits meta) frames \<and> rd_bit t = frame_end * 8
      \<and> rd_bit r + 24 \<le> rd_bit t \<and> frame_trailer (rd_data r) start frame_end)
    (frame_body meta start h r)"
proof -
  note h = assms(4) [unfolded header_ok_def]
  have two: "fh_assignment h \<le> 7 \<or> fh_channels h = 2" using h by (meson order.refl)
  have o: "0 \<le> byte_offset r" "byte_offset r \<le> data_length r" using rd_valid_offset [OF assms(1)] by auto
  have planar: "rd_post t (\<lambda>ps _. length ps = length (channel_bits h) \<and> (\<forall>xs \<in> set ps. int (length xs) = fh_block_size h))
      (map_s (subframe (fh_block_size h)) (channel_bits h) t)" if "rd_valid t" for t
    by (rule rd_post_map) (use that h in \<open>auto intro: subframe_post\<close>)
  show ?thesis
    unfolding frame_body_def Let_def
    apply (rule rd_post_bind [OF rd_get_post [OF assms(1)]], simp)
    apply (rule rd_post_if, rule rd_post_Inl, assumption)
     apply (use o in \<open>force simp: rd_moves_def dest!: rd_valid_offset\<close>)
    apply (rule rd_post_bind [OF planar], assumption)
    apply (rule rd_post_bind [OF align_zero_post], assumption)
    apply (rule rd_post_weaken [OF frame_tail_post [where channels = "fh_channels h" and blocks = "fh_block_size h",
          unfolded Let_def]])
    using assms(2,3) h two channel_bits_length [OF assms(4)] by (auto simp: rd_moves_def)
qed

text \<open>One frame: it lies behind its start and inside the data, has the samples of its header in the width of
  the stream, ends with its checksum, and otherwise raises a located codec error.\<close>

lemma decode_frame_post:
  assumes "0 \<le> start" "start \<le> int (length data)"
  shows "case decode_frame data start meta expected of Inl x \<Rightarrow> located (int (length data)) x
    | Inr (frames, frame_end, blocks, strategy, number) \<Rightarrow>
        int (length frames) = blocks \<and> 1 \<le> blocks \<and> blocks \<le> 4096
        \<and> frames_ok (fm_channels meta) (fm_bits meta) frames \<and> start + 7 \<le> frame_end
        \<and> frame_end \<le> int (length data) \<and> frame_trailer data start frame_end"
proof -
  let ?r = "reader_new data start"
  let ?Q = "\<lambda>(frames, frame_end, blocks, strategy, number) t.
        int (length frames) = blocks \<and> 1 \<le> blocks \<and> blocks \<le> 4096
        \<and> frames_ok (fm_channels meta) (fm_bits meta) frames \<and> start + 7 \<le> frame_end
        \<and> frame_end \<le> int (length data) \<and> frame_trailer data start frame_end"
  have r: "rd_valid ?r" "rd_bit ?r mod 8 = 0" "rd_bit ?r = start * 8" "rd_data ?r = data"
    using assms by (auto simp: rd_valid_def reader_new_def)
  have "rd_post ?r ?Q (bind_s (frame_head meta expected start ?r) (\<lambda>h r.
       bind_s (frame_body meta start h r) (\<lambda>(frames, frame_end) r.
         (Inr (frames, frame_end, fh_block_size h, fh_strategy h, fh_number h), r))))"
    apply (rule rd_post_bind [OF frame_head_post [OF r(1,2)]])
    apply (use assms r in simp)
    apply (use assms r in simp)
    apply (rule rd_post_bind [OF frame_body_post])
    using assms r by (auto simp: rd_moves_def header_ok_def rd_valid_def intro!: rd_post_Inr)
  then show ?thesis
    unfolding decode_frame_def rd_post_def using r(4) by (auto split: sum.splits prod.splits)
qed

end
