(* ===== verification/Apu_Flac_Code.thy ===== *)
theory Apu_Flac_Code
  imports Apu_Flac_Frame
begin

text \<open>
  FLAC as a code. The host reader is a second instance of the interface \<open>bit_source\<close>; a method \<open>decodes\<close> a list of
  bits to a value when it reads exactly these bits, and codes compose by concatenation as the methods compose
  by sequence. On this rest the round trips of frame numbers, residuals and subframes.
\<close>

unbundle bit_operations_syntax

section \<open>The reader as a bit source\<close>

definition data_bits :: "bytes \<Rightarrow> int list" where
  "data_bits data = concat (map (\<lambda>b. byte_bits (uint b)) data)"

definition rd_stream :: "reader \<Rightarrow> int list" where
  "rd_stream r = drop (nat (rd_bit r)) (data_bits (rd_data r))"

lemma byte_bits_value: "byte_bits b = value_bits 8 b"
  by (simp add: byte_bits_def py_range_def eval_nat_numeral bit_arith upt_rec zdiv_zmult2_eq [symmetric])

lemma value_bits_drop: "k \<le> n \<Longrightarrow> drop k (value_bits n v) = value_bits (n - k) v"
  by (induction n arbitrary: v) (auto simp: Suc_diff_le le_Suc_eq)

lemma value_bits_mod: "value_bits n (v mod 2 ^ n) = value_bits n v"
proof (induction n arbitrary: v)
  case (Suc n)
  have "v mod 2 ^ Suc n div 2 = v div 2 mod 2 ^ n"
    using zmod_zmult2_eq [of "2 ^ n" v 2] by simp
  with Suc show ?case by (simp add: mod_mod_cancel)
qed simp

lemma bits_value_value_bits: "bits_value (value_bits n v) = v mod 2 ^ n"
  using bits_value_bits [of "v mod 2 ^ n" n] by (simp add: value_bits_mod)

lemma length_data_bits [simp]: "length (data_bits data) = 8 * length data"
  by (induction data) (simp_all add: data_bits_def byte_bits_value)

lemma data_bits_binary: "set (data_bits data) \<subseteq> {0, 1}"
  by (auto simp: data_bits_def byte_bits_value dest!: subsetD [OF value_bits_shape(2)])

lemma data_bits_slice:
  assumes "q < length data" "k + n \<le> 8"
  shows "take n (drop (8 * q + k) (data_bits data)) = value_bits n (uint (data ! q) div 2 ^ (8 - k - n))"
  using assms
proof (induction data arbitrary: q)
  case (Cons b data)
  show ?case
  proof (cases q)
    case 0
    then show ?thesis using Cons.prems
      by (simp add: data_bits_def byte_bits_value value_bits_drop value_bits_take)
  next
    case (Suc p)
    then show ?thesis using Cons.IH [of p] Cons.prems
      by (simp add: data_bits_def byte_bits_value)
  qed
qed simp

lemma rd_loop_stream:
  assumes "0 \<le> rd_bit r" "0 \<le> n" "rd_bit r + n \<le> data_length r * 8"
  shows "fst (rd_loop v n r) = v * 2 ^ nat n + bits_value (take (nat n) (rd_stream r))"
  using assms
proof (induction v n r rule: rd_loop.induct)
  case (1 v n r)
  show ?case
  proof (cases "n \<le> 0")
    case True
    with 1 show ?thesis by (simp add: rd_loop.simps bits_value_def)
  next
    case False
    let ?k = "rd_bit r AND 7" and ?q = "rd_bit r div 8"
    let ?t = "min n (8 - ?k)"
    let ?b = "uint (rd_data r ! nat ?q)"
    let ?x = "shr ?b (8 - ?k - ?t) AND (shl 1 ?t - 1)"
    let ?r = "r\<lparr>rd_bit := rd_bit r + ?t\<rparr>"
    have k: "0 \<le> ?k" "?k \<le> 7" "rd_bit r = 8 * ?q + ?k" by (simp_all add: bit_arith)
    have t: "1 \<le> ?t" "?t \<le> n" "?k + ?t \<le> 8" using k False by auto
    have q: "0 \<le> ?q" "nat ?q < length (rd_data r)" using 1(2-4) False k t by auto
    have pos: "nat (rd_bit r) = 8 * nat ?q + nat ?k"
      using k q by (simp add: nat_add_distrib [symmetric] nat_mult_distrib)
    have bits: "take (nat ?t) (rd_stream r) = value_bits (nat ?t) (?b div 2 ^ (8 - nat ?k - nat ?t))"
      unfolding rd_stream_def pos using t(1,3) k(1) by (intro data_bits_slice [OF q(2)]) linarith
    have sh: "nat (8 - ?k - ?t) = 8 - nat ?k - nat ?t" using k t by (simp add: nat_diff_distrib)
    have x: "?x = bits_value (take (nat ?t) (rd_stream r))"
      unfolding bits bits_value_value_bits by (simp add: push_bit_eq_mult int_and_mask drop_bit_eq_div sh)
    have x_range: "0 \<le> ?x" "?x < 2 ^ nat ?t" by (simp_all add: push_bit_eq_mult int_and_mask)
    have rest: "rd_stream ?r = drop (nat ?t) (rd_stream r)"
      using 1(2) t by (simp add: rd_stream_def nat_add_distrib add.commute)
    have n: "nat n = nat ?t + nat (n - ?t)" using t by linarith
    have parts: "take (nat n) (rd_stream r) = take (nat ?t) (rd_stream r) @ take (nat (n - ?t)) (rd_stream ?r)"
      unfolding rest n by (rule take_add)
    have len: "length (take (nat (n - ?t)) (rd_stream ?r)) = nat (n - ?t)"
      using 1(2-4) t by (simp add: rd_stream_def nat_le_iff)
    have bin: "set (take (nat ?t) (rd_stream r)) \<union> set (take (nat (n - ?t)) (rd_stream ?r)) \<subseteq> {0, 1}"
      using data_bits_binary [of "rd_data r"]
      by (auto simp: rd_stream_def dest!: in_set_takeD in_set_dropD)
    have pow: "(2::int) ^ nat n = 2 ^ nat ?t * 2 ^ nat (n - ?t)" unfolding n by (rule power_add)
    have ind: "fst (rd_loop (shl v ?t OR ?x) (n - ?t) ?r) =
        (shl v ?t OR ?x) * 2 ^ nat (n - ?t) + bits_value (take (nat (n - ?t)) (rd_stream ?r))"
      by (rule 1(1) [OF False refl refl refl]) (use 1(2-4) t in \<open>simp_all add: add.assoc\<close>)
    also have "\<dots> = v * 2 ^ nat n + bits_value (take (nat n) (rd_stream r))"
      unfolding parts bits_value_append [OF bin] len x [symmetric] pow or_shift_add(2) [OF x_range]
      by (simp only: distrib_right mult.assoc add.assoc)
    finally show ?thesis using False by (subst rd_loop.simps) (simp add: Let_def)
  qed
qed

lemma rd_get_stream:
  assumes "rd_valid r" "0 \<le> w" "w \<le> int (length (rd_stream r))"
  shows "\<exists>t. rd_get w stage r = (Inr (bits_value (take (nat w) (rd_stream r))), t) \<and>
    rd_stream t = drop (nat w) (rd_stream r) \<and> rd_valid t"
proof -
  have b: "rd_bit r + w \<le> data_length r * 8" "0 \<le> rd_bit r"
    using assms by (auto simp: rd_valid_def rd_stream_def)
  let ?t = "r\<lparr>rd_bit := rd_bit r + w\<rparr>"
  have "rd_loop 0 w r = (bits_value (take (nat w) (rd_stream r)), ?t)"
    using rd_loop_stream [OF b(2) assms(2) b(1), of 0] rd_loop_reader [of 0 w r] assms(2) by (cases "rd_loop 0 w r") simp
  then have "rd_get w stage r = (Inr (bits_value (take (nat w) (rd_stream r))), ?t)"
    using assms(2) b by (simp add: rd_get_def)
  moreover have "rd_stream ?t = drop (nat w) (rd_stream r)" "rd_valid ?t"
    using b assms(2) by (simp_all add: rd_stream_def rd_valid_def nat_add_distrib add.commute)
  ultimately show ?thesis by blast
qed

interpretation flac_source: bit_source "\<lambda>w. rd_get w stage" rd_stream rd_valid for stage
proof
  fix s :: reader and w :: int
  assume s: "rd_valid s"
  show "\<exists>t. rd_get w stage s = (Inr (bits_value (take (nat w) (rd_stream s))), t) \<and>
      rd_stream t = drop (nat w) (rd_stream s) \<and> rd_valid t"
    if "0 \<le> w" "w \<le> int (length (rd_stream s))"
    by (rule rd_get_stream [OF s that])
  show "\<exists>err t. rd_get w stage s = (Inl err, t) \<and> rd_stream t = rd_stream s \<and> rd_valid t"
    if "int (length (rd_stream s)) < w"
  proof -
    have "rd_bit s + w > data_length s * 8" using that s by (auto simp: rd_stream_def rd_valid_def)
    then show ?thesis using s by (simp add: rd_get_def)
  qed
  show "set (rd_stream s) \<subseteq> {0, 1}"
    using data_bits_binary [of "rd_data s"] set_drop_subset unfolding rd_stream_def by fastforce
qed

section \<open>Methods that decode a code\<close>

definition decodes :: "(reader \<Rightarrow> (codec_exn + 'a) \<times> reader) \<Rightarrow> int list \<Rightarrow> 'a \<Rightarrow> bool" where
  "decodes f code v \<longleftrightarrow> (\<forall>r rest. rd_valid r \<and> rd_stream r = code @ rest \<longrightarrow>
     (\<exists>t. f r = (Inr v, t) \<and> rd_valid t \<and> rd_data t = rd_data r \<and> rd_stream t = rest))"

lemma decodesI:
  assumes "\<And>r rest. rd_valid r \<Longrightarrow> rd_stream r = code @ rest \<Longrightarrow>
    \<exists>t. f r = (Inr v, t) \<and> rd_valid t \<and> rd_data t = rd_data r \<and> rd_stream t = rest"
  shows "decodes f code v"
  using assms by (simp add: decodes_def)

lemma decodesD:
  assumes "decodes f code v" "rd_valid r" "rd_stream r = code @ rest"
  obtains t where "f r = (Inr v, t)" "rd_valid t" "rd_data t = rd_data r" "rd_stream t = rest"
  using assms unfolding decodes_def by blast

lemma decodes_return: "decodes (\<lambda>r. (Inr v, r)) [] v"
  by (simp add: decodes_def)

lemma decodes_lift: "m = Inr v \<Longrightarrow> decodes (lift_s m) [] v"
  by (simp add: decodes_def lift_s_def)

lemma decodes_bind:
  assumes "decodes f c x" "decodes (g x) d y"
  shows "decodes (\<lambda>r. bind_s (f r) g) (c @ d) y"
proof (rule decodesI)
  fix r rest assume "rd_valid r" "rd_stream r = (c @ d) @ rest"
  then obtain t where t: "f r = (Inr x, t)" "rd_valid t" "rd_data t = rd_data r" "rd_stream t = d @ rest"
    using decodesD [OF assms(1), of r "d @ rest"] by auto
  with decodesD [OF assms(2) t(2,4)]
  show "\<exists>u. bind_s (f r) g = (Inr y, u) \<and> rd_valid u \<and> rd_data u = rd_data r \<and> rd_stream u = rest" by auto
qed

lemma decodes_get: "0 \<le> w \<Longrightarrow> 0 \<le> v \<Longrightarrow> v < 2 ^ nat w \<Longrightarrow> decodes (rd_get w stage) (value_bits (nat w) v) v"
proof (rule decodesI)
  fix r rest assume w: "0 \<le> w" "0 \<le> v" "v < 2 ^ nat w" and r: "rd_valid r" "rd_stream r = value_bits (nat w) v @ rest"
  obtain t where t: "rd_get w stage r = (Inr v, t)" "rd_stream t = rest" "rd_valid t"
    using flac_source.take_number [OF r w(2,3), where stage = stage] w(1) by auto
  with rd_get_Inr(3) [OF t(1)]
  show "\<exists>t. rd_get w stage r = (Inr v, t) \<and> rd_valid t \<and> rd_data t = rd_data r \<and> rd_stream t = rest" by auto
qed

lemma decodes_get_then:
  "decodes (g v) d y \<Longrightarrow> 0 \<le> v \<Longrightarrow> v < 2 ^ n \<Longrightarrow> decodes (\<lambda>r. bind_s (rd_get (int n) stage r) g) (value_bits n v @ d) y"
  using decodes_bind [OF decodes_get [of "int n" v stage]] by simp

lemma signed_value:
  assumes "1 \<le> w" "in_width w v"
  shows "(if v mod 2 ^ nat w AND push_bit (nat (w - 1)) 1 \<noteq> 0 then v mod 2 ^ nat w - 2 ^ nat w else v mod 2 ^ nat w) = v"
proof -
  have w: "nat w = Suc (nat (w - 1))" using assms(1) by simp
  have s: "v mod 2 ^ nat w AND push_bit (nat (w - 1)) 1 \<noteq> 0 \<longleftrightarrow> 2 ^ nat (w - 1) \<le> v mod 2 ^ nat w"
    unfolding w by (rule and_power_iff) simp_all
  have "v mod 2 ^ nat w = (if v < 0 then v + 2 ^ nat w else v)"
    using assms(2) mod_pos_pos_trivial [of "v + 2 ^ nat w" "2 ^ nat w"] mod_pos_pos_trivial [of v "2 ^ nat w"]
    unfolding in_width_def w by simp
  with s assms(2) show ?thesis unfolding in_width_def w by auto
qed

lemma decodes_signed:
  assumes "1 \<le> w" "in_width w v"
  shows "decodes (rd_signed w) (value_bits (nat w) v) v"
proof -
  have "decodes (\<lambda>r. bind_s (rd_get w 5 r) (\<lambda>v r. bind_s (lift_s (py_shl 1 (w - 1)) r) (\<lambda>sign r.
       (Inr (if v AND sign \<noteq> 0 then v - shl 1 w else v), r)))) (value_bits (nat w) (v mod 2 ^ nat w) @ []) v"
  proof (rule decodes_bind [OF decodes_get])
    have "py_shl 1 (w - 1) = Inr (push_bit (nat (w - 1)) 1)" using assms(1) by (simp add: py_shl_def)
    then show "decodes (\<lambda>r. bind_s (lift_s (py_shl 1 (w - 1)) r) (\<lambda>sign r.
       (Inr (if v mod 2 ^ nat w AND sign \<noteq> 0 then v mod 2 ^ nat w - shl 1 w else v mod 2 ^ nat w), r))) [] v"
      using signed_value [OF assms] by (simp add: lift_s_def push_bit_eq_mult decodes_return split: if_splits)
  qed (use assms in auto)
  then show ?thesis by (simp add: value_bits_mod rd_signed_def [abs_def])
qed

lemma decodes_unary_from:
  assumes "c + int n \<le> limit"
  shows "decodes (rd_unary limit c) (replicate n 0 @ [1]) (c + int n)"
  using assms
proof (induction n arbitrary: c)
  case 0
  have "decodes (\<lambda>r. bind_s (rd_get 1 5 r) (\<lambda>b r. if b \<noteq> 0 then (Inr c, r)
       else if c + 1 > limit then (Inl (codec_fail 3 5 0x04 (byte_offset r) 1), r) else rd_unary limit (c + 1) r))
      (value_bits (nat 1) 1 @ []) c"
    by (rule decodes_bind [OF decodes_get]) (simp_all add: decodes_return)
  then show ?case by (simp add: rd_unary.simps [abs_def])
next
  case (Suc n)
  have "decodes (\<lambda>r. bind_s (rd_get 1 5 r) (\<lambda>b r. if b \<noteq> 0 then (Inr c, r)
       else if c + 1 > limit then (Inl (codec_fail 3 5 0x04 (byte_offset r) 1), r) else rd_unary limit (c + 1) r))
      (value_bits (nat 1) 0 @ replicate n 0 @ [1]) (c + 1 + int n)"
    by (rule decodes_bind [OF decodes_get]) (use Suc in simp_all)
  then show ?case by (subst rd_unary.simps [abs_def]) (simp add: add.assoc)
qed

lemma decodes_unary: "n \<le> 65535 \<Longrightarrow> decodes unary_zeros (replicate n 0 @ [1]) (int n)"
  using decodes_unary_from [of 0 n 65535] by (simp add: unary_zeros_def [abs_def])

lemma decodes_map:
  assumes "length is = length xs" "\<And>x. x \<in> set xs \<Longrightarrow> decodes f (code x) x"
  shows "decodes (map_s (\<lambda>_. f) is) (concat (map code xs)) xs"
  using assms
proof (induction "is" xs rule: list_induct2)
  case Nil
  show ?case by (simp add: decodes_return)
next
  case (Cons i "is" x xs)
  have "decodes (\<lambda>r. bind_s (f r) (\<lambda>y r. bind_s (map_s (\<lambda>_. f) is r) (\<lambda>ys r. (Inr (y # ys), r))))
      (code x @ concat (map code xs) @ []) (x # xs)"
    by (intro decodes_bind [where x = x] decodes_bind [where x = xs] decodes_return Cons) simp_all
  then show ?case by simp
qed

lemma decodes_fold:
  assumes "length is = length cs" "length cs = length vs"
    "\<And>i a. i < length is \<Longrightarrow> decodes (f a (is ! i)) (cs ! i) (a @ vs ! i)"
  shows "decodes (fold_s f a is) (concat cs) (a @ concat vs)"
  using assms
proof (induction "is" cs vs arbitrary: a rule: list_induct3)
  case Nil
  show ?case by (simp add: decodes_return)
next
  case (Cons i "is" c cs v vs)
  have "decodes (\<lambda>r. bind_s (f a i r) (\<lambda>b r. fold_s f b is r)) (c @ concat cs) ((a @ v) @ concat vs)"
    using Cons.prems [of 0 a] Cons.IH [of "a @ v"] Cons.prems [of "Suc _"] by (intro decodes_bind) auto
  then show ?case by simp
qed

section \<open>Frame numbers\<close>

text \<open>The extended UTF-8 code of a frame number: one byte below 128, otherwise as many leading ones as bytes.\<close>

fun utf8_tail :: "nat \<Rightarrow> int \<Rightarrow> int list" where
  "utf8_tail 0 v = []"
| "utf8_tail (Suc n) v = utf8_tail n (v div 64) @ value_bits 8 (128 + v mod 64)"

definition utf8_bytes :: "int \<Rightarrow> nat" where
  "utf8_bytes v = (if v < 2 ^ 7 then 1 else if v < 2 ^ 11 then 2 else if v < 2 ^ 16 then 3 else if v < 2 ^ 21 then 4
     else if v < 2 ^ 26 then 5 else if v < 2 ^ 31 then 6 else 7)"

definition utf8_lead :: "nat \<Rightarrow> int" where
  "utf8_lead n = 256 - 2 ^ (8 - n)"

definition utf8_code :: "int \<Rightarrow> int list" where
  "utf8_code v =
     (if v < 2 ^ 7 then value_bits 8 v
      else value_bits 8 (utf8_lead (utf8_bytes v) + v div 64 ^ (utf8_bytes v - 1)) @ utf8_tail (utf8_bytes v - 1) v)"

lemma byte_all:
  assumes "list_all P (map int [0..<256])" "0 \<le> (x::int)" "x < 256"
  shows "P x"
proof -
  have "x = int (nat x)" "nat x \<in> set [0..<256]" using assms(2,3) by auto
  then have "x \<in> set (map int [0..<256])" by (metis imageI list.set_map)
  with assms(1) show ?thesis by (auto simp: list_all_iff)
qed

lemma continuation_byte:
  assumes "0 \<le> (x::int)" "x < 256"
  shows "x AND 192 = 128 \<longleftrightarrow> 128 \<le> x \<and> x < 192"
proof -
  have "list_all (\<lambda>x. (x AND 192 = 128) = (128 \<le> x \<and> x < 192)) (map int [0..<256])" by code_simp
  from byte_all [OF this assms] show ?thesis by simp
qed

definition lead_count :: "int \<Rightarrow> int" where
  "lead_count x = (if x < 192 then 1 else if x < 224 then 2 else if x < 240 then 3 else if x < 248 then 4
     else if x < 252 then 5 else if x < 254 then 6 else if x < 255 then 7 else 8)"

lemma utf8_count_byte:
  assumes "128 \<le> x" "x < 256"
  shows "utf8_count x 128 0 = lead_count x"
proof -
  have "list_all (\<lambda>x. x < 128 \<or> utf8_count x 128 0 = lead_count x) (map int [0..<256])" by code_simp
  from byte_all [OF this, of x] assms show ?thesis by auto
qed

lemma utf8_continuation_decodes:
  assumes "0 \<le> v"
  shows "decodes (utf8_continuation (v div 64) i) (value_bits 8 (128 + v mod 64)) v"
proof -
  let ?b = "128 + v mod 64"
  have m: "0 \<le> v mod 64" "v mod 64 < 64" by simp_all
  have b: "0 \<le> ?b" "?b < 256" "128 \<le> ?b" "?b < 192" using m by linarith+
  have top: "?b AND 192 = 128" using continuation_byte [OF b(1,2)] b by simp
  have low: "?b AND 63 = v mod 64" using mod_mult_self3 [of 2 64 "v mod 64"] by (simp add: bit_arith)
  have "shl (v div 64) 6 OR v mod 64 = v" using or_shift_add(2) [of "v mod 64" 6 "v div 64"] m by simp
  then have "decodes (\<lambda>r. bind_s (rd_get 8 4 r) (\<lambda>byte r.
       if byte AND 0xC0 \<noteq> 0x80 then (Inl (codec_fail 4 4 0x17 (byte_offset r - 1) 1), r)
       else (Inr (shl (v div 64) 6 OR (byte AND 0x3F)), r))) (value_bits (nat 8) ?b @ []) v"
    using b top low by (intro decodes_bind [OF decodes_get]) (simp_all add: decodes_return)
  then show ?thesis by (simp add: utf8_continuation_def [abs_def])
qed

lemma fold_s_snoc:
  "fold_s f a (js @ [j]) r = bind_s (fold_s f a js r) (\<lambda>b t. f b j t)"
proof (induction js arbitrary: a r)
  case Nil
  then show ?case by (cases "f a j r"; cases "fst (f a j r)") auto
next
  case (Cons i js)
  then show ?case by (cases "f a i r"; cases "fst (f a i r)") auto
qed

lemma utf8_tail_decodes:
  assumes "0 \<le> v" "length is = n"
  shows "decodes (fold_s utf8_continuation (v div 64 ^ n) is) (utf8_tail n v) v"
  using assms
proof (induction n arbitrary: v "is")
  case 0
  then show ?case by (simp add: decodes_return)
next
  case (Suc n)
  then obtain js j where js: "is = js @ [j]" "length js = n" by (metis length_Suc_conv_rev)
  have d: "v div 64 ^ Suc n = v div 64 div 64 ^ n" by (simp add: zdiv_zmult2_eq)
  have "decodes (\<lambda>r. bind_s (fold_s utf8_continuation (v div 64 div 64 ^ n) js r) (\<lambda>b t. utf8_continuation b j t))
      (utf8_tail n (v div 64) @ value_bits 8 (128 + v mod 64)) v"
    using Suc.prems js by (intro decodes_bind [OF Suc.IH] utf8_continuation_decodes) simp_all
  then show ?case unfolding js(1) fold_s_snoc [abs_def] d by simp
qed

text \<open>Conversely, what was read is what the stream held in front.\<close>

lemma value_bits_of_bits: "set bs \<subseteq> {0, 1} \<Longrightarrow> value_bits (length bs) (bits_value bs) = bs"
proof (induction bs rule: rev_induct)
  case (snoc b bs)
  then have b: "b \<in> {0, 1}" "set bs \<union> set [b] \<subseteq> {0, 1}" by auto
  have "bits_value (bs @ [b]) = bits_value bs * 2 + b"
    using bits_value_append [OF b(2)] bits_value_single [OF b(1)] by simp
  moreover have "(bits_value bs * 2 + b) div 2 = bits_value bs" "(bits_value bs * 2 + b) mod 2 = b" using b(1) by auto
  ultimately show ?case using snoc by simp
qed simp

lemma rd_get_inverse:
  assumes "rd_get w stage r = (Inr v, t)" "rd_valid r"
  shows "0 \<le> v" "v < 2 ^ nat w" "rd_stream r = value_bits (nat w) v @ rd_stream t" "rd_valid t" "rd_data t = rd_data r"
proof -
  note g = rd_get_Inr [OF assms(1)]
  have w: "w \<le> int (length (rd_stream r))" using g(2) assms(2) by (simp add: rd_stream_def rd_valid_def) linarith
  from rd_get_stream [OF assms(2) g(1) w, of stage] assms(1)
  have v: "v = bits_value (take (nat w) (rd_stream r))" "rd_stream t = drop (nat w) (rd_stream r)" "rd_valid t" by auto
  have "set (take (nat w) (rd_stream r)) \<subseteq> {0, 1}"
    using flac_source.stream_bits [OF assms(2)] set_take_subset by fastforce
  from value_bits_of_bits [OF this] w have "value_bits (nat w) v = take (nat w) (rd_stream r)"
    by (simp add: v(1) min_absorb2)
  then show "rd_stream r = value_bits (nat w) v @ rd_stream t" by (simp add: v(2))
  show "rd_valid t" by (rule v(3))
  show "rd_data t = rd_data r" using g(3) by simp
  show "0 \<le> v" "v < 2 ^ nat w"
    using rd_get_post [OF assms(2) g(1), of stage] assms(1) by (simp_all add: rd_post_def)
qed

lemma utf8_continuation_inverse:
  assumes "utf8_continuation a i r = (Inr v, t)" "rd_valid r" "0 \<le> a"
  shows "0 \<le> v \<and> v div 64 = a \<and> rd_stream r = value_bits 8 (128 + v mod 64) @ rd_stream t \<and> rd_valid t"
proof -
  obtain b where g: "rd_get 8 4 r = (Inr b, t)" and c: "b AND 192 = 128" and v: "v = shl a 6 OR (b AND 63)"
    using assms(1) by (auto simp: utf8_continuation_def bind_s_Inr split: if_splits)
  note inv = rd_get_inverse [OF g assms(2)]
  have b: "128 \<le> b" "b < 192" using c continuation_byte [of b] inv(1,2) by auto
  have low: "b AND 63 = b - 128" using b by (simp only: bit_arith) presburger
  have "v = a * 64 + (b - 128)" using or_shift_add(2) [of "b - 128" 6 a] b unfolding v low by simp
  then have "v div 64 = a" "v mod 64 = b - 128" "0 \<le> v" using b assms(3) by auto
  with inv(3,4) show ?thesis by simp
qed

lemma utf8_tail_inverse:
  assumes "fold_s utf8_continuation a is r = (Inr v, t)" "rd_valid r" "0 \<le> a" "length is = n"
  shows "0 \<le> v \<and> v div 64 ^ n = a \<and> rd_stream r = utf8_tail n v @ rd_stream t \<and> rd_valid t"
  using assms
proof (induction n arbitrary: "is" v t)
  case (Suc n)
  then obtain js j where js: "is = js @ [j]" "length js = n" by (metis length_Suc_conv_rev)
  with Suc.prems(1) obtain b u where f: "fold_s utf8_continuation a js r = (Inr b, u)" "utf8_continuation b j u = (Inr v, t)"
    by (auto simp: fold_s_snoc bind_s_Inr)
  from Suc.IH [OF f(1) Suc.prems(2,3) js(2)] have u: "0 \<le> b" "b div 64 ^ n = a" "rd_stream r = utf8_tail n b @ rd_stream u" "rd_valid u"
    by auto
  from utf8_continuation_inverse [OF f(2) u(4,1)] u show ?case by (auto simp: zdiv_zmult2_eq)
qed auto

text \<open>The lead byte determines the number of bytes and the leading bits.\<close>

lemma utf8_bytes_range: "1 \<le> utf8_bytes v" "utf8_bytes v \<le> 7"
  by (auto simp: utf8_bytes_def)

lemma lead_byte:
  assumes "128 \<le> x" "x < 255" "192 \<le> x" "n = nat (lead_count x)"
  shows "2 \<le> n" "n \<le> 7" "int n = lead_count x" "x AND (shl 1 (7 - lead_count x) - 1) = x - utf8_lead n"
    "0 \<le> x - utf8_lead n" "x - utf8_lead n < 2 ^ (7 - n)"
proof -
  have "list_all (\<lambda>x. x < 192 \<or> x = 255 \<or>
      (2 \<le> lead_count x \<and> lead_count x \<le> 7 \<and> x AND (shl 1 (7 - lead_count x) - 1) = x - utf8_lead (nat (lead_count x))
       \<and> 0 \<le> x - utf8_lead (nat (lead_count x)) \<and> x - utf8_lead (nat (lead_count x)) < 2 ^ (7 - nat (lead_count x))))
      (map int [0..<256])" by code_simp
  from byte_all [OF this, of x] assms
  show "2 \<le> n" "n \<le> 7" "int n = lead_count x" "x AND (shl 1 (7 - lead_count x) - 1) = x - utf8_lead n"
    "0 \<le> x - utf8_lead n" "x - utf8_lead n < 2 ^ (7 - n)" by auto
qed

lemma lead_value:
  assumes "2 \<le> n" "n \<le> 7" "0 \<le> w" "w < 2 ^ (7 - n)"
  shows "192 \<le> utf8_lead n + w" "utf8_lead n + w < 255" "lead_count (utf8_lead n + w) = int n"
    "(utf8_lead n + w) AND (shl 1 (7 - int n) - 1) = w"
proof -
  consider "n = 2" | "n = 3" | "n = 4" | "n = 5" | "n = 6" | "n = 7" using assms(1,2) by linarith
  then have c: "192 \<le> utf8_lead n + w \<and> utf8_lead n + w < 255 \<and> lead_count (utf8_lead n + w) = int n"
    by cases (use assms(3,4) in \<open>simp_all add: utf8_lead_def lead_count_def\<close>)
  then show "192 \<le> utf8_lead n + w" "utf8_lead n + w < 255" "lead_count (utf8_lead n + w) = int n" by auto
  from lead_byte(4) [OF _ _ _ refl, of "utf8_lead n + w"] c
  show "(utf8_lead n + w) AND (shl 1 (7 - int n) - 1) = w" by simp
qed

text \<open>A number has the byte count of its code exactly when it fits the code and no shorter one.\<close>

lemma utf8_bytes_iff:
  assumes "0 \<le> v" "2 \<le> n" "n \<le> 7"
  shows "utf8_bytes v = n \<and> v < 2 ^ 36 \<longleftrightarrow>
    v div 64 ^ (n - 1) < 2 ^ (7 - n) \<and> shl 1 (if n = 2 then 7 else 5 * int n - 4) \<le> v \<and> v < 2 ^ 36"
proof -
  consider "n = 2" | "n = 3" | "n = 4" | "n = 5" | "n = 6" | "n = 7" using assms(2,3) by linarith
  then show ?thesis
    by cases (use assms(1) in \<open>auto simp: utf8_bytes_def push_bit_eq_mult div_less_iff_less_mult\<close>)
qed

lemma utf8_integer_decodes:
  assumes "0 \<le> v" "v < 2 ^ 36"
  shows "decodes utf8_integer (utf8_code v) v"
proof -
  let ?k = "\<lambda>first r. if first < 0x80 then (Inr first, r)
       else
         let count = utf8_count first 0x80 0 in
         if count < 2 \<or> count > 7 then (Inl (codec_fail 4 4 0x17 (byte_offset r - 1) 1), r)
         else
           bind_s (fold_s utf8_continuation (first AND (shl 1 (7 - count) - 1)) (py_range 0 (count - 1)) r)
             (\<lambda>v r.
               if v < shl 1 (if count = 2 then 7 else 5 * count - 4) \<or> v \<ge> shl 1 36
               then (Inl (codec_fail 4 4 0x17 (byte_offset r - count) 1), r)
               else (Inr v, r))"
  have "decodes (\<lambda>r. bind_s (rd_get 8 4 r) ?k) (utf8_code v) v"
  proof (cases "v < 2 ^ 7")
    case True
    have "decodes (\<lambda>r. bind_s (rd_get 8 4 r) ?k) (value_bits (nat 8) v @ []) v"
      by (rule decodes_bind [OF decodes_get]) (use True assms in \<open>simp_all add: decodes_return\<close>)
    with True show ?thesis by (simp add: utf8_code_def)
  next
    case False
    define n w b where "n = utf8_bytes v" and "w = v div 64 ^ (n - 1)" and "b = utf8_lead n + w"
    have n: "2 \<le> n" "n \<le> 7" using False by (auto simp: utf8_bytes_def n_def)
    have fits: "w < 2 ^ (7 - n)" "shl 1 (if n = 2 then 7 else 5 * int n - 4) \<le> v"
      using utf8_bytes_iff [OF assms(1) n] assms(2) by (simp_all add: n_def w_def)
    have w: "0 \<le> w" using assms(1) by (simp add: w_def pos_imp_zdiv_nonneg_iff)
    note lead = lead_value [OF n w fits(1), folded b_def]
    have count: "utf8_count b 128 0 = int n" using lead by (subst utf8_count_byte) auto
    have small: "\<not> b < 128" "\<not> (int n < 2 \<or> int n > 7)" using lead n by simp_all
    have two: "int n = 2 \<longleftrightarrow> n = 2" by simp
    have k: "?k b = (\<lambda>r. bind_s (fold_s utf8_continuation w (py_range 0 (int n - 1)) r) (\<lambda>v r.
               if v < shl 1 (if n = 2 then 7 else 5 * int n - 4) \<or> v \<ge> shl 1 36
               then (Inl (codec_fail 4 4 0x17 (byte_offset r - int n) 1), r) else (Inr v, r)))"
      by (simp only: count Let_def small lead(4) if_False two)
    have rest: "decodes (?k b) (utf8_tail (n - 1) v @ []) v"
      unfolding k w_def
      by (rule decodes_bind [OF utf8_tail_decodes [OF assms(1)]])
        (use fits(2) assms(2) n in \<open>simp_all add: decodes_return not_less push_bit_eq_mult\<close>)
    have code: "utf8_code v = value_bits (nat 8) b @ (utf8_tail (n - 1) v @ [])"
      using False by (simp add: utf8_code_def n_def w_def b_def)
    show ?thesis
      unfolding code
      by (rule decodes_bind [where x = b and g = ?k, OF decodes_get rest]) (use lead in simp_all)
  qed
  then show ?thesis by (simp add: utf8_integer_def [abs_def])
qed

lemma utf8_integer_inverse:
  assumes "utf8_integer r = (Inr v, t)" "rd_valid r"
  shows "0 \<le> v \<and> v < 2 ^ 36 \<and> rd_stream r = utf8_code v @ rd_stream t"
proof -
  obtain x u where g: "rd_get 8 4 r = (Inr x, u)" using assms(1) by (auto simp: utf8_integer_def bind_s_Inr)
  note inv = rd_get_inverse [OF g assms(2)]
  show ?thesis
  proof (cases "x < 128")
    case True
    then have "v = x" "t = u" using assms(1) by (simp_all add: utf8_integer_def g)
    with True inv show ?thesis by (simp add: utf8_code_def)
  next
    case False
    have x: "128 \<le> x" "x < 256" using False inv(2) by simp_all
    let ?c = "lead_count x"
    define n where "n = nat ?c"
    have c: "2 \<le> ?c" "?c \<le> 7"
      and f: "fold_s utf8_continuation (x AND (shl 1 (7 - ?c) - 1)) (py_range 0 (?c - 1)) u = (Inr v, t)"
      and m: "shl 1 (if ?c = 2 then 7 else 5 * ?c - 4) \<le> v" "v < shl 1 36"
      using assms(1) False
      by (auto simp: utf8_integer_def g utf8_count_byte [OF x] Let_def bind_s_Inr not_less split: if_splits)
    have x': "192 \<le> x" "x < 255" using c x by (auto simp: lead_count_def split: if_splits)
    note lead = lead_byte [OF x(1) x'(2,1) n_def]
    have len: "length (py_range 0 (?c - 1)) = n - 1" using lead(3) by simp
    from utf8_tail_inverse [OF f inv(4) _ len] lead(4,5)
    have v: "0 \<le> v" "v div 64 ^ (n - 1) = x - utf8_lead n" "rd_stream u = utf8_tail (n - 1) v @ rd_stream t" by auto
    have v36: "v < 2 ^ 36" using m(2) by (simp add: push_bit_eq_mult)
    have "utf8_bytes v = n"
      using utf8_bytes_iff [OF v(1) lead(1,2)] v(2) lead(6) m(1) v36 lead(3) [symmetric] by auto
    moreover have "\<not> v < 2 ^ 7" using \<open>utf8_bytes v = n\<close> lead(1) by (auto simp: utf8_bytes_def)
    ultimately show ?thesis using v v36 inv(3) by (simp add: utf8_code_def)
  qed
qed

lemma rd_eqI:
  assumes "rd_valid t" "rd_valid u" "rd_data t = rd_data u" "rd_stream t = rd_stream u"
  shows "t = (u :: reader)"
proof -
  have "length (rd_stream t) = length (rd_stream u)" using assms(4) by simp
  then have "rd_bit t = rd_bit u" using assms(1-3) by (simp add: rd_stream_def rd_valid_def) linarith
  with assms(3) show ?thesis by simp
qed

lemma decodes_eq:
  assumes "decodes f code v" "rd_valid r" "rd_stream r = code @ rd_stream t" "rd_valid t" "rd_data t = rd_data r"
  shows "f r = (Inr v, t)"
proof -
  obtain u where u: "f r = (Inr v, u)" "rd_valid u" "rd_data u = rd_data r" "rd_stream u = rd_stream t"
    by (rule decodesD [OF assms(1-3)])
  from rd_eqI [OF u(2) assms(4) _ u(4)] u(1,3) assms(5) show ?thesis by simp
qed

text \<open>C29: Frame numbers. The reader accepts exactly the canonical codes: it returns a number if and only if
  the bits in front of it are the shortest code of that number, a number below \<open>2 ^ 36\<close>, and it consumes
  nothing else. Overlong and truncated codes are refused.\<close>

theorem utf8_integer_exact:
  assumes "rd_valid r"
  shows "utf8_integer r = (Inr v, t) \<longleftrightarrow>
    0 \<le> v \<and> v < 2 ^ 36 \<and> rd_stream r = utf8_code v @ rd_stream t \<and> rd_valid t \<and> rd_data t = rd_data r"
proof
  assume u: "utf8_integer r = (Inr v, t)"
  then have "rd_moves r t" using utf8_integer_post [OF assms] by (simp add: rd_post_def)
  with utf8_integer_inverse [OF u assms]
  show "0 \<le> v \<and> v < 2 ^ 36 \<and> rd_stream r = utf8_code v @ rd_stream t \<and> rd_valid t \<and> rd_data t = rd_data r"
    by (simp add: rd_moves_def)
next
  assume v: "0 \<le> v \<and> v < 2 ^ 36 \<and> rd_stream r = utf8_code v @ rd_stream t \<and> rd_valid t \<and> rd_data t = rd_data r"
  then show "utf8_integer r = (Inr v, t)" by (intro decodes_eq [OF utf8_integer_decodes assms]) auto
qed

theorem utf8_integer_exact_witness:
  "utf8_integer (reader_new [0xC2, 0x80] 0) = (Inr 128, \<lparr>rd_data = [0xC2, 0x80], rd_bit = 16\<rparr>)"
proof -
  have "rd_valid (reader_new [0xC2, 0x80] 0)" by (simp add: rd_valid_def reader_new_def)
  from utf8_integer_exact [OF this, of 128 "\<lparr>rd_data = [0xC2, 0x80], rd_bit = 16\<rparr>"]
  show ?thesis
    by (simp add: rd_valid_def reader_new_def) (simp add: rd_stream_def data_bits_def, code_simp)
qed

section \<open>Residuals\<close>

lemma zigzag_unfold: "shr (zigzag v) 1 XOR - (zigzag v AND 1) = v"
proof (cases "v \<ge> 0")
  case True
  then show ?thesis by (simp add: zigzag_def bit_arith)
next
  case False
  then have "zigzag v = 2 * (- v - 1) + 1" by (simp add: zigzag_def)
  then have "shr (zigzag v) 1 = - v - 1" "zigzag v AND 1 = 1"
    unfolding bit_arith by (simp, presburger)
  moreover have "(- v - 1) XOR - 1 = v" by (simp add: bit.xor_one_right not_int_def)
  ultimately show ?thesis by simp
qed

lemma decodes_rice:
  assumes "zigzag v div 2 ^ k \<le> 65535"
  shows "decodes (rice_residual (int k)) (rice_code k v) v"
proof -
  let ?q = "zigzag v div 2 ^ k" and ?m = "zigzag v mod 2 ^ k"
  have q: "0 \<le> ?q" "nat ?q \<le> 65535" "int (nat ?q) = ?q"
    using assms zigzag_nonneg [of v] by (simp_all add: pos_imp_zdiv_nonneg_iff nat_le_iff)
  have m: "0 \<le> ?m" "?m < 2 ^ k" by simp_all
  have joined: "shl ?q (int k) OR ?m = zigzag v"
    using or_shift_add(2) [OF m, of ?q] by (simp only: nat_int div_mult_mod_eq)
  have low: "decodes (\<lambda>r. if int k \<noteq> 0 then rd_get (int k) 5 r else (Inr 0, r)) (value_bits k ?m) ?m"
    using decodes_get [of "int k" ?m 5] m decodes_return [of 0] by (cases "k = 0") simp_all
  have "decodes (\<lambda>r. bind_s (unary_zeros r) (\<lambda>quot r.
      bind_s (if int k \<noteq> 0 then rd_get (int k) 5 r else (Inr 0, r)) (\<lambda>remainder r.
        let folded = shl quot (int k) OR remainder in (Inr (shr folded 1 XOR - (folded AND 1)), r))))
      ((replicate (nat ?q) 0 @ [1]) @ value_bits k ?m @ []) v"
    by (rule decodes_bind [OF decodes_unary [OF q(2)]], rule decodes_bind [OF low])
      (simp only: q(3) Let_def joined zigzag_unfold decodes_return)
  then show ?thesis by (simp add: rice_residual_def [abs_def] rice_code_def)
qed

text \<open>A partition with a Rice parameter, or with raw values of a fixed width.\<close>

datatype residual_part = RicePart nat "int list" | RawPart nat "int list"

primrec part_values :: "residual_part \<Rightarrow> int list" where
  "part_values (RicePart k xs) = xs"
| "part_values (RawPart w xs) = xs"

primrec part_code :: "nat \<Rightarrow> residual_part \<Rightarrow> int list" where
  "part_code pb (RicePart k xs) = value_bits pb (int k) @ concat (map (rice_code k) xs)"
| "part_code pb (RawPart w xs) =
     value_bits pb (2 ^ pb - 1) @ value_bits 5 (int w) @ (if w = 0 then [] else concat (map (value_bits w) xs))"

primrec part_ok :: "nat \<Rightarrow> residual_part \<Rightarrow> bool" where
  "part_ok pb (RicePart k xs) \<longleftrightarrow> int k < 2 ^ pb - 1 \<and> (\<forall>x \<in> set xs. zigzag x div 2 ^ k \<le> 65535)"
| "part_ok pb (RawPart w xs) \<longleftrightarrow> w < 32 \<and> (\<forall>x \<in> set xs. if w = 0 then x = 0 else in_width (int w) x)"

definition residual_code :: "nat \<Rightarrow> nat \<Rightarrow> residual_part list \<Rightarrow> int list" where
  "residual_code coding po parts =
     value_bits 2 (int coding) @ value_bits 4 (int po) @ concat (map (part_code (4 + coding)) parts)"

definition parts_ok :: "int \<Rightarrow> int \<Rightarrow> nat \<Rightarrow> nat \<Rightarrow> residual_part list \<Rightarrow> bool" where
  "parts_ok blocks order coding po parts \<longleftrightarrow> coding \<le> 1 \<and> po \<le> 15 \<and> blocks mod 2 ^ po = 0 \<and> length parts = 2 ^ po
     \<and> (\<forall>j < length parts. part_ok (4 + coding) (parts ! j)
         \<and> int (length (part_values (parts ! j))) = blocks div 2 ^ po - (if j = 0 then order else 0))"

lemma replicate_zeros: "\<forall>x \<in> set xs. x = (0::int) \<Longrightarrow> replicate (length xs) 0 = xs"
  by (simp add: replicate_length_same)

lemma decodes_part:
  assumes "part_ok pb part" "int (length (part_values part)) = blocks div partitions - (if j = 0 then order else 0)"
  shows "decodes (residual_partition blocks order partitions (int pb) acc j) (part_code pb part) (acc @ part_values part)"
proof -
  let ?n = "blocks div partitions - (if j = 0 then order else 0)"
  let ?k = "\<lambda>parameter r. if parameter = shl 1 (int pb) - 1 then
            bind_s (rd_get 5 5 r) (\<lambda>raw_width r.
              if raw_width = 0 then (Inr (acc @ replicate (nat ?n) 0), r)
              else bind_s (map_s (\<lambda>_. rd_signed raw_width) (py_range 0 ?n) r) (\<lambda>xs r. (Inr (acc @ xs), r)))
          else bind_s (map_s (\<lambda>_. rice_residual parameter) (py_range 0 ?n) r) (\<lambda>xs r. (Inr (acc @ xs), r))"
  have n: "0 \<le> ?n" "nat ?n = length (part_values part)" using assms(2) by linarith+
  have unfold: "residual_partition blocks order partitions (int pb) acc j = (\<lambda>r. bind_s (rd_get (int pb) 5 r) ?k)"
    using n(1) by (simp add: residual_partition_def Let_def fun_eq_iff)
  have top: "shl 1 (int pb) - 1 = (2 ^ pb - 1 :: int)" by (simp add: push_bit_eq_mult)
  show ?thesis
  proof (cases part)
    case (RicePart k xs)
    have "decodes (\<lambda>r. bind_s (map_s (\<lambda>_. rice_residual (int k)) (py_range 0 ?n) r) (\<lambda>xs r. (Inr (acc @ xs), r)))
        (concat (map (rice_code k) xs) @ []) (acc @ xs)"
      by (rule decodes_bind [OF decodes_map]) (use assms n RicePart in \<open>auto intro: decodes_rice decodes_return\<close>)
    then have "decodes (?k (int k)) (concat (map (rice_code k) xs)) (acc @ xs)"
      using assms(1) RicePart by (simp add: top)
    moreover have "int k < 2 ^ pb - 1" using assms(1) RicePart by simp
    then have "int k < 2 ^ pb" by linarith
    ultimately show ?thesis
      unfolding unfold RicePart part_code.simps part_values.simps
      by (intro decodes_get_then [where g = ?k and v = "int k"] of_nat_0_le_iff)
  next
    case (RawPart w xs)
    let ?l = "\<lambda>raw_width r.
              if raw_width = 0 then (Inr (acc @ replicate (nat ?n) 0), r)
              else bind_s (map_s (\<lambda>_. rd_signed raw_width) (py_range 0 ?n) r) (\<lambda>xs r. (Inr (acc @ xs), r))"
    have "decodes (?l (int w)) (if w = 0 then [] else concat (map (value_bits w) xs)) (acc @ xs)"
    proof (cases "w = 0")
      case True
      then have "replicate (nat ?n) 0 = xs" using assms(1) RawPart n(2) replicate_zeros [of xs] by simp
      with True show ?thesis by (simp add: decodes_return)
    next
      case False
      have "decodes (\<lambda>r. bind_s (map_s (\<lambda>_. rd_signed (int w)) (py_range 0 ?n) r) (\<lambda>xs r. (Inr (acc @ xs), r)))
          (concat (map (value_bits w) xs) @ []) (acc @ xs)"
        using assms n RawPart False decodes_signed [of "int w"]
        by (intro decodes_bind [OF decodes_map]) (auto intro: decodes_return)
      with False show ?thesis by simp
    qed
    then have "decodes (\<lambda>r. bind_s (rd_get 5 5 r) ?l)
        (value_bits (nat 5) (int w) @ (if w = 0 then [] else concat (map (value_bits w) xs))) (acc @ xs)"
      using assms(1) RawPart by (intro decodes_bind [where x = "int w" and g = ?l, OF decodes_get]) simp_all
    then have "decodes (?k (2 ^ pb - 1))
        (value_bits 5 (int w) @ (if w = 0 then [] else concat (map (value_bits w) xs))) (acc @ xs)"
      by (simp add: top)
    then show ?thesis
      unfolding unfold RawPart part_code.simps part_values.simps
      by (rule decodes_get_then [where g = ?k and v = "2 ^ pb - 1"]) simp_all
  qed
qed

lemma partition_lengths:
  assumes "xs \<noteq> []" "\<forall>j < length xs. int (length (xs ! j)) = q - (if j = 0 then k else 0)"
  shows "int (length (concat xs)) = q * int (length xs) - k"
proof -
  have even: "int (length (concat ys)) = q * int (length ys)" if "\<forall>y \<in> set ys. int (length y) = q" for ys :: "'a list list"
    using that by (induction ys) (auto simp: distrib_left)
  obtain y ys where xs: "xs = y # ys" using assms(1) by (cases xs) auto
  have "\<forall>z \<in> set ys. int (length z) = q"
    using assms(2) [rule_format, of "Suc _"] unfolding xs by (auto simp: in_set_conv_nth)
  with even [of ys] assms(2) show ?thesis by (auto simp: xs distrib_left)
qed

lemma decodes_residuals:
  assumes "parts_ok blocks order coding po parts"
  shows "decodes (residuals blocks order) (residual_code coding po parts) (concat (map part_values parts))"
proof -
  note ok = assms [unfolded parts_ok_def]
  let ?n = "shl 1 (int po)" and ?pb = "4 + int coding"
  let ?vs = "map part_values parts"
  have n: "?n = 2 ^ po" by (simp add: push_bit_eq_mult)
  have fold: "decodes (fold_s (residual_partition blocks order ?n ?pb) [] (py_range 0 ?n))
      (concat (map (part_code (4 + coding)) parts)) ([] @ concat ?vs)"
  proof (rule decodes_fold)
    fix i a assume i: "i < length (py_range 0 ?n)"
    then have l: "i < length parts" using ok n by (simp add: nat_power_eq)
    have "decodes (residual_partition blocks order ?n (int (4 + coding)) a (int i)) (part_code (4 + coding) (parts ! i))
        (a @ part_values (parts ! i))"
      using ok l unfolding n by (intro decodes_part) auto
    moreover have "py_range 0 ?n ! i = int i" using i by (simp add: py_range_def)
    ultimately show "decodes (residual_partition blocks order ?n ?pb a (py_range 0 ?n ! i))
        (map (part_code (4 + coding)) parts ! i) (a @ ?vs ! i)" using l by simp
  qed (use ok n in \<open>simp_all add: nat_power_eq\<close>)
  have "int (length (concat ?vs)) = blocks div 2 ^ po * int (length ?vs) - order"
    using ok by (intro partition_lengths) (auto simp flip: length_greater_0_conv)
  then have len: "int (length (concat ?vs)) = blocks - order"
    using ok by (simp add: dvd_div_mult_self dvd_eq_mod_eq_0)
  let ?k = "\<lambda>coding r. if coding > 1 then (Inl (codec_fail 7 5 0x40 (byte_offset r) 1), r)
       else
         bind_s (rd_get 4 5 r) (\<lambda>partition_order r.
         let partitions = shl 1 partition_order in
         if partition_order > 15 \<or> blocks mod partitions \<noteq> 0
         then (Inl (codec_fail 7 5 0x42 (byte_offset r) 1), r)
         else
           bind_s (fold_s (residual_partition blocks order partitions (4 + coding)) [] (py_range 0 partitions) r)
             (\<lambda>acc r.
               if int (length acc) \<noteq> blocks - order then (Inl (codec_fail 7 5 0x42 (byte_offset r) 1), r)
               else (Inr acc, r)))"
  let ?l = "\<lambda>partition_order r.
         let partitions = shl 1 partition_order in
         if partition_order > 15 \<or> blocks mod partitions \<noteq> 0
         then (Inl (codec_fail 7 5 0x42 (byte_offset r) 1), r)
         else
           bind_s (fold_s (residual_partition blocks order partitions ?pb) [] (py_range 0 partitions) r)
             (\<lambda>acc r.
               if int (length acc) \<noteq> blocks - order then (Inl (codec_fail 7 5 0x42 (byte_offset r) 1), r)
               else (Inr acc, r))"
  have "decodes (\<lambda>r. bind_s (fold_s (residual_partition blocks order ?n ?pb) [] (py_range 0 ?n) r) (\<lambda>acc r.
        if int (length acc) \<noteq> blocks - order then (Inl (codec_fail 7 5 0x42 (byte_offset r) 1), r) else (Inr acc, r)))
      (concat (map (part_code (4 + coding)) parts) @ []) ([] @ concat ?vs)"
    by (rule decodes_bind [OF fold]) (simp only: len append_Nil simp_thms if_False decodes_return)
  then have "decodes (?l (int po)) (concat (map (part_code (4 + coding)) parts) @ []) (concat ?vs)"
    using ok by (simp only: Let_def n append_Nil) simp
  then have "decodes (\<lambda>r. bind_s (rd_get (int 4) 5 r) ?l)
      (value_bits 4 (int po) @ concat (map (part_code (4 + coding)) parts) @ []) (concat ?vs)"
    by (rule decodes_get_then [where g = ?l and v = "int po"]) (use ok in simp_all)
  then have "decodes (?k (int coding))
      (value_bits 4 (int po) @ concat (map (part_code (4 + coding)) parts) @ []) (concat ?vs)"
    using ok by simp
  then have "decodes (\<lambda>r. bind_s (rd_get (int 2) 5 r) ?k)
      (value_bits 2 (int coding) @ value_bits 4 (int po) @ concat (map (part_code (4 + coding)) parts) @ []) (concat ?vs)"
    by (rule decodes_get_then [where g = ?k and v = "int coding"]) (use ok in simp_all)
  then show ?thesis by (simp add: residuals_def [abs_def] residual_code_def)
qed

end
