(* ===== verification/Apu_Flac_Lossless.thy ===== *)
theory Apu_Flac_Lossless
  imports Apu_Flac_Code
begin

text \<open>
  FLAC is lossless: every encoding of a block of samples as a constant, verbatim, fixed-predictor or linear-predictor
  subframe, with any partition of its residuals and any number of wasted bits, decodes to the samples, and a frame of
  such subframes with any channel assignment decodes to its frames.
\<close>

unbundle bit_operations_syntax

section \<open>Prediction and residuals\<close>

definition predicted :: "(int list \<Rightarrow> codec_exn + int) \<Rightarrow> int list \<Rightarrow> int" where
  "predicted predict h = (case predict h of Inr v \<Rightarrow> v | Inl _ \<Rightarrow> 0)"

primrec residual_of :: "(int list \<Rightarrow> int) \<Rightarrow> int list \<Rightarrow> int list \<Rightarrow> int list" where
  "residual_of p h [] = []"
| "residual_of p h (x # xs) = (x - p h) # residual_of p (h @ [x]) xs"

lemma restore_residual:
  assumes "\<And>g. length h \<le> length g \<Longrightarrow> \<exists>v. predict g = Inr v" "\<forall>x \<in> set xs. in_width 32 x"
  shows "restore_samples predict offset h (residual_of (predicted predict) h xs) = Inr (h @ xs)"
  using assms
proof (induction xs arbitrary: h)
  case Nil
  then show ?case by (simp add: restore_samples_def)
next
  case (Cons x xs)
  obtain v where v: "predict h = Inr v" using Cons.prems(1) by blast
  have "signed_range (v + (x - v)) 32 offset = Inr x" using Cons.prems(2) by (simp add: signed_range_Inr)
  moreover have "restore_samples predict offset (h @ [x]) (residual_of (predicted predict) (h @ [x]) xs) = Inr ((h @ [x]) @ xs)"
    using Cons.prems by (intro Cons.IH) auto
  moreover have "predicted predict h = v" by (simp add: predicted_def v)
  ultimately show ?case by (simp add: restore_samples_def v)
qed

section \<open>Subframes\<close>

datatype sub_encoding =
    EncConstant
  | EncVerbatim
  | EncFixed nat nat nat "residual_part list"
  | EncLpc nat nat int "int list" nat nat "residual_part list"

primrec encoding_kind :: "sub_encoding \<Rightarrow> int" where
  "encoding_kind EncConstant = 0"
| "encoding_kind EncVerbatim = 1"
| "encoding_kind (EncFixed order coding po parts) = 8 + int order"
| "encoding_kind (EncLpc order precision shift cs coding po parts) = 31 + int order"

abbreviation signed_codes :: "nat \<Rightarrow> int list \<Rightarrow> int list" where
  "signed_codes w xs \<equiv> concat (map (value_bits w) xs)"

primrec encoding_body :: "nat \<Rightarrow> int list \<Rightarrow> sub_encoding \<Rightarrow> int list" where
  "encoding_body w xs EncConstant = value_bits w (hd xs)"
| "encoding_body w xs EncVerbatim = signed_codes w xs"
| "encoding_body w xs (EncFixed order coding po parts) = signed_codes w (take order xs) @ residual_code coding po parts"
| "encoding_body w xs (EncLpc order precision shift cs coding po parts) =
     signed_codes w (take order xs) @ value_bits 4 (int precision - 1) @ value_bits 5 shift @ signed_codes precision cs
     @ residual_code coding po parts"

text \<open>The side conditions of an encoder: the samples fit the width, the partitions hold the residuals of the predictor.\<close>

primrec encoding_ok :: "int list \<Rightarrow> sub_encoding \<Rightarrow> bool" where
  "encoding_ok xs EncConstant \<longleftrightarrow> (\<forall>x \<in> set xs. x = hd xs)"
| "encoding_ok xs EncVerbatim \<longleftrightarrow> True"
| "encoding_ok xs (EncFixed order coding po parts) \<longleftrightarrow> order \<le> 4 \<and> order \<le> length xs
     \<and> parts_ok (int (length xs)) (int order) coding po parts
     \<and> concat (map part_values parts) = residual_of (predicted (fixed_predict (int order))) (take order xs) (drop order xs)"
| "encoding_ok xs (EncLpc order precision shift cs coding po parts) \<longleftrightarrow> 1 \<le> order \<and> order \<le> 32 \<and> order \<le> length xs
     \<and> 1 \<le> precision \<and> precision \<le> 15 \<and> in_width 5 shift \<and> length cs = order
     \<and> (\<forall>c \<in> set cs. in_width (int precision) c) \<and> parts_ok (int (length xs)) (int order) coding po parts
     \<and> concat (map part_values parts) =
         residual_of (predicted (lpc_predict cs shift (int order))) (take order xs) (drop order xs)"

definition subframe_code :: "nat \<Rightarrow> nat \<Rightarrow> int list \<Rightarrow> sub_encoding \<Rightarrow> int list" where
  "subframe_code bits wasted xs enc =
     [0] @ value_bits 6 (encoding_kind enc) @ (if wasted = 0 then [0] else [1] @ replicate (wasted - 1) 0 @ [1])
     @ encoding_body (bits - wasted) xs enc"

lemma decodes_signed_list:
  assumes "1 \<le> w" "length is = length xs" "\<forall>x \<in> set xs. in_width (int w) x"
  shows "decodes (map_s (\<lambda>_. rd_signed (int w)) is) (signed_codes w xs) xs"
  using decodes_signed [of "int w"] assms by (intro decodes_map) auto

lemma decodes_fixed:
  assumes "1 \<le> w" "\<forall>x \<in> set xs. in_width (int w) x \<and> in_width 32 x" "encoding_ok xs (EncFixed order coding po parts)"
  shows "decodes (fixed_subframe (int order) (int (length xs)) (int w) offset)
    (encoding_body w xs (EncFixed order coding po parts)) xs"
proof -
  have ok: "order \<le> 4" "order \<le> length xs" "parts_ok (int (length xs)) (int order) coding po parts"
    "concat (map part_values parts) = residual_of (predicted (fixed_predict (int order))) (take order xs) (drop order xs)"
    using assms(3) by simp_all
  have p: "\<exists>v. fixed_predict (int order) g = Inr v" if "length (take order xs) \<le> length g" for g
    using fixed_predict_ok [of "int order" g] that ok(1,2) by simp
  have d: "\<forall>x \<in> set (drop order xs). in_width 32 x" using assms(2) by (auto dest: in_set_dropD)
  have restore: "restore_samples (fixed_predict (int order)) offset (take order xs) (concat (map part_values parts)) = Inr xs"
    unfolding ok(4) using restore_residual [where predict = "fixed_predict (int order)" and h = "take order xs", OF p d] by simp
  have warm: "decodes (map_s (\<lambda>_. rd_signed (int w)) (py_range 0 (int order))) (signed_codes w (take order xs)) (take order xs)"
    using assms(1,2) ok(2) by (intro decodes_signed_list) (auto dest: in_set_takeD)
  have "decodes (\<lambda>r. bind_s (map_s (\<lambda>_. rd_signed (int w)) (py_range 0 (int order)) r) (\<lambda>samples r.
        bind_s (residuals (int (length xs)) (int order) r) (\<lambda>rs r.
          lift_s (restore_samples (fixed_predict (int order)) offset samples rs) r)))
      (signed_codes w (take order xs) @ residual_code coding po parts @ []) xs"
    by (rule decodes_bind [OF warm], rule decodes_bind [OF decodes_residuals [OF ok(3)]], rule decodes_lift [OF restore])
  then show ?thesis using ok(2) by (simp add: fixed_subframe_def [abs_def])
qed

lemma decodes_lpc:
  assumes "1 \<le> w" "\<forall>x \<in> set xs. in_width (int w) x \<and> in_width 32 x"
    "encoding_ok xs (EncLpc order precision shift cs coding po parts)"
  shows "decodes (lpc_subframe (int order) (int (length xs)) (int w) offset)
    (encoding_body w xs (EncLpc order precision shift cs coding po parts)) xs"
proof -
  have ok: "order \<le> length xs" "1 \<le> precision" "precision \<le> 15" "in_width 5 shift" "length cs = order"
    "\<forall>c \<in> set cs. in_width (int precision) c" "parts_ok (int (length xs)) (int order) coding po parts"
    "concat (map part_values parts) = residual_of (predicted (lpc_predict cs shift (int order))) (take order xs) (drop order xs)"
    using assms(3) by simp_all
  have p: "\<exists>v. lpc_predict cs shift (int order) g = Inr v" if "length (take order xs) \<le> length g" for g
    using lpc_predict_ok [of "int order" g cs shift] that ok(1,5) by simp
  have d: "\<forall>x \<in> set (drop order xs). in_width 32 x" using assms(2) by (auto dest: in_set_dropD)
  have restore: "restore_samples (lpc_predict cs shift (int order)) offset (take order xs) (concat (map part_values parts)) = Inr xs"
    unfolding ok(8) using restore_residual [where predict = "lpc_predict cs shift (int order)" and h = "take order xs", OF p d]
    by simp
  let ?k = "\<lambda>samples p r. let precision = p + 1 in
        if precision = 16 then (Inl (codec_fail 7 5 0x40 (byte_offset r) 1), r)
        else
          bind_s (rd_signed 5 r) (\<lambda>shift r.
          bind_s (map_s (\<lambda>_. rd_signed precision) (py_range 0 (int order)) r) (\<lambda>coefficients r.
          bind_s (residuals (int (length xs)) (int order) r) (\<lambda>rs r.
            lift_s (restore_samples (lpc_predict coefficients shift (int order)) offset samples rs) r)))"
  have warm: "decodes (map_s (\<lambda>_. rd_signed (int w)) (py_range 0 (int order))) (signed_codes w (take order xs)) (take order xs)"
    using assms(1,2) ok(1) by (intro decodes_signed_list) (auto dest: in_set_takeD)
  have coefs: "decodes (map_s (\<lambda>_. rd_signed (int precision)) (py_range 0 (int order))) (signed_codes precision cs) cs"
    using ok(2,5,6) by (intro decodes_signed_list) simp_all
  have sh: "decodes (rd_signed 5) (value_bits (nat 5) shift) shift" by (rule decodes_signed [OF _ ok(4)]) simp
  have "decodes (\<lambda>r. bind_s (rd_signed 5 r) (\<lambda>shift r.
          bind_s (map_s (\<lambda>_. rd_signed (int precision)) (py_range 0 (int order)) r) (\<lambda>coefficients r.
          bind_s (residuals (int (length xs)) (int order) r) (\<lambda>rs r.
            lift_s (restore_samples (lpc_predict coefficients shift (int order)) offset (take order xs) rs) r))))
      (value_bits (nat 5) shift @ signed_codes precision cs @ residual_code coding po parts @ []) xs"
    by (rule decodes_bind [OF sh], rule decodes_bind [OF coefs], rule decodes_bind [OF decodes_residuals [OF ok(7)]],
        rule decodes_lift [OF restore])
  then have "decodes (?k (take order xs) (int precision - 1))
      (value_bits 5 shift @ signed_codes precision cs @ residual_code coding po parts) xs"
    using ok(3) by (simp add: Let_def)
  then have "decodes (\<lambda>r. bind_s (rd_get (int 4) 5 r) (?k (take order xs)))
      (value_bits 4 (int precision - 1) @ value_bits 5 shift @ signed_codes precision cs @ residual_code coding po parts) xs"
    by (rule decodes_get_then [where g = "?k (take order xs)" and v = "int precision - 1"]) (use ok(2,3) in simp_all)
  then have "decodes (\<lambda>r. bind_s (map_s (\<lambda>_. rd_signed (int w)) (py_range 0 (int order)) r) (\<lambda>samples r.
        bind_s (rd_get (int 4) 5 r) (?k samples)))
      (signed_codes w (take order xs) @ value_bits 4 (int precision - 1) @ value_bits 5 shift @ signed_codes precision cs
        @ residual_code coding po parts) xs"
    by (rule decodes_bind [where x = "take order xs", OF warm])
  then show ?thesis using ok(1) by (simp add: lpc_subframe_def [abs_def])
qed

lemma decodes_samples:
  assumes "1 \<le> w" "\<forall>x \<in> set xs. in_width (int w) x \<and> in_width 32 x" "encoding_ok xs enc" "xs \<noteq> []"
  shows "decodes (subframe_samples (encoding_kind enc) (int (length xs)) (int w) offset) (encoding_body w xs enc) xs"
proof (cases enc)
  case EncConstant
  have "decodes (\<lambda>r. bind_s (rd_signed (int w) r) (\<lambda>v r. (Inr (replicate (length xs) v), r))) (value_bits (nat (int w)) (hd xs) @ [])
      (replicate (length xs) (hd xs))"
    using assms by (intro decodes_bind [OF decodes_signed]) (auto intro: decodes_return)
  moreover have "replicate (length xs) (hd xs) = xs"
    using assms(3) EncConstant by (simp add: replicate_length_same)
  ultimately show ?thesis using EncConstant by (simp add: subframe_samples_def [abs_def])
next
  case EncVerbatim
  then show ?thesis using decodes_signed_list [of w "py_range 0 (int (length xs))" xs] assms
    by (simp add: subframe_samples_def [abs_def])
next
  case (EncFixed order coding po parts)
  then show ?thesis using decodes_fixed [OF assms(1,2) assms(3) [unfolded EncFixed]] assms(3)
    by (simp add: subframe_samples_def [abs_def])
next
  case (EncLpc order precision shift cs coding po parts)
  then show ?thesis using decodes_lpc [OF assms(1,2) assms(3) [unfolded EncLpc]] assms(3)
    by (simp add: subframe_samples_def [abs_def])
qed

lemma decodes_offset: "(\<And>offset. decodes (f offset) code v) \<Longrightarrow> decodes (\<lambda>r. f (g r) r) code v"
  by (simp add: decodes_def)

lemma encoding_kind_range: "encoding_ok xs enc \<Longrightarrow> 0 \<le> encoding_kind enc \<and> encoding_kind enc < 64"
  by (cases enc) auto

lemma decodes_wasted:
  assumes "wasted \<le> 65536" "decodes (k (int wasted)) code v"
  shows "decodes (\<lambda>r. bind_s (rd_get 1 5 r) (\<lambda>flag r.
      bind_s (if flag \<noteq> 0 then bind_s (unary_zeros r) (\<lambda>n r. (Inr (n + 1), r)) else (Inr 0, r)) k))
    ((if wasted = 0 then [0] else [1] @ replicate (wasted - 1) 0 @ [1]) @ code) v"
proof -
  let ?g = "\<lambda>(flag :: int) r. bind_s (if flag \<noteq> 0 then bind_s (unary_zeros r) (\<lambda>n r. (Inr (n + 1), r)) else (Inr 0, r)) k"
  show ?thesis
  proof (cases "wasted = 0")
    case True
    have "decodes (?g 0) code v" using assms(2) True by simp
    then have "decodes (\<lambda>r. bind_s (rd_get (int 1) 5 r) ?g) (value_bits 1 0 @ code) v"
      by (rule decodes_get_then [where g = ?g and v = 0]) simp_all
    with True show ?thesis by simp
  next
    case False
    have "decodes (\<lambda>r. bind_s (unary_zeros r) (\<lambda>n r. (Inr (n + 1), r))) ((replicate (wasted - 1) 0 @ [1]) @ []) (int wasted)"
      by (rule decodes_bind [OF decodes_unary]) (use assms(1) False in \<open>auto simp: of_nat_diff decodes_return\<close>)
    from decodes_bind [where g = k and x = "int wasted", OF this assms(2)] have "decodes (?g 1) ((replicate (wasted - 1) 0 @ [1]) @ code) v" by simp
    then have "decodes (\<lambda>r. bind_s (rd_get (int 1) 5 r) ?g) (value_bits 1 1 @ (replicate (wasted - 1) 0 @ [1]) @ code) v"
      by (rule decodes_get_then [where g = ?g and v = 1]) simp_all
    with False show ?thesis by simp
  qed
qed

lemma decodes_subframe:
  assumes "1 \<le> w" "wasted \<le> 65536" "xs \<noteq> []" "encoding_ok xs enc"
    "\<forall>x \<in> set xs. in_width (int w) x \<and> in_width 32 x \<and> in_width 32 (x * 2 ^ wasted)"
  shows "decodes (subframe (int (length xs)) (int (w + wasted))) (subframe_code (w + wasted) wasted xs enc)
    (map (\<lambda>x. x * 2 ^ wasted) xs)"
proof -
  let ?bits = "int (w + wasted)" and ?n = "int (length xs)" and ?v = "map (\<lambda>x. x * 2 ^ wasted) xs"
  let ?t = "\<lambda>offset kind wasted r. let coded_bits = ?bits - wasted in
          if coded_bits < 1 then (Inl (codec_fail 7 5 0x41 offset 1), r)
          else
            bind_s (subframe_samples kind ?n coded_bits offset r) (\<lambda>samples r.
              lift_s (map_r (\<lambda>sample. signed_range (shl sample wasted) 32 offset) samples) r)"
  let ?w = "\<lambda>offset kind r. bind_s (rd_get 1 5 r) (\<lambda>wasted_flag r.
          bind_s (if wasted_flag \<noteq> 0 then bind_s (unary_zeros r) (\<lambda>n r. (Inr (n + 1), r)) else (Inr 0, r))
            (?t offset kind))"
  let ?p = "\<lambda>offset pad r. if pad \<noteq> 0 then (Inl (codec_fail 4 5 0x40 offset 1), r)
        else bind_s (rd_get 6 5 r) (?w offset)"
  have kind: "0 \<le> encoding_kind enc" "encoding_kind enc < 64" using encoding_kind_range [OF assms(4)] by auto
  have "decodes (\<lambda>r. bind_s (rd_get 1 5 r) (?p offset)) (subframe_code (w + wasted) wasted xs enc) ?v" for offset
  proof -
    have scaled: "map_r (\<lambda>sample. signed_range (shl sample (int wasted)) 32 offset) xs = Inr ?v"
      using assms(5) by (intro map_r_ok) (simp add: signed_range_Inr push_bit_eq_mult)
    have "decodes (\<lambda>r. bind_s (subframe_samples (encoding_kind enc) ?n (int w) offset r) (\<lambda>samples r.
              lift_s (map_r (\<lambda>sample. signed_range (shl sample (int wasted)) 32 offset) samples) r))
        (encoding_body w xs enc @ []) ?v"
      by (rule decodes_bind [OF decodes_samples [OF assms(1) _ assms(4,3)]]) (use assms(5) decodes_lift [OF scaled] in auto)
    then have "decodes (?t offset (encoding_kind enc) (int wasted)) (encoding_body w xs enc) ?v"
      using assms(1) by (simp add: Let_def)
    then have "decodes (?w offset (encoding_kind enc))
        ((if wasted = 0 then [0] else [1] @ replicate (wasted - 1) 0 @ [1]) @ encoding_body w xs enc) ?v"
      by (rule decodes_wasted [where k = "?t offset (encoding_kind enc)", OF assms(2)])
    then have "decodes (\<lambda>r. bind_s (rd_get (int 6) 5 r) (?w offset)) (value_bits 6 (encoding_kind enc)
        @ (if wasted = 0 then [0] else [1] @ replicate (wasted - 1) 0 @ [1]) @ encoding_body w xs enc) ?v"
      by (rule decodes_get_then [where g = "?w offset" and v = "encoding_kind enc"]) (use kind in simp_all)
    then have "decodes (?p offset 0) (value_bits 6 (encoding_kind enc)
        @ (if wasted = 0 then [0] else [1] @ replicate (wasted - 1) 0 @ [1]) @ encoding_body w xs enc) ?v" by simp
    then have "decodes (\<lambda>r. bind_s (rd_get (int 1) 5 r) (?p offset)) (value_bits 1 0 @ value_bits 6 (encoding_kind enc)
        @ (if wasted = 0 then [0] else [1] @ replicate (wasted - 1) 0 @ [1]) @ encoding_body w xs enc) ?v"
      by (rule decodes_get_then [where g = "?p offset" and v = 0]) simp_all
    then show ?thesis by (simp add: subframe_code_def)
  qed
  from decodes_offset [OF this, of "\<lambda>offset. offset" byte_offset] show ?thesis
    by (simp only: subframe_def [abs_def] Let_def)
qed

section \<open>Bits as bytes\<close>

function pack_bits :: "int list \<Rightarrow> bytes" where
  "pack_bits bs = (if length bs < 8 then [] else word_of_int (bits_value (take 8 bs)) # pack_bits (drop 8 bs))"
  by pat_completeness auto

termination by (relation "measure length") auto

declare pack_bits.simps [simp del]

lemma data_bits_append: "data_bits (xs @ ys) = data_bits xs @ data_bits ys"
  by (simp add: data_bits_def)

lemma data_bits_pack:
  assumes "length bs mod 8 = 0" "set bs \<subseteq> {0, 1}"
  shows "data_bits (pack_bits bs) = bs"
  using assms
proof (induction bs rule: pack_bits.induct)
  case (1 bs)
  show ?case
  proof (cases "length bs < 8")
    case True
    then have "bs = []" using 1(2) by auto
    then show ?thesis by (simp add: pack_bits.simps data_bits_def)
  next
    case False
    have t: "set (take 8 bs) \<subseteq> {0, 1}" "set (drop 8 bs) \<subseteq> {0, 1}" "length (take 8 bs) = 8"
      using 1(3) False by (auto dest: in_set_takeD in_set_dropD)
    have bits: "value_bits 8 (bits_value (take 8 bs)) = take 8 bs" using value_bits_of_bits [OF t(1)] t(3) by simp
    have "data_bits (pack_bits (drop 8 bs)) = drop 8 bs"
      using 1(1) [OF False _ t(2)] 1(2) False by (simp add: mod_if)
    moreover have "byte_bits (uint (word_of_int (bits_value (take 8 bs)) :: 8 word)) = take 8 bs"
      using bits value_bits_mod [of 8 "bits_value (take 8 bs)"] by (simp add: byte_bits_value uint_word8_of_int)
    ultimately show ?thesis using False by (subst pack_bits.simps) (simp add: data_bits_def)
  qed
qed

lemma data_bits_pack_append: "length bs mod 8 = 0 \<Longrightarrow> set bs \<subseteq> {0, 1} \<Longrightarrow> data_bits (pack_bits bs @ ys) = bs @ data_bits ys"
  by (simp add: data_bits_append data_bits_pack)

lemma length_pack_bits:
  assumes "length bs mod 8 = 0" "set bs \<subseteq> {0, 1}"
  shows "8 * length (pack_bits bs) = length bs"
  using arg_cong [OF data_bits_pack [OF assms], of length] by simp

text \<open>A reader placed behind a prefix sees the bits of what follows.\<close>

lemma rd_stream_behind: "rd_stream (reader_new (pre @ ys) (int (length pre))) = data_bits ys"
proof -
  have "nat (int (length pre) * 8) = 8 * length pre" by linarith
  then show ?thesis by (simp add: rd_stream_def reader_new_def data_bits_append)
qed

lemma rd_at:
  assumes "rd_valid r" "rd_data r = pre @ ys" "rd_stream r = data_bits ys"
  shows "r = reader_new (pre @ ys) (int (length pre))"
  using assms by (intro rd_eqI) (auto simp: rd_stream_behind, auto simp: rd_valid_def reader_new_def)

lemma byte_offset_new [simp]: "byte_offset (reader_new data n) = n"
  by (simp add: byte_offset_def reader_new_def)

lemma py_slice_middle: "py_slice (pre @ xs @ ys) (int (length pre)) (int (length pre) + int (length xs)) = xs"
  by (simp add: py_slice_def)

section \<open>Frames\<close>

definition header_code :: "int \<Rightarrow> int \<Rightarrow> int \<Rightarrow> int \<Rightarrow> int list" where
  "header_code strategy assignment number blocks =
     value_bits 14 0x3FFE @ value_bits 1 0 @ value_bits 1 strategy @ value_bits 4 7 @ value_bits 4 0
     @ value_bits 4 assignment @ value_bits 3 0 @ value_bits 1 0 @ utf8_code number @ value_bits 16 (blocks - 1)"

lemma decodes_if: "decodes f c v \<Longrightarrow> \<not> b \<Longrightarrow> decodes (\<lambda>r. if b then e r else f r) c v"
  by simp

lemma decodes_field:
  "0 \<le> w \<Longrightarrow> n = nat w \<Longrightarrow> 0 \<le> v \<Longrightarrow> v < 2 ^ n \<Longrightarrow> decodes (rd_get w stage) (value_bits n v) v"
  by (simp add: decodes_get)

lemma decodes_sync: "decodes sync_ok (value_bits 14 0x3FFE @ value_bits 1 0) True"
proof -
  let ?g = "\<lambda>sync r. if sync \<noteq> 0x3FFE then (Inr False, r)
      else bind_s (rd_get 1 4 r) (\<lambda>reserved r. (Inr (reserved = 0), r))"
  have "decodes (\<lambda>r. bind_s (rd_get (int 1) 4 r) (\<lambda>reserved r. (Inr (reserved = 0), r))) (value_bits 1 0 @ []) True"
    by (rule decodes_get_then) (simp_all add: decodes_return)
  then have "decodes (?g 0x3FFE) (value_bits 1 0) True" by simp
  then have "decodes (\<lambda>r. bind_s (rd_get (int 14) 4 r) ?g) (value_bits 14 0x3FFE @ value_bits 1 0) True"
    by (rule decodes_get_then [where g = ?g and v = "0x3FFE"]) simp_all
  then show ?thesis by (simp add: sync_ok_def [abs_def])
qed

definition frame_meta_ok :: "flac_meta \<Rightarrow> int \<Rightarrow> int \<Rightarrow> bool" where
  "frame_meta_ok meta assignment blocks \<longleftrightarrow> assignment \<in> {0, 1, 8, 9, 10} \<and> fm_channels meta = (if assignment = 0 then 1 else 2)
     \<and> 1 \<le> blocks \<and> blocks \<le> (if assignment = 0 then 4096 else 2048)"

lemma decodes_frame_head:
  assumes "frame_meta_ok meta assignment blocks" "strategy \<in> {0, 1}" "0 \<le> number" "number < 2 ^ 36"
  shows "decodes (frame_head meta (Some number) start) (header_code strategy assignment number blocks)
    \<lparr>fh_strategy = strategy, fh_assignment = assignment, fh_number = number, fh_block_size = blocks,
     fh_channels = fm_channels meta, fh_bits = fm_bits meta\<rparr>" (is "decodes _ _ ?h")
proof -
  note ok = assms(1) [unfolded frame_meta_ok_def]
  have b16: "0 \<le> blocks - 1" "blocks - 1 < 2 ^ 16" using ok by (auto split: if_splits)
  have bs: "decodes (block_size 7) (value_bits 16 (blocks - 1) @ []) blocks"
  proof -
    have "decodes (\<lambda>r. bind_s (rd_get (int 16) 4 r) (\<lambda>v r. (Inr (v + 1), r))) (value_bits 16 (blocks - 1) @ []) blocks"
      by (rule decodes_get_then) (use b16 in \<open>simp_all add: decodes_return\<close>)
    then show ?thesis by (simp add: block_size_def [abs_def])
  qed
  have checks: "flac_header_checks meta start (Some number) e ?h (fm_rate meta) = Inr ()" for e
    using ok by (auto simp: flac_header_checks_def first_error_Inr raise_if_Inr split: if_splits)
  have ch: "(if assignment \<le> 7 then assignment + 1 else 2) = fm_channels meta" using ok by (auto split: if_splits)
  have tail: "decodes (\<lambda>r. bind_s (utf8_integer r) (\<lambda>number' r.
           bind_s (block_size 7 r) (\<lambda>blocks r.
           bind_s (sample_rate 0 (fm_rate meta) r) (\<lambda>rate r.
           bind_s (lift_s (sample_bits 0 (fm_bits meta) start) r) (\<lambda>bits r.
           let h = \<lparr>fh_strategy = strategy, fh_assignment = assignment, fh_number = number', fh_block_size = blocks,
                    fh_channels = (if assignment \<le> 7 then assignment + 1 else 2), fh_bits = bits\<rparr> in
           bind_s (lift_s (flac_header_checks meta start (Some number) (byte_offset r) h rate) r) (\<lambda>_ r.
             (Inr h, r)))))))
      (utf8_code number @ (value_bits 16 (blocks - 1) @ []) @ [] @ [] @ []) ?h"
    unfolding ch Let_def
    by (rule decodes_bind [OF utf8_integer_decodes [OF assms(3,4)]], rule decodes_bind [OF bs],
        rule decodes_bind [where x = "fm_rate meta"], simp add: sample_rate_def decodes_return,
        rule decodes_bind [where x = "fm_bits meta"], rule decodes_lift, simp add: sample_bits_def)
      (simp add: lift_s_def checks decodes_return)
  show ?thesis
    unfolding frame_head_def [abs_def] header_code_def append_assoc [symmetric, of "value_bits 14 _"]
    apply (rule decodes_bind [OF decodes_sync])
    apply (subst if_not_P, simp)
    apply (rule decodes_bind, rule decodes_field, simp, simp, use assms(2) in force, use assms(2) in force)
    apply (rule decodes_bind, rule decodes_field, simp, simp, simp, simp)
    apply (rule decodes_bind, rule decodes_field, simp, simp, simp, simp)
    apply (rule decodes_bind, rule decodes_field, simp, simp, use ok in force, use ok in force)
    apply (rule decodes_bind, rule decodes_field, simp, simp, simp, simp)
    apply (rule decodes_bind, rule decodes_field, simp, simp, simp, simp)
    using tail by simp
qed

text \<open>The signals of the channels under an assignment, and their widths.\<close>

definition planar_of :: "int \<Rightarrow> int list list \<Rightarrow> int list list" where
  "planar_of a frames =
     (let left = map (\<lambda>f. f ! 0) frames; right = map (\<lambda>f. f ! 1) frames; side = map (\<lambda>f. f ! 0 - f ! 1) frames in
      if a = 0 then [left] else if a = 1 then [left, right] else if a = 8 then [left, side]
      else if a = 9 then [side, right] else [map (\<lambda>f. (f ! 0 + f ! 1) div 2) frames, side])"

definition planar_widths :: "int \<Rightarrow> int \<Rightarrow> int list" where
  "planar_widths a bits =
     (if a = 0 then [bits] else if a = 1 then [bits, bits] else if a = 9 then [bits + 1, bits] else [bits, bits + 1])"

lemma mid_side:
  fixes x y :: int
  shows "shl ((x + y) div 2) 1 OR ((x - y) AND 1) = x + y"
proof -
  have p: "(x - y) mod 2 = (x + y) mod 2" by presburger
  have "shl ((x + y) div 2) 1 OR ((x - y) AND 1) = (x + y) div 2 * 2 + (x - y) mod 2"
    using or_shift_add(2) [of "(x - y) mod 2" 1 "(x + y) div 2"] by (simp add: bit_arith)
  then show ?thesis unfolding p by simp
qed

lemma stereo_values_planar:
  assumes "a \<in> {0, 1, 8, 9, 10}" "channels = (if a = 0 then 1 else 2)" "i < length frames" "int (length (frames ! i)) = channels"
  shows "stereo_values a channels (planar_of a frames) (int i) = Inr (frames ! i)"
proof -
  have two: "[f ! 0, f ! 1] = f" if "length f = 2" for f :: "int list"
    using that by (cases f; cases "tl f") auto
  have one: "[f ! 0] = f" if "length f = 1" for f :: "int list"
    using that by (cases f) auto
  let ?f = "frames ! i"
  have half: "shr (x + y + (x - y)) 1 = x" "shr (x + y - (x - y)) 1 = y" for x y :: int
    by (simp_all add: bit_arith)
  have range: "py_range 0 1 = [0]" "py_range 0 2 = [0, 1]" by (simp_all add: py_range_def numeral_2_eq_2)
  consider "a = 0" | "a = 1" | "a = 8" | "a = 9" | "a = 10" using assms(1) by blast
  then show ?thesis
  proof cases
    case 1
    then show ?thesis using assms one [of ?f]
      by (simp add: stereo_values_def planar_of_def codec_nth_def range bind_r_def)
  next
    case 5
    then show ?thesis using assms two [of ?f] half [of "?f ! 0" "?f ! 1"] mid_side [of "?f ! 0" "?f ! 1"]
      by (simp add: stereo_values_def planar_of_def codec_nth_def bind_r_def Let_def)
  qed (use assms two [of ?f] in
    \<open>simp_all add: stereo_values_def planar_of_def codec_nth_def range bind_r_def Let_def\<close>)
qed

lemma frame_values_planar:
  assumes "a \<in> {0, 1, 8, 9, 10}" "channels = (if a = 0 then 1 else 2)" "frames_ok channels bits frames"
  shows "frame_values a channels (int (length frames)) bits start (planar_of a frames) = Inr frames"
proof -
  have "map_r (\<lambda>index. bind_r (stereo_values a channels (planar_of a frames) index) (map_r (\<lambda>v. signed_range v bits start)))
      (py_range 0 (int (length frames))) = Inr (map (\<lambda>i. frames ! nat i) (py_range 0 (int (length frames))))"
  proof (rule map_r_ok)
    fix x assume "x \<in> set (py_range 0 (int (length frames)))"
    then have x: "nat x < length frames" "int (nat x) = x" by auto
    let ?f = "frames ! nat x"
    have f: "int (length ?f) = channels" "\<forall>v \<in> set ?f. in_width bits v"
      using assms(3) nth_mem [OF x(1)] by (auto simp: frames_ok_def)
    have "map_r (\<lambda>v. signed_range v bits start) ?f = Inr (map (\<lambda>v. v) ?f)"
      using f(2) by (intro map_r_ok) (simp add: signed_range_Inr)
    then show "bind_r (stereo_values a channels (planar_of a frames) x) (map_r (\<lambda>v. signed_range v bits start)) = Inr ?f"
      using stereo_values_planar [OF assms(1,2) x(1) f(1)] x(2) by simp
  qed
  moreover have "map (\<lambda>i. frames ! nat i) (py_range 0 (int (length frames))) = frames"
    by (simp add: py_range_def comp_def map_nth)
  ultimately show ?thesis by (simp add: frame_values_def)
qed

text \<open>A subframe with its wasted bits; \<open>sub_ok\<close> is what an encoder has to observe.\<close>

type_synonym sub = "nat \<times> int list \<times> sub_encoding"

fun sub_ok :: "int \<Rightarrow> int list \<Rightarrow> sub \<Rightarrow> bool" where
  "sub_ok bits xs (wasted, ys, enc) \<longleftrightarrow> xs = map (\<lambda>y. y * 2 ^ wasted) ys \<and> ys \<noteq> [] \<and> int wasted < bits \<and> int wasted \<le> 65536
     \<and> encoding_ok ys enc \<and> (\<forall>y \<in> set ys. in_width (bits - int wasted) y \<and> in_width 32 y \<and> in_width 32 (y * 2 ^ wasted))"

fun sub_code :: "int \<Rightarrow> sub \<Rightarrow> int list" where
  "sub_code bits (wasted, ys, enc) = subframe_code (nat bits) wasted ys enc"

lemma decodes_sub:
  assumes "sub_ok bits xs s"
  shows "decodes (subframe (int (length xs)) bits) (sub_code bits s) xs"
proof -
  obtain wasted ys enc where s: "s = (wasted, ys, enc)" by (cases s) auto
  note ok = assms [unfolded s sub_ok.simps]
  let ?w = "nat (bits - int wasted)"
  have w: "1 \<le> ?w" "bits = int (?w + wasted)" "nat bits = ?w + wasted" "int ?w = bits - int wasted" using ok by auto
  have "decodes (subframe (int (length ys)) (int (?w + wasted))) (subframe_code (?w + wasted) wasted ys enc)
      (map (\<lambda>y. y * 2 ^ wasted) ys)"
    using ok w(1,4) by (intro decodes_subframe) auto
  then show ?thesis using ok w(2,3) by (simp add: s)
qed

lemma decodes_subs:
  assumes "length bits = length xss" "length xss = length subs"
    "\<forall>i < length subs. sub_ok (bits ! i) (xss ! i) (subs ! i) \<and> int (length (xss ! i)) = n"
  shows "decodes (map_s (subframe n) bits) (concat (map2 sub_code bits subs)) xss"
  using assms
proof (induction bits xss subs rule: list_induct3)
  case Nil
  show ?case by (simp add: decodes_return)
next
  case (Cons b bits xs xss s subs)
  have "decodes (subframe n b) (sub_code b s) xs" using Cons.prems decodes_sub [of b xs s] by force
  moreover have "decodes (map_s (subframe n) bits) (concat (map2 sub_code bits subs)) xss"
    using Cons.prems by (intro Cons.IH) force
  ultimately have "decodes (\<lambda>r. bind_s (subframe n b r) (\<lambda>y r. bind_s (map_s (subframe n) bits r) (\<lambda>ys r. (Inr (y # ys), r))))
      (sub_code b s @ concat (map2 sub_code bits subs) @ []) (xs # xss)"
    by (intro decodes_bind [where x = xs] decodes_bind [where x = xss] decodes_return)
  then show ?case by simp
qed

lemma align_zero_zeros:
  assumes "rd_valid r" "rd_stream r = replicate k 0 @ rest" "k < 8" "(rd_bit r + int k) mod 8 = 0"
  obtains t where "align_zero r = (Inr (), t)" "rd_valid t" "rd_data t = rd_data r" "rd_stream t = rest"
proof -
  have "\<exists>t. align_zero r = (Inr (), t) \<and> rd_valid t \<and> rd_data t = rd_data r \<and> rd_stream t = rest"
    using assms
  proof (induction k arbitrary: r)
    case 0
    then show ?case by (subst align_zero.simps) (simp add: bit_arith)
  next
    case (Suc k)
    have "decodes (rd_get 1 5) (value_bits 1 0) 0" by (rule decodes_field) simp_all
    then obtain t where t: "rd_get 1 5 r = (Inr 0, t)" "rd_valid t" "rd_data t = rd_data r" "rd_stream t = replicate k 0 @ rest"
      using decodesD [of "rd_get 1 5" "value_bits 1 0" 0 r "replicate k 0 @ rest"] Suc.prems(1,2) by auto
    have "rd_bit t = rd_bit r + 1" using rd_get_Inr(3) [OF t(1)] by simp
    moreover have "rd_bit r AND 7 \<noteq> 0" using Suc.prems(3,4) by (simp only: bit_arith) presburger
    ultimately show ?case using Suc.IH [OF t(2,4)] Suc.prems(3,4) t by (subst align_zero.simps) (simp add: add.assoc)
  qed
  with that show thesis by blast
qed

section \<open>A frame and its decoder\<close>

lemma concat_binary: "(\<And>x. x \<in> set xs \<Longrightarrow> set (f x) \<subseteq> {0, 1 :: int}) \<Longrightarrow> set (concat (map f xs)) \<subseteq> {0, 1}"
  by auto

lemma value_bits_binary: "x \<in> set (value_bits n v) \<Longrightarrow> x = 0 \<or> x = 1"
  by (drule subsetD [OF value_bits_shape(2)]) simp

lemma rice_code_binary: "x \<in> set (rice_code k v) \<Longrightarrow> x = 0 \<or> x = 1"
  by (auto simp: rice_code_def dest: value_bits_binary)

lemma part_code_binary: "x \<in> set (part_code pb part) \<Longrightarrow> x = 0 \<or> x = 1"
  by (cases part) (auto split: if_splits dest: value_bits_binary rice_code_binary)

lemma sub_code_binary: "x \<in> set (sub_code bits s) \<Longrightarrow> x = 0 \<or> x = 1"
proof -
  have body: "y = 0 \<or> y = 1" if "y \<in> set (encoding_body w xs enc)" for y w xs enc
    using that by (cases enc) (auto simp: residual_code_def dest: value_bits_binary part_code_binary)
  show "x = 0 \<or> x = 1" if "x \<in> set (sub_code bits s)"
    using that by (cases s) (auto simp: subframe_code_def split: if_splits dest: value_bits_binary body)
qed

lemma utf8_tail_shape: "length (utf8_tail n v) = 8 * n" "x \<in> set (utf8_tail n v) \<Longrightarrow> x = 0 \<or> x = 1"
  by (induction n arbitrary: v) (auto dest: value_bits_binary)

lemma header_code_shape:
  "length (header_code strategy a number blocks) mod 8 = 0" "set (header_code strategy a number blocks) \<subseteq> {0, 1}"
proof -
  have u: "length (utf8_code number) mod 8 = 0" "y \<in> set (utf8_code number) \<Longrightarrow> y = 0 \<or> y = 1" for y
    by (auto simp: utf8_code_def utf8_tail_shape split: if_splits dest: value_bits_binary utf8_tail_shape(2))
  show "length (header_code strategy a number blocks) mod 8 = 0"
    using u(1) by (simp add: header_code_def) presburger
  show "set (header_code strategy a number blocks) \<subseteq> {0, 1}"
    by (auto simp: header_code_def dest: value_bits_binary u(2))
qed

lemma crc8_range: "0 \<le> crc8 data \<and> crc8 data < 256"
proof -
  have bit: "0 \<le> crc8_bit v \<and> crc8_bit v < 256" for v by (simp add: crc8_bit_def bit_arith)
  have "0 \<le> (crc8_bit ^^ 8) v \<and> (crc8_bit ^^ 8) v < 256" for v
    using bit by (simp add: eval_nat_numeral)
  then have "0 \<le> v \<and> v < 256 \<Longrightarrow> 0 \<le> foldl (\<lambda>v byte. (crc8_bit ^^ 8) (v XOR uint byte)) v data
      \<and> foldl (\<lambda>v byte. (crc8_bit ^^ 8) (v XOR uint byte)) v data < 256" for v
    by (induction data arbitrary: v) auto
  from this [of 0] show ?thesis by (simp add: crc8_def)
qed

lemma crc16_range: "0 \<le> crc16 data \<and> crc16 data < 65536"
proof -
  have bit: "0 \<le> crc16_bit v \<and> crc16_bit v < 65536" for v by (simp add: crc16_bit_def bit_arith)
  have "0 \<le> (crc16_bit ^^ 8) v \<and> (crc16_bit ^^ 8) v < 65536" for v
    using bit by (simp add: eval_nat_numeral)
  then have "0 \<le> v \<and> v < 65536 \<Longrightarrow> 0 \<le> foldl (\<lambda>v byte. (crc16_bit ^^ 8) (v XOR shl (uint byte) 8)) v data
      \<and> foldl (\<lambda>v byte. (crc16_bit ^^ 8) (v XOR shl (uint byte) 8)) v data < 65536" for v
    by (induction data arbitrary: v) auto
  from this [of 0] show ?thesis by (simp add: crc16_def)
qed

definition sub_bits :: "int \<Rightarrow> int \<Rightarrow> sub list \<Rightarrow> int list" where
  "sub_bits bits a subs =
     (let code = concat (map2 sub_code (planar_widths a bits) subs) in
      code @ replicate (nat ((- int (length code)) mod 8)) 0)"

definition encode_frame :: "int \<Rightarrow> int \<Rightarrow> int \<Rightarrow> int \<Rightarrow> int list list \<Rightarrow> sub list \<Rightarrow> bytes" where
  "encode_frame bits strategy a number frames subs =
     (let head = pack_bits (header_code strategy a number (int (length frames)));
          payload = head @ pack_bits (value_bits 8 (crc8 head)) @ pack_bits (sub_bits bits a subs) in
      payload @ pack_bits (value_bits 16 (crc16 payload)))"

lemma sub_bits_shape: "length (sub_bits bits a subs) mod 8 = 0" "set (sub_bits bits a subs) \<subseteq> {0, 1}"
proof -
  let ?c = "concat (map2 sub_code (planar_widths a bits) subs)"
  have "(int (length ?c) + (- int (length ?c)) mod 8) mod 8 = 0" by presburger
  then have "int (length (sub_bits bits a subs)) mod 8 = 0" by (simp add: sub_bits_def Let_def)
  then show "length (sub_bits bits a subs) mod 8 = 0" by presburger
  show "set (sub_bits bits a subs) \<subseteq> {0, 1}" by (auto simp: sub_bits_def Let_def simp del: sub_code.simps dest: sub_code_binary)
qed

lemma value_bits_bytes: "n mod 8 = 0 \<Longrightarrow> data_bits (pack_bits (value_bits n v)) = value_bits n v"
  by (rule data_bits_pack) simp_all

definition encoder_ok :: "flac_meta \<Rightarrow> int \<Rightarrow> int list list \<Rightarrow> sub list \<Rightarrow> bool" where
  "encoder_ok meta a frames subs \<longleftrightarrow> frame_meta_ok meta a (int (length frames))
     \<and> frames_ok (fm_channels meta) (fm_bits meta) frames \<and> list_all2 (\<lambda>(bits, xs) s. sub_ok bits xs s)
         (zip (planar_widths a (fm_bits meta)) (planar_of a frames)) subs"

definition frame_size_ok :: "flac_meta \<Rightarrow> int \<Rightarrow> bool" where
  "frame_size_ok meta n \<longleftrightarrow> (fm_minimum_frame meta = 0 \<or> fm_minimum_frame meta \<le> n)
     \<and> (fm_maximum_frame meta = 0 \<or> n \<le> fm_maximum_frame meta) \<and> n \<le> 65536"

lemma encoder_subs:
  assumes "encoder_ok meta a frames subs"
  shows "decodes (map_s (subframe (int (length frames))) (planar_widths a (fm_bits meta)))
    (concat (map2 sub_code (planar_widths a (fm_bits meta)) subs)) (planar_of a frames)"
proof (rule decodes_subs)
  have len: "length (planar_widths a (fm_bits meta)) = length (planar_of a frames)"
    by (simp add: planar_widths_def planar_of_def Let_def)
  then show "length (planar_widths a (fm_bits meta)) = length (planar_of a frames)" .
  have all: "list_all2 (\<lambda>(bits, xs) s. sub_ok bits xs s) (zip (planar_widths a (fm_bits meta)) (planar_of a frames)) subs"
    using assms by (simp add: encoder_ok_def)
  show l2: "length (planar_of a frames) = length subs" using list_all2_lengthD [OF all] len by simp
  have "int (length xs) = int (length frames)" if "xs \<in> set (planar_of a frames)" for xs
    using that by (auto simp: planar_of_def Let_def split: if_splits)
  then show "\<forall>i < length subs. sub_ok (planar_widths a (fm_bits meta) ! i) (planar_of a frames ! i) (subs ! i)
      \<and> int (length (planar_of a frames ! i)) = int (length frames)"
    using list_all2_nthD2 [OF all] len l2 by auto
qed

lemma channel_bits_widths:
  assumes "frame_meta_ok meta a blocks"
  shows "channel_bits \<lparr>fh_strategy = strategy, fh_assignment = a, fh_number = number, fh_block_size = n,
     fh_channels = fm_channels meta, fh_bits = fm_bits meta\<rparr> = planar_widths a (fm_bits meta)"
  using assms by (auto simp: frame_meta_ok_def channel_bits_def planar_widths_def Let_def numeral_2_eq_2)

text \<open>Reading a segment of bytes that holds a code.\<close>

lemma decodes_at:
  assumes "decodes f code v" "data_bits xs = code"
  shows "f (reader_new (pre @ xs @ ys) (int (length pre))) = (Inr v, reader_new (pre @ xs @ ys) (int (length (pre @ xs))))"
proof (rule decodes_eq [OF assms(1)])
  let ?t = "reader_new (pre @ xs @ ys) (int (length (pre @ xs)))"
  show "rd_valid (reader_new (pre @ xs @ ys) (int (length pre)))" "rd_valid ?t"
    "rd_data ?t = rd_data (reader_new (pre @ xs @ ys) (int (length pre)))" by (simp_all add: rd_valid_def reader_new_def)
  show "rd_stream (reader_new (pre @ xs @ ys) (int (length pre))) = code @ rd_stream ?t"
    using rd_stream_behind [of "pre @ xs" ys] assms(2) by (simp add: rd_stream_behind data_bits_append)
qed

lemma decodes_aligned_at:
  assumes "decodes f code v" "data_bits xs = code @ replicate k 0" "k < 8"
  obtains t where "f (reader_new (pre @ xs @ ys) (int (length pre))) = (Inr v, t)"
    "align_zero t = (Inr (), reader_new (pre @ xs @ ys) (int (length (pre @ xs))))"
proof -
  let ?data = "pre @ xs @ ys"
  have "rd_valid (reader_new ?data (int (length pre)))" by (simp add: rd_valid_def reader_new_def)
  moreover have "rd_stream (reader_new ?data (int (length pre))) = code @ replicate k 0 @ data_bits ys"
    by (simp add: rd_stream_behind data_bits_append assms(2))
  ultimately obtain t where t: "f (reader_new ?data (int (length pre))) = (Inr v, t)" "rd_valid t" "rd_data t = ?data"
      "rd_stream t = replicate k 0 @ data_bits ys"
    using decodesD [OF assms(1)] by (metis reader.select_convs(1) reader_new_def)
  have "length (rd_stream t) = k + 8 * length ys" using t(4) by simp
  then have "rd_bit t + int k = 8 * (int (length pre) + int (length xs))"
    using t(2,3) by (simp add: rd_stream_def rd_valid_def) linarith
  then obtain u where u: "align_zero t = (Inr (), u)" "rd_valid u" "rd_data u = ?data" "rd_stream u = data_bits ys"
    using align_zero_zeros [OF t(2,4) assms(3)] t(3) by auto
  have "u = reader_new ((pre @ xs) @ ys) (int (length (pre @ xs)))" using u by (intro rd_at) simp_all
  with t(1) u(1) that show thesis by simp
qed

lemma frame_body_at:
  assumes ok: "encoder_ok meta a frames subs" and size_ok: "frame_size_ok meta (int (length (payload @ c16)))"
    and payload: "payload = head @ c8 @ body" and c8: "data_bits c8 = value_bits 8 (crc8 head)"
    and c16: "data_bits c16 = value_bits 16 (crc16 payload)" and body: "data_bits body = sub_bits (fm_bits meta) a subs"
  shows "fst (frame_body meta (int (length pre)) \<lparr>fh_strategy = strategy, fh_assignment = a, fh_number = number,
      fh_block_size = int (length frames), fh_channels = fm_channels meta, fh_bits = fm_bits meta\<rparr>
      (reader_new (pre @ (payload @ c16) @ post) (int (length (pre @ head))))) =
    Inr (frames, int (length pre) + int (length (payload @ c16)))"
proof -
  let ?data = "pre @ (payload @ c16) @ post"
  let ?h = "\<lparr>fh_strategy = strategy, fh_assignment = a, fh_number = number, fh_block_size = int (length frames),
      fh_channels = fm_channels meta, fh_bits = fm_bits meta\<rparr>"
  have m: "frame_meta_ok meta a (int (length frames))" and fr: "frames_ok (fm_channels meta) (fm_bits meta) frames"
    using ok by (simp_all add: encoder_ok_def)
  have crc: "rd_get 8 4 (reader_new ?data (int (length (pre @ head)))) = (Inr (crc8 head), reader_new ?data (int (length (pre @ head @ c8))))"
    using decodes_at [OF decodes_field [of 8 8 "crc8 head" 4] c8, of "pre @ head" "body @ c16 @ post"] crc8_range [of head]
    by (simp add: payload)
  obtain t where t: "map_s (subframe (int (length frames))) (channel_bits ?h) (reader_new ?data (int (length (pre @ head @ c8)))) =
        (Inr (planar_of a frames), t)" "align_zero t = (Inr (), reader_new ?data (int (length (pre @ payload))))"
  proof (rule decodes_aligned_at [OF encoder_subs [OF ok]])
    show "data_bits body = concat (map2 sub_code (planar_widths a (fm_bits meta)) subs) @
        replicate (nat ((- int (length (concat (map2 sub_code (planar_widths a (fm_bits meta)) subs)))) mod 8)) 0"
      using body by (simp add: sub_bits_def Let_def)
    show "nat ((- int (length (concat (map2 sub_code (planar_widths a (fm_bits meta)) subs)))) mod 8) < 8"
      by (simp add: nat_less_iff)
    fix t assume "map_s (subframe (int (length frames))) (planar_widths a (fm_bits meta))
          (reader_new ((pre @ head @ c8) @ body @ (c16 @ post)) (int (length (pre @ head @ c8)))) = (Inr (planar_of a frames), t)"
      "align_zero t = (Inr (), reader_new ((pre @ head @ c8) @ body @ (c16 @ post)) (int (length ((pre @ head @ c8) @ body))))"
    then show thesis by (intro that [of t]) (simp_all add: channel_bits_widths [OF m] payload)
  qed
  have foot: "rd_get 16 4 (reader_new ?data (int (length (pre @ payload)))) = (Inr (crc16 payload), reader_new ?data (int (length (pre @ payload @ c16))))"
    using decodes_at [OF decodes_field [of 16 16 "crc16 payload" 4] c16, of "pre @ payload" post] crc16_range [of payload] by simp
  have sl: "py_slice ?data (int (length pre)) (int (length (pre @ head))) = head"
      "py_slice ?data (int (length pre)) (int (length (pre @ payload))) = payload"
    by (simp_all add: py_slice_def payload)
  have vals: "frame_values a (fm_channels meta) (int (length frames)) (fm_bits meta) (int (length pre)) (planar_of a frames) = Inr frames"
    using m fr by (intro frame_values_planar) (auto simp: frame_meta_ok_def)
  have d: "rd_data (reader_new ?data n) = ?data" for n by (simp add: reader_new_def)
  have fits: "\<not> ((fm_minimum_frame meta \<noteq> 0 \<and> int (length (pre @ payload @ c16)) - int (length pre) < fm_minimum_frame meta)
      \<or> (fm_maximum_frame meta \<noteq> 0 \<and> int (length (pre @ payload @ c16)) - int (length pre) > fm_maximum_frame meta)
      \<or> int (length (pre @ payload @ c16)) - int (length pre) > 65536)"
    using size_ok by (auto simp: frame_size_ok_def)
  show ?thesis
    by (simp only: frame_body_def Let_def frame_header.select_convs byte_offset_new crc bind_s_simps d sl t foot
        simp_thms if_False fits lift_s_def vals) simp
qed

text \<open>FLAC frames are lossless. Take any block of frames in the width of the stream, any channel assignment
  (mono, independent, left/side, side/right, mid/side), any way to code each channel as a constant, verbatim,
  fixed-predictor or linear-predictor subframe with wasted bits, partitioned Rice or raw residuals. The frame
  with its header, checksums and padding decodes, wherever it stands, to exactly these frames, and the decoder
  stops exactly at its end.\<close>

lemma frame_lossless:
  assumes "encoder_ok meta a frames subs" "strategy \<in> {0, 1}" "0 \<le> number" "number < 2 ^ 36"
    "frame_size_ok meta (int (length (encode_frame (fm_bits meta) strategy a number frames subs)))"
  shows "decode_frame (pre @ encode_frame (fm_bits meta) strategy a number frames subs @ post) (int (length pre)) meta (Some number) =
    Inr (frames, int (length pre) + int (length (encode_frame (fm_bits meta) strategy a number frames subs)),
      int (length frames), strategy, number)"
proof -
  define hc where "hc = header_code strategy a number (int (length frames))"
  define head where "head = pack_bits hc"
  define c8 where "c8 = pack_bits (value_bits 8 (crc8 head))"
  define body where "body = pack_bits (sub_bits (fm_bits meta) a subs)"
  define payload where "payload = head @ c8 @ body"
  define c16 where "c16 = pack_bits (value_bits 16 (crc16 payload))"
  have frame: "encode_frame (fm_bits meta) strategy a number frames subs = payload @ c16"
    by (simp add: encode_frame_def Let_def payload_def c16_def body_def c8_def head_def hc_def)
  have bits: "data_bits head = hc" "data_bits c8 = value_bits 8 (crc8 head)" "data_bits c16 = value_bits 16 (crc16 payload)"
    "data_bits body = sub_bits (fm_bits meta) a subs"
    by (simp_all add: head_def hc_def c8_def c16_def body_def data_bits_pack header_code_shape sub_bits_shape value_bits_bytes)
  have m: "frame_meta_ok meta a (int (length frames))" using assms(1) by (simp add: encoder_ok_def)
  note head_at = decodes_at [OF decodes_frame_head [OF m assms(2-4), of "int (length pre)", folded hc_def] bits(1),
      of pre "c8 @ body @ c16 @ post"]
  note body_at = frame_body_at [OF assms(1) assms(5) [unfolded frame] payload_def bits(2-4), of pre strategy number post]
  let ?b = "frame_body meta (int (length pre)) \<lparr>fh_strategy = strategy, fh_assignment = a, fh_number = number,
      fh_block_size = int (length frames), fh_channels = fm_channels meta, fh_bits = fm_bits meta\<rparr>
      (reader_new (pre @ (payload @ c16) @ post) (int (length (pre @ head))))"
  obtain t where "?b = (Inr (frames, int (length pre) + int (length (payload @ c16))), t)"
    using body_at by (cases ?b) simp
  then show ?thesis using head_at by (simp add: decode_frame_def frame payload_def)
qed

end
