(* ===== verification/Apu_Flac_File.thy ===== *)
theory Apu_Flac_File
  imports Apu_Flac_Frame
begin

text \<open>
  The loop of \<open>decode_flac\<close> over the frames of a file, with the decoded prefix that an error carries, and its
  behaviour on arbitrary bytes: it ends, it raises nothing but located codec errors, and what it returns is
  as wide, as long and as complete as the metadata says.
\<close>

unbundle bit_operations_syntax

section \<open>Files\<close>

definition attach_flac_prefix :: "flac_meta \<Rightarrow> int list list \<Rightarrow> int \<Rightarrow> codec_exn \<Rightarrow> codec_exn" where
  "attach_flac_prefix meta frames input_size x =
     (case x of
        CodecPy err \<Rightarrow> CodecPy err
      | CodecError e \<Rightarrow>
          let used = min (ce_input_used e) input_size in
          CodecError (e\<lparr>ce_input_used := used,
            ce_partial_audio := Some
              \<lparr>da_info =
                \<lparr>ai_rate = fm_rate meta, ai_channels = fm_channels meta, ai_bits = fm_bits meta,
                 ai_samples = Some (int (length frames)), ai_data_offset = fm_frame_offset meta,
                 ai_data_bytes = max 0 (used - fm_frame_offset meta), ai_input_used = used,
                 ai_warnings = ce_warnings e\<rparr>,
               da_samples = frames\<rparr>\<rparr>))"

text \<open>The variables of the loop; the list \<open>blocks\<close>, which is only appended to, is left out.\<close>

record flac_file =
  ff_offset :: int
  ff_frames :: "int list list"
  ff_strategy :: "int option"
  ff_frame_number :: int

definition final_frame :: "flac_meta \<Rightarrow> int \<Rightarrow> int \<Rightarrow> int \<Rightarrow> int \<Rightarrow> bool" where
  "final_frame meta size_of_data decoded blocks frame_end \<longleftrightarrow>
     (case fm_total_samples meta of Some n \<Rightarrow> decoded + blocks = n | None \<Rightarrow> frame_end = size_of_data)"

definition flac_step :: "bytes \<Rightarrow> flac_meta \<Rightarrow> flac_file \<Rightarrow> codec_exn + flac_file" where
  "flac_step data meta s =
     (let size_of_data = int (length data); frames = ff_frames s; offset = ff_offset s;
          decoded_so_far = int (length frames);
          expected = (if ff_strategy s \<in> {None, Some 0} then ff_frame_number s else decoded_so_far) in
      map_error (attach_flac_prefix meta frames size_of_data)
       (bind_r (decode_frame data offset meta (Some expected))
         (\<lambda>(decoded, frame_end, blocks, frame_strategy, number).
        let final = final_frame meta size_of_data decoded_so_far blocks frame_end in
        bind_r
          (first_error
            [raise_if (case ff_strategy s of None \<Rightarrow> False | Some strategy \<Rightarrow> strategy \<noteq> frame_strategy)
               (codec_fail_used 4 4 0x18 offset 1 frame_end),
             raise_if (case fm_total_samples meta of None \<Rightarrow> False
                 | Some n \<Rightarrow> decoded_so_far + int (length decoded) > n)
               (codec_fail_used 4 4 0x32 offset 1 frame_end),
             raise_if (\<not> final \<and> \<not> (fm_minimum_block meta \<le> blocks \<and> blocks \<le> fm_maximum_block meta))
               (codec_fail_used 3 4 0x04 offset 1 frame_end),
             raise_if (final \<and> blocks > fm_maximum_block meta) (codec_fail_used 3 4 0x04 offset 1 frame_end)])
          (\<lambda>_. Inr \<lparr>ff_offset = frame_end, ff_frames = frames @ decoded,
                 ff_strategy = (case ff_strategy s of None \<Rightarrow> Some frame_strategy | Some st \<Rightarrow> Some st),
                 ff_frame_number = ff_frame_number s + 1\<rparr>))))"

definition more_frames :: "bytes \<Rightarrow> flac_meta \<Rightarrow> flac_file \<Rightarrow> bool" where
  "more_frames data meta s \<longleftrightarrow> ff_offset s < int (length data) \<and>
     (case fm_total_samples meta of None \<Rightarrow> True | Some n \<Rightarrow> int (length (ff_frames s)) < n)"

lemma flac_step_Inr:
  assumes "flac_step data meta s = Inr t" "0 \<le> ff_offset s" "ff_offset s \<le> int (length data)"
  obtains decoded where "ff_offset s + 7 \<le> ff_offset t" "ff_offset t \<le> int (length data)"
    "ff_frames t = ff_frames s @ decoded" "decoded \<noteq> []" "frames_ok (fm_channels meta) (fm_bits meta) decoded"
    "case fm_total_samples meta of None \<Rightarrow> True | Some n \<Rightarrow> int (length (ff_frames t)) \<le> n"
proof -
  let ?e = "if ff_strategy s \<in> {None, Some 0} then ff_frame_number s else int (length (ff_frames s))"
  obtain decoded frame_end blocks strategy number
    where d: "decode_frame data (ff_offset s) meta (Some ?e) = Inr (decoded, frame_end, blocks, strategy, number)"
    using assms(1) unfolding flac_step_def Let_def map_error_Inr bind_r_Inr by (metis prod_cases5)
  have t: "ff_offset t = frame_end" "ff_frames t = ff_frames s @ decoded"
    and n: "case fm_total_samples meta of None \<Rightarrow> True | Some n \<Rightarrow> int (length (ff_frames s)) + int (length decoded) \<le> n"
    using assms(1) unfolding flac_step_def Let_def d
    by (auto simp: map_error_Inr bind_r_Inr first_error_Inr raise_if_Inr split: option.splits)
  from decode_frame_post [OF assms(2,3), of meta "Some ?e"] d
  have "int (length decoded) = blocks" "1 \<le> blocks" "frames_ok (fm_channels meta) (fm_bits meta) decoded"
    "ff_offset s + 7 \<le> frame_end" "frame_end \<le> int (length data)" by simp_all
  with t n show thesis by (intro that [of decoded]) (auto split: option.splits)
qed

function flac_loop :: "bytes \<Rightarrow> flac_meta \<Rightarrow> flac_file \<Rightarrow> codec_exn + flac_file" where
  "flac_loop data meta s =
     (if 0 \<le> ff_offset s \<and> more_frames data meta s then
        bind_r (flac_step data meta s) (\<lambda>t. flac_loop data meta t)
      else Inr s)"
  by pat_completeness auto

termination
proof (relation "measure (\<lambda>(data, meta, s). nat (int (length data) - ff_offset s))", simp)
  fix data meta s t
  assume s: "0 \<le> ff_offset s \<and> more_frames data meta s" "flac_step data meta s = Inr t"
  then have "ff_offset s < int (length data)" "0 \<le> ff_offset s" by (simp_all add: more_frames_def)
  then have "ff_offset s + 7 \<le> ff_offset t" using flac_step_Inr [OF s(2)] by (metis less_imp_le)
  with \<open>ff_offset s < int (length data)\<close> show "((data, meta, t), data, meta, s)
      \<in> measure (\<lambda>(data, meta, s). nat (int (length data) - ff_offset s))" by simp
qed

declare flac_loop.simps [simp del]

definition decode_flac :: "bytes \<Rightarrow> bool \<Rightarrow> codec_exn + decoded_audio" where
  "decode_flac data strict =
     bind_r (flac_metadata data) (\<lambda>meta.
     bind_r (flac_loop data meta
         \<lparr>ff_offset = fm_frame_offset meta, ff_frames = [], ff_strategy = None, ff_frame_number = 0\<rparr>) (\<lambda>s.
     let size_of_data = int (length data); frames = ff_frames s; offset = ff_offset s in
     bind_r
       (map_error (attach_flac_prefix meta frames size_of_data)
         (first_error
           [raise_if (case fm_total_samples meta of None \<Rightarrow> False | Some n \<Rightarrow> int (length frames) \<noteq> n)
              (codec_fail 4 4 0x32 offset 1),
            raise_if (offset \<noteq> size_of_data \<and> strict) (codec_fail 4 4 0x1B offset 1)]))
       (\<lambda>_. Inr
         \<lparr>da_info =
            \<lparr>ai_rate = fm_rate meta, ai_channels = fm_channels meta, ai_bits = fm_bits meta,
             ai_samples = Some (int (length frames)), ai_data_offset = fm_frame_offset meta,
             ai_data_bytes = offset - fm_frame_offset meta, ai_input_used = offset,
             ai_warnings = (if offset \<noteq> size_of_data then 1 OR 2 else 1)\<rparr>,
          da_samples = frames\<rparr>)))"

section \<open>Metadata\<close>

definition stream_ok :: "audio_info \<Rightarrow> bool" where
  "stream_ok info \<longleftrightarrow> ai_channels info \<in> {1, 2} \<and> ai_bits info \<in> {16, 24}
     \<and> 8000 \<le> ai_rate info \<and> ai_rate info \<le> 96000"

lemma stream_info_block_Inr: "stream_info_block data payload block_end = Inr info \<Longrightarrow> stream_ok info"
  by (auto simp: stream_info_block_def Let_def bind_r_Inr raise_if_Inr first_error_Inr stream_ok_def)

lemma stream_info_block_post:
  assumes "0 \<le> payload" "payload + 10 \<le> n" "0 \<le> block_end" "block_end \<le> n"
  shows "case stream_info_block data payload block_end of Inl x \<Rightarrow> located n x | Inr info \<Rightarrow> stream_ok info"
proof (cases "stream_info_block data payload block_end")
  case (Inl x)
  then show ?thesis using assms
    by (auto simp: stream_info_block_def Let_def bind_r_Inl raise_if_Inl raise_if_def dest!: first_error_Inl
        split: if_splits)
next
  case (Inr info)
  then show ?thesis using stream_info_block_Inr [OF Inr] by simp
qed

text \<open>Between two blocks: the offset is inside the data, and once a block was read the stream is described.\<close>

definition scan_ok :: "int \<Rightarrow> flac_scan \<Rightarrow> bool" where
  "scan_ok n s \<longleftrightarrow> 4 \<le> fs_offset s \<and> fs_offset s \<le> n \<and> 0 \<le> fs_blocks s
     \<and> (1 \<le> fs_blocks s \<longleftrightarrow> fs_stream_info s \<noteq> None) \<and> pred_option stream_ok (fs_stream_info s)
     \<and> (fs_last s \<longrightarrow> 1 \<le> fs_blocks s)"

lemma flac_block_post:
  assumes "scan_ok (int (length data)) s" "\<not> fs_last s"
  shows "case flac_block data s of Inl x \<Rightarrow> located (int (length data)) x | Inr t \<Rightarrow> scan_ok (int (length data)) t"
proof (cases "flac_block data s")
  case (Inl x)
  have b: "0 \<le> be_int (py_slice data (fs_offset s + 1) (fs_offset s + 4))" by (rule be_int_bounds)
  have info: "located (int (length data)) x"
    if "stream_info_block data (fs_offset s + 4) (fs_offset s + 4 + 34) = Inl x" "fs_offset s + 38 \<le> int (length data)" for x
    using stream_info_block_post [of "fs_offset s + 4" "int (length data)" "fs_offset s + 4 + 34" data] that assms(1)
    by (simp add: scan_ok_def)
  show ?thesis using Inl assms(1) b info
    by (auto simp: flac_block_def Let_def bind_r_Inl raise_if_Inl raise_if_def codec_nth_def scan_ok_def
        first_error_Inr dest!: first_error_Inl split: if_splits)
next
  case (Inr t)
  have "scan_ok (int (length data)) t" using Inr assms flac_block_progress [OF Inr]
    by (auto simp: flac_block_def Let_def bind_r_Inr raise_if_Inr first_error_Inr scan_ok_def
        dest!: stream_info_block_Inr split: if_splits)
  with Inr show ?thesis by simp
qed

lemma flac_blocks_post:
  assumes "scan_ok (int (length data)) s"
  shows "case flac_blocks data s of Inl x \<Rightarrow> located (int (length data)) x
    | Inr t \<Rightarrow> scan_ok (int (length data)) t \<and> fs_last t"
  using assms
proof (induction data s rule: flac_blocks.induct)
  case (1 data s)
  show ?case
  proof (cases "fs_last s")
    case True
    then show ?thesis using 1(2) by (simp add: flac_blocks.simps)
  next
    case False
    show ?thesis
    proof (cases "flac_block data s")
      case (Inl x)
      then show ?thesis using flac_block_post [OF 1(2) False] False by (simp add: flac_blocks.simps)
    next
      case (Inr t)
      then show ?thesis using flac_block_post [OF 1(2) False] 1(1) [OF False Inr] False
        by (subst flac_blocks.simps) simp
    qed
  qed
qed

lemma inspect_flac_post:
  "case inspect_flac data strict of Inl x \<Rightarrow> located (int (length data)) x
    | Inr info \<Rightarrow> stream_ok info \<and> 4 \<le> ai_data_offset info \<and> ai_data_offset info \<le> int (length data)"
proof (cases "length data < 4 \<or> py_slice data 0 4 \<noteq> FLAC_TAG")
  case True
  then show ?thesis by (auto simp: inspect_flac_def Let_def raise_if_def)
next
  case False
  let ?s = "\<lparr>fs_offset = 4, fs_blocks = 0, fs_metadata_bytes = 0, fs_stream_info = None, fs_last = False\<rparr>"
  have "scan_ok (int (length data)) ?s" using False by (simp add: scan_ok_def)
  from flac_blocks_post [OF this] show ?thesis
    using False
    by (cases "flac_blocks data ?s")
      (auto simp: inspect_flac_def Let_def raise_if_def scan_ok_def stream_ok_def split: option.splits)
qed

definition meta_ok :: "int \<Rightarrow> flac_meta \<Rightarrow> bool" where
  "meta_ok n meta \<longleftrightarrow> fm_channels meta \<in> {1, 2} \<and> fm_bits meta \<in> {16, 24} \<and> 8000 \<le> fm_rate meta
     \<and> fm_rate meta \<le> 96000 \<and> 0 \<le> fm_frame_offset meta \<and> fm_frame_offset meta \<le> n"

lemma flac_metadata_post:
  "case flac_metadata data of Inl x \<Rightarrow> located (int (length data)) x | Inr meta \<Rightarrow> meta_ok (int (length data)) meta"
  using inspect_flac_post [of data False]
  by (auto simp: flac_metadata_def Let_def bind_r_def meta_ok_def stream_ok_def split: sum.splits)

section \<open>Decoding arbitrary bytes\<close>

text \<open>Audio as wide as its description, and an error with its place and the audio decoded before it.\<close>

definition audio_ok :: "int \<Rightarrow> decoded_audio \<Rightarrow> bool" where
  "audio_ok n a \<longleftrightarrow> stream_ok (da_info a) \<and> frames_ok (ai_channels (da_info a)) (ai_bits (da_info a)) (da_samples a)
     \<and> ai_samples (da_info a) = Some (int (length (da_samples a)))
     \<and> 0 \<le> ai_input_used (da_info a) \<and> ai_input_used (da_info a) \<le> n"

definition flac_error_ok :: "int \<Rightarrow> codec_exn \<Rightarrow> bool" where
  "flac_error_ok n x \<longleftrightarrow> (\<exists>e. x = CodecError e \<and> 0 \<le> ce_offset e \<and> ce_offset e \<le> n
     \<and> 0 \<le> ce_input_used e \<and> ce_input_used e \<le> n \<and> pred_option (audio_ok n) (ce_partial_audio e))"

lemma located_error_ok: "located n x \<Longrightarrow> flac_error_ok n x"
  by (auto simp: located_def flac_error_ok_def)

lemma attach_error_ok:
  assumes "located n x" "meta_ok n meta" "frames_ok (fm_channels meta) (fm_bits meta) frames"
  shows "flac_error_ok n (attach_flac_prefix meta frames n x)"
  using assms by (auto simp: located_def flac_error_ok_def attach_flac_prefix_def audio_ok_def meta_ok_def stream_ok_def
      Let_def min_def)

definition file_ok :: "int \<Rightarrow> flac_meta \<Rightarrow> flac_file \<Rightarrow> bool" where
  "file_ok n meta s \<longleftrightarrow> fm_frame_offset meta \<le> ff_offset s \<and> ff_offset s \<le> n
     \<and> frames_ok (fm_channels meta) (fm_bits meta) (ff_frames s)"

lemma flac_step_post:
  assumes "meta_ok (int (length data)) meta" "file_ok (int (length data)) meta s"
  shows "case flac_step data meta s of Inl x \<Rightarrow> flac_error_ok (int (length data)) x
    | Inr t \<Rightarrow> file_ok (int (length data)) meta t"
proof (cases "flac_step data meta s")
  case (Inl x)
  let ?e = "if ff_strategy s \<in> {None, Some 0} then ff_frame_number s else int (length (ff_frames s))"
  let ?p = "attach_flac_prefix meta (ff_frames s) (int (length data))"
  have off: "0 \<le> ff_offset s" "ff_offset s \<le> int (length data)" using assms by (auto simp: meta_ok_def file_ok_def)
  have ok: "flac_error_ok (int (length data)) (?p y)" if "located (int (length data)) y" for y
    using attach_error_ok [OF that assms(1)] assms(2) by (simp add: file_ok_def)
  have "\<exists>y. x = ?p y \<and> located (int (length data)) y"
  proof (cases "decode_frame data (ff_offset s) meta (Some ?e)")
    case (Inl y)
    then show ?thesis using \<open>flac_step data meta s = Inl x\<close> decode_frame_post [OF off, of meta "Some ?e"]
      unfolding flac_step_def Let_def Inl by auto
  next
    case (Inr p)
    obtain decoded frame_end blocks strategy number where p: "p = (decoded, frame_end, blocks, strategy, number)"
      by (metis prod_cases5)
    have "0 \<le> frame_end" "frame_end \<le> int (length data)"
      using decode_frame_post [OF off, of meta "Some ?e"] off unfolding Inr p by auto
    then show ?thesis using \<open>flac_step data meta s = Inl x\<close> off
      unfolding flac_step_def Let_def Inr p
      by (auto simp: map_error_def raise_if_def dest!: first_error_Inl split: sum.splits if_splits option.splits)
  qed
  with ok Inl show ?thesis by auto
next
  case (Inr t)
  have "0 \<le> ff_offset s" "ff_offset s \<le> int (length data)" using assms by (auto simp: meta_ok_def file_ok_def)
  from flac_step_Inr [OF Inr this] obtain decoded where "ff_offset s + 7 \<le> ff_offset t" "ff_offset t \<le> int (length data)"
    "ff_frames t = ff_frames s @ decoded" "frames_ok (fm_channels meta) (fm_bits meta) decoded" by metis
  with assms(2) have "file_ok (int (length data)) meta t" by (auto simp: file_ok_def frames_ok_def)
  with Inr show ?thesis by simp
qed

lemma flac_loop_post:
  assumes "meta_ok (int (length data)) meta" "file_ok (int (length data)) meta s"
  shows "case flac_loop data meta s of Inl x \<Rightarrow> flac_error_ok (int (length data)) x
    | Inr t \<Rightarrow> file_ok (int (length data)) meta t"
  using assms
proof (induction data meta s rule: flac_loop.induct)
  case (1 data meta s)
  show ?case
  proof (cases "0 \<le> ff_offset s \<and> more_frames data meta s")
    case False
    then have "flac_loop data meta s = Inr s" by (subst flac_loop.simps) (rule if_not_P)
    then show ?thesis using 1(3) by simp
  next
    case True
    note post = flac_step_post [OF 1(2,3)]
    show ?thesis
    proof (cases "flac_step data meta s")
      case (Inl x)
      with post True show ?thesis by (simp add: flac_loop.simps)
    next
      case (Inr t)
      with post True 1(1) [OF True Inr 1(2)] show ?thesis by (subst flac_loop.simps) simp
    qed
  qed
qed

text \<open>C27: Decoding arbitrary bytes as FLAC ends. An error is a codec error, never an exception of Python
  itself; its offset and the number of bytes used lie inside the input, and the audio it carries is well
  formed. A result has one or two channels of 16 or 24 bits with every sample in range, as many frames as
  the metadata declares, data that ends where the input was used up to, and in strict mode nothing behind it.\<close>

theorem decode_flac_safe:
  "case decode_flac data strict of
     Inl x \<Rightarrow> flac_error_ok (int (length data)) x
   | Inr a \<Rightarrow> audio_ok (int (length data)) a
       \<and> ai_data_offset (da_info a) + ai_data_bytes (da_info a) = ai_input_used (da_info a)
       \<and> ai_input_used (da_info a) \<in> (if strict then {int (length data)} else {..int (length data)})
       \<and> (case flac_metadata data of Inl _ \<Rightarrow> False
           | Inr meta \<Rightarrow> fm_total_samples meta \<in> {None, Some (int (length (da_samples a)))})"
proof (cases "flac_metadata data")
  case (Inl x)
  then show ?thesis using flac_metadata_post [of data] located_error_ok by (simp add: decode_flac_def)
next
  case (Inr meta)
  let ?s = "\<lparr>ff_offset = fm_frame_offset meta, ff_frames = [], ff_strategy = None, ff_frame_number = 0\<rparr>"
  have m: "meta_ok (int (length data)) meta" using Inr flac_metadata_post [of data] by simp
  then have "file_ok (int (length data)) meta ?s" by (simp add: file_ok_def frames_ok_def meta_ok_def)
  note post = flac_loop_post [OF m this]
  show ?thesis
  proof (cases "flac_loop data meta ?s")
    case (Inl x)
    then show ?thesis using post Inr by (simp add: decode_flac_def)
  next
    case (Inr t)
    have t: "file_ok (int (length data)) meta t" using post Inr by simp
    then have "located (int (length data)) (codec_fail c st re (ff_offset t) w)" for c st re w
      using m by (auto simp: file_ok_def meta_ok_def)
    from attach_error_ok [OF this m] t m \<open>flac_metadata data = Inr meta\<close> Inr show ?thesis
      by (auto simp: decode_flac_def Let_def raise_if_def audio_ok_def stream_ok_def meta_ok_def file_ok_def
          split: option.splits)
  qed
qed

end
