(* ===== verification/Apu_Flac_Roundtrip.thy ===== *)
theory Apu_Flac_Roundtrip
  imports Apu_Flac_Lossless Apu_Flac_File
begin

text \<open>
  FLAC files end to end: an encoder of whole files, and that \<open>decode_flac\<close> of \<open>src/scripts/apu_codecs.py\<close> inverts it.
\<close>

unbundle bit_operations_syntax

section \<open>The encoder\<close>

text \<open>A block of a file: its channel assignment, its frames and the encodings of its channels.\<close>

type_synonym block = "int \<times> int list list \<times> sub list"

abbreviation block_frames :: "block \<Rightarrow> int list list" where
  "block_frames b \<equiv> fst (snd b)"

definition be_bytes :: "nat \<Rightarrow> int \<Rightarrow> bytes" where
  "be_bytes n v = rev (le_bytes n v)"

fun encode_blocks :: "int \<Rightarrow> int \<Rightarrow> block list \<Rightarrow> bytes" where
  "encode_blocks bits n [] = []"
| "encode_blocks bits n ((a, frames, subs) # bs) = encode_frame bits 0 a n frames subs @ encode_blocks bits (n + 1) bs"

record stream_params =
  sp_rate :: int
  sp_channels :: int
  sp_bits :: int
  sp_minimum :: int
  sp_maximum :: int

definition packed_info :: "stream_params \<Rightarrow> int \<Rightarrow> int" where
  "packed_info p total_samples =
     ((sp_rate p * 8 + (sp_channels p - 1)) * 32 + (sp_bits p - 1)) * 2 ^ 36 + total_samples"

definition stream_info :: "stream_params \<Rightarrow> int \<Rightarrow> bytes" where
  "stream_info p total_samples =
     be_bytes 2 (sp_minimum p) @ be_bytes 2 (sp_maximum p) @ be_bytes 3 0 @ be_bytes 3 0
     @ be_bytes 8 (packed_info p total_samples) @ replicate 16 0"

definition total_frames :: "block list \<Rightarrow> int" where
  "total_frames bs = int (length (concat (map block_frames bs)))"

definition encode_flac :: "stream_params \<Rightarrow> block list \<Rightarrow> bytes" where
  "encode_flac p bs =
     FLAC_TAG @ [0x80, 0, 0, 34] @ stream_info p (total_frames bs) @ encode_blocks (sp_bits p) 0 bs"

definition file_meta :: "stream_params \<Rightarrow> int \<Rightarrow> flac_meta" where
  "file_meta p total_samples =
     \<lparr>fm_minimum_block = sp_minimum p, fm_maximum_block = sp_maximum p, fm_minimum_frame = 0, fm_maximum_frame = 0,
      fm_rate = sp_rate p, fm_channels = sp_channels p, fm_bits = sp_bits p,
      fm_total_samples = (if total_samples = 0 then None else Some total_samples), fm_frame_offset = 42\<rparr>"

definition params_ok :: "stream_params \<Rightarrow> bool" where
  "params_ok p \<longleftrightarrow> sp_channels p \<in> {1, 2} \<and> sp_bits p \<in> {16, 24} \<and> 8000 \<le> sp_rate p \<and> sp_rate p \<le> 96000
     \<and> 16 \<le> sp_minimum p \<and> sp_minimum p \<le> sp_maximum p \<and> sp_maximum p \<le> (if sp_channels p = 1 then 4096 else 2048)"

section \<open>Metadata\<close>

lemma be_int_be_bytes: "0 \<le> v \<Longrightarrow> v < 256 ^ n \<Longrightarrow> be_int (be_bytes n v) = v"
  by (simp add: be_int_def be_bytes_def le_int_le_bytes)

lemma length_be_bytes [simp]: "length (be_bytes n v) = n"
  by (simp add: be_bytes_def)

lemma digits_split: "0 \<le> n \<Longrightarrow> n < d \<Longrightarrow> (x * d + n) div d = x" "0 \<le> n \<Longrightarrow> n < d \<Longrightarrow> (x * d + n) mod d = (n::int)"
  by simp_all

lemma packed_fields:
  assumes "params_ok p" "0 \<le> n" "n < 2 ^ 36"
  shows "0 \<le> packed_info p n" "packed_info p n < 256 ^ 8"
    "shr (packed_info p n) 44 AND 0xFFFFF = sp_rate p" "(shr (packed_info p n) 41 AND 7) + 1 = sp_channels p"
    "(shr (packed_info p n) 36 AND 0x1F) + 1 = sp_bits p" "packed_info p n AND (shl 1 36 - 1) = n"
proof -
  note ok = assms(1) [unfolded params_ok_def]
  let ?q = "(sp_rate p * 8 + (sp_channels p - 1)) * 32 + (sp_bits p - 1)"
  have q: "packed_info p n div 2 ^ 36 = ?q" "packed_info p n mod 2 ^ 36 = n"
    using digits_split [OF assms(2,3), of ?q] by (simp_all only: packed_info_def)
  have bounds: "0 \<le> ?q" "?q \<le> 24576255" using ok by auto
  show "0 \<le> packed_info p n" using bounds assms(2) by (simp add: packed_info_def)
  have "?q * 2 ^ 36 \<le> 24576255 * 2 ^ 36" using bounds by (intro mult_right_mono) simp_all
  then show "packed_info p n < 256 ^ 8" using assms(3) unfolding packed_info_def by simp
  have s36: "shr (packed_info p n) 36 = ?q" using q(1) by (simp add: drop_bit_eq_div)
  have s41: "shr (packed_info p n) 41 = ?q div 32"
    using q(1) zdiv_zmult2_eq [of 32 "packed_info p n" "2 ^ 36"] by (simp add: drop_bit_eq_div)
  have s44: "shr (packed_info p n) 44 = ?q div 256"
    using q(1) zdiv_zmult2_eq [of 256 "packed_info p n" "2 ^ 36"] by (simp add: drop_bit_eq_div)
  have m20: "x AND 0xFFFFF = x mod 1048576" for x :: int using int_and_mask [of x 20] by simp
  show "shr (packed_info p n) 44 AND 0xFFFFF = sp_rate p" unfolding s44 m20 using ok by auto
  have "?q div 32 = sp_rate p * 8 + (sp_channels p - 1)" by (rule digits_split) (use ok in auto)
  moreover have "(sp_rate p * 8 + (sp_channels p - 1)) mod 8 = sp_channels p - 1" by (rule digits_split) (use ok in auto)
  ultimately show "(shr (packed_info p n) 41 AND 7) + 1 = sp_channels p" unfolding s41 and_low_bits_upto_byte by simp
  have "?q mod 32 = sp_bits p - 1" by (rule digits_split) (use ok in auto)
  then show "(shr (packed_info p n) 36 AND 0x1F) + 1 = sp_bits p" unfolding s36 and_low_bits_upto_byte by simp
  show "packed_info p n AND (shl 1 36 - 1) = n" using q(2) int_and_mask [of "packed_info p n" 36] by (simp add: push_bit_eq_mult)
qed

lemma slice_after: "length pre = nat k \<Longrightarrow> 0 \<le> k \<Longrightarrow> m = k + int (length xs) \<Longrightarrow> py_slice (pre @ xs @ ys) k m = xs"
  by (simp add: py_slice_def)

lemma stream_info_slices:
  assumes "params_ok p" "0 \<le> n" "n < 2 ^ 36" "data = FLAC_TAG @ [0x80, 0, 0, 34] @ stream_info p n @ rest"
  shows "be_int (py_slice data 8 10) = sp_minimum p" "be_int (py_slice data 10 12) = sp_maximum p"
    "be_int (py_slice data 12 15) = 0" "be_int (py_slice data 15 18) = 0"
    "be_int (py_slice data 18 26) = packed_info p n" "42 \<le> int (length data)"
proof -
  note ok = assms(1) [unfolded params_ok_def]
  let ?h = "FLAC_TAG @ [0x80, 0, 0, 34]" and ?z = "replicate 16 0 @ rest"
  let ?a = "be_bytes 2 (sp_minimum p)" and ?b = "be_bytes 2 (sp_maximum p)" and ?p = "be_bytes 8 (packed_info p n)"
  let ?c = "be_bytes 3 0"
  have d: "data = ?h @ ?a @ (?b @ ?c @ ?c @ ?p @ ?z)" "data = (?h @ ?a) @ ?b @ (?c @ ?c @ ?p @ ?z)"
    "data = (?h @ ?a @ ?b) @ ?c @ (?c @ ?p @ ?z)" "data = (?h @ ?a @ ?b @ ?c) @ ?c @ (?p @ ?z)"
    "data = (?h @ ?a @ ?b @ ?c @ ?c) @ ?p @ ?z"
    by (simp_all add: assms(4) stream_info_def)
  have b2: "sp_minimum p < 256 ^ 2" "sp_maximum p < 256 ^ 2" using ok by (auto split: if_splits)
  show "be_int (py_slice data 8 10) = sp_minimum p"
    unfolding d(1) using ok b2 by (subst slice_after) (simp_all add: be_int_be_bytes)
  show "be_int (py_slice data 10 12) = sp_maximum p"
    unfolding d(2) using ok b2 by (subst slice_after) (simp_all add: be_int_be_bytes)
  show "be_int (py_slice data 12 15) = 0" unfolding d(3) by (subst slice_after) (simp_all add: be_int_be_bytes)
  show "be_int (py_slice data 15 18) = 0" unfolding d(4) by (subst slice_after) (simp_all add: be_int_be_bytes)
  show "be_int (py_slice data 18 26) = packed_info p n"
    unfolding d(5) using packed_fields(1,2) [OF assms(1-3)] by (subst slice_after) (simp_all add: be_int_be_bytes)
  show "42 \<le> int (length data)" unfolding d(1) by simp
qed

lemma file_metadata:
  assumes "params_ok p" "0 \<le> n" "n < 2 ^ 36" "data = FLAC_TAG @ [0x80, 0, 0, 34] @ stream_info p n @ rest"
  shows "flac_metadata data = Inr (file_meta p n)"
proof -
  note ok = assms(1) [unfolded params_ok_def]
  note s = stream_info_slices [OF assms]
  note f = packed_fields [OF assms(1-3)]
  let ?i = "\<lparr>ai_rate = sp_rate p, ai_channels = sp_channels p, ai_bits = sp_bits p,
      ai_samples = (if n = 0 then None else Some n), ai_data_offset = 0, ai_data_bytes = 0, ai_input_used = 0, ai_warnings = 1\<rparr>"
  have info: "stream_info_block data 8 42 = Inr ?i"
  proof -
    have checks: "first_error
          [raise_if (sp_minimum p < 16) (codec_fail_used 3 4 0x04 8 1 42),
           raise_if (sp_maximum p < sp_minimum p) (codec_fail_used 4 4 0x15 10 1 42),
           raise_if (sp_channels p \<in> {1, 2} \<and> sp_maximum p > (if sp_channels p = 1 then 4096 else 2048))
             (codec_fail_used 3 4 0x04 10 1 42),
           raise_if ((0::int) \<noteq> 0 \<and> (0::int) \<noteq> 0 \<and> (0::int) > 0) (codec_fail_used 4 4 0x15 15 1 42),
           raise_if ((0::int) > 65536) (codec_fail_used 3 4 0x04 15 1 42),
           raise_if (sp_channels p \<notin> {1, 2} \<or> sp_bits p \<notin> {16, 24} \<or> \<not> (8000 \<le> sp_rate p \<and> sp_rate p \<le> 96000))
             (codec_fail_used 3 4 0x02 18 1 42)] = Inr ()"
      using ok by (auto simp: first_error_Inr raise_if_Inr)
    have nums: "(8::int) + 2 = 10" "(8::int) + 4 = 12" "(8::int) + 7 = 15" "(8::int) + 10 = 18" "(8::int) + 18 = 26" by simp_all
    show ?thesis
      unfolding stream_info_block_def Let_def nums s f checks by simp
  qed
  let ?s = "\<lparr>fs_offset = 4, fs_blocks = 0, fs_metadata_bytes = 0, fs_stream_info = None, fs_last = False\<rparr>"
  let ?t = "\<lparr>fs_offset = 42, fs_blocks = 1, fs_metadata_bytes = 34, fs_stream_info = Some ?i, fs_last = True\<rparr>"
  have "py_slice data 5 8 = [0, 0, 34]" "py_slice data 0 4 = FLAC_TAG" "codec_nth data 4 = Inr 0x80"
    by (simp_all add: assms(4) py_slice_def codec_nth_def)
  note h = this
  have "flac_block data ?s = Inr ?t"
    using s(6) h info by (simp add: flac_block_def Let_def raise_if_def be_int_def)
  then have "flac_blocks data ?s = Inr ?t" by (simp add: flac_blocks.simps)
  then have "inspect_flac data False = Inr (?i\<lparr>ai_data_offset := 42, ai_data_bytes := int (length data) - 42,
      ai_input_used := 42, ai_warnings := 1\<rparr>)"
    using s(6) h by (simp add: inspect_flac_def Let_def raise_if_def)
  then show ?thesis using s by (simp add: flac_metadata_def file_meta_def)
qed

section \<open>The frames of a file\<close>

text \<open>What a sequence of blocks has to meet in a file: each is encodable and short enough, and none but the last
  is shorter than the declared minimum.\<close>

fun blocks_ok :: "flac_meta \<Rightarrow> int \<Rightarrow> block list \<Rightarrow> bool" where
  "blocks_ok meta n [] \<longleftrightarrow> True"
| "blocks_ok meta n ((a, frames, subs) # bs) \<longleftrightarrow>
     encoder_ok meta a frames subs \<and> n < 2 ^ 36
     \<and> frame_size_ok meta (int (length (encode_frame (fm_bits meta) 0 a n frames subs)))
     \<and> int (length frames) \<le> fm_maximum_block meta \<and> (bs \<noteq> [] \<longrightarrow> fm_minimum_block meta \<le> int (length frames))
     \<and> blocks_ok meta (n + 1) bs"

lemma blocks_nonempty: "blocks_ok meta n bs \<Longrightarrow> bs \<noteq> [] \<Longrightarrow> concat (map block_frames bs) \<noteq> []"
  by (cases bs) (auto simp: encoder_ok_def frame_meta_ok_def)

lemma frame_nonempty: "0 < length (encode_frame bits strategy a n frames subs)"
  by (simp add: encode_frame_def Let_def pack_bits.simps [of "value_bits 16 v" for v])

lemma flac_loop_blocks:
  assumes "blocks_ok meta n bs" "0 \<le> n" "strategy \<in> {None, Some 0}"
    "fm_total_samples meta = Some (int (length (frames0 @ concat (map block_frames bs))))"
    "data = pre @ encode_blocks (fm_bits meta) n bs"
  shows "\<exists>st. flac_loop data meta \<lparr>ff_offset = int (length pre), ff_frames = frames0, ff_strategy = strategy, ff_frame_number = n\<rparr> =
    Inr \<lparr>ff_offset = int (length data), ff_frames = frames0 @ concat (map block_frames bs), ff_strategy = st,
      ff_frame_number = n + int (length bs)\<rparr>"
  using assms
proof (induction bs arbitrary: n strategy frames0 pre)
  case Nil
  then show ?case by (subst flac_loop.simps) (simp add: more_frames_def)
next
  case (Cons b bs)
  obtain a frames subs where b: "b = (a, frames, subs)" by (metis prod_cases3)
  let ?e = "encode_frame (fm_bits meta) 0 a n frames subs" and ?s = "\<lparr>ff_offset = int (length pre), ff_frames = frames0,
      ff_strategy = strategy, ff_frame_number = n\<rparr>"
  let ?t = "\<lparr>ff_offset = int (length (pre @ ?e)), ff_frames = frames0 @ frames, ff_strategy = Some 0, ff_frame_number = n + 1\<rparr>"
  note ok = Cons.prems(1) [unfolded b blocks_ok.simps]
  have d: "data = pre @ ?e @ encode_blocks (fm_bits meta) (n + 1) bs" using Cons.prems(5) by (simp add: b)
  have dec: "decode_frame data (int (length pre)) meta (Some n) =
      Inr (frames, int (length pre) + int (length ?e), int (length frames), 0, n)"
    unfolding d by (rule frame_lossless) (use ok Cons.prems(2) in simp_all)
  have total_n: "fm_total_samples meta = Some (int (length frames0) + int (length frames) + int (length (concat (map block_frames bs))))"
    using Cons.prems(4) by (simp add: b)
  have last_or: "bs = [] \<or> fm_minimum_block meta \<le> int (length frames)" using ok by blast
  have "1 \<le> int (length frames)" using ok by (auto simp: encoder_ok_def frame_meta_ok_def)
  then have "int (length frames0) < int (length frames0) + int (length frames) + int (length (concat (map block_frames bs)))" by linarith
  moreover have "length pre < length data" using frame_nonempty [of "fm_bits meta" 0 a n frames subs] unfolding d by simp
  ultimately have more: "0 \<le> ff_offset ?s \<and> more_frames data meta ?s"
    unfolding more_frames_def total_n by simp
  have step: "flac_step data meta ?s = Inr ?t"
    using Cons.prems(3) dec total_n ok last_or
    by (auto simp: flac_step_def Let_def final_frame_def raise_if_def)
  have "\<exists>st. flac_loop data meta ?t = Inr \<lparr>ff_offset = int (length data), ff_frames = (frames0 @ frames) @ concat (map block_frames bs),
      ff_strategy = st, ff_frame_number = (n + 1) + int (length bs)\<rparr>"
    by (rule Cons.IH) (use ok d Cons.prems(2,4) in \<open>simp_all add: b\<close>)
  then show ?case using more step by (subst flac_loop.simps) (simp add: b add.assoc)
qed

text \<open>A stereo file of two blocks: mid/side with a fixed predictor and a constant side channel, then one frame with a
  verbatim channel and a linear predictor.\<close>

definition example_params :: stream_params where
  "example_params = \<lparr>sp_rate = 48000, sp_channels = 2, sp_bits = 16, sp_minimum = 16, sp_maximum = 16\<rparr>"

definition example_blocks :: "block list" where
  "example_blocks =
     [(10, map (\<lambda>i. [10 + 2 * i, 6 + 2 * i]) [0..15],
         [(0, map (\<lambda>i. 8 + 2 * i) [0..15], EncFixed 1 0 0 [RicePart 1 (replicate 15 2)]), (2, replicate 16 1, EncConstant)]),
      (1, [[-3, 100]], [(0, [-3], EncVerbatim), (2, [25], EncLpc 1 4 1 [3] 0 0 [RawPart 0 []])])]"

text \<open>C28: FLAC files round trip. For every stream of one or two channels of 16 or 24 bits at 8 to 96 kHz and every
  division of its samples into blocks with any encoding of each block (channel assignment, subframe kinds,
  predictors, wasted bits, residual partitions), the file that holds the stream information and the frames with
  their numbers and checksums decodes in strict mode to exactly the samples, all of the input is used and the
  result is described by the parameters of the stream.\<close>

theorem flac_roundtrip:
  assumes "params_ok p" "blocks_ok (file_meta p (total_frames bs)) 0 bs" "total_frames bs < 2 ^ 36"
  shows "decode_flac (encode_flac p bs) True = Inr
    \<lparr>da_info = \<lparr>ai_rate = sp_rate p, ai_channels = sp_channels p, ai_bits = sp_bits p,
       ai_samples = Some (total_frames bs), ai_data_offset = 42,
       ai_data_bytes = int (length (encode_flac p bs)) - 42, ai_input_used = int (length (encode_flac p bs)), ai_warnings = 1\<rparr>,
     da_samples = concat (map block_frames bs)\<rparr>"
proof -
  let ?m = "file_meta p (total_frames bs)" and ?d = "encode_flac p bs"
  let ?pre = "FLAC_TAG @ [0x80, 0, 0, 34] @ stream_info p (total_frames bs)"
  let ?s = "\<lparr>ff_offset = 42, ff_frames = [], ff_strategy = None, ff_frame_number = 0\<rparr>"
  have n: "0 \<le> total_frames bs" by (simp add: total_frames_def)
  have meta: "flac_metadata ?d = Inr ?m"
    by (rule file_metadata [OF assms(1) n assms(3)]) (simp add: encode_flac_def)
  have bits: "fm_bits ?m = sp_bits p" by (simp add: file_meta_def)
  have pre: "int (length ?pre) = 42" "?d = ?pre @ encode_blocks (fm_bits ?m) 0 bs"
    by (simp_all add: stream_info_def encode_flac_def bits)
  obtain st where loop: "flac_loop ?d ?m ?s = Inr \<lparr>ff_offset = int (length ?d), ff_frames = concat (map block_frames bs), ff_strategy = st,
      ff_frame_number = int (length bs)\<rparr>"
  proof -
    have "\<exists>st. flac_loop ?d ?m ?s = Inr \<lparr>ff_offset = int (length ?d), ff_frames = concat (map block_frames bs), ff_strategy = st,
      ff_frame_number = int (length bs)\<rparr>"
    proof (cases "bs = []")
      case True
      then show ?thesis using pre by (subst flac_loop.simps) (simp add: more_frames_def)
    next
      case False
      then have "total_frames bs \<noteq> 0" using blocks_nonempty [OF assms(2)] by (simp add: total_frames_def)
      then have "fm_total_samples ?m = Some (int (length ([] @ concat (map block_frames bs))))"
        by (simp add: file_meta_def) (simp add: total_frames_def)
      from flac_loop_blocks [OF assms(2) _ _ this pre(2), of None] pre(1) show ?thesis by simp
    qed
    with that show thesis by blast
  qed
  have sel: "fm_frame_offset ?m = 42" "fm_rate ?m = sp_rate p" "fm_channels ?m = sp_channels p"
    "fm_total_samples ?m \<in> {None, Some (total_frames bs)}"
    by (simp_all add: file_meta_def)
  have len: "int (length (concat (map block_frames bs))) = total_frames bs" by (simp add: total_frames_def)
  show ?thesis
    unfolding decode_flac_def meta bind_r_simps sel(1) loop Let_def flac_file.select_convs len
    using sel bits by (auto simp: raise_if_def)
qed

lemma example_ok:
  "params_ok example_params" "total_frames example_blocks = 17" "blocks_ok (file_meta example_params 17) 0 example_blocks"
  by code_simp+

theorem flac_roundtrip_witness:
  "params_ok example_params \<and> blocks_ok (file_meta example_params (total_frames example_blocks)) 0 example_blocks
   \<and> total_frames example_blocks < 2 ^ 36
   \<and> (case decode_flac (encode_flac example_params example_blocks) True of Inl _ \<Rightarrow> False
       | Inr a \<Rightarrow> da_samples a = map (\<lambda>i. [10 + 2 * i, 6 + 2 * i]) [0..15] @ [[-3, 100]] \<and> ai_samples (da_info a) = Some 17)"
  using flac_roundtrip [of example_params example_blocks] example_ok by (simp add: example_blocks_def)

end
