(* ===== verification/Npu_Arith.thy ===== *)
theory Npu_Arith
  imports Soc_Prelude
begin

text \<open>
  The numerical profile of \<open>src/scripts/npu_reference.py\<close>: INT8 tensors, the argument checks, checked
  INT32 accumulation, the Q31 rounding primitives, requantization and the conversion of a real
  multiplier. \<open>ValueError\<close> and \<open>ArithmeticFault\<close> are values of \<open>npu_error\<close>; a finite Python float is
  \<open>Finite m e\<close>, the number \<open>m * 2 ^ e\<close>. Checks of the Python type of an argument hold by typing.
\<close>

unbundle bit_operations_syntax

abbreviation (input) "INT32_MIN \<equiv> (- 2147483648 :: int)"
abbreviation (input) "INT32_MAX \<equiv> (2147483647 :: int)"
abbreviation (input) "INT8_MIN \<equiv> (- 128 :: int)"
abbreviation (input) "INT8_MAX \<equiv> (127 :: int)"

datatype npu_error = NpuValueError string | ArithmeticFault string | NpuIndexError | NpuZeroDivision

datatype py_float = Finite int int | NonFinite

section \<open>Argument checks\<close>

definition require_range :: "int \<Rightarrow> int \<Rightarrow> string \<Rightarrow> int \<Rightarrow> npu_error + int" where
  "require_range lo hi msg v = (if v < lo \<or> v > hi then Inl (NpuValueError msg) else Inr v)"

definition require_int32 :: "int \<Rightarrow> npu_error + int" where
  "require_int32 v = require_range INT32_MIN INT32_MAX ''must be within signed INT32'' v"

definition require_int8 :: "int \<Rightarrow> npu_error + int" where
  "require_int8 v = require_range INT8_MIN INT8_MAX ''must be within -128..127'' v"

definition require_weight :: "int \<Rightarrow> npu_error + int" where
  "require_weight v = require_range (- 127) 127 ''must be a symmetric INT8 weight'' v"

definition require_multiplier :: "int \<Rightarrow> npu_error + int" where
  "require_multiplier v = require_range 0 INT32_MAX ''must be a nonnegative INT32 value'' v"

definition require_shift :: "int \<Rightarrow> npu_error + int" where
  "require_shift v = require_range (- 31) 30 ''must be within -31..30'' v"

definition require_scale :: "py_float \<Rightarrow> npu_error + py_float" where
  "require_scale v =
     (case v of
        Finite m e \<Rightarrow> if m \<le> 0 then Inl (NpuValueError ''must be a positive finite float'') else Inr v
      | NonFinite \<Rightarrow> Inl (NpuValueError ''must be a positive finite float''))"

definition checked_accumulate :: "int \<Rightarrow> int \<Rightarrow> string \<Rightarrow> npu_error + int" where
  "checked_accumulate accumulator summand context =
     (let total = accumulator + summand in
      if total < INT32_MIN \<or> total > INT32_MAX then Inl (ArithmeticFault context) else Inr total)"

definition validate_act_bounds :: "int \<Rightarrow> int \<Rightarrow> npu_error + (int \<times> int)" where
  "validate_act_bounds act_min act_max =
     bind_r (require_int8 act_min) (\<lambda>_. bind_r (require_int8 act_max) (\<lambda>_.
     bind_r (raise_if (act_min > act_max) (NpuValueError ''ACT_MIN must not exceed ACT_MAX'')) (\<lambda>_.
       Inr (act_min, act_max))))"

definition validate_strides :: "int \<Rightarrow> int \<Rightarrow> npu_error + unit" where
  "validate_strides stride_h stride_w =
     raise_if (stride_h \<notin> {1, 2} \<or> stride_w \<notin> {1, 2}) (NpuValueError ''strides must be 1 or 2'')"

definition validate_pads :: "int \<times> int \<times> int \<times> int \<Rightarrow> int \<Rightarrow> int \<Rightarrow> npu_error + unit" where
  "validate_pads pads kernel_h kernel_w =
     (case pads of (p_top, p_bottom, p_left, p_right) \<Rightarrow>
      first_error (map (\<lambda>(pad, limit). raise_if (pad < 0 \<or> pad \<ge> limit)
          (NpuValueError ''padding must be nonnegative and strictly less than the kernel''))
        [(p_top, kernel_h), (p_bottom, kernel_h), (p_left, kernel_w), (p_right, kernel_w)]))"

definition output_extent :: "int \<Rightarrow> int \<Rightarrow> int \<Rightarrow> int \<Rightarrow> int \<Rightarrow> npu_error + int" where
  "output_extent input_size pad_before pad_after kernel_size stride =
     (let extent = (input_size + pad_before + pad_after - kernel_size) div stride + 1 in
      if extent < 1 then Inl (NpuValueError ''output extent must be at least one in-range input position'')
      else Inr extent)"

section \<open>Tensors\<close>

record tensor =
  t_shape :: "int \<times> int \<times> int"
  t_data :: "int list"
  t_scale :: py_float
  t_zero_point :: int

definition t_height :: "tensor \<Rightarrow> int" where
  "t_height t = fst (t_shape t)"

definition t_width :: "tensor \<Rightarrow> int" where
  "t_width t = fst (snd (t_shape t))"

definition t_channels :: "tensor \<Rightarrow> int" where
  "t_channels t = snd (snd (t_shape t))"

definition tensor_new :: "int \<times> int \<times> int \<Rightarrow> int list \<Rightarrow> py_float \<Rightarrow> int \<Rightarrow> npu_error + tensor" where
  "tensor_new shape values scale zero =
     (case shape of (h, w, c) \<Rightarrow>
      bind_r (first_error
        [raise_if (list_ex (\<lambda>d. d < 1 \<or> d > 4096) [h, w, c])
           (NpuValueError ''tensor dimensions must each be within 1..4096''),
         raise_if (int (length values) \<noteq> h * w * c)
           (NpuValueError ''tensor data length does not match the (H, W, C) shape''),
         raise_if (list_ex (\<lambda>v. v < INT8_MIN \<or> v > INT8_MAX) values)
           (NpuValueError ''tensor data must contain INT8 values in -128..127'')]) (\<lambda>_.
      bind_r (require_scale scale) (\<lambda>s.
      bind_r (raise_if (zero < INT8_MIN \<or> zero > INT8_MAX)
          (NpuValueError ''tensor zero point must be an INT8 integer'')) (\<lambda>_.
        Inr \<lparr>t_shape = shape, t_data = values, t_scale = s, t_zero_point = zero\<rparr>))))"

definition npu_index :: "'a list \<Rightarrow> int \<Rightarrow> npu_error + 'a" where
  "npu_index xs i =
     (if 0 \<le> i \<and> i < int (length xs) then Inr (xs ! nat i)
      else if i < 0 \<and> - i \<le> int (length xs) then Inr (xs ! nat (int (length xs) + i))
      else Inl NpuIndexError)"

definition value_at :: "tensor \<Rightarrow> int \<Rightarrow> int \<Rightarrow> int \<Rightarrow> npu_error + int" where
  "value_at t h w c = npu_index (t_data t) ((h * t_width t + w) * t_channels t + c)"

section \<open>Weights and per-channel words\<close>

definition level_length :: "'a list \<Rightarrow> npu_error + int" where
  "level_length node =
     (if node = [] then Inl (NpuValueError ''must be a nonempty nested sequence of integers'')
      else Inr (int (length node)))"

text \<open>One level of \<open>visit\<close>: the length of the node, then its children in order.\<close>

definition flatten_level :: "int \<Rightarrow> ('a \<Rightarrow> npu_error + int list) \<Rightarrow> 'a list \<Rightarrow> npu_error + int list" where
  "flatten_level n visit node =
     (if int (length node) \<noteq> n then Inl (NpuValueError ''must be a rectangular nested sequence'')
      else bind_r (map_r visit node) (\<lambda>parts. Inr (concat parts)))"

definition flatten_leaf :: "int \<Rightarrow> npu_error + int list" where
  "flatten_leaf w = bind_r (require_weight w) (\<lambda>v. Inr [v])"

definition validate_conv_weights ::
  "int list list list list \<Rightarrow> int \<Rightarrow> npu_error + (int \<times> int \<times> int \<times> int list)" where
  "validate_conv_weights weights cin =
     bind_r (level_length weights) (\<lambda>cout.
     bind_r (level_length (hd weights)) (\<lambda>kh.
     bind_r (level_length (hd (hd weights))) (\<lambda>kw.
     bind_r (raise_if (kh > 16 \<or> kw > 16) (NpuValueError ''kernel dimensions must be within 1..16'')) (\<lambda>_.
     bind_r (flatten_level cout (flatten_level kh (flatten_level kw (flatten_level cin flatten_leaf))) weights)
       (\<lambda>flat. Inr (cout, kh, kw, flat))))))"

definition validate_depthwise_weights ::
  "int list list list \<Rightarrow> int \<Rightarrow> npu_error + (int \<times> int \<times> int list)" where
  "validate_depthwise_weights weights cin =
     bind_r (level_length weights) (\<lambda>kh.
     bind_r (level_length (hd weights)) (\<lambda>kw.
     bind_r (raise_if (kh > 16 \<or> kw > 16) (NpuValueError ''kernel dimensions must be within 1..16'')) (\<lambda>_.
     bind_r (flatten_level kh (flatten_level kw (flatten_level cin flatten_leaf)) weights)
       (\<lambda>flat. Inr (kh, kw, flat)))))"

definition validate_fc_weights :: "int list list \<Rightarrow> int \<Rightarrow> npu_error + (int \<times> int list)" where
  "validate_fc_weights weights cin =
     bind_r (level_length weights) (\<lambda>cout.
     bind_r (flatten_level cout (flatten_level cin flatten_leaf) weights) (\<lambda>flat. Inr (cout, flat)))"

definition validate_channel_words :: "int list \<Rightarrow> int \<Rightarrow> npu_error + int list" where
  "validate_channel_words values cout =
     (if int (length values) \<noteq> cout
      then Inl (NpuValueError ''array must provide exactly one word per output channel'') else Inr values)"

definition validate_bias :: "int list \<Rightarrow> int \<Rightarrow> npu_error + int list" where
  "validate_bias bias cout = bind_r (validate_channel_words bias cout) (map_r require_int32)"

definition validate_multipliers :: "int list \<Rightarrow> int \<Rightarrow> npu_error + int list" where
  "validate_multipliers multipliers cout =
     bind_r (validate_channel_words multipliers cout) (map_r require_multiplier)"

definition validate_shifts :: "int list \<Rightarrow> int \<Rightarrow> npu_error + int list" where
  "validate_shifts shifts cout = bind_r (validate_channel_words shifts cout) (map_r require_shift)"

section \<open>Rounding primitives\<close>

definition trunc_div :: "int \<Rightarrow> int \<Rightarrow> int" where
  "trunc_div numerator denominator =
     (let q = \<bar>numerator\<bar> div denominator in if numerator \<ge> 0 then q else - q)"

definition saturating_rounding_doubling_high_mul :: "int \<Rightarrow> int \<Rightarrow> npu_error + int" where
  "saturating_rounding_doubling_high_mul a b =
     bind_r (require_int32 a) (\<lambda>_. bind_r (require_int32 b) (\<lambda>_.
       if a = INT32_MIN \<and> b = INT32_MIN then Inr INT32_MAX
       else
         let product = a * b; nudge = (if product \<ge> 0 then shl 1 30 else 1 - shl 1 30) in
         Inr (trunc_div (product + nudge) (shl 1 31))))"

definition rounding_divide_by_pot :: "int \<Rightarrow> int \<Rightarrow> npu_error + int" where
  "rounding_divide_by_pot x r =
     bind_r (require_int32 x) (\<lambda>_.
     bind_r (raise_if (r < 0 \<or> r > 31) (NpuValueError ''exponent must be within 0..31'')) (\<lambda>_.
       if r = 0 then Inr x
       else
         let low = shl 1 r - 1; remainder = x AND low; threshold = shr low 1 + (if x < 0 then 1 else 0) in
         Inr (shr x r + (if remainder > threshold then 1 else 0))))"

definition multiply_by_quantized_multiplier :: "int \<Rightarrow> int \<Rightarrow> int \<Rightarrow> npu_error + int" where
  "multiply_by_quantized_multiplier x multiplier shift =
     bind_r (require_int32 x) (\<lambda>_. bind_r (require_multiplier multiplier) (\<lambda>_. bind_r (require_shift shift) (\<lambda>_.
       let shifted = shl x (max shift 0) in
       if shifted < INT32_MIN \<or> shifted > INT32_MAX
       then Inl (ArithmeticFault ''checked left shift overflow in requantization'')
       else
         bind_r (saturating_rounding_doubling_high_mul shifted multiplier) (\<lambda>product.
           rounding_divide_by_pot product (max (- shift) 0)))))"

definition requantize :: "int \<Rightarrow> int \<Rightarrow> int \<Rightarrow> int \<Rightarrow> int \<Rightarrow> int \<Rightarrow> npu_error + int" where
  "requantize accumulator multiplier shift zero act_min act_max =
     bind_r (multiply_by_quantized_multiplier accumulator multiplier shift) (\<lambda>q.
       Inr (max act_min (min act_max (q + zero))))"

definition validate_output_quantization :: "py_float \<Rightarrow> int \<Rightarrow> npu_error + (py_float \<times> int)" where
  "validate_output_quantization scale zero =
     bind_r (require_scale scale) (\<lambda>s. bind_r (require_int8 zero) (\<lambda>z. Inr (s, z)))"

definition round_ties_away :: "int \<Rightarrow> int \<Rightarrow> npu_error + int" where
  "round_ties_away summed count =
     (if count = 0 then Inl NpuZeroDivision
      else let q = (\<bar>summed\<bar> + count div 2) div count in Inr (if summed \<ge> 0 then q else - q))"

section \<open>The conversion of a real multiplier\<close>

text \<open>\<open>int.bit_length\<close> of a nonnegative integer.\<close>

fun bit_length :: "int \<Rightarrow> int" where
  "bit_length n = (if n \<le> 0 then 0 else 1 + bit_length (n div 2))"

declare bit_length.simps [simp del]

text \<open>\<open>math.frexp\<close> of \<open>m * 2 ^ e\<close> with positive \<open>m\<close> is the fraction \<open>m / 2 ^ n\<close> and the exponent \<open>n + e\<close>
  for the bit length \<open>n\<close> of \<open>m\<close>; times \<open>2 ^ 31\<close> it is the fraction of the next definition.\<close>

definition q31_fraction :: "int \<Rightarrow> int \<times> int" where
  "q31_fraction m = (m * shl 1 31, shl 1 (bit_length m))"

definition quantize_multiplier :: "py_float \<Rightarrow> npu_error + (int \<times> int)" where
  "quantize_multiplier real_multiplier =
     (case real_multiplier of
        NonFinite \<Rightarrow> Inl (NpuValueError ''real multiplier must be a nonnegative finite number'')
      | Finite m e \<Rightarrow>
          if m < 0 then Inl (NpuValueError ''real multiplier must be a nonnegative finite number'')
          else if m = 0 then Inr (0, 0)
          else
            (let shift = bit_length m + e;
                 num = fst (q31_fraction m);
                 den = snd (q31_fraction m);
                 q_fixed = (2 * num + den) div (2 * den);
                 carry = (q_fixed = shl 1 31);
                 q = (if carry then shr q_fixed 1 else q_fixed);
                 s = (if carry then shift + 1 else shift) in
             if s < - 31 then Inr (0, 0) else Inr (q, s)))"

end
