(* ===== verification/Npu_Arith_Props.thy ===== *)
theory Npu_Arith_Props
  imports Npu_Arith
begin

text \<open>
  The arithmetic of \<open>src/scripts/npu_reference.py\<close>: the doubling high product and the rounding division as
  integer formulas, the error bound of the requantization and of the conversion of a real multiplier.
\<close>

unbundle bit_operations_syntax

abbreviation (input) "srdhm \<equiv> saturating_rounding_doubling_high_mul"

lemma require_range_Inr: "require_range lo hi msg v = Inr w \<longleftrightarrow> lo \<le> v \<and> v \<le> hi \<and> w = v"
  by (auto simp: require_range_def)

lemmas require_simps = require_int32_def require_int8_def require_weight_def require_multiplier_def
  require_shift_def require_range_Inr

abbreviation int32 :: "int \<Rightarrow> bool" where
  "int32 v \<equiv> INT32_MIN \<le> v \<and> v \<le> INT32_MAX"

section \<open>The rounding primitives\<close>

lemma trunc_nudged:
  fixes p :: int
  shows "trunc_div (p + (if p \<ge> 0 then 1073741824 else 1 - 1073741824)) 2147483648 = (p + 1073741824) div 2147483648"
proof (cases "p \<ge> 0")
  case False
  then have "trunc_div (p + (1 - 1073741824)) 2147483648 = - ((- p + 1073741823) div 2147483648)"
    by (simp add: trunc_div_def Let_def)
  also have "\<dots> = (p + 1073741824) div 2147483648" by linarith
  finally show ?thesis using False by simp
qed (simp add: trunc_div_def Let_def)

text \<open>The doubling high product is the Q31 product rounded to the nearest integer, ties upward.\<close>

lemma srdhm_eq:
  assumes "int32 a" "int32 b"
  shows "srdhm a b = Inr (if a = INT32_MIN \<and> b = INT32_MIN then INT32_MAX else (a * b + 2 ^ 30) div 2 ^ 31)"
proof -
  have "require_int32 a = Inr a" "require_int32 b = Inr b" using assms by (simp_all add: require_simps)
  then show ?thesis
    using trunc_nudged [of "a * b"] by (auto simp: saturating_rounding_doubling_high_mul_def Let_def)
qed

lemma product_bound:
  assumes "int32 a" "int32 b"
  shows "\<bar>a * b\<bar> \<le> 2 ^ 62"
proof -
  have "\<bar>a\<bar> * \<bar>b\<bar> \<le> 2 ^ 31 * 2 ^ 31" using assms by (intro mult_mono) auto
  then show ?thesis by (simp add: abs_mult)
qed

lemma srdhm_range:
  assumes "int32 a" "int32 b" "srdhm a b = Inr r"
  shows "int32 r"
proof (cases "a = INT32_MIN \<and> b = INT32_MIN")
  case False
  have "a * b \<le> 2147483648 * 2147483647"
  proof (cases "0 \<le> a * b")
    case True
    have "\<bar>a\<bar> * \<bar>b\<bar> \<le> 2147483648 * 2147483647"
    proof (cases "a = INT32_MIN")
      case True
      with False assms(2) have "\<bar>b\<bar> \<le> 2147483647" by auto
      with True show ?thesis by simp
    next
      case False
      then have "\<bar>a\<bar> \<le> 2147483647" "\<bar>b\<bar> \<le> 2147483648" using assms by auto
      then have "\<bar>a\<bar> * \<bar>b\<bar> \<le> 2147483647 * 2147483648" by (intro mult_mono) auto
      then show ?thesis by simp
    qed
    then show ?thesis by (simp add: abs_mult [symmetric])
  qed simp
  moreover have "- (2 ^ 62) \<le> a * b" using product_bound [OF assms(1,2)] by linarith
  moreover have "r = (a * b + 2 ^ 30) div 2 ^ 31" using False assms(3) srdhm_eq [OF assms(1,2)] by auto
  ultimately show ?thesis by simp linarith
qed (use assms srdhm_eq in auto)

text \<open>The division by a power of two is rounded to nearest, ties away from zero.\<close>

lemma rdbp_eq:
  assumes "int32 x" "0 < r" "r \<le> 31"
  shows "rounding_divide_by_pot x r =
    Inr (if 0 \<le> x then (x + 2 ^ nat (r - 1)) div 2 ^ nat r else - ((- x + 2 ^ nat (r - 1)) div 2 ^ nat r))"
proof -
  define h :: int where "h = 2 ^ nat (r - 1)"
  have "nat r = Suc (nat (r - 1))" using assms(2) by simp
  then have p: "2 ^ nat r = 2 * h" by (simp add: h_def)
  have h: "0 < h" by (simp add: h_def)
  have low: "shl 1 r - 1 = 2 * h - 1" using p by (simp add: push_bit_eq_mult)
  have rem: "x AND (2 * h - 1) = x mod (2 * h)" using int_and_mask [of x "nat r"] p by simp
  have half: "shr (2 * h - 1) 1 = h - 1" by (simp add: drop_bit_eq_div)
  have sh: "shr x r = x div (2 * h)" using p by (simp add: drop_bit_eq_div)
  have dm: "x = 2 * h * (x div (2 * h)) + x mod (2 * h)" "0 \<le> x mod (2 * h)" "x mod (2 * h) < 2 * h"
    using h by simp_all
  have "x div (2 * h) + (if x mod (2 * h) > h - 1 + (if x < 0 then 1 else 0) then 1 else 0) =
      (if 0 \<le> x then (x + h) div (2 * h) else - ((- x + h) div (2 * h)))"
  proof (cases "0 \<le> x")
    case True
    have "x + h = (x mod (2 * h) + h) + 2 * h * (x div (2 * h))" using dm(1) by linarith
    then have "(x + h) div (2 * h) = x div (2 * h) + (x mod (2 * h) + h) div (2 * h)"
      using h by (simp only: div_mult_self2)
    moreover have "(x mod (2 * h) + h) div (2 * h) = (if x mod (2 * h) \<ge> h then 1 else 0)"
    proof (cases "x mod (2 * h) \<ge> h")
      case True
      then show ?thesis using dm(3) int_div_pos_eq [of "x mod (2 * h) + h" "2 * h" 1 "x mod (2 * h) - h"] by simp
    qed (use dm(2) in simp)
    ultimately show ?thesis using True by auto
  next
    case False
    have "- x + h = (h - x mod (2 * h)) + 2 * h * (- (x div (2 * h)))" using dm(1) by (simp add: algebra_simps)
    then have "(- x + h) div (2 * h) = - (x div (2 * h)) + (h - x mod (2 * h)) div (2 * h)"
      using h by (simp only: div_mult_self2)
    moreover have "(h - x mod (2 * h)) div (2 * h) = (if x mod (2 * h) > h then - 1 else 0)"
    proof (cases "x mod (2 * h) > h")
      case True
      moreover have "x mod (2 * h) \<le> 3 * h" using dm(3) h by linarith
      ultimately show ?thesis
        using h int_div_pos_eq [of "h - x mod (2 * h)" "2 * h" "- 1" "3 * h - x mod (2 * h)"] by simp
    next
      case False
      then have "(h - x mod (2 * h)) div (2 * h) = 0"
        by (intro div_pos_pos_trivial) (use dm(2) h in linarith)+
      with False show ?thesis by simp
    qed
    ultimately show ?thesis using False by auto
  qed
  then have e: "rounding_divide_by_pot x r =
      (if r = 0 then Inr x else Inr (if 0 \<le> x then (x + h) div (2 * h) else - ((- x + h) div (2 * h))))"
    if "require_int32 x = Inr x" "raise_if (r < 0 \<or> r > 31) (NpuValueError ''exponent must be within 0..31'') = Inr ()"
    unfolding rounding_divide_by_pot_def that bind_r_simps Let_def low rem half sh by (simp only:)
  show ?thesis
    using assms by (subst e) (simp_all add: require_simps raise_if_def p flip: h_def)
qed

lemma div_nearest:
  fixes x h :: int
  assumes "0 < h"
  shows "2 * \<bar>2 * h * ((x + h) div (2 * h)) - x\<bar> \<le> 2 * h"
proof -
  have "2 * h * ((x + h) div (2 * h)) = x + h - (x + h) mod (2 * h)" by (simp add: minus_mod_eq_mult_div)
  then have e: "2 * h * ((x + h) div (2 * h)) - x = h - (x + h) mod (2 * h)" by simp
  have "0 \<le> (x + h) mod (2 * h)" "(x + h) mod (2 * h) < 2 * h" using assms by simp_all
  moreover have "0 \<le> m \<Longrightarrow> m < 2 * h \<Longrightarrow> 2 * \<bar>h - m\<bar> \<le> 2 * h" for m by (simp add: abs_le_iff)
  ultimately show ?thesis unfolding e by blast
qed

lemma rdbp_facts:
  assumes "int32 x" "0 \<le> r" "r \<le> 31"
  obtains y where "rounding_divide_by_pot x r = Inr y" "int32 y" "2 * \<bar>2 ^ nat r * y - x\<bar> \<le> (if r = 0 then 0 else 2 ^ nat r)"
    "\<bar>y\<bar> \<le> \<bar>x\<bar>"
proof (cases "r = 0")
  case True
  then have "rounding_divide_by_pot x r = Inr x"
    using assms(1) by (simp add: rounding_divide_by_pot_def require_simps require_range_def raise_if_def)
  with assms(1) True show thesis by (intro that) auto
next
  case False
  define h :: int where "h = 2 ^ nat (r - 1)"
  have h: "0 < h" by (simp add: h_def)
  have "nat r = Suc (nat (r - 1))" using assms(2) False by simp
  then have p: "2 ^ nat r = 2 * h" by (simp add: h_def)
  define y where "y = (if 0 \<le> x then (x + h) div (2 * h) else - ((- x + h) div (2 * h)))"
  have "rounding_divide_by_pot x r = Inr y"
    using rdbp_eq [of x r] assms False by (simp add: y_def p flip: h_def)
  moreover have near: "2 * \<bar>2 * h * y - x\<bar> \<le> 2 * h"
  proof (cases "0 \<le> x")
    case True
    with div_nearest [OF h, of x] show ?thesis by (simp add: y_def)
  next
    case False
    have "\<bar>2 * h * y - x\<bar> = \<bar>2 * h * ((- x + h) div (2 * h)) - (- x)\<bar>" using False by (simp add: y_def)
    with div_nearest [OF h, of "- x"] show ?thesis by simp
  qed
  moreover have le: "\<bar>y\<bar> \<le> \<bar>x\<bar>"
  proof -
    have "(z + h) div (2 * h) \<le> z \<and> 0 \<le> (z + h) div (2 * h)" if "0 \<le> z" for z
    proof
      show "0 \<le> (z + h) div (2 * h)" using that h by (simp add: pos_imp_zdiv_nonneg_iff)
      show "(z + h) div (2 * h) \<le> z"
      proof (cases "z = 0")
        case False
        with that have "h \<le> z * h" "z \<le> z * h" using h by (simp_all add: mult_le_cancel_left1 mult_le_cancel_right1)
        moreover have "(z + 1) * (2 * h) = 2 * (z * h) + 2 * h" by algebra
        ultimately have "z + h < (z + 1) * (2 * h)" using h by linarith
        moreover have "(z + h) div (2 * h) * (2 * h) \<le> z + h"
          using h by (simp add: minus_mod_eq_div_mult [symmetric])
        ultimately have "(z + h) div (2 * h) * (2 * h) < (z + 1) * (2 * h)" by (rule le_less_trans [rotated])
        then have "(z + h) div (2 * h) < z + 1" using h by (simp only: mult_less_cancel_right)
        then show ?thesis by simp
      qed (use h in simp)
    qed
    from this [of x] this [of "- x"] show ?thesis by (auto simp: y_def)
  qed
  moreover have "int32 y"
  proof (cases "0 \<le> x")
    case True
    then have "0 \<le> y" using h by (simp add: y_def pos_imp_zdiv_nonneg_iff)
    with le assms(1) True show ?thesis by linarith
  next
    case False
    then have "y \<le> 0" using h by (simp add: y_def pos_imp_zdiv_nonneg_iff)
    with le assms(1) False show ?thesis by linarith
  qed
  ultimately show thesis using False by (intro that [of y]) (simp_all add: p)
qed

text \<open>C30: Bounds. Requantization of an INT32 value by a Q31 multiplier and a shift of -31..30 either
  reports the checked overflow of its left shift, exactly when the shifted value leaves INT32, or
  answers an INT32 value that differs from the exact real product by at most one half of the last
  place of each of its two roundings.\<close>

theorem requantization_exact:
  assumes "int32 x" "0 \<le> m" "m \<le> INT32_MAX" "- 31 \<le> s" "s \<le> 30"
  shows "if int32 (x * 2 ^ nat s)
    then \<exists>y. multiply_by_quantized_multiplier x m s = Inr y \<and> int32 y \<and>
      2 * \<bar>2 ^ nat (- s) * 2 ^ 31 * y - x * 2 ^ nat s * m\<bar> \<le> 2 ^ 31 * (if s < 0 then 2 ^ nat (- s) else 0) + 2 ^ 31
    else multiply_by_quantized_multiplier x m s =
      Inl (ArithmeticFault ''checked left shift overflow in requantization'')"
proof -
  define z where "z = x * 2 ^ nat s"
  have n: "nat (max s 0) = nat s" by simp
  have z: "shl x (max s 0) = z" by (simp add: z_def push_bit_eq_mult n)
  have unfold: "multiply_by_quantized_multiplier x m s =
      (if z < INT32_MIN \<or> z > INT32_MAX then Inl (ArithmeticFault ''checked left shift overflow in requantization'')
       else bind_r (srdhm z m) (\<lambda>product. rounding_divide_by_pot product (max (- s) 0)))"
    using assms by (simp add: multiply_by_quantized_multiplier_def require_simps require_range_def z Let_def)
  show ?thesis
  proof (cases "int32 z")
    case True
    have m: "int32 m" using assms by simp
    define p where "p = (z * m + 2 ^ 30) div 2 ^ 31"
    have p: "srdhm z m = Inr p" using srdhm_eq [OF True m] assms(2) by (simp add: p_def)
    have ip: "int32 p" by (rule srdhm_range [OF True m p])
    have near: "2 * \<bar>2 ^ 31 * p - z * m\<bar> \<le> 2 ^ 31" using div_nearest [of "2 ^ 30" "z * m"] by (simp add: p_def)
    from rdbp_facts [OF ip, of "max (- s) 0"] assms(4,5) obtain y where
      y: "rounding_divide_by_pot p (max (- s) 0) = Inr y" "int32 y"
        "2 * \<bar>2 ^ nat (max (- s) 0) * y - p\<bar> \<le> (if max (- s) 0 = 0 then 0 else 2 ^ nat (max (- s) 0))" by auto
    have e: "2 * \<bar>2 ^ nat (- s) * y - p\<bar> \<le> (if s < 0 then 2 ^ nat (- s) else 0)"
      using y(3) by (auto simp: max_def split: if_splits)
    have "2 * \<bar>2 ^ nat (- s) * 2 ^ 31 * y - z * m\<bar> \<le> 2 * \<bar>2 ^ 31 * (2 ^ nat (- s) * y - p)\<bar> + 2 * \<bar>2 ^ 31 * p - z * m\<bar>"
    proof -
      have "2 ^ nat (- s) * 2 ^ 31 * y - z * m = 2 ^ 31 * (2 ^ nat (- s) * y - p) + (2 ^ 31 * p - z * m)" by algebra
      then show ?thesis
        using mult_left_mono [OF abs_triangle_ineq [of "2 ^ 31 * (2 ^ nat (- s) * y - p)" "2 ^ 31 * p - z * m"], of 2]
        by (simp only: distrib_left)
    qed
    also have "\<dots> \<le> 2 ^ 31 * (if s < 0 then 2 ^ nat (- s) else 0) + 2 ^ 31"
    proof (rule add_mono)
      have "2 * \<bar>2 ^ 31 * (2 ^ nat (- s) * y - p)\<bar> = 2 ^ 31 * (2 * \<bar>2 ^ nat (- s) * y - p\<bar>)" unfolding abs_mult by simp
      then show "2 * \<bar>2 ^ 31 * (2 ^ nat (- s) * y - p)\<bar> \<le> 2 ^ 31 * (if s < 0 then 2 ^ nat (- s) else 0)"
        using mult_left_mono [OF e, of "2 ^ 31"] by (simp only: zero_le_power zero_le_numeral)
    qed (rule near)
    finally show ?thesis using unfold True p y(1,2) by (simp add: z_def)
  next
    case False
    then show ?thesis using unfold by (auto simp: z_def)
  qed
qed

theorem requantization_exact_witness:
  "\<exists>y. multiply_by_quantized_multiplier 1000 1610612736 (- 2) = Inr y \<and>
     2 * \<bar>2 ^ 2 * 2 ^ 31 * y - 1000 * 1610612736\<bar> \<le> 2 ^ 31 * 2 ^ 2 + (2 ^ 31 :: int)"
  using requantization_exact [of 1000 1610612736 "- 2"] by auto

section \<open>Real multipliers\<close>

lemma abs_diff_bounds:
  fixes x y d :: int
  assumes "2 * \<bar>x - y\<bar> \<le> d"
  shows "2 * x \<le> 2 * y + d" "2 * y \<le> 2 * x + d"
  using assms by (simp_all add: abs_if split: if_splits)

lemma bit_length_bounds:
  assumes "0 < m"
  shows "0 < bit_length m \<and> 2 ^ nat (bit_length m - 1) \<le> m \<and> m < 2 ^ nat (bit_length m)"
  using assms
proof (induction m rule: bit_length.induct)
  case (1 n)
  have b: "bit_length n = 1 + bit_length (n div 2)" using 1(2) by (simp add: bit_length.simps [of n])
  show ?case
  proof (cases "n = 1")
    case True
    have "bit_length 0 = 0" by (simp add: bit_length.simps)
    then show ?thesis using True b by simp
  next
    case False
    with 1(2) have "0 < n div 2" by simp
    with 1 have i: "0 < bit_length (n div 2)" "2 ^ nat (bit_length (n div 2) - 1) \<le> n div 2"
      "n div 2 < 2 ^ nat (bit_length (n div 2))" by auto
    have "nat (bit_length n) = Suc (nat (bit_length (n div 2)))"
      "nat (bit_length n - 1) = Suc (nat (bit_length (n div 2) - 1))" using b i(1) by simp_all
    then show ?thesis using i b by simp linarith
  qed
qed

text \<open>Rounding \<open>m / d\<close>, a fraction of at least a half, to 31 bits: the range, the error, and when it carries.\<close>

lemma q31_rounding:
  fixes m d f :: int
  assumes "m < d" "b \<le> m" "2 * b = d" "f = (2 * (m * 2 ^ 31) + d) div (2 * d)"
  shows "2 ^ 30 \<le> f" "f \<le> 2 ^ 31" "2 * (f * d) \<le> 2 * (m * 2 ^ 31) + d" "2 * (m * 2 ^ 31) < 2 * (f * d) + d"
    "f = 2 ^ 31 \<longleftrightarrow> (2 ^ 32 - 1) * d \<le> m * 2 ^ 32" "0 < d"
proof -
  show d: "0 < d" using assms(1-3) by linarith
  define r where "r = (2 * (m * 2 ^ 31) + d) mod (2 * d)"
  have "2 * d * f + r = 2 * (m * 2 ^ 31) + d" unfolding assms(4) r_def by (rule mult_div_mod_eq)
  moreover have "2 * d * f = 2 * (f * d)" by (simp only: ac_simps)
  ultimately have e: "2 * (f * d) + r = m * 4294967296 + d" by simp
  have r: "0 \<le> r" "r < 2 * d" using d by (simp_all add: r_def)
  show "2 * (f * d) \<le> 2 * (m * 2 ^ 31) + d" "2 * (m * 2 ^ 31) < 2 * (f * d) + d" using e r by simp_all
  have below: "f * d \<le> k * d" if "f \<le> k" for k using that d by (intro mult_right_mono) simp_all
  have above: "k * d \<le> f * d" if "k \<le> f" for k using that d by (intro mult_right_mono) simp_all
  show "2 ^ 30 \<le> f"
  proof (rule ccontr)
    assume "\<not> 2 ^ 30 \<le> f"
    then have "f \<le> 1073741823" by simp
    from below [OF this] show False using e r d assms(2,3) by linarith
  qed
  show hi: "f \<le> 2 ^ 31"
  proof (rule ccontr)
    assume "\<not> f \<le> 2 ^ 31"
    then have "2147483649 \<le> f" by simp
    from above [OF this] show False using e r d assms(1) by linarith
  qed
  show "f = 2 ^ 31 \<longleftrightarrow> (2 ^ 32 - 1) * d \<le> m * 2 ^ 32"
  proof
    assume "f = 2 ^ 31"
    then have "f * d = 2147483648 * d" by simp
    then show "(2 ^ 32 - 1) * d \<le> m * 2 ^ 32" using e r d by simp
  next
    assume c: "(2 ^ 32 - 1) * d \<le> m * 2 ^ 32"
    show "f = 2 ^ 31"
    proof (rule ccontr)
      assume "f \<noteq> 2 ^ 31"
      then have "f \<le> 2147483647" using hi by simp
      moreover have "4294967295 * d \<le> m * 4294967296" using c by simp
      ultimately show False using below [of 2147483647] e r d by linarith
    qed
  qed
qed

text \<open>The result underflows exactly below the smallest multiplier.\<close>

lemma flush_threshold:
  fixes m e :: int
  assumes "0 < bit_length m" "2 ^ nat (bit_length m - 1) \<le> m" "m < 2 ^ nat (bit_length m)"
  shows "(if (2 ^ 32 - 1) * 2 ^ nat (bit_length m) \<le> m * 2 ^ 32 then bit_length m + e + 1 else bit_length m + e) < - 31
    \<longleftrightarrow> m * 2 ^ 64 < (2 ^ 32 - 1) * 2 ^ nat (- e)"
proof -
  define n where "n = nat (bit_length m)"
  define k where "k = nat (- e)"
  define d :: int where "d = 2 ^ n"
  have n: "bit_length m = int n" "0 < n" using assms(1) by (simp_all add: n_def)
  have "d = 2 * 2 ^ nat (bit_length m - 1)" using assms(1) by (simp add: d_def n_def flip: power_Suc)
  then have m: "d \<le> 2 * m" "m < d" "0 < d" using assms(2,3) by (simp_all add: d_def n_def)
  consider "0 \<le> e" | "e < 0" "n + 33 \<le> k" | "e < 0" "k = n + 32" | "e < 0" "k < n + 32" by linarith
  then show ?thesis
  proof cases
    case 1
    then show ?thesis using n m by simp
  next
    case 2
    then have "(2::int) ^ (n + 33) \<le> 2 ^ k" by (intro power_increasing) simp_all
    then have p: "d * 8589934592 \<le> 2 ^ k" by (simp add: d_def power_add)
    have "int n + e + 33 \<le> 0" using 2 by (simp add: k_def)
    moreover have "m * 18446744073709551616 < 4294967295 * 2 ^ k" using p m by linarith
    ultimately show ?thesis using n by (simp add: k_def)
  next
    case 3
    then have "(2::int) ^ nat (- e) = d * 4294967296" by (simp add: d_def power_add flip: k_def)
    moreover have "int n + e = - 32" using 3 by (simp add: k_def)
    moreover have "m * 18446744073709551616 < 4294967295 * (d * 4294967296) \<longleftrightarrow> \<not> 4294967295 * d \<le> m * 4294967296" by auto
    ultimately show ?thesis using n by (simp flip: d_def)
  next
    case 4
    then have "(2::int) ^ k \<le> 2 ^ (n + 31)" by (intro power_increasing) simp_all
    then have p: "2 ^ k \<le> d * 2147483648" by (simp add: d_def power_add)
    have "- 31 \<le> int n + e" using 4 by (simp add: k_def)
    moreover have "\<not> m * 18446744073709551616 < 4294967295 * 2 ^ k" using p m by linarith
    ultimately show ?thesis using n by (simp add: k_def)
  qed
qed

text \<open>C31: A nonnegative multiplier \<open>m * 2 ^ e\<close> always converts. It is flushed to \<open>(0, 0)\<close> exactly when it is
  smaller than \<open>2 ^ -32 - 2 ^ -64\<close>, that is, when rounding it to 31 significant bits stays below the smallest
  multiplier with shift -31. Otherwise the result is a Q31 significand of \<open>2 ^ 30 .. 2 ^ 31 - 1\<close> and a shift of
  at least -31, and the converted number is the nearest one, ties upwards: it exceeds the multiplier by at
  most half a unit of the significand's last place and is less than half a unit below it.\<close>

theorem quantize_multiplier_nearest:
  assumes "0 \<le> m"
  shows "\<exists>q s. quantize_multiplier (Finite m e) = Inr (q, s) \<and>
    (if m * 2 ^ 64 < (2 ^ 32 - 1) * 2 ^ nat (- e) then q = 0 \<and> s = 0
     else 2 ^ 30 \<le> q \<and> q < 2 ^ 31 \<and> - 31 \<le> s \<and> 0 \<le> s - e
       \<and> 2 * (q * 2 ^ nat (s - e)) \<le> 2 * (m * 2 ^ 31) + 2 ^ nat (s - e)
       \<and> 2 * (m * 2 ^ 31) < 2 * (q * 2 ^ nat (s - e)) + 2 ^ nat (s - e))"
proof (cases "m = 0")
  case True
  then show ?thesis by (simp add: quantize_multiplier_def)
next
  case False
  then have m: "0 < m" using assms by simp
  define n where "n = nat (bit_length m)"
  define d :: int where "d = 2 ^ n"
  have b: "0 < bit_length m" "2 ^ nat (bit_length m - 1) \<le> m" "m < d"
    using bit_length_bounds [OF m] by (simp_all add: d_def n_def)
  have half: "2 * 2 ^ nat (bit_length m - 1) = d" using b(1) by (simp add: d_def n_def flip: power_Suc)
  define f where "f = (2 * (m * 2 ^ 31) + d) div (2 * d)"
  note f = q31_rounding [OF b(3) b(2) half, folded f_def]
  let ?s = "if f = 2 ^ 31 then bit_length m + e + 1 else bit_length m + e"
  have res: "quantize_multiplier (Finite m e) =
      (let q = (if f = 2 ^ 31 then 2 ^ 30 else f) in if ?s < - 31 then Inr (0, 0) else Inr (q, ?s))"
    using m by (simp add: quantize_multiplier_def q31_fraction_def Let_def f_def push_bit_eq_mult drop_bit_eq_div d_def n_def)
  have flush: "?s < - 31 \<longleftrightarrow> m * 2 ^ 64 < (2 ^ 32 - 1) * 2 ^ nat (- e)"
    using flush_threshold [OF b(1,2) b(3) [unfolded d_def n_def]] f(5) by (simp add: d_def n_def)
  show ?thesis
  proof (cases "?s < - 31")
    case True
    then show ?thesis using res flush by simp
  next
    case no_flush: False
    show ?thesis
    proof (cases "f = 2 ^ 31")
      case True
      have "nat (bit_length m + e + 1 - e) = Suc n" using b(1) by (simp add: n_def)
      then have p: "2 ^ nat (bit_length m + e + 1 - e) = 2 * d" by (simp add: d_def)
      show ?thesis using res no_flush flush True f b(1) by (simp add: p [simplified])
    next
      case False
      have "nat (bit_length m + e - e) = n" by (simp add: n_def)
      then have p: "2 ^ nat (bit_length m + e - e) = d" by (simp add: d_def)
      show ?thesis using res no_flush flush False f b(1) by (simp add: p [simplified])
    qed
  qed
qed

theorem quantize_multiplier_nearest_witness:
  "quantize_multiplier (Finite 3 (- 3)) = Inr (1610612736, - 1) \<and> quantize_multiplier (Finite 1 (- 32)) \<noteq> Inr (0, 0)
   \<and> quantize_multiplier (Finite 1 (- 33)) = Inr (0, 0)"
proof -
  have "quantize_multiplier (Finite 3 (- 3)) = Inr (1610612736, - 1)" by code_simp
  moreover have "quantize_multiplier (Finite 1 (- 32)) \<noteq> Inr (0, 0)" "quantize_multiplier (Finite 1 (- 33)) = Inr (0, 0)"
    using quantize_multiplier_nearest [of 1 "- 32"] quantize_multiplier_nearest [of 1 "- 33"] by auto
  ultimately show ?thesis by simp
qed

end
