(* ===== verification/Npu_Ops.thy ===== *)
theory Npu_Ops
  imports Npu_Arith_Props
begin

text \<open>
  The operators of \<open>src/scripts/npu_reference.py\<close>: convolution, depthwise convolution, fully connected
  layer, element-wise addition, the three poolings, clamping and the integer softmax. The nested
  \<open>for\<close> loops that append to \<open>output\<close> are \<open>grid_r\<close>; the loops over a kernel window that skip the
  positions outside the input are \<open>window_fold\<close>. Keyword arguments that several operators share are
  the fields of \<open>window_args\<close> and \<open>quant_args\<close>.
\<close>

unbundle bit_operations_syntax

record window_args =
  stride_h :: int
  stride_w :: int
  pad_top :: int
  pad_bottom :: int
  pad_left :: int
  pad_right :: int

record quant_args =
  output_scale :: py_float
  output_zero_point :: int
  act_min :: int
  act_max :: int

definition window_pads :: "window_args \<Rightarrow> int \<times> int \<times> int \<times> int" where
  "window_pads a = (pad_top a, pad_bottom a, pad_left a, pad_right a)"

section \<open>Loops\<close>

definition grid_r :: "int \<Rightarrow> int \<Rightarrow> int \<Rightarrow> (int \<Rightarrow> int \<Rightarrow> int \<Rightarrow> npu_error + int) \<Rightarrow> npu_error + int list" where
  "grid_r nh nw nc cell =
     map_r (\<lambda>(oh, ow, c). cell oh ow c)
       (concat (map (\<lambda>oh. concat (map (\<lambda>ow. map (\<lambda>c. (oh, ow, c)) (py_range 0 nc)) (py_range 0 nw))) (py_range 0 nh)))"

definition window_fold ::
  "tensor \<Rightarrow> window_args \<Rightarrow> int \<Rightarrow> int \<Rightarrow> int \<Rightarrow> int \<Rightarrow>
    (int \<Rightarrow> int \<Rightarrow> int \<Rightarrow> int \<Rightarrow> 'a \<Rightarrow> npu_error + 'a) \<Rightarrow> 'a \<Rightarrow> npu_error + 'a" where
  "window_fold t a kh kw oh ow body start =
     foldl_r (\<lambda>acc kernel_h.
       let ih = oh * stride_h a + kernel_h - pad_top a in
       if ih < 0 \<or> ih \<ge> t_height t then Inr acc
       else
         foldl_r (\<lambda>acc kernel_w.
           let iw = ow * stride_w a + kernel_w - pad_left a in
           if iw < 0 \<or> iw \<ge> t_width t then Inr acc else body kernel_h kernel_w ih iw acc)
           acc (py_range 0 kw))
       start (py_range 0 kh)"

definition act_clamp :: "int \<times> int \<Rightarrow> int \<Rightarrow> int" where
  "act_clamp act v = max (fst act) (min (snd act) v)"

section \<open>Convolutions\<close>

definition conv_cell ::
  "tensor \<Rightarrow> window_args \<Rightarrow> int \<Rightarrow> int \<Rightarrow> int list \<Rightarrow> int list \<Rightarrow> int \<Rightarrow> int \<Rightarrow> int \<Rightarrow> npu_error + int" where
  "conv_cell t a kh kw flat bias oh ow c =
     (let cin = t_channels t in
      bind_r (npu_index bias c) (\<lambda>start.
      window_fold t a kh kw oh ow
        (\<lambda>kernel_h kernel_w ih iw acc.
           foldl_r (\<lambda>acc ci.
             bind_r (value_at t ih iw ci) (\<lambda>v.
             bind_r (npu_index flat (c * kh * kw * cin + (kernel_h * kw + kernel_w) * cin + ci)) (\<lambda>w.
               checked_accumulate acc ((v - t_zero_point t) * w) ''conv2d accumulation'')))
             acc (py_range 0 cin))
        start))"

text \<open>The requantization of a finished accumulator with the words of its channel.\<close>

definition requantize_cell ::
  "int list \<Rightarrow> int list \<Rightarrow> int \<Rightarrow> int \<times> int \<Rightarrow> int \<Rightarrow> int \<Rightarrow> npu_error + int" where
  "requantize_cell multipliers shifts zout act c accumulator =
     bind_r (npu_index multipliers c) (\<lambda>m. bind_r (npu_index shifts c) (\<lambda>s.
       requantize accumulator m s zout (fst act) (snd act)))"

definition window_extents :: "tensor \<Rightarrow> window_args \<Rightarrow> int \<Rightarrow> int \<Rightarrow> npu_error + (int \<times> int)" where
  "window_extents t a kh kw =
     bind_r (validate_strides (stride_h a) (stride_w a)) (\<lambda>_.
     bind_r (validate_pads (window_pads a) kh kw) (\<lambda>_.
     bind_r (output_extent (t_height t) (pad_top a) (pad_bottom a) kh (stride_h a)) (\<lambda>oh_extent.
     bind_r (output_extent (t_width t) (pad_left a) (pad_right a) kw (stride_w a)) (\<lambda>ow_extent.
       Inr (oh_extent, ow_extent)))))"

definition conv2d ::
  "tensor \<Rightarrow> int list list list list \<Rightarrow> int list \<Rightarrow> int list \<Rightarrow> int list \<Rightarrow> window_args \<Rightarrow> quant_args \<Rightarrow>
    npu_error + tensor" where
  "conv2d t weights bias multipliers shifts a q =
     bind_r (validate_conv_weights weights (t_channels t)) (\<lambda>(cout, kh, kw, flat).
     bind_r (validate_bias bias cout) (\<lambda>bs.
     bind_r (validate_multipliers multipliers cout) (\<lambda>ms.
     bind_r (validate_shifts shifts cout) (\<lambda>ss.
     bind_r (validate_act_bounds (act_min q) (act_max q)) (\<lambda>act.
     bind_r (validate_output_quantization (output_scale q) (output_zero_point q)) (\<lambda>(scale, zout).
     bind_r (window_extents t a kh kw) (\<lambda>(oh_extent, ow_extent).
     bind_r (grid_r oh_extent ow_extent cout (\<lambda>oh ow c.
       bind_r (conv_cell t a kh kw flat bs oh ow c) (requantize_cell ms ss zout act c))) (\<lambda>output.
       tensor_new (oh_extent, ow_extent, cout) output scale zout))))))))"

definition depthwise_cell ::
  "tensor \<Rightarrow> window_args \<Rightarrow> int \<Rightarrow> int \<Rightarrow> int list \<Rightarrow> int list \<Rightarrow> int \<Rightarrow> int \<Rightarrow> int \<Rightarrow> npu_error + int" where
  "depthwise_cell t a kh kw flat bias oh ow c =
     bind_r (npu_index bias c) (\<lambda>start.
     window_fold t a kh kw oh ow
       (\<lambda>kernel_h kernel_w ih iw acc.
          bind_r (value_at t ih iw c) (\<lambda>v.
          bind_r (npu_index flat ((kernel_h * kw + kernel_w) * t_channels t + c)) (\<lambda>w.
            checked_accumulate acc ((v - t_zero_point t) * w) ''depthwise accumulation'')))
       start)"

definition depthwise_conv2d ::
  "tensor \<Rightarrow> int list list list \<Rightarrow> int list \<Rightarrow> int list \<Rightarrow> int list \<Rightarrow> window_args \<Rightarrow> quant_args \<Rightarrow>
    npu_error + tensor" where
  "depthwise_conv2d t weights bias multipliers shifts a q =
     (let cout = t_channels t in
     bind_r (validate_depthwise_weights weights cout) (\<lambda>(kh, kw, flat).
     bind_r (validate_bias bias cout) (\<lambda>bs.
     bind_r (validate_multipliers multipliers cout) (\<lambda>ms.
     bind_r (validate_shifts shifts cout) (\<lambda>ss.
     bind_r (validate_act_bounds (act_min q) (act_max q)) (\<lambda>act.
     bind_r (validate_output_quantization (output_scale q) (output_zero_point q)) (\<lambda>(scale, zout).
     bind_r (window_extents t a kh kw) (\<lambda>(oh_extent, ow_extent).
     bind_r (grid_r oh_extent ow_extent cout (\<lambda>oh ow c.
       bind_r (depthwise_cell t a kh kw flat bs oh ow c) (requantize_cell ms ss zout act c))) (\<lambda>output.
       tensor_new (oh_extent, ow_extent, cout) output scale zout)))))))))"

section \<open>Fully connected layer and addition\<close>

text \<open>Multipliers and shifts are one word for all channels or one per channel.\<close>

datatype channel_words = OneWord int | PerChannel "int list"

fun expand_words :: "channel_words \<Rightarrow> int \<Rightarrow> int list" where
  "expand_words (OneWord v) cout = replicate (nat cout) v"
| "expand_words (PerChannel vs) cout = vs"

definition fc_cell :: "tensor \<Rightarrow> int list \<Rightarrow> int list \<Rightarrow> int \<Rightarrow> npu_error + int" where
  "fc_cell t flat bias c =
     (let cin = t_channels t in
      bind_r (npu_index bias c) (\<lambda>start.
      foldl_r (\<lambda>acc ci.
        bind_r (npu_index (t_data t) ci) (\<lambda>v.
        bind_r (npu_index flat (c * cin + ci)) (\<lambda>w.
          checked_accumulate acc ((v - t_zero_point t) * w) ''fc accumulation'')))
        start (py_range 0 cin)))"

definition fully_connected ::
  "tensor \<Rightarrow> int list list \<Rightarrow> int list \<Rightarrow> channel_words \<Rightarrow> channel_words \<Rightarrow> quant_args \<Rightarrow> npu_error + tensor" where
  "fully_connected t weights bias multipliers shifts q =
     bind_r (raise_if (t_height t \<noteq> 1 \<or> t_width t \<noteq> 1)
       (NpuValueError ''FULLY_CONNECTED requires a H=W=1 input tensor'')) (\<lambda>_.
     bind_r (validate_fc_weights weights (t_channels t)) (\<lambda>(cout, flat).
     bind_r (validate_bias bias cout) (\<lambda>bs.
     bind_r (validate_multipliers (expand_words multipliers cout) cout) (\<lambda>ms.
     bind_r (validate_shifts (expand_words shifts cout) cout) (\<lambda>ss.
     bind_r (validate_act_bounds (act_min q) (act_max q)) (\<lambda>act.
     bind_r (validate_output_quantization (output_scale q) (output_zero_point q)) (\<lambda>(scale, zout).
     bind_r (map_r (\<lambda>c. bind_r (fc_cell t flat bs c) (requantize_cell ms ss zout act c)) (py_range 0 cout)) (\<lambda>output.
       tensor_new (1, 1, cout) output scale zout))))))))"

record add_args =
  input0_multiplier :: int
  input0_shift :: int
  input1_multiplier :: int
  input1_shift :: int
  output_multiplier :: int
  output_shift :: int

definition add_cell :: "tensor \<Rightarrow> tensor \<Rightarrow> add_args \<Rightarrow> int \<Rightarrow> int \<times> int \<Rightarrow> int \<times> int \<Rightarrow> npu_error + int" where
  "add_cell t0 t1 a zout act raw =
     (let x0 = (fst raw - t_zero_point t0) * shl 1 20; x1 = (snd raw - t_zero_point t1) * shl 1 20 in
      bind_r (multiply_by_quantized_multiplier x0 (input0_multiplier a) (input0_shift a)) (\<lambda>term0.
      bind_r (multiply_by_quantized_multiplier x1 (input1_multiplier a) (input1_shift a)) (\<lambda>term1.
      bind_r (checked_accumulate term0 term1 ''checked INT32 overflow in ADD sum'') (\<lambda>summed.
        requantize summed (output_multiplier a) (output_shift a) zout (fst act) (snd act)))))"

definition npu_add :: "tensor \<Rightarrow> tensor \<Rightarrow> add_args \<Rightarrow> quant_args \<Rightarrow> npu_error + tensor" where
  "npu_add t0 t1 a q =
     bind_r (raise_if (t_shape t0 \<noteq> t_shape t1) (NpuValueError ''ADD inputs must have identical shapes'')) (\<lambda>_.
     bind_r (map_r require_multiplier [input0_multiplier a, input1_multiplier a, output_multiplier a]) (\<lambda>_.
     bind_r (map_r require_shift [input0_shift a, input1_shift a, output_shift a]) (\<lambda>_.
     bind_r (validate_act_bounds (act_min q) (act_max q)) (\<lambda>act.
     bind_r (validate_output_quantization (output_scale q) (output_zero_point q)) (\<lambda>(scale, zout).
     bind_r (raise_if (length (t_data t0) \<noteq> length (t_data t1)) (NpuValueError ''zip arguments differ in length'')) (\<lambda>_.
     bind_r (map_r (add_cell t0 t1 a zout act) (zip (t_data t0) (t_data t1))) (\<lambda>output.
       tensor_new (t_shape t0) output scale zout)))))))"

section \<open>Pooling\<close>

definition pool_geometry :: "tensor \<Rightarrow> int \<Rightarrow> int \<Rightarrow> window_args \<Rightarrow> npu_error + (int \<times> int)" where
  "pool_geometry t kh kw a =
     bind_r (raise_if (kh < 1 \<or> kh > 16 \<or> kw < 1 \<or> kw > 16)
       (NpuValueError ''pool kernel dimensions must be within 1..16'')) (\<lambda>_. window_extents t a kh kw)"

definition pool ::
  "(int \<Rightarrow> int \<Rightarrow> int \<Rightarrow> npu_error + int) \<Rightarrow> tensor \<Rightarrow> int \<Rightarrow> int \<Rightarrow> window_args \<Rightarrow> int \<Rightarrow> int \<Rightarrow> npu_error + tensor" where
  "pool cell t kh kw a lo hi =
     bind_r (validate_act_bounds lo hi) (\<lambda>act.
     bind_r (pool_geometry t kh kw a) (\<lambda>(oh_extent, ow_extent).
     bind_r (grid_r oh_extent ow_extent (t_channels t) (\<lambda>oh ow c.
       bind_r (cell oh ow c) (\<lambda>v. Inr (act_clamp act v)))) (\<lambda>output.
       tensor_new (oh_extent, ow_extent, t_channels t) output (t_scale t) (t_zero_point t))))"

definition max_cell :: "tensor \<Rightarrow> window_args \<Rightarrow> int \<Rightarrow> int \<Rightarrow> int \<Rightarrow> int \<Rightarrow> int \<Rightarrow> npu_error + int" where
  "max_cell t a kh kw oh ow c =
     window_fold t a kh kw oh ow
       (\<lambda>kernel_h kernel_w ih iw best. bind_r (value_at t ih iw c) (\<lambda>v. Inr (max best v))) INT8_MIN"

definition max_pool :: "tensor \<Rightarrow> int \<Rightarrow> int \<Rightarrow> window_args \<Rightarrow> int \<Rightarrow> int \<Rightarrow> npu_error + tensor" where
  "max_pool t kh kw a lo hi = pool (max_cell t a kh kw) t kh kw a lo hi"

definition average_cell :: "tensor \<Rightarrow> window_args \<Rightarrow> int \<Rightarrow> int \<Rightarrow> int \<Rightarrow> int \<Rightarrow> int \<Rightarrow> npu_error + int" where
  "average_cell t a kh kw oh ow c =
     bind_r (window_fold t a kh kw oh ow
       (\<lambda>kernel_h kernel_w ih iw (summed, count).
          bind_r (value_at t ih iw c) (\<lambda>v.
          bind_r (checked_accumulate summed v ''average pool sum'') (\<lambda>s. Inr (s, count + 1)))) (0, 0))
       (\<lambda>(summed, count). round_ties_away summed count)"

definition average_pool :: "tensor \<Rightarrow> int \<Rightarrow> int \<Rightarrow> window_args \<Rightarrow> int \<Rightarrow> int \<Rightarrow> npu_error + tensor" where
  "average_pool t kh kw a lo hi = pool (average_cell t a kh kw) t kh kw a lo hi"

definition global_sum :: "tensor \<Rightarrow> int \<Rightarrow> npu_error + int" where
  "global_sum t c =
     foldl_r (\<lambda>acc h.
       foldl_r (\<lambda>acc w. bind_r (value_at t h w c) (\<lambda>v. checked_accumulate acc v ''global average sum''))
         acc (py_range 0 (t_width t)))
       0 (py_range 0 (t_height t))"

definition global_average_pool :: "tensor \<Rightarrow> int \<Rightarrow> int \<Rightarrow> npu_error + tensor" where
  "global_average_pool t lo hi =
     bind_r (validate_act_bounds lo hi) (\<lambda>act.
     bind_r (map_r (\<lambda>c.
       bind_r (global_sum t c) (\<lambda>s.
       bind_r (round_ties_away s (t_height t * t_width t)) (\<lambda>v. Inr (act_clamp act v)))) (py_range 0 (t_channels t)))
       (\<lambda>output. tensor_new (1, 1, t_channels t) output (t_scale t) (t_zero_point t)))"

definition npu_clamp :: "tensor \<Rightarrow> int \<Rightarrow> int \<Rightarrow> npu_error + tensor" where
  "npu_clamp t lo hi =
     bind_r (validate_act_bounds lo hi) (\<lambda>act.
       tensor_new (t_shape t) (map (act_clamp act) (t_data t)) (t_scale t) (t_zero_point t))"

section \<open>Softmax\<close>

definition exp_on_interval_q31 :: "int \<Rightarrow> npu_error + int" where
  "exp_on_interval_q31 a =
     (let x = a + shl 1 28 in
      bind_r (srdhm x x) (\<lambda>x2.
      bind_r (srdhm x2 x) (\<lambda>x3.
      bind_r (srdhm x2 x2) (\<lambda>x4.
      bind_r (rounding_divide_by_pot x4 2) (\<lambda>x4_over_4.
      bind_r (srdhm (x4_over_4 + x3) 715827883) (\<lambda>third.
      bind_r (rounding_divide_by_pot (third + x2) 1) (\<lambda>series.
      bind_r (srdhm 1895147668 (x + series)) (\<lambda>p. Inr (1895147668 + p)))))))))"

definition exp_barrel :: "(int \<times> int) list" where
  "exp_barrel = [(- 2, 1672461947), (- 1, 1302514674), (0, 790015084), (1, 290630308), (2, 39332535),
     (3, 720401), (4, 242)]"

definition exp_on_negative_values :: "int \<Rightarrow> npu_error + int" where
  "exp_on_negative_values a =
     (let quarter = shl 1 24;
          a_mod_quarter = (a AND (quarter - 1)) - quarter;
          remainder = a_mod_quarter - a in
      bind_r (exp_on_interval_q31 (shl a_mod_quarter 5)) (\<lambda>start.
      bind_r (foldl_r (\<lambda>acc (exponent, multiplier).
          if remainder AND shl 1 (26 + exponent) \<noteq> 0 then srdhm acc multiplier else Inr acc) start exp_barrel)
        (\<lambda>result. Inr (if a = 0 then INT32_MAX else result))))"

definition saturating_left_shift :: "int \<Rightarrow> int \<Rightarrow> int" where
  "saturating_left_shift v exponent =
     (if exponent \<le> 0 then v
      else
        let threshold = shl 1 (31 - exponent) - 1 in
        if v > threshold then INT32_MAX else if v < - threshold then INT32_MIN else shl v exponent)"

definition newton_step :: "int \<Rightarrow> int \<Rightarrow> npu_error + int" where
  "newton_step half_denominator estimate =
     bind_r (srdhm half_denominator estimate) (\<lambda>product.
     bind_r (srdhm estimate (shl 1 29 - product)) (\<lambda>increment.
       Inr (estimate + saturating_left_shift increment 2)))"

definition one_over_one_plus_x :: "int \<Rightarrow> npu_error + int" where
  "one_over_one_plus_x a =
     (let s = a + INT32_MAX;
          half_denominator = trunc_div (s + (if s \<ge> 0 then 1 else - 1)) 2 in
      bind_r (srdhm half_denominator (- 1010580540)) (\<lambda>p.
      bind_r (foldl_r (\<lambda>estimate _. newton_step half_denominator estimate) (1515870810 + p) (py_range 0 3))
        (\<lambda>estimate. Inr (saturating_left_shift estimate 1))))"

definition softmax_exponentials :: "int list \<Rightarrow> int \<Rightarrow> int \<Rightarrow> int \<Rightarrow> npu_error + int option list" where
  "softmax_exponentials values multiplier left_shift diff_min =
     map_r (\<lambda>v.
       let difference = v - Max (set values) in
       if difference \<ge> diff_min then
         bind_r (srdhm (difference * shl 1 left_shift) multiplier) (\<lambda>scaled.
         bind_r (exp_on_negative_values scaled) (\<lambda>x. Inr (Some x)))
       else Inr None) values"

definition softmax_sum :: "int option list \<Rightarrow> npu_error + int" where
  "softmax_sum exps =
     foldl_r (\<lambda>acc x. bind_r (rounding_divide_by_pot x 12) (\<lambda>v. Inr (acc + v))) 0
       (List.map_filter (\<lambda>x. x) exps)"

definition softmax_row :: "int \<Rightarrow> int \<Rightarrow> int \<Rightarrow> int list \<Rightarrow> npu_error + int list" where
  "softmax_row multiplier left_shift diff_min values =
     bind_r (softmax_exponentials values multiplier left_shift diff_min) (\<lambda>exps.
     bind_r (softmax_sum exps) (\<lambda>accumulation.
     bind_r (raise_if (accumulation \<ge> shl 1 31)
       (ArithmeticFault ''checked INT32 overflow in softmax accumulation'')) (\<lambda>_.
     let headroom = 32 - bit_length \<bar>accumulation\<bar>;
         num_bits_over_unit = 12 - headroom;
         shifted_sum = (shl accumulation headroom AND 4294967295) - shl 1 31 in
     bind_r (one_over_one_plus_x shifted_sum) (\<lambda>scale.
       map_r (\<lambda>e.
         case e of
           None \<Rightarrow> Inr INT8_MIN
         | Some x \<Rightarrow>
             bind_r (srdhm scale x) (\<lambda>p.
             bind_r (rounding_divide_by_pot p (num_bits_over_unit + 23)) (\<lambda>unsaturated.
               Inr (max INT8_MIN (min INT8_MAX (unsaturated + INT8_MIN)))))) exps))))"

definition tensor_rows :: "tensor \<Rightarrow> int list list" where
  "tensor_rows t =
     map (\<lambda>row. take (nat (t_channels t)) (drop (nat (row * t_channels t)) (t_data t)))
       (py_range 0 (t_height t * t_width t))"

definition softmax_int8 :: "tensor \<Rightarrow> int \<Rightarrow> int \<Rightarrow> int \<Rightarrow> npu_error + tensor" where
  "softmax_int8 t multiplier left_shift diff_min =
     bind_r (require_multiplier multiplier) (\<lambda>_.
     bind_r (raise_if (multiplier = 0) (NpuValueError ''softmax input multiplier must be positive'')) (\<lambda>_.
     bind_r (raise_if (left_shift < 0 \<or> left_shift > 31) (NpuValueError ''input left shift must be within 0..31'')) (\<lambda>_.
     bind_r (raise_if (diff_min < - (31 * shl 1 26 div shl 1 left_shift) \<or> diff_min > 0)
       (NpuValueError ''diff_min exceeds the safe Q5.26 input radius'')) (\<lambda>_.
     bind_r (map_r (softmax_row multiplier left_shift diff_min) (tensor_rows t)) (\<lambda>rows.
       tensor_new (t_shape t) (concat rows) (Finite 1 (- 8)) (- 128))))))"

end
