(* ===== verification/Npu_Ops_Props.thy ===== *)
theory Npu_Ops_Props
  imports Npu_Ops
begin

text \<open>
  The operators of \<open>src/scripts/npu_reference.py\<close> compute what they should: loops of checked additions are
  sums, a kernel window always meets the input, average pooling is the nearest integer to the mean,
  the convolution over flattened weights is the textbook sum, and the limit of the integer softmax.
\<close>

unbundle bit_operations_syntax

section \<open>Loops as sums\<close>

text \<open>A loop of checked additions returns the sum of its terms; it returns whenever the magnitudes fit.\<close>

lemma checked_accumulate_Inr: "checked_accumulate a s msg = Inr b \<longleftrightarrow> b = a + s \<and> int32 b"
  by (auto simp: checked_accumulate_def Let_def)

lemma checked_fold_sum:
  assumes "\<And>x acc. x \<in> set xs \<Longrightarrow> f acc x = checked_accumulate acc (g x) msg" "foldl_r f a xs = Inr b"
  shows "b = a + (\<Sum>x\<leftarrow>xs. g x)"
  using assms
proof (induction xs arbitrary: a)
  case (Cons x xs)
  then show ?case by (auto simp: bind_r_Inr checked_accumulate_Inr) fastforce
qed simp

lemma checked_fold_total:
  assumes "\<And>x acc. x \<in> set xs \<Longrightarrow> f acc x = checked_accumulate acc (g x) msg"
    and "\<bar>a\<bar> + (\<Sum>x\<leftarrow>xs. \<bar>g x\<bar>) \<le> INT32_MAX"
  shows "foldl_r f a xs = Inr (a + (\<Sum>x\<leftarrow>xs. g x))"
  using assms
proof (induction xs arbitrary: a)
  case (Cons x xs)
  have nn: "0 \<le> (\<Sum>x\<leftarrow>xs. \<bar>g x\<bar>)" by (induction xs) auto
  have "\<bar>a + g x\<bar> + (\<Sum>x\<leftarrow>xs. \<bar>g x\<bar>) \<le> INT32_MAX" using Cons.prems(2) abs_triangle_ineq [of a "g x"] by simp
  moreover from this nn have "checked_accumulate a (g x) msg = Inr (a + g x)"
    by (auto simp: checked_accumulate_Inr)
  ultimately show ?case using Cons.IH [of "a + g x"] Cons.prems(1) by (simp add: add.assoc)
qed simp

lemma foldl_r_concat: "foldl_r f a (concat xss) = foldl_r (\<lambda>acc xs. foldl_r f acc xs) a xss"
proof (induction xss arbitrary: a)
  case (Cons xs xss)
  have "foldl_r f a (xs @ concat xss) = bind_r (foldl_r f a xs) (\<lambda>b. foldl_r f b (concat xss))"
    by (rule foldl_r_append)
  then show ?case using Cons by (simp add: bind_r_def split: sum.split)
qed simp

lemma foldl_r_map: "foldl_r f a (map h xs) = foldl_r (\<lambda>acc x. f acc (h x)) a xs"
  by (induction xs arbitrary: a) (auto simp: bind_r_def split: sum.split)

lemma foldl_r_cong:
  assumes "\<And>acc x. x \<in> set xs \<Longrightarrow> f acc x = g acc x"
  shows "foldl_r f a xs = foldl_r g a xs"
  using assms by (induction xs arbitrary: a) (auto simp: bind_r_def split: sum.split)

text \<open>The positions of a window that lie inside the input, in the order of the loops.\<close>

definition window_positions :: "tensor \<Rightarrow> window_args \<Rightarrow> int \<Rightarrow> int \<Rightarrow> int \<Rightarrow> int \<Rightarrow> (int \<times> int) list" where
  "window_positions t a kh kw oh ow =
     concat (map (\<lambda>k. if 0 \<le> oh * stride_h a + k - pad_top a \<and> oh * stride_h a + k - pad_top a < t_height t
       then map (\<lambda>l. (k, l)) (filter (\<lambda>l. 0 \<le> ow * stride_w a + l - pad_left a \<and>
              ow * stride_w a + l - pad_left a < t_width t) (py_range 0 kw))
       else []) (py_range 0 kh))"

lemma foldl_r_filter: "foldl_r f a (filter P xs) = foldl_r (\<lambda>acc x. if P x then f acc x else Inr acc) a xs"
  by (induction xs arbitrary: a) (auto simp: bind_r_def split: sum.split)

lemma window_fold_positions:
  "window_fold t a kh kw oh ow body start =
     foldl_r (\<lambda>acc (k, l). body k l (oh * stride_h a + k - pad_top a) (ow * stride_w a + l - pad_left a) acc)
       start (window_positions t a kh kw oh ow)"
  unfolding window_fold_def window_positions_def foldl_r_concat foldl_r_map Let_def
proof (rule foldl_r_cong, goal_cases)
  case (1 acc k)
  have c: "(ow * stride_w a + l - pad_left a < 0 \<or> ow * stride_w a + l - pad_left a \<ge> t_width t) =
      (\<not> (0 \<le> ow * stride_w a + l - pad_left a \<and> ow * stride_w a + l - pad_left a < t_width t))" for l by auto
  show ?case unfolding c by (auto simp: foldl_r_map foldl_r_filter if_not_P intro!: foldl_r_cong)
qed

lemma set_window_positions:
  "(k, l) \<in> set (window_positions t a kh kw oh ow) \<longleftrightarrow>
     0 \<le> k \<and> k < kh \<and> 0 \<le> l \<and> l < kw \<and>
     0 \<le> oh * stride_h a + k - pad_top a \<and> oh * stride_h a + k - pad_top a < t_height t \<and>
     0 \<le> ow * stride_w a + l - pad_left a \<and> ow * stride_w a + l - pad_left a < t_width t"
  by (auto simp: window_positions_def)

lemma length_window_positions: "length (window_positions t a kh kw oh ow) \<le> nat kh * nat kw"
proof -
  have all: "length (concat (map f xs)) \<le> length xs * n" if "\<And>x. length (f x) \<le> n"
    for f :: "int \<Rightarrow> (int \<times> int) list" and xs and n :: nat
    using that by (induction xs) (auto simp: add_mono)
  have "length (filter P (py_range 0 kw)) \<le> nat kw" for P
    using length_filter_le [of P "py_range 0 kw"] by (simp add: py_range_def)
  then have "length (window_positions t a kh kw oh ow) \<le> length (py_range 0 kh) * nat kw"
    unfolding window_positions_def by (intro all) simp
  then show ?thesis by (simp add: py_range_def)
qed

section \<open>Tensors\<close>

definition tensor_ok :: "tensor \<Rightarrow> bool" where
  "tensor_ok t \<longleftrightarrow>
     1 \<le> t_height t \<and> t_height t \<le> 4096 \<and> 1 \<le> t_width t \<and> t_width t \<le> 4096 \<and> 1 \<le> t_channels t \<and> t_channels t \<le> 4096 \<and>
     int (length (t_data t)) = t_height t * t_width t * t_channels t \<and>
     (\<forall>v \<in> set (t_data t). INT8_MIN \<le> v \<and> v \<le> INT8_MAX) \<and> INT8_MIN \<le> t_zero_point t \<and> t_zero_point t \<le> INT8_MAX"

lemma tensor_new_Inr:
  "tensor_new shape values scale zero = Inr t \<Longrightarrow>
     tensor_ok t \<and> t = \<lparr>t_shape = shape, t_data = values, t_scale = scale, t_zero_point = zero\<rparr>"
  by (cases shape)
    (auto simp: tensor_new_def tensor_ok_def t_height_def t_width_def t_channels_def bind_r_Inr first_error_Inr
      raise_if_Inr list_ex_iff require_scale_def not_less split: py_float.splits if_splits)

definition t_value :: "tensor \<Rightarrow> int \<Rightarrow> int \<Rightarrow> int \<Rightarrow> int" where
  "t_value t h w c = t_data t ! nat ((h * t_width t + w) * t_channels t + c)"

lemma grid_index:
  fixes h w c H W C :: int
  assumes "0 \<le> h" "h < H" "0 \<le> w" "w < W" "0 \<le> c" "c < C"
  shows "0 \<le> (h * W + w) * C + c \<and> (h * W + w) * C + c < H * W * C"
proof -
  have "h * W \<le> (H - 1) * W" using assms by (intro mult_right_mono) auto
  then have "h * W + w + 1 \<le> H * W" using assms by (simp add: algebra_simps)
  then have "(h * W + w + 1) * C \<le> H * W * C" using assms by (intro mult_right_mono) auto
  moreover have "0 \<le> h * W + w" "0 \<le> (h * W + w) * C" using assms by simp_all
  ultimately show ?thesis using assms by (simp add: algebra_simps)
qed

lemma value_at_ok:
  assumes "tensor_ok t" "0 \<le> h" "h < t_height t" "0 \<le> w" "w < t_width t" "0 \<le> c" "c < t_channels t"
  shows "value_at t h w c = Inr (t_value t h w c)" "INT8_MIN \<le> t_value t h w c \<and> t_value t h w c \<le> INT8_MAX"
proof -
  let ?i = "(h * t_width t + w) * t_channels t + c"
  have i: "0 \<le> ?i" "?i < int (length (t_data t))" using grid_index [OF assms(2-7)] assms(1) by (auto simp: tensor_ok_def)
  then show "value_at t h w c = Inr (t_value t h w c)" by (simp add: value_at_def npu_index_def t_value_def)
  have "t_value t h w c \<in> set (t_data t)" using i by (auto simp: t_value_def)
  with assms(1) show "INT8_MIN \<le> t_value t h w c \<and> t_value t h w c \<le> INT8_MAX" by (simp add: tensor_ok_def)
qed

text \<open>The output positions in the order in which the loops append them.\<close>

definition output_grid :: "int \<Rightarrow> int \<Rightarrow> int \<Rightarrow> (int \<times> int \<times> int) list" where
  "output_grid nh nw nc =
     concat (map (\<lambda>oh. concat (map (\<lambda>ow. map (\<lambda>c. (oh, ow, c)) (py_range 0 nc)) (py_range 0 nw))) (py_range 0 nh))"

lemma set_output_grid: "(oh, ow, c) \<in> set (output_grid nh nw nc) \<longleftrightarrow>
    0 \<le> oh \<and> oh < nh \<and> 0 \<le> ow \<and> ow < nw \<and> 0 \<le> c \<and> c < nc"
  by (auto simp: output_grid_def image_iff)

lemma grid_r_eq: "grid_r nh nw nc cell = map_r (\<lambda>(oh, ow, c). cell oh ow c) (output_grid nh nw nc)"
  by (simp add: grid_r_def output_grid_def)

lemma map_r_total: "(\<And>x. x \<in> set xs \<Longrightarrow> f x = Inr (g x)) \<Longrightarrow> map_r f xs = Inr (map g xs)"
  by (induction xs) auto

section \<open>Every window meets the input\<close>

lemma extent_meets:
  fixes n p p' k s j :: int
  assumes "s \<in> {1, 2}" "0 \<le> p" "p < k" "0 \<le> p'" "p' < k" "1 \<le> n" "0 \<le> j" "j < (n + p + p' - k) div s + 1"
  shows "\<exists>x. 0 \<le> x \<and> x < k \<and> 0 \<le> j * s + x - p \<and> j * s + x - p < n"
proof (cases "p \<le> j * s")
  case True
  have "j * s \<le> n + p + p' - k" using assms(1,8) by auto
  with True assms show ?thesis by (intro exI [of _ 0]) auto
next
  case False
  with assms show ?thesis by (intro exI [of _ "p - j * s"]) auto
qed

lemma window_extents_Inr:
  assumes "window_extents t a kh kw = Inr (nh, nw)"
  shows "stride_h a \<in> {1, 2}" "stride_w a \<in> {1, 2}" "0 \<le> pad_top a" "pad_top a < kh" "0 \<le> pad_bottom a" "pad_bottom a < kh"
    "0 \<le> pad_left a" "pad_left a < kw" "0 \<le> pad_right a" "pad_right a < kw"
    "nh = (t_height t + pad_top a + pad_bottom a - kh) div stride_h a + 1" "1 \<le> nh"
    "nw = (t_width t + pad_left a + pad_right a - kw) div stride_w a + 1" "1 \<le> nw"
  using assms
  by (auto simp: window_extents_def bind_r_Inr validate_strides_def raise_if_Inr validate_pads_def window_pads_def
      first_error_Inr output_extent_def Let_def split: if_splits)

lemma window_nonempty:
  assumes "tensor_ok t" "window_extents t a kh kw = Inr (nh, nw)" "0 \<le> oh" "oh < nh" "0 \<le> ow" "ow < nw"
  shows "window_positions t a kh kw oh ow \<noteq> []"
proof -
  note w = window_extents_Inr [OF assms(2)]
  have t: "1 \<le> t_height t" "1 \<le> t_width t" using assms(1) by (simp_all add: tensor_ok_def)
  from extent_meets [OF w(1,3-6) t(1) assms(3) assms(4) [unfolded w(11)]] obtain k where
    k: "0 \<le> k" "k < kh" "0 \<le> oh * stride_h a + k - pad_top a" "oh * stride_h a + k - pad_top a < t_height t" by blast
  from extent_meets [OF w(2,7-10) t(2) assms(5) assms(6) [unfolded w(13)]] obtain l where
    l: "0 \<le> l" "l < kw" "0 \<le> ow * stride_w a + l - pad_left a" "ow * stride_w a + l - pad_left a < t_width t" by blast
  have "(k, l) \<in> set (window_positions t a kh kw oh ow)" using k l by (simp add: set_window_positions)
  then show ?thesis by (metis empty_iff empty_set)
qed

text \<open>The values a window reads in a channel.\<close>

definition window_values :: "tensor \<Rightarrow> window_args \<Rightarrow> int \<Rightarrow> int \<Rightarrow> int \<Rightarrow> int \<Rightarrow> int \<Rightarrow> int list" where
  "window_values t a kh kw oh ow c =
     map (\<lambda>(k, l). t_value t (oh * stride_h a + k - pad_top a) (ow * stride_w a + l - pad_left a) c)
       (window_positions t a kh kw oh ow)"

section \<open>Pooling\<close>

lemma round_ties_away_nearest:
  assumes "0 < n"
  obtains v where "round_ties_away s n = Inr v" "2 * \<bar>n * v - s\<bar> \<le> n" "2 * \<bar>n * v - s\<bar> = n \<longrightarrow> \<bar>s\<bar> < n * \<bar>v\<bar>"
proof -
  define q where "q = (\<bar>s\<bar> + n div 2) div n"
  have "n * q = \<bar>s\<bar> + n div 2 - (\<bar>s\<bar> + n div 2) mod n" by (simp add: q_def minus_mod_eq_mult_div)
  moreover have "0 \<le> (\<bar>s\<bar> + n div 2) mod n" "(\<bar>s\<bar> + n div 2) mod n < n" using assms by simp_all
  moreover have "2 * (n div 2) \<le> n" "n \<le> 2 * (n div 2) + 1" by linarith+
  ultimately have near: "2 * (n * q) \<le> 2 * \<bar>s\<bar> + n" "2 * \<bar>s\<bar> < 2 * (n * q) + n" by linarith+
  have "0 \<le> q" using assms by (simp add: q_def pos_imp_zdiv_nonneg_iff)
  show thesis
  proof (rule that)
    show "round_ties_away s n = Inr (if s \<ge> 0 then q else - q)"
      using assms by (simp add: round_ties_away_def q_def Let_def)
    show "2 * \<bar>n * (if s \<ge> 0 then q else - q) - s\<bar> \<le> n"
      using near by (auto simp: abs_if split: if_splits)
    show "2 * \<bar>n * (if s \<ge> 0 then q else - q) - s\<bar> = n \<longrightarrow> \<bar>s\<bar> < n * \<bar>if s \<ge> 0 then q else - q\<bar>"
      using near \<open>0 \<le> q\<close> assms by (auto simp: abs_if split: if_splits)
  qed
qed

text \<open>The mean of a nonempty list, rounded to the nearest integer, ties away from zero.\<close>

definition rounded_mean :: "int list \<Rightarrow> int \<Rightarrow> bool" where
  "rounded_mean vs v \<longleftrightarrow> vs \<noteq> [] \<and> 2 * \<bar>int (length vs) * v - sum_list vs\<bar> \<le> int (length vs)
     \<and> (2 * \<bar>int (length vs) * v - sum_list vs\<bar> = int (length vs) \<longrightarrow> \<bar>sum_list vs\<bar> < int (length vs) * \<bar>v\<bar>)"

lemma average_fold:
  assumes "\<And>p. p \<in> set ps \<Longrightarrow> value_at t (f p) (g p) c = Inr (val p)" "\<bar>s\<bar> + (\<Sum>p\<leftarrow>ps. \<bar>val p\<bar>) \<le> INT32_MAX"
  shows "foldl_r (\<lambda>(s, n) p. bind_r (value_at t (f p) (g p) c) (\<lambda>v.
      bind_r (checked_accumulate s v ''average pool sum'') (\<lambda>s. Inr (s, n + 1)))) (s, n) ps =
    Inr (s + (\<Sum>p\<leftarrow>ps. val p), n + int (length ps))"
  using assms
proof (induction ps arbitrary: s n)
  case (Cons p ps)
  have nn: "0 \<le> (\<Sum>x\<leftarrow>ps. \<bar>val x\<bar>)" by (induction ps) auto
  have b: "\<bar>s + val p\<bar> + (\<Sum>x\<leftarrow>ps. \<bar>val x\<bar>) \<le> INT32_MAX"
    using Cons.prems(2) abs_triangle_ineq [of s "val p"] by simp
  from this nn have "checked_accumulate s (val p) ''average pool sum'' = Inr (s + val p)"
    by (auto simp: checked_accumulate_Inr)
  with Cons.IH [of "s + val p" "n + 1"] Cons.prems(1) b show ?case by (simp add: add.assoc)
qed simp

lemma sum_abs_le: "(\<And>x. x \<in> set xs \<Longrightarrow> \<bar>f x\<bar> \<le> (b::int)) \<Longrightarrow> (\<Sum>x\<leftarrow>xs. \<bar>f x\<bar>) \<le> b * int (length xs)"
proof (induction xs)
  case (Cons x xs)
  then have "\<bar>f x\<bar> \<le> b" "(\<Sum>x\<leftarrow>xs. \<bar>f x\<bar>) \<le> b * int (length xs)" by simp_all
  then show ?case by (simp add: algebra_simps)
qed simp

lemma window_values_ok:
  assumes "tensor_ok t" "0 \<le> c" "c < t_channels t" "(k, l) \<in> set (window_positions t a kh kw oh ow)"
  shows "value_at t (oh * stride_h a + k - pad_top a) (ow * stride_w a + l - pad_left a) c =
      Inr (t_value t (oh * stride_h a + k - pad_top a) (ow * stride_w a + l - pad_left a) c)"
    "\<bar>t_value t (oh * stride_h a + k - pad_top a) (ow * stride_w a + l - pad_left a) c\<bar> \<le> 128"
proof -
  have r: "0 \<le> oh * stride_h a + k - pad_top a" "oh * stride_h a + k - pad_top a < t_height t"
    "0 \<le> ow * stride_w a + l - pad_left a" "ow * stride_w a + l - pad_left a < t_width t"
    using assms(4) by (simp_all add: set_window_positions)
  note v = value_at_ok [OF assms(1) r assms(2,3)]
  from v(1) show "value_at t (oh * stride_h a + k - pad_top a) (ow * stride_w a + l - pad_left a) c =
      Inr (t_value t (oh * stride_h a + k - pad_top a) (ow * stride_w a + l - pad_left a) c)" .
  from v(2) show "\<bar>t_value t (oh * stride_h a + k - pad_top a) (ow * stride_w a + l - pad_left a) c\<bar> \<le> 128" by linarith
qed

lemma average_cell_nearest:
  assumes "tensor_ok t" "window_extents t a kh kw = Inr (nh, nw)" "kh \<le> 16" "kw \<le> 16"
    and "0 \<le> oh" "oh < nh" "0 \<le> ow" "ow < nw" "0 \<le> c" "c < t_channels t"
  obtains v where "average_cell t a kh kw oh ow c = Inr v" "rounded_mean (window_values t a kh kw oh ow c) v"
proof -
  let ?ps = "window_positions t a kh kw oh ow"
  let ?val = "\<lambda>(k, l). t_value t (oh * stride_h a + k - pad_top a) (ow * stride_w a + l - pad_left a) c"
  let ?vs = "window_values t a kh kw oh ow c"
  have ok: "value_at t (oh * stride_h a + fst p - pad_top a) (ow * stride_w a + snd p - pad_left a) c = Inr (?val p)"
    "\<bar>?val p\<bar> \<le> 128" if "p \<in> set ?ps" for p
    using window_values_ok [OF assms(1,9,10), of "fst p" "snd p"] that by (auto simp: case_prod_beta)
  have len: "int (length ?ps) \<le> 256"
  proof -
    have "nat kh * nat kw \<le> 16 * 16" using assms(3,4) by (intro mult_mono) auto
    then show ?thesis using length_window_positions [of t a kh kw oh ow] by linarith
  qed
  have "(\<Sum>p\<leftarrow>?ps. \<bar>?val p\<bar>) \<le> 128 * int (length ?ps)" by (rule sum_abs_le) (rule ok(2))
  with len have "\<bar>0\<bar> + (\<Sum>p\<leftarrow>?ps. \<bar>?val p\<bar>) \<le> INT32_MAX" by linarith
  from average_fold [OF ok(1) this, of 0]
  have f: "window_fold t a kh kw oh ow (\<lambda>kernel_h kernel_w ih iw (summed, count).
      bind_r (value_at t ih iw c) (\<lambda>v. bind_r (checked_accumulate summed v ''average pool sum'') (\<lambda>s. Inr (s, count + 1))))
      (0, 0) = Inr (sum_list ?vs, int (length ?vs))"
    unfolding window_fold_positions by (simp add: window_values_def split_def)
  have "0 < int (length ?vs)" using window_nonempty [OF assms(1,2,5-8)] by (simp add: window_values_def)
  from round_ties_away_nearest [OF this, of "sum_list ?vs"] obtain v where
    "round_ties_away (sum_list ?vs) (int (length ?vs)) = Inr v"
    "rounded_mean ?vs v" using \<open>0 < int (length ?vs)\<close> by (auto simp: rounded_mean_def)
  then show thesis using f by (intro that [of v]) (simp_all add: average_cell_def)
qed

lemma length_output_grid: "length (output_grid nh nw nc) = nat nh * (nat nw * nat nc)"
proof -
  have l: "length (concat (map f (py_range 0 n))) = nat n * m" if "\<And>x. length (f x) = m" for f :: "int \<Rightarrow> 'a list" and n m
    using that by (simp add: length_concat comp_def sum_list_triv py_range_def)
  show ?thesis unfolding output_grid_def by (rule l, rule l) (simp add: py_range_def)
qed

text \<open>Which outputs the constructor of \<open>Tensor\<close> accepts.\<close>

lemma tensor_new_decides:
  assumes "tensor_new (t_shape t) (t_data t) (t_scale t) (t_zero_point t) = Inr t" "1 \<le> h" "1 \<le> w"
    "int (length vs) = h * w * t_channels t" "\<forall>v \<in> set vs. INT8_MIN \<le> v \<and> v \<le> INT8_MAX"
  shows "tensor_new (h, w, t_channels t) vs (t_scale t) (t_zero_point t) =
    (if h \<le> 4096 \<and> w \<le> 4096
     then Inr \<lparr>t_shape = (h, w, t_channels t), t_data = vs, t_scale = t_scale t, t_zero_point = t_zero_point t\<rparr>
     else Inl (NpuValueError ''tensor dimensions must each be within 1..4096''))"
proof -
  have ok: "tensor_ok t" using tensor_new_Inr [OF assms(1)] by simp
  have z: "require_scale (t_scale t) = Inr (t_scale t)"
    using assms(1) by (cases "t_shape t") (auto simp: tensor_new_def bind_r_Inr require_scale_def split: py_float.splits if_splits)
  have l: "\<not> list_ex (\<lambda>v. v < INT8_MIN \<or> v > INT8_MAX) vs" using assms(5) by (auto simp: list_ex_iff)
  show ?thesis using ok z l assms(2-4) by (auto simp: tensor_new_def tensor_ok_def raise_if_def)
qed

text \<open>C33: Average pooling always answers. On a tensor that the constructor accepts, with valid clamp bounds
  and an accepted geometry, it never divides by zero and never overflows. If the output has at most 4096
  rows and columns it returns the valid tensor of that shape, with the scale and zero point of its input,
  whose elements, in NHWC order, are the means of the input values their windows cover, rounded to the
  nearest integer with ties away from zero and clamped; every window covers at least one value. A larger
  output is refused by the constructor of the result, and there is no other failure.\<close>

theorem average_pool_nearest:
  assumes "tensor_new (t_shape t) (t_data t) (t_scale t) (t_zero_point t) = Inr t"
    "validate_act_bounds lo hi = Inr act" "pool_geometry t kh kw a = Inr (nh, nw)"
  shows "if nh \<le> 4096 \<and> nw \<le> 4096
    then \<exists>out. average_pool t kh kw a lo hi = Inr out \<and> tensor_ok out \<and> t_shape out = (nh, nw, t_channels t)
      \<and> t_scale out = t_scale t \<and> t_zero_point out = t_zero_point t
      \<and> list_all2 (\<lambda>(oh, ow, c) v. \<exists>avg. rounded_mean (window_values t a kh kw oh ow c) avg \<and> v = max lo (min hi avg))
          (output_grid nh nw (t_channels t)) (t_data out)
    else average_pool t kh kw a lo hi = Inl (NpuValueError ''tensor dimensions must each be within 1..4096'')"
proof -
  have ok: "tensor_ok t" using tensor_new_Inr [OF assms(1)] by simp
  have k: "kh \<le> 16" "kw \<le> 16" and w: "window_extents t a kh kw = Inr (nh, nw)"
    using assms(3) by (auto simp: pool_geometry_def bind_r_Inr raise_if_Inr)
  have n: "1 \<le> nh" "1 \<le> nw"
    using w by (auto simp: window_extents_def bind_r_Inr output_extent_def Let_def split: if_splits)
  have act: "act = (lo, hi)" "INT8_MIN \<le> lo" "lo \<le> hi" "hi \<le> INT8_MAX"
    using assms(2) by (auto simp: validate_act_bounds_def bind_r_Inr raise_if_Inr require_int8_def require_range_def split: if_splits)
  define avg where "avg = (\<lambda>oh ow c. projr (average_cell t a kh kw oh ow c))"
  have cell: "average_cell t a kh kw oh ow c = Inr (avg oh ow c) \<and> rounded_mean (window_values t a kh kw oh ow c) (avg oh ow c)"
    if "(oh, ow, c) \<in> set (output_grid nh nw (t_channels t))" for oh ow c
  proof -
    have r: "0 \<le> oh" "oh < nh" "0 \<le> ow" "ow < nw" "0 \<le> c" "c < t_channels t" using that by (simp_all add: set_output_grid)
    show ?thesis using average_cell_nearest [OF ok w k r] unfolding avg_def by (metis sum.sel(2))
  qed
  let ?vs = "map (\<lambda>(oh, ow, c). max lo (min hi (avg oh ow c))) (output_grid nh nw (t_channels t))"
  have "grid_r nh nw (t_channels t) (\<lambda>oh ow c. bind_r (average_cell t a kh kw oh ow c) (\<lambda>v. Inr (act_clamp act v))) = Inr ?vs"
    unfolding grid_r_eq by (rule map_r_total) (use cell in \<open>auto simp: act act_clamp_def\<close>)
  then have pool: "average_pool t kh kw a lo hi = tensor_new (nh, nw, t_channels t) ?vs (t_scale t) (t_zero_point t)"
    unfolding average_pool_def pool_def assms(2,3) by simp
  have len: "int (length ?vs) = nh * nw * t_channels t" using n ok by (simp add: length_output_grid tensor_ok_def)
  have range: "\<forall>v \<in> set ?vs. INT8_MIN \<le> v \<and> v \<le> INT8_MAX" using act by auto
  have means: "list_all2 (\<lambda>(oh, ow, c) v. \<exists>avg. rounded_mean (window_values t a kh kw oh ow c) avg \<and> v = max lo (min hi avg))
      (output_grid nh nw (t_channels t)) ?vs"
    unfolding list.rel_map by (rule list.rel_refl_strong) (use cell in auto)
  note new = tensor_new_decides [OF assms(1) n len range]
  show ?thesis
  proof (cases "nh \<le> 4096 \<and> nw \<le> 4096")
    case True
    then have t: "average_pool t kh kw a lo hi =
        Inr \<lparr>t_shape = (nh, nw, t_channels t), t_data = ?vs, t_scale = t_scale t, t_zero_point = t_zero_point t\<rparr>"
      using pool new by simp
    from t tensor_new_Inr [OF pool [symmetric, unfolded t]] means True show ?thesis by simp
  next
    case False
    then show ?thesis using pool new by (simp only: if_False)
  qed
qed

section \<open>Flattened weights\<close>

lemma concat_nth:
  "(\<forall>w \<in> set ws. length w = m) \<Longrightarrow> i < length ws \<Longrightarrow> j < m \<Longrightarrow> concat ws ! (i * m + j) = ws ! i ! j"
proof (induction ws arbitrary: i)
  case (Cons w ws)
  then show ?case by (cases i) (auto simp: nth_append add.assoc)
qed simp

lemma nat_grid: "i < m \<Longrightarrow> j < n \<Longrightarrow> i * n + j < m * (n::nat)"
proof -
  assume i: "i < m" and j: "j < n"
  have "i * n + j < Suc i * n" using j by simp
  also have "\<dots> \<le> m * n" using i by (intro mult_le_mono1) simp
  finally show ?thesis .
qed

text \<open>A flattened level: the parts have one length and lie one behind the other.\<close>

lemma flatten_level_nth:
  assumes "flatten_level n visit node = Inr flat" "\<forall>x p. visit x = Inr p \<longrightarrow> length p = m"
  shows "int (length node) = n" "length flat = length node * m"
    "i < length node \<Longrightarrow> \<exists>p. visit (node ! i) = Inr p \<and> (\<forall>j < m. flat ! (i * m + j) = p ! j)"
proof -
  from assms(1) obtain parts where p: "int (length node) = n" "list_all2 (\<lambda>x p. visit x = Inr p) node parts" "flat = concat parts"
    by (auto simp: flatten_level_def bind_r_Inr map_r_Inr split: if_splits)
  show "int (length node) = n" by (rule p(1))
  have len: "\<forall>q \<in> set parts. length q = m" "length parts = length node"
    using p(2) assms(2) by (auto simp: in_set_conv_nth list_all2_conv_all_nth) blast
  have "length (concat parts) = length parts * m" using len(1) by (induction parts) auto
  then show "length flat = length node * m" using len(2) p(3) by simp
  show "\<exists>q. visit (node ! i) = Inr q \<and> (\<forall>j < m. flat ! (i * m + j) = q ! j)" if "i < length node"
    using that p len concat_nth [OF len(1)] by (auto simp: list_all2_conv_all_nth)
qed

lemma flatten_leaf_Inr: "flatten_leaf w = Inr p \<Longrightarrow> p = [w]"
  by (auto simp: flatten_leaf_def bind_r_Inr require_simps)

lemma flatten_row:
  assumes "flatten_level n flatten_leaf xs = Inr flat"
  shows "int (length xs) = n" "length flat = length xs" "i < length xs \<Longrightarrow> flat ! i = xs ! i"
proof -
  have len: "\<forall>x p. flatten_leaf x = Inr p \<longrightarrow> length p = 1" by (auto dest: flatten_leaf_Inr)
  show "int (length xs) = n" "length flat = length xs" using flatten_level_nth(1,2) [OF assms len] by simp_all
  show "flat ! i = xs ! i" if "i < length xs"
    using flatten_level_nth(3) [OF assms len that] by (auto dest: flatten_leaf_Inr)
qed

lemma flatten_depth2:
  assumes "flatten_level n1 (flatten_level n2 flatten_leaf) xs = Inr flat"
  shows "int (length xs) = n1" "length flat = length xs * nat n2"
    "i < length xs \<Longrightarrow> j < nat n2 \<Longrightarrow> flat ! (i * nat n2 + j) = xs ! i ! j"
proof -
  have len: "\<forall>x p. flatten_level n2 flatten_leaf x = Inr p \<longrightarrow> length p = nat n2"
    using flatten_row(1,2) by fastforce
  show "int (length xs) = n1" "length flat = length xs * nat n2" using flatten_level_nth(1,2) [OF assms len] by simp_all
  show "flat ! (i * nat n2 + j) = xs ! i ! j" if "i < length xs" "j < nat n2"
    using flatten_level_nth(3) [OF assms len that(1)] that(2) flatten_row [of n2 "xs ! i"] by fastforce
qed

lemma flatten_depth3:
  assumes "flatten_level n1 (flatten_level n2 (flatten_level n3 flatten_leaf)) xs = Inr flat"
  shows "int (length xs) = n1" "length flat = length xs * (nat n2 * nat n3)"
    "i < length xs \<Longrightarrow> j < nat n2 \<Longrightarrow> k < nat n3 \<Longrightarrow> flat ! (i * (nat n2 * nat n3) + (j * nat n3 + k)) = xs ! i ! j ! k"
proof -
  have len: "\<forall>x p. flatten_level n2 (flatten_level n3 flatten_leaf) x = Inr p \<longrightarrow> length p = nat n2 * nat n3"
    using flatten_depth2(1,2) by fastforce
  show "int (length xs) = n1" "length flat = length xs * (nat n2 * nat n3)" using flatten_level_nth(1,2) [OF assms len] by simp_all
  show "flat ! (i * (nat n2 * nat n3) + (j * nat n3 + k)) = xs ! i ! j ! k" if i: "i < length xs" and j: "j < nat n2" and k: "k < nat n3"
  proof -
    from flatten_level_nth(3) [OF assms len i] obtain p where p: "flatten_level n2 (flatten_level n3 flatten_leaf) (xs ! i) = Inr p"
      "\<And>l. l < nat n2 * nat n3 \<Longrightarrow> flat ! (i * (nat n2 * nat n3) + l) = p ! l" by blast
    have "j * nat n3 + k < nat n2 * nat n3" by (rule nat_grid [OF j k])
    then show ?thesis using p(2) flatten_depth2 [OF p(1)] j k by simp
  qed
qed

lemma flatten_depth4:
  assumes "flatten_level n1 (flatten_level n2 (flatten_level n3 (flatten_level n4 flatten_leaf))) xs = Inr flat"
  shows "int (length xs) = n1" "length flat = length xs * (nat n2 * (nat n3 * nat n4))"
    "i < length xs \<Longrightarrow> j < nat n2 \<Longrightarrow> k < nat n3 \<Longrightarrow> l < nat n4 \<Longrightarrow>
       flat ! (i * (nat n2 * (nat n3 * nat n4)) + (j * (nat n3 * nat n4) + (k * nat n4 + l))) = xs ! i ! j ! k ! l"
proof -
  have len: "\<forall>x p. flatten_level n2 (flatten_level n3 (flatten_level n4 flatten_leaf)) x = Inr p \<longrightarrow>
      length p = nat n2 * (nat n3 * nat n4)"
    using flatten_depth3(1,2) by fastforce
  show "int (length xs) = n1" "length flat = length xs * (nat n2 * (nat n3 * nat n4))"
    using flatten_level_nth(1,2) [OF assms len] by simp_all
  show "flat ! (i * (nat n2 * (nat n3 * nat n4)) + (j * (nat n3 * nat n4) + (k * nat n4 + l))) = xs ! i ! j ! k ! l"
    if i: "i < length xs" and j: "j < nat n2" and k: "k < nat n3" and l: "l < nat n4"
  proof -
    from flatten_level_nth(3) [OF assms len i] obtain p where
      p: "flatten_level n2 (flatten_level n3 (flatten_level n4 flatten_leaf)) (xs ! i) = Inr p"
      "\<And>m. m < nat n2 * (nat n3 * nat n4) \<Longrightarrow> flat ! (i * (nat n2 * (nat n3 * nat n4)) + m) = p ! m" by blast
    have "j * (nat n3 * nat n4) + (k * nat n4 + l) < nat n2 * (nat n3 * nat n4)"
    proof -
      have "k * nat n4 + l < nat n3 * nat n4" by (rule nat_grid [OF k l])
      then show ?thesis by (rule nat_grid [OF j])
    qed
    moreover have "j < length (xs ! i)" using flatten_depth3(1) [OF p(1)] j by simp
    ultimately show ?thesis using p(2) flatten_depth3(3) [OF p(1) _ k l] by simp
  qed
qed

section \<open>Convolution\<close>

text \<open>The textbook convolution over the nested weights: the bias plus the products of the centred input
  values and the weights at the window positions inside the input.\<close>

definition conv_reference ::
  "tensor \<Rightarrow> int list list list list \<Rightarrow> int list \<Rightarrow> window_args \<Rightarrow> int \<Rightarrow> int \<Rightarrow> int \<Rightarrow> int" where
  "conv_reference t weights bias a oh ow c =
     bias ! nat c +
     (\<Sum>(k, l)\<leftarrow>window_positions t a (int (length (hd weights))) (int (length (hd (hd weights)))) oh ow.
       \<Sum>ci\<leftarrow>py_range 0 (t_channels t).
         (t_value t (oh * stride_h a + k - pad_top a) (ow * stride_w a + l - pad_left a) ci - t_zero_point t) *
         weights ! nat c ! nat k ! nat l ! nat ci)"

lemma foldl_r_sums:
  fixes g :: "'x \<Rightarrow> int"
  assumes "\<And>acc acc' x. x \<in> set xs \<Longrightarrow> f acc x = Inr acc' \<Longrightarrow> acc' = acc + g x" "foldl_r f a xs = Inr b"
  shows "b = a + (\<Sum>x\<leftarrow>xs. g x)"
  using assms
proof (induction xs arbitrary: a)
  case (Cons x xs)
  from Cons.prems(2) obtain a' where a': "f a x = Inr a'" "foldl_r f a' xs = Inr b" by (auto simp: bind_r_Inr)
  have "b = a' + (\<Sum>x\<leftarrow>xs. g x)" by (rule Cons.IH [OF _ a'(2)]) (use Cons.prems(1) in auto)
  moreover have "a' = a + g x" using Cons.prems(1) a'(1) by simp
  ultimately show ?case by simp
qed simp

lemma npu_index_ok: "0 \<le> i \<Longrightarrow> i < int (length xs) \<Longrightarrow> npu_index xs i = Inr (xs ! nat i)"
  by (simp add: npu_index_def)

lemma nat_pair: "0 \<le> i \<Longrightarrow> 0 \<le> j \<Longrightarrow> 0 \<le> n \<Longrightarrow> nat (i * n + j) = nat i * nat n + nat j"
  by (simp add: nat_add_distrib nat_mult_distrib)

lemma conv_weight_at:
  assumes "validate_conv_weights weights cin = Inr (cout, kh, kw, flat)"
    and "0 \<le> c" "c < cout" "0 \<le> k" "k < kh" "0 \<le> l" "l < kw" "0 \<le> ci" "ci < cin"
  shows "npu_index flat (c * kh * kw * cin + (k * kw + l) * cin + ci) = Inr (weights ! nat c ! nat k ! nat l ! nat ci)"
    "int (length weights) = cout" "kh = int (length (hd weights))" "kw = int (length (hd (hd weights)))"
proof -
  from assms(1) have w: "int (length weights) = cout" "kh = int (length (hd weights))" "kw = int (length (hd (hd weights)))"
    "flatten_level cout (flatten_level kh (flatten_level kw (flatten_level cin flatten_leaf))) weights = Inr flat"
    by (auto simp: validate_conv_weights_def bind_r_Inr level_length_def split: if_splits)
  show "int (length weights) = cout" "kh = int (length (hd weights))" "kw = int (length (hd (hd weights)))" by (rule w)+
  note f = flatten_depth4 [OF w(4)]
  have pos: "0 \<le> kh" "0 \<le> kw" "0 \<le> cin" using assms by auto
  have r: "nat c < length weights" "nat k < nat kh" "nat l < nat kw" "nat ci < nat cin" using assms w(1) by auto
  have e: "c * kh * kw * cin + (k * kw + l) * cin + ci = c * (kh * (kw * cin)) + (k * (kw * cin) + (l * cin + ci))"
    by algebra
  have i: "nat (c * kh * kw * cin + (k * kw + l) * cin + ci) =
      nat c * (nat kh * (nat kw * nat cin)) + (nat k * (nat kw * nat cin) + (nat l * nat cin + nat ci))"
    unfolding e using assms(2-9) pos by (simp add: nat_add_distrib nat_mult_distrib)
  have "nat l * nat cin + nat ci < nat kw * nat cin" by (rule nat_grid [OF r(3,4)])
  then have "nat k * (nat kw * nat cin) + (nat l * nat cin + nat ci) < nat kh * (nat kw * nat cin)" by (rule nat_grid [OF r(2)])
  then have "nat (c * kh * kw * cin + (k * kw + l) * cin + ci) < length flat"
    unfolding i f(2) by (rule nat_grid [OF r(1)])
  moreover have "0 \<le> c * kh * kw * cin + (k * kw + l) * cin + ci" using assms pos by simp
  ultimately show "npu_index flat (c * kh * kw * cin + (k * kw + l) * cin + ci) = Inr (weights ! nat c ! nat k ! nat l ! nat ci)"
    using f(3) [OF r] unfolding i [symmetric] by (subst npu_index_ok) (simp_all add: nat_less_iff)
qed

lemma conv_cell_reference:
  assumes "tensor_ok t" "validate_conv_weights weights (t_channels t) = Inr (cout, kh, kw, flat)" "int (length bias) = cout"
    and "0 \<le> c" "c < cout" "conv_cell t a kh kw flat bias oh ow c = Inr acc"
  shows "acc = conv_reference t weights bias a oh ow c"
proof -
  let ?g = "\<lambda>k l ci. (t_value t (oh * stride_h a + k - pad_top a) (ow * stride_w a + l - pad_left a) ci - t_zero_point t) *
    weights ! nat c ! nat k ! nat l ! nat ci"
  have dims: "kh = int (length (hd weights))" "kw = int (length (hd (hd weights)))"
    using assms(2) by (auto simp: validate_conv_weights_def bind_r_Inr level_length_def split: if_splits)
  have fold: "foldl_r (\<lambda>acc (k, l). foldl_r (\<lambda>acc ci.
        bind_r (value_at t (oh * stride_h a + k - pad_top a) (ow * stride_w a + l - pad_left a) ci) (\<lambda>v.
        bind_r (npu_index flat (c * kh * kw * t_channels t + (k * kw + l) * t_channels t + ci)) (\<lambda>w.
          checked_accumulate acc ((v - t_zero_point t) * w) ''conv2d accumulation'')))
        acc (py_range 0 (t_channels t))) (bias ! nat c) (window_positions t a kh kw oh ow) = Inr acc"
    using assms(3-6) by (simp add: conv_cell_def Let_def npu_index_ok window_fold_positions)
  have "acc = bias ! nat c + (\<Sum>p\<leftarrow>window_positions t a kh kw oh ow. case p of (k, l) \<Rightarrow>
      \<Sum>ci\<leftarrow>py_range 0 (t_channels t). ?g k l ci)"
  proof (rule foldl_r_sums [OF _ fold], clarify)
    fix s s' k l assume kl: "(k, l) \<in> set (window_positions t a kh kw oh ow)"
      and inner: "foldl_r (\<lambda>acc ci.
        bind_r (value_at t (oh * stride_h a + k - pad_top a) (ow * stride_w a + l - pad_left a) ci) (\<lambda>v.
        bind_r (npu_index flat (c * kh * kw * t_channels t + (k * kw + l) * t_channels t + ci)) (\<lambda>w.
          checked_accumulate acc ((v - t_zero_point t) * w) ''conv2d accumulation'')))
        s (py_range 0 (t_channels t)) = Inr s'"
    have "0 \<le> k" "k < kh" "0 \<le> l" "l < kw" using kl by (simp_all add: set_window_positions)
    note at = conv_weight_at(1) [OF assms(2,4,5) this]
    show "s' = s + (\<Sum>ci\<leftarrow>py_range 0 (t_channels t). ?g k l ci)"
      by (rule checked_fold_sum [OF _ inner]) (use window_values_ok(1) [OF assms(1) _ _ kl] at in auto)
  qed
  then show ?thesis unfolding conv_reference_def dims [symmetric] by simp
qed


text \<open>C32: Equivalence. Whenever the convolution returns, its output has the shape of the geometry and every
  element, in NHWC order, is the clamped requantization of the textbook convolution over the nested
  weights; the flattened weights, the index arithmetic and the checked accumulation are exact.\<close>

theorem conv2d_reference:
  assumes "tensor_ok t" "conv2d t weights bias multipliers shifts a q = Inr out"
  shows "\<exists>nh nw. window_extents t a (int (length (hd weights))) (int (length (hd (hd weights)))) = Inr (nh, nw) \<and>
    t_shape out = (nh, nw, int (length weights)) \<and>
    list_all2 (\<lambda>(oh, ow, c) v. \<exists>y.
        multiply_by_quantized_multiplier (conv_reference t weights bias a oh ow c) (multipliers ! nat c) (shifts ! nat c) = Inr y \<and>
        v = max (act_min q) (min (act_max q) (y + output_zero_point q)))
      (output_grid nh nw (int (length weights))) (t_data out)"
proof -
  from assms(2) obtain cout kh kw flat bs ms ss act scale zout nh nw vals where
    w: "validate_conv_weights weights (t_channels t) = Inr (cout, kh, kw, flat)"
    and b: "validate_bias bias cout = Inr bs" "validate_multipliers multipliers cout = Inr ms" "validate_shifts shifts cout = Inr ss"
    and act: "validate_act_bounds (act_min q) (act_max q) = Inr act"
    and zq: "validate_output_quantization (output_scale q) (output_zero_point q) = Inr (scale, zout)"
    and ext: "window_extents t a kh kw = Inr (nh, nw)"
    and g: "grid_r nh nw cout (\<lambda>oh ow c.
       bind_r (conv_cell t a kh kw flat bs oh ow c) (requantize_cell ms ss zout act c)) = Inr vals"
    and out: "tensor_new (nh, nw, cout) vals scale zout = Inr out"
    by (auto simp: conv2d_def bind_r_Inr)
  have dims: "int (length weights) = cout" "kh = int (length (hd weights))" "kw = int (length (hd (hd weights)))"
    using w by (auto simp: validate_conv_weights_def bind_r_Inr level_length_def split: if_splits)
  have words: "bs = bias" "ms = multipliers" "ss = shifts" "int (length bias) = cout" "int (length multipliers) = cout"
    "int (length shifts) = cout"
    using b by (auto simp: validate_bias_def validate_multipliers_def validate_shifts_def validate_channel_words_def
        bind_r_Inr map_r_Inr require_simps list_all2_conv_all_nth intro!: nth_equalityI split: if_splits)
  have z: "act = (act_min q, act_max q)" "zout = output_zero_point q"
    using act zq by (auto simp: validate_act_bounds_def validate_output_quantization_def bind_r_Inr require_simps)
  have cell: "\<exists>y. multiply_by_quantized_multiplier (conv_reference t weights bias a oh ow c) (multipliers ! nat c) (shifts ! nat c) = Inr y \<and>
        v = max (act_min q) (min (act_max q) (y + output_zero_point q))"
    if "(oh, ow, c) \<in> set (output_grid nh nw cout)"
      "bind_r (conv_cell t a kh kw flat bs oh ow c) (requantize_cell ms ss zout act c) = Inr v" for oh ow c v
  proof -
    have c: "0 \<le> c" "c < cout" using that(1) by (simp_all add: set_output_grid)
    from that(2) obtain acc where acc: "conv_cell t a kh kw flat bias oh ow c = Inr acc"
      "requantize_cell multipliers shifts zout act c acc = Inr v" by (auto simp: bind_r_Inr words(1-3))
    have "acc = conv_reference t weights bias a oh ow c" by (rule conv_cell_reference [OF assms(1) w words(4) c acc(1)])
    with acc(2) c words(5,6) show ?thesis
      by (auto simp: requantize_cell_def requantize_def npu_index_ok bind_r_Inr z)
  qed
  have "t_shape out = (nh, nw, cout)" "t_data out = vals" using tensor_new_Inr [OF out] by simp_all
  moreover have "list_all2 (\<lambda>(oh, ow, c) v. \<exists>y.
        multiply_by_quantized_multiplier (conv_reference t weights bias a oh ow c) (multipliers ! nat c) (shifts ! nat c) = Inr y \<and>
        v = max (act_min q) (min (act_max q) (y + output_zero_point q))) (output_grid nh nw cout) vals"
    using g unfolding grid_r_eq map_r_Inr by (rule list.rel_mono_strong) (use cell in auto)
  ultimately show ?thesis using ext dims by auto
qed

section \<open>Softmax of equal logits\<close>

lemma exp_zero: "exp_on_negative_values 0 = Inr INT32_MAX"
  by code_simp

lemma recip_zero: "\<exists>s. one_over_one_plus_x 0 = Inr s \<and> int32 s"
proof -
  have "case one_over_one_plus_x 0 of Inl e \<Rightarrow> False | Inr s \<Rightarrow> INT32_MIN \<le> s \<and> s \<le> INT32_MAX" by code_simp
  then show ?thesis by (cases "one_over_one_plus_x 0") auto
qed

lemma equal_exponentials:
  assumes "0 < m" "m \<le> INT32_MAX" "diff_min \<le> 0" "values = replicate n v" "0 < n"
  shows "softmax_exponentials values m ls diff_min = Inr (replicate n (Some INT32_MAX))"
proof -
  have "Max (set values) = v" using assms(4,5) by simp
  moreover have "srdhm 0 m = Inr 0" using srdhm_eq [of 0 m] assms(1,2) by simp
  ultimately have "softmax_exponentials values m ls diff_min = Inr (map (\<lambda>_. Some INT32_MAX) values)"
    unfolding softmax_exponentials_def
    by (intro map_r_total) (use assms(3,4) exp_zero in \<open>auto simp: Let_def\<close>)
  then show ?thesis using assms(4) by (simp add: map_replicate_const)
qed

lemma equal_sum: "softmax_sum (replicate n (Some INT32_MAX)) = Inr (524288 * int n)"
proof -
  have r: "rounding_divide_by_pot INT32_MAX 12 = Inr 524288" by code_simp
  have "foldl_r (\<lambda>acc x. bind_r (rounding_divide_by_pot x 12) (\<lambda>v. Inr (acc + v))) s (replicate n INT32_MAX) =
      Inr (s + 524288 * int n)" for s
    by (induction n arbitrary: s) (simp_all add: r algebra_simps)
  moreover have "List.map_filter (\<lambda>x. x) (replicate n (Some INT32_MAX)) = replicate n INT32_MAX"
    by (induction n) (simp_all add: List.map_filter_simps)
  ultimately show ?thesis by (simp add: softmax_sum_def)
qed

text \<open>C34: Error behaviour. A softmax over 512 equal logits passes the accumulation check (its sum is
  far below the INT32 limit) and then fails inside the rounding shift, whose exponent is 32: the
  operator refuses the row with the \<open>ValueError\<close> of \<open>rounding_divide_by_pot\<close>, for every admissible
  scaling.\<close>

theorem softmax_row_limit:
  assumes "0 < m" "m \<le> INT32_MAX" "diff_min \<le> 0"
  shows "softmax_row m left_shift diff_min (replicate 512 v) = Inl (NpuValueError ''exponent must be within 0..31'')"
proof -
  have e: "softmax_exponentials (replicate 512 v) m left_shift diff_min = Inr (replicate 512 (Some INT32_MAX))"
    by (rule equal_exponentials [OF assms refl]) simp
  have s: "softmax_sum (replicate 512 (Some INT32_MAX)) = Inr 268435456" by (simp add: equal_sum)
  have b: "bit_length \<bar>268435456\<bar> = 29" by code_simp
  obtain c where c: "one_over_one_plus_x 0 = Inr c" "int32 c" using recip_zero by blast
  obtain p where p: "srdhm c INT32_MAX = Inr p" using srdhm_eq [of c INT32_MAX] c(2) by simp
  then have "int32 p" using srdhm_range [OF c(2) _ p] by simp
  then have x: "rounding_divide_by_pot p 32 = Inl (NpuValueError ''exponent must be within 0..31'')"
    by (simp add: rounding_divide_by_pot_def require_simps require_range_def raise_if_def)
  have sh: "(shl 268435456 (32 - 29) AND 4294967295) - shl 1 31 = 0" by code_simp
  have r: "replicate 512 (Some INT32_MAX) = Some INT32_MAX # replicate 511 (Some INT32_MAX)"
    by (simp flip: replicate_Suc)
  have i: "raise_if ((268435456::int) \<ge> shl 1 31) x = Inr ()" for x :: npu_error by (simp add: raise_if_def)
  show ?thesis
    unfolding softmax_row_def e bind_r_simps s Let_def b sh c(1) i unfolding r map_r.simps by (simp add: p x)
qed

theorem softmax_row_limit_witness:
  "softmax_row 1242899200 24 (- 124) (replicate 512 0) = Inl (NpuValueError ''exponent must be within 0..31'')"
  using softmax_row_limit [of 1242899200 "- 124" 24 0] by simp

section \<open>Concrete tensors\<close>

definition demo_tensor :: tensor where
  "demo_tensor = \<lparr>t_shape = (2, 2, 1), t_data = [10, 20, 30, 41], t_scale = Finite 1 (- 3), t_zero_point = 1\<rparr>"

definition demo_window :: window_args where
  "demo_window = \<lparr>stride_h = 1, stride_w = 1, pad_top = 0, pad_bottom = 0, pad_left = 0, pad_right = 0\<rparr>"

definition demo_quant :: quant_args where
  "demo_quant = \<lparr>output_scale = Finite 1 (- 3), output_zero_point = 0, act_min = - 128, act_max = 127\<rparr>"

lemma demo_tensor_ok: "tensor_ok demo_tensor"
  by code_simp

lemma demo_conv: "conv2d demo_tensor [[[[1], [2]], [[3], [- 1]]]] [5] [1073741824] [0] demo_window demo_quant =
    Inr \<lparr>t_shape = (1, 1, 1), t_data = [50], t_scale = Finite 1 (- 3), t_zero_point = 0\<rparr>"
  by code_simp

theorem conv2d_reference_witness:
  "multiply_by_quantized_multiplier (conv_reference demo_tensor [[[[1], [2]], [[3], [- 1]]]] [5] demo_window 0 0 0) 1073741824 0 =
    Inr 50"
proof -
  have "window_extents demo_tensor demo_window 2 2 = Inr (1, 1)" by code_simp
  moreover have "output_grid 1 1 1 = [(0, 0, 0)]" by code_simp
  moreover note conv2d_reference [OF demo_tensor_ok demo_conv]
  ultimately show ?thesis by (auto simp: demo_quant_def max_def min_def split: if_splits)
qed

theorem average_pool_nearest_witness:
  "\<exists>out avg. average_pool demo_tensor 2 2 demo_window (- 128) 127 = Inr out
     \<and> rounded_mean (window_values demo_tensor demo_window 2 2 0 0 0) avg \<and> t_data out = [avg]"
proof -
  have g: "pool_geometry demo_tensor 2 2 demo_window = Inr (1, 1)" "validate_act_bounds (- 128) 127 = Inr (- 128, 127)"
    "output_grid 1 1 1 = [(0, 0, 0)]" "t_channels demo_tensor = 1"
    "tensor_new (t_shape demo_tensor) (t_data demo_tensor) (t_scale demo_tensor) (t_zero_point demo_tensor) = Inr demo_tensor"
    "average_pool demo_tensor 2 2 demo_window (- 128) 127 =
      Inr \<lparr>t_shape = (1, 1, 1), t_data = [25], t_scale = Finite 1 (- 3), t_zero_point = 1\<rparr>" by code_simp+
  from average_pool_nearest [OF g(5,2,1)] obtain avg where
    "rounded_mean (window_values demo_tensor demo_window 2 2 0 0 0) avg" "25 = max (- 128) (min 127 avg)"
    unfolding g(3,4,6) by auto
  then show ?thesis unfolding g(6) by (auto simp: max_def min_def split: if_splits)
qed

end
