(* ===== verification/Npu_Desc.thy ===== *)
theory Npu_Desc
  imports Py_Bytes
begin

text \<open>
  The descriptor ABI of \<open>src/scripts/npu_descriptors.py\<close>: the 32-word record, its lossless byte codec and
  the validator with its deterministic order of checks. A \<open>DescriptorError\<close> is its fault code and the
  index of the offending word; the message text is left out. Field and property names carry the
  prefix \<open>d_\<close>.
\<close>

unbundle bit_operations_syntax

datatype desc_error = DescriptorError int "int option" | DescLengthError | DescStructError

abbreviation (input) "FAULT_DESCRIPTOR \<equiv> (1 :: int)"
abbreviation (input) "FAULT_UNSUPPORTED \<equiv> (2 :: int)"
abbreviation (input) "FAULT_RANGE \<equiv> (3 :: int)"
abbreviation (input) "OP_CONV2D \<equiv> (1 :: int)"
abbreviation (input) "OP_DEPTHWISE3X3 \<equiv> (2 :: int)"
abbreviation (input) "OP_FULLY_CONNECTED \<equiv> (3 :: int)"
abbreviation (input) "OP_ADD \<equiv> (4 :: int)"
abbreviation (input) "OP_MAX_POOL \<equiv> (5 :: int)"
abbreviation (input) "OP_AVERAGE_POOL \<equiv> (6 :: int)"
abbreviation (input) "OP_GLOBAL_AVERAGE_POOL \<equiv> (7 :: int)"
abbreviation (input) "OP_CLAMP \<equiv> (8 :: int)"
abbreviation (input) "UINT32_MODULUS \<equiv> (4294967296 :: int)"
abbreviation (input) "UNIT_KERNEL_STRIDE \<equiv> (16843009 :: int)"

section \<open>The record\<close>

record descriptor =
  d_version_opcode :: int
  d_reserved1 :: int
  d_input0_base :: int
  d_input1_base :: int
  d_output_base :: int
  d_param_base :: int
  d_input_hw :: int
  d_channels :: int
  d_output_hw :: int
  d_input0_row_bytes :: int
  d_output_row_bytes :: int
  d_input1_row_bytes :: int
  d_kernel_stride :: int
  d_padding :: int
  d_tile_hw :: int
  d_k_slice :: int
  d_input0_bytes :: int
  d_input1_bytes :: int
  d_output_bytes :: int
  d_param_bytes :: int
  d_input0_zero :: int
  d_input1_zero :: int
  d_output_zero :: int
  d_act_min :: int
  d_act_max :: int
  d_weight_base :: int
  d_weight_bytes :: int
  d_reserved26 :: int
  d_reserved27 :: int
  d_reserved28 :: int
  d_reserved29 :: int
  d_reserved30 :: int
  d_reserved31 :: int

definition lane :: "int \<Rightarrow> int \<Rightarrow> int \<Rightarrow> int" where
  "lane word shift low = shr word shift AND low"

definition d_version :: "descriptor \<Rightarrow> int" where
  "d_version d = lane (d_version_opcode d) 16 65535"

definition d_opcode :: "descriptor \<Rightarrow> int" where
  "d_opcode d = d_version_opcode d AND 255"

definition d_h :: "descriptor \<Rightarrow> int" where
  "d_h d = d_input_hw d AND 65535"

definition d_w :: "descriptor \<Rightarrow> int" where
  "d_w d = lane (d_input_hw d) 16 65535"

definition d_cin :: "descriptor \<Rightarrow> int" where
  "d_cin d = d_channels d AND 65535"

definition d_cout :: "descriptor \<Rightarrow> int" where
  "d_cout d = lane (d_channels d) 16 65535"

definition d_oh :: "descriptor \<Rightarrow> int" where
  "d_oh d = d_output_hw d AND 65535"

definition d_ow :: "descriptor \<Rightarrow> int" where
  "d_ow d = lane (d_output_hw d) 16 65535"

definition d_kh :: "descriptor \<Rightarrow> int" where
  "d_kh d = d_kernel_stride d AND 255"

definition d_kw :: "descriptor \<Rightarrow> int" where
  "d_kw d = lane (d_kernel_stride d) 8 255"

definition d_sh :: "descriptor \<Rightarrow> int" where
  "d_sh d = lane (d_kernel_stride d) 16 255"

definition d_sw :: "descriptor \<Rightarrow> int" where
  "d_sw d = lane (d_kernel_stride d) 24 255"

definition d_pad_top :: "descriptor \<Rightarrow> int" where
  "d_pad_top d = d_padding d AND 255"

definition d_pad_bottom :: "descriptor \<Rightarrow> int" where
  "d_pad_bottom d = lane (d_padding d) 8 255"

definition d_pad_left :: "descriptor \<Rightarrow> int" where
  "d_pad_left d = lane (d_padding d) 16 255"

definition d_pad_right :: "descriptor \<Rightarrow> int" where
  "d_pad_right d = lane (d_padding d) 24 255"

definition d_tile_h :: "descriptor \<Rightarrow> int" where
  "d_tile_h d = d_tile_hw d AND 255"

definition d_tile_w :: "descriptor \<Rightarrow> int" where
  "d_tile_w d = lane (d_tile_hw d) 8 255"

section \<open>The byte codec\<close>

definition decode_zero_point :: "int \<Rightarrow> int" where
  "decode_zero_point word = (if word \<le> 255 then (if word \<ge> 128 then word - 256 else word) else word)"

definition encode_signed_byte :: "int \<Rightarrow> int" where
  "encode_signed_byte v = (if v < 0 then v AND 255 else v)"

definition decode_bounds :: "int \<Rightarrow> int \<times> int" where
  "decode_bounds word =
     ((if word > 65535 then word else decode_zero_point (word AND 255)),
      decode_zero_point (shr word 8 AND 255))"

definition encode_bounds :: "int \<Rightarrow> int \<Rightarrow> int" where
  "encode_bounds lo hi = encode_signed_byte lo OR shl (encode_signed_byte hi) 8"

definition desc_words :: "descriptor \<Rightarrow> int list" where
  "desc_words d =
     [d_version_opcode d, d_reserved1 d, d_input0_base d, d_input1_base d, d_output_base d, d_param_base d,
      d_input_hw d, d_channels d, d_output_hw d, d_input0_row_bytes d, d_output_row_bytes d,
      d_input1_row_bytes d, d_kernel_stride d, d_padding d, d_tile_hw d, d_k_slice d, d_input0_bytes d,
      d_input1_bytes d, d_output_bytes d, d_param_bytes d, encode_signed_byte (d_input0_zero d),
      encode_signed_byte (d_input1_zero d), encode_signed_byte (d_output_zero d),
      encode_bounds (d_act_min d) (d_act_max d), d_weight_base d, d_weight_bytes d,
      d_reserved26 d, d_reserved27 d, d_reserved28 d, d_reserved29 d, d_reserved30 d, d_reserved31 d]"

definition to_bytes :: "descriptor \<Rightarrow> desc_error + bytes" where
  "to_bytes d = map_error (\<lambda>_. DescStructError) (pack_u32s (desc_words d))"

definition desc_of_words :: "int list \<Rightarrow> descriptor" where
  "desc_of_words ws =
     \<lparr>d_version_opcode = ws ! 0, d_reserved1 = ws ! 1, d_input0_base = ws ! 2, d_input1_base = ws ! 3,
      d_output_base = ws ! 4, d_param_base = ws ! 5, d_input_hw = ws ! 6, d_channels = ws ! 7,
      d_output_hw = ws ! 8, d_input0_row_bytes = ws ! 9, d_output_row_bytes = ws ! 10,
      d_input1_row_bytes = ws ! 11, d_kernel_stride = ws ! 12, d_padding = ws ! 13, d_tile_hw = ws ! 14,
      d_k_slice = ws ! 15, d_input0_bytes = ws ! 16, d_input1_bytes = ws ! 17, d_output_bytes = ws ! 18,
      d_param_bytes = ws ! 19, d_input0_zero = decode_zero_point (ws ! 20),
      d_input1_zero = decode_zero_point (ws ! 21), d_output_zero = decode_zero_point (ws ! 22),
      d_act_min = fst (decode_bounds (ws ! 23)), d_act_max = snd (decode_bounds (ws ! 23)),
      d_weight_base = ws ! 24, d_weight_bytes = ws ! 25, d_reserved26 = ws ! 26, d_reserved27 = ws ! 27,
      d_reserved28 = ws ! 28, d_reserved29 = ws ! 29, d_reserved30 = ws ! 30, d_reserved31 = ws ! 31\<rparr>"

definition from_bytes :: "bytes \<Rightarrow> desc_error + descriptor" where
  "from_bytes raw =
     (if length raw \<noteq> 128 then Inl DescLengthError else Inr (desc_of_words (unpack_u32s 32 raw)))"

section \<open>Derived quantities\<close>

definition used_span :: "int \<Rightarrow> int \<Rightarrow> int \<Rightarrow> int \<Rightarrow> int" where
  "used_span h w c row_bytes = (h - 1) * row_bytes + w * c"

definition full_reduction :: "descriptor \<Rightarrow> int" where
  "full_reduction d =
     (let opc = d_opcode d in
      if opc = OP_CONV2D then d_kh d * d_kw d * d_cin d
      else if opc = OP_DEPTHWISE3X3 then 9
      else if opc = OP_FULLY_CONNECTED then d_cin d
      else if opc \<in> {OP_MAX_POOL, OP_AVERAGE_POOL} then d_kh d * d_kw d
      else if opc = OP_GLOBAL_AVERAGE_POOL then d_h d * d_w d
      else 1)"

section \<open>Overlaps\<close>

datatype region_name = Input0 | Input1 | Output0 | Weights | Params | DescriptorRegion

type_synonym named_range = "int \<times> int \<times> region_name"

definition overlapping :: "named_range \<Rightarrow> named_range \<Rightarrow> bool" where
  "overlapping a b =
     (case (a, b) of ((base_a, size_a, _), (base_b, size_b, _)) \<Rightarrow>
        base_a < base_b + size_b \<and> base_b < base_a + size_a)"

definition alias_allowed :: "(region_name \<times> region_name) list \<Rightarrow> region_name \<Rightarrow> region_name \<Rightarrow> bool" where
  "alias_allowed allowed n m \<longleftrightarrow> list_ex (\<lambda>(x, y). (x = n \<and> y = m) \<or> (x = m \<and> y = n)) allowed"

fun check_no_overlap :: "named_range list \<Rightarrow> (region_name \<times> region_name) list \<Rightarrow> desc_error + unit" where
  "check_no_overlap [] allowed = Inr ()"
| "check_no_overlap (a # rest) allowed =
     bind_r (first_error (map (\<lambda>b.
         raise_if (0 < fst (snd a) \<and> 0 < fst (snd b) \<and> \<not> alias_allowed allowed (snd (snd a)) (snd (snd b)) \<and> overlapping a b)
           (DescriptorError FAULT_RANGE None)) rest))
       (\<lambda>_. check_no_overlap rest allowed)"

section \<open>The checks\<close>

definition desc_if :: "bool \<Rightarrow> int \<Rightarrow> int \<Rightarrow> desc_error + unit" where
  "desc_if bad code word = raise_if bad (DescriptorError code (Some word))"

definition signed_byte :: "int \<Rightarrow> bool" where
  "signed_byte v \<longleftrightarrow> - 128 \<le> v \<and> v \<le> 127"

definition reserved_tail :: "descriptor \<Rightarrow> int list" where
  "reserved_tail d =
     [d_reserved26 d, d_reserved27 d, d_reserved28 d, d_reserved29 d, d_reserved30 d, d_reserved31 d]"

definition check_structure :: "descriptor \<Rightarrow> desc_error + unit" where
  "check_structure d =
     first_error
       ([desc_if (d_version d \<noteq> 256) FAULT_DESCRIPTOR 0,
         desc_if (lane (d_version_opcode d) 8 255 \<noteq> 0) FAULT_DESCRIPTOR 0,
         desc_if (d_reserved1 d \<noteq> 0) FAULT_DESCRIPTOR 1]
        @ map (\<lambda>(offset, v). desc_if (v \<noteq> 0) FAULT_DESCRIPTOR (26 + offset)) (py_enumerate (reserved_tail d))
        @ [desc_if (shr (d_tile_hw d) 16 \<noteq> 0) FAULT_DESCRIPTOR 14,
         desc_if (\<not> signed_byte (d_input0_zero d)) FAULT_DESCRIPTOR 20,
         desc_if (\<not> signed_byte (d_output_zero d)) FAULT_DESCRIPTOR 22,
         desc_if (\<not> signed_byte (d_act_min d) \<or> \<not> signed_byte (d_act_max d)) FAULT_DESCRIPTOR 23,
         desc_if (d_act_min d > d_act_max d) FAULT_DESCRIPTOR 23,
         desc_if (\<not> (1 \<le> d_tile_h d \<and> d_tile_h d \<le> 8) \<or> \<not> (1 \<le> d_tile_w d \<and> d_tile_w d \<le> 8)) FAULT_DESCRIPTOR 14,
         desc_if (d_tile_h d * d_tile_w d > 8) FAULT_DESCRIPTOR 14,
         desc_if (\<not> (1 \<le> d_k_slice d \<and> d_k_slice d \<le> 1024)) FAULT_DESCRIPTOR 15])"

definition check_unused_fields :: "descriptor \<Rightarrow> int \<Rightarrow> desc_error + unit" where
  "check_unused_fields d opc =
     first_error
       ((if opc \<noteq> OP_ADD then
           [desc_if (d_input1_base d \<noteq> 0) FAULT_DESCRIPTOR 3, desc_if (d_input1_row_bytes d \<noteq> 0) FAULT_DESCRIPTOR 11,
            desc_if (d_input1_bytes d \<noteq> 0) FAULT_DESCRIPTOR 17, desc_if (d_input1_zero d \<noteq> 0) FAULT_DESCRIPTOR 21]
         else [])
        @ (if opc \<notin> {OP_CONV2D, OP_DEPTHWISE3X3, OP_FULLY_CONNECTED} then
           [desc_if (d_weight_base d \<noteq> 0) FAULT_DESCRIPTOR 24, desc_if (d_weight_bytes d \<noteq> 0) FAULT_DESCRIPTOR 25]
         else [])
        @ (if opc \<notin> {OP_CONV2D, OP_DEPTHWISE3X3, OP_FULLY_CONNECTED, OP_ADD} then
           [desc_if (d_param_base d \<noteq> 0) FAULT_DESCRIPTOR 5, desc_if (d_param_bytes d \<noteq> 0) FAULT_DESCRIPTOR 19]
         else [])
        @ (if opc = OP_GLOBAL_AVERAGE_POOL then
           [desc_if (d_kernel_stride d \<noteq> 0) FAULT_DESCRIPTOR 12, desc_if (d_padding d \<noteq> 0) FAULT_DESCRIPTOR 13]
         else []))"

definition check_geometry :: "descriptor \<Rightarrow> int \<Rightarrow> desc_error + unit" where
  "check_geometry d opc =
     first_error
       (map (\<lambda>(v, word). desc_if (\<not> (1 \<le> v \<and> v \<le> 4096)) FAULT_RANGE word)
          [(d_h d, 6), (d_w d, 6), (d_cin d, 7), (d_cout d, 7), (d_oh d, 8), (d_ow d, 8)]
        @ (if opc \<in> {OP_CONV2D, OP_DEPTHWISE3X3, OP_MAX_POOL, OP_AVERAGE_POOL} then
             (let expect_oh = (d_h d + d_pad_top d + d_pad_bottom d - d_kh d) div d_sh d + 1;
                  expect_ow = (d_w d + d_pad_left d + d_pad_right d - d_kw d) div d_sw d + 1 in
              [desc_if (d_kh d < 1 \<or> d_kw d < 1 \<or> d_sh d < 1 \<or> d_sw d < 1) FAULT_RANGE 12,
               desc_if (d_pad_top d \<ge> d_kh d \<or> d_pad_bottom d \<ge> d_kh d \<or> d_pad_left d \<ge> d_kw d \<or> d_pad_right d \<ge> d_kw d)
                 FAULT_RANGE 13,
               desc_if (expect_oh \<le> 0 \<or> expect_ow \<le> 0) FAULT_RANGE 8,
               desc_if (d_oh d \<noteq> expect_oh \<or> d_ow d \<noteq> expect_ow) FAULT_RANGE 8])
           else []))"

definition check_kernel_stride :: "descriptor \<Rightarrow> int \<Rightarrow> (desc_error + unit) list" where
  "check_kernel_stride d kernel_max =
     [desc_if (\<not> (1 \<le> d_kh d \<and> d_kh d \<le> kernel_max) \<or> \<not> (1 \<le> d_kw d \<and> d_kw d \<le> kernel_max)) FAULT_UNSUPPORTED 12,
      desc_if (d_sh d \<notin> {1, 2} \<or> d_sw d \<notin> {1, 2}) FAULT_UNSUPPORTED 12]"

definition operator_rules :: "descriptor \<Rightarrow> int \<Rightarrow> (desc_error + unit) list" where
  "operator_rules d opc =
     (if opc = OP_CONV2D then check_kernel_stride d 16
      else if opc = OP_DEPTHWISE3X3 then
        desc_if (d_kh d \<noteq> 3 \<or> d_kw d \<noteq> 3) FAULT_UNSUPPORTED 12
        # check_kernel_stride d 16 @ [desc_if (d_cout d \<noteq> d_cin d) FAULT_UNSUPPORTED 7]
      else if opc = OP_FULLY_CONNECTED then
        [desc_if (d_h d \<noteq> 1 \<or> d_w d \<noteq> 1) FAULT_UNSUPPORTED 6,
         desc_if (d_oh d \<noteq> 1 \<or> d_ow d \<noteq> 1) FAULT_UNSUPPORTED 8,
         desc_if (d_kernel_stride d \<noteq> UNIT_KERNEL_STRIDE) FAULT_UNSUPPORTED 12,
         desc_if (d_padding d \<noteq> 0) FAULT_UNSUPPORTED 13]
      else if opc = OP_ADD then
        [desc_if (\<not> signed_byte (d_input1_zero d)) FAULT_DESCRIPTOR 21,
         desc_if (d_input1_base d = 0) FAULT_DESCRIPTOR 3,
         desc_if (d_oh d \<noteq> d_h d \<or> d_ow d \<noteq> d_w d) FAULT_UNSUPPORTED 8,
         desc_if (d_cout d \<noteq> d_cin d) FAULT_UNSUPPORTED 7,
         desc_if (d_kernel_stride d \<noteq> UNIT_KERNEL_STRIDE) FAULT_UNSUPPORTED 12,
         desc_if (d_padding d \<noteq> 0) FAULT_UNSUPPORTED 13]
      else if opc \<in> {OP_MAX_POOL, OP_AVERAGE_POOL} then
        check_kernel_stride d 16
        @ [desc_if (d_cout d \<noteq> d_cin d) FAULT_UNSUPPORTED 7,
           desc_if (d_input0_zero d \<noteq> d_output_zero d) FAULT_UNSUPPORTED 22]
      else if opc = OP_GLOBAL_AVERAGE_POOL then
        [desc_if (d_oh d \<noteq> 1 \<or> d_ow d \<noteq> 1) FAULT_UNSUPPORTED 8,
         desc_if (d_cout d \<noteq> d_cin d) FAULT_UNSUPPORTED 7,
         desc_if (d_input0_zero d \<noteq> d_output_zero d) FAULT_UNSUPPORTED 22]
      else if opc = OP_CLAMP then
        [desc_if (d_oh d \<noteq> d_h d \<or> d_ow d \<noteq> d_w d) FAULT_UNSUPPORTED 8,
         desc_if (d_cout d \<noteq> d_cin d) FAULT_UNSUPPORTED 7,
         desc_if (d_input0_zero d \<noteq> d_output_zero d) FAULT_UNSUPPORTED 22,
         desc_if (d_kernel_stride d \<noteq> UNIT_KERNEL_STRIDE) FAULT_UNSUPPORTED 12,
         desc_if (d_padding d \<noteq> 0) FAULT_UNSUPPORTED 13]
      else [])"

definition expect_weight_bytes :: "descriptor \<Rightarrow> int \<Rightarrow> int" where
  "expect_weight_bytes d opc =
     (if opc = OP_DEPTHWISE3X3 then (d_cin d + 7) div 8 * 72 else (d_cout d + 7) div 8 * full_reduction d * 8)"

definition check_operator :: "descriptor \<Rightarrow> int \<Rightarrow> desc_error + unit" where
  "check_operator d opc =
     first_error
       (operator_rules d opc
        @ [desc_if (d_k_slice d > full_reduction d) FAULT_UNSUPPORTED 15,
           desc_if (d_tile_h d > d_oh d \<or> d_tile_w d > d_ow d) FAULT_RANGE 14]
        @ (if opc \<in> {OP_CONV2D, OP_DEPTHWISE3X3, OP_FULLY_CONNECTED} then
             [desc_if (d_weight_base d = 0) FAULT_DESCRIPTOR 24,
              desc_if (d_weight_bytes d \<noteq> expect_weight_bytes d opc) FAULT_DESCRIPTOR 25,
              desc_if (d_param_base d = 0) FAULT_DESCRIPTOR 5,
              desc_if (d_param_bytes d \<noteq> d_cout d * 16) FAULT_DESCRIPTOR 19]
           else if opc = OP_ADD then
             [desc_if (d_param_base d = 0) FAULT_DESCRIPTOR 5, desc_if (d_param_bytes d \<noteq> 32) FAULT_DESCRIPTOR 19]
           else []))"

text \<open>The operands with their base, used span, declared allocation and the words that name them.\<close>

definition operands :: "descriptor \<Rightarrow> int \<Rightarrow> (int \<times> int \<times> int \<times> int \<times> int) list" where
  "operands d opc =
     [(d_input0_base d, used_span (d_h d) (d_w d) (d_cin d) (d_input0_row_bytes d), d_input0_bytes d, 2, 16)]
     @ (if opc = OP_ADD
        then [(d_input1_base d, used_span (d_h d) (d_w d) (d_cin d) (d_input1_row_bytes d), d_input1_bytes d, 3, 17)]
        else [])
     @ [(d_output_base d, used_span (d_oh d) (d_ow d) (d_cout d) (d_output_row_bytes d), d_output_bytes d, 4, 18)]"

definition check_strides_and_spans :: "descriptor \<Rightarrow> int \<Rightarrow> desc_error + unit" where
  "check_strides_and_spans d opc =
     first_error
       ([desc_if (d_input0_row_bytes d < d_w d * d_cin d) FAULT_RANGE 9,
         desc_if (d_output_row_bytes d < d_ow d * d_cout d) FAULT_RANGE 10,
         desc_if (opc = OP_ADD \<and> d_input1_row_bytes d < d_w d * d_cin d) FAULT_RANGE 11]
        @ concat (map (\<lambda>(base, span_bytes, allotted, base_word, bytes_word).
            [desc_if (span_bytes > allotted) FAULT_RANGE bytes_word,
             desc_if (base + span_bytes > UINT32_MODULUS) FAULT_RANGE base_word,
             desc_if (base + allotted > UINT32_MODULUS) FAULT_RANGE base_word]) (operands d opc))
        @ [desc_if (d_weight_bytes d \<noteq> 0 \<and> d_weight_base d + d_weight_bytes d > UINT32_MODULUS) FAULT_RANGE 24,
           desc_if (d_param_bytes d \<noteq> 0 \<and> d_param_base d + d_param_bytes d > UINT32_MODULUS) FAULT_RANGE 5])"

definition check_alignment :: "descriptor \<Rightarrow> desc_error + unit" where
  "check_alignment d =
     first_error
       [desc_if (d_param_base d \<noteq> 0 \<and> d_param_base d mod 64 \<noteq> 0) FAULT_DESCRIPTOR 5,
        desc_if (d_weight_base d \<noteq> 0 \<and> d_weight_base d mod 64 \<noteq> 0) FAULT_DESCRIPTOR 24]"

definition operand_ranges :: "descriptor \<Rightarrow> int \<Rightarrow> named_range list" where
  "operand_ranges d opc =
     [(d_input0_base d, d_input0_bytes d, Input0), (d_output_base d, d_output_bytes d, Output0)]
     @ (if opc = OP_ADD then [(d_input1_base d, d_input1_bytes d, Input1)] else [])
     @ (if d_weight_bytes d \<noteq> 0 then [(d_weight_base d, d_weight_bytes d, Weights)] else [])
     @ (if d_param_bytes d \<noteq> 0 then [(d_param_base d, d_param_bytes d, Params)] else [])"

definition check_overlap :: "descriptor \<Rightarrow> int \<Rightarrow> (int \<times> int) option \<Rightarrow> desc_error + unit" where
  "check_overlap d opc region =
     bind_r
       (case region of
          None \<Rightarrow> Inr (operand_ranges d opc)
        | Some (base, sz) \<Rightarrow>
            if sz \<noteq> 0 \<and> base + sz > UINT32_MODULUS then Inl (DescriptorError FAULT_RANGE None)
            else Inr (operand_ranges d opc @ [(base, sz, DescriptorRegion)]))
       (\<lambda>ranges. check_no_overlap ranges (if opc = OP_ADD then [(Input0, Input1)] else []))"

definition validate_descriptor :: "descriptor \<Rightarrow> (int \<times> int) option \<Rightarrow> desc_error + unit" where
  "validate_descriptor d region =
     (let opc = d_opcode d in
      bind_r (check_structure d) (\<lambda>_.
      bind_r (desc_if (opc \<notin> {1..8}) FAULT_UNSUPPORTED 0) (\<lambda>_.
      bind_r (check_unused_fields d opc) (\<lambda>_.
      bind_r (check_geometry d opc) (\<lambda>_.
      bind_r (check_operator d opc) (\<lambda>_.
      bind_r (check_strides_and_spans d opc) (\<lambda>_.
      bind_r (check_alignment d) (\<lambda>_.
        check_overlap d opc region))))))))"

end
