(* ===== verification/Npu_Desc_Props.thy ===== *)
theory Npu_Desc_Props
  imports Npu_Desc
begin

text \<open>
  Properties of the descriptor ABI: the record codec loses nothing, and a record the validator accepts is
  memory safe, stated against the sets of bytes the job reads and writes.
\<close>

unbundle bit_operations_syntax

section \<open>The record is lossless\<close>

lemma byte_mask: "(255::int) = mask 8"
  by (simp add: mask_eq_exp_minus_1)

lemma encode_decode_byte:
  assumes "0 \<le> w"
  shows "encode_signed_byte (decode_zero_point w) = w"
proof (cases "w \<le> 255 \<and> 128 \<le> w")
  case True
  then have "(w - 256) mod 256 = w" by simp
  with True show ?thesis by (simp add: encode_signed_byte_def decode_zero_point_def bit_arith)
qed (use assms in \<open>auto simp: encode_signed_byte_def decode_zero_point_def\<close>)

lemma halfword_bits:
  assumes "0 \<le> (w::int)" "w \<le> 65535" "bit w n"
  shows "n < 16"
proof -
  have "take_bit 16 w = w" using assms by (simp add: take_bit_int_eq_self_iff)
  then show ?thesis using assms(3) by (metis bit_take_bit_iff)
qed

lemma encode_decode_bounds:
  assumes "0 \<le> w"
  shows "encode_bounds (fst (decode_bounds w)) (snd (decode_bounds w)) = w"
proof -
  have hi: "encode_signed_byte (decode_zero_point (shr w 8 AND 255)) = shr w 8 AND 255"
    by (rule encode_decode_byte) simp
  have lo: "encode_signed_byte (if w > 65535 then w else decode_zero_point (w AND 255)) = (if w > 65535 then w else w AND 255)"
    using encode_decode_byte [of "w AND 255"] assms by (auto simp: encode_signed_byte_def)
  have eq: "encode_bounds (fst (decode_bounds w)) (snd (decode_bounds w)) =
      (if w > 65535 then w else w AND 255) OR push_bit 8 (drop_bit 8 w AND 255)"
    unfolding encode_bounds_def decode_bounds_def fst_conv snd_conv lo hi by simp
  show ?thesis
    unfolding eq
    by (rule bit_eqI) (auto simp: bit_or_iff bit_and_iff bit_push_bit_iff bit_drop_bit_eq byte_mask bit_mask_iff
        dest: halfword_bits [OF assms, rotated -1])
qed

lemma words_of_desc:
  assumes "length ws = 32" "\<forall>w \<in> set ws. 0 \<le> w"
  shows "desc_words (desc_of_words ws) = ws"
proof -
  have nonneg: "0 \<le> ws ! i" if "i < 32" for i
    using assms that by simp
  have "desc_words (desc_of_words ws) = map (nth ws) [0..<32]"
    by (simp add: upt_conv_Cons desc_words_def desc_of_words_def encode_decode_byte encode_decode_bounds nonneg)
      (simp add: numeral_eq_Suc)
  also have "\<dots> = ws" by (rule nth_equalityI) (simp_all add: assms)
  finally show ?thesis .
qed

text \<open>C40: The record codec is lossless. Decoding fails only on a record that is not 128 bytes long;
  every other record, also one with reserved bits set or a non-canonical signed byte, is decoded to
  fields that encode to exactly the same bytes.\<close>

theorem descriptor_codec_lossless:
  "case from_bytes raw of
     Inl e \<Rightarrow> e = DescLengthError \<and> length raw \<noteq> 128
   | Inr d \<Rightarrow> length raw = 128 \<and> to_bytes d = Inr raw"
proof (cases "length raw = 128")
  case True
  have range: "\<forall>w \<in> set (unpack_u32s 32 raw). u32 w"
    using unpack_u32s_range [of _ 32 raw] True by auto
  then have "desc_words (desc_of_words (unpack_u32s 32 raw)) = unpack_u32s 32 raw"
    by (intro words_of_desc) auto
  moreover have "pack_u32s (unpack_u32s 32 raw) = Inr raw"
    using range pack_unpack [of raw 32] True by (simp add: pack_u32s_Inr)
  ultimately show ?thesis
    using True by (simp add: from_bytes_def to_bytes_def map_error_def)
qed (simp add: from_bytes_def)

section \<open>What a validated record may touch\<close>

text \<open>The memory contract of a job: the bytes its operands read, the bytes it writes and the array the
  descriptors themselves live in. A tensor element \<open>(y, x, c)\<close> lives at \<open>base + y * row + x * C + c\<close>.\<close>

definition element_address :: "int \<Rightarrow> int \<Rightarrow> int \<Rightarrow> int \<times> int \<times> int \<Rightarrow> int" where
  "element_address base row chans = (\<lambda>(y, x, c). base + y * row + x * chans + c)"

definition box :: "int \<Rightarrow> int \<Rightarrow> int \<Rightarrow> (int \<times> int \<times> int) set" where
  "box h w chans = {0..<h} \<times> {0..<w} \<times> {0..<chans}"

definition byte_range :: "int \<Rightarrow> int \<Rightarrow> int set" where
  "byte_range base sz = {base..<base + sz}"

definition written_bytes :: "descriptor \<Rightarrow> int set" where
  "written_bytes d = element_address (d_output_base d) (d_output_row_bytes d) (d_cout d) ` box (d_oh d) (d_ow d) (d_cout d)"

definition read_bytes :: "descriptor \<Rightarrow> int set" where
  "read_bytes d =
     element_address (d_input0_base d) (d_input0_row_bytes d) (d_cin d) ` box (d_h d) (d_w d) (d_cin d)
     \<union> (if d_opcode d = OP_ADD
        then element_address (d_input1_base d) (d_input1_row_bytes d) (d_cin d) ` box (d_h d) (d_w d) (d_cin d) else {})
     \<union> byte_range (d_weight_base d) (d_weight_bytes d) \<union> byte_range (d_param_base d) (d_param_bytes d)"

definition region_bytes :: "(int \<times> int) option \<Rightarrow> int set" where
  "region_bytes region = (case region of None \<Rightarrow> {} | Some (base, sz) \<Rightarrow> byte_range base sz)"

lemma desc_if_Inr [result_simps]: "desc_if bad code word = Inr u \<longleftrightarrow> \<not> bad"
  by (simp add: desc_if_def result_simps)

lemma row_offset:
  fixes x :: int
  assumes "0 \<le> x" "x < w" "0 \<le> c" "c < chans"
  shows "0 \<le> x * chans + c" "x * chans + c < w * chans"
proof -
  have "(x + 1) * chans \<le> w * chans" using assms by (intro mult_right_mono) auto
  then show "x * chans + c < w * chans" using assms by (simp add: algebra_simps)
qed (use assms in auto)

lemma digits:
  fixes k k' m r r' :: int
  assumes "k * m + r = k' * m + r'" "0 \<le> r" "r < m" "0 \<le> r'" "r' < m"
  shows "k = k'" "r = r'"
proof -
  show "k = k'" using arg_cong [OF assms(1), of "\<lambda>z. z div m"] assms(2-5) by simp
  then show "r = r'" using assms(1) by simp
qed

lemma element_in_span:
  assumes "p \<in> box h w chans" "w * chans \<le> row"
  shows "element_address base row chans p \<in> byte_range base (used_span h w chans row)"
proof -
  obtain y x c where p: "p = (y, x, c)" "0 \<le> y" "y < h" "0 \<le> x" "x < w" "0 \<le> c" "c < chans"
    using assms(1) by (auto simp: box_def)
  note off = row_offset [OF p(4-7)]
  then have "0 \<le> row" using assms(2) by linarith
  then have "0 \<le> y * row" "y * row \<le> (h - 1) * row" using p by (auto intro: mult_right_mono)
  with off show ?thesis by (simp add: p(1) element_address_def byte_range_def used_span_def)
qed

lemma element_address_inj:
  assumes "w * chans \<le> row"
  shows "inj_on (element_address base row chans) (box h w chans)"
proof (rule inj_onI)
  fix p q
  assume "p \<in> box h w chans" "q \<in> box h w chans" and eq: "element_address base row chans p = element_address base row chans q"
  then obtain y x c y' x' c' where p: "p = (y, x, c)" "0 \<le> x" "x < w" "0 \<le> c" "c < chans"
    and q: "q = (y', x', c')" "0 \<le> x'" "x' < w" "0 \<le> c'" "c' < chans"
    by (auto simp: box_def)
  have "y * row + (x * chans + c) = y' * row + (x' * chans + c')"
    using eq by (simp add: p(1) q(1) element_address_def)
  then have y: "y = y'" "x * chans + c = x' * chans + c'"
    using digits [of y row "x * chans + c" y' "x' * chans + c'"] row_offset [OF p(2-5)] row_offset [OF q(2-5)] assms by auto
  show "p = q" using y(1) digits [OF y(2)] p q by simp
qed

lemma byte_range_mono: "m \<le> n \<Longrightarrow> byte_range base m \<subseteq> byte_range base n"
  by (auto simp: byte_range_def)

section \<open>Overlaps\<close>

definition clash :: "(region_name \<times> region_name) list \<Rightarrow> named_range \<Rightarrow> named_range \<Rightarrow> bool" where
  "clash allowed a b \<longleftrightarrow> 0 < fst (snd a) \<and> 0 < fst (snd b) \<and> \<not> alias_allowed allowed (snd (snd a)) (snd (snd b)) \<and> overlapping a b"

lemma check_no_overlap_Inr:
  "check_no_overlap rs allowed = Inr () \<longleftrightarrow> sorted_wrt (\<lambda>a b. \<not> clash allowed a b) rs"
  by (induction rs) (auto simp: result_simps clash_def)

lemma clash_sym: "clash allowed a b \<Longrightarrow> clash allowed b a"
  by (force simp: clash_def alias_allowed_def overlapping_def list_ex_iff split: prod.splits)

lemma sorted_wrt_sym:
  assumes "sorted_wrt P xs" "a \<in> set xs" "b \<in> set xs" "a \<noteq> b" "\<And>x y. P x y \<Longrightarrow> P y x"
  shows "P a b"
  using assms by (induction xs) auto

lemma unclashed_disjoint:
  assumes "\<not> clash allowed (base_a, size_a, n) (base_b, size_b, m)" "\<not> alias_allowed allowed n m"
  shows "byte_range base_a size_a \<inter> byte_range base_b size_b = {}"
  using assms by (auto simp: clash_def overlapping_def byte_range_def)

lemma validated_phases:
  assumes "validate_descriptor d region = Inr ()"
  shows "check_strides_and_spans d (d_opcode d) = Inr ()" "check_overlap d (d_opcode d) region = Inr ()"
  using assms by (auto simp: validate_descriptor_def Let_def result_simps)

lemma decoded_nonneg:
  assumes "from_bytes raw = Inr d"
  shows "0 \<le> d_input0_base d" "0 \<le> d_input1_base d" "0 \<le> d_output_base d" "0 \<le> d_weight_base d"
    "0 \<le> d_param_base d" "0 \<le> d_weight_bytes d" "0 \<le> d_param_bytes d"
proof -
  have len: "length raw = 128" and d: "d = desc_of_words (unpack_u32s 32 raw)"
    using assms by (auto simp: from_bytes_def split: if_splits)
  have "0 \<le> unpack_u32s 32 raw ! i" if "i < 32" for i
    using unpack_u32s_range [OF nth_mem, of i 32 raw] that len by simp
  then show "0 \<le> d_input0_base d" "0 \<le> d_input1_base d" "0 \<le> d_output_base d" "0 \<le> d_weight_base d"
    "0 \<le> d_param_base d" "0 \<le> d_weight_bytes d" "0 \<le> d_param_bytes d"
    by (simp_all add: d desc_of_words_def)
qed

lemma checked_rows:
  assumes "check_strides_and_spans d opc = Inr ()"
  shows "d_w d * d_cin d \<le> d_input0_row_bytes d" "d_ow d * d_cout d \<le> d_output_row_bytes d"
    "opc = OP_ADD \<Longrightarrow> d_w d * d_cin d \<le> d_input1_row_bytes d"
  using assms by (auto simp: check_strides_and_spans_def result_simps simp del: set_concat set_map)

lemma checked_operand:
  assumes "check_strides_and_spans d opc = Inr ()" "(base, span_bytes, allotted, bw, sw) \<in> set (operands d opc)"
  shows "span_bytes \<le> allotted" "base + allotted \<le> UINT32_MODULUS"
  using assms by (force simp: check_strides_and_spans_def result_simps)+

lemma checked_side_arrays:
  assumes "check_strides_and_spans d opc = Inr ()"
  shows "byte_range (d_weight_base d) (d_weight_bytes d) \<subseteq> {d_weight_base d..<UINT32_MODULUS}"
    "byte_range (d_param_base d) (d_param_bytes d) \<subseteq> {d_param_base d..<UINT32_MODULUS}"
  using assms by (auto simp: check_strides_and_spans_def result_simps byte_range_def)

text \<open>An operand's elements stay inside its allocation.\<close>

lemma operand_elements:
  assumes "check_strides_and_spans d opc = Inr ()"
    "(base, used_span h w chans row, allotted, bw, sw) \<in> set (operands d opc)" "w * chans \<le> row" "0 \<le> base"
  shows "element_address base row chans ` box h w chans \<subseteq> byte_range base allotted"
    "byte_range base allotted \<subseteq> {0..<UINT32_MODULUS}"
proof -
  show "element_address base row chans ` box h w chans \<subseteq> byte_range base allotted"
    using element_in_span [OF _ assms(3)] byte_range_mono [OF checked_operand(1) [OF assms(1,2)]] by blast
  show "byte_range base allotted \<subseteq> {0..<UINT32_MODULUS}"
    using checked_operand(2) [OF assms(1,2)] assms(4) by (auto simp: byte_range_def)
qed

lemma output_disjoint:
  assumes "check_overlap d opc region = Inr ()" "(base, sz, n) \<in> set (operand_ranges d opc)" "n \<noteq> Output0"
  shows "byte_range (d_output_base d) (d_output_bytes d) \<inter> byte_range base sz = {}"
    "byte_range (d_output_base d) (d_output_bytes d) \<inter> region_bytes region = {}"
    "byte_range base sz \<inter> region_bytes region = {}"
proof -
  let ?allowed = "if opc = OP_ADD then [(Input0, Input1)] else []"
  let ?out = "(d_output_base d, d_output_bytes d, Output0)"
  define rs where "rs = operand_ranges d opc @ (case region of None \<Rightarrow> [] | Some (b, s) \<Rightarrow> [(b, s, DescriptorRegion)])"
  have "check_no_overlap rs ?allowed = Inr ()"
    using assms(1) by (cases region) (auto simp: check_overlap_def rs_def result_simps split: if_splits)
  then have apart: "\<not> clash ?allowed a b" if "a \<in> set rs" "b \<in> set rs" "a \<noteq> b" for a b
    unfolding check_no_overlap_Inr using that by (rule sorted_wrt_sym) (blast intro: clash_sym)
  have out: "?out \<in> set rs" and r: "(base, sz, n) \<in> set rs" using assms(2) by (auto simp: rs_def operand_ranges_def)
  have names: "n \<noteq> DescriptorRegion" using assms(2) by (auto simp: operand_ranges_def split: if_splits)
  show "byte_range (d_output_base d) (d_output_bytes d) \<inter> byte_range base sz = {}"
    using assms(3) by (intro unclashed_disjoint [OF apart [OF out r]]) (auto simp: alias_allowed_def)
  have region: "byte_range b s \<inter> region_bytes region = {}" if "(b, s, k) \<in> set rs" "k \<noteq> DescriptorRegion" for b s k
  proof (cases region)
    case (Some q)
    obtain rb rz where q: "q = (rb, rz)" by (cases q)
    have "(rb, rz, DescriptorRegion) \<in> set rs" using Some q by (simp add: rs_def)
    from apart [OF that(1) this] show ?thesis
      using that(2) Some q unclashed_disjoint [of ?allowed b s k rb rz DescriptorRegion]
      by (simp add: region_bytes_def alias_allowed_def)
  qed (simp add: region_bytes_def)
  show "byte_range (d_output_base d) (d_output_bytes d) \<inter> region_bytes region = {}"
    using region [OF out] by simp
  show "byte_range base sz \<inter> region_bytes region = {}"
    using region [OF r names] .
qed

lemma read_bytes_covered:
  assumes "from_bytes raw = Inr d" "validate_descriptor d region = Inr ()"
  obtains R where "read_bytes d \<subseteq> R" "R \<subseteq> {0..<UINT32_MODULUS}"
    "byte_range (d_output_base d) (d_output_bytes d) \<inter> R = {}"
proof -
  let ?opc = "d_opcode d"
  let ?out = "byte_range (d_output_base d) (d_output_bytes d)"
  note spans = validated_phases(1) [OF assms(2)] and apart = output_disjoint(1) [OF validated_phases(2) [OF assms(2)]]
  note rows = checked_rows [OF spans] and side = checked_side_arrays [OF spans] and nonneg = decoded_nonneg [OF assms(1)]
  let ?in0 = "byte_range (d_input0_base d) (d_input0_bytes d)"
  let ?in1 = "if ?opc = OP_ADD then byte_range (d_input1_base d) (d_input1_bytes d) else {}"
  let ?side = "byte_range (d_weight_base d) (d_weight_bytes d) \<union> byte_range (d_param_base d) (d_param_bytes d)"
  have r0: "element_address (d_input0_base d) (d_input0_row_bytes d) (d_cin d) ` box (d_h d) (d_w d) (d_cin d) \<subseteq> ?in0"
    "?in0 \<subseteq> {0..<UINT32_MODULUS}"
    using operand_elements [OF spans _ rows(1), of "d_input0_base d" "d_h d" "d_input0_bytes d" 2 16] nonneg
    by (simp_all add: operands_def)
  have r1: "(if ?opc = OP_ADD then element_address (d_input1_base d) (d_input1_row_bytes d) (d_cin d) ` box (d_h d) (d_w d) (d_cin d)
      else {}) \<subseteq> ?in1" "?in1 \<subseteq> {0..<UINT32_MODULUS}"
    using operand_elements [OF spans _ rows(3), of "d_input1_base d" "d_h d" "d_input1_bytes d" 3 17] nonneg
    by (simp_all add: operands_def)
  have "read_bytes d \<subseteq> ?in0 \<union> ?in1 \<union> ?side" unfolding read_bytes_def using r0(1) r1(1) by blast
  moreover have "?side \<subseteq> {0..<UINT32_MODULUS}" using side nonneg by auto
  moreover have "?out \<inter> ?in0 = {}" "?out \<inter> ?in1 = {}" "?out \<inter> ?side = {}"
    using apart [of "d_input0_base d" "d_input0_bytes d" Input0] apart [of "d_input1_base d" "d_input1_bytes d" Input1]
      apart [of "d_weight_base d" "d_weight_bytes d" Weights] apart [of "d_param_base d" "d_param_bytes d" Params]
    by (auto simp: operand_ranges_def byte_range_def)
  ultimately show thesis using r0(2) r1(2) by (intro that [of "?in0 \<union> ?in1 \<union> ?side"]) auto
qed

lemma output_allocation_disjoint:
  assumes "from_bytes raw = Inr d" "validate_descriptor d region = Inr ()"
  shows "byte_range (d_output_base d) (d_output_bytes d) \<inter> (read_bytes d \<union> region_bytes region) = {}"
proof -
  obtain R where "read_bytes d \<subseteq> R" "byte_range (d_output_base d) (d_output_bytes d) \<inter> R = {}"
    by (rule read_bytes_covered [OF assms])
  moreover have "byte_range (d_output_base d) (d_output_bytes d) \<inter> region_bytes region = {}"
    by (rule output_disjoint(2) [OF validated_phases(2) [OF assms(2)], of "d_input0_base d" "d_input0_bytes d" Input0])
      (simp_all add: operand_ranges_def)
  ultimately show ?thesis by blast
qed

text \<open>C39: A validated record is memory safe. Every byte the job reads (both inputs, packed weights,
  parameters) or writes lies in the 32-bit address space, the output elements are at pairwise distinct
  addresses, and what is written meets neither what is read nor the array of descriptors.\<close>

theorem validated_descriptor_memory_safe:
  assumes "from_bytes raw = Inr d" "validate_descriptor d region = Inr ()"
  shows "read_bytes d \<union> written_bytes d \<subseteq> {0..<4294967296} \<and>
    written_bytes d \<inter> (read_bytes d \<union> region_bytes region) = {} \<and>
    inj_on (element_address (d_output_base d) (d_output_row_bytes d) (d_cout d)) (box (d_oh d) (d_ow d) (d_cout d))"
proof -
  let ?out = "byte_range (d_output_base d) (d_output_bytes d)"
  note spans = validated_phases(1) [OF assms(2)]
  have w: "written_bytes d \<subseteq> ?out" "?out \<subseteq> {0..<UINT32_MODULUS}"
    unfolding written_bytes_def
    using operand_elements [OF spans _ checked_rows(2) [OF spans], of "d_output_base d" "d_oh d" "d_output_bytes d" 4 18]
      decoded_nonneg(3) [OF assms(1)] by (simp_all add: operands_def)
  obtain R where "read_bytes d \<subseteq> R" "R \<subseteq> {0..<UINT32_MODULUS}" by (rule read_bytes_covered [OF assms])
  then have "read_bytes d \<union> written_bytes d \<subseteq> {0..<4294967296}" using w by blast
  moreover have "written_bytes d \<inter> (read_bytes d \<union> region_bytes region) = {}"
    using w(1) output_allocation_disjoint [OF assms] by blast
  ultimately show ?thesis using element_address_inj [OF checked_rows(2) [OF spans]] by blast
qed

definition clamp_record :: descriptor where
  "clamp_record = \<lparr>d_version_opcode = 16777224, d_reserved1 = 0, d_input0_base = 4096, d_input1_base = 0,
     d_output_base = 8192, d_param_base = 0, d_input_hw = 131074, d_channels = 131074, d_output_hw = 131074,
     d_input0_row_bytes = 4, d_output_row_bytes = 16, d_input1_row_bytes = 0, d_kernel_stride = 16843009,
     d_padding = 0, d_tile_hw = 514, d_k_slice = 1, d_input0_bytes = 8, d_input1_bytes = 0, d_output_bytes = 20,
     d_param_bytes = 0, d_input0_zero = - 3, d_input1_zero = 0, d_output_zero = - 3, d_act_min = - 128,
     d_act_max = 127, d_weight_base = 0, d_weight_bytes = 0, d_reserved26 = 0, d_reserved27 = 0,
     d_reserved28 = 0, d_reserved29 = 0, d_reserved30 = 0, d_reserved31 = 0\<rparr>"

definition clamp_raw :: bytes where
  "clamp_raw = concat (map (le_bytes 4) (desc_words clamp_record))"

lemma clamp_raw_decodes: "from_bytes clamp_raw = Inr clamp_record"
  by code_simp

lemma clamp_record_valid: "validate_descriptor clamp_record (Some (0, 128)) = Inr ()"
  by code_simp

theorem validated_descriptor_memory_safe_witness:
  "written_bytes clamp_record \<inter> (read_bytes clamp_record \<union> region_bytes (Some (0, 128))) = {} \<and>
   8211 \<in> written_bytes clamp_record"
proof -
  have "(1, 1, 1) \<in> box (d_oh clamp_record) (d_ow clamp_record) (d_cout clamp_record) \<and>
    element_address (d_output_base clamp_record) (d_output_row_bytes clamp_record) (d_cout clamp_record) (1, 1, 1) = 8211"
    by (simp add: clamp_record_def box_def element_address_def d_oh_def d_ow_def d_cout_def lane_def bit_arith)
  then show ?thesis
    using validated_descriptor_memory_safe [OF clamp_raw_decodes clamp_record_valid]
    by (metis written_bytes_def imageI)
qed

end
