(* ===== verification/Npu_Exec.thy ===== *)
theory Npu_Exec
  imports Npu_Ops Npu_Desc
begin

text \<open>
  The job executor of \<open>src/scripts/npu_executor.py\<close>: byte regions behind an address decoder, relocation of the
  descriptor templates, the tiled, lane-packed and K-sliced operators, and the driver that runs the
  steps of a job. \<open>ExecutorFault\<close> carries its fault code; \<open>ExecPy\<close> is an exception of the numerical
  reference that the executor does not catch. Memory is mutated only by the last statement of an
  operator, so an operator answers an error or the new memory with the block it wrote. Sizes and
  loop steps are spans and lanes of decoded records and never negative.
\<close>

unbundle bit_operations_syntax

datatype exec_error = ExecutorFault int | ExecPy npu_error | ExecStructError | ExecTypeError

abbreviation (input) "FAULT_ARITHMETIC \<equiv> (7 :: int)"

section \<open>Memory\<close>

type_synonym npu_memory = "(int \<times> bytes) list"

definition signed_bytes :: "bytes \<Rightarrow> int list" where
  "signed_bytes block = map (\<lambda>b. let v = uint b in if v \<ge> 128 then v - 256 else v) block"

text \<open>The first region that holds the whole access, by position, and the offset in it.\<close>

fun locate :: "npu_memory \<Rightarrow> int \<Rightarrow> int \<Rightarrow> exec_error + (nat \<times> int)" where
  "locate [] address sz = Inl (ExecutorFault FAULT_RANGE)"
| "locate ((base, buffer) # regions) address sz =
     (if base \<le> address \<and> address + sz \<le> base + int (length buffer) then Inr (0, address - base)
      else bind_r (locate regions address sz) (\<lambda>(i, offset). Inr (Suc i, offset)))"

definition npu_read :: "npu_memory \<Rightarrow> int \<Rightarrow> int \<Rightarrow> exec_error + bytes" where
  "npu_read mem address sz =
     (if sz = 0 then Inr []
      else bind_r (locate mem address sz) (\<lambda>(i, offset).
        Inr (take (nat sz) (drop (nat offset) (snd (mem ! i))))))"

definition npu_write :: "npu_memory \<Rightarrow> int \<Rightarrow> bytes \<Rightarrow> exec_error + npu_memory" where
  "npu_write mem address payload =
     (if payload = [] then Inr mem
      else bind_r (locate mem address (int (length payload))) (\<lambda>(i, offset).
        let (base, buffer) = mem ! i in
        Inr (mem[i := (base, take (nat offset) buffer @ payload @ drop (nat offset + length payload) buffer)])))"

section \<open>Python lists and ranges\<close>

definition range_step :: "int \<Rightarrow> int \<Rightarrow> int \<Rightarrow> npu_error + int list" where
  "range_step lo hi step =
     (if step \<le> 0 then Inl (NpuValueError ''range() arg 3 must not be zero'')
      else Inr (map (\<lambda>i. lo + i * step) (py_range 0 ((hi - lo + step - 1) div step))))"

definition npu_store :: "'a list \<Rightarrow> int \<Rightarrow> 'a \<Rightarrow> npu_error + 'a list" where
  "npu_store xs i v =
     (if 0 \<le> i \<and> i < int (length xs) then Inr (xs[nat i := v])
      else if i < 0 \<and> - i \<le> int (length xs) then Inr (xs[nat (int (length xs) + i) := v])
      else Inl NpuIndexError)"

definition max_abs :: "int list \<Rightarrow> npu_error + int" where
  "max_abs xs = (if xs = [] then Inl (NpuValueError ''max() arg is an empty sequence'') else Inr (Max (abs ` set xs)))"

section \<open>Relocation\<close>

record relocation =
  rl_descriptor_index :: int
  rl_word_index :: int
  rl_region :: string
  rl_offset :: int

definition relocation_field :: "int \<Rightarrow> ((descriptor \<Rightarrow> int) \<times> ((int \<Rightarrow> int) \<Rightarrow> descriptor \<Rightarrow> descriptor)) option" where
  "relocation_field word =
     (if word = 2 then Some (d_input0_base, d_input0_base_update)
      else if word = 3 then Some (d_input1_base, d_input1_base_update)
      else if word = 4 then Some (d_output_base, d_output_base_update)
      else if word = 5 then Some (d_param_base, d_param_base_update)
      else if word = 24 then Some (d_weight_base, d_weight_base_update)
      else None)"

definition relocate_one :: "(string \<Rightarrow> int option) \<Rightarrow> descriptor list \<Rightarrow> relocation \<Rightarrow> exec_error + descriptor list" where
  "relocate_one bases ds r =
     (case relocation_field (rl_word_index r) of
        None \<Rightarrow> Inl (ExecutorFault FAULT_DESCRIPTOR)
      | Some (getter, setter) \<Rightarrow>
          if \<not> (0 \<le> rl_descriptor_index r \<and> rl_descriptor_index r < int (length ds)) then Inl (ExecutorFault FAULT_DESCRIPTOR)
          else
            (case bases (rl_region r) of
               None \<Rightarrow> Inl (ExecutorFault FAULT_RANGE)
             | Some base \<Rightarrow>
                 let i = nat (rl_descriptor_index r) in
                 if getter (ds ! i) \<noteq> rl_offset r then Inl (ExecutorFault FAULT_DESCRIPTOR)
                 else if base + rl_offset r \<ge> UINT32_MODULUS then Inl (ExecutorFault FAULT_RANGE)
                 else Inr (ds[i := setter (\<lambda>_. base + rl_offset r) (ds ! i)])))"

definition relocate_descriptors ::
  "descriptor list \<Rightarrow> relocation list \<Rightarrow> (string \<Rightarrow> int option) \<Rightarrow> exec_error + descriptor list" where
  "relocate_descriptors descriptors relocations bases = foldl_r (relocate_one bases) descriptors relocations"

section \<open>Parameters and accumulation\<close>

definition int32_at :: "bytes \<Rightarrow> nat \<Rightarrow> int" where
  "int32_at raw offset =
     (let v = le_int (take 4 (drop offset raw)) in if v \<ge> 2147483648 then v - 4294967296 else v)"

definition channel_params :: "bytes \<Rightarrow> int \<Rightarrow> exec_error + (int \<times> int \<times> int)" where
  "channel_params raw channel =
     (let at = nat (channel * 16) in
      if int (length raw) < channel * 16 + 16 then Inl ExecStructError
      else if le_int (take 4 (drop (at + 12) raw)) \<noteq> 0 then Inl (ExecutorFault FAULT_DESCRIPTOR)
      else if int32_at raw (at + 4) < 0 then Inl (ExecutorFault FAULT_DESCRIPTOR)
      else if \<not> (- 31 \<le> int32_at raw (at + 8) \<and> int32_at raw (at + 8) \<le> 30) then Inl (ExecutorFault FAULT_DESCRIPTOR)
      else Inr (int32_at raw at, int32_at raw (at + 4), int32_at raw (at + 8)))"

definition read_channel_params :: "npu_memory \<Rightarrow> descriptor \<Rightarrow> exec_error + (int list \<times> int list \<times> int list)" where
  "read_channel_params mem d =
     bind_r (npu_read mem (d_param_base d) (d_param_bytes d)) (\<lambda>raw.
     bind_r (map_r (channel_params raw) (py_range 0 (d_cout d))) (\<lambda>ps.
       Inr (map fst ps, map (fst \<circ> snd) ps, map (snd \<circ> snd) ps)))"

definition accumulate :: "int \<Rightarrow> int \<Rightarrow> bool \<Rightarrow> string \<Rightarrow> npu_error + int" where
  "accumulate accumulator summand checked context =
     (let summed = accumulator + summand in
      if checked \<and> (summed > INT32_MAX \<or> summed < INT32_MIN) then Inl (ArithmeticFault context) else Inr summed)"

definition requantize_out :: "int \<Rightarrow> descriptor \<Rightarrow> 8 word" where
  "requantize_out v d = word_of_int (max (d_act_min d) (min (d_act_max d) v) AND 255)"

section \<open>Tiles, lanes and slices\<close>

text \<open>The output positions tile by tile, row-major inside a tile that is shortened at the edges.\<close>

definition tile_positions :: "int \<Rightarrow> int \<Rightarrow> int \<Rightarrow> int \<Rightarrow> npu_error + (int \<times> int) list" where
  "tile_positions oh ow tile_h tile_w =
     bind_r (range_step 0 oh tile_h) (\<lambda>ys.
     bind_r (map_r (\<lambda>tile_y.
       bind_r (range_step 0 ow tile_w) (\<lambda>xs.
         Inr (concat (map (\<lambda>tile_x.
           let rows = min tile_h (oh - tile_y); cols = min tile_w (ow - tile_x) in
           map (\<lambda>position. (tile_y + position div cols, tile_x + position mod cols)) (py_range 0 (rows * cols))) xs)))) ys)
       (\<lambda>parts. Inr (concat parts)))"

text \<open>The channels in groups of eight, as (group, lane).\<close>

definition lane_channels :: "int \<Rightarrow> (int \<times> int) list" where
  "lane_channels cout =
     concat (map (\<lambda>g. map (\<lambda>l. (g * 8, l)) (py_range 0 (min 8 (cout - g * 8)))) (py_range 0 ((cout + 7) div 8)))"

text \<open>The reduction cut into slices, the accumulator carried across them.\<close>

definition k_fold :: "int \<Rightarrow> int \<Rightarrow> (int \<Rightarrow> int \<Rightarrow> npu_error + int) \<Rightarrow> int \<Rightarrow> npu_error + int" where
  "k_fold full_k k_slice body start =
     bind_r (range_step 0 full_k k_slice) (\<lambda>starts.
       foldl_r (\<lambda>acc s0. foldl_r body acc (py_range s0 (min (s0 + k_slice) full_k))) start starts)"

section \<open>Dense operators\<close>

definition dense_gather :: "descriptor \<Rightarrow> int list \<Rightarrow> int \<Rightarrow> int \<Rightarrow> int \<Rightarrow> npu_error + int list" where
  "dense_gather d source full_k oy ox =
     (let iy0 = oy * d_sh d - d_pad_top d; ix0 = ox * d_sw d - d_pad_left d; kwcin = d_kw d * d_cin d in
      map_r (\<lambda>k.
        let iy = iy0 + k div kwcin; ix = ix0 + (k mod kwcin) div d_cin d; ci = k mod d_cin d in
        if 0 \<le> iy \<and> iy < d_h d \<and> 0 \<le> ix \<and> ix < d_w d
        then bind_r (npu_index source (iy * d_input0_row_bytes d + ix * d_cin d + ci)) (\<lambda>v. Inr (v - d_input0_zero d))
        else Inr 0) (py_range 0 full_k))"

definition dense_cell ::
  "descriptor \<Rightarrow> int list \<Rightarrow> int list \<Rightarrow> int list \<Rightarrow> int list \<Rightarrow> bool \<Rightarrow> int \<Rightarrow> int list \<Rightarrow> int \<times> int \<Rightarrow> npu_error + 8 word" where
  "dense_cell d weights bias multipliers shifts checked full_k avec = (\<lambda>(group, lane).
     let channel = group + lane; woffset = (group div 8) * full_k * 8 + lane in
     bind_r (npu_index bias channel) (\<lambda>start.
     bind_r (k_fold full_k (d_k_slice d) (\<lambda>acc k.
       bind_r (npu_index avec k) (\<lambda>a.
       bind_r (npu_index weights (woffset + k * 8)) (\<lambda>w.
         accumulate acc (a * w) checked ''conv2d accumulation''))) start) (\<lambda>accumulator.
     bind_r (npu_index multipliers channel) (\<lambda>m.
     bind_r (npu_index shifts channel) (\<lambda>s.
     bind_r (multiply_by_quantized_multiplier accumulator m s) (\<lambda>v.
       Inr (requantize_out (v + d_output_zero d) d)))))))"

definition dense_output ::
  "descriptor \<Rightarrow> int list \<Rightarrow> int list \<Rightarrow> int list \<Rightarrow> int list \<Rightarrow> int list \<Rightarrow> npu_error + bytes" where
  "dense_output d source weights bias multipliers shifts =
     (let full_k = (if d_opcode d = OP_CONV2D then d_kh d * d_kw d * d_cin d else d_cin d) in
      bind_r (max_abs bias) (\<lambda>bound.
      let checked = bound + 255 * 127 * full_k > INT32_MAX in
      bind_r (tile_positions (d_oh d) (d_ow d) (d_tile_h d) (d_tile_w d)) (\<lambda>positions.
        foldl_r (\<lambda>out (oy, ox).
          bind_r (dense_gather d source full_k oy ox) (\<lambda>avec.
            foldl_r (\<lambda>out (group, lane).
              bind_r (dense_cell d weights bias multipliers shifts checked full_k avec (group, lane)) (\<lambda>v.
                npu_store out (oy * d_output_row_bytes d + ox * d_cout d + (group + lane)) v))
              out (lane_channels (d_cout d))))
          (replicate (nat (used_span (d_oh d) (d_ow d) (d_cout d) (d_output_row_bytes d))) 0) positions)))"

text \<open>The common frame of an operator: write the block it computed and answer it.\<close>

definition write_block :: "npu_memory \<Rightarrow> descriptor \<Rightarrow> bytes \<Rightarrow> exec_error + (npu_memory \<times> bytes)" where
  "write_block mem d block = bind_r (npu_write mem (d_output_base d) block) (\<lambda>mem'. Inr (mem', block))"

definition execute_dense :: "npu_memory \<Rightarrow> descriptor \<Rightarrow> exec_error + (npu_memory \<times> bytes)" where
  "execute_dense mem d =
     bind_r (npu_read mem (d_input0_base d) (used_span (d_h d) (d_w d) (d_cin d) (d_input0_row_bytes d))) (\<lambda>source.
     bind_r (npu_read mem (d_weight_base d) (d_weight_bytes d)) (\<lambda>weights.
     bind_r (read_channel_params mem d) (\<lambda>(bias, multipliers, shifts).
     bind_r (map_error ExecPy (dense_output d (signed_bytes source) (signed_bytes weights) bias multipliers shifts)) (\<lambda>out.
       write_block mem d out))))"

section \<open>Depthwise convolution\<close>

definition depthwise_lane ::
  "descriptor \<Rightarrow> int list \<Rightarrow> int list \<Rightarrow> int list \<Rightarrow> int list \<Rightarrow> int list \<Rightarrow> bool \<Rightarrow> int \<Rightarrow> int \<Rightarrow> int \<times> int \<Rightarrow> npu_error + 8 word" where
  "depthwise_lane d source weights bias multipliers shifts checked oy ox = (\<lambda>(group, lane).
     let channel = group + lane; wgroup = (group div 8) * 72;
         iy0 = oy * d_sh d - d_pad_top d; ix0 = ox * d_sw d - d_pad_left d in
     bind_r (npu_index bias channel) (\<lambda>start.
     bind_r (k_fold 9 (d_k_slice d) (\<lambda>acc kk.
       let iy = iy0 + kk div 3; ix = ix0 + kk mod 3 in
       if 0 \<le> iy \<and> iy < d_h d \<and> 0 \<le> ix \<and> ix < d_w d then
         bind_r (npu_index source (iy * d_input0_row_bytes d + ix * d_cin d + channel)) (\<lambda>v.
         bind_r (npu_index weights (wgroup + kk * 8 + lane)) (\<lambda>w.
           accumulate acc ((v - d_input0_zero d) * w) checked ''depthwise accumulation''))
       else Inr acc) start) (\<lambda>accumulator.
     bind_r (npu_index multipliers channel) (\<lambda>m.
     bind_r (npu_index shifts channel) (\<lambda>s.
     bind_r (multiply_by_quantized_multiplier accumulator m s) (\<lambda>v.
       Inr (requantize_out (v + d_output_zero d) d)))))))"

definition depthwise_output ::
  "descriptor \<Rightarrow> int list \<Rightarrow> int list \<Rightarrow> int list \<Rightarrow> int list \<Rightarrow> int list \<Rightarrow> npu_error + bytes" where
  "depthwise_output d source weights bias multipliers shifts =
     bind_r (max_abs bias) (\<lambda>bound.
     let checked = bound + 255 * 127 * 9 > INT32_MAX in
     bind_r (tile_positions (d_oh d) (d_ow d) (d_tile_h d) (d_tile_w d)) (\<lambda>positions.
       foldl_r (\<lambda>out (oy, ox).
         foldl_r (\<lambda>out (group, lane).
           bind_r (depthwise_lane d source weights bias multipliers shifts checked oy ox (group, lane)) (\<lambda>v.
             npu_store out (oy * d_output_row_bytes d + ox * d_cin d + (group + lane)) v))
           out (lane_channels (d_cin d)))
         (replicate (nat (used_span (d_oh d) (d_ow d) (d_cin d) (d_output_row_bytes d))) 0) positions))"

definition execute_depthwise :: "npu_memory \<Rightarrow> descriptor \<Rightarrow> exec_error + (npu_memory \<times> bytes)" where
  "execute_depthwise mem d =
     bind_r (npu_read mem (d_input0_base d) (used_span (d_h d) (d_w d) (d_cin d) (d_input0_row_bytes d))) (\<lambda>source.
     bind_r (npu_read mem (d_weight_base d) (d_weight_bytes d)) (\<lambda>weights.
     bind_r (read_channel_params mem d) (\<lambda>(bias, multipliers, shifts).
     bind_r (map_error ExecPy (depthwise_output d (signed_bytes source) (signed_bytes weights) bias multipliers shifts)) (\<lambda>out.
       write_block mem d out))))"

section \<open>Pooling, addition and clamping\<close>

definition gap_output :: "descriptor \<Rightarrow> int list \<Rightarrow> npu_error + bytes" where
  "gap_output d source =
     (let count = d_h d * d_w d in
      foldl_r (\<lambda>out channel.
        bind_r (k_fold count (d_k_slice d) (\<lambda>acc position.
          bind_r (npu_index source ((position div d_w d) * d_input0_row_bytes d + (position mod d_w d) * d_cin d + channel))
            (\<lambda>v. accumulate acc v True ''global average sum'')) 0) (\<lambda>summed.
        let averaged = (\<bar>summed\<bar> + count div 2) div count in
        npu_store out channel
          (word_of_int (max (d_act_min d) (min (d_act_max d) (if summed < 0 then - averaged else averaged)) AND 255))))
        (replicate (nat (d_cin d)) 0) (py_range 0 (d_cin d)))"

definition execute_global_average_pool :: "npu_memory \<Rightarrow> descriptor \<Rightarrow> exec_error + (npu_memory \<times> bytes)" where
  "execute_global_average_pool mem d =
     bind_r (npu_read mem (d_input0_base d) (used_span (d_h d) (d_w d) (d_cin d) (d_input0_row_bytes d))) (\<lambda>source.
     bind_r (map_error ExecPy (gap_output d (signed_bytes source))) (\<lambda>out. write_block mem d out))"

definition add_params :: "bytes \<Rightarrow> exec_error + add_args" where
  "add_params raw =
     (if length raw \<noteq> 32 then Inl ExecStructError
      else if le_int (drop 28 raw) \<noteq> 0 \<or> le_int (take 4 raw) \<noteq> 20 then Inl (ExecutorFault FAULT_DESCRIPTOR)
      else bind_r (first_error (concat (map (\<lambda>(multiplier, shift).
          [raise_if (multiplier < 0) (ExecutorFault FAULT_DESCRIPTOR),
           raise_if (\<not> (- 31 \<le> shift \<and> shift \<le> 30)) (ExecutorFault FAULT_DESCRIPTOR)])
          [(int32_at raw 4, int32_at raw 8), (int32_at raw 12, int32_at raw 16), (int32_at raw 20, int32_at raw 24)])))
        (\<lambda>_. Inr \<lparr>input0_multiplier = int32_at raw 4, input0_shift = int32_at raw 8,
           input1_multiplier = int32_at raw 12, input1_shift = int32_at raw 16,
           output_multiplier = int32_at raw 20, output_shift = int32_at raw 24\<rparr>))"

definition add_element :: "descriptor \<Rightarrow> add_args \<Rightarrow> int \<Rightarrow> int \<Rightarrow> npu_error + 8 word" where
  "add_element d a v0 v1 =
     bind_r (multiply_by_quantized_multiplier (shl (v0 - d_input0_zero d) 20) (input0_multiplier a) (input0_shift a)) (\<lambda>term0.
     bind_r (multiply_by_quantized_multiplier (shl (v1 - d_input1_zero d) 20) (input1_multiplier a) (input1_shift a)) (\<lambda>term1.
     bind_r (accumulate term0 term1 True ''ADD sum'') (\<lambda>summed.
     bind_r (multiply_by_quantized_multiplier summed (output_multiplier a) (output_shift a)) (\<lambda>v.
       Inr (requantize_out (v + d_output_zero d) d)))))"

definition add_output :: "descriptor \<Rightarrow> add_args \<Rightarrow> int list \<Rightarrow> int list \<Rightarrow> npu_error + bytes" where
  "add_output d a in0 in1 =
     foldl_r (\<lambda>out (iy, ix, channel).
       bind_r (npu_index in0 (iy * d_input0_row_bytes d + ix * d_cin d + channel)) (\<lambda>v0.
       bind_r (npu_index in1 (iy * d_input1_row_bytes d + ix * d_cin d + channel)) (\<lambda>v1.
       bind_r (add_element d a v0 v1) (\<lambda>v.
         npu_store out (iy * d_output_row_bytes d + ix * d_cout d + channel) v))))
       (replicate (nat (used_span (d_oh d) (d_ow d) (d_cout d) (d_output_row_bytes d))) 0)
       (concat (map (\<lambda>iy. concat (map (\<lambda>ix. map (\<lambda>c. (iy, ix, c)) (py_range 0 (d_cin d))) (py_range 0 (d_w d)))) (py_range 0 (d_h d))))"

definition execute_add :: "npu_memory \<Rightarrow> descriptor \<Rightarrow> exec_error + (npu_memory \<times> bytes)" where
  "execute_add mem d =
     bind_r (npu_read mem (d_param_base d) (d_param_bytes d)) (\<lambda>raw.
     bind_r (add_params raw) (\<lambda>a.
     bind_r (npu_read mem (d_input0_base d) (used_span (d_h d) (d_w d) (d_cin d) (d_input0_row_bytes d))) (\<lambda>in0.
     bind_r (npu_read mem (d_input1_base d) (used_span (d_h d) (d_w d) (d_cin d) (d_input1_row_bytes d))) (\<lambda>in1.
     bind_r (map_error ExecPy (add_output d a (signed_bytes in0) (signed_bytes in1))) (\<lambda>out. write_block mem d out)))))"

text \<open>The input tensor of an operator; no caller sets the flag that would select the second input.\<close>

definition activation_tensor :: "npu_memory \<Rightarrow> descriptor \<Rightarrow> exec_error + tensor" where
  "activation_tensor mem d =
     bind_r (npu_read mem (d_input0_base d) (used_span (d_h d) (d_w d) (d_cin d) (d_input0_row_bytes d))) (\<lambda>raw.
     map_error ExecPy
       (bind_r (grid_r (d_h d) (d_w d) (d_cin d) (\<lambda>y x c.
          npu_index (signed_bytes raw) (y * d_input0_row_bytes d + x * d_cin d + c))) (\<lambda>packed.
        tensor_new (d_h d, d_w d, d_cin d) packed (Finite 1 0) (d_input0_zero d))))"

definition pool_args :: "descriptor \<Rightarrow> window_args" where
  "pool_args d = \<lparr>stride_h = d_sh d, stride_w = d_sw d, pad_top = d_pad_top d, pad_bottom = d_pad_bottom d,
     pad_left = d_pad_left d, pad_right = d_pad_right d\<rparr>"

definition tensor_block :: "tensor \<Rightarrow> bytes" where
  "tensor_block t = map (\<lambda>v. word_of_int (v AND 255)) (t_data t)"

definition execute_pool :: "npu_memory \<Rightarrow> descriptor \<Rightarrow> exec_error + (npu_memory \<times> bytes)" where
  "execute_pool mem d =
     bind_r (activation_tensor mem d) (\<lambda>t.
     bind_r (map_error ExecPy
       (if d_opcode d = OP_MAX_POOL then max_pool t (d_kh d) (d_kw d) (pool_args d) (d_act_min d) (d_act_max d)
        else average_pool t (d_kh d) (d_kw d) (pool_args d) (d_act_min d) (d_act_max d))) (\<lambda>result.
       write_block mem d (tensor_block result)))"

definition execute_clamp :: "npu_memory \<Rightarrow> descriptor \<Rightarrow> exec_error + (npu_memory \<times> bytes)" where
  "execute_clamp mem d =
     bind_r (activation_tensor mem d) (\<lambda>t.
     bind_r (map_error ExecPy (npu_clamp t (d_act_min d) (d_act_max d))) (\<lambda>result.
       write_block mem d (tensor_block result)))"

fun arithmetic_fault :: "exec_error \<Rightarrow> exec_error" where
  "arithmetic_fault (ExecPy (ArithmeticFault context)) = ExecutorFault FAULT_ARITHMETIC"
| "arithmetic_fault e = e"

definition execute_validated :: "npu_memory \<Rightarrow> descriptor \<Rightarrow> exec_error + (npu_memory \<times> bytes)" where
  "execute_validated mem d =
     map_error arithmetic_fault
       (let opc = d_opcode d in
        if opc \<in> {OP_CONV2D, OP_FULLY_CONNECTED} then execute_dense mem d
        else if opc = OP_DEPTHWISE3X3 then execute_depthwise mem d
        else if opc = OP_GLOBAL_AVERAGE_POOL then execute_global_average_pool mem d
        else if opc = OP_ADD then execute_add mem d
        else if opc \<in> {OP_MAX_POOL, OP_AVERAGE_POOL} then execute_pool mem d
        else if opc = OP_CLAMP then execute_clamp mem d
        else Inl (ExecutorFault FAULT_UNSUPPORTED))"

end
