(* ===== verification/Npu_Loops.thy ===== *)
theory Npu_Loops
  imports Npu_Ops_Props Npu_Desc_Props Npu_Exec
begin

text \<open>
  The loop shapes of the executor: ranges cut into slices and tiles, channels grouped in lanes, loops that
  fill a block by stores, and checked sums, with or without their checks.
\<close>

unbundle bit_operations_syntax

section \<open>Ranges, slices, tiles and lanes\<close>

lemma py_range_shift: "py_range (a + c) (b + c) = map (\<lambda>i. i + c) (py_range a b)"
  by (simp add: py_range_def)

lemma py_range_append: "a \<le> b \<Longrightarrow> b \<le> c \<Longrightarrow> py_range a c = py_range a b @ py_range b c"
proof -
  assume ab: "a \<le> b" and bc: "b \<le> c"
  have "nat (c - a) = nat (b - a) + nat (c - b)" using ab bc by simp
  then have "[0..<nat (c - a)] = [0..<nat (b - a)] @ map (\<lambda>i. i + nat (b - a)) [0..<nat (c - b)]"
    by (simp add: upt_add_eq_append [of 0] map_add_upt add.commute)
  then show ?thesis using ab by (simp add: py_range_def add.commute)
qed

text \<open>A range cut into blocks of \<open>n\<close>, and a range enumerated by quotient and remainder.\<close>

lemma py_range_blocks:
  assumes "0 < n" "0 \<le> m"
  shows "concat (map (\<lambda>i. py_range (i * n) (min (i * n + n) m)) (py_range 0 ((m + n - 1) div n))) = py_range 0 m"
proof -
  have "concat (map (\<lambda>i. py_range (i * n) (min (i * n + n) m)) (py_range 0 j)) = py_range 0 (min (j * n) m)"
    if "0 \<le> j" for j
    using that
  proof (induction j rule: int_ge_induct)
    case base
    then show ?case by (simp add: py_range_empty)
  next
    case (step j)
    have "py_range 0 (min (j * n) m) @ py_range (j * n) (min (j * n + n) m) = py_range 0 (min ((j + 1) * n) m)"
    proof (cases "j * n \<le> m")
      case True
      then show ?thesis using py_range_append [of 0 "j * n" "min (j * n + n) m"] step(1) assms by (simp add: algebra_simps)
    next
      case False
      then show ?thesis using assms by (simp add: py_range_empty algebra_simps)
    qed
    then show ?case using step by (simp add: py_range_snoc)
  qed
  moreover have "0 \<le> (m + n - 1) div n" using assms by (simp add: pos_imp_zdiv_nonneg_iff)
  moreover have "m \<le> (m + n - 1) div n * n"
  proof -
    have "(m + n - 1) div n * n = m + n - 1 - (m + n - 1) mod n" by (simp add: minus_mod_eq_div_mult)
    moreover have "(m + n - 1) mod n < n" using assms by simp
    ultimately show ?thesis by linarith
  qed
  ultimately show ?thesis by (simp add: min_absorb2)
qed

lemma k_fold_range:
  assumes "0 < k_slice" "0 \<le> full_k"
  shows "k_fold full_k k_slice body start = foldl_r body start (py_range 0 full_k)"
  unfolding py_range_blocks [OF assms, symmetric] foldl_r_concat foldl_r_map
  using assms by (simp add: k_fold_def range_step_def foldl_r_map)

lemma py_range_product:
  assumes "0 \<le> m" "0 \<le> n"
  shows "py_range 0 (m * n) = concat (map (\<lambda>i. map (\<lambda>j. i * n + j) (py_range 0 n)) (py_range 0 m))"
  using assms(1)
proof (induction m rule: int_ge_induct)
  case base
  then show ?case by (simp add: py_range_empty)
next
  case (step m)
  have "py_range 0 ((m + 1) * n) = py_range 0 (m * n) @ map (\<lambda>j. m * n + j) (py_range 0 n)"
    using py_range_append [of 0 "m * n" "(m + 1) * n"] py_range_shift [of 0 "m * n" n] step(1) assms(2)
    by (simp add: algebra_simps)
  then show ?case using step by (simp add: py_range_snoc)
qed

lemma set_tile_axis:
  assumes "0 < n" "0 \<le> y" "y < (m::int)"
  shows "y div n \<in> {0..<(m + n - 1) div n}" "0 \<le> y mod n" "y mod n < min n (m - y div n * n)" "y div n * n + y mod n = y"
proof -
  show e: "y div n * n + y mod n = y" by simp
  have r: "0 \<le> y mod n" "y mod n < n" using assms by simp_all
  then show "0 \<le> y mod n" "y mod n < min n (m - y div n * n)" using assms e by linarith+
  have "y + 1 * n \<le> m + n - 1" using assms by simp
  then have "(y + 1 * n) div n \<le> (m + n - 1) div n" using assms(1) by (intro zdiv_mono1) auto
  then have "y div n + 1 \<le> (m + n - 1) div n" using assms(1) by (subst (asm) div_mult_self1) simp_all
  then show "y div n \<in> {0..<(m + n - 1) div n}" using assms by (simp add: pos_imp_zdiv_nonneg_iff)
qed

lemma div_less_pos: "0 < n \<Longrightarrow> p < r * n \<Longrightarrow> p div n < (r::int)"
proof -
  assume n: "0 < n" and p: "p < r * n"
  have "p div n * n \<le> p" using div_mult_mod_eq [of p n] pos_mod_sign [OF n, of p] by linarith
  then have "p div n * n < r * n" using p by linarith
  then show ?thesis using n by simp
qed

lemma tile_start: "0 < n \<Longrightarrow> i < (m + n - 1) div n \<Longrightarrow> i * n < (m::int)"
proof -
  assume n: "0 < n" and i: "i < (m + n - 1) div n"
  have "(i + 1) * n \<le> (m + n - 1) div n * n" using n i by (intro mult_right_mono) auto
  also have "\<dots> \<le> m + n - 1" using n div_mod_decomp_int [of "m + n - 1" n] pos_mod_sign [of n "m + n - 1"] by linarith
  finally show "i * n < m" by (simp add: algebra_simps)
qed

text \<open>The tiles cover the output plane and the lanes the channels.\<close>

lemma tile_positions_set:
  assumes "0 < th" "0 < tw"
  obtains ps where "tile_positions oh ow th tw = Inr ps" "set ps = {0..<oh} \<times> {0..<ow}"
proof -
  let ?ys = "map (\<lambda>i. i * th) (py_range 0 ((oh + th - 1) div th))" and ?xs = "map (\<lambda>i. i * tw) (py_range 0 ((ow + tw - 1) div tw))"
  let ?block = "\<lambda>ty tx. map (\<lambda>p. (ty + p div min tw (ow - tx), tx + p mod min tw (ow - tx))) (py_range 0 (min th (oh - ty) * min tw (ow - tx)))"
  let ?ps = "concat (map (\<lambda>ty. concat (map (?block ty) ?xs)) ?ys)"
  have e: "tile_positions oh ow th tw = Inr ?ps"
    using assms by (simp add: tile_positions_def range_step_def Let_def map_r_total [where g = "\<lambda>ty. concat (map (?block ty) ?xs)"])
  have "set ?ps = {0..<oh} \<times> {0..<ow}"
  proof (intro equalityI subsetI)
    fix q assume "q \<in> set ?ps"
    then obtain i j p where q: "q = (i * th + p div min tw (ow - j * tw), j * tw + p mod min tw (ow - j * tw))"
      "0 \<le> i" "0 \<le> j" "0 \<le> p" "p < min th (oh - i * th) * min tw (ow - j * tw)" "i < (oh + th - 1) div th" "j < (ow + tw - 1) div tw"
      by auto
    define rows cols where rc: "rows = min th (oh - i * th)" "cols = min tw (ow - j * tw)"
    have "0 < cols" using tile_start [OF assms(2) q(7)] assms(2) by (simp add: rc)
    then have "p div cols < rows"
      using q(5) div_less_pos [of cols p rows] by (simp add: rc)
    with \<open>0 < cols\<close> have "0 \<le> p div cols" "p div cols < rows" "0 \<le> p mod cols" "p mod cols < cols"
      using q(4,5) by (simp_all add: rc [symmetric] pos_imp_zdiv_nonneg_iff)
    moreover have "0 \<le> i * th" "0 \<le> j * tw" using q(2,3) assms by simp_all
    ultimately show "q \<in> {0..<oh} \<times> {0..<ow}" using q(1) by (simp add: rc)
  next
    fix q assume "q \<in> {0..<oh} \<times> {0..<ow}"
    then obtain y x where q: "q = (y, x)" "0 \<le> y" "y < oh" "0 \<le> x" "x < ow" by auto
    define ty tx where t: "ty = y div th * th" "tx = x div tw * tw"
    define rows cols where rc: "rows = min th (oh - ty)" "cols = min tw (ow - tx)"
    note iy = set_tile_axis [OF assms(1) q(2,3)] and ix = set_tile_axis [OF assms(2) q(4,5)]
    define p where "p = y mod th * cols + x mod tw"
    have r: "0 \<le> x mod tw" "x mod tw < cols" "0 \<le> y mod th" "y mod th < rows" using iy ix by (simp_all add: rc t)
    have p: "p div cols = y mod th" "p mod cols = x mod tw" using r by (simp_all add: p_def)
    have "(y, x) = (ty + p div cols, tx + p mod cols)" unfolding p t using iy(4) ix(4) by simp
    moreover have "p \<in> set (py_range 0 (rows * cols))" using row_offset [OF r(3,4,1,2)] by (simp add: p_def)
    ultimately have "(y, x) \<in> set (?block ty tx)" unfolding rc by force
    moreover have "ty \<in> set ?ys" "tx \<in> set ?xs" using iy(1) ix(1) by (auto simp: t)
    ultimately show "q \<in> set ?ps" unfolding q(1) by auto
  qed
  with e show thesis by (rule that)
qed

lemma set_lane_channels: "set (lane_channels cout) = {(c div 8 * 8, c mod 8) | c. 0 \<le> c \<and> c < cout}"
proof (intro equalityI subsetI)
  fix q assume "q \<in> set (lane_channels cout)"
  then obtain g l where q: "q = (g * 8, l)" "0 \<le> g" "0 \<le> l" "l < 8" "l < cout - g * 8" by (auto simp: lane_channels_def)
  then show "q \<in> {(c div 8 * 8, c mod 8) | c. 0 \<le> c \<and> c < cout}"
    by (intro CollectI exI [of _ "g * 8 + l"]) (auto simp: div_add1_eq)
next
  fix q assume "q \<in> {(c div 8 * 8, c mod 8) | c. 0 \<le> c \<and> c < cout}"
  then obtain c where c: "q = (c div 8 * 8, c mod 8)" "0 \<le> c" "c < cout" by auto
  from set_tile_axis [of 8 c cout] c show "q \<in> set (lane_channels cout)"
    by (auto simp: lane_channels_def intro!: bexI [of _ "c div 8"])
qed

section \<open>Loops that fill a block\<close>

text \<open>A loop of stores at addresses inside the block. When every cell returns, each address holds the value
  of the cells that store there; when some cell fails, the loop fails as one of them does.\<close>

lemma npu_store_ok: "0 \<le> i \<Longrightarrow> i < int (length xs) \<Longrightarrow> npu_store xs i v = Inr (xs[nat i := v])"
  by (simp add: npu_store_def)

lemma store_fold_total:
  assumes "\<And>k. k \<in> set ks \<Longrightarrow> cell k = Inr (f k) \<and> 0 \<le> addr k \<and> addr k < int (length out)"
  shows "foldl_r (\<lambda>out k. bind_r (cell k) (npu_store out (addr k))) out ks = Inr (foldl (\<lambda>out k. out[nat (addr k) := f k]) out ks)"
  using assms by (induction ks arbitrary: out) (auto simp: npu_store_ok)

lemma length_foldl_update [simp]: "length (foldl (\<lambda>out k. out[a k := f k]) out ks) = length out"
  by (induction ks arbitrary: out) auto

lemma foldl_update_nth:
  assumes "k \<in> set ks" "a k < length out" "\<forall>l \<in> set ks. a l = a k \<longrightarrow> f l = f k"
  shows "foldl (\<lambda>out k. out[a k := f k]) out ks ! a k = f k"
  using assms(1,3)
proof (induction ks rule: rev_induct)
  case (snoc l ks)
  show ?case
  proof (cases "a l = a k")
    case True
    moreover have "l \<in> set (ks @ [l])" by simp
    ultimately have "f l = f k" using snoc.prems(2) by blast
    then show ?thesis using assms(2) True by simp
  next
    case False
    then have "k \<in> set ks" using snoc.prems(1) by auto
    moreover have "\<forall>l \<in> set ks. a l = a k \<longrightarrow> f l = f k" using snoc.prems(2) by (metis UnCI set_append)
    ultimately have "foldl (\<lambda>out k. out[a k := f k]) out ks ! a k = f k" by (rule snoc.IH)
    then show ?thesis using False by simp
  qed
qed simp

lemma store_fold_fails:
  assumes "k \<in> set ks" "cell k = Inl e"
    and "\<And>l. l \<in> set ks \<Longrightarrow> 0 \<le> addr l \<and> addr l < int (length out)" "\<And>l e. l \<in> set ks \<Longrightarrow> cell l = Inl e \<Longrightarrow> P e"
  shows "\<exists>e. foldl_r (\<lambda>out k. bind_r (cell k) (npu_store out (addr k))) out ks = Inl e \<and> P e"
  using assms
proof (induction ks arbitrary: out)
  case (Cons l ks)
  show ?case
  proof (cases "cell l")
    case (Inl e')
    with Cons.prems(4) show ?thesis by auto
  next
    case (Inr v)
    with Cons.prems(1,2) have "k \<in> set ks" by auto
    from Cons.IH [OF this Cons.prems(2), of "out[nat (addr l) := v]"] Cons.prems(3,4) Inr show ?thesis
      by (auto simp: npu_store_ok)
  qed
qed simp

section \<open>Checked sums\<close>

definition checked_sum :: "string \<Rightarrow> int \<Rightarrow> int list \<Rightarrow> npu_error + int" where
  "checked_sum msg start xs = foldl_r (\<lambda>acc x. checked_accumulate acc x msg) start xs"

lemma checked_sum_simps [simp]:
  "checked_sum msg s [] = Inr s"
  "checked_sum msg s (x # xs) = bind_r (checked_accumulate s x msg) (\<lambda>t. checked_sum msg t xs)"
  "checked_sum msg s (xs @ ys) = bind_r (checked_sum msg s xs) (\<lambda>t. checked_sum msg t ys)"
  by (simp_all add: checked_sum_def foldl_r_append)

lemma checked_sum_int32: "checked_sum msg s xs = Inr t \<Longrightarrow> int32 s \<Longrightarrow> int32 t"
  by (induction xs arbitrary: s) (auto simp: bind_r_Inr checked_accumulate_Inr)

lemma checked_sum_Inl: "checked_sum msg s xs = Inl e \<Longrightarrow> e = ArithmeticFault msg"
  by (induction xs arbitrary: s) (auto simp: bind_r_Inl checked_accumulate_def Let_def split: if_splits)

lemma checked_sum_zeros: "int32 s \<Longrightarrow> \<forall>x \<in> set xs. x = 0 \<Longrightarrow> checked_sum msg s xs = Inr s"
  by (induction xs) (auto simp: checked_accumulate_def)

text \<open>Padding contributes zeros, which never change the outcome.\<close>

lemma checked_sum_padding:
  assumes "\<And>x. x \<in> set xs \<Longrightarrow> \<not> P x \<Longrightarrow> \<forall>v \<in> set (g x). v = 0" "int32 s"
  shows "checked_sum msg s (concat (map g xs)) = checked_sum msg s (concat (map g (filter P xs)))"
  using assms
proof (induction xs arbitrary: s)
  case (Cons x xs)
  have step: "bind_r (checked_sum msg s (g x)) (\<lambda>t. checked_sum msg t (concat (map g xs))) =
      bind_r (checked_sum msg s (g x)) (\<lambda>t. checked_sum msg t (concat (map g (filter P xs))))"
  proof (cases "checked_sum msg s (g x)")
    case (Inr t)
    then have "int32 t" using checked_sum_int32 Cons.prems(2) by blast
    then have "checked_sum msg t (concat (map g xs)) = checked_sum msg t (concat (map g (filter P xs)))"
      by (intro Cons.IH Cons.prems(1)) auto
    with Inr show ?thesis by simp
  qed simp
  show ?case
  proof (cases "P x")
    case False
    then have "checked_sum msg s (g x) = Inr s" using Cons.prems by (intro checked_sum_zeros) auto
    with step False show ?thesis by simp
  qed (use step in simp)
qed simp

lemma checked_sum_fits:
  assumes "\<bar>s\<bar> + (\<Sum>x\<leftarrow>xs. \<bar>x\<bar>) \<le> INT32_MAX"
  shows "checked_sum msg s xs = Inr (s + sum_list xs)"
  using checked_fold_total [of xs "\<lambda>acc x. checked_accumulate acc x msg" "\<lambda>x. x" msg s] assms by (simp add: checked_sum_def)

lemma unchecked_sum: "foldl_r (\<lambda>acc x. accumulate acc x False msg) s xs = Inr (s + sum_list xs)"
  by (induction xs arbitrary: s) (auto simp: accumulate_def)

lemma accumulate_checked: "accumulate acc x True msg = checked_accumulate acc x msg"
  by (auto simp: accumulate_def checked_accumulate_def Let_def)

text \<open>Leaving the checks out is sound whenever the magnitudes fit.\<close>

lemma accumulate_sum:
  assumes "\<not> checked \<Longrightarrow> \<bar>s\<bar> + (\<Sum>x\<leftarrow>xs. \<bar>x\<bar>) \<le> INT32_MAX"
  shows "foldl_r (\<lambda>acc x. accumulate acc x checked msg) s xs = checked_sum msg s xs"
proof (cases checked)
  case True
  then show ?thesis by (simp add: checked_sum_def accumulate_checked)
qed (use assms in \<open>simp add: unchecked_sum checked_sum_fits\<close>)

section \<open>Requantization fails only by its checked shift\<close>

lemma requantization_total:
  assumes "int32 x" "0 \<le> m" "m \<le> INT32_MAX" "- 31 \<le> s" "s \<le> 30"
  shows "(\<exists>y. multiply_by_quantized_multiplier x m s = Inr y) \<or>
    multiply_by_quantized_multiplier x m s = Inl (ArithmeticFault ''checked left shift overflow in requantization'')"
proof -
  let ?z = "push_bit (nat (max s 0)) x"
  have r: "require_int32 x = Inr x" "require_multiplier m = Inr m" "require_shift s = Inr s"
    using assms by (simp_all add: require_simps)
  show ?thesis
  proof (cases "int32 ?z")
    case True
    have m: "int32 m" using assms by simp
    obtain p where p: "srdhm ?z m = Inr p" using srdhm_eq [OF True m] by blast
    have "int32 p" by (rule srdhm_range [OF True m p])
    then obtain y where "rounding_divide_by_pot p (max (- s) 0) = Inr y"
      by (rule rdbp_facts [of p "max (- s) 0"]) (use assms in auto)
    then show ?thesis using True p r by (auto simp: multiply_by_quantized_multiplier_def Let_def)
  qed (use r in \<open>auto simp: multiply_by_quantized_multiplier_def Let_def\<close>)
qed

end
