(* ===== verification/Npu_Pack.thy ===== *)
theory Npu_Pack
  imports Npu_Exec
begin

text \<open>
  The placement half of \<open>src/scripts/npu_compiler_p0.py\<close>: padding of an axis, packing of weights and parameters
  into the layout the lanes read, tiles and slices, and the arena with its first-fit free list.
  \<open>CompilerError\<close> carries its message. Reading the model graph is not modelled.
\<close>

unbundle bit_operations_syntax

datatype compiler_error = CompilerError string

section \<open>Padding\<close>

definition same_axis :: "int \<Rightarrow> int \<Rightarrow> int \<Rightarrow> int \<Rightarrow> compiler_error + (int \<times> int)" where
  "same_axis extent kernel_size stride out_expected =
     (let out = - ((- extent) div stride) in
      bind_r (raise_if (out \<noteq> out_expected) (CompilerError ''SAME padding output does not match'')) (\<lambda>_.
      let padded = max ((out - 1) * stride + kernel_size - extent) 0 in
      Inr (padded div 2, padded - padded div 2)))"

definition pads :: "string \<Rightarrow> int \<Rightarrow> int \<Rightarrow> int \<Rightarrow> int \<Rightarrow> int \<Rightarrow> int \<Rightarrow> int \<Rightarrow> int \<Rightarrow> compiler_error + (int \<times> int \<times> int \<times> int)" where
  "pads kind sh sw h w kh kw oh ow =
     bind_r
       (if kind = ''VALID'' then Inr (0, 0, 0, 0)
        else if kind = ''SAME'' then
          bind_r (same_axis h kh sh oh) (\<lambda>(p_top, p_bottom).
          bind_r (same_axis w kw sw ow) (\<lambda>(p_left, p_right). Inr (p_top, p_bottom, p_left, p_right)))
        else Inl (CompilerError ''padding mode has no supported NPU-P0 placement''))
       (\<lambda>(p_top, p_bottom, p_left, p_right).
     bind_r (raise_if ((h + p_top + p_bottom - kh) div sh + 1 \<noteq> oh \<or> (w + p_left + p_right - kw) div sw + 1 \<noteq> ow)
       (CompilerError ''output extent does not match computed'')) (\<lambda>_.
     bind_r (raise_if (\<not> (p_top < kh \<and> p_bottom < kh \<and> p_left < kw \<and> p_right < kw))
       (CompilerError ''padding must be strictly less than the kernel dimension'')) (\<lambda>_.
       Inr (p_top, p_bottom, p_left, p_right))))"

section \<open>Packing\<close>

definition pack_dense_weights :: "int list \<Rightarrow> int \<Rightarrow> int \<Rightarrow> compiler_error + bytes" where
  "pack_dense_weights values cout full_k =
     bind_r (raise_if (int (length values) \<noteq> cout * full_k) (CompilerError ''dense weights hold the wrong number of values'')) (\<lambda>_.
       Inr (foldl (\<lambda>packed (channel, k).
          packed[nat ((channel div 8) * full_k * 8 + channel mod 8 + k * 8) :=
            word_of_int (values ! nat (channel * full_k + k) AND 255)])
         (replicate (nat ((cout + 7) div 8 * full_k * 8)) 0)
         (concat (map (\<lambda>channel. map (\<lambda>k. (channel, k)) (py_range 0 full_k)) (py_range 0 cout)))))"

definition pack_depthwise_weights :: "int list \<Rightarrow> int \<Rightarrow> compiler_error + bytes" where
  "pack_depthwise_weights values cin =
     bind_r (raise_if (int (length values) \<noteq> 9 * cin) (CompilerError ''depthwise weights hold the wrong number of values'')) (\<lambda>_.
       Inr (foldl (\<lambda>packed (channel, k).
          packed[nat ((channel div 8) * 72 + channel mod 8 + k * 8) := word_of_int (values ! nat (k * cin + channel) AND 255)])
         (replicate (nat ((cin + 7) div 8 * 72)) 0)
         (concat (map (\<lambda>channel. map (\<lambda>k. (channel, k)) (py_range 0 9)) (py_range 0 cin)))))"

text \<open>One parameter record: three signed words and a zero word, \<open>struct.pack("<iiiI", ...)\<close>.\<close>

definition pack_i32 :: "int \<Rightarrow> exec_error + bytes" where
  "pack_i32 v = (if - 2147483648 \<le> v \<and> v \<le> 2147483647 then Inr (le_bytes 4 v) else Inl ExecStructError)"

definition pack_param :: "int \<times> int \<times> int \<Rightarrow> exec_error + bytes" where
  "pack_param p = (case p of (b, m, s) \<Rightarrow>
     bind_r (pack_i32 b) (\<lambda>bb. bind_r (pack_i32 m) (\<lambda>mb. bind_r (pack_i32 s) (\<lambda>sb.
       Inr (bb @ mb @ sb @ le_bytes 4 0)))))"

definition pack_params :: "int list \<Rightarrow> int list \<Rightarrow> int list \<Rightarrow> exec_error + bytes" where
  "pack_params bias multipliers shifts =
     bind_r (map_r (\<lambda>c.
       bind_r (map_error ExecPy (npu_index bias c)) (\<lambda>b.
       bind_r (map_error ExecPy (npu_index multipliers c)) (\<lambda>m.
       bind_r (map_error ExecPy (npu_index shifts c)) (\<lambda>s. pack_param (b, m, s))))) (py_range 0 (int (length bias))))
       (\<lambda>records. Inr (concat records))"

definition tile :: "int \<Rightarrow> int \<Rightarrow> int \<times> int" where
  "tile oh ow = (min 2 oh, min 4 ow)"

definition k_sizes :: "int \<Rightarrow> int \<Rightarrow> npu_error + int list" where
  "k_sizes full_k k_slice = bind_r (range_step 0 full_k k_slice) (\<lambda>starts. Inr (map (\<lambda>s. min k_slice (full_k - s)) starts))"

section \<open>The arena\<close>

record arena =
  ar_free :: "(int \<times> int) list"
  ar_high :: int
  ar_peak :: int

definition arena_init :: arena where
  "arena_init = \<lparr>ar_free = [], ar_high = 0, ar_peak = 0\<rparr>"

definition aligned :: "int \<Rightarrow> int" where
  "aligned sz = (sz + 64 - 1) AND NOT (64 - 1)"

text \<open>The search of \<open>alloc\<close>: the first block that is large enough is removed or shortened.\<close>

fun carve :: "(int \<times> int) list \<Rightarrow> int \<Rightarrow> (int \<times> (int \<times> int) list) option" where
  "carve [] sz = None"
| "carve ((off, len) # blocks) sz =
     (if len \<ge> sz then Some (off, if len = sz then blocks else (off + sz, len - sz) # blocks)
      else map_option (\<lambda>(o', rest). (o', (off, len) # rest)) (carve blocks sz))"

definition arena_alloc :: "arena \<Rightarrow> int \<Rightarrow> int \<times> arena" where
  "arena_alloc a requested =
     (let sz = aligned requested in
      case carve (ar_free a) sz of
        Some (offset, blocks) \<Rightarrow> (offset, a\<lparr>ar_free := blocks\<rparr>)
      | None \<Rightarrow> (ar_high a, a\<lparr>ar_high := ar_high a + sz, ar_peak := max (ar_peak a) (ar_high a + sz)\<rparr>))"

definition merge_block :: "(int \<times> int) list \<Rightarrow> int \<times> int \<Rightarrow> (int \<times> int) list" where
  "merge_block merged block =
     (if merged \<noteq> [] \<and> fst (last merged) + snd (last merged) = fst block
      then butlast merged @ [(fst (last merged), snd (last merged) + snd block)]
      else merged @ [block])"

definition arena_free :: "arena \<Rightarrow> int \<Rightarrow> int \<Rightarrow> arena" where
  "arena_free a offset sz =
     a\<lparr>ar_free := foldl merge_block [] (sort_key fst (ar_free a @ [(offset, aligned sz)]))\<rparr>"

definition append_aligned :: "bytes \<Rightarrow> bytes \<Rightarrow> nat \<times> bytes" where
  "append_aligned region payload =
     (let pad = nat ((- int (length region)) mod 64); offset = length region + pad in
      (offset, region @ replicate pad 0 @ payload))"

end
