(* ===== verification/Npu_Exec_Props.thy ===== *)
theory Npu_Exec_Props
  imports Npu_Loops Npu_Pack
begin

text \<open>
  The executor computes the reference. Packed weights and parameters read back as the compiler stored
  them, the sliced accumulation is the reference accumulation with its overflow checks, and a validated
  convolution writes exactly the elements of \<open>conv2d\<close> at the strided output addresses.
\<close>

unbundle bit_operations_syntax

section \<open>Packed bytes read back\<close>

lemma mod_shifted: "- n \<le> v \<Longrightarrow> v < 0 \<Longrightarrow> v mod n = v + (n::int)"
  using mod_pos_pos_trivial [of "v + n" n] by simp

lemma signed_byte_of_int:
  assumes "- 128 \<le> v" "v \<le> 127"
  shows "(let u = uint (word_of_int (v AND 255) :: 8 word) in if u \<ge> 128 then u - 256 else u) = v"
proof -
  have "uint (word_of_int (v AND 255) :: 8 word) = v mod 256"
    unfolding uint_word8_of_int by (simp add: bit_arith)
  moreover have "v mod 256 = (if 0 \<le> v then v else v + 256)"
    using assms mod_shifted [of 256 v] by auto
  ultimately show ?thesis using assms by (simp add: Let_def)
qed

lemma signed_bytes_nth: "i < length bs \<Longrightarrow> signed_bytes bs ! i = (let u = uint (bs ! i) in if u \<ge> 128 then u - 256 else u)"
  by (simp add: signed_bytes_def)

lemma length_signed_bytes [simp]: "length (signed_bytes bs) = length bs"
  by (simp add: signed_bytes_def)

lemma signed_bytes_range: "v \<in> set (signed_bytes bs) \<Longrightarrow> - 128 \<le> v \<and> v \<le> 127"
proof -
  assume "v \<in> set (signed_bytes bs)"
  then obtain b where "b \<in> set bs" "v = (if uint b \<ge> 128 then uint b - 256 else uint b)" by (auto simp: signed_bytes_def Let_def)
  moreover have "u < 256 \<Longrightarrow> 0 \<le> u \<Longrightarrow> v = (if u \<ge> 128 then u - 256 else u) \<Longrightarrow> - 128 \<le> v \<and> v \<le> 127" for u
    by (simp split: if_splits)
  ultimately show ?thesis using uint_lt2p [of b] uint_ge_0 [of b] by simp
qed

text \<open>Weight \<open>k\<close> of channel \<open>c\<close> sits in group \<open>c div 8\<close>, row \<open>k\<close>, lane \<open>c mod 8\<close>.\<close>

definition dense_slot :: "int \<Rightarrow> int \<times> int \<Rightarrow> int" where
  "dense_slot full_k = (\<lambda>(c, k). (c div 8) * full_k * 8 + c mod 8 + k * 8)"

lemma dense_slot_range:
  assumes "0 \<le> c" "c < cout" "0 \<le> k" "k < full_k"
  shows "0 \<le> dense_slot full_k (c, k)" "dense_slot full_k (c, k) < (cout + 7) div 8 * full_k * 8"
proof -
  have c: "0 \<le> c div 8" "c div 8 < (cout + 7) div 8" using set_tile_axis(1) [of 8 c cout] assms by auto
  have k: "0 \<le> k * 8 + c mod 8" "k * 8 + c mod 8 < full_k * 8" using row_offset [of k full_k "c mod 8" 8] assms by auto
  from row_offset [OF c k] show "0 \<le> dense_slot full_k (c, k)" "dense_slot full_k (c, k) < (cout + 7) div 8 * full_k * 8"
    by (simp_all add: dense_slot_def algebra_simps)
qed

lemma dense_slot_inj:
  assumes "dense_slot full_k (c, k) = dense_slot full_k (c', k')" "0 \<le> k" "k < full_k" "0 \<le> k'" "k' < full_k"
  shows "c = c'" "k = k'"
proof -
  have "(c div 8) * (full_k * 8) + (k * 8 + c mod 8) = (c' div 8) * (full_k * 8) + (k' * 8 + c' mod 8)"
    using assms(1) by (simp add: dense_slot_def algebra_simps)
  note d = digits [OF this]
  have "0 \<le> k * 8 + c mod 8" "k * 8 + c mod 8 < full_k * 8" "0 \<le> k' * 8 + c' mod 8" "k' * 8 + c' mod 8 < full_k * 8"
    using row_offset [of k full_k "c mod 8" 8] row_offset [of k' full_k "c' mod 8" 8] assms by auto
  note d = d [OF this]
  from digits [OF d(2)] show "k = k'" by simp
  moreover from digits(2) [OF d(2)] have "c mod 8 = c' mod 8" by simp
  ultimately show "c = c'" using d(1) by (metis div_mult_mod_eq)
qed

lemma pack_dense_nth:
  assumes "pack_dense_weights values cout full_k = Inr packed" "\<forall>v \<in> set values. - 128 \<le> v \<and> v \<le> 127"
  shows "int (length packed) = (if 0 \<le> cout \<and> 0 \<le> full_k then (cout + 7) div 8 * full_k * 8 else int (length packed))"
    "0 \<le> c \<Longrightarrow> c < cout \<Longrightarrow> 0 \<le> k \<Longrightarrow> k < full_k \<Longrightarrow>
       npu_index (signed_bytes packed) (dense_slot full_k (c, k)) = Inr (values ! nat (c * full_k + k))"
proof -
  let ?ks = "concat (map (\<lambda>c. map (\<lambda>k. (c, k)) (py_range 0 full_k)) (py_range 0 cout))"
  let ?f = "\<lambda>(c, k). word_of_int (values ! nat (c * full_k + k) AND 255) :: 8 word"
  let ?zeros = "replicate (nat ((cout + 7) div 8 * full_k * 8)) (0 :: 8 word)"
  have p: "packed = foldl (\<lambda>out p. out[nat (dense_slot full_k p) := ?f p]) ?zeros ?ks" and len: "int (length values) = cout * full_k"
    using assms(1) by (auto simp: pack_dense_weights_def bind_r_Inr raise_if_Inr dense_slot_def split_def)
  show "int (length packed) = (if 0 \<le> cout \<and> 0 \<le> full_k then (cout + 7) div 8 * full_k * 8 else int (length packed))"
    by (auto simp: p)
  assume ck: "0 \<le> c" "c < cout" "0 \<le> k" "k < full_k"
  note r = dense_slot_range [OF ck]
  have "packed ! nat (dense_slot full_k (c, k)) = ?f (c, k)"
    unfolding p
  proof (rule foldl_update_nth)
    show "(c, k) \<in> set ?ks" using ck by (auto simp: image_iff)
    show "nat (dense_slot full_k (c, k)) < length ?zeros" using r by simp
    show "\<forall>l \<in> set ?ks. nat (dense_slot full_k l) = nat (dense_slot full_k (c, k)) \<longrightarrow> ?f l = ?f (c, k)"
    proof (intro ballI impI)
      fix l assume l: "l \<in> set ?ks" "nat (dense_slot full_k l) = nat (dense_slot full_k (c, k))"
      obtain c' k' where l': "l = (c', k')" "0 \<le> c'" "c' < cout" "0 \<le> k'" "k' < full_k" using l(1) by auto
      have "dense_slot full_k (c', k') = dense_slot full_k (c, k)" using l(2) r dense_slot_range [OF l'(2-5)] by (simp add: l'(1))
      from dense_slot_inj [OF this l'(4,5) ck(3,4)] show "?f l = ?f (c, k)" by (simp add: l'(1))
    qed
  qed
  moreover have "values ! nat (c * full_k + k) \<in> set values"
    using row_offset [OF ck] len by (intro nth_mem) (simp add: nat_less_iff)
  ultimately show "npu_index (signed_bytes packed) (dense_slot full_k (c, k)) = Inr (values ! nat (c * full_k + k))"
    using r assms(2) signed_byte_of_int [of "values ! nat (c * full_k + k)"]
    by (subst npu_index_ok) (auto simp: p signed_bytes_nth)
qed

section \<open>Parameter records\<close>

lemma le_int_le_bytes_mod: "le_int (le_bytes n v) = v mod 256 ^ n"
  by (induction n arbitrary: v) (simp_all add: uint_word8_of_int zmod_zmult2_eq)

lemma int32_at_bytes:
  assumes "int32 v" "take 4 (drop i raw) = le_bytes 4 v"
  shows "int32_at raw i = v"
proof -
  have "le_int (le_bytes 4 v) = v mod 4294967296" using le_int_le_bytes_mod [of 4 v] by simp
  moreover have "v mod 4294967296 = (if 0 \<le> v then v else v + 4294967296)"
    using assms(1) mod_shifted [of 4294967296 v] by auto
  ultimately show ?thesis using assms by (auto simp: int32_at_def Let_def)
qed

lemma map_r_cong: "(\<And>x. x \<in> set xs \<Longrightarrow> f x = g x) \<Longrightarrow> map_r f xs = map_r g xs"
  by (induction xs) auto

lemma take_drop_record:
  assumes "\<forall>r \<in> set rs. length r = m" "i < length rs" "j + n \<le> m"
  shows "take n (drop (i * m + j) (concat rs)) = take n (drop j (rs ! i))"
  using assms
proof (induction rs arbitrary: i)
  case (Cons r rs)
  then show ?case by (cases i) (auto simp: add.assoc)
qed simp

lemma pack_params_read:
  assumes "pack_params bias multipliers shifts = Inr raw" "length multipliers = length bias" "length shifts = length bias"
    and "\<forall>m \<in> set multipliers. 0 \<le> m" "\<forall>s \<in> set shifts. - 31 \<le> s \<and> s \<le> 30" "i < length bias"
  shows "channel_params raw (int i) = Inr (bias ! i, multipliers ! i, shifts ! i)"
proof -
  have at: "bind_r (map_error ExecPy (npu_index bias c)) (\<lambda>b. bind_r (map_error ExecPy (npu_index multipliers c)) (\<lambda>m.
      bind_r (map_error ExecPy (npu_index shifts c)) (\<lambda>s. pack_param (b, m, s)))) =
      pack_param (bias ! nat c, multipliers ! nat c, shifts ! nat c)" if "c \<in> set (py_range 0 (int (length bias)))" for c
    using that assms(2,3) by (simp add: npu_index_ok)
  have "bind_r (map_r (\<lambda>c. pack_param (bias ! nat c, multipliers ! nat c, shifts ! nat c)) (py_range 0 (int (length bias))))
      (\<lambda>records. Inr (concat records)) = Inr raw"
    using assms(1) unfolding pack_params_def by (subst (asm) map_r_cong [OF at]) simp_all
  then obtain rs where rs: "list_all2 (\<lambda>c r. pack_param (bias ! nat c, multipliers ! nat c, shifts ! nat c) = Inr r)
      (py_range 0 (int (length bias))) rs" "raw = concat rs"
    by (auto simp: bind_r_Inr map_r_Inr)
  have len: "length rs = length bias" using list_all2_lengthD [OF rs(1)] by (simp add: py_range_def)
  have nth: "pack_param (bias ! j, multipliers ! j, shifts ! j) = Inr (rs ! j)" if "j < length bias" for j
    using list_all2_nthD [OF rs(1), of j] that by (simp add: py_range_def)
  have rec: "rs ! j = le_bytes 4 (bias ! j) @ le_bytes 4 (multipliers ! j) @ le_bytes 4 (shifts ! j) @ le_bytes 4 0 \<and>
      int32 (bias ! j) \<and> int32 (multipliers ! j) \<and> int32 (shifts ! j)" if "j < length bias" for j
    using nth [OF that] by (auto simp: pack_param_def pack_i32_def bind_r_Inr split: if_splits)
  have all: "\<forall>r \<in> set rs. length r = 16" using rec len by (auto simp: in_set_conv_nth)
  have part: "take 4 (drop (i * 16 + j) raw) = take 4 (drop j (rs ! i))" if "j + 4 \<le> 16" for j
    unfolding rs(2) by (rule take_drop_record [OF all _ that]) (use assms(6) len in simp)
  note r = rec [OF assms(6)]
  have words: "int32_at raw (i * 16) = bias ! i" "int32_at raw (i * 16 + 4) = multipliers ! i"
    "int32_at raw (i * 16 + 8) = shifts ! i" "le_int (take 4 (drop (i * 16 + 12) raw)) = 0"
    using part [of 0] part [of 4] part [of 8] part [of 12] r le_int_le_bytes [of 0 4]
    by (auto intro!: int32_at_bytes)
  have "length raw = length bias * 16"
    unfolding rs(2) len [symmetric] using all by (induction rs) auto
  then have "int i * 16 + 16 \<le> int (length raw)" using assms(6) by simp
  moreover have "nat (int i * 16) = i * 16" by simp
  moreover have "0 \<le> multipliers ! i" "- 31 \<le> shifts ! i" "shifts ! i \<le> 30" using assms(2-6) by simp_all
  ultimately show ?thesis
    using words by (simp add: channel_params_def Let_def)
qed

section \<open>The input tensor in memory\<close>

lemma py_range_nth: "i < nat n \<Longrightarrow> py_range 0 n ! i = int i"
  by (simp add: py_range_def)

lemma length_py_range [simp]: "length (py_range 0 n) = nat n"
  by (simp add: py_range_def)

lemma output_grid_nth:
  assumes "0 \<le> y" "y < nh" "0 \<le> x" "x < nw" "0 \<le> c" "c < nc"
  shows "nat ((y * nw + x) * nc + c) < length (output_grid nh nw nc)" "output_grid nh nw nc ! nat ((y * nw + x) * nc + c) = (y, x, c)"
proof -
  define row where "row = (\<lambda>oh::int. concat (map (\<lambda>ow. map (\<lambda>c. (oh, ow, c)) (py_range 0 nc)) (py_range 0 nw)))"
  have grid: "output_grid nh nw nc = concat (map row (py_range 0 nh))" by (simp add: output_grid_def row_def)
  have lr: "length (row oh) = nat nw * nat nc" for oh
    by (simp add: row_def length_concat comp_def map_replicate_const sum_list_replicate)
  have e: "nat ((y * nw + x) * nc + c) = nat y * (nat nw * nat nc) + (nat x * nat nc + nat c)"
    using assms by (simp add: nat_add_distrib nat_mult_distrib algebra_simps)
  have j: "nat x * nat nc + nat c < nat nw * nat nc" by (rule nat_grid) (use assms in auto)
  have len: "length (output_grid nh nw nc) = nat nh * (nat nw * nat nc)"
    by (simp add: grid length_concat comp_def lr map_replicate_const sum_list_replicate)
  show "nat ((y * nw + x) * nc + c) < length (output_grid nh nw nc)"
    unfolding e len by (rule nat_grid [OF _ j]) (use assms in auto)
  have "output_grid nh nw nc ! nat ((y * nw + x) * nc + c) = row y ! (nat x * nat nc + nat c)"
    unfolding e grid using concat_nth [of "map row (py_range 0 nh)" "nat nw * nat nc" "nat y", OF _ _ j] lr assms
    by (simp add: py_range_nth)
  also have "\<dots> = (y, x, c)"
    unfolding row_def using concat_nth [of "map (\<lambda>ow. map (\<lambda>c. (y, ow, c)) (py_range 0 nc)) (py_range 0 nw)" "nat nc" "nat x" "nat c"] assms
    by (simp add: py_range_nth)
  finally show "output_grid nh nw nc ! nat ((y * nw + x) * nc + c) = (y, x, c)" .
qed

lemma activation_value:
  assumes "activation_tensor mem d = Inr t"
  obtains raw where "npu_read mem (d_input0_base d) (used_span (d_h d) (d_w d) (d_cin d) (d_input0_row_bytes d)) = Inr raw"
    "tensor_ok t" "t_height t = d_h d" "t_width t = d_w d" "t_channels t = d_cin d" "t_zero_point t = d_input0_zero d"
    "\<forall>y x c. 0 \<le> y \<and> y < d_h d \<and> 0 \<le> x \<and> x < d_w d \<and> 0 \<le> c \<and> c < d_cin d \<longrightarrow>
       npu_index (signed_bytes raw) (y * d_input0_row_bytes d + x * d_cin d + c) = Inr (t_value t y x c)"
proof -
  from assms obtain raw vals where
    raw: "npu_read mem (d_input0_base d) (used_span (d_h d) (d_w d) (d_cin d) (d_input0_row_bytes d)) = Inr raw"
    and g: "list_all2 (\<lambda>(y, x, c) v. npu_index (signed_bytes raw) (y * d_input0_row_bytes d + x * d_cin d + c) = Inr v)
      (output_grid (d_h d) (d_w d) (d_cin d)) vals"
    and t: "tensor_new (d_h d, d_w d, d_cin d) vals (Finite 1 0) (d_input0_zero d) = Inr t"
    unfolding activation_tensor_def bind_r_Inr map_error_Inr grid_r_eq map_r_Inr by (auto simp: split_def)
  have t': "tensor_ok t" "t = \<lparr>t_shape = (d_h d, d_w d, d_cin d), t_data = vals, t_scale = Finite 1 0, t_zero_point = d_input0_zero d\<rparr>"
    using tensor_new_Inr [OF t] by auto
  have dims: "t_height t = d_h d" "t_width t = d_w d" "t_channels t = d_cin d" "t_zero_point t = d_input0_zero d" "t_data t = vals"
    by (simp_all add: t'(2) t_height_def t_width_def t_channels_def)
  have "npu_index (signed_bytes raw) (y * d_input0_row_bytes d + x * d_cin d + c) = Inr (t_value t y x c)"
    if "0 \<le> y \<and> y < d_h d \<and> 0 \<le> x \<and> x < d_w d \<and> 0 \<le> c \<and> c < d_cin d" for y x c
    using list_all2_nthD [OF g output_grid_nth(1) [of y "d_h d" x "d_w d" c "d_cin d"]] output_grid_nth(2) [of y "d_h d" x "d_w d" c "d_cin d"] that
    by (simp add: t_value_def dims)
  with raw t'(1) dims show thesis by (intro that) auto
qed

section \<open>One output cell\<close>

definition kernel_pairs :: "int \<Rightarrow> int \<Rightarrow> (int \<times> int) list" where
  "kernel_pairs kh kw = concat (map (\<lambda>k. map (\<lambda>l. (k, l)) (py_range 0 kw)) (py_range 0 kh))"

definition in_window :: "tensor \<Rightarrow> window_args \<Rightarrow> int \<Rightarrow> int \<Rightarrow> int \<times> int \<Rightarrow> bool" where
  "in_window t a oh ow = (\<lambda>(k, l). 0 \<le> oh * stride_h a + k - pad_top a \<and> oh * stride_h a + k - pad_top a < t_height t \<and>
     0 \<le> ow * stride_w a + l - pad_left a \<and> ow * stride_w a + l - pad_left a < t_width t)"

lemma window_positions_filter: "window_positions t a kh kw oh ow = filter (in_window t a oh ow) (kernel_pairs kh kw)"
  unfolding window_positions_def kernel_pairs_def filter_concat map_map
  by (rule arg_cong [where f = concat], rule map_cong) (auto simp: filter_map comp_def in_window_def)

lemma reduction_terms:
  assumes "0 \<le> kh" "0 \<le> kw" "0 \<le> cin"
  shows "map F (py_range 0 (kh * kw * cin)) =
    concat (map (\<lambda>(k, l). map (\<lambda>ci. F ((k * kw + l) * cin + ci)) (py_range 0 cin)) (kernel_pairs kh kw))"
proof -
  have "py_range 0 (kh * kw * cin) = concat (map (\<lambda>i. map (\<lambda>ci. i * cin + ci) (py_range 0 cin)) (py_range 0 (kh * kw)))"
    using assms by (intro py_range_product) auto
  also have "py_range 0 (kh * kw) = map (\<lambda>(k, l). k * kw + l) (kernel_pairs kh kw)"
    using py_range_product [OF assms(1,2)] by (simp add: kernel_pairs_def map_concat comp_def)
  finally show ?thesis by (simp add: map_concat comp_def split_def)
qed

lemma conv_cell_sum:
  assumes "tensor_ok t" "int (length flat) = cout * (kh * kw * t_channels t)" "int (length bias) = cout" "0 \<le> c" "c < cout"
  shows "conv_cell t a kh kw flat bias oh ow c =
    checked_sum ''conv2d accumulation'' (bias ! nat c)
      (concat (map (\<lambda>(k, l). map (\<lambda>ci.
        (t_value t (oh * stride_h a + k - pad_top a) (ow * stride_w a + l - pad_left a) ci - t_zero_point t) *
        flat ! nat (c * (kh * kw * t_channels t) + ((k * kw + l) * t_channels t + ci))) (py_range 0 (t_channels t)))
        (window_positions t a kh kw oh ow)))"
proof -
  let ?cin = "t_channels t"
  have cell: "bind_r (value_at t (oh * stride_h a + k - pad_top a) (ow * stride_w a + l - pad_left a) ci) (\<lambda>v.
      bind_r (npu_index flat (c * kh * kw * ?cin + (k * kw + l) * ?cin + ci)) (\<lambda>w.
        checked_accumulate acc ((v - t_zero_point t) * w) msg)) =
      checked_accumulate acc ((t_value t (oh * stride_h a + k - pad_top a) (ow * stride_w a + l - pad_left a) ci - t_zero_point t) *
        flat ! nat (c * (kh * kw * ?cin) + ((k * kw + l) * ?cin + ci))) msg"
    if "(k, l) \<in> set (window_positions t a kh kw oh ow)" "ci \<in> set (py_range 0 ?cin)" for k l ci acc msg
  proof -
    have r: "0 \<le> k" "k < kh" "0 \<le> l" "l < kw" "0 \<le> ci" "ci < ?cin" using that by (simp_all add: set_window_positions)
    have "0 \<le> (k * kw + l) * ?cin + ci" "(k * kw + l) * ?cin + ci < kh * kw * ?cin" using grid_index [OF r] by auto
    note i = row_offset [OF assms(4,5) this]
    have e: "c * kh * kw * ?cin + (k * kw + l) * ?cin + ci = c * (kh * kw * ?cin) + ((k * kw + l) * ?cin + ci)" by algebra
    show ?thesis
      unfolding e window_values_ok(1) [OF assms(1) r(5,6) that(1)] using i assms(2) by (simp add: npu_index_ok)
  qed
  show ?thesis
    unfolding conv_cell_def Let_def window_fold_positions checked_sum_def foldl_r_concat foldl_r_map
    using assms(3-5) by (auto simp: npu_index_ok foldl_r_map cell split_def intro!: foldl_r_cong)
qed

text \<open>What the executor finds in memory for a convolution with the given tensor, flattened weights and
  parameters.\<close>

definition dense_operands ::
  "descriptor \<Rightarrow> tensor \<Rightarrow> int list \<Rightarrow> int list \<Rightarrow> int list \<Rightarrow> int list \<Rightarrow> int list \<Rightarrow> int list \<Rightarrow> bool" where
  "dense_operands d t source weights flat bias multipliers shifts \<longleftrightarrow>
     tensor_ok t \<and> t_height t = d_h d \<and> t_width t = d_w d \<and> t_channels t = d_cin d \<and> t_zero_point t = d_input0_zero d \<and>
     (\<forall>y x c. 0 \<le> y \<and> y < d_h d \<and> 0 \<le> x \<and> x < d_w d \<and> 0 \<le> c \<and> c < d_cin d \<longrightarrow>
        npu_index source (y * d_input0_row_bytes d + x * d_cin d + c) = Inr (t_value t y x c)) \<and>
     0 < d_kh d \<and> 0 < d_kw d \<and> 0 < d_k_slice d \<and>
     (\<forall>c k. 0 \<le> c \<and> c < d_cout d \<and> 0 \<le> k \<and> k < d_kh d * d_kw d * d_cin d \<longrightarrow>
        npu_index weights (dense_slot (d_kh d * d_kw d * d_cin d) (c, k)) = Inr (flat ! nat (c * (d_kh d * d_kw d * d_cin d) + k))) \<and>
     int (length flat) = d_cout d * (d_kh d * d_kw d * d_cin d) \<and> (\<forall>w \<in> set flat. \<bar>w\<bar> \<le> 127) \<and>
     int (length bias) = d_cout d \<and> int (length multipliers) = d_cout d \<and> int (length shifts) = d_cout d \<and>
     (\<forall>b \<in> set bias. int32 b) \<and> (\<forall>m \<in> set multipliers. 0 \<le> m \<and> m \<le> INT32_MAX) \<and> (\<forall>s \<in> set shifts. - 31 \<le> s \<and> s \<le> 30)"

lemma dense_operandsD:
  assumes "dense_operands d t source weights flat bias multipliers shifts"
  shows "tensor_ok t" "t_height t = d_h d" "t_width t = d_w d" "t_channels t = d_cin d" "t_zero_point t = d_input0_zero d"
    "0 \<le> y \<Longrightarrow> y < d_h d \<Longrightarrow> 0 \<le> x \<Longrightarrow> x < d_w d \<Longrightarrow> 0 \<le> c \<Longrightarrow> c < d_cin d \<Longrightarrow>
       npu_index source (y * d_input0_row_bytes d + x * d_cin d + c) = Inr (t_value t y x c)"
    "0 < d_kh d" "0 < d_kw d" "0 < d_k_slice d"
    "0 \<le> c \<Longrightarrow> c < d_cout d \<Longrightarrow> 0 \<le> k \<Longrightarrow> k < d_kh d * d_kw d * d_cin d \<Longrightarrow>
       npu_index weights (dense_slot (d_kh d * d_kw d * d_cin d) (c, k)) = Inr (flat ! nat (c * (d_kh d * d_kw d * d_cin d) + k))"
    "int (length flat) = d_cout d * (d_kh d * d_kw d * d_cin d)" "\<forall>w \<in> set flat. \<bar>w\<bar> \<le> 127"
    "int (length bias) = d_cout d" "int (length multipliers) = d_cout d" "int (length shifts) = d_cout d"
    "\<forall>b \<in> set bias. int32 b" "\<forall>m \<in> set multipliers. 0 \<le> m \<and> m \<le> INT32_MAX" "\<forall>s \<in> set shifts. - 31 \<le> s \<and> s \<le> 30"
  using assms unfolding dense_operands_def by blast+

text \<open>The activation vector of an output position: centred input values, zero in the padding.\<close>

definition centred :: "descriptor \<Rightarrow> tensor \<Rightarrow> int \<Rightarrow> int \<Rightarrow> int \<Rightarrow> int" where
  "centred d t oy ox k =
     (let iy = oy * d_sh d - d_pad_top d + k div (d_kw d * d_cin d);
          ix = ox * d_sw d - d_pad_left d + (k mod (d_kw d * d_cin d)) div d_cin d in
      if 0 \<le> iy \<and> iy < d_h d \<and> 0 \<le> ix \<and> ix < d_w d then t_value t iy ix (k mod d_cin d) - t_zero_point t else 0)"

lemma dense_gather_eq:
  assumes "dense_operands d t source weights flat bias multipliers shifts"
  shows "dense_gather d source full_k oy ox = Inr (map (centred d t oy ox) (py_range 0 full_k))"
proof -
  note o = dense_operandsD [OF assms]
  have "0 < d_cin d" using o(1,4) by (simp add: tensor_ok_def)
  then have ci: "0 \<le> k mod d_cin d" "k mod d_cin d < d_cin d" for k by simp_all
  show ?thesis
    unfolding dense_gather_def Let_def
    by (rule map_r_total) (auto simp: centred_def Let_def o(5,6) ci)
qed

lemma digit_parts: "0 \<le> r \<Longrightarrow> r < m \<Longrightarrow> (k * m + r) div m = k" "0 \<le> r \<Longrightarrow> r < m \<Longrightarrow> (k * m + r) mod m = (r::int)"
  by simp_all

lemma centred_at:
  assumes "dense_operands d t source weights flat bias multipliers shifts" "0 \<le> k" "k < d_kh d" "0 \<le> l" "l < d_kw d" "0 \<le> ci" "ci < d_cin d"
  shows "centred d t oy ox ((k * d_kw d + l) * d_cin d + ci) =
    (if in_window t (pool_args d) oy ox (k, l)
     then t_value t (oy * d_sh d + k - d_pad_top d) (ox * d_sw d + l - d_pad_left d) ci - t_zero_point t else 0)"
proof -
  note o = dense_operandsD [OF assms(1)]
  have r: "0 \<le> l * d_cin d + ci" "l * d_cin d + ci < d_kw d * d_cin d" using row_offset [OF assms(4-7)] by auto
  have K: "(k * d_kw d + l) * d_cin d + ci = k * (d_kw d * d_cin d) + (l * d_cin d + ci)" by algebra
  have "((k * d_kw d + l) * d_cin d + ci) div (d_kw d * d_cin d) = k" "((k * d_kw d + l) * d_cin d + ci) mod (d_kw d * d_cin d) = l * d_cin d + ci"
    unfolding K using digit_parts [OF r] by auto
  moreover have "(l * d_cin d + ci) div d_cin d = l" "((k * d_kw d + l) * d_cin d + ci) mod d_cin d = ci" using assms(6,7) by simp_all
  ultimately show ?thesis by (simp add: centred_def Let_def in_window_def pool_args_def o(2,3) algebra_simps)
qed

lemma centred_bound:
  assumes "dense_operands d t source weights flat bias multipliers shifts"
  shows "\<bar>centred d t oy ox k\<bar> \<le> 255"
proof -
  note o = dense_operandsD [OF assms]
  have "0 < d_cin d" and z: "INT8_MIN \<le> t_zero_point t" "t_zero_point t \<le> INT8_MAX" using o(1,4) by (simp_all add: tensor_ok_def)
  then have ci: "0 \<le> k mod d_cin d" "k mod d_cin d < d_cin d" by simp_all
  have v: "INT8_MIN \<le> t_value t y x (k mod d_cin d) \<and> t_value t y x (k mod d_cin d) \<le> INT8_MAX"
    if "0 \<le> y" "y < d_h d" "0 \<le> x" "x < d_w d" for y x
    by (rule value_at_ok(2) [OF o(1)]) (use that ci o(2-4) in auto)
  have near: "\<bar>a - b\<bar> \<le> 255" if "- 128 \<le> a" "a \<le> 127" "- 128 \<le> b" "b \<le> 127" for a b :: int using that by linarith
  show ?thesis using v z by (auto simp: centred_def Let_def intro!: near)
qed

text \<open>The tiled, sliced and lane-packed accumulation of the executor is the accumulation of the reference,
  overflow checks included.\<close>

lemma dense_accumulator:
  assumes ops: "dense_operands d t source weights flat bias multipliers shifts" and c: "0 \<le> c" "c < d_cout d"
    and fits: "\<not> checked \<Longrightarrow> \<bar>bias ! nat c\<bar> + 255 * 127 * (d_kh d * d_kw d * d_cin d) \<le> INT32_MAX"
  shows "k_fold (d_kh d * d_kw d * d_cin d) (d_k_slice d) (\<lambda>acc k.
      bind_r (npu_index (map (centred d t oy ox) (py_range 0 (d_kh d * d_kw d * d_cin d))) k) (\<lambda>a.
      bind_r (npu_index weights ((c div 8 * 8) div 8 * (d_kh d * d_kw d * d_cin d) * 8 + c mod 8 + k * 8)) (\<lambda>w.
        accumulate acc (a * w) checked ''conv2d accumulation''))) (bias ! nat c) =
    conv_cell t (pool_args d) (d_kh d) (d_kw d) flat bias oy ox c"
proof -
  note o = dense_operandsD [OF ops]
  let ?n = "d_kh d * d_kw d * d_cin d"
  let ?prod = "\<lambda>k. centred d t oy ox k * flat ! nat (c * ?n + k)"
  have cin: "0 < d_cin d" using o(1,4) by (simp add: tensor_ok_def)
  have n: "0 \<le> ?n" using o(7,8) cin by simp
  have body: "bind_r (npu_index (map (centred d t oy ox) (py_range 0 ?n)) k) (\<lambda>a.
      bind_r (npu_index weights ((c div 8 * 8) div 8 * ?n * 8 + c mod 8 + k * 8)) (\<lambda>w.
        accumulate acc (a * w) checked msg)) = accumulate acc (?prod k) checked msg"
    if "k \<in> set (py_range 0 ?n)" for k acc msg
    using that o(10) [OF c, of k] by (simp add: npu_index_ok py_range_nth dense_slot_def)
  have w: "\<bar>flat ! nat (c * ?n + k)\<bar> \<le> 127" if "0 \<le> k" "k < ?n" for k
    using o(11,12) row_offset [OF c that] by (simp add: nat_less_iff)
  have "(\<Sum>k\<leftarrow>py_range 0 ?n. \<bar>?prod k\<bar>) \<le> 255 * 127 * int (length (py_range 0 ?n))"
  proof (rule sum_abs_le)
    fix k assume "k \<in> set (py_range 0 ?n)"
    then show "\<bar>?prod k\<bar> \<le> 255 * 127"
      unfolding abs_mult using centred_bound [OF ops] w [of k] by (intro mult_mono) auto
  qed
  then have "\<bar>bias ! nat c\<bar> + (\<Sum>x\<leftarrow>map ?prod (py_range 0 ?n). \<bar>x\<bar>) \<le> INT32_MAX" if "\<not> checked"
    using fits [OF that] n by (simp add: comp_def)
  from accumulate_sum [of checked "bias ! nat c" "map ?prod (py_range 0 ?n)" "''conv2d accumulation''"] this
  have acc: "foldl_r (\<lambda>acc k. accumulate acc (?prod k) checked ''conv2d accumulation'') (bias ! nat c) (py_range 0 ?n) =
      checked_sum ''conv2d accumulation'' (bias ! nat c) (map ?prod (py_range 0 ?n))"
    by (simp add: foldl_r_map)
  let ?g = "\<lambda>(k, l). map (\<lambda>ci. ?prod ((k * d_kw d + l) * d_cin d + ci)) (py_range 0 (d_cin d))"
  have pairs: "0 \<le> k" "k < d_kh d" "0 \<le> l" "l < d_kw d" if "(k, l) \<in> set (kernel_pairs (d_kh d) (d_kw d))" for k l
    using that by (auto simp: kernel_pairs_def)
  have "checked_sum ''conv2d accumulation'' (bias ! nat c) (map ?prod (py_range 0 ?n)) =
      checked_sum ''conv2d accumulation'' (bias ! nat c) (concat (map ?g (filter (in_window t (pool_args d) oy ox) (kernel_pairs (d_kh d) (d_kw d)))))"
  proof -
    have int32: "int32 (bias ! nat c)" using o(13,16) c by (simp add: nat_less_iff)
    show ?thesis
      unfolding reduction_terms [OF less_imp_le [OF o(7)] less_imp_le [OF o(8)] less_imp_le [OF cin]]
      by (rule checked_sum_padding [OF _ int32]) (use pairs centred_at [OF ops] in auto)
  qed
  also have "\<dots> = conv_cell t (pool_args d) (d_kh d) (d_kw d) flat bias oy ox c"
    unfolding conv_cell_sum [OF o(1) o(11) [folded o(4)] o(13) c] window_positions_filter o(4)
    by (rule arg_cong [where f = "checked_sum ''conv2d accumulation'' (bias ! nat c)"], rule arg_cong [where f = concat], rule map_cong [OF refl])
      (use pairs centred_at [OF ops] in \<open>auto simp: pool_args_def\<close>)
  finally show ?thesis
    unfolding k_fold_range [OF o(9) n] acc [symmetric] by (simp only: foldl_r_cong [OF body])
qed

section \<open>The output block\<close>

definition conv_value ::
  "descriptor \<Rightarrow> tensor \<Rightarrow> int list \<Rightarrow> int list \<Rightarrow> int list \<Rightarrow> int list \<Rightarrow> int \<times> int \<times> int \<Rightarrow> npu_error + int" where
  "conv_value d t flat bias multipliers shifts = (\<lambda>(oy, ox, c).
     bind_r (conv_cell t (pool_args d) (d_kh d) (d_kw d) flat bias oy ox c)
       (requantize_cell multipliers shifts (d_output_zero d) (d_act_min d, d_act_max d) c))"

lemma conv_value_error:
  assumes "dense_operands d t source weights flat bias multipliers shifts" "0 \<le> c" "c < d_cout d"
    "conv_value d t flat bias multipliers shifts (oy, ox, c) = Inl e"
  shows "\<exists>msg. e = ArithmeticFault msg"
proof -
  note o = dense_operandsD [OF assms(1)]
  let ?conv = "conv_cell t (pool_args d) (d_kh d) (d_kw d) flat bias oy ox c"
  note s = conv_cell_sum [OF o(1) o(11) [folded o(4)] o(13) assms(2,3), of "pool_args d" oy ox]
  show ?thesis
  proof (cases ?conv)
    case (Inl e')
    then have "e' = ArithmeticFault ''conv2d accumulation''" unfolding s by (rule checked_sum_Inl)
    then show ?thesis using assms(4) Inl by (auto simp: conv_value_def)
  next
    case (Inr acc)
    have i: "nat c < length bias" "nat c < length multipliers" "nat c < length shifts" using assms(2,3) o(13-15) by linarith+
    have "int32 (bias ! nat c)" using o(16) i(1) by simp
    then have acc: "int32 acc" using checked_sum_int32 [OF Inr [unfolded s]] by simp
    have m: "0 \<le> multipliers ! nat c" "multipliers ! nat c \<le> INT32_MAX" "- 31 \<le> shifts ! nat c" "shifts ! nat c \<le> 30"
      using o(17,18) i(2,3) by simp_all
    show ?thesis
      using requantization_total [OF acc m] assms(2-4) Inr o(14,15)
      by (auto simp: conv_value_def requantize_cell_def requantize_def npu_index_ok)
  qed
qed

lemma dense_cell_eq:
  assumes "dense_operands d t source weights flat bias multipliers shifts" "0 \<le> c" "c < d_cout d"
    and "\<not> checked \<Longrightarrow> \<bar>bias ! nat c\<bar> + 255 * 127 * (d_kh d * d_kw d * d_cin d) \<le> INT32_MAX"
  shows "dense_cell d weights bias multipliers shifts checked (d_kh d * d_kw d * d_cin d)
      (map (centred d t oy ox) (py_range 0 (d_kh d * d_kw d * d_cin d))) (c div 8 * 8, c mod 8) =
    bind_r (conv_value d t flat bias multipliers shifts (oy, ox, c)) (\<lambda>v. Inr (word_of_int (v AND 255)))"
proof -
  note o = dense_operandsD [OF assms(1)]
  have c: "c div 8 * 8 + c mod 8 = c" by simp
  show ?thesis
    unfolding dense_cell_def Let_def split c conv_value_def
    using dense_accumulator [OF assms(1-3), of checked oy ox] assms(2-4) o(13-15)
    by (cases "conv_cell t (pool_args d) (d_kh d) (d_kw d) flat bias oy ox c")
      (simp_all add: npu_index_ok requantize_cell_def requantize_def requantize_out_def bind_r_def split: sum.splits)
qed

text \<open>The loop nest of the executor as one loop over (position, lane).\<close>

lemma dense_output_loop:
  assumes "dense_operands d t source weights flat bias multipliers shifts" "d_opcode d = OP_CONV2D" "1 \<le> d_cout d"
    and "1 \<le> d_tile_h d" "1 \<le> d_tile_w d"
  obtains ks where "set ks = box (d_oh d) (d_ow d) (d_cout d)"
    "dense_output d source weights bias multipliers shifts =
       foldl_r (\<lambda>out p. bind_r (bind_r (conv_value d t flat bias multipliers shifts p) (\<lambda>v. Inr (word_of_int (v AND 255))))
         (npu_store out (element_address 0 (d_output_row_bytes d) (d_cout d) p)))
       (replicate (nat (used_span (d_oh d) (d_ow d) (d_cout d) (d_output_row_bytes d))) 0) ks"
proof -
  note o = dense_operandsD [OF assms(1)]
  let ?n = "d_kh d * d_kw d * d_cin d"
  obtain ps where ps: "tile_positions (d_oh d) (d_ow d) (d_tile_h d) (d_tile_w d) = Inr ps" "set ps = {0..<d_oh d} \<times> {0..<d_ow d}"
    by (rule tile_positions_set [of "d_tile_h d" "d_tile_w d"]) (use assms(4,5) in auto)
  have nonempty: "bias \<noteq> []" using o(13) assms(3) by auto
  define bound where "bound = Max (abs ` set bias)"
  define checked where "checked \<longleftrightarrow> bound + 255 * 127 * ?n > INT32_MAX"
  have folded: "(INT32_MAX < bound + 32385 * ?n) = checked" by (simp add: checked_def)
  have fits: "\<bar>bias ! nat c\<bar> + 255 * 127 * ?n \<le> INT32_MAX" if "\<not> checked" "0 \<le> c" "c < d_cout d" for c
  proof -
    have "\<bar>bias ! nat c\<bar> \<le> bound" unfolding bound_def using that o(13) by (intro Max_ge) auto
    then show ?thesis using that(1) by (simp add: checked_def)
  qed
  let ?key = "\<lambda>(oy, ox) (g, l). (oy, ox, g + l :: int)"
  define ks where "ks = concat (map (\<lambda>p. map (?key p) (lane_channels (d_cout d))) ps)"
  let ?body = "\<lambda>out p. bind_r (bind_r (conv_value d t flat bias multipliers shifts p) (\<lambda>v. Inr (word_of_int (v AND 255))))
         (npu_store out (element_address 0 (d_output_row_bytes d) (d_cout d) p))"
  have "set ks = box (d_oh d) (d_ow d) (d_cout d)"
    by (force simp: ks_def ps(2) set_lane_channels box_def)
  moreover have "dense_output d source weights bias multipliers shifts =
      foldl_r ?body (replicate (nat (used_span (d_oh d) (d_ow d) (d_cout d) (d_output_row_bytes d))) 0) ks"
  proof -
    have lane: "bind_r (dense_cell d weights bias multipliers shifts checked ?n (map (centred d t oy ox) (py_range 0 ?n)) gl)
          (npu_store out (oy * d_output_row_bytes d + ox * d_cout d + (fst gl + snd gl))) = ?body out (?key (oy, ox) gl)"
      if gl: "gl \<in> set (lane_channels (d_cout d))" for out oy ox gl
    proof -
      obtain c where c: "gl = (c div 8 * 8, c mod 8)" "0 \<le> c" "c < d_cout d" using gl unfolding set_lane_channels by blast
      show ?thesis
        using dense_cell_eq [OF assms(1) c(2,3) fits, of checked] c by (simp add: element_address_def)
    qed
    have "dense_output d source weights bias multipliers shifts =
        foldl_r (\<lambda>out (oy, ox). foldl_r (\<lambda>out gl. ?body out (?key (oy, ox) gl)) out (lane_channels (d_cout d)))
          (replicate (nat (used_span (d_oh d) (d_ow d) (d_cout d) (d_output_row_bytes d))) 0) ps"
      unfolding dense_output_def Let_def max_abs_def
      using nonempty assms(2) lane
      by (auto simp: ps(1) dense_gather_eq [OF assms(1)] bound_def [symmetric] folded split_def
          intro!: foldl_r_cong)
    then show ?thesis by (simp add: ks_def foldl_r_concat foldl_r_map split_def)
  qed
  ultimately show thesis by (rule that)
qed

lemma dense_output_exact:
  assumes "dense_operands d t source weights flat bias multipliers shifts" "d_opcode d = OP_CONV2D" "1 \<le> d_cout d"
    and "1 \<le> d_tile_h d" "1 \<le> d_tile_w d" "d_ow d * d_cout d \<le> d_output_row_bytes d"
  shows "\<forall>p \<in> box (d_oh d) (d_ow d) (d_cout d). conv_value d t flat bias multipliers shifts p = Inr (f p) \<Longrightarrow>
      \<exists>block. dense_output d source weights bias multipliers shifts = Inr block \<and>
        length block = nat (used_span (d_oh d) (d_ow d) (d_cout d) (d_output_row_bytes d)) \<and>
        (\<forall>p \<in> box (d_oh d) (d_ow d) (d_cout d).
           block ! nat (element_address 0 (d_output_row_bytes d) (d_cout d) p) = word_of_int (f p AND 255))"
    "p \<in> box (d_oh d) (d_ow d) (d_cout d) \<Longrightarrow> conv_value d t flat bias multipliers shifts p = Inl e \<Longrightarrow>
      \<exists>msg. dense_output d source weights bias multipliers shifts = Inl (ArithmeticFault msg)"
proof -
  let ?cell = "\<lambda>p. bind_r (conv_value d t flat bias multipliers shifts p) (\<lambda>v. Inr (word_of_int (v AND 255) :: 8 word))"
  let ?addr = "element_address 0 (d_output_row_bytes d) (d_cout d)"
  let ?zeros = "replicate (nat (used_span (d_oh d) (d_ow d) (d_cout d) (d_output_row_bytes d))) (0 :: 8 word)"
  obtain ks where ks: "set ks = box (d_oh d) (d_ow d) (d_cout d)"
    "dense_output d source weights bias multipliers shifts = foldl_r (\<lambda>out p. bind_r (?cell p) (npu_store out (?addr p))) ?zeros ks"
    using dense_output_loop [OF assms(1-5)] by blast
  have addr: "0 \<le> ?addr p" "?addr p < int (length ?zeros)" if "p \<in> set ks" for p
    using element_in_span [OF that [unfolded ks(1)] assms(6), of 0] by (simp_all add: byte_range_def)
  have inj: "?addr p = ?addr q \<Longrightarrow> p = q" if "p \<in> set ks" "q \<in> set ks" for p q
    using element_address_inj [OF assms(6), of 0 "d_oh d"] that by (simp add: ks(1) inj_on_eq_iff)
  { assume all: "\<forall>p \<in> box (d_oh d) (d_ow d) (d_cout d). conv_value d t flat bias multipliers shifts p = Inr (f p)"
    let ?g = "\<lambda>p. word_of_int (f p AND 255) :: 8 word"
    let ?block = "foldl (\<lambda>out p. out[nat (?addr p) := ?g p]) ?zeros ks"
    have "dense_output d source weights bias multipliers shifts = Inr ?block"
      unfolding ks(2) by (rule store_fold_total) (use all addr ks(1) in auto)
    moreover have "?block ! nat (?addr p) = ?g p" if "p \<in> set ks" for p
    proof (rule foldl_update_nth [OF that])
      show "nat (?addr p) < length ?zeros" using addr [OF that] by (simp only: nat_less_iff)
      show "\<forall>q \<in> set ks. nat (?addr q) = nat (?addr p) \<longrightarrow> ?g q = ?g p"
        using addr inj that by (metis int_nat_eq)
    qed
    ultimately show "\<exists>block. dense_output d source weights bias multipliers shifts = Inr block \<and>
        length block = nat (used_span (d_oh d) (d_ow d) (d_cout d) (d_output_row_bytes d)) \<and>
        (\<forall>p \<in> box (d_oh d) (d_ow d) (d_cout d). block ! nat (?addr p) = ?g p)"
      using ks(1) by (intro exI [of _ ?block]) simp }
  { assume p: "p \<in> box (d_oh d) (d_ow d) (d_cout d)" "conv_value d t flat bias multipliers shifts p = Inl e"
    have "\<exists>e. foldl_r (\<lambda>out p. bind_r (?cell p) (npu_store out (?addr p))) ?zeros ks = Inl e \<and> (\<exists>msg. e = ArithmeticFault msg)"
    proof (rule store_fold_fails [of p])
      fix q e' assume q: "q \<in> set ks" "?cell q = Inl e'"
      obtain oy ox c where q': "q = (oy, ox, c)" "0 \<le> c" "c < d_cout d" using q(1) by (auto simp: ks(1) box_def)
      have "conv_value d t flat bias multipliers shifts (oy, ox, c) = Inl e'" using q(2) by (auto simp: bind_r_Inl q'(1))
      then show "\<exists>msg. e' = ArithmeticFault msg" by (rule conv_value_error [OF assms(1) q'(2,3)])
    qed (use p ks(1) addr in auto)
    then show "\<exists>msg. dense_output d source weights bias multipliers shifts = Inl (ArithmeticFault msg)"
      unfolding ks(2) by blast }
qed

section \<open>What validation gives a convolution\<close>

lemma lanes_nonneg:
  "0 \<le> d_pad_top d" "0 \<le> d_pad_bottom d" "0 \<le> d_pad_left d" "0 \<le> d_pad_right d" "0 \<le> d_cin d" "0 \<le> d_cout d"
  by (simp_all add: d_pad_top_def d_pad_bottom_def d_pad_left_def d_pad_right_def d_cin_def d_cout_def lane_def)

lemma validated_structure:
  assumes "validate_descriptor d region = Inr ()"
  shows "1 \<le> d_tile_h d" "1 \<le> d_tile_w d" "1 \<le> d_k_slice d" "signed_byte (d_output_zero d)" "signed_byte (d_act_min d)"
    "signed_byte (d_act_max d)" "d_act_min d \<le> d_act_max d"
proof -
  have "check_structure d = Inr ()" using assms by (auto simp: validate_descriptor_def Let_def result_simps)
  then show "1 \<le> d_tile_h d" "1 \<le> d_tile_w d" "1 \<le> d_k_slice d" "signed_byte (d_output_zero d)" "signed_byte (d_act_min d)"
    "signed_byte (d_act_max d)" "d_act_min d \<le> d_act_max d"
    unfolding check_structure_def first_error_append by (simp_all add: result_simps)
qed

lemma validated_geometry:
  assumes "validate_descriptor d region = Inr ()"
  shows "1 \<le> d_h d" "d_h d \<le> 4096" "1 \<le> d_w d" "d_w d \<le> 4096" "1 \<le> d_cin d" "d_cin d \<le> 4096" "1 \<le> d_cout d" "d_cout d \<le> 4096"
    "1 \<le> d_oh d" "d_oh d \<le> 4096" "1 \<le> d_ow d" "d_ow d \<le> 4096"
proof -
  have "check_geometry d (d_opcode d) = Inr ()" using assms by (auto simp: validate_descriptor_def Let_def result_simps)
  then show "1 \<le> d_h d" "d_h d \<le> 4096" "1 \<le> d_w d" "d_w d \<le> 4096" "1 \<le> d_cin d" "d_cin d \<le> 4096" "1 \<le> d_cout d" "d_cout d \<le> 4096"
    "1 \<le> d_oh d" "d_oh d \<le> 4096" "1 \<le> d_ow d" "d_ow d \<le> 4096"
    unfolding check_geometry_def first_error_append by (simp_all add: result_simps)
qed

lemma geometry_kernel:
  assumes "check_geometry d opc = Inr ()" "opc \<in> {OP_CONV2D, OP_DEPTHWISE3X3, OP_MAX_POOL, OP_AVERAGE_POOL}"
  shows "1 \<le> d_kh d" "1 \<le> d_kw d" "d_pad_top d < d_kh d" "d_pad_bottom d < d_kh d" "d_pad_left d < d_kw d" "d_pad_right d < d_kw d"
    "d_oh d = (d_h d + d_pad_top d + d_pad_bottom d - d_kh d) div d_sh d + 1" "1 \<le> d_oh d"
    "d_ow d = (d_w d + d_pad_left d + d_pad_right d - d_kw d) div d_sw d + 1" "1 \<le> d_ow d"
  using assms unfolding check_geometry_def Let_def first_error_append if_P [OF assms(2)]
  by (simp_all add: result_simps not_less)

lemma operator_strides:
  assumes "check_operator d opc = Inr ()" "opc \<in> {OP_CONV2D, OP_DEPTHWISE3X3, OP_MAX_POOL, OP_AVERAGE_POOL}"
  shows "d_sh d \<in> {1, 2}" "d_sw d \<in> {1, 2}"
proof -
  have "first_error (operator_rules d opc) = Inr ()" using assms(1) by (simp add: check_operator_def first_error_append result_simps)
  then have "d_sh d \<in> {1, 2} \<and> d_sw d \<in> {1, 2}"
    using assms(2) by (elim insertE emptyE) (simp_all add: operator_rules_def check_kernel_stride_def result_simps)
  then show "d_sh d \<in> {1, 2}" "d_sw d \<in> {1, 2}" by auto
qed

lemma validated_window:
  assumes "validate_descriptor d region = Inr ()" "d_opcode d \<in> {OP_CONV2D, OP_MAX_POOL, OP_AVERAGE_POOL, OP_DEPTHWISE3X3}"
    and "t_height t = d_h d" "t_width t = d_w d"
  shows "window_extents t (pool_args d) (d_kh d) (d_kw d) = Inr (d_oh d, d_ow d)" "1 \<le> d_kh d" "1 \<le> d_kw d"
proof -
  have c: "check_geometry d (d_opcode d) = Inr ()" "check_operator d (d_opcode d) = Inr ()"
    using assms(1) by (auto simp: validate_descriptor_def Let_def result_simps)
  have kernel: "d_opcode d \<in> {OP_CONV2D, OP_DEPTHWISE3X3, OP_MAX_POOL, OP_AVERAGE_POOL}" using assms(2) by auto
  note g = geometry_kernel [OF c(1) kernel]
  show "1 \<le> d_kh d" "1 \<le> d_kw d" by (rule g)+
  have "d_sh d \<in> {1, 2}" "d_sw d \<in> {1, 2}" by (rule operator_strides [OF c(2) kernel])+
  then have "validate_strides (d_sh d) (d_sw d) = Inr ()" by (simp add: validate_strides_def result_simps)
  moreover have "validate_pads (window_pads (pool_args d)) (d_kh d) (d_kw d) = Inr ()"
    using g lanes_nonneg [of d] by (simp add: validate_pads_def window_pads_def pool_args_def result_simps not_less)
  moreover have "output_extent (d_h d) (d_pad_top d) (d_pad_bottom d) (d_kh d) (d_sh d) = Inr (d_oh d)"
    "output_extent (d_w d) (d_pad_left d) (d_pad_right d) (d_kw d) (d_sw d) = Inr (d_ow d)"
    using g(7-10) by (simp_all add: output_extent_def Let_def)
  ultimately show "window_extents t (pool_args d) (d_kh d) (d_kw d) = Inr (d_oh d, d_ow d)"
    by (simp add: window_extents_def pool_args_def assms(3,4))
qed

section \<open>The reference on the same operands\<close>

definition conv_quant :: "descriptor \<Rightarrow> py_float \<Rightarrow> quant_args" where
  "conv_quant d scale = \<lparr>output_scale = scale, output_zero_point = d_output_zero d, act_min = d_act_min d, act_max = d_act_max d\<rparr>"

lemma tensor_new_ok:
  assumes "1 \<le> h" "h \<le> 4096" "1 \<le> w" "w \<le> 4096" "1 \<le> c" "c \<le> 4096" "int (length vals) = h * w * c"
    "\<forall>v \<in> set vals. INT8_MIN \<le> v \<and> v \<le> INT8_MAX" "require_scale scale = Inr scale" "INT8_MIN \<le> zero" "zero \<le> INT8_MAX"
  shows "tensor_new (h, w, c) vals scale zero = Inr \<lparr>t_shape = (h, w, c), t_data = vals, t_scale = scale, t_zero_point = zero\<rparr>"
proof -
  have "\<not> list_ex (\<lambda>v. v < INT8_MIN \<or> v > INT8_MAX) vals" using assms(8) by (force simp: list_ex_iff)
  then show ?thesis using assms(1-7,9-11) by (simp add: tensor_new_def raise_if_def)
qed

lemma conv2d_on_descriptor:
  assumes "validate_descriptor d region = Inr ()" "d_opcode d = OP_CONV2D" "t_height t = d_h d" "t_width t = d_w d" "t_channels t = d_cin d"
    and "validate_conv_weights weights (d_cin d) = Inr (d_cout d, d_kh d, d_kw d, flat)"
    and "validate_bias bias (d_cout d) = Inr bias" "validate_multipliers multipliers (d_cout d) = Inr multipliers"
      "validate_shifts shifts (d_cout d) = Inr shifts" "require_scale scale = Inr scale"
  shows "conv2d t weights bias multipliers shifts (pool_args d) (conv_quant d scale) =
    bind_r (map_r (conv_value d t flat bias multipliers shifts) (output_grid (d_oh d) (d_ow d) (d_cout d))) (\<lambda>vals.
      Inr \<lparr>t_shape = (d_oh d, d_ow d, d_cout d), t_data = vals, t_scale = scale, t_zero_point = d_output_zero d\<rparr>)"
proof -
  note s = validated_structure [OF assms(1)] and g = validated_geometry [OF assms(1)]
  have act: "validate_act_bounds (d_act_min d) (d_act_max d) = Inr (d_act_min d, d_act_max d)"
    "validate_output_quantization scale (d_output_zero d) = Inr (scale, d_output_zero d)"
    using s assms(10) by (simp_all add: validate_act_bounds_def validate_output_quantization_def require_simps signed_byte_def result_simps bind_r_Inr raise_if_def)
  have new: "tensor_new (d_oh d, d_ow d, d_cout d) vals scale (d_output_zero d) =
      Inr \<lparr>t_shape = (d_oh d, d_ow d, d_cout d), t_data = vals, t_scale = scale, t_zero_point = d_output_zero d\<rparr>"
    if "map_r (conv_value d t flat bias multipliers shifts) (output_grid (d_oh d) (d_ow d) (d_cout d)) = Inr vals" for vals
  proof -
    have all: "list_all2 (\<lambda>p v. conv_value d t flat bias multipliers shifts p = Inr v) (output_grid (d_oh d) (d_ow d) (d_cout d)) vals"
      using that by (simp add: map_r_Inr)
    have "length (output_grid (d_oh d) (d_ow d) (d_cout d)) = nat (d_oh d) * (nat (d_ow d) * nat (d_cout d))"
      by (simp add: output_grid_def length_concat comp_def map_replicate_const sum_list_replicate)
    then have "int (length vals) = d_oh d * d_ow d * d_cout d" using list_all2_lengthD [OF all] g by simp
    moreover have "\<forall>v \<in> set vals. INT8_MIN \<le> v \<and> v \<le> INT8_MAX"
    proof
      fix v assume "v \<in> set vals"
      then obtain i where i: "i < length vals" "vals ! i = v" by (auto simp: in_set_conv_nth)
      obtain p where "conv_value d t flat bias multipliers shifts p = Inr v"
        using list_all2_nthD2 [OF all i(1)] unfolding i(2) by blast
      then obtain y where "v = max (d_act_min d) (min (d_act_max d) y)"
        by (cases p) (auto simp: conv_value_def requantize_cell_def requantize_def bind_r_Inr)
      then show "INT8_MIN \<le> v \<and> v \<le> INT8_MAX" using s(5-7) by (auto simp: signed_byte_def)
    qed
    moreover have "INT8_MIN \<le> d_output_zero d" "d_output_zero d \<le> INT8_MAX" using s(4) by (simp_all add: signed_byte_def)
    ultimately show ?thesis by (rule tensor_new_ok [OF g(9-12) g(7,8) _ _ assms(10)])
  qed
  have "conv2d t weights bias multipliers shifts (pool_args d) (conv_quant d scale) =
      bind_r (map_r (conv_value d t flat bias multipliers shifts) (output_grid (d_oh d) (d_ow d) (d_cout d))) (\<lambda>vals.
        tensor_new (d_oh d, d_ow d, d_cout d) vals scale (d_output_zero d))"
    unfolding conv2d_def assms(5) assms(6) using assms(7-9) act validated_window(1) [OF assms(1) _ assms(3,4)] assms(2)
    by (simp add: conv_quant_def grid_r_eq conv_value_def)
  then show ?thesis
    using new by (cases "map_r (conv_value d t flat bias multipliers shifts) (output_grid (d_oh d) (d_ow d) (d_cout d))") simp_all
qed

section \<open>Memory\<close>

lemma locate_same_layout:
  assumes "list_all2 (\<lambda>(b, buf) (b', buf'). b = b' \<and> length buf = length buf') mem mem'"
  shows "locate mem' address sz = locate mem address sz"
  using assms by (induction mem mem' rule: list_all2_induct) (auto split: prod.splits)

lemma locate_Inr:
  assumes "locate mem address sz = Inr (i, off)"
  shows "i < length mem" "off = address - fst (mem ! i)" "0 \<le> off" "off + sz \<le> int (length (snd (mem ! i)))"
  using assms by (induction mem arbitrary: i) (auto simp: bind_r_Inr split: if_splits)

lemma npu_write_ok:
  assumes "locate mem address (int (length block)) = Inr p" "block \<noteq> []"
  obtains mem' where "npu_write mem address block = Inr mem'" "npu_read mem' address (int (length block)) = Inr block"
proof -
  obtain i off where p: "locate mem address (int (length block)) = Inr (i, off)" using assms(1) by (cases p) auto
  note l = locate_Inr [OF p]
  obtain base buffer where b: "mem ! i = (base, buffer)" by (cases "mem ! i")
  define new where "new = take (nat off) buffer @ block @ drop (nat off + length block) buffer"
  define mem' where "mem' = mem[i := (base, new)]"
  have w: "npu_write mem address block = Inr mem'" using assms(2) p b by (simp add: npu_write_def mem'_def new_def)
  have off: "nat off + length block \<le> length buffer" using l(3,4) b by simp
  have "list_all2 (\<lambda>(b, buf) (b', buf'). b = b' \<and> length buf = length buf') mem mem'"
    unfolding list_all2_conv_all_nth
  proof (intro conjI allI impI)
    show "length mem = length mem'" by (simp add: mem'_def)
    show "(case mem ! j of (b, buf) \<Rightarrow> \<lambda>(b', buf'). b = b' \<and> length buf = length buf') (mem' ! j)" if "j < length mem" for j
      using b off that by (cases "j = i") (simp_all add: mem'_def new_def split: prod.splits)
  qed
  then have "locate mem' address (int (length block)) = Inr (i, off)" using p locate_same_layout by metis
  moreover have "mem' ! i = (base, new)" using l(1) by (simp add: mem'_def)
  moreover have "take (length block) (drop (nat off) new) = block" using off by (simp add: new_def)
  ultimately have "npu_read mem' address (int (length block)) = Inr block" using assms(2) by (simp add: npu_read_def)
  with w show thesis by (rule that)
qed

section \<open>The compiled layer\<close>

lemma flatten_level_all:
  assumes "flatten_level n visit node = Inr flat" "\<forall>x p. visit x = Inr p \<longrightarrow> (\<forall>w \<in> set p. P w)"
  shows "\<forall>w \<in> set flat. P w"
proof -
  from assms(1) obtain parts where p: "list_all2 (\<lambda>x q. visit x = Inr q) node parts" "flat = concat parts"
    by (auto simp: flatten_level_def bind_r_Inr map_r_Inr split: if_splits)
  have "\<forall>w \<in> set q. P w" if q: "q \<in> set parts" for q
  proof -
    obtain i where i: "i < length parts" "parts ! i = q" using q by (auto simp: in_set_conv_nth)
    from list_all2_nthD2 [OF p(1) i(1)] show ?thesis using assms(2) i(2) by blast
  qed
  then show ?thesis by (simp add: p(2))
qed

lemma conv_weights_facts:
  assumes "validate_conv_weights weights cin = Inr (cout, kh, kw, flat)" "0 \<le> cin"
  shows "int (length flat) = cout * (kh * kw * cin)" "\<forall>w \<in> set flat. \<bar>w\<bar> \<le> 127" "0 < kh" "0 < kw"
proof -
  from assms(1) have w: "int (length weights) = cout" "0 < kh" "0 < kw"
    "flatten_level cout (flatten_level kh (flatten_level kw (flatten_level cin flatten_leaf))) weights = Inr flat"
    by (auto simp: validate_conv_weights_def bind_r_Inr level_length_def split: if_splits)
  show "0 < kh" "0 < kw" by (rule w)+
  show "int (length flat) = cout * (kh * kw * cin)" using flatten_depth4(1,2) [OF w(4)] w(1-3) assms(2) by simp
  have leaf: "\<forall>x p. flatten_leaf x = Inr p \<longrightarrow> (\<forall>w \<in> set p. \<bar>w\<bar> \<le> 127)"
    by (auto simp: flatten_leaf_def bind_r_Inr require_simps)
  have row: "\<forall>x p. flatten_level cin flatten_leaf x = Inr p \<longrightarrow> (\<forall>w \<in> set p. \<bar>w\<bar> \<le> 127)"
    using flatten_level_all [OF _ leaf] by blast
  have plane: "\<forall>x p. flatten_level kw (flatten_level cin flatten_leaf) x = Inr p \<longrightarrow> (\<forall>w \<in> set p. \<bar>w\<bar> \<le> 127)"
    using flatten_level_all [OF _ row] by blast
  have "\<forall>x p. flatten_level kh (flatten_level kw (flatten_level cin flatten_leaf)) x = Inr p \<longrightarrow> (\<forall>w \<in> set p. \<bar>w\<bar> \<le> 127)"
    using flatten_level_all [OF _ plane] by blast
  then show "\<forall>w \<in> set flat. \<bar>w\<bar> \<le> 127" by (rule flatten_level_all [OF w(4)])
qed

lemma channel_word_facts:
  assumes "validate_bias bias cout = Inr bias" "validate_multipliers multipliers cout = Inr multipliers" "validate_shifts shifts cout = Inr shifts"
  shows "int (length bias) = cout" "int (length multipliers) = cout" "int (length shifts) = cout"
    "\<forall>b \<in> set bias. int32 b" "\<forall>m \<in> set multipliers. 0 \<le> m \<and> m \<le> INT32_MAX" "\<forall>s \<in> set shifts. - 31 \<le> s \<and> s \<le> 30"
  using assms
  by (auto simp: validate_bias_def validate_multipliers_def validate_shifts_def validate_channel_words_def
      bind_r_Inr map_r_Inr require_simps list_all2_conv_all_nth in_set_conv_nth split: if_splits)

lemma read_channel_params_packed:
  assumes "npu_read mem (d_param_base d) (d_param_bytes d) = Inr raw" "pack_params bias multipliers shifts = Inr raw"
    and "validate_bias bias (d_cout d) = Inr bias" "validate_multipliers multipliers (d_cout d) = Inr multipliers"
      "validate_shifts shifts (d_cout d) = Inr shifts"
  shows "read_channel_params mem d = Inr (bias, multipliers, shifts)"
proof -
  note f = channel_word_facts [OF assms(3-5)]
  have "channel_params raw c = Inr (bias ! nat c, multipliers ! nat c, shifts ! nat c)" if "c \<in> set (py_range 0 (d_cout d))" for c
    using pack_params_read [OF assms(2), of "nat c"] f that by auto
  then have "map_r (channel_params raw) (py_range 0 (d_cout d)) =
      Inr (map (\<lambda>c. (bias ! nat c, multipliers ! nat c, shifts ! nat c)) (py_range 0 (d_cout d)))" by (rule map_r_total)
  moreover have "map (\<lambda>c. xs ! nat c) (py_range 0 (d_cout d)) = xs" if "int (length xs) = d_cout d" for xs :: "int list"
    using that by (intro nth_equalityI) (auto simp: py_range_nth)
  ultimately show ?thesis using assms(1) f by (simp add: read_channel_params_def comp_def)
qed

lemma map_r_Inl:
  assumes "map_r f xs = Inl e"
  obtains x where "x \<in> set xs" "f x = Inl e"
  using assms by (induction xs) (auto simp: bind_r_Inl)

lemma grid_values:
  assumes "map_r f (output_grid nh nw nc) = Inr vals" "p \<in> box nh nw nc"
  shows "f p = Inr (case p of (y, x, c) \<Rightarrow> vals ! nat ((y * nw + x) * nc + c))"
proof -
  obtain y x c where p: "p = (y, x, c)" "0 \<le> y" "y < nh" "0 \<le> x" "x < nw" "0 \<le> c" "c < nc"
    using assms(2) by (auto simp: box_def)
  have "list_all2 (\<lambda>p v. f p = Inr v) (output_grid nh nw nc) vals" using assms(1) by (simp add: map_r_Inr)
  from list_all2_nthD [OF this output_grid_nth(1) [OF p(2-7)]] show ?thesis by (simp add: output_grid_nth(2) [OF p(2-7)] p(1))
qed

lemma conv_value_range:
  assumes "validate_descriptor d region = Inr ()" "conv_value d t flat bias multipliers shifts p = Inr v"
  shows "- 128 \<le> v" "v \<le> 127"
proof -
  obtain y where "v = max (d_act_min d) (min (d_act_max d) y)"
    using assms(2) by (cases p) (auto simp: conv_value_def requantize_cell_def requantize_def bind_r_Inr)
  then show "- 128 \<le> v" "v \<le> 127" using validated_structure(5-7) [OF assms(1)] by (auto simp: signed_byte_def)
qed

lemma write_block_ok:
  assumes "locate mem (d_output_base d) (int (length block)) = Inr place" "block \<noteq> []"
  obtains mem' where "write_block mem d block = Inr (mem', block)" "npu_read mem' (d_output_base d) (int (length block)) = Inr block"
proof -
  obtain mem' where m: "npu_write mem (d_output_base d) block = Inr mem'" "npu_read mem' (d_output_base d) (int (length block)) = Inr block"
    by (rule npu_write_ok [OF assms])
  have "write_block mem d block = Inr (mem', block)" by (simp add: write_block_def m(1))
  then show thesis using m(2) by (rule that)
qed

lemma output_span_pos:
  assumes "validate_descriptor d region = Inr ()"
  shows "0 < used_span (d_oh d) (d_ow d) (d_cout d) (d_output_row_bytes d)"
proof -
  note g = validated_geometry [OF assms] and rows = checked_rows [OF validated_phases(1) [OF assms]]
  have pos: "1 * 1 \<le> d_ow d * d_cout d" using g(7,11) by (intro mult_mono) simp_all
  then have "0 \<le> d_output_row_bytes d" using rows(2) by linarith
  then have "0 \<le> (d_oh d - 1) * d_output_row_bytes d" using g(9) by (intro mult_nonneg_nonneg) simp_all
  with pos show ?thesis by (simp add: used_span_def)
qed

text \<open>The operands of the executor are those of the reference.\<close>

lemma compiled_operands:
  assumes "validate_descriptor d region = Inr ()" "d_opcode d = OP_CONV2D" "activation_tensor mem d = Inr t"
    and "validate_conv_weights weights (d_cin d) = Inr (d_cout d, d_kh d, d_kw d, flat)"
    and "pack_dense_weights flat (d_cout d) (full_reduction d) = Inr packed"
    and "npu_read mem (d_weight_base d) (d_weight_bytes d) = Inr packed"
    and "validate_bias bias (d_cout d) = Inr bias" "validate_multipliers multipliers (d_cout d) = Inr multipliers"
    and "validate_shifts shifts (d_cout d) = Inr shifts" "pack_params bias multipliers shifts = Inr params"
    and "npu_read mem (d_param_base d) (d_param_bytes d) = Inr params"
  obtains source where "dense_operands d t source (signed_bytes packed) flat bias multipliers shifts"
    "execute_validated mem d = map_error arithmetic_fault
      (bind_r (map_error ExecPy (dense_output d source (signed_bytes packed) bias multipliers shifts)) (write_block mem d))"
proof -
  obtain src where src: "npu_read mem (d_input0_base d) (used_span (d_h d) (d_w d) (d_cin d) (d_input0_row_bytes d)) = Inr src"
    and t: "tensor_ok t" "t_height t = d_h d" "t_width t = d_w d" "t_channels t = d_cin d" "t_zero_point t = d_input0_zero d"
      "\<forall>y x c. 0 \<le> y \<and> y < d_h d \<and> 0 \<le> x \<and> x < d_w d \<and> 0 \<le> c \<and> c < d_cin d \<longrightarrow>
       npu_index (signed_bytes src) (y * d_input0_row_bytes d + x * d_cin d + c) = Inr (t_value t y x c)"
    by (rule activation_value [OF assms(3)])
  note wf = conv_weights_facts [OF assms(4) lanes_nonneg(5)] and cw = channel_word_facts [OF assms(7-9)]
  have full: "full_reduction d = d_kh d * d_kw d * d_cin d" using assms(2) by (simp add: full_reduction_def)
  have "\<forall>v \<in> set flat. - 128 \<le> v \<and> v \<le> 127" using wf(2) by force
  note packed = pack_dense_nth(2) [OF assms(5) [unfolded full] this]
  have "dense_operands d t (signed_bytes src) (signed_bytes packed) flat bias multipliers shifts"
    unfolding dense_operands_def using t wf cw validated_structure(3) [OF assms(1)] packed by auto
  moreover have "execute_validated mem d = map_error arithmetic_fault
      (bind_r (map_error ExecPy (dense_output d (signed_bytes src) (signed_bytes packed) bias multipliers shifts)) (write_block mem d))"
    using assms(2) src assms(6) read_channel_params_packed [OF assms(11,10,7-9)]
    by (simp add: execute_validated_def execute_dense_def Let_def)
  ultimately show thesis by (rule that)
qed

text \<open>C35: Equivalence of the executor with the reference. A validated convolution whose weights and parameters
  were packed by the compiler is executed tile by tile, in groups of eight lanes and in K-slices, with
  its overflow checks left out where they are moot; the result is the reference convolution of the
  tensor in memory: where the reference returns, the executor writes the same elements at the strided
  output addresses and they read back, and where the reference reports an overflow the job faults
  with the arithmetic code.\<close>

theorem executor_matches_conv2d:
  assumes "validate_descriptor d region = Inr ()" "d_opcode d = OP_CONV2D" "activation_tensor mem d = Inr t"
    and "validate_conv_weights weights (d_cin d) = Inr (d_cout d, d_kh d, d_kw d, flat)"
    and "pack_dense_weights flat (d_cout d) (full_reduction d) = Inr packed"
    and "npu_read mem (d_weight_base d) (d_weight_bytes d) = Inr packed"
    and "validate_bias bias (d_cout d) = Inr bias" "validate_multipliers multipliers (d_cout d) = Inr multipliers"
    and "validate_shifts shifts (d_cout d) = Inr shifts" "pack_params bias multipliers shifts = Inr params"
    and "npu_read mem (d_param_base d) (d_param_bytes d) = Inr params"
    and "locate mem (d_output_base d) (used_span (d_oh d) (d_ow d) (d_cout d) (d_output_row_bytes d)) = Inr place"
    and "require_scale scale = Inr scale"
  shows "case conv2d t weights bias multipliers shifts (pool_args d) (conv_quant d scale) of
      Inl e \<Rightarrow> (\<exists>msg. e = ArithmeticFault msg) \<and> execute_validated mem d = Inl (ExecutorFault FAULT_ARITHMETIC)
    | Inr out \<Rightarrow> \<exists>mem' block. execute_validated mem d = Inr (mem', block) \<and>
        npu_read mem' (d_output_base d) (used_span (d_oh d) (d_ow d) (d_cout d) (d_output_row_bytes d)) = Inr block \<and>
        t_shape out = (d_oh d, d_ow d, d_cout d) \<and>
        (\<forall>(y, x, c) \<in> box (d_oh d) (d_ow d) (d_cout d).
           signed_bytes block ! nat (element_address 0 (d_output_row_bytes d) (d_cout d) (y, x, c)) = t_value out y x c)"
proof -
  note s = validated_structure [OF assms(1)] and g = validated_geometry [OF assms(1)]
  obtain source where ops: "dense_operands d t source (signed_bytes packed) flat bias multipliers shifts"
    and exec: "execute_validated mem d = map_error arithmetic_fault
      (bind_r (map_error ExecPy (dense_output d source (signed_bytes packed) bias multipliers shifts)) (write_block mem d))"
    by (rule compiled_operands [OF assms(1-11)])
  note block = dense_output_exact [OF ops assms(2) g(7) s(1,2) checked_rows(2) [OF validated_phases(1) [OF assms(1)]]]
  note ref = conv2d_on_descriptor [OF assms(1,2) dense_operandsD(2-4) [OF ops] assms(4,7-9,13)]
  show ?thesis
  proof (cases "map_r (conv_value d t flat bias multipliers shifts) (output_grid (d_oh d) (d_ow d) (d_cout d))")
    case (Inl e)
    then obtain p where p: "p \<in> set (output_grid (d_oh d) (d_ow d) (d_cout d))" "conv_value d t flat bias multipliers shifts p = Inl e"
      by (rule map_r_Inl)
    obtain oy ox c where "p = (oy, ox, c)" by (cases p)
    with p(1) have c: "p = (oy, ox, c)" "0 \<le> c" "c < d_cout d" and box: "p \<in> box (d_oh d) (d_ow d) (d_cout d)"
      by (simp_all add: set_output_grid box_def)
    have "\<exists>msg. e = ArithmeticFault msg" using conv_value_error [OF ops c(2,3)] p(2) c(1) by blast
    moreover have "execute_validated mem d = Inl (ExecutorFault FAULT_ARITHMETIC)"
      using block(2) [OF box p(2)] by (auto simp: exec)
    ultimately show ?thesis unfolding ref Inl by simp
  next
    case (Inr vals)
    let ?val = "\<lambda>(y, x, c). vals ! nat ((y * d_ow d + x) * d_cout d + c)"
    have val: "\<forall>p \<in> box (d_oh d) (d_ow d) (d_cout d). conv_value d t flat bias multipliers shifts p = Inr (?val p)"
      using grid_values [OF Inr] by blast
    from block(1) [OF val] obtain bytes where b: "dense_output d source (signed_bytes packed) bias multipliers shifts = Inr bytes"
      "length bytes = nat (used_span (d_oh d) (d_ow d) (d_cout d) (d_output_row_bytes d))"
      "\<forall>p \<in> box (d_oh d) (d_ow d) (d_cout d).
        bytes ! nat (element_address 0 (d_output_row_bytes d) (d_cout d) p) = word_of_int (?val p AND 255)"
      by blast
    have len: "int (length bytes) = used_span (d_oh d) (d_ow d) (d_cout d) (d_output_row_bytes d)" "bytes \<noteq> []"
      using b(2) output_span_pos [OF assms(1)] by auto
    obtain mem' where "write_block mem d bytes = Inr (mem', bytes)" "npu_read mem' (d_output_base d) (int (length bytes)) = Inr bytes"
      by (rule write_block_ok [OF _ len(2)]) (use assms(12) len(1) in auto)
    moreover have "signed_bytes bytes ! nat (element_address 0 (d_output_row_bytes d) (d_cout d) p) = ?val p"
      if p: "p \<in> box (d_oh d) (d_ow d) (d_cout d)" for p
      using element_in_span [OF p checked_rows(2) [OF validated_phases(1) [OF assms(1)]], of 0] b(3) p
        signed_byte_of_int [OF conv_value_range [OF assms(1) bspec [OF val p]]]
      by (simp add: signed_bytes_nth byte_range_def len(1) [symmetric] nat_less_iff)
    ultimately show ?thesis unfolding ref Inr
      by (auto simp: exec b(1) len(1) t_value_def t_width_def t_channels_def intro!: exI [of _ mem'])
  qed
qed

definition conv_record :: descriptor where
  "conv_record = \<lparr>d_version_opcode = 16777217, d_reserved1 = 0, d_input0_base = 4096, d_input1_base = 0,
     d_output_base = 4160, d_param_base = 12288, d_input_hw = 131074, d_channels = 65537, d_output_hw = 65538,
     d_input0_row_bytes = 4, d_output_row_bytes = 3, d_input1_row_bytes = 0, d_kernel_stride = 16843265,
     d_padding = 0, d_tile_hw = 257, d_k_slice = 1, d_input0_bytes = 8, d_input1_bytes = 0, d_output_bytes = 8,
     d_param_bytes = 16, d_input0_zero = 1, d_input1_zero = 0, d_output_zero = - 3, d_act_min = - 128,
     d_act_max = 127, d_weight_base = 8192, d_weight_bytes = 16, d_reserved26 = 0, d_reserved27 = 0,
     d_reserved28 = 0, d_reserved29 = 0, d_reserved30 = 0, d_reserved31 = 0\<rparr>"

definition conv_memory :: npu_memory where
  "conv_memory = [(4096, [5, 250, 0, 0, 7, 9] @ replicate 122 0),
     (8192, [3, 0, 0, 0, 0, 0, 0, 0, 254, 0, 0, 0, 0, 0, 0, 0]),
     (12288, [10, 0, 0, 0, 0, 0, 0, 64, 1, 0, 0, 0, 0, 0, 0, 0])]"

definition conv_tensor :: tensor where
  "conv_tensor = \<lparr>t_shape = (2, 2, 1), t_data = [5, - 6, 7, 9], t_scale = Finite 1 0, t_zero_point = 1\<rparr>"

lemma conv_record_facts:
  "validate_descriptor conv_record None = Inr ()" "d_opcode conv_record = OP_CONV2D"
  "activation_tensor conv_memory conv_record = Inr conv_tensor"
  "validate_conv_weights [[[[3], [- 2]]]] (d_cin conv_record) = Inr (d_cout conv_record, d_kh conv_record, d_kw conv_record, [3, - 2])"
  "pack_dense_weights [3, - 2] (d_cout conv_record) (full_reduction conv_record) = Inr [3, 0, 0, 0, 0, 0, 0, 0, 254, 0, 0, 0, 0, 0, 0, 0]"
  "npu_read conv_memory (d_weight_base conv_record) (d_weight_bytes conv_record) = Inr [3, 0, 0, 0, 0, 0, 0, 0, 254, 0, 0, 0, 0, 0, 0, 0]"
  "validate_bias [10] (d_cout conv_record) = Inr [10]" "validate_multipliers [1073741824] (d_cout conv_record) = Inr [1073741824]"
  "validate_shifts [1] (d_cout conv_record) = Inr [1]"
  "pack_params [10] [1073741824] [1] = Inr [10, 0, 0, 0, 0, 0, 0, 64, 1, 0, 0, 0, 0, 0, 0, 0]"
  "npu_read conv_memory (d_param_base conv_record) (d_param_bytes conv_record) = Inr [10, 0, 0, 0, 0, 0, 0, 64, 1, 0, 0, 0, 0, 0, 0, 0]"
  "locate conv_memory (d_output_base conv_record) (used_span (d_oh conv_record) (d_ow conv_record) (d_cout conv_record)
     (d_output_row_bytes conv_record)) = Inr (0, 64)"
  "require_scale (Finite 1 0) = Inr (Finite 1 0)"
  by code_simp+

theorem executor_matches_conv2d_witness:
  "\<exists>mem' block. execute_validated conv_memory conv_record = Inr (mem', block) \<and>
     npu_read mem' 4160 4 = Inr block \<and> signed_bytes block ! 3 = 9"
proof -
  have v: "conv2d conv_tensor [[[[3], [- 2]]]] [10] [1073741824] [1] (pool_args conv_record) (conv_quant conv_record (Finite 1 0)) =
      Inr \<lparr>t_shape = (2, 1, 1), t_data = [33, 9], t_scale = Finite 1 0, t_zero_point = - 3\<rparr>"
    by code_simp
  have n: "d_output_base conv_record = 4160" "d_oh conv_record = 2" "d_ow conv_record = 1" "d_cout conv_record = 1" "d_output_row_bytes conv_record = 3"
    by code_simp+
  show ?thesis
    using executor_matches_conv2d [OF conv_record_facts] unfolding v n
    by (auto simp: box_def element_address_def t_value_def t_width_def t_channels_def used_span_def
        dest!: bspec [of "{0..<2}" _ 1] bspec [of "{0..<1}" _ 0])
qed

end
