(* ===== verification/Npu_Job.thy ===== *)
theory Npu_Job
  imports Npu_Exec
begin

text \<open>
  The driver \<open>execute_job\<close> of \<open>src/scripts/npu_executor.py\<close>: the regions of a compiled job, the finalized and
  validated descriptors, and the run of its steps with the tensors of every layer. The JSON report of
  a job is the record of the entries the driver looks up; the digest of a block is the parameter
  \<open>sha256\<close>.
\<close>

unbundle bit_operations_syntax

datatype job_step =
    NpuStep int int
  | SoftmaxStep int "int option" "int option" "int option"
  | UnsupportedStep

record compiled_job =
  cj_descriptors :: "descriptor list"
  cj_weights :: bytes
  cj_params :: bytes
  cj_arena_bytes :: nat
  cj_input_offset :: nat
  cj_relocations :: "relocation list"
  cj_steps :: "job_step list"
  cj_report_input :: "int option"
  cj_report_operators :: "(int option \<times> py_float) list"
  cj_report_output :: "int option"

record exec_state =
  xs_memory :: npu_memory
  xs_layers :: "tensor list"
  xs_digests :: "string list"
  xs_descriptor_layers :: "(int \<times> tensor) list"

record execution_result =
  er_layers :: "tensor list"
  er_digests :: "string list"
  er_output :: tensor

definition DEFAULT_BASES :: "string \<Rightarrow> int option" where
  "DEFAULT_BASES = [''arena'' \<mapsto> 268435456, ''weights'' \<mapsto> 536870912, ''params'' \<mapsto> 805306368, ''descriptors'' \<mapsto> 1073741824]"

definition base_of :: "(string \<Rightarrow> int option) \<Rightarrow> string \<Rightarrow> int" where
  "base_of bases region = (case bases region of Some b \<Rightarrow> b | None \<Rightarrow> 0)"

section \<open>Set-up\<close>

definition job_memory :: "compiled_job \<Rightarrow> bytes \<Rightarrow> (string \<Rightarrow> int option) \<Rightarrow> exec_error + npu_memory" where
  "job_memory job input_bytes merged =
     bind_r (raise_if (case cj_report_input job of None \<Rightarrow> False | Some expected \<Rightarrow> int (length input_bytes) \<noteq> expected)
       (ExecutorFault FAULT_RANGE)) (\<lambda>_.
     bind_r (raise_if (cj_input_offset job + length input_bytes > cj_arena_bytes job) (ExecutorFault FAULT_RANGE)) (\<lambda>_.
     let offset = cj_input_offset job;
         arena = replicate offset 0 @ input_bytes @ replicate (cj_arena_bytes job - offset - length input_bytes) 0 in
     Inr [(base_of merged ''arena'', arena), (base_of merged ''weights'', cj_weights job),
          (base_of merged ''params'', cj_params job)]))"

fun desc_fault :: "desc_error \<Rightarrow> exec_error" where
  "desc_fault (DescriptorError code word) = ExecutorFault code"
| "desc_fault DescLengthError = ExecPy (NpuValueError ''descriptor record length'')"
| "desc_fault DescStructError = ExecStructError"

definition finalize_descriptor :: "int \<times> int \<Rightarrow> descriptor \<Rightarrow> exec_error + descriptor" where
  "finalize_descriptor region d =
     map_error desc_fault
       (bind_r (to_bytes d) (\<lambda>raw. bind_r (from_bytes raw) (\<lambda>wire.
        bind_r (validate_descriptor wire (Some region)) (\<lambda>_. Inr wire))))"

definition finalize_job :: "compiled_job \<Rightarrow> (string \<Rightarrow> int option) \<Rightarrow> exec_error + descriptor list" where
  "finalize_job job merged =
     bind_r (relocate_descriptors (cj_descriptors job) (cj_relocations job) merged) (\<lambda>relocated.
       map_r (finalize_descriptor (base_of merged ''descriptors'', int (length relocated) * 128)) relocated)"

text \<open>The operator entries of the report by descriptor index; a later entry replaces an earlier one.\<close>

definition job_metadata :: "compiled_job \<Rightarrow> int \<Rightarrow> py_float option" where
  "job_metadata job = map_of (rev (List.map_filter (\<lambda>(k, s). map_option (\<lambda>i. (i, s)) k) (cj_report_operators job)))"

section \<open>Steps\<close>

definition run_descriptor ::
  "(bytes \<Rightarrow> string) \<Rightarrow> descriptor list \<Rightarrow> (int \<Rightarrow> py_float option) \<Rightarrow> exec_state \<Rightarrow> int \<Rightarrow> exec_error + exec_state" where
  "run_descriptor sha256 finalized metadata st index =
     bind_r (map_error ExecPy (npu_index finalized index)) (\<lambda>d.
     bind_r (execute_validated (xs_memory st) d) (\<lambda>(mem, block).
     case metadata index of
       None \<Rightarrow> Inl ExecTypeError
     | Some scale \<Rightarrow>
         bind_r (map_error ExecPy (tensor_new (d_oh d, d_ow d, d_cout d) (signed_bytes block) scale (d_output_zero d))) (\<lambda>t.
           Inr (st\<lparr>xs_memory := mem, xs_layers := xs_layers st @ [t], xs_digests := xs_digests st @ [sha256 block],
             xs_descriptor_layers := (index, t) # xs_descriptor_layers st\<rparr>))))"

fun softmax_fault :: "npu_error \<Rightarrow> exec_error" where
  "softmax_fault (ArithmeticFault context) = ExecutorFault FAULT_ARITHMETIC"
| "softmax_fault (NpuValueError msg) = ExecutorFault FAULT_DESCRIPTOR"
| "softmax_fault e = ExecPy e"

definition run_softmax ::
  "(bytes \<Rightarrow> string) \<Rightarrow> descriptor list \<Rightarrow> (int \<Rightarrow> py_float option) \<Rightarrow> exec_state \<Rightarrow>
    int \<Rightarrow> int option \<Rightarrow> int option \<Rightarrow> int option \<Rightarrow> exec_error + exec_state" where
  "run_softmax sha256 finalized metadata st source_index multiplier left_shift diff_min =
     (if source_index < 0 \<or> source_index \<ge> int (length finalized) then Inl (ExecutorFault FAULT_DESCRIPTOR)
      else
        (case metadata source_index of
           None \<Rightarrow> Inl ExecTypeError
         | Some scale \<Rightarrow>
             let d = finalized ! nat source_index in
             bind_r (npu_read (xs_memory st) (d_output_base d) (used_span (d_oh d) (d_ow d) (d_cout d) (d_output_row_bytes d))) (\<lambda>block.
             bind_r (map_error ExecPy (tensor_new (d_oh d, d_ow d, d_cout d) (signed_bytes block) scale (d_output_zero d))) (\<lambda>logits.
             bind_r (case (multiplier, left_shift, diff_min) of
                 (Some m, Some s, Some low) \<Rightarrow> map_error softmax_fault (softmax_int8 logits m s low)
               | _ \<Rightarrow> Inl (ExecutorFault FAULT_DESCRIPTOR)) (\<lambda>result.
               Inr (st\<lparr>xs_layers := xs_layers st @ [result], xs_digests := xs_digests st @ [sha256 (tensor_block result)]\<rparr>))))))"

fun run_job_step ::
  "(bytes \<Rightarrow> string) \<Rightarrow> descriptor list \<Rightarrow> (int \<Rightarrow> py_float option) \<Rightarrow> exec_state \<Rightarrow> job_step \<Rightarrow> exec_error + exec_state" where
  "run_job_step sha256 finalized metadata st (NpuStep start count) =
     foldl_r (run_descriptor sha256 finalized metadata) st (py_range start (start + count))"
| "run_job_step sha256 finalized metadata st (SoftmaxStep source_index multiplier left_shift diff_min) =
     run_softmax sha256 finalized metadata st source_index multiplier left_shift diff_min"
| "run_job_step sha256 finalized metadata st UnsupportedStep = Inl (ExecutorFault FAULT_UNSUPPORTED)"

fun is_cpu :: "job_step \<Rightarrow> bool" where
  "is_cpu (SoftmaxStep source_index multiplier left_shift diff_min) = True"
| "is_cpu s = False"

definition job_output :: "compiled_job \<Rightarrow> exec_state \<Rightarrow> tensor" where
  "job_output job st =
     (if list_ex is_cpu (cj_steps job) then last (xs_layers st)
      else case cj_report_output job of
             None \<Rightarrow> last (xs_layers st)
           | Some i \<Rightarrow> (case map_of (xs_descriptor_layers st) i of None \<Rightarrow> last (xs_layers st) | Some t \<Rightarrow> t))"

definition execute_job ::
  "(bytes \<Rightarrow> string) \<Rightarrow> compiled_job \<Rightarrow> bytes \<Rightarrow> (string \<Rightarrow> int option) \<Rightarrow> exec_error + execution_result" where
  "execute_job sha256 job input_bytes bases =
     (let merged = DEFAULT_BASES ++ bases; metadata = job_metadata job in
      bind_r (job_memory job input_bytes merged) (\<lambda>mem.
      bind_r (finalize_job job merged) (\<lambda>finalized.
      bind_r (first_error (map (\<lambda>i. raise_if (metadata i = None) (ExecutorFault FAULT_DESCRIPTOR))
        (py_range 0 (int (length finalized))))) (\<lambda>_.
      bind_r (foldl_r (run_job_step sha256 finalized metadata)
        \<lparr>xs_memory = mem, xs_layers = [], xs_digests = [], xs_descriptor_layers = []\<rparr> (cj_steps job)) (\<lambda>st.
      if xs_layers st = [] then Inl (ExecutorFault FAULT_DESCRIPTOR)
      else Inr \<lparr>er_layers = xs_layers st, er_digests = xs_digests st, er_output = job_output job st\<rparr>)))))"

end
