(* ===== verification/Npu_Job_Props.thy ===== *)
theory Npu_Job_Props
  imports Npu_Exec_Props Npu_Job
begin

text \<open>
  What the executor leaves alone: every operator writes a block that fits the declared output allocation, so
  memory outside it is unchanged, and whole jobs keep everything outside their outputs.
\<close>

unbundle bit_operations_syntax

section \<open>What an operator may change\<close>

lemma foldl_r_length:
  assumes "foldl_r f xs ks = Inr ys" "\<And>zs k us. f zs k = Inr us \<Longrightarrow> length us = length zs"
  shows "length ys = length xs"
  using assms(1)
proof (induction ks arbitrary: xs)
  case (Cons k ks)
  then obtain zs where "f xs k = Inr zs" "foldl_r f zs ks = Inr ys" by (auto simp: bind_r_Inr)
  with Cons.IH assms(2) show ?case by metis
qed simp

lemma length_npu_store: "npu_store xs i v = Inr ys \<Longrightarrow> length ys = length xs"
  by (auto simp: npu_store_def split: if_splits)

lemmas block_length_simps = bind_r_Inr Let_def split_def

lemma length_dense_output:
  "dense_output d source weights bias multipliers shifts = Inr out \<Longrightarrow>
     length out = nat (used_span (d_oh d) (d_ow d) (d_cout d) (d_output_row_bytes d))"
  by (auto simp: dense_output_def block_length_simps dest!: foldl_r_length length_npu_store)

lemma length_depthwise_output:
  "depthwise_output d source weights bias multipliers shifts = Inr out \<Longrightarrow>
     length out = nat (used_span (d_oh d) (d_ow d) (d_cin d) (d_output_row_bytes d))"
  by (auto simp: depthwise_output_def block_length_simps dest!: foldl_r_length length_npu_store)

lemma length_gap_output: "gap_output d source = Inr out \<Longrightarrow> length out = nat (d_cin d)"
  by (auto simp: gap_output_def block_length_simps dest!: foldl_r_length length_npu_store)

lemma length_add_output:
  "add_output d a in0 in1 = Inr out \<Longrightarrow> length out = nat (used_span (d_oh d) (d_ow d) (d_cout d) (d_output_row_bytes d))"
  by (auto simp: add_output_def block_length_simps dest!: foldl_r_length length_npu_store)

text \<open>Memory outside a range of addresses is the same, region by region.\<close>

definition same_outside :: "int set \<Rightarrow> npu_memory \<Rightarrow> npu_memory \<Rightarrow> bool" where
  "same_outside A mem mem' \<longleftrightarrow>
     list_all2 (\<lambda>(b, buf) (b', buf'). b' = b \<and> length buf' = length buf \<and>
       (\<forall>j < length buf. b + int j \<notin> A \<longrightarrow> buf' ! j = buf ! j)) mem mem'"

lemma same_outside_refl: "same_outside A mem mem"
  by (simp add: same_outside_def list_all2_conv_all_nth split_def)

lemma splice_nth:
  "k + length ys \<le> length xs \<Longrightarrow> j < length xs \<Longrightarrow> j < k \<or> k + length ys \<le> j \<Longrightarrow>
     (take k xs @ ys @ drop (k + length ys) xs) ! j = xs ! j"
  by (auto simp: nth_append)

lemma npu_write_frame:
  assumes "npu_write mem address block = Inr mem'"
  shows "same_outside (byte_range address (int (length block))) mem mem'"
proof (cases "block = []")
  case False
  from assms False obtain i off where p: "locate mem address (int (length block)) = Inr (i, off)"
    by (auto simp: npu_write_def bind_r_Inr)
  note l = locate_Inr [OF p]
  obtain base buffer where b: "mem ! i = (base, buffer)" by (cases "mem ! i")
  have m: "mem' = mem[i := (base, take (nat off) buffer @ block @ drop (nat off + length block) buffer)]"
    using assms False p b by (simp add: npu_write_def)
  have off: "nat off + length block \<le> length buffer" using l(3,4) b by simp
  have same: "(take (nat off) buffer @ block @ drop (nat off + length block) buffer) ! j = buffer ! j"
    if "j < length buffer" "base + int j \<notin> byte_range address (int (length block))" for j
    by (rule splice_nth [OF off that(1)]) (use that(2) l(2,3) b in \<open>auto simp: byte_range_def nat_less_iff nat_le_iff\<close>)
  show ?thesis
    unfolding same_outside_def list_all2_conv_all_nth
  proof (intro conjI allI impI)
    show "length mem = length mem'" by (simp add: m)
    show "(case mem ! k of (b, buf) \<Rightarrow> \<lambda>(b', buf'). b' = b \<and> length buf' = length buf \<and>
       (\<forall>j < length buf. b + int j \<notin> byte_range address (int (length block)) \<longrightarrow> buf' ! j = buf ! j)) (mem' ! k)"
      if "k < length mem" for k
      using b off same that by (cases "k = i") (simp_all add: m split: prod.splits)
  qed
qed (use assms in \<open>simp add: npu_write_def same_outside_refl\<close>)

lemma same_outside_mono: "same_outside A mem mem' \<Longrightarrow> A \<subseteq> B \<Longrightarrow> same_outside B mem mem'"
  unfolding same_outside_def by (erule list_all2_mono) (auto split: prod.splits)

text \<open>The bytes of a packed output never exceed those of the strided one.\<close>

lemma packed_below_span:
  assumes "1 \<le> h" "w * c \<le> row" "0 \<le> w * (c::int)"
  shows "h * w * c \<le> used_span h w c row"
proof -
  have "(h - 1) * (w * c) \<le> (h - 1) * row" using assms by (intro mult_left_mono) auto
  then show ?thesis by (simp add: used_span_def algebra_simps)
qed

lemma validated_same_channels:
  assumes "validate_descriptor d region = Inr ()"
  shows "d_opcode d \<in> {OP_DEPTHWISE3X3, OP_GLOBAL_AVERAGE_POOL, OP_MAX_POOL, OP_AVERAGE_POOL, OP_CLAMP} \<Longrightarrow> d_cout d = d_cin d"
    "d_opcode d = OP_GLOBAL_AVERAGE_POOL \<Longrightarrow> d_oh d = 1 \<and> d_ow d = 1"
    "d_opcode d = OP_CLAMP \<Longrightarrow> d_oh d = d_h d \<and> d_ow d = d_w d"
proof -
  have c: "first_error (operator_rules d (d_opcode d)) = Inr ()"
    using assms by (simp add: validate_descriptor_def Let_def check_operator_def first_error_append result_simps)
  show "d_opcode d \<in> {OP_DEPTHWISE3X3, OP_GLOBAL_AVERAGE_POOL, OP_MAX_POOL, OP_AVERAGE_POOL, OP_CLAMP} \<Longrightarrow> d_cout d = d_cin d"
    using c by (elim insertE emptyE) (simp_all add: operator_rules_def first_error_append result_simps)
  show "d_opcode d = OP_GLOBAL_AVERAGE_POOL \<Longrightarrow> d_oh d = 1 \<and> d_ow d = 1" "d_opcode d = OP_CLAMP \<Longrightarrow> d_oh d = d_h d \<and> d_ow d = d_w d"
    using c by (simp_all add: operator_rules_def result_simps)
qed

lemma output_span_allotted:
  assumes "validate_descriptor d region = Inr ()"
  shows "used_span (d_oh d) (d_ow d) (d_cout d) (d_output_row_bytes d) \<le> d_output_bytes d"
  by (rule checked_operand(1) [OF validated_phases(1) [OF assms], of "d_output_base d" _ _ 4 18]) (simp add: operands_def)

lemma pool_block:
  assumes "validate_descriptor d region = Inr ()" "d_opcode d \<in> {OP_MAX_POOL, OP_AVERAGE_POOL}" "activation_tensor mem d = Inr t"
    and "pool cell t (d_kh d) (d_kw d) (pool_args d) lo hi = Inr out"
  shows "int (length (tensor_block out)) \<le> used_span (d_oh d) (d_ow d) (d_cout d) (d_output_row_bytes d)"
proof -
  obtain raw where t: "t_height t = d_h d" "t_width t = d_w d" "t_channels t = d_cin d" by (rule activation_value [OF assms(3)])
  have kernel: "d_opcode d \<in> {OP_CONV2D, OP_MAX_POOL, OP_AVERAGE_POOL, OP_DEPTHWISE3X3}" using assms(2) by auto
  note w = validated_window(1) [OF assms(1) kernel t(1,2)] and g = validated_geometry [OF assms(1)]
  from assms(4) obtain vals where "tensor_new (d_oh d, d_ow d, d_cin d) vals (t_scale t) (t_zero_point t) = Inr out"
    by (auto simp: pool_def pool_geometry_def bind_r_Inr w t(3))
  from tensor_new_Inr [OF this] have "int (length (t_data out)) = d_oh d * d_ow d * d_cin d"
    by (auto simp: tensor_ok_def t_height_def t_width_def t_channels_def)
  moreover have "d_cout d = d_cin d" by (rule validated_same_channels(1) [OF assms(1)]) (use assms(2) in auto)
  ultimately show ?thesis
    using packed_below_span [OF g(9) checked_rows(2) [OF validated_phases(1) [OF assms(1)]]] g(11) lanes_nonneg(6) [of d]
    by (simp add: tensor_block_def)
qed

lemma clamp_block:
  assumes "validate_descriptor d region = Inr ()" "d_opcode d = OP_CLAMP" "activation_tensor mem d = Inr t" "npu_clamp t lo hi = Inr out"
  shows "int (length (tensor_block out)) \<le> used_span (d_oh d) (d_ow d) (d_cout d) (d_output_row_bytes d)"
proof -
  obtain raw where t: "tensor_ok t" "t_height t = d_h d" "t_width t = d_w d" "t_channels t = d_cin d" by (rule activation_value [OF assms(3)])
  note g = validated_geometry [OF assms(1)] and same = validated_same_channels [OF assms(1)]
  from assms(4) have "length (t_data out) = length (t_data t)" by (auto simp: npu_clamp_def bind_r_Inr dest!: tensor_new_Inr)
  then have "int (length (t_data out)) = d_oh d * d_ow d * d_cout d" using t same(1,3) assms(2) by (simp add: tensor_ok_def)
  then show ?thesis
    using packed_below_span [OF g(9) checked_rows(2) [OF validated_phases(1) [OF assms(1)]]] g(11) lanes_nonneg(6) [of d]
    by (simp add: tensor_block_def)
qed

text \<open>Every operator ends by writing a block that fits the declared output allocation.\<close>

lemma write_block_iff:
  "write_block mem d b = Inr (mem', block) \<longleftrightarrow> b = block \<and> npu_write mem (d_output_base d) block = Inr mem'"
  by (auto simp: write_block_def bind_r_Inr)

lemma execute_cases:
  assumes "execute_validated mem d = Inr (mem', block)"
  obtains source weights bias multipliers shifts where "d_opcode d \<in> {OP_CONV2D, OP_FULLY_CONNECTED}"
      "dense_output d source weights bias multipliers shifts = Inr block"
    | source weights bias multipliers shifts where "d_opcode d = OP_DEPTHWISE3X3"
      "depthwise_output d source weights bias multipliers shifts = Inr block"
    | source where "d_opcode d = OP_GLOBAL_AVERAGE_POOL" "gap_output d source = Inr block"
    | a in0 in1 where "d_opcode d = OP_ADD" "add_output d a in0 in1 = Inr block"
    | t cell out where "d_opcode d \<in> {OP_MAX_POOL, OP_AVERAGE_POOL}" "activation_tensor mem d = Inr t" "block = tensor_block out"
      "pool cell t (d_kh d) (d_kw d) (pool_args d) (d_act_min d) (d_act_max d) = Inr out"
    | t out where "d_opcode d = OP_CLAMP" "activation_tensor mem d = Inr t" "block = tensor_block out"
      "npu_clamp t (d_act_min d) (d_act_max d) = Inr out"
  using assms
  by (auto simp: execute_validated_def Let_def map_error_Inr bind_r_Inr write_block_iff execute_dense_def execute_depthwise_def
      execute_global_average_pool_def execute_add_def execute_pool_def execute_clamp_def max_pool_def average_pool_def split: if_splits)

lemma executed_write:
  "execute_validated mem d = Inr (mem', block) \<Longrightarrow> npu_write mem (d_output_base d) block = Inr mem'"
  by (auto simp: execute_validated_def Let_def map_error_Inr bind_r_Inr write_block_iff execute_dense_def execute_depthwise_def
      execute_global_average_pool_def execute_add_def execute_pool_def execute_clamp_def split: if_splits)

lemma executed_block:
  assumes "validate_descriptor d region = Inr ()" "execute_validated mem d = Inr (mem', block)"
  shows "int (length block) \<le> used_span (d_oh d) (d_ow d) (d_cout d) (d_output_row_bytes d)"
proof -
  note same = validated_same_channels [OF assms(1)] and pos = output_span_pos [OF assms(1)]
  from assms(2) show ?thesis
  proof (cases rule: execute_cases)
    case 1
    from length_dense_output [OF 1(2)] pos show ?thesis by simp
  next
    case 2
    from length_depthwise_output [OF 2(2)] pos same(1) 2(1) show ?thesis by simp
  next
    case 3
    from length_gap_output [OF 3(2)] same(1,2) 3(1) lanes_nonneg(5) [of d] show ?thesis by (simp add: used_span_def)
  next
    case 4
    from length_add_output [OF 4(2)] pos show ?thesis by simp
  next
    case 5
    from pool_block [OF assms(1) 5(1,2,4)] 5(3) show ?thesis by simp
  next
    case 6
    from clamp_block [OF assms(1) 6(1,2,4)] 6(3) show ?thesis by simp
  qed
qed

text \<open>C36: Isolation. Whatever the operator, executing a validated descriptor keeps the regions and their sizes
  and changes no byte outside the declared output allocation; in particular it changes none of the
  bytes it reads and none of the descriptor array.\<close>

theorem executor_isolation:
  assumes "from_bytes raw = Inr d" "validate_descriptor d region = Inr ()" "execute_validated mem d = Inr (mem', block)"
  shows "same_outside (byte_range (d_output_base d) (d_output_bytes d)) mem mem' \<and>
    byte_range (d_output_base d) (d_output_bytes d) \<inter> (read_bytes d \<union> region_bytes region) = {}"
proof
  show "same_outside (byte_range (d_output_base d) (d_output_bytes d)) mem mem'"
    using npu_write_frame [OF executed_write [OF assms(3)]]
    by (rule same_outside_mono) (rule byte_range_mono [OF order_trans [OF executed_block [OF assms(2,3)] output_span_allotted [OF assms(2)]]])
  show "byte_range (d_output_base d) (d_output_bytes d) \<inter> (read_bytes d \<union> region_bytes region) = {}"
    using output_allocation_disjoint [OF assms(1,2)] .
qed

theorem executor_isolation_witness:
  "\<exists>mem' block. execute_validated conv_memory conv_record = Inr (mem', block) \<and>
     same_outside (byte_range 4160 8) conv_memory mem'"
proof -
  obtain p where p: "execute_validated conv_memory conv_record = Inr p"
  proof -
    have "case execute_validated conv_memory conv_record of Inl e \<Rightarrow> False | Inr p \<Rightarrow> True" by code_simp
    then show thesis using that by (cases "execute_validated conv_memory conv_record") auto
  qed
  have raw: "from_bytes (concat (map (le_bytes 4) (desc_words conv_record))) = Inr conv_record"
    "validate_descriptor conv_record None = Inr ()" by code_simp+
  have n: "d_output_base conv_record = 4160" "d_output_bytes conv_record = 8" by code_simp+
  show ?thesis using executor_isolation [OF raw, of conv_memory "fst p" "snd p"] p n by (intro exI [of _ "fst p"] exI [of _ "snd p"]) simp
qed

text \<open>Pooling and clamping write their rows one behind the other and leave the declared row stride aside: the
  second row of a clamp with rows of sixteen bytes lands four bytes behind the first.\<close>

theorem clamp_ignores_row_stride:
  "bind_r (execute_validated [(4096, [1, 2, 3, 4, 5, 6, 7, 8]), (8192, replicate 32 0)] clamp_record)
     (\<lambda>(mem, block). Inr (used_span (d_oh clamp_record) (d_ow clamp_record) (d_cout clamp_record) (d_output_row_bytes clamp_record), block,
       snd (mem ! 1))) =
   Inr (20, [1, 2, 3, 4, 5, 6, 7, 8], [1, 2, 3, 4, 5, 6, 7, 8] @ replicate 24 0)"
  by code_simp

section \<open>Jobs\<close>

lemma same_outside_trans:
  assumes "same_outside A m1 m2" "same_outside A m2 m3"
  shows "same_outside A m1 m3"
  using assms unfolding same_outside_def
  by (rule list_all2_trans [rotated -2]) (auto split: prod.splits)

lemma finalized_valid:
  assumes "finalize_job job merged = Inr finalized" "d \<in> set finalized"
  obtains raw region where "from_bytes raw = Inr d" "validate_descriptor d (Some region) = Inr ()"
    "region = (base_of merged ''descriptors'', int (length finalized) * 128)"
proof -
  from assms(1) obtain relocated where
    r: "list_all2 (\<lambda>d w. finalize_descriptor (base_of merged ''descriptors'', int (length relocated) * 128) d = Inr w) relocated finalized"
    by (auto simp: finalize_job_def bind_r_Inr map_r_Inr)
  obtain i where i: "i < length finalized" "finalized ! i = d" using assms(2) by (auto simp: in_set_conv_nth)
  have "finalize_descriptor (base_of merged ''descriptors'', int (length relocated) * 128) (relocated ! i) = Inr d"
    using list_all2_nthD2 [OF r i(1)] i(2) by simp
  then obtain raw where "from_bytes raw = Inr d" "validate_descriptor d (Some (base_of merged ''descriptors'', int (length relocated) * 128)) = Inr ()"
    by (auto simp: finalize_descriptor_def map_error_Inr bind_r_Inr)
  then show thesis using list_all2_lengthD [OF r] by (intro that) auto
qed

definition job_outputs :: "descriptor list \<Rightarrow> int set" where
  "job_outputs ds = (\<Union>d \<in> set ds. byte_range (d_output_base d) (d_output_bytes d))"

text \<open>What a step keeps: memory outside the outputs, one digest per layer, and valid layer tensors.\<close>

definition job_keeps :: "descriptor list \<Rightarrow> exec_state \<Rightarrow> exec_state \<Rightarrow> bool" where
  "job_keeps ds st st' \<longleftrightarrow>
     same_outside (job_outputs ds) (xs_memory st) (xs_memory st') \<and>
     ((\<forall>t \<in> set (xs_layers st). tensor_ok t) \<longrightarrow> (\<forall>t \<in> set (xs_layers st'). tensor_ok t)) \<and>
     (length (xs_digests st) = length (xs_layers st) \<longrightarrow> length (xs_digests st') = length (xs_layers st')) \<and>
     ((\<forall>p \<in> set (xs_descriptor_layers st). snd p \<in> set (xs_layers st)) \<longrightarrow>
        (\<forall>p \<in> set (xs_descriptor_layers st'). snd p \<in> set (xs_layers st')))"

lemma job_keeps_refl: "job_keeps ds st st"
  by (simp add: job_keeps_def same_outside_refl)

lemma job_keeps_trans: "job_keeps ds st st' \<Longrightarrow> job_keeps ds st' st'' \<Longrightarrow> job_keeps ds st st''"
  unfolding job_keeps_def using same_outside_trans by blast

lemma foldl_r_keeps:
  assumes "foldl_r f st ks = Inr st'" "\<And>st k st'. f st k = Inr st' \<Longrightarrow> job_keeps ds st st'"
  shows "job_keeps ds st st'"
  using assms(1)
proof (induction ks arbitrary: st)
  case (Cons k ks)
  then obtain s where "f st k = Inr s" "foldl_r f s ks = Inr st'" by (auto simp: bind_r_Inr)
  with Cons.IH assms(2) show ?case using job_keeps_trans by blast
qed (simp add: job_keeps_refl)

lemma npu_index_mem: "npu_index xs i = Inr x \<Longrightarrow> x \<in> set xs"
  by (auto simp: npu_index_def split: if_splits)

lemma run_descriptor_keeps:
  assumes "\<forall>d \<in> set ds. \<exists>region. validate_descriptor d region = Inr ()" "run_descriptor sha256 ds metadata st index = Inr st'"
  shows "job_keeps ds st st'"
proof -
  from assms(2) obtain d mem block scale t where d: "npu_index ds index = Inr d" "execute_validated (xs_memory st) d = Inr (mem, block)"
    "tensor_new (d_oh d, d_ow d, d_cout d) (signed_bytes block) scale (d_output_zero d) = Inr t"
    "st' = st\<lparr>xs_memory := mem, xs_layers := xs_layers st @ [t], xs_digests := xs_digests st @ [sha256 block],
       xs_descriptor_layers := (index, t) # xs_descriptor_layers st\<rparr>"
    by (auto simp: run_descriptor_def bind_r_Inr map_error_Inr split: option.splits)
  have mem: "d \<in> set ds" by (rule npu_index_mem [OF d(1)])
  then obtain region where v: "validate_descriptor d region = Inr ()" using assms(1) by blast
  have "same_outside (byte_range (d_output_base d) (int (length block))) (xs_memory st) mem"
    by (rule npu_write_frame [OF executed_write [OF d(2)]])
  moreover have "byte_range (d_output_base d) (int (length block)) \<subseteq> job_outputs ds"
    using mem byte_range_mono [OF order_trans [OF executed_block [OF v d(2)] output_span_allotted [OF v]]] by (auto simp: job_outputs_def)
  ultimately have "same_outside (job_outputs ds) (xs_memory st) mem" by (rule same_outside_mono)
  moreover have "tensor_ok t" using tensor_new_Inr [OF d(3)] by blast
  ultimately show ?thesis by (simp add: job_keeps_def d(4))
qed

lemma softmax_ok: "softmax_int8 t m s low = Inr r \<Longrightarrow> tensor_ok r"
  by (auto simp: softmax_int8_def bind_r_Inr dest!: tensor_new_Inr)

lemma run_softmax_keeps:
  assumes "run_softmax sha256 ds metadata st source_index multiplier left_shift diff_min = Inr st'"
  shows "job_keeps ds st st'"
proof -
  from assms obtain r digest where "tensor_ok r" "st' = st\<lparr>xs_layers := xs_layers st @ [r], xs_digests := xs_digests st @ [digest]\<rparr>"
    by (cases multiplier; cases left_shift; cases diff_min)
      (auto simp: run_softmax_def Let_def bind_r_Inr map_error_Inr dest!: softmax_ok split: if_splits option.splits)
  then show ?thesis by (simp add: job_keeps_def same_outside_refl)
qed

lemma run_job_step_keeps:
  assumes "\<forall>d \<in> set ds. \<exists>region. validate_descriptor d region = Inr ()" "run_job_step sha256 ds metadata st s = Inr st'"
  shows "job_keeps ds st st'"
  using assms by (cases s) (auto intro: foldl_r_keeps run_descriptor_keeps run_softmax_keeps)

lemma job_outputs_spare_descriptors:
  assumes "finalize_job job merged = Inr finalized"
  shows "job_outputs finalized \<inter> byte_range (base_of merged ''descriptors'') (int (length finalized) * 128) = {}"
proof -
  have "byte_range (d_output_base d) (d_output_bytes d) \<inter> byte_range (base_of merged ''descriptors'') (int (length finalized) * 128) = {}"
    if d: "d \<in> set finalized" for d
  proof -
    obtain raw region where "from_bytes raw = Inr d" "validate_descriptor d (Some region) = Inr ()"
      "region = (base_of merged ''descriptors'', int (length finalized) * 128)"
      by (rule finalized_valid [OF assms d])
    from output_allocation_disjoint [OF this(1,2)] this(3) show ?thesis by (auto simp: region_bytes_def)
  qed
  then show ?thesis by (auto simp: job_outputs_def)
qed

lemma job_output_mem:
  assumes "xs_layers st \<noteq> []" "\<forall>p \<in> set (xs_descriptor_layers st). snd p \<in> set (xs_layers st)"
  shows "job_output job st \<in> set (xs_layers st)"
  using assms by (auto simp: job_output_def dest!: map_of_SomeD split: option.splits)

text \<open>C37: Whole jobs. When a job returns, every descriptor it ran was finalized and validated, memory outside the
  declared outputs is what the job started with, the outputs never meet the descriptor array, and the
  result holds at least one layer, only valid tensors, one digest per layer and one of its layers as
  output.\<close>

theorem execute_job_safe:
  assumes "execute_job sha256 job input_bytes bases = Inr res"
  shows "\<exists>finalized mem st. finalize_job job (DEFAULT_BASES ++ bases) = Inr finalized \<and>
    job_memory job input_bytes (DEFAULT_BASES ++ bases) = Inr mem \<and>
    foldl_r (run_job_step sha256 finalized (job_metadata job))
      \<lparr>xs_memory = mem, xs_layers = [], xs_digests = [], xs_descriptor_layers = []\<rparr> (cj_steps job) = Inr st \<and>
    same_outside (job_outputs finalized) mem (xs_memory st) \<and>
    job_outputs finalized \<inter> byte_range (base_of (DEFAULT_BASES ++ bases) ''descriptors'') (int (length finalized) * 128) = {} \<and>
    er_layers res = xs_layers st \<and> er_output res \<in> set (er_layers res) \<and> (\<forall>t \<in> set (er_layers res). tensor_ok t) \<and>
    length (er_digests res) = length (er_layers res)"
proof -
  from assms obtain finalized mem st where
    f: "finalize_job job (DEFAULT_BASES ++ bases) = Inr finalized" "job_memory job input_bytes (DEFAULT_BASES ++ bases) = Inr mem"
    and run: "foldl_r (run_job_step sha256 finalized (job_metadata job))
      \<lparr>xs_memory = mem, xs_layers = [], xs_digests = [], xs_descriptor_layers = []\<rparr> (cj_steps job) = Inr st"
    and res: "xs_layers st \<noteq> []" "res = \<lparr>er_layers = xs_layers st, er_digests = xs_digests st, er_output = job_output job st\<rparr>"
    by (auto simp: execute_job_def Let_def bind_r_Inr split: if_splits)
  have "\<forall>d \<in> set finalized. \<exists>region. validate_descriptor d region = Inr ()"
    using finalized_valid [OF f(1)] by metis
  then have keeps: "job_keeps finalized \<lparr>xs_memory = mem, xs_layers = [], xs_digests = [], xs_descriptor_layers = []\<rparr> st"
    by (intro foldl_r_keeps [OF run] run_job_step_keeps)
  then have "job_output job st \<in> set (xs_layers st)" by (intro job_output_mem [OF res(1)]) (simp add: job_keeps_def)
  then show ?thesis
    using f run res(2) keeps job_outputs_spare_descriptors [OF f(1)]
    by (intro exI [of _ finalized] exI [of _ mem] exI [of _ st]) (simp add: job_keeps_def)
qed

definition conv_job :: compiled_job where
  "conv_job = \<lparr>cj_descriptors = [conv_record\<lparr>d_input0_base := 0, d_output_base := 64, d_output_row_bytes := 1\<rparr>],
     cj_weights = [3, 0, 0, 0, 0, 0, 0, 0, 254, 0, 0, 0, 0, 0, 0, 0],
     cj_params = [10, 0, 0, 0, 0, 0, 0, 64, 1, 0, 0, 0, 0, 0, 0, 0], cj_arena_bytes = 128, cj_input_offset = 0,
     cj_relocations = [\<lparr>rl_descriptor_index = 0, rl_word_index = 2, rl_region = ''arena'', rl_offset = 0\<rparr>,
       \<lparr>rl_descriptor_index = 0, rl_word_index = 4, rl_region = ''arena'', rl_offset = 64\<rparr>],
     cj_steps = [NpuStep 0 1], cj_report_input = Some 6, cj_report_operators = [(Some 0, Finite 1 (- 4))], cj_report_output = Some 0\<rparr>"

definition conv_bases :: "string \<Rightarrow> int option" where
  "conv_bases = [''weights'' \<mapsto> 8192, ''params'' \<mapsto> 12288]"

lemma conv_job_runs:
  "map_error (\<lambda>_. ()) (bind_r (execute_job (\<lambda>_. []) conv_job [5, 250, 0, 0, 7, 9] conv_bases) (\<lambda>r. Inr (t_data (er_output r)))) = Inr [33, 9]"
  by code_simp

theorem execute_job_safe_witness:
  "\<exists>res. execute_job (\<lambda>_. []) conv_job [5, 250, 0, 0, 7, 9] conv_bases = Inr res \<and> er_output res \<in> set (er_layers res) \<and>
     t_data (er_output res) = [33, 9]"
proof -
  obtain res where r: "execute_job (\<lambda>_. []) conv_job [5, 250, 0, 0, 7, 9] conv_bases = Inr res" "t_data (er_output res) = [33, 9]"
    using conv_job_runs by (auto simp: map_error_Inr bind_r_Inr)
  from execute_job_safe [OF r(1)] r show ?thesis by blast
qed

end
