(* ===== verification/Npu_Arena.thy ===== *)
theory Npu_Arena
  imports Npu_Pack
begin

text \<open>
  The arena of the compiler: in every reachable state the live and the free blocks partition the bytes below
  the high-water mark.
\<close>

unbundle bit_operations_syntax

section \<open>The arena partitions its bytes\<close>

text \<open>The state of a client: the arena and the blocks it holds, as offset and requested size.\<close>

type_synonym arena_client = "arena \<times> (int \<times> int) list"

definition holds :: "int \<times> int \<Rightarrow> int \<Rightarrow> nat" where
  "holds block x = (if fst block \<le> x \<and> x < fst block + snd block then 1 else 0)"

definition owners :: "(int \<times> int) list \<Rightarrow> int \<Rightarrow> nat" where
  "owners blocks x = (\<Sum>b\<leftarrow>blocks. holds b x)"

definition live_blocks :: "(int \<times> int) list \<Rightarrow> (int \<times> int) list" where
  "live_blocks live = map (\<lambda>(off, sz). (off, aligned sz)) live"

definition arena_inv :: "arena_client \<Rightarrow> bool" where
  "arena_inv s = (case s of (a, live) \<Rightarrow>
     (\<forall>x. owners (live_blocks live @ ar_free a) x = (if 0 \<le> x \<and> x < ar_high a then 1 else 0)) \<and>
     (\<forall>b \<in> set (live_blocks live @ ar_free a). fst b mod 64 = 0 \<and> snd b mod 64 = 0 \<and> 0 \<le> snd b \<and> 0 \<le> fst b) \<and>
     ar_high a mod 64 = 0 \<and> 0 \<le> ar_high a \<and> ar_high a \<le> ar_peak a)"

inductive arena_step :: "arena_client \<Rightarrow> arena_client \<Rightarrow> bool" where
  step_alloc: "0 \<le> sz \<Longrightarrow> arena_alloc a sz = (off, a') \<Longrightarrow> arena_step (a, live) (a', (off, sz) # live)"
| step_free: "b \<in> set live \<Longrightarrow> arena_step (a, live) (arena_free a (fst b) (snd b), remove1 b live)"

lemma and_not_mask: "(x::int) AND NOT (mask n) = push_bit n (drop_bit n x)"
  by (rule bit_eqI) (auto simp: bit_and_iff bit_not_iff bit_mask_iff bit_push_bit_iff bit_drop_bit_eq)

lemma aligned_eq: "aligned sz = (sz + 63) div 64 * 64"
proof -
  have "(63::int) = mask 6" by (simp add: mask_eq_exp_minus_1)
  then show ?thesis
    using and_not_mask [of "sz + 63" 6] by (simp add: aligned_def push_bit_eq_mult drop_bit_eq_div add.commute)
qed

lemma aligned_simps: "0 \<le> sz \<Longrightarrow> sz \<le> aligned sz" "0 \<le> sz \<Longrightarrow> 0 \<le> aligned sz" "aligned sz mod 64 = 0"
proof -
  have "64 * ((sz + 63) div 64) = sz + 63 - (sz + 63) mod 64" by (simp add: minus_mod_eq_mult_div)
  moreover have "(sz + 63) mod 64 < 64" by simp
  ultimately show "0 \<le> sz \<Longrightarrow> sz \<le> aligned sz" unfolding aligned_eq by linarith
qed (auto simp: aligned_eq)

lemma owners_simps [simp]:
  "owners [] x = 0" "owners (b # bs) x = holds b x + owners bs x" "owners (bs @ cs) x = owners bs x + owners cs x"
  by (simp_all add: owners_def)

lemma owners_remove1: "b \<in> set bs \<Longrightarrow> owners bs x = holds b x + owners (remove1 b bs) x"
  by (induction bs) auto

lemma owners_sort: "owners (sort_key f bs) x = owners bs x"
proof -
  have "owners (insort_key f b cs) x = holds b x + owners cs x" for b cs
    by (induction cs) auto
  then show ?thesis by (induction bs) auto
qed

lemma holds_split: "0 \<le> m \<Longrightarrow> m \<le> n \<Longrightarrow> holds (off, n) x = holds (off, m) x + holds (off + m, n - m) x"
  by (auto simp: holds_def)

text \<open>What a list of blocks must satisfy for alignment.\<close>

definition block_ok :: "int \<times> int \<Rightarrow> bool" where
  "block_ok b \<longleftrightarrow> fst b mod 64 = 0 \<and> snd b mod 64 = 0 \<and> 0 \<le> snd b \<and> 0 \<le> fst b"

lemma carve_ok:
  assumes "carve blocks sz = Some (off, rest)" "0 \<le> sz" "sz mod 64 = 0" "\<forall>b \<in> set blocks. block_ok b"
  shows "owners blocks x = holds (off, sz) x + owners rest x" "off mod 64 = 0" "0 \<le> off" "\<forall>b \<in> set rest. block_ok b"
  using assms
proof (induction blocks arbitrary: off rest)
  case (Cons b bs)
  obtain o1 l1 where b: "b = (o1, l1)" by (cases b)
  { case 1 with Cons.IH(1) b show ?case by (auto intro: holds_split split: if_splits) }
  { case 2 with Cons.IH(2) b show ?case by (auto simp: block_ok_def split: if_splits) }
  { case 3 with Cons.IH(3) b show ?case by (auto simp: block_ok_def split: if_splits) }
  { case 4 with Cons.IH(4) b show ?case by (auto simp: block_ok_def mod_add_eq mod_diff_eq split: if_splits) (auto simp: mod_diff_eq [symmetric] mod_add_eq [symmetric]) }
qed auto

lemma merge_block_ok:
  assumes "block_ok b" "\<forall>c \<in> set acc. block_ok c"
  shows "owners (merge_block acc b) x = owners acc x + holds b x" "\<forall>c \<in> set (merge_block acc b). block_ok c"
proof -
  have "owners (merge_block acc b) x = owners acc x + holds b x \<and> (\<forall>c \<in> set (merge_block acc b). block_ok c)"
  proof (cases "acc \<noteq> [] \<and> fst (last acc) + snd (last acc) = fst b")
    case True
    then obtain cs c where acc: "acc = cs @ [c]" by (cases acc rule: rev_cases) auto
    have "holds (fst c, snd c + snd b) x = holds c x + holds b x"
      using True assms by (auto simp: acc holds_def block_ok_def)
    moreover have "block_ok (fst c, snd c + snd b)"
      using True assms by (auto simp: acc block_ok_def)
    ultimately show ?thesis using True assms by (auto simp: merge_block_def acc)
  qed (use assms in \<open>auto simp: merge_block_def\<close>)
  then show "owners (merge_block acc b) x = owners acc x + holds b x" "\<forall>c \<in> set (merge_block acc b). block_ok c" by auto
qed

lemma merge_ok:
  assumes "\<forall>b \<in> set blocks. block_ok b" "\<forall>b \<in> set acc. block_ok b"
  shows "owners (foldl merge_block acc blocks) x = owners acc x + owners blocks x \<and>
    (\<forall>b \<in> set (foldl merge_block acc blocks). block_ok b)"
  using assms
proof (induction blocks arbitrary: acc)
  case (Cons b bs)
  then have b: "block_ok b" "\<forall>c \<in> set acc. block_ok c" by simp_all
  from Cons.IH [of "merge_block acc b"] Cons.prems merge_block_ok [OF b] show ?case by simp
qed simp

lemma arena_inv_eq:
  "arena_inv (a, live) \<longleftrightarrow>
     (\<forall>x. owners (live_blocks live) x + owners (ar_free a) x = (if 0 \<le> x \<and> x < ar_high a then 1 else 0)) \<and>
     (\<forall>b \<in> set (live_blocks live). block_ok b) \<and> (\<forall>b \<in> set (ar_free a). block_ok b) \<and>
     ar_high a mod 64 = 0 \<and> 0 \<le> ar_high a \<and> ar_high a \<le> ar_peak a"
  by (auto simp: arena_inv_def block_ok_def)

lemma arena_cover:
  "arena_inv (a, live) \<Longrightarrow> owners (live_blocks live) x + owners (ar_free a) x = (if 0 \<le> x \<and> x < ar_high a then 1 else 0)"
  by (simp add: arena_inv_eq)

lemma alloc_keeps_partition:
  assumes "arena_inv (a, live)" "0 \<le> sz" "arena_alloc a sz = (off, a')"
  shows "arena_inv (a', (off, sz) # live)"
proof (cases "carve (ar_free a) (aligned sz)")
  case None
  then have a': "off = ar_high a" "a' = a\<lparr>ar_high := ar_high a + aligned sz, ar_peak := max (ar_peak a) (ar_high a + aligned sz)\<rparr>"
    using assms(3) by (auto simp: arena_alloc_def Let_def)
  have "holds (ar_high a, aligned sz) x + (owners (live_blocks live) x + owners (ar_free a) x) =
      (if 0 \<le> x \<and> x < ar_high a + aligned sz then 1 else 0)" for x
    using assms(1) aligned_simps(2) [OF assms(2)] by (auto simp: arena_inv_eq holds_def)
  then show ?thesis
    using assms(1) aligned_simps(2) [OF assms(2)] aligned_simps(3) [of sz] by (auto simp: a' arena_inv_eq live_blocks_def block_ok_def add.assoc mod_add_eq [symmetric])
next
  case (Some p)
  obtain blocks where a': "carve (ar_free a) (aligned sz) = Some (off, blocks)" "a' = a\<lparr>ar_free := blocks\<rparr>"
    using Some assms(3) by (cases p) (auto simp: arena_alloc_def Let_def)
  note c = carve_ok [OF a'(1) aligned_simps(2) [OF assms(2)] aligned_simps(3)]
  have ok: "\<forall>b \<in> set (ar_free a). block_ok b" using assms(1) by (simp add: arena_inv_eq)
  have "holds (off, aligned sz) x + owners (live_blocks live) x + owners blocks x = (if 0 \<le> x \<and> x < ar_high a then 1 else 0)" for x
    using arena_cover [OF assms(1), of x] c(1) [OF ok, of x] by linarith
  then show ?thesis
    using assms(1) aligned_simps(2) [OF assms(2)] aligned_simps(3) [of sz] c(2-4) [OF ok]
    by (auto simp: a'(2) arena_inv_eq live_blocks_def block_ok_def)
qed

lemma free_keeps_partition:
  assumes "arena_inv (a, live)" "b \<in> set live"
  shows "arena_inv (arena_free a (fst b) (snd b), remove1 b live)"
proof -
  let ?b = "(fst b, aligned (snd b))"
  let ?free = "sort_key fst (ar_free a @ [?b])"
  have mem: "?b \<in> set (live_blocks live)" using assms(2) by (force simp: live_blocks_def)
  then have ok: "\<forall>c \<in> set ?free. block_ok c" using assms(1) by (auto simp: arena_inv_eq)
  have out: "owners (live_blocks live) x = holds ?b x + owners (live_blocks (remove1 b live)) x" for x
    using assms(2) by (induction live) (auto simp: live_blocks_def split: prod.splits)
  have kept: "set (live_blocks (remove1 b live)) \<subseteq> set (live_blocks live)"
    using set_remove1_subset [of b live] by (auto simp: live_blocks_def)
  let ?merged = "foldl merge_block [] ?free"
  have merged: "owners ?merged x = owners (ar_free a) x + holds ?b x" "\<forall>c \<in> set ?merged. block_ok c" for x
    using merge_ok [OF ok, of "[]"] by (simp_all add: owners_sort)
  have "owners (live_blocks (remove1 b live)) x + owners ?merged x = (if 0 \<le> x \<and> x < ar_high a then 1 else 0)" for x
    using arena_cover [OF assms(1), of x] out [of x] merged(1) [of x] by linarith
  then show ?thesis
    using assms(1) merged(2) kept by (auto simp: arena_inv_eq arena_free_def)
qed

interpretation arena_sys: invariant_system "\<lambda>s. s = (arena_init, [])" arena_step arena_inv
proof unfold_locales
  show "arena_inv s" if "s = (arena_init, [])" for s
    using that by (simp add: arena_inv_eq arena_init_def live_blocks_def)
  show "arena_inv t" if "arena_inv s" "arena_step s t" for s t
    using that(2,1) by cases (auto intro: alloc_keeps_partition free_keeps_partition)
qed

text \<open>C38: Invariant. Whatever sequence of allocations and releases a client performs, every byte below the
  high-water mark belongs to exactly one live or free block and no byte above it to any; so live
  blocks never overlap, nothing leaks, every block starts on a 64-byte boundary and the reported peak
  covers all of them.\<close>

theorem arena_partition:
  assumes "reach (\<lambda>s. s = (arena_init, [])) arena_step (a, live)"
  shows "(\<forall>x. owners (live_blocks live) x + owners (ar_free a) x = (if 0 \<le> x \<and> x < ar_high a then 1 else 0)) \<and>
    (\<forall>(off, sz) \<in> set live. off mod 64 = 0 \<and> 0 \<le> off \<and> (0 < sz \<longrightarrow> off + sz \<le> ar_peak a))"
proof -
  have inv: "arena_inv (a, live)" by (rule arena_sys.reach_inv [OF assms])
  have "off mod 64 = 0 \<and> 0 \<le> off \<and> (0 < sz \<longrightarrow> off + sz \<le> ar_peak a)" if mem: "(off, sz) \<in> set live" for off sz
  proof -
    have b: "(off, aligned sz) \<in> set (live_blocks live)" using mem by (force simp: live_blocks_def)
    have "off + sz \<le> ar_peak a" if "0 < sz"
    proof -
      have "sz \<le> aligned sz" using aligned_simps(1) that by simp
      then have "1 \<le> owners (live_blocks live) (off + aligned sz - 1)"
        using that owners_remove1 [OF b, of "off + aligned sz - 1"] by (simp add: holds_def)
      then have "off + aligned sz - 1 < ar_high a"
        using arena_cover [OF inv, of "off + aligned sz - 1"] by (simp split: if_splits)
      then show ?thesis using inv \<open>sz \<le> aligned sz\<close> by (simp add: arena_inv_eq)
    qed
    with inv b show ?thesis by (auto simp: arena_inv_eq block_ok_def)
  qed
  with inv show ?thesis by (auto simp: arena_inv_eq)
qed

definition arena_example :: arena_client where
  "arena_example =
     (let (o1, a1) = arena_alloc arena_init 100; (o2, a2) = arena_alloc a1 64; a3 = arena_free a2 o1 100;
          (o3, a4) = arena_alloc a3 10 in (a4, [(o3, 10), (o2, 64)]))"

lemma arena_example_reach: "reach (\<lambda>s. s = (arena_init, [])) arena_step arena_example"
proof -
  let ?R = "reach (\<lambda>s. s = (arena_init, [])) arena_step"
  define a1 a2 a3 a4 where a: "a1 = snd (arena_alloc arena_init 100)" "a2 = snd (arena_alloc a1 64)"
    "a3 = arena_free a2 0 100" "a4 = snd (arena_alloc a3 10)"
  have v: "arena_alloc arena_init 100 = (0, a1)" "arena_alloc a1 64 = (128, a2)" "arena_alloc a3 10 = (0, a4)"
    unfolding a by code_simp+
  have "?R (arena_init, [])" by (rule reach_init) simp
  from reach_step [OF this step_alloc [OF _ v(1)]] have "?R (a1, [(0, 100)])" by simp
  from reach_step [OF this step_alloc [OF _ v(2)]] have "?R (a2, [(128, 64), (0, 100)])" by simp
  from reach_step [OF this step_free [of "(0, 100)"]] have "?R (a3, [(128, 64)])" by (simp add: a(3))
  from reach_step [OF this step_alloc [OF _ v(3)]] have "?R (a4, [(0, 10), (128, 64)])" by simp
  then show ?thesis by (simp add: arena_example_def v a(3) [symmetric])
qed

theorem arena_partition_witness:
  "owners (live_blocks (snd arena_example)) 130 + owners (ar_free (fst arena_example)) 130 = 1 \<and>
   ar_high (fst arena_example) = 192"
proof -
  have "ar_high (fst arena_example) = 192" by code_simp
  then show ?thesis
    using arena_partition [of "fst arena_example" "snd arena_example"] arena_example_reach by simp
qed

end
