(* ===== verification/Spec2Isabelle.thy ===== *)
theory Spec2Isabelle
  imports Pio_Safety Pio_Asm_Roundtrip Apu_Run Apu_Bundle_Props Apu_Flac_Roundtrip Npu_Job_Props Npu_Arena
begin

text \<open>
  Verification development for the host-side reference models of retroSoC.

  \<^bold>\<open>The program.\<close> retroSoC is a microcontroller with three programmable engines. For each of them the
  repository holds an executable reference in Python under \<^verbatim>\<open>src/scripts\<close>, against which the hardware
  and the firmware are checked. The development models these references.
  \<^item> PIO-lite, a two-state-machine pin controller with a shared 32-slot instruction store:
    \<^verbatim>\<open>piolite_asm.py\<close> (the assembler), \<^verbatim>\<open>piolite_isa.py\<close> (instruction set, program validation, relocation,
    slot allocator) and \<^verbatim>\<open>piolite_model.py\<close> (the cycle model). A source text becomes a program by
    \<open>assemble\<close>; a program is validated, relocated and allocated by
    \<open>load\<close>; the resulting allocation is published into the instruction memory of a machine, whose state
    machines are then configured and started on it.
  \<^item> APU, an audio processor with a microcode sequencer: \<^verbatim>\<open>apu_isa.py\<close> (instruction set, loader
    checks, control-flow proof, the APUMC container), \<^verbatim>\<open>apu_primitives.py\<close> (local memory, bit reader,
    entropy decoders, kernels), \<^verbatim>\<open>apu_interpreter.py\<close> (transport and sequencer) and \<^verbatim>\<open>apu_codecs.py\<close> (the
    host decoders of WAV and FLAC against which the decoder microcode is checked). A bundle is built
    by \<open>build_apumc\<close>, checked by \<open>parse_apumc\<close>, and what passes is run by the sequencer, which calls
    the primitives and the transport.
  \<^item> NPU, an INT8 inference engine: \<^verbatim>\<open>npu_reference.py\<close> (numerical profile and operators),
    \<^verbatim>\<open>npu_descriptors.py\<close> (the 32-word job record), \<^verbatim>\<open>npu_compiler_p0.py\<close> (packing and arena)
    and \<^verbatim>\<open>npu_executor.py\<close> (the tiled executor). The compiler packs operands and writes descriptors;
    the executor relocates, validates and runs them, and must agree with the numerical reference.

  \<^bold>\<open>Theories.\<close>
  \<^item> \<open>Soc_Prelude\<close>: Python integers, exceptions as sums, loops that can raise, bit masks as sets, reachability,
    and the interfaces \<open>invariant_system\<close>, \<open>stuttering_simulation\<close> and \<open>region_store\<close>. \<open>Py_Bytes\<close>: byte
    strings, \<open>struct\<close> and CRC-32.
  \<^item> \<open>Pio_ISA\<close>, \<open>Pio_Alloc\<close>: classes \<open>Instruction\<close>, \<open>Program\<close> and \<open>InstructionAllocator\<close>. Words and
    instructions are in bijection; relocation moves branch targets, entry and wrap points and nothing else;
    the bitmap is the disjoint union of the live images, first fit is least and complete, and unloading
    undoes loading.
  \<^item> \<open>Py_Text\<close>, \<open>Pio_Asm\<close>, \<open>Pio_Asm_Props\<close>, \<open>Pio_Asm_Roundtrip\<close>: Python strings and the assembler: tokens, lines,
    labels, directives, operands and the program that \<open>assemble\<close> builds. On arbitrary text it fails only with an error
    at a line of the source, and what it returns is a valid program; conversely every valid program has a source
    (\<open>assemble_print\<close>), which a printer gives.
  \<^item> \<open>Pio_Model\<close>, \<open>Pio_Machine\<close>, \<open>Pio_Safety\<close>: classes \<open>SMConfig\<close>, \<open>SM\<close> and \<open>Machine\<close>, one definition per
    method. \<open>machine_inv\<close> holds in every machine reachable by \<open>machine_step\<close>; from it follow register
    widths, exclusive pin drive, a clock edge that fails only in its argument checks, atomic ticks, sticky
    faults, the contents of the instruction memory, and the short list of faults of a loaded program.
  \<^item> \<open>Apu_ISA\<close>, \<open>Apu_Flow\<close>, \<open>Apu_Bundle\<close>, \<open>Apu_Bundle_Props\<close>: instruction words, validation, the exploration of
    \<open>control_flow_report\<close> and the container. The exploration is exact, loops of accepted entries are
    nested, bundles round trip, damaged bundles are refused, and what parses is accepted by the checks
    that the sequencer relies on.
  \<^item> \<open>Apu_Prim\<close>, \<open>Apu_Kernel\<close>, \<open>Apu_Prim_Props\<close>: class \<open>PrimitiveBam\<close> with its memory and FIFOs. Primitives
    write only their scratch range; the buffered bit reader refines a list of bits (\<open>bit_source\<close>), on
    which Rice and Huffman decoding invert their encodings.
  \<^item> \<open>Apu_Transport\<close>, \<open>Apu_Interp\<close>, \<open>Apu_Run\<close>: classes \<open>TransportModel\<close> and \<open>Machine\<close>. The sequencer on an
    accepted entry simulates the abstract control flow of the checker, hence never leaves its range or
    misuses its return stack, and it ends.
  \<^item> \<open>Apu_Codec\<close>, \<open>Apu_Flac\<close>, \<open>Apu_Flac_Frame\<close>, \<open>Apu_Flac_File\<close>: the host decoders: post-processing of PCM, the bit
    reader, WAV, and FLAC metadata, frames and files. Decoding arbitrary bytes as FLAC ends, raises only codec errors
    located in the input, and returns well-formed audio.
  \<^item> \<open>Apu_Flac_Code\<close>, \<open>Apu_Flac_Lossless\<close>, \<open>Apu_Flac_Roundtrip\<close>: encodings of numbers, residuals, subframes, frames and
    files (the reader of \<open>apu_codecs.py\<close> is an instance of \<open>bit_source\<close>), and that the decoder inverts every one of them.
  \<^item> \<open>Npu_Arith\<close>, \<open>Npu_Arith_Props\<close>, \<open>Npu_Ops\<close>, \<open>Npu_Ops_Props\<close>: Q31 arithmetic with its error bounds and its
    flush threshold, and the operators against their textbook definitions; average pooling answers exactly when its
    output fits the 4096 rows and columns of a tensor.
  \<^item> \<open>Npu_Desc\<close>, \<open>Npu_Desc_Props\<close>: the record, its codec and the validator; a validated record is memory safe.
  \<^item> \<open>Npu_Pack\<close>, \<open>Npu_Arena\<close>: padding, packing and the arena of the compiler; the arena partitions its bytes.
  \<^item> \<open>Npu_Exec\<close>, \<open>Npu_Job\<close>, \<open>Npu_Loops\<close>, \<open>Npu_Exec_Props\<close>, \<open>Npu_Job_Props\<close>: the executor. On packed operands it
    computes \<open>conv2d\<close>, overflow faults included; it changes nothing outside the declared outputs.
  \<^item> This theory composes the APU: from the bytes of a bundle to the end of a run.

  \<^bold>\<open>Bounds and fuel.\<close> Every definition is total. Only the run loop of the sequencer carries fuel:
  \<open>max_retired * (timeout + 1) + timeout + 1\<close> iterations are shown to be enough, since every iteration
  retires an instruction or advances a watchdog that is cleared by a retirement. The exploration of the
  control flow needs none: it stops at the number of states the code itself fixes. The arithmetic is on
  Python's unbounded integers; the widths of registers, accumulators and addresses are results, not
  assumptions.

  \<^bold>\<open>Parameters.\<close> The digest \<open>sha256\<close> is an argument of the job driver, and the coefficient words, which
  \<^verbatim>\<open>apu_p5_coefficients.py\<close> computes with decimal arithmetic, are an argument of the resampler of the host
  codecs. Nothing is assumed of them.

  \<^bold>\<open>What the models show of the code.\<close> \<open>build_apumc\<close> accepts a wait for a DMA primitive that \<open>parse_apumc\<close>
  refuses; a softmax row of 512 equal logits passes its accumulation check and fails in the rounding
  shift; pooling and clamping write their rows densely and ignore the row stride of the output, and they
  are executed although the module's description says that they fault.

  \<^bold>\<open>Not modelled.\<close>
  \<^item> \<open>softmax_parameters\<close> and the lowering of the model graph, which rest on IEEE products, and the reader of TFLite
    flatbuffers in \<^verbatim>\<open>npu_model.py\<close> that feeds the lowering. The operators and the executor take their results as
    arguments.
  \<^item> The C object that \<open>emit_c\<close> of \<^verbatim>\<open>piolite_asm.py\<close> prints, the microcode assembler (a text front end; the bundles it
    produces are modelled), the microcode generator and the keyword-spotting front end (floating-point arrays).
    Source texts with code points above 255.
  \<^item> The messages of exceptions where only the kind and the failing check are observable, and the JSON and
    command-line output of the scripts.
  \<^item> The generators of SystemVerilog and documentation, the
    simulation runners, the environment tools and the physical flows: text templating, process and file
    I/O. The SystemVerilog and C sources, for which the models are the reference.
\<close>

unbundle bit_operations_syntax

section \<open>From a bundle to a run\<close>

text \<open>The default transport of \<open>TransportModel()\<close> and the command-line entry point of the interpreter:
  parse the bundle, select an entry, build the machine for the target and run it. The outcome is
  \<open>None\<close> when the fuel runs out, an error of the parser or of the sequencer, or the final machine.\<close>

definition transport_init :: transport where
  "transport_init =
     \<lparr>tr_input_data = [], tr_output_capacity = 4294967295, tr_stream_output = False, tr_latency = 2,
      tr_output_frame_bytes = 4, tr_input_cursor = 0, tr_output = [], tr_frames = 0, tr_logical_input = 0,
      tr_logical_output = 0, tr_result_code = 0, tr_result_stage = 0, tr_result_detail = 0, tr_events = 0,
      tr_pending = [], tr_completed = [], tr_output_commands = []\<rparr>"

definition apu_main ::
  "nat \<Rightarrow> bytes \<Rightarrow> apu_target \<Rightarrow> nat \<Rightarrow> int \<Rightarrow> pred_inputs \<Rightarrow> (seq_exn + apu_machine) option" where
  "apu_main fuel bundle target entry_index timeout inputs =
     (case parse_apumc bundle target None of
        Inl err \<Rightarrow> Some (Inl (SeqError err))
      | Inr (instrs, entries, h) \<Rightarrow>
          map_option (\<lambda>(r, m). case r of Inl err \<Rightarrow> Inl err | Inr _ \<Rightarrow> Inr m)
            (apu_run fuel
              (machine_new instrs (entries ! entry_index) inputs timeout target
                (if target \<in> {P4, P5} then Some (bam_init memory_init) else None)
                (if target = P5 then Some transport_init else None) (h ! 1))))"

lemma machine_new_begin:
  obtains m where "machine_new instrs e inputs timeout target prims tm abi = begin_entry (Some e) m"
    "am_instructions m = instrs" "am_target m = target" "am_abi m = abi" "am_timeout m = timeout"
  by (rule that [OF machine_new_def]) simp_all

text \<open>C26: End to end. Whatever bytes the interpreter is given, with enough fuel for the entry's
  retirement limit it ends: with a parse error, with the final machine, or with a trap that is never a
  program-range or return-stack trap, because everything the parser lets through is safe for the
  sequencer.\<close>

theorem apu_main_safe:
  assumes "entry_index < 3" "16777215 * (nat timeout + 1) + nat timeout < fuel"
  shows "\<exists>r. apu_main fuel bundle target entry_index timeout inputs = Some r \<and>
    (\<forall>k pc i d. r = Inl (SequencerTrap k pc i d) \<longrightarrow> k \<noteq> 2 \<and> k \<noteq> 3)"
proof (cases "parse_apumc bundle target None")
  case (Inl err)
  then show ?thesis by (simp add: apu_main_def)
next
  case (Inr res)
  then obtain instrs entries h where p: "parse_apumc bundle target None = Inr (instrs, entries, h)"
    by (cases res) auto
  let ?e = "entries ! entry_index"
  have "length entries = 3"
    using p by (auto simp: parse_apumc_def Let_def bind_r_Inr parse_entries_def map_r_Inr py_range_def
        dest!: list_all2_lengthD)
  then have acc: "entry_accepted instrs ?e target (h ! 6) (h ! 1)"
    using assms(1) by (intro parsed_entry_accepted(1) [OF p]) simp
  then have lim: "nat (max_retired ?e) \<le> 16777215"
    by (auto simp: entry_accepted_def validate_entry_def result_simps)
  obtain m where m: "machine_new instrs ?e inputs timeout target
      (if target \<in> {P4, P5} then Some (bam_init memory_init) else None)
      (if target = P5 then Some transport_init else None) (h ! 1) = begin_entry (Some ?e) m"
    "am_instructions m = instrs" "am_target m = target" "am_abi m = h ! 1" "am_timeout m = timeout"
    by (rule machine_new_begin)
  have "nat (max_retired ?e) * (nat timeout + 1) \<le> 16777215 * (nat timeout + 1)" using lim by (rule mult_right_mono) simp
  then have "\<exists>p. apu_run fuel (begin_entry (Some ?e) m) = Some p \<and> run_answer ?e p"
    using acc assms(2) m by (intro accepted_run_answer [of _ _ "h ! 6"]) auto
  then obtain r m' where r: "apu_run fuel (begin_entry (Some ?e) m) = Some (r, m')" "run_answer ?e (r, m')" by auto
  have "apu_main fuel bundle target entry_index timeout inputs = Some (case r of Inl err \<Rightarrow> Inl err | Inr _ \<Rightarrow> Inr m')"
    unfolding apu_main_def p sum.case prod.case m(1) r(1) by simp
  moreover have "k \<noteq> 2 \<and> k \<noteq> 3" if "(case r of Inl err \<Rightarrow> Inl err | Inr _ \<Rightarrow> Inr m') = Inl (SequencerTrap k pc i d)" for k pc i d
    using that r(2) by (auto simp: run_answer_def split: sum.splits)
  ultimately show ?thesis by blast
qed

theorem apu_main_safe_witness:
  "\<exists>bs h r. parse_apumc bs P3 None = Inr (tiny_code, tiny_entries, h) \<and> apu_main 40000000 bs P3 0 1 seq_inputs = Some r"
proof -
  obtain bs h where "parse_apumc bs P3 None = Inr (tiny_code, tiny_entries, h)" by (rule tiny_parse)
  with apu_main_safe [of 0 1 40000000 bs P3 seq_inputs] show ?thesis by auto
qed

end
